(* ===== verification/Prelude.thy ===== *)
theory Prelude
  imports Main "HOL-Library.Word" "HOL-Library.Monad_Syntax"
begin

unbundle bit_operations_syntax

text \<open>
  The vocabulary every component shares.

  Signed C integers are mathematical integers; every place where the C code narrows a value
  (an assignment to, or a cast to, a 16 or 32 bit type) applies \<open>i16\<close> or \<open>i32\<close>, which wrap
  modulo the width as the two's complement targets of this code do. An arithmetic right shift
  is \<open>asr\<close> (it rounds towards minus infinity), a left shift is \<open>shl\<close>. Bytes and other
  unsigned quantities on which the code works bitwise are words.

  A block of memory is a list. An access outside the block is undefined behaviour in C, so
  \<open>mem_get\<close> and \<open>mem_put\<close> return an option: a theorem that an operation returns \<open>Some\<close>
  states, among other things, that it never leaves its buffers.
\<close>

named_theorems int_ranges \<open>results that stay inside the width of a machine integer\<close>
named_theorems mem_simps \<open>reading and writing blocks of memory\<close>

type_synonym u8 = "8 word"
type_synonym u16 = "16 word"
type_synonym u32 = "32 word"

subsection \<open>Machine integers\<close>

definition i16 :: "int \<Rightarrow> int" where
  "i16 x = (x + 32768) mod 65536 - 32768"

definition i32 :: "int \<Rightarrow> int" where
  "i32 x = (x + 2147483648) mod 4294967296 - 2147483648"

definition is_i16 :: "int \<Rightarrow> bool" where
  "is_i16 x \<longleftrightarrow> -32768 \<le> x \<and> x \<le> 32767"

definition is_i32 :: "int \<Rightarrow> bool" where
  "is_i32 x \<longleftrightarrow> -2147483648 \<le> x \<and> x \<le> 2147483647"

definition asr :: "int \<Rightarrow> nat \<Rightarrow> int" where
  "asr x n = x div 2 ^ n"

definition shl :: "int \<Rightarrow> nat \<Rightarrow> int" where
  "shl x n = x * 2 ^ n"

lemma is_i16_i16 [simp, int_ranges]: "is_i16 (i16 x)"
proof -
  have "0 \<le> (x + 32768) mod 65536 \<and> (x + 32768) mod 65536 < 65536" by simp
  then show ?thesis by (simp add: is_i16_def i16_def)
qed

lemma is_i32_i32 [simp, int_ranges]: "is_i32 (i32 x)"
proof -
  have "0 \<le> (x + 2147483648) mod 4294967296 \<and> (x + 2147483648) mod 4294967296 < 4294967296"
    by simp
  then show ?thesis by (simp add: is_i32_def i32_def)
qed

lemma i16_id [simp]: "is_i16 x \<Longrightarrow> i16 x = x"
  by (simp add: is_i16_def i16_def)

lemma i32_id [simp]: "is_i32 x \<Longrightarrow> i32 x = x"
  by (simp add: is_i32_def i32_def)

lemma i16_idem [simp]: "i16 (i16 x) = i16 x"
  by simp

lemma is_i16_imp_i32: "is_i16 x \<Longrightarrow> is_i32 x"
  by (simp add: is_i16_def is_i32_def)

lemma asr_0 [simp]: "asr x 0 = x"
  by (simp add: asr_def)

lemma shl_0 [simp]: "shl x 0 = x"
  by (simp add: shl_def)

lemma asr_shl [simp]: "asr (shl x n) n = x"
  by (simp add: asr_def shl_def)

lemma asr_mono: "x \<le> y \<Longrightarrow> asr x n \<le> asr y n"
  by (simp add: asr_def zdiv_mono1)

lemma asr_nonneg [simp]: "0 \<le> asr x n \<longleftrightarrow> 0 \<le> x"
  by (simp add: asr_def pos_imp_zdiv_nonneg_iff)

lemma asr_neg [simp]: "asr x n < 0 \<longleftrightarrow> x < 0"
  by (simp add: asr_def pos_imp_zdiv_neg_iff)

lemma asr_bounds: "lo * 2 ^ n \<le> x \<Longrightarrow> x < (hi + 1) * 2 ^ n \<Longrightarrow> lo \<le> asr x n \<and> asr x n \<le> hi"
proof -
  assume lo: "lo * 2 ^ n \<le> x" and hi: "x < (hi + 1) * 2 ^ n"
  have "lo * 2 ^ n div 2 ^ n \<le> x div 2 ^ n"
    using lo by (rule zdiv_mono1) simp
  moreover have "x div 2 ^ n < hi + 1"
  proof (rule ccontr)
    assume "\<not> x div 2 ^ n < hi + 1"
    then have "(hi + 1) * 2 ^ n \<le> x div 2 ^ n * 2 ^ n" by (intro mult_right_mono) auto
    also have "\<dots> \<le> x" by (simp add: minus_mod_eq_div_mult [symmetric])
    finally show False using hi by simp
  qed
  ultimately show ?thesis by (simp add: asr_def)
qed

lemma div_less_int: "0 < c \<Longrightarrow> a < b * c \<Longrightarrow> a div c < b" for a b c :: int
proof (rule ccontr)
  assume c: "0 < c" "a < b * c" "\<not> a div c < b"
  then have "b * c \<le> a div c * c" by (intro mult_right_mono) auto
  also have "\<dots> \<le> a" using c(1) by (simp add: minus_mod_eq_div_mult [symmetric])
  finally show False using c(2) by simp
qed

lemma is_i16_asr [int_ranges]: "is_i16 x \<Longrightarrow> is_i16 (asr x n)"
proof -
  assume x: "is_i16 x"
  have p: "(1::int) \<le> 2 ^ n" by simp
  have "-32768 * 2 ^ n \<le> x"
  proof -
    have "-32768 * 2 ^ n \<le> -32768 * (1::int)" using p by simp
    also have "-32768 * (1::int) \<le> x" using x by (simp add: is_i16_def)
    finally show ?thesis .
  qed
  moreover have "x < (32767 + 1) * 2 ^ n"
  proof -
    have "(32767 + 1) * (1::int) \<le> (32767 + 1) * 2 ^ n" using p by (intro mult_left_mono) auto
    moreover have "x < (32767 + 1) * (1::int)" using x by (simp add: is_i16_def)
    ultimately show ?thesis by (rule order_less_le_trans [rotated])
  qed
  ultimately show ?thesis using asr_bounds [of "-32768" n x 32767] by (simp add: is_i16_def)
qed

text \<open>\<open>assert\<close> is \<open>require\<close>: the program ends (\<open>None\<close>) where the condition is false.\<close>

definition require :: "bool \<Rightarrow> unit option" where
  "require b = (if b then Some () else None)"

lemma require_True [simp]: "require True = Some ()"
  by (simp add: require_def)

lemma require_eq_Some [simp]: "require b = Some u \<longleftrightarrow> b"
  by (simp add: require_def)

lemma bind_SomeE:
  assumes "Option.bind f g = Some x"
  obtains y where "f = Some y" and "g y = Some x"
  using assms by (auto simp: Option.bind_eq_Some_conv)

subsection \<open>Words read as signed numbers\<close>

lemma sint_i32: "sint (x :: u32) = i32 (uint x)"
  by (simp add: i32_def sint_uint signed_take_bit_eq_take_bit_shift take_bit_eq_mod)

lemma i32_cong: "a mod 4294967296 = b mod 4294967296 \<Longrightarrow> i32 a = i32 b"
  unfolding i32_def by (drule mod_add_cong [OF _ refl, where b = 2147483648]) simp

lemma sint_diff: "sint (a - b :: u32) = i32 (uint a - uint b)"
  unfolding sint_i32 by (rule i32_cong) (simp add: uint_word_ariths)

lemma i32_wrapped: "2147483648 \<le> x \<Longrightarrow> x < 6442450944 \<Longrightarrow> i32 x = x - 4294967296"
proof -
  assume x: "2147483648 \<le> x" "x < 6442450944"
  have "i32 x = i32 (x - 4294967296)" by (rule i32_cong) simp
  also have "\<dots> = x - 4294967296" using x by (intro i32_id) (simp add: is_i32_def)
  finally show ?thesis .
qed

lemma sint_cases: "sint (x :: u32) = (if uint x < 2147483648 then uint x else uint x - 4294967296)"
proof (cases "uint x < 2147483648")
  case True
  then have "is_i32 (uint x)" unfolding is_i32_def using uint_ge_0 [of x] by linarith
  then show ?thesis using True by (simp add: sint_i32)
next
  case False
  then have "i32 (uint x) = uint x - 4294967296" using uint_bounded [of x] by (intro i32_wrapped) simp_all
  then show ?thesis using False by (simp add: sint_i32)
qed

text \<open>The macros on two words less than half the range ahead of a third.\<close>

lemma sint_diff_near:
  assumes "uint (a - c) < 2147483648" and "uint (b - c :: u32) < 2147483648"
  shows "sint (a - b) = uint (a - c) - uint (b - c)"
proof -
  have "a - b = (a - c) - (b - c)" by simp
  then have "sint (a - b) = i32 (uint (a - c) - uint (b - c))" by (metis sint_diff)
  moreover have "is_i32 (uint (a - c) - uint (b - c))"
    unfolding is_i32_def using assms uint_ge_0 [of "a - c"] uint_ge_0 [of "b - c"] by linarith
  ultimately show ?thesis by simp
qed

subsection \<open>Bits of shifted and masked integers\<close>

lemma shl_or:
  assumes "0 \<le> b" and "b < 2 ^ n"
  shows "shl a n OR b = shl a n + b"
proof -
  have "take_bit n b = b" using assms by (simp add: take_bit_int_eq_self_iff)
  then have "push_bit n a OR b = push_bit n a + b"
    by (metis concat_bit_def concat_bit_eq add.commute or.commute)
  then show ?thesis by (simp add: shl_def push_bit_eq_mult)
qed

lemma bit_asr: "bit (asr x n) i = bit x (n + i)"
  by (simp add: asr_def drop_bit_eq_div [symmetric] bit_simps)

lemma bit_shl: "bit (shl x n) i = (n \<le> i \<and> bit x (i - n))"
  by (simp add: shl_def push_bit_eq_mult [symmetric] bit_simps)

lemma bit_mask_int: "bit (x AND (2 ^ k - 1)) i = (i < k \<and> bit x i)" for x :: int
  by (simp add: mask_eq_exp_minus_1 [symmetric] take_bit_eq_mask [symmetric] bit_take_bit_iff)

lemma bit_byte: "bit (uint (word_of_int e :: u8)) i = (i < 8 \<and> bit e i)"
  by (simp add: uint_word_of_int_eq bit_take_bit_iff)

lemmas bit_fields = bit_asr bit_shl bit_byte bit_or_iff
  bit_mask_int [of _ 1, simplified] bit_mask_int [of _ 2, simplified] bit_mask_int [of _ 3, simplified]
  bit_mask_int [of _ 4, simplified] bit_mask_int [of _ 5, simplified] bit_mask_int [of _ 6, simplified]
  bit_mask_int [of _ 7, simplified]

lemma small_bits: "0 \<le> x \<Longrightarrow> x < 2 ^ w \<Longrightarrow> bit x n \<Longrightarrow> n < w" for x :: int
  by (metis bit_take_bit_iff take_bit_int_eq_self_iff)

lemma small_eqI:
  fixes x y :: int
  assumes "0 \<le> y" and "y < 2 ^ w" and "\<And>n. bit x n \<Longrightarrow> n < w"
    and "\<forall>n \<in> set [0..<w]. bit x n = bit y n"
  shows "x = y"
  using assms small_bits by (intro bit_eqI) (metis atLeastLessThan_upt atLeast0LessThan lessThan_iff)

subsection \<open>Blocks of memory\<close>

definition mem_get :: "'a list \<Rightarrow> nat \<Rightarrow> 'a option" where
  "mem_get xs i = (if i < length xs then Some (xs ! i) else None)"

definition mem_put :: "'a list \<Rightarrow> nat \<Rightarrow> 'a \<Rightarrow> 'a list option" where
  "mem_put xs i v = (if i < length xs then Some (xs[i := v]) else None)"

text \<open>
  \<open>mem_read xs i n\<close> copies \<open>n\<close> cells out of a block, \<open>mem_write xs i ys\<close> copies \<open>ys\<close> into it
  at \<open>i\<close> (\<open>memcpy\<close>/\<open>memmove\<close> between different blocks).
\<close>

definition mem_read :: "'a list \<Rightarrow> nat \<Rightarrow> nat \<Rightarrow> 'a list option" where
  "mem_read xs i n = (if i + n \<le> length xs then Some (take n (drop i xs)) else None)"

definition mem_write :: "'a list \<Rightarrow> nat \<Rightarrow> 'a list \<Rightarrow> 'a list option" where
  "mem_write xs i ys =
     (if i + length ys \<le> length xs
      then Some (take i xs @ ys @ drop (i + length ys) xs) else None)"

lemma mem_get_Some [mem_simps]: "i < length xs \<Longrightarrow> mem_get xs i = Some (xs ! i)"
  by (simp add: mem_get_def)

lemma mem_put_Some [mem_simps]: "i < length xs \<Longrightarrow> mem_put xs i v = Some (xs[i := v])"
  by (simp add: mem_put_def)

lemma mem_read_Some [mem_simps]:
  "i + n \<le> length xs \<Longrightarrow> mem_read xs i n = Some (take n (drop i xs))"
  by (simp add: mem_read_def)

lemma mem_write_Some [mem_simps]:
  "i + length ys \<le> length xs \<Longrightarrow>
     mem_write xs i ys = Some (take i xs @ ys @ drop (i + length ys) xs)"
  by (simp add: mem_write_def)

lemma ball_list_update:
  "\<forall>v \<in> set xs. P v \<Longrightarrow> P x \<Longrightarrow> \<forall>v \<in> set (xs[i := x]). P v"
  using set_update_subset_insert [of xs i x] by auto

lemma foldl_update_keeps:
  assumes "\<And>ys k. P (f ys k)"
  shows "\<forall>v \<in> set xs. P v \<Longrightarrow>
    length (foldl (\<lambda>ys k. ys[g k := f ys k]) xs ks) = length xs \<and>
    (\<forall>v \<in> set (foldl (\<lambda>ys k. ys[g k := f ys k]) xs ks). P v)"
proof (induction ks arbitrary: xs)
  case (Cons k ks)
  have "\<forall>v \<in> set (xs[g k := f xs k]). P v" using Cons.prems assms by (rule ball_list_update)
  then show ?case using Cons.IH by fastforce
qed simp

lemma map_upt_eqI: "length ys = n \<Longrightarrow> (\<And>i. i < n \<Longrightarrow> f i = ys ! i) \<Longrightarrow> map f [0..<n] = ys"
  by (rule nth_equalityI) auto

text \<open>Indexing into blocks of equal length.\<close>

lemma length_concat_blocks:
  "(\<And>j. length (g j) = L) \<Longrightarrow> length (concat (map g [0..<n])) = L * n"
  by (induction n) simp_all

lemma nth_concat_blocks:
  assumes "\<And>j. length (g j) = L" and "i < n" and "k < L"
  shows "concat (map g [0..<n]) ! (L * i + k) = g i ! k"
  using assms(2)
proof (induction n)
  case (Suc n)
  have len: "length (concat (map g [0..<n])) = L * n" by (rule length_concat_blocks [OF assms(1)])
  show ?case
  proof (cases "i = n")
    case True
    then show ?thesis using len by (simp add: nth_append)
  next
    case False
    then have "i < n" using Suc.prems by simp
    then have "L * Suc i \<le> L * n" by (intro mult_le_mono2) simp
    then have "L * i + k < L * n" using assms(3) by simp
    then show ?thesis using Suc.IH [OF \<open>i < n\<close>] len by (simp add: nth_append)
  qed
qed simp

lemma mem_write_length: "mem_write xs i ys = Some zs \<Longrightarrow> length zs = length xs"
  by (auto simp: mem_write_def split: if_splits)

lemma mem_put_length: "mem_put xs i v = Some zs \<Longrightarrow> length zs = length xs"
  by (auto simp: mem_put_def split: if_splits)

end
