(* ===== verification/Bit_Stream.thy ===== *)
theory Bit_Stream
  imports Prelude
begin

text \<open>
  What a bit packer promises its clients, independently of Speex: a writer appends the bits
  of a field, most significant bit first, to what it has written; a reader takes the next
  bits of what remains. The locales state the two contracts and the round trip of a list of
  fields through both; \<open>Speex_Bits\<close> interprets them on the code's operations.
\<close>

subsection \<open>Bytes, fields and their bits\<close>

definition byte_bits :: "u8 \<Rightarrow> bool list" where
  "byte_bits c = map (\<lambda>i. bit c (7 - i)) [0..<8]"

definition buf_bits :: "u8 list \<Rightarrow> bool list" where
  "buf_bits cs = concat (map byte_bits cs)"

definition msb_bits :: "nat \<Rightarrow> u32 \<Rightarrow> bool list" where
  "msb_bits n d = map (bit d) (rev [0..<n])"

definition add_bit :: "u32 \<Rightarrow> bool \<Rightarrow> u32" where
  "add_bit d v = push_bit 1 d OR of_bool v"

definition bits_val :: "bool list \<Rightarrow> u32" where
  "bits_val vs = foldl add_bit 0 vs"

lemma length_byte_bits [simp]: "length (byte_bits c) = 8"
  by (simp add: byte_bits_def)

lemma length_buf_bits [simp]: "length (buf_bits cs) = 8 * length cs"
  by (induction cs) (simp_all add: buf_bits_def)

lemma buf_bits_Nil [simp]: "buf_bits [] = []"
  by (simp add: buf_bits_def)

lemma buf_bits_append: "buf_bits (xs @ ys) = buf_bits xs @ buf_bits ys"
  by (simp add: buf_bits_def)

lemma nth_buf_bits:
  "k < 8 * length cs \<Longrightarrow> buf_bits cs ! k = bit (cs ! (k div 8)) (7 - k mod 8)"
proof (induction cs arbitrary: k)
  case Nil
  then show ?case by simp
next
  case (Cons c cs)
  show ?case
  proof (cases "k < 8")
    case True
    then show ?thesis by (simp add: buf_bits_def byte_bits_def nth_append)
  next
    case False
    then have "buf_bits (c # cs) ! k = buf_bits cs ! (k - 8)"
      by (simp add: buf_bits_def nth_append)
    also have "\<dots> = bit (cs ! ((k - 8) div 8)) (7 - (k - 8) mod 8)"
      using False Cons.prems by (intro Cons.IH) simp
    finally have "buf_bits (c # cs) ! k = bit (cs ! ((k - 8) div 8)) (7 - (k - 8) mod 8)" .
    moreover have "(k - 8) mod 8 = k mod 8" and "(k - 8) div 8 = k div 8 - 1"
      using False by (simp_all add: le_mod_geq le_div_geq)
    ultimately show ?thesis using False by (simp add: nth_Cons' div_eq_0_iff)
  qed
qed

lemma take_buf_bits: "take (8 * n) (buf_bits cs) = buf_bits (take n cs)"
proof -
  have "buf_bits cs = buf_bits (take n cs) @ buf_bits (drop n cs)"
    by (simp add: buf_bits_append [symmetric])
  then show ?thesis
    by (cases "n \<le> length cs") auto
qed

lemma msb_bits_0 [simp]: "msb_bits 0 d = []"
  by (simp add: msb_bits_def)

lemma msb_bits_Suc: "msb_bits (Suc n) d = bit d n # msb_bits n d"
  by (simp add: msb_bits_def)

lemma length_msb_bits [simp]: "length (msb_bits n d) = n"
  by (simp add: msb_bits_def)

lemma foldl_add_bit_msb_bits:
  "foldl add_bit a (msb_bits n d) = push_bit n a OR take_bit n d"
proof (induction n arbitrary: a)
  case 0
  then show ?case by simp
next
  case (Suc n)
  have "foldl add_bit a (msb_bits (Suc n) d) = push_bit n (add_bit a (bit d n)) OR take_bit n d"
    by (simp add: msb_bits_Suc Suc.IH)
  also have "\<dots> = push_bit (Suc n) a OR take_bit (Suc n) d"
    by (rule bit_eqI)
       (auto simp: add_bit_def bit_simps less_Suc_eq not_less Suc_diff_Suc
         dest: order_antisym intro: Suc_leI)
  finally show ?case .
qed

lemma bits_val_msb_bits: "bits_val (msb_bits n d) = take_bit n d"
  by (simp add: bits_val_def foldl_add_bit_msb_bits)

subsection \<open>Lists of fields\<close>

text \<open>A field is a value and the number of bits it occupies.\<close>

type_synonym field = "u32 \<times> nat"

fun put_fields :: "('s \<Rightarrow> u32 \<Rightarrow> nat \<Rightarrow> 's option) \<Rightarrow> 's \<Rightarrow> field list \<Rightarrow> 's option" where
  "put_fields pack s [] = Some s"
| "put_fields pack s ((d, n) # fs) = do { s' \<leftarrow> pack s d n; put_fields pack s' fs }"

fun get_fields ::
    "('s \<Rightarrow> nat \<Rightarrow> (u32 \<times> 's) option) \<Rightarrow> 's \<Rightarrow> nat list \<Rightarrow> (u32 list \<times> 's) option" where
  "get_fields unpack s [] = Some ([], s)"
| "get_fields unpack s (n # ns) =
     do { (d, s') \<leftarrow> unpack s n;
          (ds, s'') \<leftarrow> get_fields unpack s' ns;
          Some (d # ds, s'') }"

definition fields_bits :: "field list \<Rightarrow> bool list" where
  "fields_bits fs = concat (map (\<lambda>(d, n). msb_bits n d) fs)"

definition fields_width :: "field list \<Rightarrow> nat" where
  "fields_width fs = sum_list (map snd fs)"

definition fields_ok :: "field list \<Rightarrow> bool" where
  "fields_ok fs \<longleftrightarrow> list_all (\<lambda>(d, n). n \<le> 32) fs"

definition field_values :: "field list \<Rightarrow> u32 list" where
  "field_values fs = map (\<lambda>(d, n). take_bit n d) fs"

lemma fields_simps [simp]:
  "fields_bits [] = []" "fields_width [] = 0" "field_values [] = []" "fields_ok []"
  "fields_bits ((d, n) # fs) = msb_bits n d @ fields_bits fs"
  "fields_width ((d, n) # fs) = n + fields_width fs"
  "field_values ((d, n) # fs) = take_bit n d # field_values fs"
  "fields_ok ((d, n) # fs) \<longleftrightarrow> n \<le> 32 \<and> fields_ok fs"
  by (simp_all add: fields_bits_def fields_width_def field_values_def fields_ok_def)

lemma length_fields_bits [simp]: "length (fields_bits fs) = fields_width fs"
  by (induction fs) auto

subsection \<open>The contracts\<close>

locale bit_writer =
  fixes pack :: "'s \<Rightarrow> u32 \<Rightarrow> nat \<Rightarrow> 's option"
    and written :: "'s \<Rightarrow> bool list"
    and winv :: "'s \<Rightarrow> bool"
    and fits :: "'s \<Rightarrow> nat \<Rightarrow> bool"
  assumes pack_appends: "winv s \<Longrightarrow> n \<le> 32 \<Longrightarrow> fits s n \<Longrightarrow>
      \<exists>s'. pack s d n = Some s' \<and> winv s' \<and> written s' = written s @ msb_bits n d \<and>
           (\<forall>m. fits s (n + m) \<longrightarrow> fits s' m)"
    and fits_less: "fits s n \<Longrightarrow> m \<le> n \<Longrightarrow> fits s m"
begin

lemma put_fields_appends:
  "winv s \<Longrightarrow> fields_ok fs \<Longrightarrow> fits s (fields_width fs + m) \<Longrightarrow>
     \<exists>s'. put_fields pack s fs = Some s' \<and> winv s' \<and> written s' = written s @ fields_bits fs \<and>
          fits s' m"
proof (induction fs arbitrary: s)
  case Nil
  then show ?case by simp
next
  case (Cons f fs)
  obtain d n where f: "f = (d, n)" by fastforce
  have ok: "fields_ok fs" using Cons.prems(2) f by simp
  have "fits s n" using Cons.prems(3) f by (auto intro: fits_less)
  then obtain s1 where s1: "pack s d n = Some s1" "winv s1"
      "written s1 = written s @ msb_bits n d" "fits s1 (fields_width fs + m)"
    using pack_appends [of s n d] Cons.prems f by (auto simp: add.assoc)
  from Cons.IH [OF s1(2) ok s1(4)] s1(1,3) f show ?case by auto
qed

end

locale bit_reader =
  fixes unpack :: "'r \<Rightarrow> nat \<Rightarrow> (u32 \<times> 'r) option"
    and remaining :: "'r \<Rightarrow> bool list"
    and rinv :: "'r \<Rightarrow> bool"
  assumes unpack_takes: "rinv r \<Longrightarrow> n \<le> length (remaining r) \<Longrightarrow>
      \<exists>r'. unpack r n = Some (bits_val (take n (remaining r)), r') \<and> rinv r' \<and>
           remaining r' = drop n (remaining r)"
begin

lemma get_fields_takes:
  "rinv r \<Longrightarrow> remaining r = fields_bits fs @ rest \<Longrightarrow>
     \<exists>r'. get_fields unpack r (map snd fs) = Some (field_values fs, r') \<and> rinv r' \<and>
          remaining r' = rest"
proof (induction fs arbitrary: r)
  case Nil
  then show ?case by simp
next
  case (Cons f fs)
  obtain d n where f: "f = (d, n)" by fastforce
  obtain r1 where r1: "unpack r n = Some (take_bit n d, r1)" "rinv r1"
      "remaining r1 = fields_bits fs @ rest"
    using unpack_takes [of r n] Cons.prems f by (auto simp: bits_val_msb_bits)
  from Cons.IH [OF r1(2,3)] r1(1) f show ?case by auto
qed

end

locale bit_channel = bit_writer pack written winv fits + bit_reader unpack remaining rinv
  for pack :: "'s \<Rightarrow> u32 \<Rightarrow> nat \<Rightarrow> 's option"
    and written winv fits
    and unpack :: "'r \<Rightarrow> nat \<Rightarrow> (u32 \<times> 'r) option"
    and remaining rinv +
  fixes transfer :: "'s \<Rightarrow> 'r option"
  assumes transfer_keeps: "winv s \<Longrightarrow> fits s 0 \<Longrightarrow>
      \<exists>r pad. transfer s = Some r \<and> rinv r \<and> remaining r = written s @ pad"
begin

theorem fields_round_trip:
  assumes "winv s" and "written s = []" and "fields_ok fs" and "fits s (fields_width fs)"
  shows "\<exists>s' r r'. put_fields pack s fs = Some s' \<and> transfer s' = Some r \<and>
           get_fields unpack r (map snd fs) = Some (field_values fs, r')"
proof -
  obtain s' where s': "put_fields pack s fs = Some s'" "winv s'" "written s' = fields_bits fs"
      "fits s' 0"
    using put_fields_appends [of s fs 0] assms by auto
  obtain r pad where r: "transfer s' = Some r" "rinv r" "remaining r = fields_bits fs @ pad"
    using transfer_keeps [OF s'(2,4)] s'(3) by auto
  from get_fields_takes [OF r(2,3)] s'(1) r(1) show ?thesis by blast
qed

end

end
