(* ===== verification/Speex_Bits.thy ===== *)
theory Speex_Bits
  imports Bit_Stream
begin

text \<open>
  The bit packer of Speex: \<open>jni/speex-1.2rc1/libspeex/bits.c\<close>, in the build's configuration
  (\<open>BYTES_PER_CHAR = 1\<close>, \<open>BITS_PER_CHAR = 8\<close>, \<open>LOG2_BITS_PER_CHAR = 3\<close>).

  The packet is a buffer of bytes filled from the most significant bit of each byte on.
  Every operation of the file is a function on the record \<open>speex_bits\<close>. Results of type
  \<open>option\<close> are \<open>None\<close> where the code would access memory outside its buffer, and, for
  \<open>speex_bits_insert_terminator\<close> and \<open>speex_bits_write\<close>, where it would not return.
  \<open>speex_realloc\<close> is a parameter \<open>ra\<close>: \<open>ra cs n\<close> is the block \<open>realloc\<close> returns for the
  block \<open>cs\<close> and the size \<open>n\<close>, \<open>None\<close> when it fails.
\<close>

subsection \<open>State\<close>

record speex_bits =
  chars :: "u8 list"
  nbBits :: int
  charPtr :: nat
  bitPtr :: nat
  owner :: bool
  overflow :: bool
  buf_size :: nat

type_synonym reallocator = "u8 list \<Rightarrow> nat \<Rightarrow> u8 list option"

text \<open>What the C library documents of \<open>realloc\<close>: the size asked for, the old contents kept.\<close>

definition realloc_contract :: "reallocator \<Rightarrow> bool" where
  "realloc_contract ra \<longleftrightarrow>
     (\<forall>cs n cs'. ra cs n = Some cs' \<longrightarrow>
        length cs' = n \<and> take (min n (length cs)) cs' = take (min n (length cs)) cs)"

subsection \<open>Initialisation\<close>

definition MAX_CHARS_PER_FRAME :: nat where
  "MAX_CHARS_PER_FRAME = 2000"

definition speex_bits_reset :: "speex_bits \<Rightarrow> speex_bits option" where
  "speex_bits_reset b =
     do { cs \<leftarrow> mem_put (chars b) 0 0;
          Some (b\<lparr>chars := cs, nbBits := 0, charPtr := 0, bitPtr := 0, overflow := False\<rparr>) }"

text \<open>
  \<open>speex_alloc\<close> is \<open>calloc\<close>: \<open>alloc_ok\<close> says whether it succeeds, and the block it returns
  is cleared. A null pointer is a block of no bytes.
\<close>

definition speex_bits_init :: "bool \<Rightarrow> speex_bits \<Rightarrow> speex_bits option" where
  "speex_bits_init alloc_ok b =
     (if \<not> alloc_ok then Some (b\<lparr>chars := []\<rparr>)
      else speex_bits_reset
        (b\<lparr>chars := replicate MAX_CHARS_PER_FRAME 0, buf_size := MAX_CHARS_PER_FRAME,
           owner := True\<rparr>))"

definition speex_bits_init_buffer :: "speex_bits \<Rightarrow> u8 list \<Rightarrow> nat \<Rightarrow> speex_bits option" where
  "speex_bits_init_buffer b buff len =
     speex_bits_reset (b\<lparr>chars := buff, buf_size := len, owner := False\<rparr>)"

definition speex_bits_set_bit_buffer :: "speex_bits \<Rightarrow> u8 list \<Rightarrow> nat \<Rightarrow> speex_bits" where
  "speex_bits_set_bit_buffer b buff len =
     b\<lparr>chars := buff, buf_size := len, owner := False, nbBits := shl (int len) 3,
       charPtr := 0, bitPtr := 0, overflow := False\<rparr>"

definition speex_bits_rewind :: "speex_bits \<Rightarrow> speex_bits" where
  "speex_bits_rewind b = b\<lparr>charPtr := 0, bitPtr := 0, overflow := False\<rparr>"

subsection \<open>Packing\<close>

text \<open>
  One turn of the loop of \<open>speex_bits_pack\<close>, with \<open>n\<close> bits left after it. A shift of the
  32 bit value by 32 or more is undefined in C.
\<close>

definition pack_bit :: "u32 \<Rightarrow> nat \<Rightarrow> speex_bits \<Rightarrow> speex_bits option" where
  "pack_bit d n b =
     (if n \<ge> 32 then None else
      let v = drop_bit n d AND 1 in
      do { c \<leftarrow> mem_get (chars b) (charPtr b);
           cs \<leftarrow> mem_put (chars b) (charPtr b) (c OR push_bit (8 - 1 - bitPtr b) (ucast v));
           if bitPtr b + 1 = 8
           then do { cs' \<leftarrow> mem_put cs (charPtr b + 1) 0;
                     Some (b\<lparr>chars := cs', bitPtr := 0, charPtr := charPtr b + 1,
                             nbBits := nbBits b + 1\<rparr>) }
           else Some (b\<lparr>chars := cs, bitPtr := bitPtr b + 1, nbBits := nbBits b + 1\<rparr>) })"

fun pack_loop :: "u32 \<Rightarrow> nat \<Rightarrow> speex_bits \<Rightarrow> speex_bits option" where
  "pack_loop d 0 b = Some b"
| "pack_loop d (Suc n) b = do { b' \<leftarrow> pack_bit d n b; pack_loop d n b' }"

definition speex_bits_pack ::
    "reallocator \<Rightarrow> speex_bits \<Rightarrow> u32 \<Rightarrow> nat \<Rightarrow> speex_bits option" where
  "speex_bits_pack ra b d n =
     (if charPtr b + (n + bitPtr b) div 8 \<ge> buf_size b then
        (if owner b then
           (let new_nchars = (buf_size b + 5) * 3 div 2 in
            case ra (chars b) new_nchars of
              Some tmp \<Rightarrow> pack_loop d n (b\<lparr>buf_size := new_nchars, chars := tmp\<rparr>)
            | None \<Rightarrow> Some b)
         else Some b)
      else pack_loop d n b)"

partial_function (option) terminator_loop ::
    "reallocator \<Rightarrow> speex_bits \<Rightarrow> speex_bits option" where
  "terminator_loop ra b =
     (if bitPtr b \<noteq> 0
      then Option.bind (speex_bits_pack ra b 1 1) (\<lambda>b'. terminator_loop ra b')
      else Some b)"

declare terminator_loop.simps [code]

definition speex_bits_insert_terminator ::
    "reallocator \<Rightarrow> speex_bits \<Rightarrow> speex_bits option" where
  "speex_bits_insert_terminator ra b =
     do { b' \<leftarrow> (if bitPtr b \<noteq> 0 then speex_bits_pack ra b 0 1 else Some b);
          terminator_loop ra b' }"

subsection \<open>Unpacking\<close>

text \<open>The test every reading operation starts with.\<close>

definition past_end :: "speex_bits \<Rightarrow> nat \<Rightarrow> bool" where
  "past_end b n \<longleftrightarrow> shl (int (charPtr b)) 3 + int (bitPtr b) + int n > nbBits b"

definition check_overflow :: "speex_bits \<Rightarrow> nat \<Rightarrow> speex_bits" where
  "check_overflow b n = (if past_end b n then b\<lparr>overflow := True\<rparr> else b)"

definition next_bit :: "u8 list \<Rightarrow> nat \<Rightarrow> nat \<Rightarrow> u8 option" where
  "next_bit cs cp bp = do { c \<leftarrow> mem_get cs cp; Some (drop_bit (8 - 1 - bp) c AND 1) }"

text \<open>The loop of the two reading functions; it returns the value and the new position.\<close>

fun unpack_loop :: "u8 list \<Rightarrow> nat \<Rightarrow> nat \<Rightarrow> nat \<Rightarrow> u32 \<Rightarrow> (u32 \<times> nat \<times> nat) option" where
  "unpack_loop cs 0 cp bp d = Some (d, cp, bp)"
| "unpack_loop cs (Suc n) cp bp d =
     do { v \<leftarrow> next_bit cs cp bp;
          if bp + 1 = 8
          then unpack_loop cs n (cp + 1) 0 (push_bit 1 d OR ucast v)
          else unpack_loop cs n cp (bp + 1) (push_bit 1 d OR ucast v) }"

definition speex_bits_unpack_unsigned ::
    "speex_bits \<Rightarrow> nat \<Rightarrow> (u32 \<times> speex_bits) option" where
  "speex_bits_unpack_unsigned b n =
     (let b1 = check_overflow b n in
      if overflow b1 then Some (0, b1)
      else do { (d, cp, bp) \<leftarrow> unpack_loop (chars b1) n (charPtr b1) (bitPtr b1) 0;
                Some (d, b1\<lparr>charPtr := cp, bitPtr := bp\<rparr>) })"

definition speex_bits_unpack_signed ::
    "speex_bits \<Rightarrow> nat \<Rightarrow> (u32 \<times> speex_bits) option" where
  "speex_bits_unpack_signed b n =
     do { (d, b') \<leftarrow> speex_bits_unpack_unsigned b n;
          Some (if drop_bit (n - 1) d \<noteq> 0 then d OR push_bit n (- 1) else d, b') }"

definition speex_bits_peek_unsigned ::
    "speex_bits \<Rightarrow> nat \<Rightarrow> (u32 \<times> speex_bits) option" where
  "speex_bits_peek_unsigned b n =
     (let b1 = check_overflow b n in
      if overflow b1 then Some (0, b1)
      else do { (d, cp, bp) \<leftarrow> unpack_loop (chars b1) n (charPtr b1) (bitPtr b1) 0;
                Some (d, b1) })"

definition speex_bits_peek :: "speex_bits \<Rightarrow> (u8 \<times> speex_bits) option" where
  "speex_bits_peek b =
     (let b1 = check_overflow b 1 in
      if overflow b1 then Some (0, b1)
      else do { v \<leftarrow> next_bit (chars b1) (charPtr b1) (bitPtr b1); Some (v, b1) })"

definition speex_bits_advance :: "speex_bits \<Rightarrow> nat \<Rightarrow> speex_bits" where
  "speex_bits_advance b n =
     (if past_end b n \<or> overflow b then b\<lparr>overflow := True\<rparr>
      else b\<lparr>charPtr := charPtr b + (bitPtr b + n) div 8, bitPtr := (bitPtr b + n) mod 8\<rparr>)"

definition speex_bits_remaining :: "speex_bits \<Rightarrow> int" where
  "speex_bits_remaining b =
     (if overflow b then -1 else nbBits b - (shl (int (charPtr b)) 3 + int (bitPtr b)))"

definition speex_bits_nbytes :: "speex_bits \<Rightarrow> int" where
  "speex_bits_nbytes b = asr (nbBits b + 8 - 1) 3"

subsection \<open>Moving packets in and out of the buffer\<close>

text \<open>
  \<open>cs\<close> is the block behind the caller's pointer, \<open>n\<close> the number of bytes asked for
  (\<open>BYTES_PER_CHAR\<close> is 1, so \<open>HTOLS\<close> is the identity).
\<close>

definition speex_bits_read_from ::
    "reallocator \<Rightarrow> speex_bits \<Rightarrow> u8 list \<Rightarrow> nat \<Rightarrow> speex_bits option" where
  "speex_bits_read_from ra b cs n =
     (let (b1, nchars) =
        (if n > buf_size b then
           (if owner b then
              (case ra (chars b) n of
                 Some tmp \<Rightarrow> (b\<lparr>buf_size := n, chars := tmp\<rparr>, n)
               | None \<Rightarrow> (b, buf_size b))
            else (b, buf_size b))
         else (b, n))
      in do { src \<leftarrow> mem_read cs 0 nchars;
              cs' \<leftarrow> mem_write (chars b1) 0 src;
              Some (b1\<lparr>chars := cs', nbBits := shl (int nchars) 3, charPtr := 0, bitPtr := 0,
                       overflow := False\<rparr>) })"

text \<open>
  The length given to \<open>memmove\<close> is a difference; where it is negative it turns into a huge
  unsigned size, which is an access outside the block.
\<close>

definition speex_bits_flush :: "speex_bits \<Rightarrow> speex_bits option" where
  "speex_bits_flush b =
     (let nchars = asr (nbBits b + 8 - 1) 3 in
      do { cs \<leftarrow> (if charPtr b > 0 then
                    (if nchars - int (charPtr b) < 0 then None
                     else do { blk \<leftarrow> mem_read (chars b) (charPtr b)
                                        (nat (nchars - int (charPtr b)));
                               mem_write (chars b) 0 blk })
                  else Some (chars b));
           Some (b\<lparr>chars := cs, nbBits := nbBits b - shl (int (charPtr b)) 3, charPtr := 0\<rparr>) })"

definition speex_bits_read_whole_bytes ::
    "reallocator \<Rightarrow> speex_bits \<Rightarrow> u8 list \<Rightarrow> nat \<Rightarrow> speex_bits option" where
  "speex_bits_read_whole_bytes ra b cs n =
     (let (b1, nchars) =
        (if asr (nbBits b + 8 - 1) 3 + int n > int (buf_size b) then
           (if owner b then
              (let size1 = nat (asr (nbBits b) 3 + int n + 1) in
               case ra (chars b) size1 of
                 Some tmp \<Rightarrow> (b\<lparr>buf_size := size1, chars := tmp\<rparr>, int n)
               | None \<Rightarrow> (b, int (buf_size b) - asr (nbBits b) 3 - 1))
            else (b, int (buf_size b)))
         else (b, int n))
      in do { b2 \<leftarrow> speex_bits_flush b1;
              src \<leftarrow> mem_read cs 0 (nat nchars);
              cs' \<leftarrow> (if nchars > 0 then
                        (if asr (nbBits b2) 3 < 0 then None
                         else mem_write (chars b2) (nat (asr (nbBits b2) 3)) src)
                      else Some (chars b2));
              Some (b2\<lparr>chars := cs', nbBits := nbBits b2 + shl nchars 3\<rparr>) })"

text \<open>
  The two writing functions return the new state, the bytes stored at the caller's pointer
  and the return value. They store no more than the return value says.
\<close>

definition speex_bits_write ::
    "reallocator \<Rightarrow> speex_bits \<Rightarrow> int \<Rightarrow> (speex_bits \<times> u8 list \<times> int) option" where
  "speex_bits_write ra b max_nbytes =
     do { b1 \<leftarrow> speex_bits_insert_terminator ra b;
          let b2 = b1\<lparr>bitPtr := bitPtr b, charPtr := charPtr b, nbBits := nbBits b\<rparr>;
          let nb = asr (nbBits b2 + 8 - 1) 3;
          let max_nchars = (if max_nbytes > nb then nb else max_nbytes);
          out \<leftarrow> mem_read (chars b2) 0 (nat max_nchars);
          Some (b2, out, max_nchars) }"

definition speex_bits_write_whole_bytes ::
    "speex_bits \<Rightarrow> int \<Rightarrow> (speex_bits \<times> u8 list \<times> int) option" where
  "speex_bits_write_whole_bytes b max_nbytes =
     (let max_nchars = (if max_nbytes > asr (nbBits b) 3 then asr (nbBits b) 3 else max_nbytes)
      in do { out \<leftarrow> mem_read (chars b) 0 (nat max_nchars);
              c \<leftarrow> (if bitPtr b > 0
                    then (if max_nchars < 0 then None else mem_get (chars b) (nat max_nchars))
                    else Some 0);
              cs \<leftarrow> mem_put (chars b) 0 c;
              Some (b\<lparr>chars := cs, charPtr := 0, nbBits := nbBits b mod 8\<rparr>, out, max_nchars) })"

subsection \<open>Well-formed states and what they hold\<close>

definition position :: "speex_bits \<Rightarrow> nat" where
  "position b = 8 * charPtr b + bitPtr b"

definition writer_wf :: "speex_bits \<Rightarrow> bool" where
  "writer_wf b \<longleftrightarrow>
     length (chars b) = buf_size b \<and> bitPtr b < 8 \<and> charPtr b < buf_size b \<and>
     nbBits b = int (position b) \<and> (\<forall>i < 8 - bitPtr b. \<not> bit (chars b ! charPtr b) i)"

definition written :: "speex_bits \<Rightarrow> bool list" where
  "written b = take (nat (nbBits b)) (buf_bits (chars b))"

definition pack_fits :: "speex_bits \<Rightarrow> nat \<Rightarrow> bool" where
  "pack_fits b n \<longleftrightarrow> position b + n < 8 * buf_size b"

definition reader_wf :: "speex_bits \<Rightarrow> bool" where
  "reader_wf b \<longleftrightarrow>
     bitPtr b < 8 \<and> \<not> overflow b \<and> int (position b) \<le> nbBits b \<and>
     nbBits b \<le> 8 * int (length (chars b))"

definition remaining :: "speex_bits \<Rightarrow> bool list" where
  "remaining b = drop (position b) (take (nat (nbBits b)) (buf_bits (chars b)))"

lemma shl3 [simp]: "shl x 3 = 8 * x"
  by (simp add: shl_def)

lemma position_simps [simp]:
  "position (b\<lparr>chars := cs\<rparr>) = position b" "position (b\<lparr>nbBits := m\<rparr>) = position b"
  "position (b\<lparr>overflow := ov\<rparr>) = position b" "position (b\<lparr>buf_size := sz\<rparr>) = position b"
  "position (b\<lparr>bitPtr := bp\<rparr>) = 8 * charPtr b + bp"
  "position (b\<lparr>charPtr := cp\<rparr>) = 8 * cp + bitPtr b"
  by (simp_all add: position_def)

lemma position_div_mod: "bitPtr b < 8 \<Longrightarrow> position b div 8 = charPtr b \<and> position b mod 8 = bitPtr b"
  by (simp add: position_def)

lemma past_end_iff: "past_end b n \<longleftrightarrow> nbBits b < int (position b + n)"
  by (auto simp: past_end_def position_def)

subsection \<open>Packing appends the bits of the field\<close>

lemma bit_merge:
  fixes c :: u8
  assumes "bp < 8" and "i < 8"
  shows "bit (c OR push_bit (8 - 1 - bp) (ucast (drop_bit n (d::u32) AND 1))) i \<longleftrightarrow>
         bit c i \<or> (i = 7 - bp \<and> bit d n)"
  using assms by (auto simp: bit_simps bit_1_iff)

lemma written_pack_bit:
  assumes wf: "writer_wf b"
    and bits: "\<And>i. i < 8 \<Longrightarrow> bit c i \<longleftrightarrow> bit (chars b ! charPtr b) i \<or> (i = 7 - bitPtr b \<and> v)"
    and len: "length cs = length (chars b)"
    and cur: "cs ! charPtr b = c"
    and below: "\<And>j. j < charPtr b \<Longrightarrow> cs ! j = chars b ! j"
  shows "take (Suc (position b)) (buf_bits cs) = written b @ [v]"
proof (rule nth_equalityI)
  have pos: "position b < 8 * length (chars b)" and bp: "bitPtr b < 8"
    using wf by (auto simp: writer_wf_def position_def)
  then show "length (take (Suc (position b)) (buf_bits cs)) = length (written b @ [v])"
    using wf len by (simp add: written_def writer_wf_def)
  fix k assume "k < length (take (Suc (position b)) (buf_bits cs))"
  then have k: "k \<le> position b" by simp
  note pdm = position_div_mod [OF bp]
  show "take (Suc (position b)) (buf_bits cs) ! k = (written b @ [v]) ! k"
  proof (cases "k = position b")
    case True
    then show ?thesis
      using wf pos len pdm cur bits [of "7 - bitPtr b"] bp
      by (simp add: nth_append written_def nth_buf_bits writer_wf_def)
  next
    case False
    with k have k: "k < position b" by simp
    have "bit (cs ! (k div 8)) (7 - k mod 8) = bit (chars b ! (k div 8)) (7 - k mod 8)"
    proof (cases "k div 8 = charPtr b")
      case True
      then have "k mod 8 < bitPtr b"
        using k by (simp add: position_def) (metis add_less_cancel_left mult_div_mod_eq)
      then show ?thesis using True cur bits [of "7 - k mod 8"] bp by auto
    next
      case False
      then have "k div 8 < charPtr b"
        using k pdm by (metis div_le_mono le_neq_implies_less less_imp_le)
      then show ?thesis using below by simp
    qed
    then show ?thesis
      using k pos len wf by (simp add: nth_append written_def nth_buf_bits writer_wf_def)
  qed
qed

lemma pack_bit_appends:
  assumes wf: "writer_wf b" and n: "n < 32" and fits: "pack_fits b 1"
  shows "\<exists>b'. pack_bit d n b = Some b' \<and> writer_wf b' \<and> written b' = written b @ [bit d n] \<and>
           position b' = Suc (position b) \<and> buf_size b' = buf_size b \<and> owner b' = owner b"
proof -
  define c where "c = chars b ! charPtr b OR
      push_bit (8 - 1 - bitPtr b) (ucast (drop_bit n d AND 1))"
  have bp: "bitPtr b < 8" and cp: "charPtr b < length (chars b)"
    and len: "length (chars b) = buf_size b"
    and clear: "\<And>i. i < 8 - bitPtr b \<Longrightarrow> \<not> bit (chars b ! charPtr b) i"
    and nb: "nbBits b = int (position b)"
    using wf by (auto simp: writer_wf_def)
  have bits: "bit c i \<longleftrightarrow> bit (chars b ! charPtr b) i \<or> (i = 7 - bitPtr b \<and> bit d n)" if "i < 8" for i
    unfolding c_def using bp that by (rule bit_merge)
  show ?thesis
  proof (cases "bitPtr b = 7")
    case True
    define b' where "b' = b\<lparr>chars := (chars b)[charPtr b := c, charPtr b + 1 := 0], bitPtr := 0,
        charPtr := charPtr b + 1, nbBits := nbBits b + 1\<rparr>"
    have cp1: "charPtr b + 1 < length (chars b)"
      using fits True len by (simp add: pack_fits_def position_def)
    have "pack_bit d n b = Some b'"
      using True n cp cp1 by (simp add: pack_bit_def Let_def mem_simps b'_def c_def)
    moreover have "written b' = written b @ [bit d n]"
      using written_pack_bit [OF wf bits, of "chars b'"] cp cp1 nb
      by (simp add: written_def b'_def nat_add_distrib nth_list_update)
    moreover have "writer_wf b'"
      using cp1 len nb True by (simp add: writer_wf_def b'_def position_def)
    ultimately show ?thesis
      using True by (intro exI [of _ b']) (simp add: b'_def position_def)
  next
    case False
    define b' where "b' = b\<lparr>chars := (chars b)[charPtr b := c], bitPtr := bitPtr b + 1,
        nbBits := nbBits b + 1\<rparr>"
    have "pack_bit d n b = Some b'"
      using False n cp by (simp add: pack_bit_def Let_def mem_simps b'_def c_def)
    moreover have "written b' = written b @ [bit d n]"
      using written_pack_bit [OF wf bits, of "chars b'"] cp nb
      by (simp add: written_def b'_def nat_add_distrib)
    moreover have "writer_wf b'"
      using cp len nb False bp clear bits by (auto simp: writer_wf_def b'_def position_def)
    ultimately show ?thesis
      by (intro exI [of _ b']) (simp add: b'_def position_def)
  qed
qed

lemma pack_loop_appends:
  "writer_wf b \<Longrightarrow> n \<le> 32 \<Longrightarrow> pack_fits b n \<Longrightarrow>
     \<exists>b'. pack_loop d n b = Some b' \<and> writer_wf b' \<and> written b' = written b @ msb_bits n d \<and>
          position b' = position b + n \<and> buf_size b' = buf_size b \<and> owner b' = owner b"
proof (induction n arbitrary: b)
  case 0
  then show ?case by simp
next
  case (Suc n)
  obtain b1 where b1: "pack_bit d n b = Some b1" "writer_wf b1"
      "written b1 = written b @ [bit d n]" "position b1 = Suc (position b)"
      "buf_size b1 = buf_size b" "owner b1 = owner b"
    using pack_bit_appends [of b n d] Suc.prems by (auto simp: pack_fits_def)
  then have "pack_fits b1 n" using Suc.prems(3) by (simp add: pack_fits_def)
  from Suc.IH [OF b1(2) _ this] Suc.prems(2) b1 show ?case by (auto simp: msb_bits_Suc)
qed

lemma pack_guard_iff:
  "bitPtr b < 8 \<Longrightarrow> charPtr b + (n + bitPtr b) div 8 \<ge> buf_size b \<longleftrightarrow> \<not> pack_fits b n"
  by (simp add: pack_fits_def position_def) presburger

lemma speex_bits_pack_fits:
  "writer_wf b \<Longrightarrow> pack_fits b n \<Longrightarrow> speex_bits_pack ra b d n = pack_loop d n b"
  by (auto simp: speex_bits_pack_def pack_guard_iff writer_wf_def)

text \<open>Growing the buffer keeps the state well formed and what it holds.\<close>

lemma grow_keeps:
  assumes wf: "writer_wf b" and ra: "realloc_contract ra" and tmp: "ra (chars b) m = Some tmp"
    and m: "buf_size b \<le> m"
  defines "b' \<equiv> b\<lparr>buf_size := m, chars := tmp\<rparr>"
  shows "writer_wf b'" and "written b' = written b"
proof -
  have size: "length (chars b) = buf_size b" using wf by (simp add: writer_wf_def)
  have "length tmp = m \<and> take (min m (length (chars b))) tmp = take (min m (length (chars b))) (chars b)"
    using ra tmp unfolding realloc_contract_def by blast
  then have len: "length tmp = m" and "take (buf_size b) tmp = chars b"
    using m size by (simp_all add: min_absorb2)
  then have pre: "take (8 * buf_size b) (buf_bits tmp) = buf_bits (chars b)"
    by (simp add: take_buf_bits)
  have cur: "tmp ! charPtr b = chars b ! charPtr b"
    using \<open>take (buf_size b) tmp = chars b\<close> wf by (metis nth_take writer_wf_def)
  show "writer_wf b'"
    using wf len m cur by (auto simp: writer_wf_def b'_def)
  have "nat (nbBits b) \<le> 8 * buf_size b"
    using wf by (auto simp: writer_wf_def position_def)
  then have "take (nat (nbBits b)) (buf_bits tmp) =
      take (nat (nbBits b)) (take (8 * buf_size b) (buf_bits tmp))"
    by (simp add: min_absorb1)
  then show "written b' = written b" by (simp add: written_def b'_def pre)
qed

lemma speex_bits_pack_cases:
  assumes wf: "writer_wf b" and ra: "realloc_contract ra" and n: "n \<le> 32"
  shows "(\<exists>b'. speex_bits_pack ra b d n = Some b' \<and> writer_wf b' \<and>
            written b' = written b @ msb_bits n d \<and> position b' = position b + n) \<or>
         (speex_bits_pack ra b d n = Some b \<and> \<not> pack_fits b n \<and>
            (owner b \<longrightarrow> ra (chars b) ((buf_size b + 5) * 3 div 2) = None))"
proof (cases "pack_fits b n")
  case True
  then show ?thesis
    using pack_loop_appends [OF wf n True, of d] wf by (auto simp: speex_bits_pack_fits)
next
  case False
  have bp: "bitPtr b < 8" using wf by (simp add: writer_wf_def)
  show ?thesis
  proof (cases "owner b \<and> ra (chars b) ((buf_size b + 5) * 3 div 2) \<noteq> None")
    case True
    then obtain tmp where tmp: "ra (chars b) ((buf_size b + 5) * 3 div 2) = Some tmp" by auto
    define b1 where "b1 = b\<lparr>buf_size := (buf_size b + 5) * 3 div 2, chars := tmp\<rparr>"
    have "buf_size b \<le> (buf_size b + 5) * 3 div 2" by simp
    note b1 = grow_keeps [OF wf ra tmp this, folded b1_def]
    have "pack_fits b1 n"
      using wf n by (simp add: pack_fits_def b1_def writer_wf_def position_def) linarith
    moreover have "position b1 = position b" by (simp add: b1_def)
    ultimately obtain b' where
      b': "pack_loop d n b1 = Some b'" "writer_wf b'" "written b' = written b @ msb_bits n d"
        "position b' = position b + n"
      using pack_loop_appends [OF b1(1) n, of d] by (auto simp: b1(2))
    have "speex_bits_pack ra b d n = pack_loop d n b1"
      using True False tmp bp by (simp add: speex_bits_pack_def pack_guard_iff b1_def Let_def)
    then show ?thesis using b' by auto
  next
    case no_room: False
    then show ?thesis
      using False bp by (auto simp: speex_bits_pack_def pack_guard_iff Let_def split: option.splits)
  qed
qed

subsection \<open>Unpacking takes the next bits\<close>

lemma next_bit_eq:
  assumes "bp < 8" and "cp < length cs"
  shows "next_bit cs cp bp = Some (of_bool (buf_bits cs ! (8 * cp + bp)))"
proof -
  have "drop_bit (8 - 1 - bp) (cs ! cp) AND 1 = of_bool (bit (cs ! cp) (7 - bp))"
    by (simp add: and_one_eq bit_iff_odd_drop_bit mod_2_eq_odd)
  then show ?thesis
    using assms by (simp add: next_bit_def mem_simps nth_buf_bits)
qed

lemma unpack_loop_takes:
  "bp < 8 \<Longrightarrow> 8 * cp + bp + n \<le> 8 * length cs \<Longrightarrow>
     unpack_loop cs n cp bp d =
       Some (foldl add_bit d (take n (drop (8 * cp + bp) (buf_bits cs))),
             (8 * cp + bp + n) div 8, (8 * cp + bp + n) mod 8)"
proof (induction n arbitrary: cp bp d)
  case 0
  then show ?case by simp
next
  case (Suc n)
  define v where "v = buf_bits cs ! (8 * cp + bp)"
  have nb: "next_bit cs cp bp = Some (of_bool v)"
    unfolding v_def using Suc.prems by (intro next_bit_eq) auto
  have bits: "take (Suc n) (drop (8 * cp + bp) (buf_bits cs)) =
      v # take n (drop (Suc (8 * cp + bp)) (buf_bits cs))"
    using Suc.prems by (simp add: v_def Cons_nth_drop_Suc [symmetric])
  have d: "push_bit 1 d OR ucast (of_bool v :: u8) = add_bit d v"
    by (simp add: add_bit_def)
  show ?case
  proof (cases "bp = 7")
    case True
    then show ?thesis
      using Suc.IH [of 0 "cp + 1" "add_bit d v"] Suc.prems nb bits d
      by (simp add: algebra_simps)
  next
    case False
    then show ?thesis
      using Suc.IH [of "bp + 1" cp "add_bit d v"] Suc.prems nb bits d
      by (simp add: algebra_simps)
  qed
qed

lemma remaining_length:
  "reader_wf b \<Longrightarrow> length (remaining b) = nat (nbBits b) - position b"
  by (auto simp: reader_wf_def remaining_def min_def)

lemma not_past_end:
  "reader_wf b \<Longrightarrow> past_end b n \<longleftrightarrow> length (remaining b) < n"
  by (auto simp: remaining_length past_end_iff reader_wf_def)

lemma reader_loop:
  assumes wf: "reader_wf b" and n: "n \<le> length (remaining b)"
  shows "unpack_loop (chars b) n (charPtr b) (bitPtr b) 0 =
     Some (bits_val (take n (remaining b)), (position b + n) div 8, (position b + n) mod 8)"
proof -
  have "position b + n \<le> nat (nbBits b)" and "nat (nbBits b) \<le> 8 * length (chars b)"
    using wf n remaining_length [OF wf] by (auto simp: reader_wf_def)
  then have "take n (remaining b) = take n (drop (position b) (buf_bits (chars b)))"
    by (simp add: remaining_def drop_take min_def)
  then show ?thesis
    using unpack_loop_takes [of "bitPtr b" "charPtr b" n "chars b" 0] wf
      \<open>position b + n \<le> nat (nbBits b)\<close> \<open>nat (nbBits b) \<le> 8 * length (chars b)\<close>
    by (simp add: position_def reader_wf_def bits_val_def)
qed

lemma advanced_reader:
  assumes "reader_wf b" and "n \<le> length (remaining b)"
  defines "b' \<equiv> b\<lparr>charPtr := (position b + n) div 8, bitPtr := (position b + n) mod 8\<rparr>"
  shows "reader_wf b'" and "remaining b' = drop n (remaining b)"
  using assms remaining_length [OF assms(1)]
  by (auto simp: reader_wf_def remaining_def b'_def position_def add.commute)

lemma unpack_unsigned_takes:
  assumes "reader_wf b" and "n \<le> length (remaining b)"
  shows "speex_bits_unpack_unsigned b n =
     Some (bits_val (take n (remaining b)),
           b\<lparr>charPtr := (position b + n) div 8, bitPtr := (position b + n) mod 8\<rparr>)"
proof -
  have "check_overflow b n = b" and "\<not> overflow b"
    using assms not_past_end [OF assms(1)] by (auto simp: check_overflow_def reader_wf_def)
  then show ?thesis
    by (simp add: speex_bits_unpack_unsigned_def Let_def reader_loop [OF assms])
qed

lemma unpack_past_end:
  "past_end b n \<or> overflow b \<Longrightarrow>
     speex_bits_unpack_unsigned b n = Some (0, b\<lparr>overflow := True\<rparr>)"
  by (auto simp: speex_bits_unpack_unsigned_def check_overflow_def)

lemma advance_fits:
  assumes "reader_wf b" and "n \<le> length (remaining b)"
  shows "speex_bits_advance b n =
     b\<lparr>charPtr := (position b + n) div 8, bitPtr := (position b + n) mod 8\<rparr>"
proof -
  have "(8 * charPtr b + bitPtr b + n) div 8 = charPtr b + (bitPtr b + n) div 8"
    by (simp add: add.assoc)
  then show ?thesis
    using assms not_past_end [OF assms(1)]
    by (simp add: speex_bits_advance_def reader_wf_def position_def add.assoc)
qed

subsection \<open>The contracts of a bit stream hold\<close>

interpretation sb_writer: bit_writer "speex_bits_pack ra" written writer_wf pack_fits for ra
proof
  fix s n and d :: u32
  assume s: "writer_wf s" "n \<le> 32" "pack_fits s n"
  from pack_loop_appends [OF s, of d] show "\<exists>s'. speex_bits_pack ra s d n = Some s' \<and>
      writer_wf s' \<and> written s' = written s @ msb_bits n d \<and>
      (\<forall>m. pack_fits s (n + m) \<longrightarrow> pack_fits s' m)"
    using s by (auto simp: speex_bits_pack_fits) (auto simp: pack_fits_def)
qed (simp add: pack_fits_def)

interpretation sb_reader: bit_reader speex_bits_unpack_unsigned remaining reader_wf
  by unfold_locales (blast intro: unpack_unsigned_takes advanced_reader)

subsection \<open>The terminator\<close>

definition terminator :: "speex_bits \<Rightarrow> bool list" where
  "terminator b = (if bitPtr b = 0 then [] else False # replicate (7 - bitPtr b) True)"

lemma msb_bits_1 [simp]: "msb_bits (Suc 0) d = [bit d 0]"
  by (simp add: msb_bits_def)

lemma position_step:
  assumes "8 * c' + p' = 8 * c + p + (1::nat)" and "p < 8" and "p' < 8"
  shows "(p = 7 \<and> c' = c + 1 \<and> p' = 0) \<or> (p < 7 \<and> c' = c \<and> p' = p + 1)"
proof -
  have "(8 * c' + p') mod 8 = (8 * c + (p + 1)) mod 8"
    and "(8 * c' + p') div 8 = (8 * c + (p + 1)) div 8"
    using assms(1) by (simp_all add: add.assoc)
  then have "p' = (p + 1) mod 8" and "c' = c + (p + 1) div 8"
    using assms(3) by simp_all
  then show ?thesis using assms(2) by (cases "p = 7") auto
qed

lemma terminator_loop_pads:
  "writer_wf b \<Longrightarrow> bitPtr b > 0 \<longrightarrow> charPtr b + 1 < buf_size b \<Longrightarrow>
     \<exists>b'. terminator_loop ra b = Some b' \<and> writer_wf b' \<and> bitPtr b' = 0 \<and>
          written b' = written b @ replicate ((8 - bitPtr b) mod 8) True"
proof (induction "(8 - bitPtr b) mod 8" arbitrary: b)
  case 0
  have "bitPtr b < 8" using 0(2) by (simp add: writer_wf_def)
  with 0(1) have "bitPtr b = 0" by (cases "bitPtr b = 0") auto
  then show ?case using 0(2) by (subst terminator_loop.simps) simp
next
  case (Suc k)
  have lt: "bitPtr b < 8" using Suc.prems(1) by (simp add: writer_wf_def)
  have "bitPtr b \<noteq> 0" using Suc.hyps(2) by (intro notI) simp
  with lt Suc.hyps(2) have bp: "bitPtr b > 0" "bitPtr b < 8" "8 - bitPtr b = Suc k" by simp_all
  have fits: "pack_fits b 1" using Suc.prems bp by (auto simp: pack_fits_def position_def)
  obtain b1 where b1: "speex_bits_pack ra b 1 1 = Some b1" "writer_wf b1"
      "written b1 = written b @ [True]" "position b1 = position b + 1" "buf_size b1 = buf_size b"
    using pack_loop_appends [OF Suc.prems(1) _ fits, of 1] speex_bits_pack_fits [OF Suc.prems(1) fits]
    by auto
  have pos: "8 * charPtr b1 + bitPtr b1 = 8 * charPtr b + bitPtr b + 1" "bitPtr b1 < 8"
    using b1 by (auto simp: position_def writer_wf_def)
  note step = position_step [OF pos(1) bp(2) pos(2)]
  have k: "k = (8 - bitPtr b1) mod 8" using step bp(1,3) by auto
  have room: "bitPtr b1 > 0 \<longrightarrow> charPtr b1 + 1 < buf_size b1"
    using step Suc.prems(2) bp(1) b1(5) by auto
  from Suc.hyps(1) [OF k b1(2) room] show ?case
    using bp b1 k by (subst terminator_loop.simps) auto
qed

lemma insert_terminator_pads:
  assumes wf: "writer_wf b" and fits: "bitPtr b > 0 \<longrightarrow> charPtr b + 1 < buf_size b"
  shows "\<exists>b'. speex_bits_insert_terminator ra b = Some b' \<and> writer_wf b' \<and> bitPtr b' = 0 \<and>
          written b' = written b @ terminator b"
proof (cases "bitPtr b = 0")
  case True
  then show ?thesis
    using terminator_loop_pads [OF wf, of ra] wf
    by (simp add: speex_bits_insert_terminator_def terminator_def)
next
  case False
  have bp: "bitPtr b < 8" using wf by (simp add: writer_wf_def)
  have fits1: "pack_fits b 1" using False fits bp by (auto simp: pack_fits_def position_def)
  obtain b1 where b1: "speex_bits_pack ra b 0 1 = Some b1" "writer_wf b1"
      "written b1 = written b @ [False]" "position b1 = position b + 1" "buf_size b1 = buf_size b"
    using pack_loop_appends [OF wf _ fits1, of 0] speex_bits_pack_fits [OF wf fits1] by auto
  have pos: "8 * charPtr b1 + bitPtr b1 = 8 * charPtr b + bitPtr b + 1" "bitPtr b1 < 8"
    using b1 by (auto simp: position_def writer_wf_def)
  note step = position_step [OF pos(1) bp pos(2)]
  have "bitPtr b1 > 0 \<longrightarrow> charPtr b1 + 1 < buf_size b1"
    using step False fits b1(5) by auto
  from terminator_loop_pads [OF b1(2) this, of ra] obtain b2 where b2:
      "terminator_loop ra b1 = Some b2" "writer_wf b2" "bitPtr b2 = 0"
      "written b2 = written b @ False # replicate ((8 - bitPtr b1) mod 8) True"
    using b1(3) by auto
  moreover have "(8 - bitPtr b1) mod 8 = 7 - bitPtr b"
    using step False by auto
  ultimately show ?thesis
    using b1(1) False by (simp add: speex_bits_insert_terminator_def terminator_def)
qed

text \<open>
  A caller's own buffer that has no room for the terminator: packing refuses, the position
  does not move, and the loop goes on for ever.
\<close>

definition stuck :: "speex_bits \<Rightarrow> bool" where
  "stuck b \<longleftrightarrow> \<not> owner b \<and> bitPtr b = 7 \<and> charPtr b + 1 \<ge> buf_size b"

lemma pack_stuck: "stuck b \<Longrightarrow> speex_bits_pack ra b d 1 = Some b"
  by (simp add: stuck_def speex_bits_pack_def)

lemma terminator_loop_stuck: "stuck b \<Longrightarrow> terminator_loop ra b = None"
proof (rule ccontr)
  assume b: "stuck b" and "terminator_loop ra b \<noteq> None"
  then obtain b' where ret: "terminator_loop ra b = Some b'" by auto
  have "\<not> stuck b"
  proof (rule terminator_loop.raw_induct [where P = "\<lambda>ra b r. \<not> stuck b", OF _ ret])
    fix f :: "reallocator \<Rightarrow> speex_bits \<Rightarrow> speex_bits option" and ra b r
    assume IH: "\<And>ra b r. f ra b = Some r \<Longrightarrow> \<not> stuck b"
      and eq: "(if bitPtr b \<noteq> 0 then Option.bind (speex_bits_pack ra b 1 1) (f ra)
                else Some b) = Some r"
    show "\<not> stuck b"
    proof
      assume st: "stuck b"
      then have "f ra b = Some r" using eq by (simp only: pack_stuck [OF st] Option.bind.bind_lunit) (simp add: st [unfolded stuck_def])
      with IH st show False by blast
    qed
  qed
  with b show False by simp
qed

subsection \<open>Packets\<close>

lemma asr3: "asr x 3 = x div 8"
  by (simp add: asr_def)

lemma written_full:
  assumes "writer_wf b" and "bitPtr b = 0"
  shows "written b = buf_bits (take (charPtr b) (chars b))"
  using assms by (simp add: writer_wf_def written_def position_def take_buf_bits nat_mult_distrib)

lemma length_written: "writer_wf b \<Longrightarrow> length (written b) = position b"
  by (auto simp: writer_wf_def written_def position_def)

text \<open>The packet \<open>speex_bits_write\<close> stores: what was written, completed by the terminator.\<close>

lemma write_stores:
  assumes wf: "writer_wf b" and fits: "bitPtr b > 0 \<longrightarrow> charPtr b + 1 < buf_size b"
    and cap: "speex_bits_nbytes b \<le> cap"
  shows "\<exists>b' out. speex_bits_write ra b cap = Some (b', out, speex_bits_nbytes b) \<and>
           buf_bits out = written b @ terminator b \<and> int (length out) = speex_bits_nbytes b \<and>
           position b' = position b \<and> nbBits b' = nbBits b"
proof -
  obtain b1 where b1: "speex_bits_insert_terminator ra b = Some b1" "writer_wf b1" "bitPtr b1 = 0"
      "written b1 = written b @ terminator b"
    using insert_terminator_pads [OF wf fits, of ra] by auto
  have bp: "bitPtr b < 8" and nb: "nbBits b = int (position b)" using wf by (auto simp: writer_wf_def)
  have full: "written b1 = buf_bits (take (charPtr b1) (chars b1))"
    by (rule written_full [OF b1(2,3)])
  have "8 * charPtr b1 = position b + length (terminator b)"
    using arg_cong [OF b1(4), of length] length_written [OF b1(2)] length_written [OF wf] b1(3)
    by (simp add: position_def)
  then have "8 * charPtr b1 = 8 * charPtr b + (if bitPtr b = 0 then 0 else 8)"
    using bp by (simp add: position_def terminator_def)
  then have cnt: "int (charPtr b1) = asr (nbBits b + 8 - 1) 3"
    using bp nb by (simp add: asr3 position_def split: if_splits)
  have room: "charPtr b1 \<le> length (chars b1)" using b1(2) by (simp add: writer_wf_def)
  have "mem_read (chars b1) 0 (nat (asr (nbBits b + 8 - 1) 3)) = Some (take (charPtr b1) (chars b1))"
    unfolding cnt [symmetric] using room by (simp add: mem_simps)
  then show ?thesis
    using b1 full cap room cnt
    by (auto simp: speex_bits_write_def speex_bits_nbytes_def Let_def min_def position_def)
qed

lemma read_from_loads:
  assumes "length (chars r) = buf_size r" and "n \<le> buf_size r" and "length out = n"
  shows "\<exists>r'. speex_bits_read_from ra r out n = Some r' \<and> reader_wf r' \<and>
           remaining r' = buf_bits out"
  using assms
  by (auto simp: speex_bits_read_from_def mem_simps reader_wf_def remaining_def position_def
      buf_bits_append)

text \<open>One packet, from the sender's buffer to the receiver's.\<close>

definition send_packet :: "reallocator \<Rightarrow> speex_bits \<Rightarrow> speex_bits \<Rightarrow> speex_bits option" where
  "send_packet ra r b =
     do { (b', out, k) \<leftarrow> speex_bits_write ra b (int (buf_size b));
          speex_bits_read_from ra r out (nat k) }"

definition can_receive :: "speex_bits \<Rightarrow> speex_bits \<Rightarrow> bool" where
  "can_receive r b \<longleftrightarrow> writer_wf b \<and> length (chars r) = buf_size r \<and> buf_size b \<le> buf_size r"

lemma nbytes_writer:
  assumes "writer_wf b"
  shows "speex_bits_nbytes b = int (charPtr b) + (if bitPtr b = 0 then 0 else 1)"
proof -
  have "nbBits b + 8 - 1 = int (bitPtr b) + 7 + 8 * int (charPtr b)" and "bitPtr b < 8"
    using assms by (simp_all add: writer_wf_def position_def)
  moreover have "(int (bitPtr b) + 7) div 8 = (if bitPtr b = 0 then 0 else 1)"
    using \<open>bitPtr b < 8\<close> by auto
  ultimately show ?thesis by (simp add: speex_bits_nbytes_def asr3)
qed

lemma pack_fits_terminator:
  "writer_wf b \<Longrightarrow> pack_fits b 8 \<Longrightarrow> bitPtr b > 0 \<longrightarrow> charPtr b + 1 < buf_size b"
  by (auto simp: writer_wf_def pack_fits_def position_def)

lemma send_packet_keeps:
  assumes "can_receive r b" and "pack_fits b 8"
  shows "\<exists>r'. send_packet ra r b = Some r' \<and> reader_wf r' \<and>
           remaining r' = written b @ terminator b"
proof -
  have wf: "writer_wf b" and r: "length (chars r) = buf_size r" "buf_size b \<le> buf_size r"
    using assms(1) by (auto simp: can_receive_def)
  have cap: "speex_bits_nbytes b \<le> int (buf_size b)"
    using wf by (simp add: nbytes_writer [OF wf]) (simp add: writer_wf_def)
  obtain b' out where w: "speex_bits_write ra b (int (buf_size b)) = Some (b', out, speex_bits_nbytes b)"
      "buf_bits out = written b @ terminator b" "int (length out) = speex_bits_nbytes b"
    using write_stores [OF wf pack_fits_terminator [OF wf assms(2)] cap, of ra] by auto
  have "length out \<le> buf_size r" using w(3) cap r(2) by simp
  then obtain r' where "speex_bits_read_from ra r out (length out) = Some r'" "reader_wf r'"
      "remaining r' = buf_bits out"
    using read_from_loads [OF r(1)] by blast
  moreover have "nat (speex_bits_nbytes b) = length out" using w(3) by linarith
  ultimately show ?thesis using w(1,2) by (simp add: send_packet_def)
qed

interpretation sb_channel: bit_channel "speex_bits_pack ra" written "can_receive r"
  "\<lambda>b n. pack_fits b (n + 8)" speex_bits_unpack_unsigned remaining reader_wf "send_packet ra r"
  for ra r
proof
  fix s n and d :: u32
  assume s: "can_receive r s" "n \<le> 32" "pack_fits s (n + 8)"
  then have wf: "writer_wf s" and fits: "pack_fits s n"
    by (auto simp: can_receive_def pack_fits_def)
  from pack_loop_appends [OF wf s(2) fits, of d]
  show "\<exists>s'. speex_bits_pack ra s d n = Some s' \<and> can_receive r s' \<and>
      written s' = written s @ msb_bits n d \<and>
      (\<forall>m. pack_fits s (n + m + 8) \<longrightarrow> pack_fits s' (m + 8))"
    using s(1) wf fits
    by (auto simp: speex_bits_pack_fits can_receive_def) (auto simp: pack_fits_def)
next
  fix s
  assume "can_receive r s" "pack_fits s (0 + 8)"
  then show "\<exists>r' pad. send_packet ra r s = Some r' \<and> reader_wf r' \<and> remaining r' = written s @ pad"
    using send_packet_keeps [of r s ra] by auto
qed (simp add: pack_fits_def)

subsection \<open>Peeking and advancing\<close>

lemma unpack_loop_position:
  "bp < 8 \<Longrightarrow> unpack_loop cs n cp bp d = Some (d', cp', bp') \<Longrightarrow>
     cp' = cp + (bp + n) div 8 \<and> bp' = (bp + n) mod 8"
proof (induction cs n cp bp d arbitrary: d' cp' bp' rule: unpack_loop.induct)
  case (1 cs cp bp d)
  then show ?case by simp
next
  case (2 cs n cp bp d)
  then obtain v where v: "next_bit cs cp bp = Some v"
    by (auto split: Option.bind_splits)
  show ?case
  proof (cases "bp = 7")
    case True
    then show ?thesis using "2.IH"(1) [OF v] "2.prems" v by auto
  next
    case False
    then show ?thesis using "2.IH"(2) [OF v] "2.prems" v by auto
  qed
qed

subsection \<open>Properties\<close>

text \<open>
  C1. A packet carries its fields. Any list of fields of at most 32 bits packed into an
  empty writer with room for them, written out with \<open>speex_bits_write\<close> and loaded by the
  receiver with \<open>speex_bits_read_from\<close>, is read back field by field: every operation
  returns (no access outside a buffer, no endless loop), and each value comes back reduced
  to its width. Neither side allocates: the result does not depend on \<open>realloc\<close>.
\<close>

theorem speex_packet_round_trip:
  assumes "can_receive r b" and "written b = []" and "fields_ok fs"
    and "pack_fits b (fields_width fs + 8)"
  shows "\<exists>b' r' r''. put_fields (speex_bits_pack ra) b fs = Some b' \<and>
           send_packet ra r b' = Some r' \<and>
           get_fields speex_bits_unpack_unsigned r' (map snd fs) = Some (field_values fs, r'')"
  by (rule sb_channel.fields_round_trip [OF assms])

definition empty_bits :: "nat \<Rightarrow> speex_bits" where
  "empty_bits n = \<lparr>chars = replicate n 0, nbBits = 0, charPtr = 0, bitPtr = 0, owner = False,
     overflow = False, buf_size = n\<rparr>"

lemma empty_bits_wf:
  "0 < n \<Longrightarrow> writer_wf (empty_bits n) \<and> written (empty_bits n) = [] \<and>
     (m \<le> n \<longrightarrow> can_receive (empty_bits n) (empty_bits m) \<or> m = 0) \<and>
     (pack_fits (empty_bits n) k \<longleftrightarrow> k < 8 * n)"
  by (auto simp: writer_wf_def written_def empty_bits_def can_receive_def pack_fits_def position_def)

theorem speex_packet_round_trip_witness:
  "\<exists>b' r' r''. put_fields (speex_bits_pack (\<lambda>_ _. None)) (empty_bits 4) [(5, 3), (300, 9)] = Some b' \<and>
     send_packet (\<lambda>_ _. None) (empty_bits 4) b' = Some r' \<and>
     get_fields speex_bits_unpack_unsigned r' [3, 9] = Some ([5, 300], r'')"
  using speex_packet_round_trip [of "empty_bits 4" "empty_bits 4" "[(5, 3), (300, 9)]" "\<lambda>_ _. None"]
    empty_bits_wf [of 4 4]
  by simp

text \<open>
  Packing never leaves the buffer and never loses what was packed: with a \<open>realloc\<close> that
  keeps its contract, \<open>speex_bits_pack\<close> of up to 32 bits either appends the bits of the
  value, most significant first, or changes nothing at all, and the latter only when the
  bits do not fit and the buffer belongs to the caller or cannot be grown.
\<close>

theorem speex_bits_pack_total:
  assumes "writer_wf b" and "realloc_contract ra" and "n \<le> 32"
  shows "\<exists>b'. speex_bits_pack ra b d n = Some b' \<and> writer_wf b' \<and>
           (written b' = written b @ msb_bits n d \<or>
            (b' = b \<and> \<not> pack_fits b n \<and>
             (owner b \<longrightarrow> ra (chars b) ((buf_size b + 5) * 3 div 2) = None)))"
  using speex_bits_pack_cases [OF assms, of d] assms(1) by blast

definition clearing_realloc :: reallocator where
  "clearing_realloc cs n = Some (take n cs @ replicate (n - length cs) 0)"

lemma clearing_realloc_contract: "realloc_contract clearing_realloc"
  by (auto simp: realloc_contract_def clearing_realloc_def min_def)

theorem speex_bits_pack_total_witness:
  "\<exists>b'. speex_bits_pack clearing_realloc ((empty_bits 1)\<lparr>owner := True\<rparr>) 77 20 = Some b' \<and>
     written b' = msb_bits 20 77"
proof -
  have "writer_wf ((empty_bits 1)\<lparr>owner := True\<rparr>)"
    by (simp add: writer_wf_def empty_bits_def position_def)
  from speex_bits_pack_total [OF this clearing_realloc_contract, of 20 77] show ?thesis
    by (auto simp: clearing_realloc_def written_def empty_bits_def)
qed

text \<open>
  C2. Reading is exact. In a loaded reader, \<open>speex_bits_unpack_unsigned\<close> of no more bits than
  remain returns their value and moves the position behind them; asked for more, it returns
  0, raises the overflow flag and leaves the position where it was.
\<close>

theorem speex_bits_unpack_exact:
  assumes "reader_wf b"
  shows "if n \<le> length (remaining b)
         then \<exists>b'. speex_bits_unpack_unsigned b n = Some (bits_val (take n (remaining b)), b') \<and>
                reader_wf b' \<and> remaining b' = drop n (remaining b) \<and> chars b' = chars b
         else speex_bits_unpack_unsigned b n = Some (0, b\<lparr>overflow := True\<rparr>)"
  using unpack_unsigned_takes [OF assms, of n] advanced_reader [OF assms, of n]
    unpack_past_end [of b n] not_past_end [OF assms, of n]
  by auto

theorem speex_bits_unpack_exact_witness:
  "speex_bits_unpack_unsigned (speex_bits_set_bit_buffer (empty_bits 1) [181] 1) 9 =
     Some (0, (speex_bits_set_bit_buffer (empty_bits 1) [181] 1)\<lparr>overflow := True\<rparr>)"
proof -
  have "reader_wf (speex_bits_set_bit_buffer (empty_bits 1) [181] 1)"
    by (simp add: reader_wf_def speex_bits_set_bit_buffer_def empty_bits_def position_def)
  from speex_bits_unpack_exact [OF this, of 9] show ?thesis
    by (simp add: remaining_def speex_bits_set_bit_buffer_def empty_bits_def position_def)
qed

text \<open>
  Unpacking is peeking followed by advancing, in every state, overflow included: the two
  reading functions of the file, each with a loop of its own, agree, and
  \<open>speex_bits_advance\<close> moves exactly as far as the bits read.
\<close>

theorem unpack_is_peek_then_advance:
  assumes "bitPtr b < 8"
  shows "speex_bits_unpack_unsigned b n =
     do { (d, b1) \<leftarrow> speex_bits_peek_unsigned b n; Some (d, speex_bits_advance b1 n) }"
proof (cases "past_end b n \<or> overflow b")
  case True
  then show ?thesis
    by (auto simp: unpack_past_end speex_bits_peek_unsigned_def check_overflow_def
        speex_bits_advance_def)
next
  case False
  then show ?thesis
    using unpack_loop_position [OF assms, of "chars b" n "charPtr b" 0]
    by (auto simp: speex_bits_unpack_unsigned_def speex_bits_peek_unsigned_def Let_def
        check_overflow_def speex_bits_advance_def split: Option.bind_splits)
qed

theorem unpack_is_peek_then_advance_witness:
  "speex_bits_unpack_unsigned (empty_bits 2) 5 =
     do { (d, b1) \<leftarrow> speex_bits_peek_unsigned (empty_bits 2) 5; Some (d, speex_bits_advance b1 5) }"
  by (rule unpack_is_peek_then_advance) (simp add: empty_bits_def)

text \<open>
  The terminator. Where the byte in progress is not the last one of the buffer,
  \<open>speex_bits_insert_terminator\<close> returns, and completes that byte with a 0 and then 1s
  (with nothing when the byte is already complete).
\<close>

theorem insert_terminator_completes:
  assumes "writer_wf b" and "bitPtr b > 0 \<longrightarrow> charPtr b + 1 < buf_size b"
  shows "\<exists>b'. speex_bits_insert_terminator ra b = Some b' \<and> bitPtr b' = 0 \<and>
           written b' = written b @
             (if bitPtr b = 0 then [] else False # replicate (7 - bitPtr b) True)"
  using insert_terminator_pads [OF assms, of ra] by (auto simp: terminator_def)

theorem insert_terminator_completes_witness:
  "\<exists>b'. speex_bits_insert_terminator (\<lambda>_ _. None)
      \<lparr>chars = [160, 7], nbBits = 3, charPtr = 0, bitPtr = 3, owner = False, overflow = False,
       buf_size = 2\<rparr> = Some b' \<and>
    written b' = [True, False, True, False, True, True, True, True]"
proof -
  let ?b = "\<lparr>chars = [160, 7], nbBits = 3, charPtr = 0, bitPtr = 3, owner = False,
      overflow = False, buf_size = 2\<rparr>"
  have "list_all (\<lambda>i. \<not> bit (160 :: u8) i) [0..<5]" by code_simp
  then have wf: "writer_wf ?b"
    by (auto simp: writer_wf_def position_def list_all_iff)
  have "written ?b = [True, False, True]" by code_simp
  with insert_terminator_completes [OF wf, of "\<lambda>_ _. None"] show ?thesis
    by (auto simp: numeral_eq_Suc)
qed

text \<open>
  C3. In the last byte of a caller's own buffer the terminator never ends: with seven bits of
  the last byte used there is no room for the eighth (packing insists on a spare byte), every
  call of \<open>speex_bits_pack\<close> refuses, the position does not move, and the loop of
  \<open>speex_bits_insert_terminator\<close> goes on for ever; so does \<open>speex_bits_write\<close>, whatever the
  caller asks for.
\<close>

theorem insert_terminator_hangs:
  assumes "\<not> owner b" and "bitPtr b = 7" and "charPtr b + 1 = buf_size b"
  shows "speex_bits_insert_terminator ra b = None \<and> speex_bits_write ra b cap = None"
proof -
  have "stuck b" using assms by (simp add: stuck_def)
  then have "speex_bits_insert_terminator ra b = None"
    using pack_stuck [of b ra 0] assms(2)
    by (simp add: speex_bits_insert_terminator_def terminator_loop_stuck)
  then show ?thesis by (simp add: speex_bits_write_def)
qed

theorem insert_terminator_hangs_witness:
  "\<exists>b. put_fields (speex_bits_pack (\<lambda>_ _. None)) (empty_bits 1) [(100, 7)] = Some b \<and>
     speex_bits_write (\<lambda>_ _. None) b 1 = None"
proof -
  obtain b where b: "speex_bits_pack (\<lambda>_ _. None) (empty_bits 1) 100 7 = Some b"
      "position b = 7" "bitPtr b < 8" "owner b = owner (empty_bits 1)" "buf_size b = 1"
    using pack_loop_appends [of "empty_bits 1" 7 100] empty_bits_wf [of 1 1 7]
      speex_bits_pack_fits [of "empty_bits 1" 7 "\<lambda>_ _. None" 100]
    by (auto simp: position_def empty_bits_def writer_wf_def)
  then have pos: "8 * charPtr b + bitPtr b = 7" by (simp add: position_def)
  then have "charPtr b = 0" by presburger
  with pos b have "\<not> owner b" "bitPtr b = 7" "charPtr b + 1 = buf_size b"
    by (auto simp: empty_bits_def)
  from insert_terminator_hangs [OF this, of "\<lambda>_ _. None" 1] b(1) show ?thesis by simp
qed

text \<open>
  \<open>speex_bits_read_whole_bytes\<close> on a caller's own buffer that is already partly filled:
  when the new bytes do not fit, the code says it truncates the input but copies a whole
  buffer's worth behind the bytes already there, past the end of the buffer.
\<close>

theorem read_whole_bytes_overruns:
  assumes "\<not> owner b" and "length (chars b) = buf_size b" and "charPtr b = 0"
    and "8 \<le> nbBits b" and "0 < buf_size b" and "asr (nbBits b + 8 - 1) 3 + int n > int (buf_size b)"
  shows "speex_bits_read_whole_bytes ra b cs n = None"
proof -
  have pos: "1 \<le> asr (nbBits b) 3" using assms(4) by (simp add: asr3)
  show ?thesis
  proof (cases "buf_size b \<le> length cs")
    case True
    then have "mem_write (chars b) (nat (asr (nbBits b) 3)) (take (buf_size b) cs) = None"
      using pos assms(2) by (simp add: mem_write_def)
    then show ?thesis
      using assms True pos
      by (simp add: speex_bits_read_whole_bytes_def speex_bits_flush_def mem_read_def)
  next
    case False
    then show ?thesis
      using assms by (simp add: speex_bits_read_whole_bytes_def speex_bits_flush_def mem_read_def)
  qed
qed

theorem read_whole_bytes_overruns_witness:
  "speex_bits_read_whole_bytes (\<lambda>_ _. None)
     ((speex_bits_set_bit_buffer (empty_bits 4) [1, 2, 0, 0] 4)\<lparr>nbBits := 16\<rparr>) [7, 8, 9, 10] 3 = None"
  by (rule read_whole_bytes_overruns)
     (simp_all add: speex_bits_set_bit_buffer_def empty_bits_def asr_def)

text \<open>
  \<open>speex_bits_write\<close> spoils the writer it was called on. It says it saves what the
  terminator overwrites and puts it back, but it puts back the position only, not the byte:
  after one zero bit, a write and seven more zero bits, the buffer holds six ones.
\<close>

theorem write_leaves_terminator_behind:
  "do { b1 \<leftarrow> speex_bits_pack (\<lambda>_ _. None) (empty_bits 4) 0 1;
        (b2, out, k) \<leftarrow> speex_bits_write (\<lambda>_ _. None) b1 4;
        b3 \<leftarrow> speex_bits_pack (\<lambda>_ _. None) b2 0 7;
        Some (out, position b2, written b3) } =
   Some ([63], 1, [False, False, True, True, True, True, True, True])"
  by code_simp

end
