(* ===== verification/Fifo.thy ===== *)
theory Fifo
  imports Prelude
begin

text \<open>
  The contract of a bounded first-in first-out buffer: what is pushed while there is room is
  popped later in the same order. \<open>Speex_Buffer\<close> interprets it on the ring buffer.
\<close>

datatype 'a fifo_op = Push "'a list" | Pop nat

text \<open>The specification: a list with a capacity. \<open>None\<close> when an operation does not fit.\<close>

fun fifo_spec :: "nat \<Rightarrow> 'a list \<Rightarrow> 'a fifo_op list \<Rightarrow> ('a list \<times> 'a list) option" where
  "fifo_spec cap q [] = Some ([], q)"
| "fifo_spec cap q (Push xs # ops) =
     (if length q + length xs \<le> cap then fifo_spec cap (q @ xs) ops else None)"
| "fifo_spec cap q (Pop n # ops) =
     (if n \<le> length q
      then do { (out, q') \<leftarrow> fifo_spec cap (drop n q) ops; Some (take n q @ out, q') }
      else None)"

fun fifo_run ::
    "('s \<Rightarrow> 'a list \<Rightarrow> 's option) \<Rightarrow> ('s \<Rightarrow> nat \<Rightarrow> ('a list \<times> 's) option) \<Rightarrow>
     's \<Rightarrow> 'a fifo_op list \<Rightarrow> ('a list \<times> 's) option" where
  "fifo_run push pop s [] = Some ([], s)"
| "fifo_run push pop s (Push xs # ops) = do { s' \<leftarrow> push s xs; fifo_run push pop s' ops }"
| "fifo_run push pop s (Pop n # ops) =
     do { (xs, s') \<leftarrow> pop s n;
          (out, s'') \<leftarrow> fifo_run push pop s' ops;
          Some (xs @ out, s'') }"

fun pushed :: "'a fifo_op list \<Rightarrow> 'a list" where
  "pushed [] = []"
| "pushed (Push xs # ops) = xs @ pushed ops"
| "pushed (Pop n # ops) = pushed ops"

text \<open>Nothing is lost, repeated or reordered by the specification.\<close>

lemma fifo_spec_conserves: "fifo_spec cap q ops = Some (out, q') \<Longrightarrow> out @ q' = q @ pushed ops"
proof (induction cap q ops arbitrary: out q' rule: fifo_spec.induct)
  case (3 cap q n ops)
  from "3.prems" obtain out' where rest: "fifo_spec cap (drop n q) ops = Some (out', q')"
    and out: "out = take n q @ out'" and n: "n \<le> length q"
    by (cases "n \<le> length q"; cases "fifo_spec cap (drop n q) ops") auto
  from "3.IH" [OF n rest] out show ?case by simp
qed (auto split: if_splits)

locale fifo =
  fixes push :: "'s \<Rightarrow> 'a list \<Rightarrow> 's option"
    and pop :: "'s \<Rightarrow> nat \<Rightarrow> ('a list \<times> 's) option"
    and items :: "'s \<Rightarrow> 'a list"
    and inv :: "'s \<Rightarrow> bool"
    and cap :: "'s \<Rightarrow> nat"
  assumes push_appends: "inv s \<Longrightarrow> length (items s) + length xs \<le> cap s \<Longrightarrow>
      \<exists>s'. push s xs = Some s' \<and> inv s' \<and> items s' = items s @ xs \<and> cap s' = cap s"
    and pop_takes: "inv s \<Longrightarrow> n \<le> length (items s) \<Longrightarrow>
      \<exists>s'. pop s n = Some (take n (items s), s') \<and> inv s' \<and> items s' = drop n (items s) \<and>
           cap s' = cap s"
begin

theorem run_refines_spec:
  "inv s \<Longrightarrow> fifo_spec (cap s) (items s) ops = Some (out, q) \<Longrightarrow>
     \<exists>s'. fifo_run push pop s ops = Some (out, s') \<and> inv s' \<and> items s' = q"
proof (induction ops arbitrary: s out)
  case Nil
  then show ?case by simp
next
  case (Cons op ops)
  show ?case
  proof (cases op)
    case (Push xs)
    with Cons.prems(2) have fits: "length (items s) + length xs \<le> cap s"
      and rest: "fifo_spec (cap s) (items s @ xs) ops = Some (out, q)"
      by (auto split: if_splits)
    obtain s1 where s1: "push s xs = Some s1" "inv s1" "items s1 = items s @ xs" "cap s1 = cap s"
      using push_appends [OF Cons.prems(1) fits] by auto
    from Cons.IH [of s1 out] s1 rest Push show ?thesis by auto
  next
    case (Pop n)
    with Cons.prems(2) obtain out' where n: "n \<le> length (items s)"
      and rest: "fifo_spec (cap s) (drop n (items s)) ops = Some (out', q)"
      and out: "out = take n (items s) @ out'"
      by (cases "n \<le> length (items s)"; cases "fifo_spec (cap s) (drop n (items s)) ops") auto
    obtain s1 where s1: "pop s n = Some (take n (items s), s1)" "inv s1"
        "items s1 = drop n (items s)" "cap s1 = cap s"
      using pop_takes [OF Cons.prems(1) n] by auto
    from Cons.IH [of s1 out'] s1 rest Pop out show ?thesis by auto
  qed
qed

end

end
