(* ===== verification/Speex_Buffer.thy ===== *)
theory Speex_Buffer
  imports Fifo
begin

text \<open>
  The ring buffer of Speex, \<open>jni/speex-1.2rc1/libspeex/buffer.c\<close>. \<open>SpeexBuffer\<close> is the
  record \<open>speex_buffer\<close>; \<open>None\<close> is an access outside one of the blocks involved (the ring,
  or the caller's block behind the data pointer). \<open>speex_buffer_resize\<close> has no model: by its
  own comments it is unfinished (it reallocates and leaves the size as it was), and nothing
  calls it. \<open>speex_buffer_destroy\<close> only frees.
\<close>

record speex_buffer =
  rb_data :: "u8 list"
  rb_size :: nat
  read_ptr :: nat
  write_ptr :: nat
  available :: nat

definition speex_buffer_init :: "nat \<Rightarrow> speex_buffer" where
  "speex_buffer_init n =
     \<lparr>rb_data = replicate n 0, rb_size = n, read_ptr = 0, write_ptr = 0, available = 0\<rparr>"

text \<open>
  The shared tail of the two writing functions: the counters after \<open>len\<close> bytes
  (\<open>len \<le> size\<close>) went in.
\<close>

definition after_write :: "speex_buffer \<Rightarrow> nat \<Rightarrow> speex_buffer" where
  "after_write st len =
     (let st1 = st\<lparr>available := available st + len\<rparr>;
          st2 = (if available st1 > rb_size st1
                 then st1\<lparr>available := rb_size st1, read_ptr := write_ptr st1\<rparr> else st1);
          st3 = st2\<lparr>write_ptr := write_ptr st2 + len\<rparr>
      in if write_ptr st3 > rb_size st3
         then st3\<lparr>write_ptr := write_ptr st3 - rb_size st3\<rparr> else st3)"

text \<open>
  \<open>SPEEX_COPY\<close> of \<open>end1 - write_ptr\<close> bytes from the caller's block (at offset \<open>off\<close> once the
  oldest bytes of an oversize write are skipped), then of the rest to the start of the ring.
  \<open>src i n\<close> reads \<open>n\<close> bytes at \<open>i\<close> from what is written.
\<close>

definition ring_store ::
    "speex_buffer \<Rightarrow> (nat \<Rightarrow> nat \<Rightarrow> u8 list option) \<Rightarrow> nat \<Rightarrow> u8 list option" where
  "ring_store st src len =
     (let e = write_ptr st + len;
          end1 = (if e > rb_size st then rb_size st else e)
      in do { blk \<leftarrow> src 0 (end1 - write_ptr st);
              d1 \<leftarrow> mem_write (rb_data st) (write_ptr st) blk;
              if e > rb_size st
              then do { blk2 \<leftarrow> src (end1 - write_ptr st) (e - rb_size st);
                        mem_write d1 0 blk2 }
              else Some d1 })"

definition speex_buffer_write ::
    "speex_buffer \<Rightarrow> u8 list \<Rightarrow> nat \<Rightarrow> (speex_buffer \<times> nat) option" where
  "speex_buffer_write st data len0 =
     (let (off, len) = (if len0 > rb_size st then (len0 - rb_size st, rb_size st) else (0, len0))
      in do { d \<leftarrow> ring_store st (\<lambda>i n. mem_read data (off + i) n) len;
              Some ((after_write st len)\<lparr>rb_data := d\<rparr>, len) })"

definition speex_buffer_writezeros ::
    "speex_buffer \<Rightarrow> nat \<Rightarrow> (speex_buffer \<times> nat) option" where
  "speex_buffer_writezeros st len0 =
     (let len = (if len0 > rb_size st then rb_size st else len0)
      in do { d \<leftarrow> ring_store st (\<lambda>i n. Some (replicate n 0)) len;
              Some ((after_write st len)\<lparr>rb_data := d\<rparr>, len) })"

text \<open>\<open>out\<close> is the caller's block; the result holds its new contents.\<close>

definition speex_buffer_read ::
    "speex_buffer \<Rightarrow> u8 list \<Rightarrow> nat \<Rightarrow> (speex_buffer \<times> u8 list \<times> nat) option" where
  "speex_buffer_read st out len0 =
     do { (out1, len) \<leftarrow>
            (if len0 > available st
             then do { o1 \<leftarrow> mem_write out (available st)
                               (replicate (rb_size st - available st) 0);
                       Some (o1, available st) }
             else Some (out, len0));
          let e = read_ptr st + len;
          let end1 = (if e > rb_size st then rb_size st else e);
          blk \<leftarrow> mem_read (rb_data st) (read_ptr st) (end1 - read_ptr st);
          out2 \<leftarrow> mem_write out1 0 blk;
          out3 \<leftarrow> (if e > rb_size st
                   then do { blk2 \<leftarrow> mem_read (rb_data st) 0 (e - rb_size st);
                             mem_write out2 (end1 - read_ptr st) blk2 }
                   else Some out2);
          let rp = read_ptr st + len;
          Some (st\<lparr>available := available st - len,
                   read_ptr := (if rp > rb_size st then rp - rb_size st else rp)\<rparr>,
                out3, len) }"

definition speex_buffer_get_available :: "speex_buffer \<Rightarrow> nat" where
  "speex_buffer_get_available st = available st"

subsection \<open>Well-formed rings and their contents\<close>

definition rb_wf :: "speex_buffer \<Rightarrow> bool" where
  "rb_wf st \<longleftrightarrow>
     0 < rb_size st \<and> length (rb_data st) = rb_size st \<and> read_ptr st \<le> rb_size st \<and>
     write_ptr st \<le> rb_size st \<and> available st \<le> rb_size st"

text \<open>The read and the write position agree with the number of bytes between them.\<close>

definition rb_sync :: "speex_buffer \<Rightarrow> bool" where
  "rb_sync st \<longleftrightarrow> write_ptr st mod rb_size st = (read_ptr st + available st) mod rb_size st"

definition content :: "speex_buffer \<Rightarrow> u8 list" where
  "content st = map (\<lambda>i. rb_data st ! ((read_ptr st + i) mod rb_size st)) [0..<available st]"

lemma length_content [simp]: "length (content st) = available st"
  by (simp add: content_def)

lemma nth_content:
  "i < available st \<Longrightarrow> content st ! i = rb_data st ! ((read_ptr st + i) mod rb_size st)"
  by (simp add: content_def)

lemma mod_small: "x < 2 * n \<Longrightarrow> x mod n = (if x < n then x else x - n)" for n :: nat
  by (simp add: le_mod_geq)

lemma ring_store_cells:
  assumes len: "length (rb_data st) = rb_size st" and w: "write_ptr st \<le> rb_size st"
    and xs: "length xs \<le> rb_size st"
    and src: "\<And>i n. i + n \<le> length xs \<Longrightarrow> src i n = Some (take n (drop i xs))"
  shows "\<exists>d. ring_store st src (length xs) = Some d \<and> length d = rb_size st \<and>
           (\<forall>i < rb_size st. d ! ((write_ptr st + i) mod rb_size st) =
              (if i < length xs then xs ! i
               else rb_data st ! ((write_ptr st + i) mod rb_size st)))"
proof -
  let ?n = "rb_size st" and ?w = "write_ptr st" and ?l = "length xs"
  show ?thesis
  proof (cases "?w + ?l > ?n")
    case False
    define d where "d = take ?w (rb_data st) @ xs @ drop (?w + ?l) (rb_data st)"
    have "ring_store st src ?l = Some d"
      using False w len by (simp add: ring_store_def src mem_simps d_def)
    moreover have "d ! ((?w + i) mod ?n) = (if i < ?l then xs ! i else rb_data st ! ((?w + i) mod ?n))"
      if "i < ?n" for i
      using that False w len by (auto simp: d_def mod_small nth_append)
    moreover have "length d = ?n" using False w len by (simp add: d_def)
    ultimately show ?thesis by blast
  next
    case True
    let ?k = "?n - ?w"
    define d1 where "d1 = take ?w (rb_data st) @ take ?k xs"
    define d where "d = drop ?k xs @ drop (?l - ?k) d1"
    have len1: "length d1 = ?n" using True w len by (simp add: d1_def)
    have "mem_write (rb_data st) ?w (take ?k xs) = Some d1"
      using True w len by (simp add: mem_simps d1_def)
    moreover have "mem_write d1 0 (drop ?k xs) = Some d"
      using True w xs len1 by (simp add: mem_simps d_def)
    moreover have "?w + ?l - ?n = ?l - ?k" using True w by simp
    ultimately have "ring_store st src ?l = Some d"
      using True w src [of 0 ?k] src [of ?k "?l - ?k"] by (simp add: ring_store_def)
    moreover have "d ! ((?w + i) mod ?n) = (if i < ?l then xs ! i else rb_data st ! ((?w + i) mod ?n))"
      if "i < ?n" for i
      using that True w len xs by (auto simp: d_def d1_def mod_small nth_append)
    moreover have "length d = ?n" using True w len1 xs by (simp add: d_def)
    ultimately show ?thesis by blast
  qed
qed

lemma after_write_simps [simp]:
  "rb_size (after_write st len) = rb_size st"
  "available (after_write st len) = min (available st + len) (rb_size st)"
  "read_ptr (after_write st len) =
     (if available st + len > rb_size st then write_ptr st else read_ptr st)"
  "write_ptr (after_write st len) =
     (if write_ptr st + len > rb_size st then write_ptr st + len - rb_size st
      else write_ptr st + len)"
  by (auto simp: after_write_def Let_def)

lemma ring_index:
  assumes "rb_sync st" and "available st \<le> rb_size st"
  shows "(read_ptr st + i) mod rb_size st =
         (write_ptr st + (rb_size st - available st + i)) mod rb_size st"
proof -
  let ?n = "rb_size st" and ?a = "available st"
  have "(write_ptr st + (?n - ?a + i)) mod ?n = (write_ptr st mod ?n + (?n - ?a + i)) mod ?n"
    by (simp add: mod_add_left_eq)
  also have "\<dots> = ((read_ptr st + ?a) mod ?n + (?n - ?a + i)) mod ?n"
    using assms(1) by (simp add: rb_sync_def)
  also have "\<dots> = (read_ptr st + ?a + (?n - ?a + i)) mod ?n"
    by (rule mod_add_left_eq)
  also have "read_ptr st + ?a + (?n - ?a + i) = read_ptr st + i + ?n"
    using assms(2) by simp
  finally show ?thesis by simp
qed

lemma nth_content_write:
  assumes "rb_sync st" and "available st \<le> rb_size st" and "i < available st"
  shows "content st ! i = rb_data st ! ((write_ptr st + (rb_size st - available st + i)) mod rb_size st)"
  using assms by (simp add: content_def ring_index [OF assms(1,2)])

text \<open>Writing what fits appends; writing more than fits puts the new bytes in front.\<close>

lemma write_content:
  assumes wf: "rb_wf st" and sync: "rb_sync st" and xs: "length xs \<le> rb_size st"
    and src: "\<And>i n. i + n \<le> length xs \<Longrightarrow> src i n = Some (take n (drop i xs))"
  shows "\<exists>d. ring_store st src (length xs) = Some d \<and>
           rb_wf ((after_write st (length xs))\<lparr>rb_data := d\<rparr>) \<and>
           (if available st + length xs \<le> rb_size st
            then rb_sync ((after_write st (length xs))\<lparr>rb_data := d\<rparr>) \<and>
                 content ((after_write st (length xs))\<lparr>rb_data := d\<rparr>) = content st @ xs
            else content ((after_write st (length xs))\<lparr>rb_data := d\<rparr>) =
                 xs @ drop (available st + length xs - rb_size st) (content st))"
proof -
  let ?n = "rb_size st" and ?a = "available st" and ?l = "length xs"
  have n: "0 < ?n" "length (rb_data st) = ?n" "write_ptr st \<le> ?n" "read_ptr st \<le> ?n" "?a \<le> ?n"
    using wf by (auto simp: rb_wf_def)
  obtain d where d: "ring_store st src ?l = Some d" "length d = ?n"
    and cells: "\<And>i. i < ?n \<Longrightarrow> d ! ((write_ptr st + i) mod ?n) =
        (if i < ?l then xs ! i else rb_data st ! ((write_ptr st + i) mod ?n))"
    using ring_store_cells [OF n(2,3) xs src] by blast
  let ?st = "(after_write st ?l)\<lparr>rb_data := d\<rparr>"
  have wf': "rb_wf ?st" using n d xs by (auto simp: rb_wf_def)
  show ?thesis
  proof (cases "?a + ?l \<le> ?n")
    case True
    have wp: "write_ptr ?st mod ?n = (write_ptr st + ?l) mod ?n"
      using n(3) xs by (auto simp: le_mod_geq)
    have "(write_ptr st + ?l) mod ?n = (read_ptr st + ?a + ?l) mod ?n"
      using sync unfolding rb_sync_def by (metis mod_add_left_eq)
    then have "rb_sync ?st" using wp True by (simp add: rb_sync_def add.assoc)
    moreover have "content ?st = content st @ xs"
    proof (rule nth_equalityI)
      show "length (content ?st) = length (content st @ xs)" using True by simp
      fix i assume "i < length (content ?st)"
      then have i: "i < ?a + ?l" using True by simp
      have "content ?st ! i = d ! ((read_ptr st + i) mod ?n)"
        using i True by (simp add: content_def)
      also have "\<dots> = (content st @ xs) ! i"
      proof (cases "i < ?a")
        case old: True
        have j: "?n - ?a + i < ?n" and nj: "\<not> ?n - ?a + i < ?l" using old True n(5) by auto
        have "d ! ((write_ptr st + (?n - ?a + i)) mod ?n) =
            rb_data st ! ((write_ptr st + (?n - ?a + i)) mod ?n)"
          using cells [OF j] nj by (simp only: if_False)
        then show ?thesis
          using old ring_index [OF sync n(5)] nth_content_write [OF sync n(5) old]
          by (simp add: nth_append)
      next
        case False
        have "(read_ptr st + i) mod ?n = (write_ptr st + (i - ?a)) mod ?n"
        proof -
          have "(write_ptr st + (i - ?a)) mod ?n = (read_ptr st + ?a + (i - ?a)) mod ?n"
            using sync unfolding rb_sync_def by (metis mod_add_left_eq)
          then show ?thesis using False by simp
        qed
        moreover have j: "i - ?a < ?n" and nj: "i - ?a < ?l" using False i True by auto
        moreover have "d ! ((write_ptr st + (i - ?a)) mod ?n) = xs ! (i - ?a)"
          using cells [OF j] nj by (simp only: if_True)
        ultimately show ?thesis using False by (simp only: nth_append length_content if_False)
      qed
      finally show "content ?st ! i = (content st @ xs) ! i" .
    qed
    ultimately show ?thesis unfolding if_P [OF True] using d(1) wf' by (intro exI [of _ d] conjI)
  next
    case False
    have "content ?st = xs @ drop (?a + ?l - ?n) (content st)"
    proof (rule nth_equalityI)
      show "length (content ?st) = length (xs @ drop (?a + ?l - ?n) (content st))"
        using False n(5) xs by simp
      fix i assume "i < length (content ?st)"
      then have i: "i < ?n" using False by simp
      have "content ?st ! i = d ! ((write_ptr st + i) mod ?n)"
        using i False by (simp add: content_def)
      also have "\<dots> = (xs @ drop (?a + ?l - ?n) (content st)) ! i"
      proof (cases "i < ?l")
        case True
        then show ?thesis using cells [OF i] by (simp add: nth_append)
      next
        case old: False
        then have j: "?a + i - ?n < ?a" "?n - ?a + (?a + i - ?n) = i"
          using i False n(5) by auto
        then show ?thesis
          using cells [OF i] old False n(5) xs nth_content_write [OF sync n(5) j(1)]
          by (simp add: nth_append)
      qed
      finally show "content ?st ! i = (xs @ drop (?a + ?l - ?n) (content st)) ! i" .
    qed
    then show ?thesis unfolding if_not_P [OF False] using d(1) wf' by (intro exI [of _ d] conjI)
  qed
qed

lemma ring_store_safe:
  assumes "rb_wf st" and "length xs \<le> rb_size st"
    and "\<And>i n. i + n \<le> length xs \<Longrightarrow> src i n = Some (take n (drop i xs))"
  shows "\<exists>d. ring_store st src (length xs) = Some d \<and>
           rb_wf ((after_write st (length xs))\<lparr>rb_data := d\<rparr>)"
  using ring_store_cells [of st xs src] assms by (fastforce simp: rb_wf_def)

text \<open>What an operation on a caller's block of \<open>len\<close> bytes stores: its last \<open>size\<close> bytes.\<close>

lemma write_source:
  assumes "len \<le> length data" and "off \<le> len" and "i + n \<le> length (drop off (take len data))"
  shows "mem_read data (off + i) n = Some (take n (drop i (drop off (take len data))))"
proof -
  have "i + n \<le> len - off" using assms by (auto simp: min_def split: if_splits)
  then have fits: "off + i + n \<le> length data" and m: "min n (len - (i + off)) = n"
    using assms(1,2) by auto
  from fits show ?thesis by (simp add: mem_simps drop_take m add.commute)
qed

lemma speex_buffer_write_eq:
  "speex_buffer_write st data len =
     do { d \<leftarrow> ring_store st (\<lambda>i n. mem_read data (len - min len (rb_size st) + i) n)
                (min len (rb_size st));
          Some ((after_write st (min len (rb_size st)))\<lparr>rb_data := d\<rparr>, min len (rb_size st)) }"
  by (simp add: speex_buffer_write_def min_def)

lemma write_length:
  "len \<le> length data \<Longrightarrow>
     length (drop (len - min len m) (take len data)) = min len m"
  by (simp add: min_absorb1)

text \<open>Reading what is there: the oldest bytes, which then leave the ring.\<close>

lemma read_content:
  assumes wf: "rb_wf st" and sync: "rb_sync st" and len: "len \<le> available st"
    and out: "len \<le> length out"
  shows "\<exists>st'. speex_buffer_read st out len = Some (st', take len (content st) @ drop len out, len) \<and>
           rb_wf st' \<and> rb_sync st' \<and> content st' = drop len (content st) \<and>
           rb_size st' = rb_size st"
proof -
  let ?n = "rb_size st" and ?r = "read_ptr st"
  have n: "0 < ?n" "length (rb_data st) = ?n" "?r \<le> ?n" "available st \<le> ?n"
    using wf by (auto simp: rb_wf_def)
  define st' where "st' = st\<lparr>available := available st - len,
      read_ptr := (if ?r + len > ?n then ?r + len - ?n else ?r + len)\<rparr>"
  have rp: "read_ptr st' mod ?n = (?r + len) mod ?n" using n len by (auto simp: st'_def le_mod_geq)
  have "rb_wf st'" using n len by (auto simp: rb_wf_def st'_def) (use wf in \<open>auto simp: rb_wf_def\<close>)
  moreover have "rb_sync st'"
  proof -
    have "(read_ptr st' + available st') mod ?n = (?r + len + available st') mod ?n"
      using rp by (metis mod_add_left_eq)
    then show ?thesis using sync len by (simp add: rb_sync_def st'_def)
  qed
  moreover have "content st' = drop len (content st)"
  proof (rule nth_equalityI)
    fix i assume "i < length (content st')"
    moreover have "(read_ptr st' + i) mod ?n = (?r + len + i) mod ?n"
      using rp by (metis mod_add_left_eq)
    ultimately show "content st' ! i = drop len (content st) ! i"
      using len by (simp add: nth_content st'_def add.assoc)
  qed (simp add: st'_def)
  moreover have "speex_buffer_read st out len = Some (st', take len (content st) @ drop len out, len)"
  proof (cases "?r + len > ?n")
    case False
    have "take len (content st) = take len (drop ?r (rb_data st))"
      by (rule nth_equalityI) (use False len n in \<open>auto simp: content_def mod_small\<close>)
    then show ?thesis
      using False len n out by (simp add: speex_buffer_read_def mem_simps st'_def Let_def)
  next
    case True
    let ?k = "?n - ?r"
    have "take len (content st) = drop ?r (rb_data st) @ take (len - ?k) (rb_data st)"
      by (rule nth_equalityI)
         (use True len n in \<open>auto simp: content_def mod_small nth_append less_diff_conv add.commute\<close>)
    moreover have "?r + len - ?n = len - ?k" using True n by simp
    ultimately show ?thesis
      using True len n out by (simp add: speex_buffer_read_def mem_simps st'_def Let_def)
  qed
  ultimately show ?thesis using st'_def by auto
qed

subsection \<open>The contract of a bounded queue holds\<close>

definition buffer_push :: "speex_buffer \<Rightarrow> u8 list \<Rightarrow> speex_buffer option" where
  "buffer_push st xs = do { (st', k) \<leftarrow> speex_buffer_write st xs (length xs); Some st' }"

definition buffer_pop :: "speex_buffer \<Rightarrow> nat \<Rightarrow> (u8 list \<times> speex_buffer) option" where
  "buffer_pop st n =
     do { (st', out, k) \<leftarrow> speex_buffer_read st (replicate n 0) n; Some (out, st') }"

definition rb_inv :: "speex_buffer \<Rightarrow> bool" where
  "rb_inv st \<longleftrightarrow> rb_wf st \<and> rb_sync st"

interpretation sb_fifo: fifo buffer_push buffer_pop content rb_inv rb_size
proof
  fix s and xs :: "u8 list"
  assume s: "rb_inv s" "length (content s) + length xs \<le> rb_size s"
  then have fits: "available s + length xs \<le> rb_size s" by simp
  then have m: "min (length xs) (rb_size s) = length xs" by simp
  obtain d where d: "ring_store s (\<lambda>i n. mem_read xs (0 + i) n) (length xs) = Some d"
      "rb_wf ((after_write s (length xs))\<lparr>rb_data := d\<rparr>)"
      "rb_sync ((after_write s (length xs))\<lparr>rb_data := d\<rparr>)"
      "content ((after_write s (length xs))\<lparr>rb_data := d\<rparr>) = content s @ xs"
    using write_content [of s xs "\<lambda>i n. mem_read xs (0 + i) n"] s(1) fits
    by (auto simp: rb_inv_def mem_simps)
  then show "\<exists>s'. buffer_push s xs = Some s' \<and> rb_inv s' \<and> content s' = content s @ xs \<and>
      rb_size s' = rb_size s"
    by (simp add: buffer_push_def speex_buffer_write_eq m rb_inv_def)
next
  fix s n
  assume s: "rb_inv s" "n \<le> length (content s)"
  then show "\<exists>s'. buffer_pop s n = Some (take n (content s), s') \<and> rb_inv s' \<and>
      content s' = drop n (content s) \<and> rb_size s' = rb_size s"
    using read_content [of s n "replicate n 0"] by (auto simp: buffer_pop_def rb_inv_def)
qed

lemma speex_buffer_init_inv:
  "0 < n \<Longrightarrow> rb_inv (speex_buffer_init n) \<and> content (speex_buffer_init n) = [] \<and>
     rb_size (speex_buffer_init n) = n"
  by (simp add: rb_inv_def rb_wf_def rb_sync_def content_def speex_buffer_init_def)

subsection \<open>Properties\<close>

text \<open>
  C16. The ring buffer is a first-in first-out queue as long as it does not overflow: every
  script of writes and reads that a queue of the same capacity accepts runs on the ring
  without leaving any block and delivers the same bytes, through every wrap-around.
\<close>

theorem speex_buffer_refines_queue:
  assumes "0 < n" and "fifo_spec n [] ops = Some (out, q)"
  shows "\<exists>st. fifo_run buffer_push buffer_pop (speex_buffer_init n) ops = Some (out, st) \<and>
           content st = q \<and> speex_buffer_get_available st = length q \<and> out @ q = pushed ops"
proof -
  note init = speex_buffer_init_inv [OF assms(1)]
  obtain st where "fifo_run buffer_push buffer_pop (speex_buffer_init n) ops = Some (out, st)"
      "content st = q"
    using sb_fifo.run_refines_spec [of "speex_buffer_init n" ops out q] init assms(2) by auto
  moreover have "out @ q = pushed ops" using fifo_spec_conserves [OF assms(2)] by simp
  ultimately show ?thesis by (auto simp: speex_buffer_get_available_def)
qed

theorem speex_buffer_refines_queue_witness:
  "\<exists>st. fifo_run buffer_push buffer_pop (speex_buffer_init 4)
      [Push [1, 2, 3], Pop 2, Push [4, 5, 6], Pop 3] = Some ([1, 2, 3, 4, 5], st) \<and> content st = [6]"
  using speex_buffer_refines_queue [of 4 "[Push [1, 2, 3], Pop 2, Push [4, 5, 6], Pop 3]"
      "[1, 2, 3, 4, 5]" "[6]"]
  by (auto simp: numeral_eq_Suc)

text \<open>
  Writing is safe in every state and for every length, longer than the ring included:
  the operation returns the number of bytes kept, the state stays well formed, and nothing
  outside the two blocks is touched.
\<close>

theorem speex_buffer_write_safe:
  assumes "rb_wf st" and "len \<le> length data"
  shows "\<exists>st'. speex_buffer_write st data len = Some (st', min len (rb_size st)) \<and> rb_wf st' \<and>
           available st' = min (available st + min len (rb_size st)) (rb_size st)"
proof -
  let ?k = "min len (rb_size st)"
  let ?xs = "drop (len - ?k) (take len data)"
  have "length ?xs = ?k" using assms(2) by (rule write_length)
  with ring_store_safe [OF assms(1), of ?xs "\<lambda>i n. mem_read data (len - ?k + i) n"]
  obtain d where "ring_store st (\<lambda>i n. mem_read data (len - ?k + i) n) ?k = Some d"
      "rb_wf ((after_write st ?k)\<lparr>rb_data := d\<rparr>)"
    using write_source [OF assms(2), of "len - ?k"] by auto
  then show ?thesis by (simp add: speex_buffer_write_eq)
qed

theorem speex_buffer_write_safe_witness:
  "\<exists>st'. speex_buffer_write (speex_buffer_init 3) [1, 2, 3, 4, 5] 5 = Some (st', 3) \<and> rb_wf st'"
  using speex_buffer_write_safe [of "speex_buffer_init 3" 5 "[1, 2, 3, 4, 5]"]
    speex_buffer_init_inv [of 3]
  by (simp add: rb_inv_def) blast

text \<open>
  What happens on overflow. A write that does not fit does not drop the oldest bytes
  and append the new ones: the new bytes end up in front of the older ones that stay, because
  the read position is set to the write position before, not after, the write position moves.
\<close>

theorem speex_buffer_overflow_reorders:
  assumes "rb_inv st" and "length xs \<le> rb_size st" and "rb_size st < available st + length xs"
  shows "\<exists>st'. speex_buffer_write st xs (length xs) = Some (st', length xs) \<and>
           content st' = xs @ drop (available st + length xs - rb_size st) (content st)"
proof -
  have m: "min (length xs) (rb_size st) = length xs" using assms(2) by simp
  have "\<not> available st + length xs \<le> rb_size st" using assms(3) by simp
  then obtain d where "ring_store st (\<lambda>i n. mem_read xs (0 + i) n) (length xs) = Some d"
      "content ((after_write st (length xs))\<lparr>rb_data := d\<rparr>) =
         xs @ drop (available st + length xs - rb_size st) (content st)"
    using write_content [of st xs "\<lambda>i n. mem_read xs (0 + i) n"] assms(1,2)
    by (auto simp: rb_inv_def mem_simps)
  then show ?thesis by (simp add: speex_buffer_write_eq m)
qed

theorem speex_buffer_overflow_reorders_witness:
  "\<exists>st st'. buffer_push (speex_buffer_init 4) [1, 2, 3] = Some st \<and>
     speex_buffer_write st [4, 5] 2 = Some (st', 2) \<and> content st' = [4, 5, 2, 3]"
proof -
  obtain st where st: "buffer_push (speex_buffer_init 4) [1, 2, 3] = Some st" "rb_inv st"
      "content st = [1, 2, 3]" "rb_size st = 4"
    using sb_fifo.push_appends [of "speex_buffer_init 4" "[1, 2, 3]"] speex_buffer_init_inv [of 4]
    by auto
  have "available st = 3" using arg_cong [OF st(3), of length] by simp
  with speex_buffer_overflow_reorders [OF st(2), of "[4, 5]"] st show ?thesis
    by (auto simp: numeral_2_eq_2)
qed

text \<open>
  Asking for more than is there. \<open>speex_buffer_read\<close> clears the caller's block from the
  available bytes up to the size of the ring, not up to the length asked for: with a block
  shorter than the ring the code writes behind its end.
\<close>

theorem speex_buffer_read_overruns:
  assumes "rb_wf st" and "available st < len" and "length out < rb_size st"
  shows "speex_buffer_read st out len = None"
  using assms by (auto simp: speex_buffer_read_def mem_write_def rb_wf_def)

theorem speex_buffer_read_overruns_witness:
  "speex_buffer_read (speex_buffer_init 8) [0, 0, 0] 3 = None"
  by (rule speex_buffer_read_overruns) (simp_all add: speex_buffer_init_def rb_wf_def)

text \<open>
  \<open>speex_buffer_writezeros\<close>, a copy of \<open>speex_buffer_write\<close> with \<open>memset\<close> in place of
  \<open>memcpy\<close>, does what writing a block of zeros does, in every state.
\<close>

theorem speex_buffer_writezeros_eq:
  "rb_wf st \<Longrightarrow> speex_buffer_writezeros st len = speex_buffer_write st (replicate len 0) len"
proof -
  assume wf: "rb_wf st"
  let ?k = "min len (rb_size st)"
  have "ring_store st (\<lambda>i n. Some (replicate n 0)) ?k =
      ring_store st (\<lambda>i n. mem_read (replicate len 0) (len - ?k + i) n) ?k"
    using wf by (auto simp: ring_store_def mem_read_def rb_wf_def Let_def min_def)
  moreover have "(if len > rb_size st then rb_size st else len) = ?k" by simp
  ultimately show ?thesis
    by (simp only: speex_buffer_write_eq speex_buffer_writezeros_def Let_def)
qed

theorem speex_buffer_writezeros_eq_witness:
  "speex_buffer_writezeros (speex_buffer_init 3) 5 =
     speex_buffer_write (speex_buffer_init 3) (replicate 5 0) 5"
  by (rule speex_buffer_writezeros_eq) (use speex_buffer_init_inv [of 3] in \<open>simp add: rb_inv_def\<close>)

end
