(* ===== verification/Spandsp_Arith.thy ===== *)
theory Spandsp_Arith
  imports Prelude
begin

text \<open>
  The fixed point arithmetic of spandsp: \<open>spandsp/saturated.h\<close>, the GSM operations of
  \<open>gsm0610_local.h\<close>, \<open>top_bit\<close> of \<open>spandsp/bit_operations.h\<close> and the vector loops of
  \<open>vector_int.c\<close>, all in their portable C branch (the one an ARM build compiles; the x86
  branches are inline assembly). The floating point saturations of \<open>saturated.h\<close> have no
  caller in the code modelled here.

  A product of two 16 bit values and the sums the code forms of them are integers; that they
  stay inside 32 bits where the code needs it is proved with the components.
\<close>

subsection \<open>saturated.h\<close>

definition saturate :: "int \<Rightarrow> int" where
  "saturate amp =
     (let amp16 = i16 amp in
      if amp = amp16 then amp16 else if amp > 32767 then 32767 else -32768)"

definition saturate15 :: "int \<Rightarrow> int" where
  "saturate15 amp = (if amp > 16383 then 16383 else if amp < -16384 then -16384 else i16 amp)"

definition saturated_add16 :: "int \<Rightarrow> int \<Rightarrow> int" where
  "saturated_add16 a b = saturate (a + b)"

definition saturated_sub16 :: "int \<Rightarrow> int \<Rightarrow> int" where
  "saturated_sub16 a b = saturate (a - b)"

text \<open>The unsigned 32 bit variable \<open>A\<close> is the value modulo \<open>2 ^ 32\<close>.\<close>

definition saturated_add32 :: "int \<Rightarrow> int \<Rightarrow> int" where
  "saturated_add32 a b =
     (if a < 0 then
        (if b \<ge> 0 then a + b
         else (let A = (- (a + 1) + - (b + 1)) mod 2 ^ 32 in
               if A \<ge> 2147483647 then -2147483648 else - i32 A - 2))
      else if b \<le> 0 then a + b
      else (let A = (a + b) mod 2 ^ 32 in if A > 2147483647 then 2147483647 else A))"

definition saturated_mul16 :: "int \<Rightarrow> int \<Rightarrow> int" where
  "saturated_mul16 a b = (if a = -32768 \<and> b = -32768 then 32767 else i16 (asr (a * b) 15))"

definition saturated_mul_16_32 :: "int \<Rightarrow> int \<Rightarrow> int" where
  "saturated_mul_16_32 a b = shl (a * b) 1"

definition saturated_abs16 :: "int \<Rightarrow> int" where
  "saturated_abs16 a = (if a = -32768 then 32767 else i16 \<bar>a\<bar>)"

subsection \<open>gsm0610\_local.h\<close>

definition gsm_add :: "int \<Rightarrow> int \<Rightarrow> int" where
  "gsm_add a b = saturate (a + b)"

definition gsm_sub :: "int \<Rightarrow> int \<Rightarrow> int" where
  "gsm_sub a b = saturate (a - b)"

definition gsm_l_add :: "int \<Rightarrow> int \<Rightarrow> int" where
  "gsm_l_add a b =
     (if a < 0 then
        (if b \<ge> 0 then a + b
         else (let A = (- (a + 1) + - (b + 1)) mod 2 ^ 32 in
               if A \<ge> 2147483647 then -2147483648 else - i32 A - 2))
      else if b \<le> 0 then a + b
      else (let A = (a + b) mod 2 ^ 32 in if A > 2147483647 then 2147483647 else A))"

definition gsm_mult :: "int \<Rightarrow> int \<Rightarrow> int" where
  "gsm_mult a b = (if a = -32768 \<and> b = -32768 then 32767 else i16 (asr (a * b) 15))"

text \<open>\<open>assert\<close> fails where the option is \<open>None\<close>.\<close>

definition gsm_l_mult :: "int \<Rightarrow> int \<Rightarrow> int option" where
  "gsm_l_mult a b = (if a = -32768 \<and> b = -32768 then None else Some (shl (a * b) 1))"

definition gsm_mult_r :: "int \<Rightarrow> int \<Rightarrow> int" where
  "gsm_mult_r a b =
     (if b = -32768 \<and> a = -32768 then 32767
      else (let prod = asr (a * b + 16384) 15 in i16 (prod mod 65536)))"

definition gsm_abs :: "int \<Rightarrow> int" where
  "gsm_abs a = (if a = -32768 then 32767 else i16 \<bar>a\<bar>)"

definition gsm_asr :: "int \<Rightarrow> int \<Rightarrow> int" where
  "gsm_asr a n =
     (if n \<ge> 16 then i16 (- of_bool (a < 0))
      else if n \<le> -16 then 0
      else if n < 0 then i16 (shl a (nat (- n)))
      else i16 (asr a (nat n)))"

definition gsm_asl :: "int \<Rightarrow> int \<Rightarrow> int" where
  "gsm_asl a n =
     (if n \<ge> 16 then 0
      else if n \<le> -16 then i16 (- of_bool (a < 0))
      else if n < 0 then gsm_asr a (- n)
      else i16 (shl a (nat n)))"

subsection \<open>bit\_operations.h\<close>

definition top_bit_step :: "u32 \<Rightarrow> int \<Rightarrow> u32 \<times> int \<Rightarrow> u32 \<times> int" where
  "top_bit_step m k br = (if fst br AND m \<noteq> 0 then (fst br AND m, snd br + k) else br)"

definition top_bit :: "u32 \<Rightarrow> int" where
  "top_bit bits =
     (if bits = 0 then -1
      else snd (top_bit_step 0xAAAAAAAA 1 (top_bit_step 0xCCCCCCCC 2 (top_bit_step 0xF0F0F0F0 4
             (top_bit_step 0xFF00FF00 8 (top_bit_step 0xFFFF0000 16 (bits, 0)))))))"

subsection \<open>vector\_int.c\<close>

text \<open>
  A vector argument is the block from the pointer on. \<open>x\<close> and \<open>y\<close> must have \<open>n\<close> elements
  there; \<open>mem_read\<close> is \<open>None\<close> where they have not.
\<close>

definition dot_prod :: "int list \<Rightarrow> int list \<Rightarrow> int" where
  "dot_prod x y = foldl (\<lambda>z (a, b). z + a * b) 0 (zip x y)"

definition vec_dot_prodi16 :: "int list \<Rightarrow> int list \<Rightarrow> nat \<Rightarrow> int option" where
  "vec_dot_prodi16 x y n =
     do { xs \<leftarrow> mem_read x 0 n; ys \<leftarrow> mem_read y 0 n; Some (dot_prod xs ys) }"

definition vec_circular_dot_prodi16 ::
    "int list \<Rightarrow> int list \<Rightarrow> nat \<Rightarrow> nat \<Rightarrow> int option" where
  "vec_circular_dot_prodi16 x y n pos =
     do { z \<leftarrow> vec_dot_prodi16 (drop pos x) y (n - pos);
          z' \<leftarrow> vec_dot_prodi16 x (drop (n - pos) y) pos;
          Some (z + z') }"

definition vec_lmsi16 :: "int list \<Rightarrow> int list \<Rightarrow> nat \<Rightarrow> int \<Rightarrow> int list option" where
  "vec_lmsi16 x y n err =
     do { xs \<leftarrow> mem_read x 0 n; ys \<leftarrow> mem_read y 0 n;
          mem_write y 0 (map2 (\<lambda>a b. i16 (b + i16 (asr (a * err) 15))) xs ys) }"

definition vec_circular_lmsi16 ::
    "int list \<Rightarrow> int list \<Rightarrow> nat \<Rightarrow> nat \<Rightarrow> int \<Rightarrow> int list option" where
  "vec_circular_lmsi16 x y n pos err =
     do { y1 \<leftarrow> vec_lmsi16 (drop pos x) y (n - pos) err;
          y2 \<leftarrow> vec_lmsi16 x (drop (n - pos) y1) pos err;
          Some (take (n - pos) y1 @ y2) }"

text \<open>The result is the largest absolute value; the maximum and the minimum go to \<open>out\<close>.\<close>

definition vec_min_maxi16 :: "int list \<Rightarrow> nat \<Rightarrow> (int \<times> int \<times> int) option" where
  "vec_min_maxi16 x n =
     do { xs \<leftarrow> mem_read x 0 n;
          let mx = foldl (\<lambda>m t. if t > m then t else m) (-32768) xs;
          let mn = foldl (\<lambda>m t. if t < m then t else m) 32767 xs;
          Some (if \<bar>mn\<bar> > mx then \<bar>mn\<bar> else mx, mx, mn) }"

subsection \<open>What the operations compute\<close>

definition clamp :: "int \<Rightarrow> int \<Rightarrow> int \<Rightarrow> int" where
  "clamp lo hi x = max lo (min hi x)"

lemma saturate_eq: "saturate x = clamp (-32768) 32767 x"
proof (cases "is_i16 x")
  case True
  then show ?thesis by (simp add: saturate_def clamp_def is_i16_def Let_def)
next
  case False
  moreover have "x \<noteq> i16 x"
  proof
    assume "x = i16 x"
    then have "is_i16 x" using is_i16_i16 [of x] by simp
    with False show False by simp
  qed
  ultimately show ?thesis by (auto simp: saturate_def clamp_def is_i16_def Let_def)
qed

lemma is_i16_saturate [simp, int_ranges]: "is_i16 (saturate x)"
  by (simp add: saturate_eq clamp_def is_i16_def)

lemma saturate_id [simp]: "is_i16 x \<Longrightarrow> saturate x = x"
  by (simp add: saturate_eq clamp_def is_i16_def)

lemma saturate15_eq: "saturate15 x = clamp (-16384) 16383 x"
  by (auto simp: saturate15_def clamp_def is_i16_def)

lemma is_i16_add16 [simp, int_ranges]: "is_i16 (saturated_add16 a b)"
  by (simp add: saturated_add16_def)

lemma is_i16_sub16 [simp, int_ranges]: "is_i16 (saturated_sub16 a b)"
  by (simp add: saturated_sub16_def)

lemma asr_mult_bounds:
  assumes "\<bar>a\<bar> \<le> m" and "\<bar>b\<bar> \<le> 32768"
  shows "- m \<le> asr (a * b) 15 \<and> asr (a * b) 15 \<le> m"
proof -
  have "\<bar>a * b\<bar> \<le> m * 32768"
    unfolding abs_mult using assms by (intro mult_mono) auto
  then show ?thesis
    by (intro asr_bounds) (auto simp: abs_le_iff)
qed

text \<open>A saturating addition: exact inside the range, the nearest bound outside.\<close>

locale sat_add =
  fixes add :: "int \<Rightarrow> int \<Rightarrow> int" and lo hi :: int
  assumes add_clamps: "lo \<le> a \<Longrightarrow> a \<le> hi \<Longrightarrow> lo \<le> b \<Longrightarrow> b \<le> hi \<Longrightarrow> add a b = clamp lo hi (a + b)"
    and around_zero: "lo \<le> 0" "0 \<le> hi"
begin

lemma add_in_range: "lo \<le> a \<Longrightarrow> a \<le> hi \<Longrightarrow> lo \<le> b \<Longrightarrow> b \<le> hi \<Longrightarrow> lo \<le> add a b \<and> add a b \<le> hi"
  using around_zero by (auto simp: add_clamps clamp_def)

lemma add_exact:
  "lo \<le> a \<Longrightarrow> a \<le> hi \<Longrightarrow> lo \<le> b \<Longrightarrow> b \<le> hi \<Longrightarrow> lo \<le> a + b \<Longrightarrow> a + b \<le> hi \<Longrightarrow> add a b = a + b"
  by (simp add: add_clamps clamp_def)

lemma add_mono:
  "lo \<le> a \<Longrightarrow> a \<le> a' \<Longrightarrow> a' \<le> hi \<Longrightarrow> lo \<le> b \<Longrightarrow> b \<le> b' \<Longrightarrow> b' \<le> hi \<Longrightarrow> add a b \<le> add a' b'"
  by (auto simp: add_clamps clamp_def)

lemma add_zero: "lo \<le> a \<Longrightarrow> a \<le> hi \<Longrightarrow> add a 0 = a"
  using around_zero by (simp add: add_clamps clamp_def)

end

lemma saturated_add32_eq:
  assumes "is_i32 a" and "is_i32 b"
  shows "saturated_add32 a b = clamp (-2147483648) 2147483647 (a + b)"
proof -
  have "(- (a + 1) + - (b + 1)) mod 2 ^ 32 = - (a + 1) + - (b + 1)" if "a < 0" "b < 0"
    using that assms by (intro mod_pos_pos_trivial) (auto simp: is_i32_def)
  moreover have "i32 (- (a + 1) + - (b + 1)) = - (a + 1) + - (b + 1)"
    if "- (a + 1) + - (b + 1) < 2147483647" "a < 0" "b < 0"
    using that by (intro i32_id) (auto simp: is_i32_def)
  moreover have "(a + b) mod 2 ^ 32 = a + b" if "0 \<le> a" "0 \<le> b"
    using that assms by (intro mod_pos_pos_trivial) (auto simp: is_i32_def)
  ultimately show ?thesis
    using assms by (auto simp: saturated_add32_def clamp_def is_i32_def Let_def)
qed

lemma gsm_l_add_eq_add32: "gsm_l_add a b = saturated_add32 a b"
  by (simp add: gsm_l_add_def saturated_add32_def)

interpretation add16: sat_add saturated_add16 "-32768" 32767
  by unfold_locales (simp_all add: saturated_add16_def saturate_eq)

interpretation gsm_add16: sat_add gsm_add "-32768" 32767
  by unfold_locales (simp_all add: gsm_add_def saturate_eq)

interpretation add32: sat_add saturated_add32 "-2147483648" 2147483647
  by unfold_locales (simp_all add: saturated_add32_eq is_i32_def)

interpretation gsm_add32: sat_add gsm_l_add "-2147483648" 2147483647
  by unfold_locales (simp_all add: gsm_l_add_eq_add32 saturated_add32_eq is_i32_def)

subsection \<open>The binary search for the highest bit\<close>

definition search_inv :: "nat \<Rightarrow> nat \<Rightarrow> u32 \<times> int \<Rightarrow> bool" where
  "search_inv p k br \<longleftrightarrow>
     bit (fst br) p \<and> (\<forall>i. bit (fst br) i \<longrightarrow> i \<le> p) \<and>
     (\<forall>i. bit (fst br) i \<longrightarrow> i div 2 ^ k = p div 2 ^ k) \<and>
     snd br = int (2 ^ k * (p div 2 ^ k))"

lemma div_power_Suc: "i div 2 ^ Suc k = i div 2 ^ k div (2 :: nat)"
  by (simp only: power_Suc2 div_mult2_eq)

lemma half_parity: "a div 2 = b div 2 \<Longrightarrow> a = b \<longleftrightarrow> (odd a \<longleftrightarrow> odd b)" for a b :: nat
  by presburger

lemma half_parity_le: "a div 2 = b div 2 \<Longrightarrow> a \<le> b \<Longrightarrow> odd a \<Longrightarrow> odd b" for a b :: nat
  by presburger

lemma halves_agree:
  fixes i p :: nat
  assumes "i div 2 ^ Suc k = p div 2 ^ Suc k"
  shows "i div 2 ^ k = p div 2 ^ k \<longleftrightarrow> (odd (i div 2 ^ k) \<longleftrightarrow> odd (p div 2 ^ k))"
proof -
  have "i div 2 ^ k div 2 = p div 2 ^ k div 2"
    using assms by (simp only: div_power_Suc)
  then show ?thesis by (rule half_parity)
qed

lemma top_bit_step_inv:
  assumes inv: "search_inv p (Suc k) br"
    and mask: "\<And>i. i < 32 \<Longrightarrow> bit m i \<longleftrightarrow> odd (i div 2 ^ k)"
  shows "search_inv p k (top_bit_step m (2 ^ k) br)"
proof -
  obtain b r where br: "br = (b, r)" by fastforce
  have bp: "bit b p" and top: "\<And>i. bit b i \<Longrightarrow> i \<le> p"
    and same: "\<And>i. bit b i \<Longrightarrow> i div 2 ^ Suc k = p div 2 ^ Suc k"
    and r: "r = int (2 ^ Suc k * (p div 2 ^ Suc k))"
    using inv unfolding search_inv_def br fst_conv snd_conv by blast+
  have lt: "bit b i \<Longrightarrow> i < 32" for i using bit_imp_le_length [of b i] by simp
  have both: "bit (b AND m) i \<longleftrightarrow> bit b i \<and> odd (i div 2 ^ k)" for i
    using lt mask by (auto simp: bit_and_iff)
  have split: "2 ^ Suc k * (p div 2 ^ Suc k) + 2 ^ k * (p div 2 ^ k mod 2) = 2 ^ k * (p div 2 ^ k)"
  proof -
    have "2 ^ Suc k * (p div 2 ^ Suc k) = 2 ^ k * (2 * (p div 2 ^ k div 2))"
      by (simp add: div_power_Suc del: power_Suc) (simp add: mult.left_commute)
    then show ?thesis
      by (simp only: distrib_left [symmetric] mult_div_mod_eq)
  qed
  show ?thesis
  proof (cases "odd (p div 2 ^ k)")
    case True
    then have "bit (b AND m) p" using bp both by simp
    then have "b AND m \<noteq> 0" by (metis bit_0_eq bot_apply bot_bool_def)
    then have step: "top_bit_step m (2 ^ k) br = (b AND m, r + 2 ^ k)"
      by (simp add: top_bit_step_def br)
    have "bit (b AND m) i \<Longrightarrow> i div 2 ^ k = p div 2 ^ k" for i
      using both same halves_agree True by blast
    moreover have "r + 2 ^ k = int (2 ^ k * (p div 2 ^ k))"
    proof -
      have "p div 2 ^ k mod 2 = 1" using True by (simp only: odd_iff_mod_2_eq_one)
      with split have "2 ^ Suc k * (p div 2 ^ Suc k) + 2 ^ k = 2 ^ k * (p div 2 ^ k)"
        by (simp only: mult_1_right)
      then show ?thesis unfolding r by (metis of_nat_add of_nat_numeral of_nat_power)
    qed
    ultimately show ?thesis
      unfolding step search_inv_def fst_conv snd_conv using \<open>bit (b AND m) p\<close> top both by blast
  next
    case False
    have even_all: "bit b i \<Longrightarrow> even (i div 2 ^ k)" for i
    proof (rule ccontr)
      assume i: "bit b i" and odd: "odd (i div 2 ^ k)"
      have "i div 2 ^ k div 2 = p div 2 ^ k div 2"
        using same [OF i] by (simp only: div_power_Suc)
      moreover have "i div 2 ^ k \<le> p div 2 ^ k" using top [OF i] by (rule div_le_mono)
      ultimately show False using odd False half_parity_le by blast
    qed
    then have "b AND m = 0" using both by (intro bit_eqI) auto
    then have step: "top_bit_step m (2 ^ k) br = (b, r)"
      by (simp add: top_bit_step_def br)
    have "bit b i \<Longrightarrow> i div 2 ^ k = p div 2 ^ k" for i
      using even_all same halves_agree False by blast
    moreover have "r = int (2 ^ k * (p div 2 ^ k))"
    proof -
      have "p div 2 ^ k mod 2 = 0" using False by (simp only: odd_iff_mod_2_eq_one not_mod_2_eq_1_eq_0)
      with split show ?thesis unfolding r by (simp only: mult_0_right add_0_right)
    qed
    ultimately show ?thesis
      unfolding step search_inv_def fst_conv snd_conv using bp top by blast
  qed
qed

lemma top_bit_masks:
  "list_all (\<lambda>i. bit (0xFFFF0000 :: u32) i \<longleftrightarrow> odd (i div 2 ^ 4)) [0..<32]"
  "list_all (\<lambda>i. bit (0xFF00FF00 :: u32) i \<longleftrightarrow> odd (i div 2 ^ 3)) [0..<32]"
  "list_all (\<lambda>i. bit (0xF0F0F0F0 :: u32) i \<longleftrightarrow> odd (i div 2 ^ 2)) [0..<32]"
  "list_all (\<lambda>i. bit (0xCCCCCCCC :: u32) i \<longleftrightarrow> odd (i div 2 ^ 1)) [0..<32]"
  "list_all (\<lambda>i. bit (0xAAAAAAAA :: u32) i \<longleftrightarrow> odd (i div 2 ^ 0)) [0..<32]"
  by code_simp+

lemma top_bit_highest:
  assumes "bit bits p" and top: "\<And>i. bit bits i \<Longrightarrow> i \<le> p"
  shows "top_bit bits = int p"
proof -
  have p: "p < 32" using bit_imp_le_length [OF assms(1)] by simp
  have lt: "bit bits i \<Longrightarrow> i < 32" for i using bit_imp_le_length [of bits i] by simp
  have "search_inv p 5 (bits, 0)"
    using assms p lt by (auto simp: search_inv_def)
  then have "search_inv p 4 (top_bit_step 0xFFFF0000 16 (bits, 0))"
    using top_bit_step_inv [of p 4 "(bits, 0)" "0xFFFF0000"] top_bit_masks(1)
    by (simp add: list_all_iff)
  then have "search_inv p 3 (top_bit_step 0xFF00FF00 8 (top_bit_step 0xFFFF0000 16 (bits, 0)))"
    using top_bit_step_inv [of p 3 _ "0xFF00FF00"] top_bit_masks(2) by (simp add: list_all_iff)
  then have "search_inv p 2 (top_bit_step 0xF0F0F0F0 4 (top_bit_step 0xFF00FF00 8
      (top_bit_step 0xFFFF0000 16 (bits, 0))))"
    using top_bit_step_inv [of p 2 _ "0xF0F0F0F0"] top_bit_masks(3)
    by (simp add: list_all_iff)
  then have "search_inv p 1 (top_bit_step 0xCCCCCCCC 2 (top_bit_step 0xF0F0F0F0 4
      (top_bit_step 0xFF00FF00 8 (top_bit_step 0xFFFF0000 16 (bits, 0)))))"
    using top_bit_step_inv [of p 1 _ "0xCCCCCCCC"] top_bit_masks(4)
    by (simp add: list_all_iff numeral_2_eq_2)
  then have "search_inv p 0 (top_bit_step 0xAAAAAAAA 1 (top_bit_step 0xCCCCCCCC 2
      (top_bit_step 0xF0F0F0F0 4 (top_bit_step 0xFF00FF00 8 (top_bit_step 0xFFFF0000 16 (bits, 0))))))"
    using top_bit_step_inv [of p 0 _ "0xAAAAAAAA"] top_bit_masks(5) by (simp add: list_all_iff)
  moreover have "bits \<noteq> 0" using assms(1) by auto
  ultimately show ?thesis by (simp add: top_bit_def search_inv_def)
qed

lemma top_bit_of_int:
  assumes "2 ^ p \<le> x" and "x < 2 ^ Suc p" and "p < 32"
  shows "top_bit (word_of_int x) = int p"
proof (rule top_bit_highest)
  have x0: "0 \<le> x" using assms(1) by (rule order_trans [rotated]) simp
  have "x div 2 ^ p = 1"
  proof -
    have "1 \<le> x div 2 ^ p" using zdiv_mono1 [OF assms(1), of "2 ^ p"] by simp
    moreover have "x div 2 ^ p < 2"
    proof (rule ccontr)
      assume "\<not> x div 2 ^ p < 2"
      then have "2 * 2 ^ p \<le> x div 2 ^ p * 2 ^ p" by (intro mult_right_mono) auto
      also have "\<dots> \<le> x" by (simp add: minus_mod_eq_div_mult [symmetric])
      finally show False using assms(2) by simp
    qed
    ultimately show ?thesis by simp
  qed
  then have "bit x p" by (simp add: bit_iff_odd)
  then show "bit (word_of_int x :: u32) p"
    using assms(3) by (simp add: bit_word_of_int_iff)
  fix i assume "bit (word_of_int x :: u32) i"
  then have "bit x i" by (simp add: bit_word_of_int_iff)
  then have "odd (x div 2 ^ i)" by (simp add: bit_iff_odd)
  then have "x div 2 ^ i \<noteq> 0" by auto
  then have "2 ^ i \<le> x" using x0 by (metis div_pos_pos_trivial not_le)
  then have "(2::int) ^ i < 2 ^ Suc p" using assms(2) by linarith
  then have "i < Suc p" by (rule power_less_imp_less_exp [rotated]) simp
  then show "i \<le> p" by simp
qed

lemma floor_log2_exists:
  fixes x :: int
  assumes "0 < x"
  shows "\<exists>p. 2 ^ p \<le> x \<and> x < 2 ^ Suc p"
proof -
  have "1 \<le> nat x" using assms by simp
  from ex_power_ivl1 [OF _ this, of 2] obtain p where p: "2 ^ p \<le> nat x" "nat x < 2 ^ (p + 1)"
    by auto
  have "int (2 ^ p) \<le> x" and "x < int (2 ^ (p + 1))"
    using p assms by linarith+
  then show ?thesis by (intro exI [of _ p]) simp
qed

lemma i16_mod: "i16 (x mod 65536) = i16 x"
  by (simp add: i16_def mod_add_left_eq)

lemma is_i16_mult_r [simp, int_ranges]: "is_i16 (gsm_mult_r a b)"
  by (simp add: gsm_mult_r_def Let_def) (simp add: is_i16_def)

lemma is_i16_asr_asl [simp, int_ranges]: "is_i16 (gsm_asr a n)" "is_i16 (gsm_asl a n)"
  by (auto simp: gsm_asr_def gsm_asl_def) (simp_all add: is_i16_def)

lemma is_i16_mul16 [simp, int_ranges]: "is_i16 (saturated_mul16 a b)"
  by (simp add: saturated_mul16_def) (simp add: is_i16_def)

lemma is_i16_abs16 [simp, int_ranges]: "is_i16 (saturated_abs16 a)"
  by (simp add: saturated_abs16_def) (simp add: is_i16_def)

lemma saturated_abs16_eq: "is_i16 a \<Longrightarrow> saturated_abs16 a = min 32767 \<bar>a\<bar>"
  by (auto simp: saturated_abs16_def is_i16_def i16_def)

lemma product_bounds:
  assumes "is_i16 a" and "is_i16 b" and "\<not> (a = -32768 \<and> b = -32768)"
  shows "- 1073741824 < a * b \<and> a * b \<le> 1073709056"
proof -
  have ab: "\<bar>a\<bar> \<le> 32768" "\<bar>b\<bar> \<le> 32768" using assms by (auto simp: is_i16_def)
  have "\<bar>a * b\<bar> \<le> 32767 * 32768" if "\<bar>a\<bar> \<le> 32767 \<or> \<bar>b\<bar> \<le> 32767"
    using that
  proof
    assume "\<bar>a\<bar> \<le> 32767"
    then show ?thesis unfolding abs_mult using ab by (intro mult_mono) auto
  next
    assume "\<bar>b\<bar> \<le> 32767"
    then have "\<bar>a\<bar> * \<bar>b\<bar> \<le> 32768 * 32767" using ab by (intro mult_mono) auto
    then show ?thesis by (simp add: abs_mult)
  qed
  moreover have "\<bar>a\<bar> \<le> 32767 \<or> \<bar>b\<bar> \<le> 32767" using assms by (auto simp: is_i16_def)
  ultimately show ?thesis by (simp add: abs_le_iff)
qed

lemma asr15: "asr x 15 = x div 32768"
  by (simp add: asr_def)

lemma gsm_mult_r_eq:
  assumes "is_i16 a" and "is_i16 b" and "\<not> (a = -32768 \<and> b = -32768)"
  shows "gsm_mult_r a b = (a * b + 16384) div 32768"
proof -
  have "-32768 \<le> (a * b + 16384) div 32768 \<and> (a * b + 16384) div 32768 \<le> 32767"
    using asr_bounds [of "-32768" 15 "a * b + 16384" 32767] product_bounds [OF assms]
    by (simp add: asr15)
  then show ?thesis
    using assms(3) by (auto simp: gsm_mult_r_def i16_mod asr15 is_i16_def)
qed

lemma saturated_mul16_eq:
  assumes "is_i16 a" and "is_i16 b" and "\<not> (a = -32768 \<and> b = -32768)"
  shows "saturated_mul16 a b = a * b div 32768"
proof -
  have "-32768 \<le> a * b div 32768 \<and> a * b div 32768 \<le> 32767"
    using asr_bounds [of "-32768" 15 "a * b" 32767] product_bounds [OF assms] by (simp add: asr15)
  then show ?thesis using assms(3) by (simp add: saturated_mul16_def asr15 is_i16_def)
qed

subsection \<open>Properties\<close>

text \<open>
  \<open>top_bit\<close>, the branch-free binary search over five masks, is the position of the
  highest set bit of every non-zero 32 bit value.
\<close>

theorem top_bit_is_floor_log2:
  assumes "0 < x" and "x < 2 ^ 32"
  shows "\<exists>p. top_bit (word_of_int x) = int p \<and> 2 ^ p \<le> x \<and> x < 2 ^ Suc p"
proof -
  obtain p where p: "2 ^ p \<le> x" "x < 2 ^ Suc p" using floor_log2_exists [OF assms(1)] by blast
  have "(2::int) ^ p < 2 ^ 32" using p(1) assms(2) by linarith
  then have "p < 32" by (rule power_less_imp_less_exp [rotated]) simp
  with top_bit_of_int [OF p] p show ?thesis by blast
qed

theorem top_bit_is_floor_log2_witness:
  "\<exists>p. top_bit (word_of_int 70000) = int p \<and> 2 ^ p \<le> (70000::int) \<and> 70000 < (2::int) ^ Suc p"
  using top_bit_is_floor_log2 [of 70000] by simp

text \<open>
  The 32 bit saturating additions, written with unsigned arithmetic and a bias so that no
  signed sum overflows, compute the exact sum limited to the range of a 32 bit integer.
\<close>

theorem saturated_add32_clamps:
  assumes "-2147483648 \<le> a" and "a \<le> 2147483647" and "-2147483648 \<le> b" and "b \<le> 2147483647"
  shows "saturated_add32 a b = max (-2147483648) (min 2147483647 (a + b)) \<and>
         gsm_l_add a b = saturated_add32 a b"
  using add32.add_clamps [OF assms] by (simp add: clamp_def gsm_l_add_eq_add32)

theorem saturated_add32_clamps_witness:
  "saturated_add32 (-2147483648) (-1) = -2147483648 \<and> gsm_l_add (-2147483648) (-1) = -2147483648"
  using saturated_add32_clamps [of "-2147483648" "-1"] by simp

end
