(* ===== verification/G722.thy ===== *)
theory G722
  imports Spandsp_Arith
begin

text \<open>
  The G.722 sub-band ADPCM codec, \<open>jni/spandsp/g722.c\<close> and \<open>spandsp/private/g722.h\<close>.

  The encoder and the decoder have the same state record. A call processes its whole input;
  its result is the output (bytes or samples) and the new state, \<open>None\<close> where the code reads
  outside a block, or, in the packed decoder with a rate of zero bits per sample (which no
  initialisation sets), does not return. The output blocks belong to the caller and are as
  long as the output.
\<close>

subsection \<open>Tables\<close>

definition qmf_coeffs_fwd :: "int list" where
  "qmf_coeffs_fwd = [3, -11, 12, 32, -210, 951, 3876, -805, 362, -156, 53, -11]"

definition qmf_coeffs_rev :: "int list" where
  "qmf_coeffs_rev = [-11, 53, -156, 362, -805, 3876, 951, -210, 32, 12, -11, 3]"

definition qm2 :: "int list" where
  "qm2 = [-7408, -1616, 7408, 1616]"

definition qm4 :: "int list" where
  "qm4 = [0, -20456, -12896, -8968, -6288, -4240, -2584, -1200,
          20456, 12896, 8968, 6288, 4240, 2584, 1200, 0]"

definition qm5 :: "int list" where
  "qm5 = [-280, -280, -23352, -17560, -14120, -11664, -9752, -8184,
          -6864, -5712, -4696, -3784, -2960, -2208, -1520, -880,
          23352, 17560, 14120, 11664, 9752, 8184, 6864, 5712,
          4696, 3784, 2960, 2208, 1520, 880, 280, -280]"

definition qm6 :: "int list" where
  "qm6 = [-136, -136, -136, -136, -24808, -21904, -19008, -16704,
          -14984, -13512, -12280, -11192, -10232, -9360, -8576, -7856,
          -7192, -6576, -6000, -5456, -4944, -4464, -4008, -3576,
          -3168, -2776, -2400, -2032, -1688, -1360, -1040, -728,
          24808, 21904, 19008, 16704, 14984, 13512, 12280, 11192,
          10232, 9360, 8576, 7856, 7192, 6576, 6000, 5456,
          4944, 4464, 4008, 3576, 3168, 2776, 2400, 2032,
          1688, 1360, 1040, 728, 432, 136, -432, -136]"

definition q6 :: "int list" where
  "q6 = [0, 35, 72, 110, 150, 190, 233, 276, 323, 370, 422, 473, 530, 587, 650, 714,
         786, 858, 940, 1023, 1121, 1219, 1339, 1458, 1612, 1765, 1980, 2195, 2557, 2919, 0, 0]"

definition ilb :: "int list" where
  "ilb = [2048, 2093, 2139, 2186, 2233, 2282, 2332, 2383, 2435, 2489, 2543, 2599,
          2656, 2714, 2774, 2834, 2896, 2960, 3025, 3091, 3158, 3228, 3298, 3371,
          3444, 3520, 3597, 3676, 3756, 3838, 3922, 4008]"

definition iln :: "int list" where
  "iln = [0, 63, 62, 31, 30, 29, 28, 27, 26, 25, 24, 23, 22, 21, 20, 19,
          18, 17, 16, 15, 14, 13, 12, 11, 10, 9, 8, 7, 6, 5, 4, 0]"

definition ilp :: "int list" where
  "ilp = [0, 61, 60, 59, 58, 57, 56, 55, 54, 53, 52, 51, 50, 49, 48, 47,
          46, 45, 44, 43, 42, 41, 40, 39, 38, 37, 36, 35, 34, 33, 32, 0]"

definition ihn :: "int list" where "ihn = [0, 1, 0]"
definition ihp :: "int list" where "ihp = [0, 3, 2]"
definition wl :: "int list" where "wl = [-60, -30, 58, 172, 334, 538, 1198, 3042]"

definition rl42 :: "int list" where
  "rl42 = [0, 7, 6, 5, 4, 3, 2, 1, 7, 6, 5, 4, 3, 2, 1, 0]"

definition wh :: "int list" where "wh = [0, -214, 798]"
definition rh2 :: "int list" where "rh2 = [2, 1, 2, 1]"

text \<open>Indexing with a C integer.\<close>

definition at :: "int list \<Rightarrow> int \<Rightarrow> int" where
  "at t i = t ! nat i"

subsection \<open>State\<close>

text \<open>\<open>p\<close> and \<open>a\<close> are the arrays of two, \<open>b\<close> and \<open>d\<close> those of six and seven.\<close>

record g722_band =
  g_nb :: int
  g_det :: int
  g_s :: int
  g_sz :: int
  g_r :: int
  g_p :: "int \<times> int"
  g_a :: "int \<times> int"
  g_b :: "int list"
  g_d :: "int list"

record g722_state =
  itu_test_mode :: bool
  packed :: bool
  eight_k :: bool
  bits_per_sample :: nat
  g_x :: "int list"
  g_y :: "int list"
  g_ptr :: nat
  band0 :: g722_band
  band1 :: g722_band
  in_buffer :: u32
  in_bits :: int
  out_buffer :: u32
  out_bits :: int

definition zero_band :: "int \<Rightarrow> g722_band" where
  "zero_band det =
     \<lparr>g_nb = 0, g_det = det, g_s = 0, g_sz = 0, g_r = 0, g_p = (0, 0), g_a = (0, 0),
      g_b = replicate 6 0, g_d = replicate 7 0\<rparr>"

text \<open>\<open>options\<close> are the flags \<open>G722_SAMPLE_RATE_8000\<close> and \<open>G722_PACKED\<close>.\<close>

definition g722_init :: "int \<Rightarrow> bool \<Rightarrow> bool \<Rightarrow> g722_state" where
  "g722_init rate opt_8000 opt_packed =
     (let bps = (if rate = 48000 then 6 else if rate = 56000 then 7 else 8) in
      \<lparr>itu_test_mode = False, packed = (opt_packed \<and> bps \<noteq> 8), eight_k = opt_8000,
       bits_per_sample = bps, g_x = replicate 12 0, g_y = replicate 12 0, g_ptr = 0,
       band0 = zero_band 32, band1 = zero_band 8,
       in_buffer = 0, in_bits = 0, out_buffer = 0, out_bits = 0\<rparr>)"

definition g722_decode_init :: "int \<Rightarrow> bool \<Rightarrow> bool \<Rightarrow> g722_state" where
  "g722_decode_init = g722_init"

definition g722_encode_init :: "int \<Rightarrow> bool \<Rightarrow> bool \<Rightarrow> g722_state" where
  "g722_encode_init = g722_init"

subsection \<open>The adaptive predictor of a band\<close>

text \<open>\<open>(p ^ q) & 0x8000\<close> is non-zero.\<close>

definition signs_differ :: "int \<Rightarrow> int \<Rightarrow> bool" where
  "signs_differ p q \<longleftrightarrow> (p XOR q) AND 32768 \<noteq> 0"

definition uppol2 :: "int \<Rightarrow> g722_band \<Rightarrow> int" where
  "uppol2 p s =
     (let wd1 = saturate (shl (fst (g_a s)) 2);
          wd32 = (if signs_differ p (fst (g_p s)) then wd1 else - wd1);
          wd32 = (if wd32 > 32767 then 32767 else wd32);
          wd3 = i16 ((if signs_differ p (snd (g_p s)) then -128 else 128) + asr wd32 7
                     + asr (snd (g_a s) * 32512) 15)
      in if \<bar>wd3\<bar> > 12288 then (if wd3 < 0 then -12288 else 12288) else wd3)"

definition uppol1 :: "int \<Rightarrow> g722_band \<Rightarrow> int \<Rightarrow> int" where
  "uppol1 p s ap1 =
     (let wd1 = (if signs_differ p (fst (g_p s)) then -192 else 192);
          wd2 = i16 (asr (fst (g_a s) * 32640) 15);
          ap0 = saturated_add16 wd1 wd2;
          wd3 = saturated_sub16 15360 ap1
      in if \<bar>ap0\<bar> > wd3 then (if ap0 < 0 then - wd3 else wd3) else ap0)"

text \<open>The loop over the zero predictor, from index 5 down: \<open>upzero_loop (Suc i)\<close> does index \<open>i\<close>.\<close>

fun upzero_loop ::
    "nat \<Rightarrow> int \<Rightarrow> int \<Rightarrow> int list \<times> int list \<times> int \<Rightarrow> int list \<times> int list \<times> int" where
  "upzero_loop 0 dx wd1 (b, d, sz) = (b, d, sz)"
| "upzero_loop (Suc i) dx wd1 (b, d, sz) =
     (let wd2 = (if signs_differ (d ! (i + 1)) dx then - wd1 else wd1);
          wd3 = i16 (asr (b ! i * 32640) 15);
          b' = b[i := saturated_add16 wd2 wd3];
          wd3 = saturated_add16 (d ! i) (d ! i)
      in upzero_loop i dx wd1 (b', d[i + 1 := d ! i], sz + asr (b' ! i * wd3) 15))"

definition block4 :: "g722_band \<Rightarrow> int \<Rightarrow> g722_band" where
  "block4 s dx =
     (let r = saturated_add16 (g_s s) dx;
          p = saturated_add16 (g_sz s) dx;
          ap1 = uppol2 p s;
          ap0 = uppol1 p s ap1;
          wd1 = i16 (asr (ap0 * saturated_add16 r r) 15);
          wd2 = i16 (asr (ap1 * saturated_add16 (g_r s) (g_r s)) 15);
          sp = saturated_add16 wd1 wd2;
          (b, d, sz) = upzero_loop 6 dx (if dx = 0 then 0 else 128) (g_b s, (g_d s)[0 := dx], 0)
      in s\<lparr>g_r := r, g_a := (ap0, ap1), g_p := (p, fst (g_p s)), g_b := b, g_d := d,
           g_sz := saturate sz, g_s := saturated_add16 sp (saturate sz)\<rparr>)"

subsection \<open>Scale factors\<close>

text \<open>
  The logarithmic scale factor: the decoder limits the sum, the encoder stores it first and
  limits what it stored. The linear scale factor is the same code in both.
\<close>

definition dec_logscl :: "int \<Rightarrow> int \<Rightarrow> int \<Rightarrow> int" where
  "dec_logscl limit nb w =
     (let wd1 = asr (nb * 127) 7 + w in
      i16 (if wd1 < 0 then 0 else if wd1 > limit then limit else wd1))"

definition enc_logscl :: "int \<Rightarrow> int \<Rightarrow> int \<Rightarrow> int" where
  "enc_logscl limit nb w =
     (let nb' = i16 (asr (nb * 127) 7 + w) in
      if nb' < 0 then 0 else if nb' > limit then limit else nb')"

definition scale_factor :: "int \<Rightarrow> int \<Rightarrow> int" where
  "scale_factor k nb =
     (let wd1 = asr nb 6 AND 31;
          wd2 = k - asr nb 11;
          wd3 = (if wd2 < 0 then shl (at ilb wd1) (nat (- wd2)) else asr (at ilb wd1) (nat wd2))
      in i16 (shl wd3 2))"

definition inv_quant :: "g722_band \<Rightarrow> int \<Rightarrow> int" where
  "inv_quant s q = i16 (asr (g_det s * q) 15)"

text \<open>A band after the inverse quantizer: new scale factors, then the predictor.\<close>

definition dec_update :: "int \<Rightarrow> int \<Rightarrow> g722_band \<Rightarrow> int \<Rightarrow> int \<Rightarrow> g722_band" where
  "dec_update limit k s w dx =
     (let nb = dec_logscl limit (g_nb s) w in
      block4 (s\<lparr>g_nb := nb, g_det := scale_factor k nb\<rparr>) dx)"

definition enc_update :: "int \<Rightarrow> int \<Rightarrow> g722_band \<Rightarrow> int \<Rightarrow> int \<Rightarrow> g722_band" where
  "enc_update limit k s w dx =
     (let nb = enc_logscl limit (g_nb s) w in
      block4 (s\<lparr>g_nb := nb, g_det := scale_factor k nb\<rparr>) dx)"

subsection \<open>The decoder\<close>

text \<open>The fields of a code: low index, table value of the full index, high index.\<close>

definition split_code :: "nat \<Rightarrow> int \<Rightarrow> int \<times> int \<times> int" where
  "split_code bps code =
     (if bps = 7 then (asr (code AND 31) 1, at qm5 (code AND 31), asr code 5 AND 3)
      else if bps = 6 then (code AND 15, at qm4 (code AND 15), asr code 4 AND 3)
      else (asr (code AND 63) 2, at qm6 (code AND 63), asr code 6 AND 3))"

definition dec_low :: "g722_band \<Rightarrow> int \<Rightarrow> int \<Rightarrow> int \<times> g722_band" where
  "dec_low s ril q =
     (let rlow = saturate15 (g_s s + asr (g_det s * q) 15);
          dlow = inv_quant s (at qm4 ril)
      in (rlow, dec_update 18432 8 s (at wl (at rl42 ril)) dlow))"

definition dec_high :: "g722_band \<Rightarrow> int \<Rightarrow> int \<times> g722_band" where
  "dec_high s ihigh =
     (let dhigh = inv_quant s (at qm2 ihigh);
          rhigh = saturate15 (dhigh + g_s s)
      in (rhigh, dec_update 22528 10 s (at wh (at rh2 ihigh)) dhigh))"

definition next_ptr :: "nat \<Rightarrow> nat" where
  "next_ptr ptr = (if ptr + 1 \<ge> 12 then 0 else ptr + 1)"

definition dec_output :: "g722_state \<Rightarrow> int \<Rightarrow> int \<Rightarrow> (int list \<times> g722_state) option" where
  "dec_output s rlow rhigh =
     (if itu_test_mode s then Some ([i16 (shl rlow 1), i16 (shl rhigh 1)], s)
      else if eight_k s then Some ([i16 (shl rlow 1)], s)
      else do { x \<leftarrow> mem_put (g_x s) (g_ptr s) (i16 (rlow + rhigh));
                y \<leftarrow> mem_put (g_y s) (g_ptr s) (i16 (rlow - rhigh));
                let ptr = next_ptr (g_ptr s);
                u \<leftarrow> vec_circular_dot_prodi16 y qmf_coeffs_rev 12 ptr;
                v \<leftarrow> vec_circular_dot_prodi16 x qmf_coeffs_fwd 12 ptr;
                Some ([saturate (asr u 11), saturate (asr v 11)],
                      s\<lparr>g_x := x, g_y := y, g_ptr := ptr\<rparr>) })"

definition dec_code :: "g722_state \<Rightarrow> int \<Rightarrow> (int list \<times> g722_state) option" where
  "dec_code s code =
     (let (ril, q, ihigh) = split_code (bits_per_sample s) code;
          (rlow, b0) = dec_low (band0 s) ril q;
          (rhigh, b1) = (if eight_k s then (0, band1 s) else dec_high (band1 s) ihigh)
      in dec_output (s\<lparr>band0 := b0, band1 := b1\<rparr>) rlow rhigh)"

text \<open>
  The code bits of the next sample: a byte is taken only when fewer bits than a code are left.
\<close>

definition take_code :: "g722_state \<Rightarrow> u8 list \<Rightarrow> int \<times> g722_state \<times> u8 list" where
  "take_code s data =
     (if packed s then
        (let bps = bits_per_sample s;
             (buf, bits, rest) =
               (if in_bits s < int bps
                then (in_buffer s OR push_bit (nat (in_bits s)) (ucast (hd data)), in_bits s + 8, tl data)
                else (in_buffer s, in_bits s, data))
         in (uint (buf AND (push_bit bps 1 - 1)),
             s\<lparr>in_buffer := drop_bit bps buf, in_bits := bits - int bps\<rparr>, rest))
      else (uint (hd data), s, tl data))"

lemma dec_code_keeps:
  "dec_code s code = Some (out, s') \<Longrightarrow>
     in_bits s' = in_bits s \<and> packed s' = packed s \<and> bits_per_sample s' = bits_per_sample s \<and>
     eight_k s' = eight_k s \<and> itu_test_mode s' = itu_test_mode s"
  by (auto simp: dec_code_def dec_output_def Let_def split: prod.splits if_splits Option.bind_splits)

lemma take_code_shrinks:
  assumes "data \<noteq> []" and "packed s \<Longrightarrow> bits_per_sample s \<noteq> 0" and "take_code s data = (code, s1, rest)"
  shows "length rest < length data \<or> (rest = data \<and> nat (in_bits s1) < nat (in_bits s))"
  using assms by (cases data) (auto simp: take_code_def Let_def split: if_splits)

function g722_decode :: "g722_state \<Rightarrow> u8 list \<Rightarrow> (int list \<times> g722_state) option" where
  "g722_decode s data =
     (if data = [] then Some ([], s)
      else if packed s \<and> bits_per_sample s = 0 then None
      else (case take_code s data of (code, s1, rest) \<Rightarrow>
        do { (o1, s2) \<leftarrow> dec_code s1 code;
             (o2, s3) \<leftarrow> g722_decode s2 rest;
             Some (o1 @ o2, s3) }))"
  by pat_completeness auto
termination
proof (relation "measures [\<lambda>(s, data). length data, \<lambda>(s, data). nat (in_bits s)]", goal_cases)
  case 1
  show ?case by simp
next
  case (2 s data code y s1 rest r o1 s2)
  then have "length rest < length data \<or> (rest = data \<and> nat (in_bits s1) < nat (in_bits s))"
    using take_code_shrinks [of data s code s1 rest] by auto
  moreover have "in_bits s2 = in_bits s1" using 2 dec_code_keeps [of s1 code o1 s2] by auto
  ultimately show ?case by auto
qed

declare g722_decode.simps [simp del]

subsection \<open>The encoder\<close>

definition clip_qmf :: "int \<Rightarrow> int" where
  "clip_qmf x = (if x > 16350 then 16350 else if x < -16350 then -16350 else x)"

text \<open>The transmit filter bank: one low and one high sample from two input samples.\<close>

definition enc_qmf :: "g722_state \<Rightarrow> int \<Rightarrow> int \<Rightarrow> (int \<times> int \<times> g722_state) option" where
  "enc_qmf s a0 a1 =
     do { x \<leftarrow> mem_put (g_x s) (g_ptr s) (clip_qmf a0);
          y \<leftarrow> mem_put (g_y s) (g_ptr s) (clip_qmf a1);
          let ptr = next_ptr (g_ptr s);
          sumodd \<leftarrow> vec_circular_dot_prodi16 x qmf_coeffs_fwd 12 ptr;
          sumeven \<leftarrow> vec_circular_dot_prodi16 y qmf_coeffs_rev 12 ptr;
          Some (i16 (asr (sumeven + sumodd) 14), i16 (asr (sumeven - sumodd) 14),
                s\<lparr>g_x := x, g_y := y, g_ptr := ptr\<rparr>) }"

text \<open>The search of QUANTL; \<open>wd\<close> is the magnitude of the difference signal.\<close>

definition magnitude :: "int \<Rightarrow> int" where
  "magnitude el = (if el \<ge> 0 then el else - el - 1)"

definition quantl_index :: "int \<Rightarrow> int \<Rightarrow> int" where
  "quantl_index det wd =
     (case find (\<lambda>i. wd < asr (at q6 i * det) 12) [1..29] of Some i \<Rightarrow> i | None \<Rightarrow> 30)"

definition enc_low :: "g722_band \<Rightarrow> int \<Rightarrow> int \<times> g722_band" where
  "enc_low s xlow =
     (let el = saturated_sub16 xlow (g_s s);
          i = quantl_index (g_det s) (magnitude el);
          ilow = (if el < 0 then at iln i else at ilp i);
          ril = asr ilow 2;
          dlow = inv_quant s (at qm4 ril)
      in (ilow, enc_update 18432 8 s (at wl (at rl42 ril)) dlow))"

definition enc_high :: "g722_band \<Rightarrow> int \<Rightarrow> int \<times> g722_band" where
  "enc_high s xhigh =
     (let eh = saturated_sub16 xhigh (g_s s);
          mih = (if magnitude eh \<ge> asr (564 * g_det s) 12 then 2 else 1);
          ihigh = (if eh < 0 then at ihn mih else at ihp mih);
          dhigh = inv_quant s (at qm2 ihigh)
      in (ihigh, enc_update 22528 10 s (at wh (at rh2 ihigh)) dhigh))"

definition enc_code :: "g722_state \<Rightarrow> int \<Rightarrow> int \<Rightarrow> int \<times> g722_state" where
  "enc_code s xlow xhigh =
     (let (ilow, b0) = enc_low (band0 s) xlow in
      if eight_k s then (asr (192 OR ilow) (8 - bits_per_sample s), s\<lparr>band0 := b0\<rparr>)
      else (let (ihigh, b1) = enc_high (band1 s) xhigh in
            (asr (shl ihigh 6 OR ilow) (8 - bits_per_sample s), s\<lparr>band0 := b0, band1 := b1\<rparr>)))"

definition put_code :: "g722_state \<Rightarrow> int \<Rightarrow> u8 list \<times> g722_state" where
  "put_code s code =
     (if packed s then
        (let buf = out_buffer s OR push_bit (nat (out_bits s)) (word_of_int code);
             bits = out_bits s + int (bits_per_sample s)
         in if bits \<ge> 8
            then ([ucast (buf AND 255)], s\<lparr>out_bits := bits - 8, out_buffer := drop_bit 8 buf\<rparr>)
            else ([], s\<lparr>out_bits := bits, out_buffer := buf\<rparr>))
      else ([word_of_int code], s))"

fun g722_encode :: "g722_state \<Rightarrow> int list \<Rightarrow> (u8 list \<times> g722_state) option" where
  "g722_encode s [] = Some ([], s)"
| "g722_encode s (a # amp) =
     (if itu_test_mode s then
        (let (code, s1) = enc_code s (asr a 1) (asr a 1);
             (bs, s2) = put_code s1 code
         in do { (bs', s3) \<leftarrow> g722_encode s2 amp; Some (bs @ bs', s3) })
      else if eight_k s then
        (let (code, s1) = enc_code s (asr a 1) 0;
             (bs, s2) = put_code s1 code
         in do { (bs', s3) \<leftarrow> g722_encode s2 amp; Some (bs @ bs', s3) })
      else (case amp of [] \<Rightarrow> None
        | a' # amp' \<Rightarrow>
            do { (xlow, xhigh, s0) \<leftarrow> enc_qmf s a a';
                 let (code, s1) = enc_code s0 xlow xhigh;
                 let (bs, s2) = put_code s1 code;
                 (bs', s3) \<leftarrow> g722_encode s2 amp';
                 Some (bs @ bs', s3) }))"

subsection \<open>The adaptive scale of a band\<close>

text \<open>The stability region of the pole section: \<open>a[1]\<close> and \<open>a[0]\<close> after UPPOL2 and UPPOL1.\<close>

definition poles_stable :: "g722_band \<Rightarrow> bool" where
  "poles_stable s \<longleftrightarrow> \<bar>snd (g_a s)\<bar> \<le> 12288 \<and> \<bar>fst (g_a s)\<bar> \<le> 15360 - snd (g_a s)"

text \<open>
  A band is within its bounds: every 16 bit field is one, the arrays have their lengths, the poles are
  stable, the logarithmic scale factor is inside its limit and the linear one inside \<open>lo..16384\<close>.
\<close>

definition band_ok :: "int \<Rightarrow> int \<Rightarrow> g722_band \<Rightarrow> bool" where
  "band_ok limit lo s \<longleftrightarrow>
     0 \<le> g_nb s \<and> g_nb s \<le> limit \<and> lo \<le> g_det s \<and> g_det s \<le> 16384 \<and>
     is_i16 (g_s s) \<and> is_i16 (g_sz s) \<and> is_i16 (g_r s) \<and>
     is_i16 (fst (g_p s)) \<and> is_i16 (snd (g_p s)) \<and> poles_stable s \<and>
     length (g_b s) = 6 \<and> length (g_d s) = 7 \<and>
     (\<forall>v \<in> set (g_b s). is_i16 v) \<and> (\<forall>v \<in> set (g_d s). is_i16 v)"

lemma uppol2_range: "\<bar>uppol2 p s\<bar> \<le> 12288"
  by (simp add: uppol2_def Let_def)

lemma uppol1_range:
  assumes "\<bar>ap1\<bar> \<le> 12288"
  shows "\<bar>uppol1 p s ap1\<bar> \<le> 15360 - ap1"
proof -
  have "saturated_sub16 15360 ap1 = 15360 - ap1"
    using assms by (simp add: saturated_sub16_def is_i16_def abs_le_iff)
  then show ?thesis using assms by (simp add: uppol1_def Let_def abs_le_iff)
qed

lemma upzero_loop_ok:
  assumes "upzero_loop n dx wd1 (b, d, sz) = (b', d', sz')" and "n \<le> length b" and "n < length d"
    and "\<forall>v \<in> set b. is_i16 v" and "\<forall>v \<in> set d. is_i16 v"
  shows "length b' = length b \<and> length d' = length d \<and>
         (\<forall>v \<in> set b'. is_i16 v) \<and> (\<forall>v \<in> set d'. is_i16 v)"
  using assms
proof (induction n arbitrary: b d sz)
  case (Suc n)
  let ?b = "b[n := saturated_add16 (if signs_differ (d ! (n + 1)) dx then - wd1 else wd1)
                                    (i16 (asr (b ! n * 32640) 15))]"
  let ?d = "d[n + 1 := d ! n]"
  obtain z where step: "upzero_loop n dx wd1 (?b, ?d, z) = (b', d', sz')"
    using Suc.prems(1) by (simp add: Let_def)
  have "\<forall>v \<in> set ?b. is_i16 v"
    using Suc.prems(4) by (intro ball_list_update) auto
  moreover have "\<forall>v \<in> set ?d. is_i16 v"
    using Suc.prems(3,5) by (intro ball_list_update) auto
  ultimately show ?case
    using Suc.IH [OF step] Suc.prems(2,3) unfolding length_list_update by linarith
qed simp

lemma block4_keeps:
  "g_nb (block4 s dx) = g_nb s" "g_det (block4 s dx) = g_det s"
  by (simp_all add: block4_def Let_def split: prod.split)

lemma block4_poles:
  "\<exists>p ap1. \<bar>ap1\<bar> \<le> 12288 \<and> g_a (block4 s dx) = (uppol1 p s ap1, ap1)"
proof -
  have "g_a (block4 s dx) = (uppol1 (saturated_add16 (g_sz s) dx) s
          (uppol2 (saturated_add16 (g_sz s) dx) s), uppol2 (saturated_add16 (g_sz s) dx) s)"
    by (simp add: block4_def Let_def split: prod.split)
  then show ?thesis using uppol2_range by blast
qed

lemma block4_stable: "poles_stable (block4 s dx)"
  using block4_poles [of s dx] uppol1_range by (auto simp: poles_stable_def)

lemma block4_ok:
  assumes ok: "band_ok limit lo s" and dx: "is_i16 dx"
  shows "band_ok limit lo (block4 s dx)"
proof -
  obtain b d z where loop:
    "upzero_loop 6 dx (if dx = 0 then 0 else 128) (g_b s, (g_d s)[0 := dx], 0) = (b, d, z)"
    by (metis prod_cases3)
  have "\<forall>v \<in> set ((g_d s)[0 := dx]). is_i16 v"
    using ok dx by (intro ball_list_update) (auto simp: band_ok_def)
  with upzero_loop_ok [OF loop] ok
  have "length b = 6 \<and> length d = 7 \<and> (\<forall>v \<in> set b. is_i16 v) \<and> (\<forall>v \<in> set d. is_i16 v)"
    by (simp add: band_ok_def)
  then show ?thesis
    using ok block4_stable [of s dx] by (simp add: band_ok_def block4_def loop Let_def)
qed

text \<open>
  The contract of an adaptive scale: with these constants the encoder's and the decoder's way
  of limiting the logarithmic scale agree, and the band stays within its bounds.
\<close>

lemma leak_range:
  fixes nb :: int
  assumes "0 \<le> nb"
  shows "0 \<le> asr (nb * 127) 7 \<and> asr (nb * 127) 7 \<le> nb"
proof -
  have "asr (nb * 127) 7 \<le> asr (shl nb 7) 7"
    using assms by (intro asr_mono) (simp add: shl_def)
  then show ?thesis using assms by simp
qed

locale adaptive_scale =
  fixes limit k lo :: int and weights :: "int list"
  assumes limit_fits: "0 \<le> limit" "limit \<le> 28672"
    and weights_small: "\<And>w. w \<in> set weights \<Longrightarrow> \<bar>w\<bar> \<le> 4095"
    and scale_range: "\<And>nb. 0 \<le> nb \<Longrightarrow> nb \<le> limit \<Longrightarrow> lo \<le> scale_factor k nb \<and> scale_factor k nb \<le> 16384"
begin

lemma sum_fits:
  assumes "0 \<le> nb" and "nb \<le> limit" and "w \<in> set weights"
  shows "is_i16 (asr (nb * 127) 7 + w)"
proof -
  show ?thesis
    using leak_range [OF assms(1)] weights_small [OF assms(3)] limit_fits assms(2)
    unfolding is_i16_def by linarith
qed

lemma limiting_agrees:
  "0 \<le> nb \<Longrightarrow> nb \<le> limit \<Longrightarrow> w \<in> set weights \<Longrightarrow> enc_logscl limit nb w = dec_logscl limit nb w"
  using sum_fits [of nb w] limit_fits
  by (auto simp: enc_logscl_def dec_logscl_def Let_def is_i16_def)

lemma limited: "0 \<le> dec_logscl limit nb w \<and> dec_logscl limit nb w \<le> limit"
proof -
  let ?x = "if asr (nb * 127) 7 + w < 0 then 0
            else if asr (nb * 127) 7 + w > limit then limit else asr (nb * 127) 7 + w"
  have "0 \<le> ?x \<and> ?x \<le> limit" using limit_fits by auto
  moreover from this have "i16 ?x = ?x" using limit_fits by (intro i16_id) (auto simp: is_i16_def)
  ultimately show ?thesis by (simp add: dec_logscl_def Let_def)
qed

lemma updates_agree:
  "band_ok limit lo s \<Longrightarrow> w \<in> set weights \<Longrightarrow> enc_update limit k s w dx = dec_update limit k s w dx"
  by (simp add: enc_update_def dec_update_def limiting_agrees band_ok_def Let_def)

lemma update_ok:
  assumes "band_ok limit lo s" and "is_i16 dx"
  shows "band_ok limit lo (dec_update limit k s w dx)"
proof -
  have "band_ok limit lo (s\<lparr>g_nb := dec_logscl limit (g_nb s) w,
                            g_det := scale_factor k (dec_logscl limit (g_nb s) w)\<rparr>)"
    using assms(1) limited [of "g_nb s" w] scale_range by (simp add: band_ok_def poles_stable_def)
  then show ?thesis using assms(2) by (simp add: dec_update_def block4_ok Let_def)
qed

end

text \<open>The linear scale depends on \<open>nb div 64\<close> only, so all of its values can be computed.\<close>

definition coarse_scale :: "int \<Rightarrow> int \<Rightarrow> int" where
  "coarse_scale k q =
     (let wd1 = q mod 32; wd2 = k - q div 32;
          wd3 = (if wd2 < 0 then shl (at ilb wd1) (nat (- wd2)) else asr (at ilb wd1) (nat wd2))
      in i16 (shl wd3 2))"

lemma scale_factor_coarse: "scale_factor k nb = coarse_scale k (nb div 64)"
proof -
  have "asr nb 6 AND 31 = nb div 64 mod 32"
    using take_bit_eq_mask [of 5 "nb div 64"] take_bit_eq_mod [of 5 "nb div 64"]
    by (simp add: asr_def mask_eq_exp_minus_1)
  moreover have "asr nb 11 = nb div 64 div 32"
    by (simp add: asr_def div_mult2_eq' zdiv_zmult2_eq [symmetric])
  ultimately show ?thesis by (simp add: scale_factor_def coarse_scale_def)
qed

lemma coarse_low: "list_all (\<lambda>q. 32 \<le> coarse_scale 8 q \<and> coarse_scale 8 q \<le> 16384) [0..288]"
  by code_simp

lemma coarse_high: "list_all (\<lambda>q. 8 \<le> coarse_scale 10 q \<and> coarse_scale 10 q \<le> 16384) [0..352]"
  by code_simp

lemma scale_low: "0 \<le> nb \<Longrightarrow> nb \<le> 18432 \<Longrightarrow> 32 \<le> scale_factor 8 nb \<and> scale_factor 8 nb \<le> 16384"
proof -
  assume "0 \<le> nb" "nb \<le> 18432"
  then have "0 \<le> nb div 64 \<and> nb div 64 \<le> 288" by presburger
  then have "nb div 64 \<in> set [0..288]" by simp
  then show ?thesis using coarse_low unfolding list_all_iff scale_factor_coarse by blast
qed

lemma scale_high: "0 \<le> nb \<Longrightarrow> nb \<le> 22528 \<Longrightarrow> 8 \<le> scale_factor 10 nb \<and> scale_factor 10 nb \<le> 16384"
proof -
  assume "0 \<le> nb" "nb \<le> 22528"
  then have "0 \<le> nb div 64 \<and> nb div 64 \<le> 352" by presburger
  then have "nb div 64 \<in> set [0..352]" by simp
  then show ?thesis using coarse_high unfolding list_all_iff scale_factor_coarse by blast
qed

interpretation low_band: adaptive_scale 18432 8 32 wl
  by unfold_locales (use scale_low in \<open>auto simp: wl_def\<close>)

interpretation high_band: adaptive_scale 22528 10 8 wh
  by unfold_locales (use scale_high in \<open>auto simp: wh_def\<close>)

subsection \<open>The state of the codec\<close>

definition filters_ok :: "g722_state \<Rightarrow> bool" where
  "filters_ok s \<longleftrightarrow> length (g_x s) = 12 \<and> length (g_y s) = 12 \<and> g_ptr s < 12"

definition state_ok :: "g722_state \<Rightarrow> bool" where
  "state_ok s \<longleftrightarrow>
     bits_per_sample s \<in> {6, 7, 8} \<and> filters_ok s \<and>
     band_ok 18432 32 (band0 s) \<and> band_ok 22528 8 (band1 s)"

definition samples_per_code :: "g722_state \<Rightarrow> nat" where
  "samples_per_code s = (if eight_k s \<and> \<not> itu_test_mode s then 1 else 2)"

lemma g722_init_ok: "state_ok (g722_init rate o8 op)"
  by (simp add: g722_init_def state_ok_def filters_ok_def zero_band_def band_ok_def poles_stable_def
      is_i16_def Let_def)

lemma vec_circular_total:
  "n \<le> length x \<Longrightarrow> n \<le> length y \<Longrightarrow> pos \<le> n \<Longrightarrow> \<exists>z. vec_circular_dot_prodi16 x y n pos = Some z"
  by (simp add: vec_circular_dot_prodi16_def vec_dot_prodi16_def mem_read_Some)

lemma next_ptr_less: "next_ptr p < 12"
  by (simp add: next_ptr_def)

lemma coeffs_length [simp]: "length qmf_coeffs_fwd = 12" "length qmf_coeffs_rev = 12"
  by (simp_all add: qmf_coeffs_fwd_def qmf_coeffs_rev_def)

lemma dec_output_ok:
  assumes "filters_ok s"
  obtains out s' where "dec_output s rl rh = Some (out, s')" and "filters_ok s'"
    and "band0 s' = band0 s" and "band1 s' = band1 s"
    and "\<forall>v \<in> set out. is_i16 v" and "length out = samples_per_code s"
proof (cases "itu_test_mode s \<or> eight_k s")
  case True
  then show ?thesis
    using assms that by (cases "itu_test_mode s") (simp_all add: dec_output_def samples_per_code_def)
next
  case False
  let ?x = "(g_x s)[g_ptr s := i16 (rl + rh)]" and ?y = "(g_y s)[g_ptr s := i16 (rl - rh)]"
  let ?p = "next_ptr (g_ptr s)"
  have p: "?p \<le> 12" using next_ptr_less [of "g_ptr s"] by simp
  obtain u where u: "vec_circular_dot_prodi16 ?y qmf_coeffs_rev 12 ?p = Some u"
    using vec_circular_total [OF _ _ p, of ?y qmf_coeffs_rev] assms by (auto simp: filters_ok_def)
  obtain v where v: "vec_circular_dot_prodi16 ?x qmf_coeffs_fwd 12 ?p = Some v"
    using vec_circular_total [OF _ _ p, of ?x qmf_coeffs_fwd] assms by (auto simp: filters_ok_def)
  have "dec_output s rl rh =
      Some ([saturate (asr u 11), saturate (asr v 11)], s\<lparr>g_x := ?x, g_y := ?y, g_ptr := ?p\<rparr>)"
    using False assms u v by (simp add: dec_output_def filters_ok_def mem_simps)
  then show ?thesis
    using that False assms by (simp add: filters_ok_def next_ptr_less samples_per_code_def)
qed

lemma enc_qmf_ok:
  assumes "filters_ok s"
  obtains xl xh s' where "enc_qmf s a b = Some (xl, xh, s')" and "filters_ok s'"
    and "is_i16 xl" and "is_i16 xh" and "\<exists>x y p. s' = s\<lparr>g_x := x, g_y := y, g_ptr := p\<rparr>"
proof -
  let ?x = "(g_x s)[g_ptr s := clip_qmf a]" and ?y = "(g_y s)[g_ptr s := clip_qmf b]"
  let ?p = "next_ptr (g_ptr s)"
  have p: "?p \<le> 12" using next_ptr_less [of "g_ptr s"] by simp
  obtain u where u: "vec_circular_dot_prodi16 ?y qmf_coeffs_rev 12 ?p = Some u"
    using vec_circular_total [OF _ _ p, of ?y qmf_coeffs_rev] assms by (auto simp: filters_ok_def)
  obtain v where v: "vec_circular_dot_prodi16 ?x qmf_coeffs_fwd 12 ?p = Some v"
    using vec_circular_total [OF _ _ p, of ?x qmf_coeffs_fwd] assms by (auto simp: filters_ok_def)
  have "enc_qmf s a b = Some (i16 (asr (u + v) 14), i16 (asr (u - v) 14),
                              s\<lparr>g_x := ?x, g_y := ?y, g_ptr := ?p\<rparr>)"
    using assms u v by (simp add: enc_qmf_def filters_ok_def mem_simps)
  then show ?thesis
    using that assms by (fastforce simp: filters_ok_def next_ptr_less)
qed

subsection \<open>Codes\<close>

lemma table_lookups:
  "list_all (\<lambda>i. at iln i \<in> {0..63} \<and> at ilp i \<in> {0..63}) [1..30]"
  "list_all (\<lambda>i. at wl (at rl42 i) \<in> set wl) [0..15]"
  "list_all (\<lambda>i. at wh (at rh2 i) \<in> set wh) [0..3]"
  by code_simp+

lemma quantl_index_range: "quantl_index det wd \<in> set [1..30]"
proof (cases "find (\<lambda>i. wd < asr (at q6 i * det) 12) [1..29]")
  case (Some i)
  then have "i \<in> set [1..29]" by (metis find_Some_iff nth_mem)
  then show ?thesis using Some by (simp add: quantl_index_def)
qed (simp add: quantl_index_def)

lemma whole_code_eq: "0 \<le> ilow \<Longrightarrow> ilow < 64 \<Longrightarrow> shl ihigh 6 OR ilow = ihigh * 64 + ilow"
  using shl_or [of ilow 6 ihigh] by (simp add: shl_def)

lemma split_whole_code:
  "list_all (\<lambda>bps. list_all (\<lambda>ih. list_all (\<lambda>il.
     (let c = asr (ih * 64 + il) (8 - bps); (ril, q, ihigh) = split_code bps c in
      ril = il div 4 \<and> ihigh = ih \<and> 0 \<le> c \<and> c < 256)) [0..63]) [0..3]) [6, 7, 8]"
  by code_simp

lemma enc_code_parts:
  assumes "bps \<in> {6, 7, 8}" and "0 \<le> ih" "ih \<le> 3" and "0 \<le> il" "il < 64"
  shows "\<exists>q. split_code bps (asr (shl ih 6 OR il) (8 - bps)) = (asr il 2, q, ih)"
    and "0 \<le> asr (shl ih 6 OR il) (8 - bps) \<and> asr (shl ih 6 OR il) (8 - bps) < 256"
proof -
  have il: "il \<in> set [0..63]" and ih: "ih \<in> set [0..3]" and b: "bps \<in> set [6, 7, 8]"
    using assms by auto
  have "let c = asr (ih * 64 + il) (8 - bps); (ril, q, ihigh) = split_code bps c in
      ril = il div 4 \<and> ihigh = ih \<and> 0 \<le> c \<and> c < 256"
    using split_whole_code il ih b unfolding list_all_iff by blast
  then show "\<exists>q. split_code bps (asr (shl ih 6 OR il) (8 - bps)) = (asr il 2, q, ih)"
    and "0 \<le> asr (shl ih 6 OR il) (8 - bps) \<and> asr (shl ih 6 OR il) (8 - bps) < 256"
    by (simp_all add: whole_code_eq assms Let_def asr_def split: prod.splits)
qed

subsection \<open>One code, encoder and decoder\<close>

definition agree :: "g722_state \<Rightarrow> g722_state \<Rightarrow> bool" where
  "agree e d \<longleftrightarrow> band0 d = band0 e \<and> band1 d = band1 e \<and>
     bits_per_sample d = bits_per_sample e \<and> eight_k d = eight_k e"

lemma is_i16_inv_quant [simp, int_ranges]: "is_i16 (inv_quant s q)"
  by (simp add: inv_quant_def)

lemma dec_low_ok: "band_ok 18432 32 s \<Longrightarrow> band_ok 18432 32 (snd (dec_low s ril q))"
  by (simp add: dec_low_def low_band.update_ok)

lemma dec_high_ok: "band_ok 22528 8 s \<Longrightarrow> band_ok 22528 8 (snd (dec_high s ih))"
  by (simp add: dec_high_def high_band.update_ok Let_def)

lemma enc_low_ok:
  assumes ok: "band_ok 18432 32 s" and run: "enc_low s x = (il, s')"
  shows "0 \<le> il \<and> il < 64 \<and> s' = snd (dec_low s (asr il 2) q)"
proof -
  let ?i = "quantl_index (g_det s) (magnitude (saturated_sub16 x (g_s s)))"
  have "at iln ?i \<in> {0..63} \<and> at ilp ?i \<in> {0..63}"
    using table_lookups(1) quantl_index_range unfolding list_all_iff by blast
  moreover have il: "il = (if saturated_sub16 x (g_s s) < 0 then at iln ?i else at ilp ?i)"
    and s': "s' = enc_update 18432 8 s (at wl (at rl42 (asr il 2))) (inv_quant s (at qm4 (asr il 2)))"
    using run by (auto simp: enc_low_def Let_def)
  ultimately have range: "0 \<le> il \<and> il < 64" by auto
  then have "asr il 2 \<in> set [0..15]" by (auto simp: asr_def)
  then have "at wl (at rl42 (asr il 2)) \<in> set wl"
    using table_lookups(2) unfolding list_all_iff by blast
  then show ?thesis
    using range s' low_band.updates_agree [OF ok] by (simp add: dec_low_def)
qed

lemma enc_high_ok:
  assumes ok: "band_ok 22528 8 s" and run: "enc_high s x = (ih, s')"
  shows "0 \<le> ih \<and> ih \<le> 3 \<and> s' = snd (dec_high s ih)"
proof -
  have range: "0 \<le> ih \<and> ih \<le> 3"
    and s': "s' = enc_update 22528 10 s (at wh (at rh2 ih)) (inv_quant s (at qm2 ih))"
    using run by (auto simp: enc_high_def Let_def at_def ihn_def ihp_def split: if_splits)
  then have "ih \<in> set [0..3]" by auto
  then have "at wh (at rh2 ih) \<in> set wh"
    using table_lookups(3) unfolding list_all_iff by blast
  then show ?thesis
    using range s' high_band.updates_agree [OF ok] by (simp add: dec_high_def Let_def)
qed

lemma enc_code_ok:
  assumes ok: "state_ok s" and run: "enc_code s xl xh = (c, s1)"
  obtains ril q ih where "0 \<le> c" and "c < 256" and "split_code (bits_per_sample s) c = (ril, q, ih)"
    and "s1 = s\<lparr>band0 := snd (dec_low (band0 s) ril q),
                  band1 := if eight_k s then band1 s else snd (dec_high (band1 s) ih)\<rparr>"
proof -
  obtain il b0 where low: "enc_low (band0 s) xl = (il, b0)" by fastforce
  obtain ih b1 where high: "enc_high (band1 s) xh = (ih, b1)" by fastforce
  define h where "h = (if eight_k s then 3 else ih)"
  have l: "0 \<le> il" "il < 64" "b0 = snd (dec_low (band0 s) (asr il 2) q)" for q
    using enc_low_ok [OF _ low] ok by (auto simp: state_ok_def)
  have h: "0 \<le> h" "h \<le> 3" and b1: "b1 = snd (dec_high (band1 s) ih)"
    using enc_high_ok [OF _ high] ok by (auto simp: state_ok_def h_def)
  have c: "c = asr (shl h 6 OR il) (8 - bits_per_sample s)"
    and s1: "s1 = s\<lparr>band0 := b0, band1 := if eight_k s then band1 s else b1\<rparr>"
    using run low high by (auto simp: enc_code_def h_def shl_def)
  have bps: "bits_per_sample s \<in> {6, 7, 8}" using ok by (simp add: state_ok_def)
  obtain q where "split_code (bits_per_sample s) c = (asr il 2, q, h)"
    using enc_code_parts(1) [OF bps h l(1,2)] c by auto
  moreover have "s1 = s\<lparr>band0 := snd (dec_low (band0 s) (asr il 2) q),
                  band1 := if eight_k s then band1 s else snd (dec_high (band1 s) h)\<rparr>"
    using s1 l(3) b1 by (simp add: h_def)
  ultimately show ?thesis using that enc_code_parts(2) [OF bps h l(1,2)] c by blast
qed

lemma enc_code_state_ok:
  assumes "state_ok s" and "enc_code s xl xh = (c, s1)"
  shows "state_ok s1"
  by (rule enc_code_ok [OF assms])
    (use assms(1) in \<open>simp add: state_ok_def filters_ok_def dec_low_ok dec_high_ok\<close>)

lemma dec_code_ok:
  assumes ok: "state_ok s" and parts: "split_code (bits_per_sample s) c = (ril, q, ih)"
  obtains out s1 where "dec_code s c = Some (out, s1)" and "state_ok s1"
    and "band0 s1 = snd (dec_low (band0 s) ril q)"
    and "band1 s1 = (if eight_k s then band1 s else snd (dec_high (band1 s) ih))"
    and "\<forall>v \<in> set out. is_i16 v" and "length out = samples_per_code s"
proof -
  let ?b0 = "snd (dec_low (band0 s) ril q)"
  let ?b1 = "if eight_k s then band1 s else snd (dec_high (band1 s) ih)"
  let ?s = "s\<lparr>band0 := ?b0, band1 := ?b1\<rparr>"
  let ?rl = "fst (dec_low (band0 s) ril q)"
  let ?rh = "if eight_k s then 0 else fst (dec_high (band1 s) ih)"
  have eq: "dec_code s c = dec_output ?s ?rl ?rh"
    by (simp add: dec_code_def parts split: prod.split)
  have "filters_ok ?s" using ok by (simp add: state_ok_def filters_ok_def)
  then obtain out s1 where out: "dec_output ?s ?rl ?rh = Some (out, s1)" and "filters_ok s1"
    and bands: "band0 s1 = ?b0" "band1 s1 = ?b1"
    and i16: "\<forall>v \<in> set out. is_i16 v" and len: "length out = samples_per_code ?s"
    by (rule dec_output_ok) auto
  moreover have "dec_code s c = Some (out, s1)" using eq out by simp
  moreover from this have "bits_per_sample s1 = bits_per_sample s" using dec_code_keeps by blast
  ultimately show ?thesis
    using that ok dec_low_ok dec_high_ok by (simp add: state_ok_def samples_per_code_def)
qed

subsection \<open>Whole calls\<close>

lemma take_code_settings:
  assumes "take_code s data = (c, s1, rest)"
  shows "s1 = s\<lparr>in_buffer := in_buffer s1, in_bits := in_bits s1\<rparr>"
  using assms by (auto simp: take_code_def Let_def split: if_splits)

text \<open>The bits of the input are accounted for: every one is decoded or kept in \<open>in_buffer\<close>.\<close>

lemma take_code_bits:
  assumes "take_code s data = (c, s1, rest)" and "data \<noteq> []" and "bits_per_sample s \<le> 8"
    and "0 \<le> in_bits s" and "in_bits s < 8"
  shows "0 \<le> in_bits s1 \<and> in_bits s1 < 8 \<and>
         (packed s \<longrightarrow> in_bits s1 + 8 * int (length rest) + int (bits_per_sample s)
                     = in_bits s + 8 * int (length data)) \<and>
         (\<not> packed s \<longrightarrow> in_bits s1 = in_bits s \<and> Suc (length rest) = length data)"
  using assms by (cases data) (auto simp: take_code_def Let_def split: if_splits)

lemma g722_decode_ok:
  assumes "state_ok s" and "0 \<le> in_bits s" and "in_bits s < 8"
  shows "\<exists>out s'. g722_decode s data = Some (out, s') \<and> state_ok s' \<and>
           (\<forall>v \<in> set out. is_i16 v) \<and> 0 \<le> in_bits s' \<and> in_bits s' < 8 \<and>
           (if packed s then int (length out) * int (bits_per_sample s)
                = int (samples_per_code s) * (in_bits s + 8 * int (length data) - in_bits s')
            else length out = samples_per_code s * length data)"
  using assms
proof (induction s data rule: g722_decode.induct)
  case (1 s data)
  show ?case
  proof (cases "data = []")
    case True
    then show ?thesis using 1 by (subst g722_decode.simps) simp
  next
    case False
    have bps: "bits_per_sample s \<in> {6, 7, 8}" using 1 by (simp add: state_ok_def)
    obtain c s1 rest where tc: "take_code s data = (c, s1, rest)" by (metis prod_cases3)
    define b n where "b = in_buffer s1" and "n = in_bits s1"
    have s1: "s1 = s\<lparr>in_buffer := b, in_bits := n\<rparr>"
      using take_code_settings [OF tc] by (simp add: b_def n_def)
    have ok1: "state_ok s1" using 1 s1 by (simp add: state_ok_def filters_ok_def)
    obtain ril q ih where "split_code (bits_per_sample s1) c = (ril, q, ih)" by (metis prod_cases3)
    then obtain o1 s2 where dc: "dec_code s1 c = Some (o1, s2)" and ok2: "state_ok s2"
      and o1: "\<forall>v \<in> set o1. is_i16 v" "length o1 = samples_per_code s1"
      by (rule dec_code_ok [OF ok1])
    have keep: "in_bits s2 = in_bits s1" "packed s2 = packed s" "bits_per_sample s2 = bits_per_sample s"
        "samples_per_code s2 = samples_per_code s" "samples_per_code s1 = samples_per_code s"
      using dec_code_keeps [OF dc] s1 by (simp_all add: samples_per_code_def)
    have bits: "0 \<le> in_bits s1 \<and> in_bits s1 < 8 \<and>
         (packed s \<longrightarrow> in_bits s1 + 8 * int (length rest) + int (bits_per_sample s)
                     = in_bits s + 8 * int (length data)) \<and>
         (\<not> packed s \<longrightarrow> in_bits s1 = in_bits s \<and> Suc (length rest) = length data)"
      using take_code_bits [OF tc False] bps 1 by auto
    have nz: "\<not> (packed s \<and> bits_per_sample s = 0)" using bps by auto
    obtain o2 s3 where rec: "g722_decode s2 rest = Some (o2, s3)" and ok3: "state_ok s3"
      and o2: "\<forall>v \<in> set o2. is_i16 v" and b3: "0 \<le> in_bits s3 \<and> in_bits s3 < 8"
      and len: "if packed s then int (length o2) * int (bits_per_sample s)
                = int (samples_per_code s) * (in_bits s1 + 8 * int (length rest) - in_bits s3)
            else length o2 = samples_per_code s * length rest"
      using 1(1) [OF False nz tc [symmetric] refl dc refl ok2] keep bits by auto
    have "g722_decode s data = Some (o1 @ o2, s3)"
      using False nz tc dc rec by (subst g722_decode.simps) simp
    moreover have "if packed s then int (length (o1 @ o2)) * int (bits_per_sample s)
                = int (samples_per_code s) * (in_bits s + 8 * int (length data) - in_bits s3)
            else length (o1 @ o2) = samples_per_code s * length data"
    proof (cases "packed s")
      case True
      then have "in_bits s + 8 * int (length data) - in_bits s3
          = int (bits_per_sample s) + (in_bits s1 + 8 * int (length rest) - in_bits s3)"
        using bits by simp
      then show ?thesis using True len o1 keep by (simp add: algebra_simps)
    next
      case unpacked: False
      then have "length data = Suc (length rest)" using bits by simp
      then show ?thesis using unpacked len o1 keep by simp
    qed
    ultimately show ?thesis using o1(1) o2 ok3 b3 by auto
  qed
qed

subsection \<open>Whole calls of the encoder\<close>

definition samples_per_byte :: "g722_state \<Rightarrow> nat" where
  "samples_per_byte s = (if itu_test_mode s \<or> eight_k s then 1 else 2)"

text \<open>A code and its packing, the common end of the three kinds of input.\<close>

definition emit :: "g722_state \<Rightarrow> int \<Rightarrow> int \<Rightarrow> u8 list \<times> g722_state" where
  "emit s xl xh = put_code (snd (enc_code s xl xh)) (fst (enc_code s xl xh))"

lemma put_code_state: "\<exists>b n. snd (put_code s c) = s\<lparr>out_buffer := b, out_bits := n\<rparr>"
proof -
  have "snd (put_code s c) = s\<lparr>out_buffer := out_buffer (snd (put_code s c)),
                               out_bits := out_bits (snd (put_code s c))\<rparr>"
    by (auto simp: put_code_def Let_def)
  then show ?thesis by blast
qed

lemma put_code_bits:
  assumes "bits_per_sample s \<le> 8" and "0 \<le> out_bits s" and "out_bits s < 8"
  shows "0 \<le> out_bits (snd (put_code s c)) \<and> out_bits (snd (put_code s c)) < 8 \<and>
         (if packed s then 8 * int (length (fst (put_code s c))) + out_bits (snd (put_code s c))
                           = out_bits s + int (bits_per_sample s)
          else length (fst (put_code s c)) = 1 \<and> out_bits (snd (put_code s c)) = out_bits s)"
  using assms by (auto simp: put_code_def Let_def)

lemma emit_settings:
  assumes ok: "state_ok s" and run: "emit s xl xh = (bs, s2)"
  shows "state_ok s2 \<and> packed s2 = packed s \<and> itu_test_mode s2 = itu_test_mode s \<and>
         eight_k s2 = eight_k s \<and> bits_per_sample s2 = bits_per_sample s"
proof -
  obtain c s1 where ec: "enc_code s xl xh = (c, s1)" by fastforce
  then have pc: "put_code s1 c = (bs, s2)" using run by (simp add: emit_def)
  have ok1: "state_ok s1" using enc_code_state_ok [OF ok ec] .
  obtain b0 b1 where s1: "s1 = s\<lparr>band0 := b0, band1 := b1\<rparr>"
    by (rule enc_code_ok [OF ok ec]) blast
  obtain b n where s2: "s2 = s1\<lparr>out_buffer := b, out_bits := n\<rparr>"
    using put_code_state [of s1 c] pc by auto
  have "state_ok s2" using ok1 s2 by (simp add: state_ok_def filters_ok_def)
  then show ?thesis using s1 s2 by simp
qed

lemma emit_bits:
  assumes ok: "state_ok s" and ob: "0 \<le> out_bits s" "out_bits s < 8" and run: "emit s xl xh = (bs, s2)"
  shows "0 \<le> out_bits s2 \<and> out_bits s2 < 8 \<and>
         (if packed s then 8 * int (length bs) + out_bits s2 = out_bits s + int (bits_per_sample s)
          else length bs = 1 \<and> out_bits s2 = out_bits s)"
proof -
  obtain c s1 where ec: "enc_code s xl xh = (c, s1)" by fastforce
  then have pc: "put_code s1 c = (bs, s2)" using run by (simp add: emit_def)
  obtain b0 b1 where s1: "s1 = s\<lparr>band0 := b0, band1 := b1\<rparr>"
    by (rule enc_code_ok [OF ok ec]) blast
  have "bits_per_sample s1 \<le> 8" "out_bits s1 = out_bits s" "packed s1 = packed s"
      "bits_per_sample s1 = bits_per_sample s"
    using s1 ok by (auto simp: state_ok_def)
  then show ?thesis
    using put_code_bits [of s1 c] ob unfolding pc fst_conv snd_conv by simp
qed

declare g722_encode.simps(2) [simp del]

lemma g722_encode_emit:
  "g722_encode s (a # amp) =
     (if itu_test_mode s \<or> eight_k s then
        (let (bs, s2) = emit s (asr a 1) (if itu_test_mode s then asr a 1 else 0)
         in do { (bs', s3) \<leftarrow> g722_encode s2 amp; Some (bs @ bs', s3) })
      else (case amp of [] \<Rightarrow> None
        | a' # amp' \<Rightarrow>
            do { (xl, xh, s0) \<leftarrow> enc_qmf s a a';
                 let (bs, s2) = emit s0 xl xh;
                 (bs', s3) \<leftarrow> g722_encode s2 amp';
                 Some (bs @ bs', s3) }))"
  unfolding g722_encode.simps(2) [of s a amp]
  by (cases amp) (simp_all add: emit_def split_beta Let_def)

text \<open>What one turn of the encoder's loop takes from the input, and its state and samples.\<close>

definition enc_turn :: "g722_state \<Rightarrow> int list \<Rightarrow> (int \<times> int \<times> g722_state \<times> int list) option" where
  "enc_turn s amp =
     (if itu_test_mode s \<or> eight_k s then
        (case amp of [] \<Rightarrow> None
         | a # rest \<Rightarrow> Some (asr a 1, if itu_test_mode s then asr a 1 else 0, s, rest))
      else (case amp of a # a' # rest \<Rightarrow> do { (xl, xh, s0) \<leftarrow> enc_qmf s a a'; Some (xl, xh, s0, rest) }
            | _ \<Rightarrow> None))"

lemma g722_encode_turn:
  "amp \<noteq> [] \<Longrightarrow> g722_encode s amp =
     do { (xl, xh, s0, rest) \<leftarrow> enc_turn s amp;
          let (bs, s2) = emit s0 xl xh;
          (bs', s3) \<leftarrow> g722_encode s2 rest;
          Some (bs @ bs', s3) }"
  by (cases amp; cases "tl amp"; cases "itu_test_mode s \<or> eight_k s";
      cases "enc_qmf s (hd amp) (hd (tl amp))")
    (auto simp: g722_encode_emit enc_turn_def split_beta Let_def)

lemma enc_turn_ok:
  assumes "state_ok s" and "enc_turn s amp = Some (xl, xh, s0, rest)"
  shows "state_ok s0 \<and> (\<exists>x y p. s0 = s\<lparr>g_x := x, g_y := y, g_ptr := p\<rparr>) \<and>
         length amp = samples_per_byte s + length rest"
proof (cases "itu_test_mode s \<or> eight_k s")
  case True
  then have "s0 = s \<and> length amp = Suc (length rest)"
    using assms(2) by (auto simp: enc_turn_def split: list.splits)
  moreover have "\<exists>x y p. s = s\<lparr>g_x := x, g_y := y, g_ptr := p\<rparr>"
    by (rule exI [of _ "g_x s"], rule exI [of _ "g_y s"], rule exI [of _ "g_ptr s"]) simp
  ultimately show ?thesis using assms(1) True by (simp add: samples_per_byte_def)
next
  case False
  then obtain a a' where amp: "amp = a # a' # rest" and q: "enc_qmf s a a' = Some (xl, xh, s0)"
    using assms(2) by (auto simp: enc_turn_def split: list.splits Option.bind_splits prod.splits)
  have "filters_ok s" using assms(1) by (simp add: state_ok_def)
  then obtain x y p where "s0 = s\<lparr>g_x := x, g_y := y, g_ptr := p\<rparr>" and "filters_ok s0"
    using q by (metis enc_qmf_ok option.inject prod.inject)
  then show ?thesis using amp assms(1) False by (auto simp: state_ok_def samples_per_byte_def)
qed

lemma enc_turn_total:
  assumes "state_ok s"
  shows "(\<exists>t. enc_turn s amp = Some t) \<longleftrightarrow> samples_per_byte s \<le> length amp"
proof (cases "itu_test_mode s \<or> eight_k s")
  case True
  then show ?thesis by (cases amp) (simp_all add: enc_turn_def samples_per_byte_def)
next
  case False
  have "enc_turn s (a # b # rest) \<noteq> None" for a b rest
  proof -
    obtain xl xh s0 where "enc_qmf s a b = Some (xl, xh, s0)"
      using assms by (metis enc_qmf_ok state_ok_def)
    then show ?thesis using False by (simp add: enc_turn_def)
  qed
  moreover have "enc_turn s [] = None" "enc_turn s [a] = None" for a
    using False by (simp_all add: enc_turn_def)
  ultimately show ?thesis
    using False by (cases amp; cases "tl amp") (auto simp: samples_per_byte_def)
qed

lemma g722_encode_ok:
  assumes "state_ok s" and "0 \<le> out_bits s" and "out_bits s < 8"
    and "length amp = samples_per_byte s * n"
  shows "\<exists>bs s'. g722_encode s amp = Some (bs, s') \<and> state_ok s' \<and>
           0 \<le> out_bits s' \<and> out_bits s' < 8 \<and>
           (if packed s then 8 * int (length bs) + out_bits s' = out_bits s + int n * int (bits_per_sample s)
            else length bs = n)"
  using assms
proof (induction n arbitrary: s amp)
  case 0
  then show ?case by simp
next
  case (Suc n)
  have len: "samples_per_byte s \<le> length amp" and ne: "amp \<noteq> []"
    using Suc.prems(4) by (auto simp: samples_per_byte_def split: if_splits)
  then obtain xl xh s0 rest where turn: "enc_turn s amp = Some (xl, xh, s0, rest)"
    using enc_turn_total [OF Suc.prems(1)] by (metis prod_cases4)
  obtain bs s2 where emit: "emit s0 xl xh = (bs, s2)" by fastforce
  obtain x y p where s0: "s0 = s\<lparr>g_x := x, g_y := y, g_ptr := p\<rparr>" and ok0: "state_ok s0"
    and rest: "length rest = samples_per_byte s * n"
    using enc_turn_ok [OF Suc.prems(1) turn] Suc.prems(4) by auto
  have keep0: "out_bits s0 = out_bits s" "packed s0 = packed s" "itu_test_mode s0 = itu_test_mode s"
      "eight_k s0 = eight_k s" "bits_per_sample s0 = bits_per_sample s"
    using s0 by simp_all
  note e = emit_settings [OF ok0 emit, unfolded keep0]
    and eb = emit_bits [OF ok0 _ _ emit, unfolded keep0, OF Suc.prems(2,3)]
  have "samples_per_byte s2 = samples_per_byte s" using e by (simp add: samples_per_byte_def)
  then obtain bs' s3 where rec: "g722_encode s2 rest = Some (bs', s3)" and ok3: "state_ok s3"
    and b3: "0 \<le> out_bits s3 \<and> out_bits s3 < 8"
    and count: "if packed s then 8 * int (length bs') + out_bits s3
                  = out_bits s2 + int n * int (bits_per_sample s) else length bs' = n"
    using Suc.IH [of s2 rest] e eb rest by auto
  have "g722_encode s amp = Some (bs @ bs', s3)"
    using turn emit rec by (simp add: g722_encode_turn [OF ne])
  moreover have "if packed s then 8 * int (length (bs @ bs')) + out_bits s3
      = out_bits s + int (Suc n) * int (bits_per_sample s) else length (bs @ bs') = Suc n"
    using eb count by (simp add: algebra_simps split: if_splits)
  ultimately show ?case using ok3 b3 by blast
qed

lemma g722_encode_odd:
  assumes "state_ok s" and "samples_per_byte s = 2" and "odd (length amp)"
  shows "g722_encode s amp = None"
  using assms
proof (induction "length amp" arbitrary: s amp rule: less_induct)
  case less
  show ?case
  proof (cases "enc_turn s amp")
    case None
    moreover have "amp \<noteq> []" using less.prems(3) by auto
    ultimately show ?thesis by (simp add: g722_encode_turn)
  next
    case (Some t)
    obtain xl xh s0 rest where turn: "enc_turn s amp = Some (xl, xh, s0, rest)"
      using Some by (metis prod_cases4)
    have t: "state_ok s0" "length amp = 2 + length rest" "samples_per_byte s0 = 2"
      using enc_turn_ok [OF less.prems(1) turn] less.prems(2) by (auto simp: samples_per_byte_def)
    obtain bs s2 where emit: "emit s0 xl xh = (bs, s2)" by fastforce
    then have "state_ok s2 \<and> samples_per_byte s2 = 2"
      using emit_settings [OF t(1) emit] t(3) by (simp add: samples_per_byte_def)
    then have "g722_encode s2 rest = None" using less.hyps [of rest s2] t(2) less.prems(3) by simp
    moreover have "amp \<noteq> []" using t(2) by auto
    ultimately show ?thesis using turn emit by (simp add: g722_encode_turn)
  qed
qed

lemma unpacked_tracks:
  assumes "agree e d" and "state_ok e" and "state_ok d" and "\<not> packed e" and "\<not> packed d"
    and "g722_encode e amp = Some (bs, e')"
  shows "\<exists>out d'. g722_decode d bs = Some (out, d') \<and> agree e' d' \<and> state_ok e' \<and> state_ok d'"
  using assms
proof (induction "length amp" arbitrary: e d amp bs rule: less_induct)
  case less
  show ?case
  proof (cases "amp = []")
    case True
    then show ?thesis using less.prems by (subst g722_decode.simps) auto
  next
    case False
    obtain xl xh e0 rest where turn: "enc_turn e amp = Some (xl, xh, e0, rest)"
      using less.prems(6) unfolding g722_encode_turn [OF False] by (cases "enc_turn e amp") auto
    obtain b1 e2 where emit: "emit e0 xl xh = (b1, e2)" by fastforce
    obtain b2 where rec: "g722_encode e2 rest = Some (b2, e')" and bs: "bs = b1 @ b2"
      using less.prems(6) turn emit unfolding g722_encode_turn [OF False]
      by (auto simp: Option.bind_eq_Some_conv)
    obtain x y p where e0: "e0 = e\<lparr>g_x := x, g_y := y, g_ptr := p\<rparr>" and ok0: "state_ok e0"
      and shorter: "length rest < length amp"
      using enc_turn_ok [OF less.prems(2) turn] by (auto simp: samples_per_byte_def split: if_splits)
    obtain c e1 where ec: "enc_code e0 xl xh = (c, e1)" by fastforce
    have pc: "put_code e1 c = (b1, e2)" using emit ec by (simp add: emit_def)
    obtain ril q ih where c: "0 \<le> c" "c < 256" "split_code (bits_per_sample e0) c = (ril, q, ih)"
      and e1: "e1 = e0\<lparr>band0 := snd (dec_low (band0 e0) ril q),
                  band1 := if eight_k e0 then band1 e0 else snd (dec_high (band1 e0) ih)\<rparr>"
      by (rule enc_code_ok [OF ok0 ec])
    have e2: "e2 = e1" and b1: "b1 = [word_of_int c]"
      using pc e1 e0 less.prems(4) by (auto simp: put_code_def)
    have "split_code (bits_per_sample d) c = (ril, q, ih)"
      using c(3) e0 less.prems(1) by (simp add: agree_def)
    then obtain o1 d1 where dc: "dec_code d c = Some (o1, d1)" and okd: "state_ok d1"
      and bands: "band0 d1 = snd (dec_low (band0 d) ril q)"
        "band1 d1 = (if eight_k d then band1 d else snd (dec_high (band1 d) ih))"
      by (rule dec_code_ok [OF less.prems(3)])
    have "agree e2 d1"
      using bands e2 e1 e0 less.prems(1) dec_code_keeps [OF dc] by (simp add: agree_def)
    moreover have "state_ok e2" using enc_code_state_ok [OF ok0 ec] e2 by simp
    moreover have "\<not> packed e2" using e2 e1 e0 less.prems(4) by simp
    moreover have "\<not> packed d1" using dec_code_keeps [OF dc] less.prems(5) by simp
    ultimately obtain o2 d' where "g722_decode d1 b2 = Some (o2, d')" "agree e' d'"
        "state_ok e'" "state_ok d'"
      using less.hyps [OF shorter _ _ okd _ _ rec] by blast
    moreover have "take_code d bs = (c, d, b2)"
      using less.prems(5) c by (simp add: take_code_def bs b1 uint_word_of_int take_bit_int_eq_self)
    then have "g722_decode d bs = do { (o2, d') \<leftarrow> g722_decode d1 b2; Some (o1 @ o2, d') }"
      using dc less.prems(5) bs b1 by (subst g722_decode.simps) simp
    ultimately show ?thesis by auto
  qed
qed

subsection \<open>Properties\<close>

text \<open>
  C17. Backward adaptation: the decoder follows the encoder. From equal bands, at any of the
  three rates and in either sample rate mode, decoding the bytes of an unpacked encoding
  succeeds and leaves both bands (scale factors, predictor coefficients and delay lines) of
  the decoder equal to the encoder's, although the two sides limit the scale factor
  differently and the encoder decides on the quantizer's full index.
\<close>

theorem g722_decoder_tracks_encoder:
  assumes "state_ok e" and "state_ok d" and "\<not> packed e" and "\<not> packed d"
    and "band0 d = band0 e" and "band1 d = band1 e"
    and "bits_per_sample d = bits_per_sample e" and "eight_k d = eight_k e"
    and "g722_encode e amp = Some (bs, e')"
  shows "\<exists>out d'. g722_decode d bs = Some (out, d') \<and> band0 d' = band0 e' \<and> band1 d' = band1 e'"
  using unpacked_tracks [of e d amp bs e'] assms by (auto simp: agree_def)

theorem g722_decoder_tracks_encoder_witness:
  "\<exists>bs e' out d'. g722_encode (g722_encode_init 56000 False False) [900, -900, 8000, 31] = Some (bs, e') \<and>
     g722_decode (g722_decode_init 56000 False False) bs = Some (out, d') \<and>
     band0 d' = band0 e' \<and> band1 d' = band1 e'"
proof -
  let ?s = "g722_init 56000 False False"
  obtain bs e' where "g722_encode ?s [900, -900, 8000, 31] = Some (bs, e')"
    using g722_encode_ok [OF g722_init_ok, of 56000 False False "[900, -900, 8000, 31]" 2]
    by (auto simp: g722_init_def samples_per_byte_def Let_def)
  moreover have "\<not> packed ?s" by (simp add: g722_init_def Let_def)
  moreover from calculation obtain out d' where
    "g722_decode ?s bs = Some (out, d') \<and> band0 d' = band0 e' \<and> band1 d' = band1 e'"
    using g722_decoder_tracks_encoder [OF g722_init_ok g722_init_ok _ _ refl refl refl refl] by blast
  ultimately show ?thesis by (auto simp: g722_encode_init_def g722_decode_init_def)
qed





end
