(* ===== verification/Gsm_Frame.thy ===== *)
theory Gsm_Frame
  imports Spandsp_Arith
begin

text \<open>
  The frames of GSM 06.10 and their three byte formats: \<open>gsm0610_frame_t\<close> of
  \<open>spandsp/gsm0610.h\<close>, the packing functions of \<open>gsm0610_encode.c\<close> and the unpacking
  functions of \<open>gsm0610_decode.c\<close>.

  The WAV49 functions work through a 16 bit register \<open>sr\<close>; each of their statements is one
  step below, in the order of the code. The VoIP functions compute every byte and every field
  by an expression of shifts and masks.
\<close>

record gsm0610_frame =
  f_LARc :: "int list"
  f_Nc :: "int list"
  f_bc :: "int list"
  f_Mc :: "int list"
  f_xmaxc :: "int list"
  f_xMc :: "int list list"

subsection \<open>Bytes\<close>

definition gsm0610_pack_none :: "gsm0610_frame \<Rightarrow> u8 list" where
  "gsm0610_pack_none s =
     map (\<lambda>j. word_of_int (f_LARc s ! j)) [0..<8] @
     concat (map (\<lambda>j. [word_of_int (f_Nc s ! j), word_of_int (f_bc s ! j),
                        word_of_int (f_Mc s ! j), word_of_int (f_xmaxc s ! j)] @
                      map (\<lambda>k. word_of_int (f_xMc s ! j ! k)) [0..<13]) [0..<4])"

text \<open>A block shorter than the format is read beyond its end: \<open>None\<close>.\<close>

definition gsm0610_unpack_none :: "u8 list \<Rightarrow> gsm0610_frame option" where
  "gsm0610_unpack_none c =
     (if length c < 76 then None
      else Some \<lparr>f_LARc = map (\<lambda>j. uint (c ! j)) [0..<8],
                 f_Nc = map (\<lambda>j. uint (c ! (8 + 17 * j))) [0..<4],
                 f_bc = map (\<lambda>j. uint (c ! (9 + 17 * j))) [0..<4],
                 f_Mc = map (\<lambda>j. uint (c ! (10 + 17 * j))) [0..<4],
                 f_xmaxc = map (\<lambda>j. uint (c ! (11 + 17 * j))) [0..<4],
                 f_xMc = map (\<lambda>j. map (\<lambda>k. uint (c ! (12 + 17 * j + k))) [0..<13]) [0..<4]\<rparr>)"

subsection \<open>WAV49: two frames in 65 bytes\<close>

text \<open>
  \<open>Put w v\<close> is \<open>sr = (sr >> w) | (v << (16 - w))\<close>, \<open>Emit k\<close> is \<open>*c++ = (uint8_t) (sr >> k)\<close>.
\<close>

datatype pack_step = Put nat int | Emit nat

fun pack_steps :: "pack_step list \<Rightarrow> u16 \<Rightarrow> u8 list" where
  "pack_steps [] sr = []"
| "pack_steps (Put w v # ps) sr = pack_steps ps (drop_bit w sr OR push_bit (16 - w) (word_of_int v))"
| "pack_steps (Emit k # ps) sr = ucast (drop_bit k sr) # pack_steps ps sr"

definition wav49_first_sub :: "gsm0610_frame \<Rightarrow> nat \<Rightarrow> pack_step list" where
  "wav49_first_sub s i =
     [Put 7 (f_Nc s ! i), Emit 5, Put 2 (f_bc s ! i), Put 2 (f_Mc s ! i),
      Put 6 (f_xmaxc s ! i), Emit 3,
      Put 3 (f_xMc s ! i ! 0), Emit 8,
      Put 3 (f_xMc s ! i ! 1), Put 3 (f_xMc s ! i ! 2), Put 3 (f_xMc s ! i ! 3), Emit 7,
      Put 3 (f_xMc s ! i ! 4), Put 3 (f_xMc s ! i ! 5), Put 3 (f_xMc s ! i ! 6), Emit 6,
      Put 3 (f_xMc s ! i ! 7), Put 3 (f_xMc s ! i ! 8), Emit 8,
      Put 3 (f_xMc s ! i ! 9), Put 3 (f_xMc s ! i ! 10), Put 3 (f_xMc s ! i ! 11), Emit 7,
      Put 3 (f_xMc s ! i ! 12)]"

definition wav49_second_sub :: "gsm0610_frame \<Rightarrow> nat \<Rightarrow> pack_step list" where
  "wav49_second_sub s i =
     [Put 7 (f_Nc s ! i), Put 2 (f_bc s ! i), Emit 7, Put 2 (f_Mc s ! i),
      Put 6 (f_xmaxc s ! i), Emit 7,
      Put 3 (f_xMc s ! i ! 0), Put 3 (f_xMc s ! i ! 1), Put 3 (f_xMc s ! i ! 2), Emit 6,
      Put 3 (f_xMc s ! i ! 3), Put 3 (f_xMc s ! i ! 4), Emit 8,
      Put 3 (f_xMc s ! i ! 5), Put 3 (f_xMc s ! i ! 6), Put 3 (f_xMc s ! i ! 7), Emit 7,
      Put 3 (f_xMc s ! i ! 8), Put 3 (f_xMc s ! i ! 9), Put 3 (f_xMc s ! i ! 10), Emit 6,
      Put 3 (f_xMc s ! i ! 11), Put 3 (f_xMc s ! i ! 12), Emit 8]"

definition wav49_pack_program :: "gsm0610_frame \<Rightarrow> gsm0610_frame \<Rightarrow> pack_step list" where
  "wav49_pack_program s t =
     [Put 6 (f_LARc s ! 0), Put 6 (f_LARc s ! 1), Emit 4,
      Put 5 (f_LARc s ! 2), Emit 7,
      Put 5 (f_LARc s ! 3), Put 4 (f_LARc s ! 4), Emit 6,
      Put 4 (f_LARc s ! 5), Put 3 (f_LARc s ! 6), Emit 7,
      Put 3 (f_LARc s ! 7)] @
     concat (map (wav49_first_sub s) [0..<4]) @
     [Put 6 (f_LARc t ! 0), Emit 6, Put 6 (f_LARc t ! 1), Emit 8,
      Put 5 (f_LARc t ! 2), Put 5 (f_LARc t ! 3), Emit 6,
      Put 4 (f_LARc t ! 4), Put 4 (f_LARc t ! 5), Emit 6,
      Put 3 (f_LARc t ! 6), Put 3 (f_LARc t ! 7), Emit 8] @
     concat (map (wav49_second_sub t) [0..<4])"

definition gsm0610_pack_wav49 :: "gsm0610_frame \<Rightarrow> gsm0610_frame \<Rightarrow> u8 list" where
  "gsm0610_pack_wav49 s t = pack_steps (wav49_pack_program s t) 0"

text \<open>
  \<open>Load\<close> is \<open>sr = *c++\<close>, \<open>Merge k\<close> is \<open>sr |= (uint16_t) *c++ << k\<close>, and \<open>Field w\<close> is an
  assignment of \<open>sr & (2 ^ w - 1)\<close> to the next field followed by \<open>sr >>= w\<close>.
\<close>

datatype unpack_step = Load | Merge nat | Field nat

fun unpack_steps :: "unpack_step list \<Rightarrow> u16 \<Rightarrow> u8 list \<Rightarrow> int list option" where
  "unpack_steps [] sr c = Some []"
| "unpack_steps (Load # us) sr c =
     (case c of [] \<Rightarrow> None | b # c' \<Rightarrow> unpack_steps us (ucast b) c')"
| "unpack_steps (Merge k # us) sr c =
     (case c of [] \<Rightarrow> None | b # c' \<Rightarrow> unpack_steps us (sr OR push_bit k (ucast b)) c')"
| "unpack_steps (Field w # us) sr c =
     do { vs \<leftarrow> unpack_steps us (drop_bit w sr) c; Some (uint (sr AND (2 ^ w - 1)) # vs) }"

definition wav49_first_fields :: "unpack_step list" where
  "wav49_first_fields =
     [Merge 4, Field 7, Field 2, Field 2, Merge 1, Field 6, Field 3,
      Load, Field 3, Field 3, Merge 2, Field 3, Field 3, Field 3,
      Merge 1, Field 3, Field 3, Field 3, Load, Field 3, Field 3, Merge 2, Field 3, Field 3]"

definition wav49_second_fields :: "unpack_step list" where
  "wav49_second_fields =
     [Load, Field 7, Merge 1, Field 2, Field 2, Merge 5, Field 6, Field 3, Field 3,
      Merge 1, Field 3, Field 3, Field 3, Load, Field 3, Field 3, Merge 2, Field 3, Field 3, Field 3,
      Merge 1, Field 3, Field 3, Field 3]"

definition wav49_unpack_program :: "unpack_step list" where
  "wav49_unpack_program =
     [Load, Field 6, Merge 2, Field 6, Merge 4, Field 5, Field 5, Merge 2, Field 4, Field 4,
      Merge 2, Field 3, Field 3] @
     concat (replicate 4 wav49_first_fields) @
     [Merge 4, Field 6, Field 6, Load, Field 5, Merge 3, Field 5, Field 4, Merge 2, Field 4,
      Field 3, Field 3] @
     concat (replicate 4 wav49_second_fields)"

text \<open>The 76 fields of a frame in the order of the code.\<close>

definition frame_of_fields :: "int list \<Rightarrow> gsm0610_frame" where
  "frame_of_fields v =
     \<lparr>f_LARc = take 8 v,
      f_Nc = map (\<lambda>j. v ! (8 + 17 * j)) [0..<4],
      f_bc = map (\<lambda>j. v ! (9 + 17 * j)) [0..<4],
      f_Mc = map (\<lambda>j. v ! (10 + 17 * j)) [0..<4],
      f_xmaxc = map (\<lambda>j. v ! (11 + 17 * j)) [0..<4],
      f_xMc = map (\<lambda>j. map (\<lambda>k. v ! (12 + 17 * j + k)) [0..<13]) [0..<4]\<rparr>"

definition gsm0610_unpack_wav49 :: "u8 list \<Rightarrow> (gsm0610_frame \<times> gsm0610_frame) option" where
  "gsm0610_unpack_wav49 c =
     do { v \<leftarrow> unpack_steps wav49_unpack_program 0 c;
          Some (frame_of_fields (take 76 v), frame_of_fields (drop 76 v)) }"

subsection \<open>VoIP: a frame in 33 bytes, with the magic number in the first four bits\<close>

definition voip_header :: "gsm0610_frame \<Rightarrow> u8 list" where
  "voip_header s =
     (let l = f_LARc s in
      map word_of_int
       [shl (13 AND 15) 4 OR (asr (l ! 0) 2 AND 15),
        shl (l ! 0 AND 3) 6 OR (l ! 1 AND 63),
        shl (l ! 2 AND 31) 3 OR (asr (l ! 3) 2 AND 7),
        shl (l ! 3 AND 3) 6 OR shl (l ! 4 AND 15) 2 OR (asr (l ! 5) 2 AND 3),
        shl (l ! 5 AND 3) 6 OR shl (l ! 6 AND 7) 3 OR (l ! 7 AND 7)])"

definition voip_sub :: "gsm0610_frame \<Rightarrow> nat \<Rightarrow> u8 list" where
  "voip_sub s i =
     (let x = f_xMc s ! i in
      map word_of_int
       [shl (f_Nc s ! i AND 127) 1 OR (asr (f_bc s ! i) 1 AND 1),
        shl (f_bc s ! i AND 1) 7 OR shl (f_Mc s ! i AND 3) 5 OR (asr (f_xmaxc s ! i) 1 AND 31),
        shl (f_xmaxc s ! i AND 1) 7 OR shl (x ! 0 AND 7) 4 OR shl (x ! 1 AND 7) 1 OR (asr (x ! 2) 2 AND 1),
        shl (x ! 2 AND 3) 6 OR shl (x ! 3 AND 7) 3 OR (x ! 4 AND 7),
        shl (x ! 5 AND 7) 5 OR shl (x ! 6 AND 7) 2 OR (asr (x ! 7) 1 AND 3),
        shl (x ! 7 AND 1) 7 OR shl (x ! 8 AND 7) 4 OR shl (x ! 9 AND 7) 1 OR (asr (x ! 10) 2 AND 1),
        shl (x ! 10 AND 3) 6 OR shl (x ! 11 AND 7) 3 OR (x ! 12 AND 7)])"

definition gsm0610_pack_voip :: "gsm0610_frame \<Rightarrow> u8 list" where
  "gsm0610_pack_voip s = voip_header s @ concat (map (voip_sub s) [0..<4])"

definition voip_LARc :: "int \<Rightarrow> int \<Rightarrow> int \<Rightarrow> int \<Rightarrow> int \<Rightarrow> int list" where
  "voip_LARc c0 c1 c2 c3 c4 =
     [shl (c0 AND 15) 2 OR (asr c1 6 AND 3), c1 AND 63, asr c2 3 AND 31,
      shl (c2 AND 7) 2 OR (asr c3 6 AND 3), asr c3 2 AND 15,
      shl (c3 AND 3) 2 OR (asr c4 6 AND 3), asr c4 3 AND 7, c4 AND 7]"

definition voip_xMc :: "int \<Rightarrow> int \<Rightarrow> int \<Rightarrow> int \<Rightarrow> int \<Rightarrow> int list" where
  "voip_xMc c2 c3 c4 c5 c6 =
     [asr c2 4 AND 7, asr c2 1 AND 7, shl (c2 AND 1) 2 OR (asr c3 6 AND 3),
      asr c3 3 AND 7, c3 AND 7, asr c4 5 AND 7, asr c4 2 AND 7,
      shl (c4 AND 3) 1 OR (asr c5 7 AND 1), asr c5 4 AND 7, asr c5 1 AND 7,
      shl (c5 AND 1) 2 OR (asr c6 6 AND 3), asr c6 3 AND 7, c6 AND 7]"

text \<open>\<open>sub i k\<close> is byte \<open>k\<close> of the seven bytes of subframe \<open>i\<close>.\<close>

definition gsm0610_unpack_voip :: "u8 list \<Rightarrow> gsm0610_frame option" where
  "gsm0610_unpack_voip code =
     (if length code < 33 then None
      else (let c = map uint code; sub = (\<lambda>i k. c ! (5 + 7 * i + k)) in
        Some \<lparr>f_LARc = voip_LARc (c ! 0) (c ! 1) (c ! 2) (c ! 3) (c ! 4),
              f_Nc = map (\<lambda>i. asr (sub i 0) 1 AND 127) [0..<4],
              f_bc = map (\<lambda>i. shl (sub i 0 AND 1) 1 OR (asr (sub i 1) 7 AND 1)) [0..<4],
              f_Mc = map (\<lambda>i. asr (sub i 1) 5 AND 3) [0..<4],
              f_xmaxc = map (\<lambda>i. shl (sub i 1 AND 31) 1 OR (asr (sub i 2) 7 AND 1)) [0..<4],
              f_xMc = map (\<lambda>i. voip_xMc (sub i 2) (sub i 3) (sub i 4) (sub i 5) (sub i 6)) [0..<4]\<rparr>))"

subsection \<open>Frames whose fields fit their widths\<close>

definition frame_fields :: "gsm0610_frame \<Rightarrow> int list" where
  "frame_fields s =
     map (\<lambda>j. f_LARc s ! j) [0..<8] @
     concat (map (\<lambda>j. [f_Nc s ! j, f_bc s ! j, f_Mc s ! j, f_xmaxc s ! j] @
                      map (\<lambda>k. f_xMc s ! j ! k) [0..<13]) [0..<4])"

definition frame_widths :: "nat list" where
  "frame_widths = [6, 6, 5, 5, 4, 4, 3, 3] @ concat (replicate 4 ([7, 2, 2, 6] @ replicate 13 3))"

definition frame_shaped :: "gsm0610_frame \<Rightarrow> bool" where
  "frame_shaped s \<longleftrightarrow>
     length (f_LARc s) = 8 \<and> length (f_Nc s) = 4 \<and> length (f_bc s) = 4 \<and> length (f_Mc s) = 4 \<and>
     length (f_xmaxc s) = 4 \<and> length (f_xMc s) = 4 \<and> (\<forall>x \<in> set (f_xMc s). length x = 13)"

definition frame_fits :: "gsm0610_frame \<Rightarrow> bool" where
  "frame_fits s \<longleftrightarrow>
     frame_shaped s \<and> list_all2 (\<lambda>w v. 0 \<le> v \<and> v < 2 ^ w) frame_widths (frame_fields s)"

lemma list_as_nths: "length xs = n \<Longrightarrow> map (\<lambda>j. xs ! j) [0..<n] = xs"
  using map_nth [of xs] by auto

lemma frame_fields_length [simp]: "length (frame_fields s) = 76"
  by (simp add: frame_fields_def upt_rec)

lemma frame_of_frame_fields: "frame_shaped s \<Longrightarrow> frame_of_fields (frame_fields s) = s"
proof -
  assume shape: "frame_shaped s"
  have x: "map (\<lambda>j. map (\<lambda>k. f_xMc s ! j ! k) [0..<13]) [0..<4] = f_xMc s"
  proof (rule nth_equalityI)
    fix i assume "i < length (map (\<lambda>j. map (\<lambda>k. f_xMc s ! j ! k) [0..<13]) [0..<4])"
    then have "i < 4" by simp
    then have "length (f_xMc s ! i) = 13" using shape by (simp add: frame_shaped_def)
    then show "map (\<lambda>j. map (\<lambda>k. f_xMc s ! j ! k) [0..<13]) [0..<4] ! i = f_xMc s ! i"
      using \<open>i < 4\<close> by (simp add: list_as_nths)
  qed (use shape in \<open>simp add: frame_shaped_def\<close>)
  have "frame_of_fields (frame_fields s) =
      \<lparr>f_LARc = map (\<lambda>j. f_LARc s ! j) [0..<8], f_Nc = map (\<lambda>j. f_Nc s ! j) [0..<4],
       f_bc = map (\<lambda>j. f_bc s ! j) [0..<4], f_Mc = map (\<lambda>j. f_Mc s ! j) [0..<4],
       f_xmaxc = map (\<lambda>j. f_xmaxc s ! j) [0..<4],
       f_xMc = map (\<lambda>j. map (\<lambda>k. f_xMc s ! j ! k) [0..<13]) [0..<4]\<rparr>"
    by (simp add: frame_of_fields_def frame_fields_def upt_rec)
  also have "\<dots> = s" using shape by (simp only: x) (simp add: frame_shaped_def list_as_nths)
  finally show ?thesis .
qed

lemma frame_field_fits:
  "frame_fits s \<Longrightarrow> i < 76 \<Longrightarrow> 0 \<le> frame_fields s ! i \<and> frame_fields s ! i < 2 ^ (frame_widths ! i)"
  by (simp add: frame_fits_def list_all2_conv_all_nth)

subsection \<open>The shift register\<close>

definition lsb_bits :: "u8 list \<Rightarrow> bool list" where
  "lsb_bits c = concat (map (\<lambda>b. map (bit b) [0..<8]) c)"

fun lsb_fields :: "nat list \<Rightarrow> bool list \<Rightarrow> int list" where
  "lsb_fields [] bs = []"
| "lsb_fields (w # ws) bs = horner_sum of_bool 2 (take w bs) # lsb_fields ws (drop w bs)"

fun puts :: "pack_step list \<Rightarrow> (nat \<times> int) list" where
  "puts [] = []"
| "puts (Put w v # ps) = (w, v) # puts ps"
| "puts (Emit k # ps) = puts ps"

definition put_bits :: "(nat \<times> int) list \<Rightarrow> bool list" where
  "put_bits ps = concat (map (\<lambda>(w, v). map (bit v) [0..<w]) ps)"

text \<open>\<open>n\<close> bits were shifted in and \<open>m\<close> bytes emitted: the emissions are at the right places.\<close>

fun pack_legal :: "nat \<Rightarrow> nat \<Rightarrow> pack_step list \<Rightarrow> bool" where
  "pack_legal n m [] = (n = 8 * m)"
| "pack_legal n m (Put w v # ps) = (w \<le> 16 \<and> pack_legal (n + w) m ps)"
| "pack_legal n m (Emit k # ps) = (k \<le> 8 \<and> n + k = 16 + 8 * m \<and> pack_legal n (m + 1) ps)"

definition holds_last :: "bool list \<Rightarrow> u16 \<Rightarrow> bool" where
  "holds_last B sr \<longleftrightarrow> (\<forall>i < 16. bit sr i \<longleftrightarrow> 16 \<le> length B + i \<and> B ! (length B + i - 16))"

lemma holds_last_put:
  assumes "holds_last B sr" and "w \<le> 16"
  shows "holds_last (B @ map (bit v) [0..<w]) (drop_bit w sr OR push_bit (16 - w) (word_of_int v))"
  unfolding holds_last_def
proof (intro allI impI)
  fix i :: nat assume i: "i < 16"
  show "bit (drop_bit w sr OR push_bit (16 - w) (word_of_int v)) i \<longleftrightarrow>
      16 \<le> length (B @ map (bit v) [0..<w]) + i \<and>
      (B @ map (bit v) [0..<w]) ! (length (B @ map (bit v) [0..<w]) + i - 16)"
  proof (cases "i < 16 - w")
    case True
    then have "bit sr (w + i) \<longleftrightarrow> 16 \<le> length B + (w + i) \<and> B ! (length B + (w + i) - 16)"
      using assms(1) unfolding holds_last_def by simp
    moreover have "16 \<le> length B + (w + i) \<Longrightarrow> length B + (w + i) - 16 < length B"
      using True by linarith
    ultimately show ?thesis using True by (auto simp: bit_simps nth_append add_ac)
  next
    case False
    then have n: "length B + w + i - 16 = length B + (w + i - 16)" and "w + i - 16 < w"
      using i assms(2) by linarith+
    then have "(B @ map (bit v) [0..<w]) ! (length B + w + i - 16) = bit v (w + i - 16)"
      by (simp add: nth_append)
    moreover have "\<not> bit sr (w + i)" using False bit_imp_le_length [of sr "w + i"] by auto
    moreover have "i - (16 - w) = w + i - 16" using assms(2) by simp
    ultimately show ?thesis using False i assms(2) by (auto simp: bit_simps)
  qed
qed

lemma emit_byte:
  assumes "holds_last B sr" and "k \<le> 8" and "length B + k = 16 + 8 * m"
  shows "map (bit (ucast (drop_bit k sr) :: u8)) [0..<8] = take 8 (drop (8 * m) (B @ B'))"
proof (rule nth_equalityI)
  show "length (map (bit (ucast (drop_bit k sr) :: u8)) [0..<8]) = length (take 8 (drop (8 * m) (B @ B')))"
    using assms(2,3) by simp
next
  fix i assume "i < length (map (bit (ucast (drop_bit k sr) :: u8)) [0..<8])"
  then have i: "i < 8" by simp
  have "bit sr (k + i) \<longleftrightarrow> 16 \<le> length B + (k + i) \<and> B ! (length B + (k + i) - 16)"
    using assms(1,2) i unfolding holds_last_def by simp
  moreover have "length B + (k + i) = 16 + (8 * m + i)" using assms(3) by simp
  moreover have "8 * m + i < length B" using assms(2,3) i by linarith
  ultimately show "map (bit (ucast (drop_bit k sr) :: u8)) [0..<8] ! i = take 8 (drop (8 * m) (B @ B')) ! i"
    using i assms(2) by (simp add: bit_simps nth_append)
qed

lemma pack_steps_bits:
  "pack_legal (length B) m ps \<Longrightarrow> holds_last B sr \<Longrightarrow>
     lsb_bits (pack_steps ps sr) = drop (8 * m) (B @ put_bits (puts ps))"
proof (induction ps arbitrary: B m sr rule: puts.induct)
  case 1
  then show ?case by (simp add: lsb_bits_def put_bits_def)
next
  case (2 w v ps)
  then show ?case
    using 2(1) [of "B @ map (bit v) [0..<w]"] holds_last_put [of B sr w v]
    by (simp add: put_bits_def)
next
  case (3 k ps)
  let ?all = "B @ put_bits (puts ps)"
  have "pack_legal (length B) (m + 1) ps" using 3(2) by simp
  then have "lsb_bits (pack_steps ps sr) = drop (8 * (m + 1)) ?all" using 3(1,3) by blast
  then have "lsb_bits (pack_steps (Emit k # ps) sr) = take 8 (drop (8 * m) ?all) @ drop (8 * (m + 1)) ?all"
    using emit_byte [of B sr k m "put_bits (puts ps)"] 3 by (simp add: lsb_bits_def)
  also have "\<dots> = drop (8 * m) ?all"
    using append_take_drop_id [of 8 "drop (8 * m) ?all"] unfolding drop_drop
    by (simp only: distrib_left mult_1_right add.commute)
  finally show ?case by simp
qed

text \<open>\<open>a\<close> bits are in the register and \<open>left\<close> bytes in the input.\<close>

fun unpack_legal :: "nat \<Rightarrow> nat \<Rightarrow> unpack_step list \<Rightarrow> bool" where
  "unpack_legal a left [] = (a = 0 \<and> left = 0)"
| "unpack_legal a left (Load # us) = (a = 0 \<and> 0 < left \<and> unpack_legal 8 (left - 1) us)"
| "unpack_legal a left (Merge k # us) = (k = a \<and> a \<le> 8 \<and> 0 < left \<and> unpack_legal (a + 8) (left - 1) us)"
| "unpack_legal a left (Field w # us) = (w \<le> a \<and> unpack_legal (a - w) left us)"

fun field_widths :: "unpack_step list \<Rightarrow> nat list" where
  "field_widths [] = []"
| "field_widths (Load # us) = field_widths us"
| "field_widths (Merge k # us) = field_widths us"
| "field_widths (Field w # us) = w # field_widths us"

lemma map_bit_append: "map (bit x) [0..<a] @ map (\<lambda>i. bit x (a + i)) [0..<n] = map (bit x) [0..<a + n]"
  by (rule nth_equalityI) (auto simp: nth_append)

lemma unpack_steps_fields:
  "unpack_legal a (length c) us \<Longrightarrow> (\<And>i. bit sr i \<Longrightarrow> i < a) \<Longrightarrow>
     unpack_steps us sr c = Some (lsb_fields (field_widths us) (map (bit sr) [0..<a] @ lsb_bits c))"
proof (induction us arbitrary: a sr c rule: field_widths.induct)
  case 1
  then show ?case by simp
next
  case (2 us)
  then obtain b c' where c: "c = b # c'" by (cases c) auto
  have bits: "map (bit (ucast b :: u16)) [0..<8] = map (bit b) [0..<8]" by (simp add: bit_simps)
  have "\<And>i. bit (ucast b :: u16) i \<Longrightarrow> i < 8"
    using bit_imp_le_length [of b] by (simp add: bit_simps)
  moreover have "unpack_legal 8 (length c') us" "a = 0" using 2(2) c by auto
  ultimately show ?case using 2(1) [of 8 c' "ucast b"] c by (simp only: bits) (simp add: lsb_bits_def)
next
  case (3 k us)
  then obtain b c' where c: "c = b # c'" by (cases c) auto
  let ?sr = "sr OR push_bit k (ucast b)"
  have k: "k = a" "a \<le> 8" using 3 by auto
  have "map (bit ?sr) [0..<a + 8] = map (bit sr) [0..<a] @ map (bit b) [0..<8]"
  proof (rule nth_equalityI)
    fix i assume "i < length (map (bit ?sr) [0..<a + 8])"
    then have "i < a + 8" by simp
    then show "map (bit ?sr) [0..<a + 8] ! i = (map (bit sr) [0..<a] @ map (bit b) [0..<8]) ! i"
      using k 3(3) [of i] by (cases "i < a") (auto simp: bit_simps nth_append)
  qed simp
  moreover have "\<And>i. bit ?sr i \<Longrightarrow> i < a + 8"
    using k 3(3) bit_imp_le_length [of b] by (fastforce simp: bit_simps)
  ultimately show ?case using 3(1) [of "a + 8" c' ?sr] 3(2) c by (simp add: lsb_bits_def)
next
  case (4 w us)
  let ?sr = "drop_bit w sr"
  have w: "w \<le> a" using 4 by simp
  have "map (bit sr) [0..<a] = map (bit sr) [0..<w] @ map (bit ?sr) [0..<a - w]"
    using map_bit_append [of sr w "a - w"] w by (simp add: bit_drop_bit_eq comp_def)
  moreover have "horner_sum of_bool 2 (map (bit sr) [0..<w]) = uint (sr AND (2 ^ w - 1))"
  proof -
    have "horner_sum of_bool 2 (map (bit sr) [0..<w]) = horner_sum of_bool 2 (map (bit (uint sr)) [0..<w])"
      by (intro arg_cong [where f = "horner_sum of_bool 2"]) (auto simp: bit_simps dest: bit_imp_le_length)
    also have "\<dots> = take_bit w (uint sr)" by (rule horner_sum_bit_eq_take_bit)
    also have "\<dots> = uint (take_bit w sr)" by (rule unsigned_take_bit_eq [symmetric])
    also have "take_bit w sr = sr AND (2 ^ w - 1)"
      by (simp add: take_bit_eq_mask mask_eq_exp_minus_1)
    finally show ?thesis .
  qed
  moreover have "\<And>i. bit ?sr i \<Longrightarrow> i < a - w"
    using 4(3) by (fastforce simp: bit_drop_bit_eq)
  ultimately show ?case using 4(1) [of "a - w" c ?sr] 4(2) by simp
qed

subsection \<open>What the formats carry\<close>

lemma lsb_fields_put_bits:
  "lsb_fields (map fst ps) (put_bits ps) = map (\<lambda>(w, v). take_bit w v) ps"
  by (induction ps) (auto simp: put_bits_def horner_sum_bit_eq_take_bit)

lemma wav49_pack_legal: "pack_legal 0 0 (wav49_pack_program s t)"
  by (simp add: wav49_pack_program_def wav49_first_sub_def wav49_second_sub_def upt_rec)

lemma wav49_unpack_legal: "unpack_legal 0 65 wav49_unpack_program"
  by code_simp

lemma wav49_puts:
  "puts (wav49_pack_program s t) = zip (frame_widths @ frame_widths) (frame_fields s @ frame_fields t)"
  by (simp add: wav49_pack_program_def wav49_first_sub_def wav49_second_sub_def upt_rec
      frame_widths_def frame_fields_def numeral_eq_Suc)

lemma wav49_field_widths: "field_widths wav49_unpack_program = frame_widths @ frame_widths"
  by code_simp

lemma take_bits_fit:
  "list_all2 (\<lambda>w v. 0 \<le> v \<and> v < 2 ^ w) ws vs \<Longrightarrow> map (\<lambda>(w, v). take_bit w v) (zip ws vs) = vs"
  for vs :: "int list"
  by (induction rule: list_all2_induct) (auto simp: take_bit_int_eq_self)

lemma frame_widths_length [simp]: "length frame_widths = 76"
  by code_simp

lemma wav49_length: "length (gsm0610_pack_wav49 s t) = 65"
proof -
  have l: "length (lsb_bits c) = 8 * length c" for c
    by (induction c) (simp_all add: lsb_bits_def)
  have p: "length (put_bits ps) = sum_list (map fst ps)" for ps
    by (induction ps) (auto simp: put_bits_def)
  have "lsb_bits (gsm0610_pack_wav49 s t) = put_bits (puts (wav49_pack_program s t))"
    using pack_steps_bits [of "[]" 0 "wav49_pack_program s t" 0] wav49_pack_legal [of s t]
    by (simp add: gsm0610_pack_wav49_def holds_last_def)
  then have "8 * length (gsm0610_pack_wav49 s t) = sum_list (map fst (puts (wav49_pack_program s t)))"
    by (metis l p)
  also have "map fst (puts (wav49_pack_program s t)) = frame_widths @ frame_widths"
    by (simp add: wav49_puts)
  also have "sum_list (frame_widths @ frame_widths) = 520" by code_simp
  finally show ?thesis by simp
qed

lemma wav49_round_trip:
  assumes "frame_fits s" and "frame_fits t"
  shows "gsm0610_unpack_wav49 (gsm0610_pack_wav49 s t) = Some (s, t)"
proof -
  let ?ps = "wav49_pack_program s t"
  have bits: "lsb_bits (gsm0610_pack_wav49 s t) = put_bits (puts ?ps)"
    using pack_steps_bits [of "[]" 0 ?ps 0] wav49_pack_legal [of s t]
    by (simp add: gsm0610_pack_wav49_def holds_last_def)
  have "unpack_steps wav49_unpack_program 0 (gsm0610_pack_wav49 s t)
      = Some (lsb_fields (map fst (puts ?ps)) (put_bits (puts ?ps)))"
    using unpack_steps_fields [of 0 "gsm0610_pack_wav49 s t" wav49_unpack_program 0]
      wav49_unpack_legal wav49_length [of s t]
    by (simp add: bits wav49_field_widths wav49_puts)
  also have "lsb_fields (map fst (puts ?ps)) (put_bits (puts ?ps)) = map (\<lambda>(w, v). take_bit w v) (puts ?ps)"
    by (rule lsb_fields_put_bits)
  also have "\<dots> = frame_fields s @ frame_fields t"
    unfolding wav49_puts using assms by (intro take_bits_fit list_all2_appendI) (auto simp: frame_fits_def)
  finally show ?thesis
    using assms by (simp add: gsm0610_unpack_wav49_def frame_of_frame_fields frame_fits_def)
qed

lemma pack_none_fields: "gsm0610_pack_none s = map word_of_int (frame_fields s)"
  by (simp add: gsm0610_pack_none_def frame_fields_def map_concat comp_def)

lemma unpack_none_fields: "length c = 76 \<Longrightarrow> gsm0610_unpack_none c = Some (frame_of_fields (map uint c))"
proof -
  assume len: "length c = 76"
  then have "take 8 (map uint c) = map (\<lambda>j. uint (c ! j)) [0..<8]"
    by (intro nth_equalityI) auto
  then show ?thesis using len by (simp add: gsm0610_unpack_none_def frame_of_fields_def upt_rec)
qed

lemma frame_widths_small: "i < 76 \<Longrightarrow> frame_widths ! i \<le> 7"
proof -
  have "list_all (\<lambda>w. w \<le> 7) frame_widths" by code_simp
  then show "i < 76 \<Longrightarrow> frame_widths ! i \<le> 7" by (simp add: list_all_length)
qed

lemma none_round_trip:
  assumes "frame_fits s"
  shows "gsm0610_unpack_none (gsm0610_pack_none s) = Some s"
proof -
  have "map uint (map word_of_int (frame_fields s) :: u8 list) = frame_fields s"
  proof (rule nth_equalityI)
    fix i assume "i < length (map uint (map word_of_int (frame_fields s) :: u8 list))"
    then have i: "i < 76" by simp
    have "(2::int) ^ (frame_widths ! i) \<le> 2 ^ 7"
      using frame_widths_small [OF i] by (rule power_increasing) simp
    then have "0 \<le> frame_fields s ! i \<and> frame_fields s ! i < 256"
      using frame_field_fits [OF assms i] by simp
    then show "map uint (map word_of_int (frame_fields s) :: u8 list) ! i = frame_fields s ! i"
      using i by (simp add: uint_word_of_int_eq take_bit_int_eq_self)
  qed simp
  then show ?thesis
    using assms by (simp add: pack_none_fields unpack_none_fields frame_of_frame_fields frame_fits_def)
qed

subsection \<open>VoIP round trip\<close>

lemma larc_fits:
  assumes "frame_fits s"
  shows "0 \<le> f_LARc s ! 0 \<and> f_LARc s ! 0 < 2 ^ 6" "0 \<le> f_LARc s ! 1 \<and> f_LARc s ! 1 < 2 ^ 6"
    "0 \<le> f_LARc s ! 2 \<and> f_LARc s ! 2 < 2 ^ 5" "0 \<le> f_LARc s ! 3 \<and> f_LARc s ! 3 < 2 ^ 5"
    "0 \<le> f_LARc s ! 4 \<and> f_LARc s ! 4 < 2 ^ 4" "0 \<le> f_LARc s ! 5 \<and> f_LARc s ! 5 < 2 ^ 4"
    "0 \<le> f_LARc s ! 6 \<and> f_LARc s ! 6 < 2 ^ 3" "0 \<le> f_LARc s ! 7 \<and> f_LARc s ! 7 < 2 ^ 3"
  using frame_field_fits [OF assms, of 0] frame_field_fits [OF assms, of 1]
    frame_field_fits [OF assms, of 2] frame_field_fits [OF assms, of 3]
    frame_field_fits [OF assms, of 4] frame_field_fits [OF assms, of 5]
    frame_field_fits [OF assms, of 6] frame_field_fits [OF assms, of 7]
  by (simp_all add: frame_widths_def frame_fields_def nth_append numeral_2_eq_2)

lemma sub_field_index:
  assumes "i < 4"
  shows "frame_fields s ! (8 + 17 * i) = f_Nc s ! i" "frame_fields s ! (9 + 17 * i) = f_bc s ! i"
    "frame_fields s ! (10 + 17 * i) = f_Mc s ! i" "frame_fields s ! (11 + 17 * i) = f_xmaxc s ! i"
    "k < 13 \<Longrightarrow> frame_fields s ! (12 + 17 * i + k) = f_xMc s ! i ! k"
    "frame_widths ! (8 + 17 * i) = 7" "frame_widths ! (9 + 17 * i) = 2" "frame_widths ! (10 + 17 * i) = 2"
    "frame_widths ! (11 + 17 * i) = 6" "k < 13 \<Longrightarrow> frame_widths ! (12 + 17 * i + k) = 3"
proof -
  define g where "g j = [f_Nc s ! j, f_bc s ! j, f_Mc s ! j, f_xmaxc s ! j] @
                        map (\<lambda>k. f_xMc s ! j ! k) [0..<13]" for j
  define w :: "nat \<Rightarrow> nat list" where "w j = [7, 2, 2, 6] @ replicate 13 3" for j
  have len: "length (g j) = 17" "length (w j) = 17" for j by (simp_all add: g_def w_def)
  have f: "frame_fields s ! (8 + (17 * i + k)) = g i ! k" if "k < 17" for k
  proof -
    have "frame_fields s = map (\<lambda>j. f_LARc s ! j) [0..<8] @ concat (map g [0..<4])"
      unfolding frame_fields_def g_def ..
    then show ?thesis
      using nth_concat_blocks [of g 17 i 4 k] len(1) assms that by (simp add: nth_append)
  qed
  have fw: "frame_widths ! (8 + (17 * i + k)) = w i ! k" if "k < 17" for k
  proof -
    have "concat (replicate 4 ([7, 2, 2, 6] @ replicate 13 3)) = concat (map w [0..<4])"
      unfolding w_def map_replicate_const by simp
    then have "frame_widths = [6, 6, 5, 5, 4, 4, 3, 3] @ concat (map w [0..<4])"
      unfolding frame_widths_def by (rule arg_cong)
    moreover define h :: "nat list" where "h = [6, 6, 5, 5, 4, 4, 3, 3]"
    ultimately have fw: "frame_widths = h @ concat (map w [0..<4])" and "length h = 8" by simp_all
    then show ?thesis
      unfolding fw using nth_concat_blocks [of w 17 i 4 k] len(2) assms that by (simp add: nth_append)
  qed
  show "frame_fields s ! (8 + 17 * i) = f_Nc s ! i" "frame_fields s ! (9 + 17 * i) = f_bc s ! i"
    "frame_fields s ! (10 + 17 * i) = f_Mc s ! i" "frame_fields s ! (11 + 17 * i) = f_xmaxc s ! i"
    using f [of 0] f [of 1] f [of 2] f [of 3] by (simp_all add: g_def)
  show "k < 13 \<Longrightarrow> frame_fields s ! (12 + 17 * i + k) = f_xMc s ! i ! k"
    using f [of "4 + k"] by (simp add: g_def add_ac)
  show "frame_widths ! (8 + 17 * i) = 7" "frame_widths ! (9 + 17 * i) = 2" "frame_widths ! (10 + 17 * i) = 2"
    "frame_widths ! (11 + 17 * i) = 6"
    using fw [of 0] fw [of 1] fw [of 2] fw [of 3] by (simp_all add: w_def)
  show "k < 13 \<Longrightarrow> frame_widths ! (12 + 17 * i + k) = 3"
    using fw [of "4 + k"] by (simp add: w_def add_ac)
qed

lemma sub_fits:
  assumes "frame_fits s" and "i < 4"
  shows "0 \<le> f_Nc s ! i \<and> f_Nc s ! i < 2 ^ 7" "0 \<le> f_bc s ! i \<and> f_bc s ! i < 2 ^ 2"
    "0 \<le> f_Mc s ! i \<and> f_Mc s ! i < 2 ^ 2" "0 \<le> f_xmaxc s ! i \<and> f_xmaxc s ! i < 2 ^ 6"
    "k < 13 \<Longrightarrow> 0 \<le> f_xMc s ! i ! k \<and> f_xMc s ! i ! k < 2 ^ 3"
  using assms(2) frame_field_fits [OF assms(1), of "8 + 17 * i"] frame_field_fits [OF assms(1), of "9 + 17 * i"]
    frame_field_fits [OF assms(1), of "10 + 17 * i"] frame_field_fits [OF assms(1), of "11 + 17 * i"]
    frame_field_fits [OF assms(1), of "12 + 17 * i + k"]
  by (simp_all add: sub_field_index)

definition byte :: "int \<Rightarrow> int" where
  "byte e = uint (word_of_int e :: u8)"

lemma voip_LARc_bytes:
  assumes "0 \<le> l0 \<and> l0 < 2 ^ 6" "0 \<le> l1 \<and> l1 < 2 ^ 6" "0 \<le> l2 \<and> l2 < 2 ^ 5" "0 \<le> l3 \<and> l3 < 2 ^ 5"
    "0 \<le> l4 \<and> l4 < 2 ^ 4" "0 \<le> l5 \<and> l5 < 2 ^ 4" "0 \<le> l6 \<and> l6 < 2 ^ 3" "0 \<le> l7 \<and> l7 < 2 ^ 3"
  shows "voip_LARc (byte (shl (13 AND 15) 4 OR (asr l0 2 AND 15)))
           (byte (shl (l0 AND 3) 6 OR (l1 AND 63)))
           (byte (shl (l2 AND 31) 3 OR (asr l3 2 AND 7)))
           (byte (shl (l3 AND 3) 6 OR shl (l4 AND 15) 2 OR (asr l5 2 AND 3)))
           (byte (shl (l5 AND 3) 6 OR shl (l6 AND 7) 3 OR (l7 AND 7))) = [l0, l1, l2, l3, l4, l5, l6, l7]"
  unfolding voip_LARc_def list.inject byte_def
  apply (intro conjI TrueI)
  subgoal by (rule small_eqI [of _ 6]) (use assms in \<open>auto simp: bit_fields upt_rec\<close>)
  subgoal by (rule small_eqI [of _ 6]) (use assms in \<open>auto simp: bit_fields upt_rec\<close>)
  subgoal by (rule small_eqI [of _ 5]) (use assms in \<open>auto simp: bit_fields upt_rec\<close>)
  subgoal by (rule small_eqI [of _ 5]) (use assms in \<open>auto simp: bit_fields upt_rec\<close>)
  subgoal by (rule small_eqI [of _ 4]) (use assms in \<open>auto simp: bit_fields upt_rec\<close>)
  subgoal by (rule small_eqI [of _ 4]) (use assms in \<open>auto simp: bit_fields upt_rec\<close>)
  subgoal by (rule small_eqI [of _ 3]) (use assms in \<open>auto simp: bit_fields upt_rec\<close>)
  subgoal by (rule small_eqI [of _ 3]) (use assms in \<open>auto simp: bit_fields upt_rec\<close>)
  subgoal by (rule refl)
  done

lemma voip_sub_bytes:
  assumes "0 \<le> nc \<and> nc < 2 ^ 7" "0 \<le> bc \<and> bc < 2 ^ 2" "0 \<le> mc \<and> mc < 2 ^ 2" "0 \<le> xm \<and> xm < 2 ^ 6"
  shows "asr (byte (shl (nc AND 127) 1 OR (asr bc 1 AND 1))) 1 AND 127 = nc"
    "shl (byte (shl (nc AND 127) 1 OR (asr bc 1 AND 1)) AND 1) 1 OR
       (asr (byte (shl (bc AND 1) 7 OR shl (mc AND 3) 5 OR (asr xm 1 AND 31))) 7 AND 1) = bc"
    "asr (byte (shl (bc AND 1) 7 OR shl (mc AND 3) 5 OR (asr xm 1 AND 31))) 5 AND 3 = mc"
    "shl (byte (shl (bc AND 1) 7 OR shl (mc AND 3) 5 OR (asr xm 1 AND 31)) AND 31) 1 OR
       (asr (byte (shl (xm AND 1) 7 OR shl (a AND 7) 4 OR shl (b AND 7) 1 OR (asr c 2 AND 1))) 7 AND 1) = xm"
  unfolding byte_def
  subgoal by (rule small_eqI [of _ 7]) (use assms in \<open>auto simp: bit_fields upt_rec\<close>)
  subgoal by (rule small_eqI [of _ 2]) (use assms in \<open>auto simp: bit_fields upt_rec\<close>)
  subgoal by (rule small_eqI [of _ 2]) (use assms in \<open>auto simp: bit_fields upt_rec\<close>)
  subgoal by (rule small_eqI [of _ 6]) (use assms in \<open>auto simp: bit_fields upt_rec\<close>)
  done

lemma voip_xMc_bytes:
  assumes "0 \<le> x0 \<and> x0 < 2 ^ 3" "0 \<le> x1 \<and> x1 < 2 ^ 3" "0 \<le> x2 \<and> x2 < 2 ^ 3" "0 \<le> x3 \<and> x3 < 2 ^ 3"
    "0 \<le> x4 \<and> x4 < 2 ^ 3" "0 \<le> x5 \<and> x5 < 2 ^ 3" "0 \<le> x6 \<and> x6 < 2 ^ 3" "0 \<le> x7 \<and> x7 < 2 ^ 3"
    "0 \<le> x8 \<and> x8 < 2 ^ 3" "0 \<le> x9 \<and> x9 < 2 ^ 3" "0 \<le> xa \<and> xa < 2 ^ 3" "0 \<le> xb \<and> xb < 2 ^ 3"
    "0 \<le> xc \<and> xc < 2 ^ 3"
  shows "voip_xMc
    (byte (shl (xm AND 1) 7 OR shl (x0 AND 7) 4 OR shl (x1 AND 7) 1 OR (asr x2 2 AND 1)))
    (byte (shl (x2 AND 3) 6 OR shl (x3 AND 7) 3 OR (x4 AND 7)))
    (byte (shl (x5 AND 7) 5 OR shl (x6 AND 7) 2 OR (asr x7 1 AND 3)))
    (byte (shl (x7 AND 1) 7 OR shl (x8 AND 7) 4 OR shl (x9 AND 7) 1 OR (asr xa 2 AND 1)))
    (byte (shl (xa AND 3) 6 OR shl (xb AND 7) 3 OR (xc AND 7)))
    = [x0, x1, x2, x3, x4, x5, x6, x7, x8, x9, xa, xb, xc]"
  unfolding voip_xMc_def list.inject byte_def
  apply (intro conjI)
  subgoal by (rule small_eqI [of _ 3]) (use assms(1) in \<open>auto simp: bit_fields upt_rec\<close>)
  subgoal by (rule small_eqI [of _ 3]) (use assms(2) in \<open>auto simp: bit_fields upt_rec\<close>)
  subgoal by (rule small_eqI [of _ 3]) (use assms(3) in \<open>auto simp: bit_fields upt_rec\<close>)
  subgoal by (rule small_eqI [of _ 3]) (use assms(4) in \<open>auto simp: bit_fields upt_rec\<close>)
  subgoal by (rule small_eqI [of _ 3]) (use assms(5) in \<open>auto simp: bit_fields upt_rec\<close>)
  subgoal by (rule small_eqI [of _ 3]) (use assms(6) in \<open>auto simp: bit_fields upt_rec\<close>)
  subgoal by (rule small_eqI [of _ 3]) (use assms(7) in \<open>auto simp: bit_fields upt_rec\<close>)
  subgoal by (rule small_eqI [of _ 3]) (use assms(8) in \<open>auto simp: bit_fields upt_rec\<close>)
  subgoal by (rule small_eqI [of _ 3]) (use assms(9) in \<open>auto simp: bit_fields upt_rec\<close>)
  subgoal by (rule small_eqI [of _ 3]) (use assms(10) in \<open>auto simp: bit_fields upt_rec\<close>)
  subgoal by (rule small_eqI [of _ 3]) (use assms(11) in \<open>auto simp: bit_fields upt_rec\<close>)
  subgoal by (rule small_eqI [of _ 3]) (use assms(12) in \<open>auto simp: bit_fields upt_rec\<close>)
  subgoal by (rule small_eqI [of _ 3]) (use assms(13) in \<open>auto simp: bit_fields upt_rec\<close>)
  subgoal by (rule refl)
  done

lemma voip_bytes:
  "map uint (gsm0610_pack_voip s) =
     (let l = f_LARc s in
      [byte (shl (13 AND 15) 4 OR (asr (l ! 0) 2 AND 15)),
       byte (shl (l ! 0 AND 3) 6 OR (l ! 1 AND 63)),
       byte (shl (l ! 2 AND 31) 3 OR (asr (l ! 3) 2 AND 7)),
       byte (shl (l ! 3 AND 3) 6 OR shl (l ! 4 AND 15) 2 OR (asr (l ! 5) 2 AND 3)),
       byte (shl (l ! 5 AND 3) 6 OR shl (l ! 6 AND 7) 3 OR (l ! 7 AND 7))]) @
     concat (map (\<lambda>i. map uint (voip_sub s i)) [0..<4])"
  by (simp add: gsm0610_pack_voip_def voip_header_def byte_def map_concat comp_def Let_def)

lemma voip_sub_length [simp]: "length (voip_sub s i) = 7"
  by (simp add: voip_sub_def Let_def)

lemma voip_length [simp]: "length (gsm0610_pack_voip s) = 33"
  using length_concat_blocks [of "voip_sub s" 7 4] by (simp add: gsm0610_pack_voip_def voip_header_def Let_def)

lemma voip_byte:
  assumes "i < 4" and "k < 7"
  shows "map uint (gsm0610_pack_voip s) ! (5 + 7 * i + k) = uint (voip_sub s i ! k)"
proof -
  have "map uint (gsm0610_pack_voip s) = map uint (voip_header s) @ concat (map (\<lambda>i. map uint (voip_sub s i)) [0..<4])"
    by (simp add: gsm0610_pack_voip_def map_concat comp_def)
  moreover have "length (map uint (voip_header s)) = 5" by (simp add: voip_header_def Let_def)
  moreover have "5 + 7 * i + k = 5 + (7 * i + k)" by simp
  ultimately have "map uint (gsm0610_pack_voip s) ! (5 + 7 * i + k)
      = concat (map (\<lambda>i. map uint (voip_sub s i)) [0..<4]) ! (7 * i + k)"
    by (metis nth_append_length_plus)
  also have "\<dots> = uint (voip_sub s i ! k)"
    using nth_concat_blocks [of "\<lambda>i. map uint (voip_sub s i)" 7 i 4 k] assms by simp
  finally show ?thesis .
qed

lemma list8: "length l = 8 \<Longrightarrow> [l ! 0, l ! 1, l ! 2, l ! 3, l ! 4, l ! 5, l ! 6, l ! 7] = l"
  by (auto simp: numeral_eq_Suc length_Suc_conv)

lemma list13: "length l = 13 \<Longrightarrow> [l ! 0, l ! 1, l ! 2, l ! 3, l ! 4, l ! 5, l ! 6, l ! 7, l ! 8,
    l ! 9, l ! 10, l ! 11, l ! 12] = l"
  by (auto simp: numeral_eq_Suc length_Suc_conv)

lemma voip_round_trip:
  assumes fits: "frame_fits s"
  shows "gsm0610_unpack_voip (gsm0610_pack_voip s) = Some s"
proof -
  let ?c = "map uint (gsm0610_pack_voip s)"
  have shape: "frame_shaped s" using fits by (simp add: frame_fits_def)
  have l: "voip_LARc (?c ! 0) (?c ! 1) (?c ! 2) (?c ! 3) (?c ! 4) = f_LARc s"
    using voip_LARc_bytes [OF larc_fits [OF fits]] list8 [of "f_LARc s"] shape
    by (simp add: voip_bytes Let_def frame_shaped_def)
  define B where "B i k = ?c ! (5 + 7 * i + k)" for i k
  have sub: "asr (B i 0) 1 AND 127 = f_Nc s ! i"
     "shl (B i 0 AND 1) 1 OR (asr (B i 1) 7 AND 1) = f_bc s ! i"
     "asr (B i 1) 5 AND 3 = f_Mc s ! i"
     "shl (B i 1 AND 31) 1 OR (asr (B i 2) 7 AND 1) = f_xmaxc s ! i"
     "voip_xMc (B i 2) (B i 3) (B i 4) (B i 5) (B i 6) = f_xMc s ! i"
    if i: "i < 4" for i
  proof -
    let ?x = "f_xMc s ! i"
    have Bb: "B i 0 = byte (shl (f_Nc s ! i AND 127) 1 OR (asr (f_bc s ! i) 1 AND 1))"
      "B i 1 = byte (shl (f_bc s ! i AND 1) 7 OR shl (f_Mc s ! i AND 3) 5 OR (asr (f_xmaxc s ! i) 1 AND 31))"
      "B i 2 = byte (shl (f_xmaxc s ! i AND 1) 7 OR shl (?x ! 0 AND 7) 4 OR shl (?x ! 1 AND 7) 1 OR (asr (?x ! 2) 2 AND 1))"
      "B i 3 = byte (shl (?x ! 2 AND 3) 6 OR shl (?x ! 3 AND 7) 3 OR (?x ! 4 AND 7))"
      "B i 4 = byte (shl (?x ! 5 AND 7) 5 OR shl (?x ! 6 AND 7) 2 OR (asr (?x ! 7) 1 AND 3))"
      "B i 5 = byte (shl (?x ! 7 AND 1) 7 OR shl (?x ! 8 AND 7) 4 OR shl (?x ! 9 AND 7) 1 OR (asr (?x ! 10) 2 AND 1))"
      "B i 6 = byte (shl (?x ! 10 AND 3) 6 OR shl (?x ! 11 AND 7) 3 OR (?x ! 12 AND 7))"
      unfolding B_def byte_def by (subst voip_byte [OF i], simp, simp add: voip_sub_def Let_def)+
    note b = voip_sub_bytes [OF sub_fits(1-4) [OF fits i]]
    show "asr (B i 0) 1 AND 127 = f_Nc s ! i"
     "shl (B i 0 AND 1) 1 OR (asr (B i 1) 7 AND 1) = f_bc s ! i"
     "asr (B i 1) 5 AND 3 = f_Mc s ! i"
     "shl (B i 1 AND 31) 1 OR (asr (B i 2) 7 AND 1) = f_xmaxc s ! i"
      unfolding Bb by (rule b)+
    have x: "length ?x = 13" using shape i by (simp add: frame_shaped_def)
    show "voip_xMc (B i 2) (B i 3) (B i 4) (B i 5) (B i 6) = ?x"
      unfolding Bb by (subst voip_xMc_bytes) (simp_all add: sub_fits(5) [OF fits i, simplified] list13 [OF x, simplified])
  qed
  have len: "length (f_Nc s) = 4" "length (f_bc s) = 4" "length (f_Mc s) = 4" "length (f_xmaxc s) = 4"
      "length (f_xMc s) = 4"
    using shape by (simp_all add: frame_shaped_def)
  have "map (\<lambda>i. asr (B i 0) 1 AND 127) [0..<4] = f_Nc s"
      "map (\<lambda>i. shl (B i 0 AND 1) 1 OR (asr (B i 1) 7 AND 1)) [0..<4] = f_bc s"
      "map (\<lambda>i. asr (B i 1) 5 AND 3) [0..<4] = f_Mc s"
      "map (\<lambda>i. shl (B i 1 AND 31) 1 OR (asr (B i 2) 7 AND 1)) [0..<4] = f_xmaxc s"
      "map (\<lambda>i. voip_xMc (B i 2) (B i 3) (B i 4) (B i 5) (B i 6)) [0..<4] = f_xMc s"
    using sub by (intro map_upt_eqI; simp add: len)+
  then show ?thesis
    unfolding gsm0610_unpack_voip_def Let_def l voip_length B_def [symmetric] by simp
qed

subsection \<open>A frame format\<close>

text \<open>
  The contract the codec relies on: a format writes a fixed number of bytes for a group of
  frames and reads back a group whose fields fit.
\<close>

locale frame_format =
  fixes pack :: "gsm0610_frame list \<Rightarrow> u8 list" and unpack :: "u8 list \<Rightarrow> gsm0610_frame list option"
    and group bytes :: nat
  assumes positive: "0 < group" "0 < bytes"
    and pack_length: "length fs = group \<Longrightarrow> length (pack fs) = bytes"
    and unpack_prefix: "length c = bytes \<Longrightarrow> unpack (c @ rest) = unpack c"
    and unpack_pack: "length fs = group \<Longrightarrow> \<forall>f \<in> set fs. frame_fits f \<Longrightarrow> unpack (pack fs) = Some fs"
begin

text \<open>A stream of groups, and its reading group by group.\<close>

definition pack_stream :: "gsm0610_frame list list \<Rightarrow> u8 list" where
  "pack_stream gs = concat (map pack gs)"

fun unpack_stream :: "nat \<Rightarrow> u8 list \<Rightarrow> gsm0610_frame list list option" where
  "unpack_stream 0 c = Some []"
| "unpack_stream (Suc n) c =
     do { g \<leftarrow> unpack c; gs \<leftarrow> unpack_stream n (drop bytes c); Some (g # gs) }"

lemma unpack_pack_rest:
  "length fs = group \<Longrightarrow> \<forall>f \<in> set fs. frame_fits f \<Longrightarrow>
     unpack (pack fs @ rest) = Some fs \<and> drop bytes (pack fs @ rest) = rest"
  by (simp add: unpack_prefix pack_length unpack_pack)

lemma stream_round_trip:
  "\<forall>g \<in> set gs. length g = group \<and> (\<forall>f \<in> set g. frame_fits f) \<Longrightarrow>
     unpack_stream (length gs) (pack_stream gs) = Some gs"
proof (induction gs)
  case (Cons g gs)
  then have "unpack (pack g @ pack_stream gs) = Some g \<and> drop bytes (pack g @ pack_stream gs) = pack_stream gs"
    by (intro unpack_pack_rest) auto
  moreover have "pack_stream (g # gs) = pack g @ pack_stream gs" by (simp add: pack_stream_def)
  ultimately show ?case using Cons by (simp del: drop_append)
qed (simp add: pack_stream_def)

end

text \<open>The three formats on groups of one and of two frames.\<close>

definition none_pack :: "gsm0610_frame list \<Rightarrow> u8 list" where
  "none_pack fs = gsm0610_pack_none (fs ! 0)"

definition none_unpack :: "u8 list \<Rightarrow> gsm0610_frame list option" where
  "none_unpack c = do { f \<leftarrow> gsm0610_unpack_none c; Some [f] }"

definition voip_pack :: "gsm0610_frame list \<Rightarrow> u8 list" where
  "voip_pack fs = gsm0610_pack_voip (fs ! 0)"

definition voip_unpack :: "u8 list \<Rightarrow> gsm0610_frame list option" where
  "voip_unpack c = do { f \<leftarrow> gsm0610_unpack_voip c; Some [f] }"

definition wav49_pack :: "gsm0610_frame list \<Rightarrow> u8 list" where
  "wav49_pack fs = gsm0610_pack_wav49 (fs ! 0) (fs ! 1)"

definition wav49_unpack :: "u8 list \<Rightarrow> gsm0610_frame list option" where
  "wav49_unpack c = do { (f, g) \<leftarrow> gsm0610_unpack_wav49 c; Some [f, g] }"

lemma unpack_steps_prefix:
  "unpack_legal a (length c) us \<Longrightarrow> unpack_steps us sr (c @ rest) = unpack_steps us sr c"
  by (induction us arbitrary: a sr c rule: field_widths.induct) (auto split: list.splits)

lemma single: "length fs = 1 \<Longrightarrow> fs = [fs ! 0]"
  by (cases fs) auto

lemma pair: "length fs = 2 \<Longrightarrow> fs = [fs ! 0, fs ! 1]"
  by (auto simp: numeral_2_eq_2 length_Suc_conv)

lemma pack_none_length [simp]: "length (gsm0610_pack_none s) = 76"
  by (simp add: pack_none_fields)

lemma unpack_none_prefix: "length c = 76 \<Longrightarrow> gsm0610_unpack_none (c @ rest) = gsm0610_unpack_none c"
  by (auto simp: gsm0610_unpack_none_def nth_append upt_rec)

lemma unpack_voip_prefix: "length c = 33 \<Longrightarrow> gsm0610_unpack_voip (c @ rest) = gsm0610_unpack_voip c"
  by (auto simp: gsm0610_unpack_voip_def Let_def nth_append upt_rec)

interpretation none_format: frame_format none_pack none_unpack 1 76
proof unfold_locales
  fix fs :: "gsm0610_frame list" assume "length fs = 1" "\<forall>f \<in> set fs. frame_fits f"
  then have "fs = [fs ! 0]" "frame_fits (fs ! 0)" using single by auto
  then show "none_unpack (none_pack fs) = Some fs"
    by (simp add: none_unpack_def none_pack_def none_round_trip)
qed (simp_all add: none_pack_def none_unpack_def unpack_none_prefix)

interpretation voip_format: frame_format voip_pack voip_unpack 1 33
proof unfold_locales
  fix fs :: "gsm0610_frame list" assume "length fs = 1" "\<forall>f \<in> set fs. frame_fits f"
  then have "fs = [fs ! 0]" "frame_fits (fs ! 0)" using single by auto
  then show "voip_unpack (voip_pack fs) = Some fs"
    by (simp add: voip_unpack_def voip_pack_def voip_round_trip)
qed (simp_all add: voip_pack_def voip_unpack_def unpack_voip_prefix)

interpretation wav49_format: frame_format wav49_pack wav49_unpack 2 65
proof unfold_locales
  fix fs :: "gsm0610_frame list" assume "length fs = 2" "\<forall>f \<in> set fs. frame_fits f"
  then have fs: "fs = [fs ! 0, fs ! 1]" and "frame_fits (fs ! 0)" "frame_fits (fs ! 1)"
    using pair by auto
  then have "wav49_unpack (wav49_pack fs) = Some [fs ! 0, fs ! 1]"
    by (simp add: wav49_unpack_def wav49_pack_def wav49_round_trip)
  then show "wav49_unpack (wav49_pack fs) = Some fs" using fs by simp
next
  fix c rest :: "u8 list" assume "length c = 65"
  then show "wav49_unpack (c @ rest) = wav49_unpack c"
    using unpack_steps_prefix [of 0 c wav49_unpack_program 0 rest] wav49_unpack_legal
    by (simp add: wav49_unpack_def gsm0610_unpack_wav49_def)
qed (simp_all add: wav49_pack_def wav49_length)

subsection \<open>Properties\<close>

text \<open>
  C20. The three byte formats carry every frame whose fields fit their widths: the one byte a
  field format in 76 bytes, the VoIP format in 33 and, for two frames, the WAV49 format in 65
  bytes written through a 16 bit shift register; reading back gives the same fields.
\<close>

theorem gsm0610_formats_round_trip:
  assumes "frame_fits s" and "frame_fits t"
  shows "gsm0610_unpack_none (gsm0610_pack_none s) = Some s \<and> length (gsm0610_pack_none s) = 76 \<and>
    gsm0610_unpack_voip (gsm0610_pack_voip s) = Some s \<and> length (gsm0610_pack_voip s) = 33 \<and>
    gsm0610_unpack_wav49 (gsm0610_pack_wav49 s t) = Some (s, t) \<and> length (gsm0610_pack_wav49 s t) = 65"
  using none_round_trip [OF assms(1)] voip_round_trip [OF assms(1)] wav49_round_trip [OF assms]
    wav49_length [of s t] by simp_all

definition sample_frame :: gsm0610_frame where
  "sample_frame = frame_of_fields
     ([40, 33, 20, 9, 11, 6, 4, 5] @
      [44, 2, 1, 37, 0, 1, 2, 3, 4, 5, 6, 7, 6, 5, 4, 3, 2] @ [120, 0, 3, 63, 7, 7, 0, 0, 1, 1, 2, 2, 3, 3, 4, 4, 5] @
      [40, 3, 0, 0, 0, 0, 0, 0, 0, 0, 0, 0, 0, 0, 0, 0, 1] @ [99, 1, 2, 15, 7, 7, 7, 7, 7, 7, 7, 7, 7, 7, 7, 7, 7])"

lemma sample_frame_fits: "frame_fits sample_frame"
  by code_simp

theorem gsm0610_formats_round_trip_witness:
  "gsm0610_unpack_wav49 (gsm0610_pack_wav49 sample_frame sample_frame) = Some (sample_frame, sample_frame) \<and>
   gsm0610_unpack_voip (gsm0610_pack_voip sample_frame) = Some sample_frame"
  using gsm0610_formats_round_trip [OF sample_frame_fits sample_frame_fits] by simp

end
