(* ===== verification/Gsm_Lpc.thy ===== *)
theory Gsm_Lpc
  imports Gsm_Frame
begin

text \<open>
  The first half of the GSM 06.10 encoder: the state record of \<open>spandsp/private/gsm0610.h\<close>,
  the preprocessing of \<open>gsm0610_preprocess.c\<close> (its GCC branch) and the linear prediction
  analysis of \<open>gsm0610_lpc.c\<close> (its portable branch).

  A result \<open>None\<close> is a failing \<open>assert\<close> or an access outside an array. Sums the code forms in
  \<open>int32_t\<close> are integers; the bounds lemmas show that they stay inside 32 bits.
\<close>

subsection \<open>State\<close>

record gsm0610_state =
  packing :: int
  dp0_st :: "int list"
  z1 :: int
  L_z2 :: int
  mp :: int
  u_st :: "int list"
  LARpp :: "int list list"
  j_st :: nat
  nrp :: int
  v_st :: "int list"
  msr :: int
  e_st :: "int list"

definition gsm0610_init :: "int \<Rightarrow> gsm0610_state" where
  "gsm0610_init pk =
     \<lparr>packing = pk, dp0_st = replicate 280 0, z1 = 0, L_z2 = 0, mp = 0, u_st = replicate 8 0,
      LARpp = replicate 2 (replicate 8 0), j_st = 0, nrp = 40, v_st = replicate 9 0, msr = 0,
      e_st = replicate 50 0\<rparr>"

definition gsm0610_set_packing :: "gsm0610_state \<Rightarrow> int \<Rightarrow> gsm0610_state" where
  "gsm0610_set_packing s pk = s\<lparr>packing := pk\<rparr>"

subsection \<open>Preprocessing\<close>

text \<open>One turn of the loop; the state is \<open>z1\<close>, \<open>L_z2\<close> and \<open>mp\<close>.\<close>

definition pre_step :: "int \<times> int \<times> int \<Rightarrow> int \<Rightarrow> (int \<times> int \<times> int \<times> int) option" where
  "pre_step = (\<lambda>(z1, L_z2, mp) a.
     do { let SO = i16 (asr a 1 AND (- 4));
          require (SO \<ge> - 16384); require (SO \<le> 16380);
          let s1 = i16 (SO - z1);
          require (s1 \<noteq> - 32768);
          let L_s2 = shl s1 15;
          let L_z2 = i32 (asr (L_z2 * 32735 + 16384) 15);
          let L_z2 = saturated_add32 L_z2 L_s2;
          let L_temp = saturated_add32 L_z2 16384;
          let msp = gsm_mult_r mp (- 28180);
          let mp = i16 (asr L_temp 15);
          Some (saturated_add16 mp msp, SO, L_z2, mp) })"

fun pre_loop :: "int \<times> int \<times> int \<Rightarrow> int list \<Rightarrow> (int list \<times> int \<times> int \<times> int) option" where
  "pre_loop st [] = Some ([], st)"
| "pre_loop st (a # amp) =
     do { (so, st1) \<leftarrow> pre_step st a; (sos, st2) \<leftarrow> pre_loop st1 amp; Some (so # sos, st2) }"

definition gsm0610_preprocess :: "gsm0610_state \<Rightarrow> int list \<Rightarrow> (int list \<times> gsm0610_state) option" where
  "gsm0610_preprocess s amp =
     do { a \<leftarrow> mem_read amp 0 160;
          (so, z, L, m) \<leftarrow> pre_loop (z1 s, L_z2 s, mp s) a;
          Some (so, s\<lparr>z1 := z, L_z2 := L, mp := m\<rparr>) }"

subsection \<open>Normalisation and division\<close>

definition gsm0610_norm :: "int \<Rightarrow> int option" where
  "gsm0610_norm x =
     do { require (x \<noteq> 0);
          if x < 0 \<and> x \<le> -1073741824 then Some 0
          else Some (i16 (30 - top_bit (word_of_int (if x < 0 then NOT x else x)))) }"

fun gsm_div_loop :: "nat \<Rightarrow> int \<Rightarrow> int \<Rightarrow> int \<Rightarrow> int" where
  "gsm_div_loop 0 num32 denom32 d = d"
| "gsm_div_loop (Suc k) num32 denom32 d =
     (let d = i16 (shl d 1); num32 = shl num32 1 in
      if num32 \<ge> denom32 then gsm_div_loop k (num32 - denom32) denom32 (i16 (d + 1))
      else gsm_div_loop k num32 denom32 d)"

definition gsm_div :: "int \<Rightarrow> int \<Rightarrow> int option" where
  "gsm_div num denom =
     do { require (num \<ge> 0 \<and> denom \<ge> num);
          if num = 0 then Some 0 else Some (gsm_div_loop 15 num denom 0) }"

subsection \<open>Autocorrelation\<close>

definition max_abs16 :: "int list \<Rightarrow> int" where
  "max_abs16 xs = foldl (\<lambda>m x. let t = saturated_abs16 x in if t > m then i16 t else m) 0 xs"

definition scalauto_of :: "int \<Rightarrow> int option" where
  "scalauto_of smax =
     (if smax = 0 then Some 0
      else do { require (smax > 0); n \<leftarrow> gsm0610_norm (shl smax 16); Some (i16 (4 - n)) })"

definition scale_down :: "int \<Rightarrow> int list \<Rightarrow> int list" where
  "scale_down scalauto amp =
     (if scalauto > 0 then map (\<lambda>a. gsm_mult_r a (asr 16384 (nat (scalauto - 1)))) amp else amp)"

text \<open>\<open>L_ACF[k]\<close> is the sum of \<open>sl * sp[-k]\<close> over the samples from \<open>k\<close> on, doubled.\<close>

definition acf :: "int list \<Rightarrow> int list" where
  "acf s = map (\<lambda>k. shl (dot_prod (drop k s) s) 1) [0..<9]"

definition autocorrelation :: "int list \<Rightarrow> (int list \<times> int list) option" where
  "autocorrelation amp =
     do { scalauto \<leftarrow> scalauto_of (max_abs16 amp);
          let s = scale_down scalauto amp;
          if scalauto > 0 then
            do { require (scalauto \<le> 4); Some (map (\<lambda>a. i16 (shl a (nat scalauto))) s, acf s) }
          else Some (s, acf s) }"

subsection \<open>Reflection coefficients\<close>

definition schur_step :: "int \<Rightarrow> int list \<times> int list \<Rightarrow> nat \<Rightarrow> int list \<times> int list" where
  "schur_step r = (\<lambda>(P, K) m.
     (P[m := saturated_add16 (P ! (m + 1)) (gsm_mult_r (K ! m) r)],
      K[m := saturated_add16 (K ! m) (gsm_mult_r (P ! (m + 1)) r)]))"

text \<open>The coefficient of a stage, from \<open>P[0]\<close> and \<open>P[1]\<close>.\<close>

definition schur_coefficient :: "int \<Rightarrow> int \<Rightarrow> int option" where
  "schur_coefficient p0 p1 =
     do { d \<leftarrow> gsm_div (saturated_abs16 p1) p0;
          require (d \<ge> 0);
          let r = (if p1 > 0 then i16 (- d) else d);
          require (r \<noteq> - 32768);
          Some r }"

text \<open>\<open>schur_loop k\<close> is the loop with \<open>n = 9 - k\<close>: \<open>k\<close> coefficients are still to come.\<close>

fun schur_loop :: "nat \<Rightarrow> int list \<Rightarrow> int list \<Rightarrow> int list option" where
  "schur_loop 0 P K = Some []"
| "schur_loop (Suc k) P K =
     (if P ! 0 < saturated_abs16 (P ! 1) then Some (replicate (Suc k) 0)
      else do { r \<leftarrow> schur_coefficient (P ! 0) (P ! 1);
                if k = 0 then Some [r]
                else do {
                  let P = P[0 := saturated_add16 (P ! 0) (gsm_mult_r (P ! 1) r)];
                  let (P, K) = foldl (schur_step r) (P, K) [1..<Suc k];
                  rs \<leftarrow> schur_loop k P K;
                  Some (r # rs) } })"

text \<open>\<open>K[0]\<close> and \<open>K[8]\<close> are never read.\<close>

definition reflection_coefficients :: "int list \<Rightarrow> int list option" where
  "reflection_coefficients L_ACF =
     (if L_ACF ! 0 = 0 then Some (replicate 8 0)
      else do { temp \<leftarrow> gsm0610_norm (L_ACF ! 0);
                require (temp \<ge> 0 \<and> temp < 32);
                let ACF = map (\<lambda>l. i16 (asr (shl l (nat temp)) 16)) L_ACF;
                schur_loop 8 ACF ACF })"

subsection \<open>Log area ratios\<close>

definition log_area_ratio :: "int \<Rightarrow> int option" where
  "log_area_ratio r =
     (let temp = saturated_abs16 r in
      do { require (temp \<ge> 0);
           temp \<leftarrow> (if temp < 22118 then Some (asr temp 1)
                    else if temp < 31130 then do { require (temp \<ge> 11059); Some (i16 (temp - 11059)) }
                    else do { require (temp \<ge> 26112); Some (i16 (shl (temp - 26112) 2)) });
           let r' = (if r < 0 then - temp else temp);
           require (r' \<noteq> - 32768);
           Some r' })"

fun map_option_list :: "('a \<Rightarrow> 'b option) \<Rightarrow> 'a list \<Rightarrow> 'b list option" where
  "map_option_list f [] = Some []"
| "map_option_list f (x # xs) = do { y \<leftarrow> f x; ys \<leftarrow> map_option_list f xs; Some (y # ys) }"

definition transform_to_log_area_ratios :: "int list \<Rightarrow> int list option" where
  "transform_to_log_area_ratios r = map_option_list log_area_ratio r"

definition code_lar :: "int \<times> int \<times> int \<times> int \<Rightarrow> int \<Rightarrow> int" where
  "code_lar = (\<lambda>(A, B, MAC, MIC) lar.
     (let temp = saturated_mul16 A lar;
          temp = saturated_add16 temp B;
          temp = saturated_add16 temp 256;
          temp = asr temp 9
      in i16 (if temp > MAC then MAC - MIC else if temp < MIC then 0 else temp - MIC)))"

definition lar_steps :: "(int \<times> int \<times> int \<times> int) list" where
  "lar_steps =
     [(20480, 0, 31, -32), (20480, 0, 31, -32), (20480, 2048, 15, -16), (20480, -2560, 15, -16),
      (13964, 94, 7, -8), (15360, -1792, 7, -8), (8534, -341, 3, -4), (9036, -1144, 3, -4)]"

definition quantization_and_coding :: "int list \<Rightarrow> int list" where
  "quantization_and_coding LAR = map2 code_lar lar_steps LAR"

definition gsm0610_lpc_analysis :: "int list \<Rightarrow> (int list \<times> int list) option" where
  "gsm0610_lpc_analysis amp =
     do { (amp', L_ACF) \<leftarrow> autocorrelation amp;
          r \<leftarrow> reflection_coefficients L_ACF;
          LAR \<leftarrow> transform_to_log_area_ratios r;
          Some (amp', quantization_and_coding LAR) }"

subsection \<open>The offset compensation stays inside its widths\<close>

text \<open>
  \<open>L_z2\<close> is the current sample less a weighted mean of the earlier ones, in units of
  \<open>2 ^ -15\<close>, and at most 500 units of rounding.
\<close>

definition pre_ok :: "int \<times> int \<times> int \<Rightarrow> bool" where
  "pre_ok = (\<lambda>(z, L, m). - 16384 \<le> z \<and> z \<le> 16380 \<and>
     - 536739840 - 500 \<le> L - 32768 * z \<and> L - 32768 * z \<le> 536870912 + 500 \<and> is_i16 m)"

lemma drop_two_bits: "x AND (- 4) = x - x mod 4" for x :: int
proof -
  have four: "(- 4 :: int) = NOT (mask 2)" by (simp add: mask_eq_exp_minus_1 not_int_def)
  have "x AND (- 4) = push_bit 2 (drop_bit 2 x)"
    unfolding four
    by (rule bit_eqI)
      (auto simp only: bit_and_iff bit_not_iff bit_mask_iff bit_push_bit_iff bit_drop_bit_eq comp_def
        le_add_diff_inverse not_less)
  then show ?thesis
    by (simp add: push_bit_eq_mult drop_bit_eq_div minus_mod_eq_div_mult)
qed

lemma pre_step_leak:
  fixes L z :: int
  assumes "- 536740340 \<le> L - 32768 * z" and "L - 32768 * z \<le> 536871412"
    and "- 16384 \<le> z" and "z \<le> 16380"
  shows "- 536740340 \<le> (L * 32735 + 16384) div 32768 - 32768 * z \<and>
         (L * 32735 + 16384) div 32768 - 32768 * z \<le> 536871412"
proof -
  define q where "q = (L * 32735 + 16384) div 32768"
  have "32768 * q = (L * 32735 + 16384) - (L * 32735 + 16384) mod 32768"
    unfolding q_def by (rule minus_mod_eq_mult_div [symmetric])
  moreover have "0 \<le> (L * 32735 + 16384) mod 32768" "(L * 32735 + 16384) mod 32768 < 32768"
    by simp_all
  ultimately have "32768 * q \<le> L * 32735 + 16384" "L * 32735 + 16384 < 32768 * q + 32768"
    by linarith+
  then show ?thesis unfolding q_def [symmetric] using assms by linarith
qed

lemma pre_step_ok:
  assumes ok: "pre_ok (z, L, m)" and a: "is_i16 a"
  obtains so z' L' m' where "pre_step (z, L, m) a = Some (so, z', L', m')" and "is_i16 so"
    and "pre_ok (z', L', m')" and "m' = asr (L' + 16384) 15"
proof -
  define SO where "SO = asr a 1 AND (- 4)"
  have half: "-16384 \<le> asr a 1 \<and> asr a 1 \<le> 16383"
    using a asr_bounds [of "-16384" 1 a 16383] by (simp add: is_i16_def)
  then have SO: "- 16384 \<le> SO \<and> SO \<le> 16380"
    unfolding SO_def drop_two_bits by presburger
  have z: "- 16384 \<le> z" "z \<le> 16380" and L: "- 536740340 \<le> L - 32768 * z" "L - 32768 * z \<le> 536871412"
    using ok by (simp_all add: pre_ok_def)
  define Lr where "Lr = asr (L * 32735 + 16384) 15"
  have Lr: "- 536740340 \<le> Lr - 32768 * z" "Lr - 32768 * z \<le> 536871412"
    using pre_step_leak [OF L z] by (simp_all add: Lr_def asr15)
  define L' where "L' = Lr + 32768 * (SO - z)"
  have L': "- 536740340 \<le> L' - 32768 * SO" "L' - 32768 * SO \<le> 536871412"
    using Lr unfolding L'_def by simp_all
  have s1: "i16 (SO - z) = SO - z" "SO - z \<noteq> - 32768"
    using SO z by (auto simp: is_i16_def)
  have i: "is_i32 Lr" "is_i32 (shl (SO - z) 15)" "is_i32 L'" "is_i32 (L' + 16384)"
    using Lr L' SO z by (auto simp: is_i32_def shl_def)
  have "saturated_add32 Lr (shl (SO - z) 15) = L'"
    using i(1-3) by (simp add: saturated_add32_eq clamp_def is_i32_def L'_def shl_def)
  moreover have "saturated_add32 L' 16384 = L' + 16384"
    using i(3,4) by (simp add: saturated_add32_eq clamp_def is_i32_def)
  moreover have m: "is_i16 (asr (L' + 16384) 15)"
  proof -
    have "-32768 \<le> asr (L' + 16384) 15 \<and> asr (L' + 16384) 15 \<le> 32767"
      using L' SO by (intro asr_bounds) auto
    then show ?thesis by (simp add: is_i16_def)
  qed
  ultimately have "pre_step (z, L, m) a = Some (saturated_add16 (asr (L' + 16384) 15) (gsm_mult_r m (- 28180)),
      SO, L', asr (L' + 16384) 15)"
    using SO s1 i(1) by (simp add: pre_step_def Let_def SO_def [symmetric] Lr_def [symmetric] is_i16_def
        del: One_nat_def)
  then show ?thesis using that SO L' m by (simp add: pre_ok_def)
qed

lemma pre_loop_ok:
  "pre_ok st \<Longrightarrow> \<forall>a \<in> set amp. is_i16 a \<Longrightarrow>
     \<exists>so st'. pre_loop st amp = Some (so, st') \<and> pre_ok st' \<and> length so = length amp \<and> (\<forall>v \<in> set so. is_i16 v)"
proof (induction amp arbitrary: st)
  case (Cons a amp)
  obtain z L m where st: "st = (z, L, m)" by (metis prod_cases3)
  have "is_i16 a" using Cons.prems by simp
  from Cons.prems(1) [unfolded st] this
  obtain so z' L' m' where step: "pre_step st a = Some (so, z', L', m')" and so: "is_i16 so"
    and ok: "pre_ok (z', L', m')"
    unfolding st by (rule pre_step_ok)
  have "\<forall>a \<in> set amp. is_i16 a" using Cons.prems(2) by simp
  then obtain sos st' where "pre_loop (z', L', m') amp = Some (sos, st')" "pre_ok st'"
      "length sos = length amp" "\<forall>v \<in> set sos. is_i16 v"
    using Cons.IH [OF ok] by blast
  then show ?case using step so by simp
qed simp

subsection \<open>Normalisation and division\<close>

lemma gsm0610_norm_pos:
  assumes "0 < x" and "x < 2147483648"
  obtains n where "gsm0610_norm x = Some (int n)" and "n \<le> 30" and "2 ^ 30 \<le> x * 2 ^ n" and "x * 2 ^ n < 2 ^ 31"
proof -
  obtain p where p: "2 ^ p \<le> x" "x < 2 ^ Suc p" using floor_log2_exists [OF assms(1)] by blast
  have "(2::int) ^ p < 2147483648" using p(1) assms(2) by (rule order_le_less_trans)
  then have "(2::int) ^ p < 2 ^ 31" by simp
  then have p31: "p < 31" by (rule power_less_imp_less_exp [rotated]) simp
  then have "top_bit (word_of_int x) = int p" using top_bit_of_int [OF p] by simp
  moreover have "i16 (30 - int p) = 30 - int p" using p31 by (intro i16_id) (simp add: is_i16_def)
  ultimately have "gsm0610_norm x = Some (int (30 - p))"
    using assms(1) p31 by (simp add: gsm0610_norm_def of_nat_diff)
  moreover have "2 ^ 30 = 2 ^ p * (2 :: int) ^ (30 - p)" and "2 ^ 31 = 2 ^ Suc p * (2 :: int) ^ (30 - p)"
    using p31 by (simp_all add: power_add [symmetric] Suc_diff_le del: power_Suc)
  moreover have "2 ^ p * (2 :: int) ^ (30 - p) \<le> x * 2 ^ (30 - p)" using p(1) by simp
  moreover have "x * 2 ^ (30 - p) < 2 ^ Suc p * (2 :: int) ^ (30 - p)"
    using p(2) by (intro mult_strict_right_mono) auto
  moreover have "30 - p \<le> 30" by simp
  ultimately show ?thesis using that [of "30 - p"] by metis
qed

lemma gsm_div_loop_less:
  "0 \<le> num \<Longrightarrow> num < denom \<Longrightarrow> 0 \<le> d \<Longrightarrow> d < 2 ^ j \<Longrightarrow> j + k \<le> 15 \<Longrightarrow>
     gsm_div_loop k num denom d = d * 2 ^ k + num * 2 ^ k div denom"
proof (induction k arbitrary: num d j)
  case (Suc k)
  have d2: "2 * d + 1 < 2 ^ Suc j" using Suc.prems(4) by simp
  have "(2::int) ^ Suc j \<le> 2 ^ 15" using Suc.prems(5) by (intro power_increasing) auto
  then have small: "i16 (shl d 1) = 2 * d" "i16 (2 * d + 1) = 2 * d + 1"
    using d2 Suc.prems(3) by (auto simp: shl_def is_i16_def)
  show ?case
  proof (cases "2 * num \<ge> denom")
    case True
    have "gsm_div_loop k (2 * num - denom) denom (2 * d + 1)
        = (2 * d + 1) * 2 ^ k + (2 * num - denom) * 2 ^ k div denom"
      using True Suc.prems d2 by (intro Suc.IH [of _ _ "Suc j"]) auto
    moreover have "(2 * num - denom) * 2 ^ k = 2 * num * 2 ^ k + (- (2 ^ k)) * denom"
      by (simp add: algebra_simps)
    then have "(2 * num - denom) * 2 ^ k div denom = 2 * num * 2 ^ k div denom - 2 ^ k"
      using Suc.prems(1,2) by (simp only: div_mult_self1)
    ultimately show ?thesis using True small by (simp add: shl_def algebra_simps)
  next
    case False
    have "gsm_div_loop k (2 * num) denom (2 * d) = 2 * d * 2 ^ k + 2 * num * 2 ^ k div denom"
      using False Suc.prems d2 by (intro Suc.IH [of _ _ "Suc j"]) auto
    then show ?thesis using False small by (simp add: shl_def algebra_simps)
  qed
qed simp

lemma gsm_div_loop_equal:
  "0 < denom \<Longrightarrow> 0 \<le> d \<Longrightarrow> d < 2 ^ j \<Longrightarrow> j + k \<le> 15 \<Longrightarrow>
     gsm_div_loop k denom denom d = d * 2 ^ k + (2 ^ k - 1)"
proof (induction k arbitrary: d j)
  case (Suc k)
  have d2: "2 * d + 1 < 2 ^ Suc j" using Suc.prems(3) by simp
  have "(2::int) ^ Suc j \<le> 2 ^ 15" using Suc.prems(4) by (intro power_increasing) auto
  then have small: "i16 (shl d 1) = 2 * d" "i16 (2 * d + 1) = 2 * d + 1"
    using d2 Suc.prems(2) by (auto simp: shl_def is_i16_def)
  have "gsm_div_loop k denom denom (2 * d + 1) = (2 * d + 1) * 2 ^ k + (2 ^ k - 1)"
    using Suc.prems d2 by (intro Suc.IH [of _ "Suc j"]) auto
  then show ?case using small Suc.prems(1) by (simp add: shl_def algebra_simps)
qed simp

lemma gsm_div_eq:
  assumes "0 \<le> num" and "num \<le> denom" and "0 < denom"
  shows "gsm_div num denom = Some (min 32767 (num * 32768 div denom))"
proof (cases "num = denom")
  case True
  then show ?thesis
    using assms gsm_div_loop_equal [of denom 0 0 15] by (simp add: gsm_div_def)
next
  case False
  then have "num * 32768 div denom \<le> 32767"
  proof -
    have "num * 32768 < 32768 * denom" using False assms by simp
    then have "num * 32768 div denom < 32768" by (rule div_less_int [OF assms(3)])
    then show ?thesis by simp
  qed
  then show ?thesis
    using assms False gsm_div_loop_less [of num denom 0 0 15] by (simp add: gsm_div_def)
qed

lemma gsm_div_total:
  assumes "0 \<le> num" and "num \<le> denom"
  obtains d where "gsm_div num denom = Some d" and "0 \<le> d" and "d \<le> 32767"
proof (cases "num = 0")
  case True
  then show ?thesis using assms that [of 0] by (simp add: gsm_div_def)
next
  case False
  then have "0 < denom" using assms by simp
  then show ?thesis
    using that [of "min 32767 (num * 32768 div denom)"] gsm_div_eq [OF assms] assms(1)
    by (simp add: pos_imp_zdiv_nonneg_iff)
qed

subsection \<open>Dynamic scaling\<close>

lemma saturated_abs16_range: "is_i16 x \<Longrightarrow> 0 \<le> saturated_abs16 x \<and> saturated_abs16 x \<le> 32767"
  by (simp add: saturated_abs16_eq)

lemma max_abs16_step:
  "is_i16 x \<Longrightarrow> (let t = saturated_abs16 x in if t > m then i16 t else m) = max m (saturated_abs16 x)"
  by (auto simp: Let_def)

lemma max_abs16_range:
  "\<forall>x \<in> set xs. is_i16 x \<Longrightarrow>
     0 \<le> max_abs16 xs \<and> max_abs16 xs \<le> 32767 \<and> (\<forall>x \<in> set xs. saturated_abs16 x \<le> max_abs16 xs)"
proof (induction xs rule: rev_induct)
  case (snoc x xs)
  have "max_abs16 (xs @ [x]) = max (max_abs16 xs) (saturated_abs16 x)"
    using snoc.prems max_abs16_step [of x] by (simp add: max_abs16_def)
  moreover have "\<forall>x \<in> set xs. is_i16 x" "is_i16 x" using snoc.prems by simp_all
  ultimately show ?case using snoc.IH saturated_abs16_range [of x] by fastforce
qed (simp add: max_abs16_def)

lemma scaled_sample:
  assumes "\<bar>a\<bar> \<le> 2 ^ (15 - n)" and "n \<le> 3" and "is_i16 a"
  shows "\<bar>gsm_mult_r a (asr 16384 (3 - n))\<bar> \<le> 2048"
proof -
  have f: "asr 16384 (3 - n) = 2 ^ (11 + n)"
    using assms(2) by (auto simp: asr_def le_Suc_eq numeral_3_eq_3)
  have "is_i16 (2 ^ (11 + n))" "(2::int) ^ (11 + n) \<noteq> - 32768"
    using assms(2) by (auto simp: is_i16_def le_Suc_eq numeral_3_eq_3)
  then have eq: "gsm_mult_r a (asr 16384 (3 - n)) = (a * 2 ^ (11 + n) + 16384) div 32768"
    unfolding f using assms(3) by (intro gsm_mult_r_eq) auto
  have "\<bar>a * 2 ^ (11 + n)\<bar> \<le> 2 ^ (15 - n) * 2 ^ (11 + n)"
    unfolding abs_mult using assms(1) by (intro mult_mono) auto
  also have "\<dots> = (67108864 :: int)"
    using assms(2) by (auto simp: le_Suc_eq numeral_3_eq_3)
  finally have "\<bar>a * 2 ^ (11 + n)\<bar> \<le> 67108864" .
  then have "-2048 \<le> asr (a * 2 ^ (11 + n) + 16384) 15 \<and> asr (a * 2 ^ (11 + n) + 16384) 15 \<le> 2048"
    by (intro asr_bounds) auto
  then show ?thesis unfolding eq by (simp add: asr15 abs_le_iff)
qed

lemma scaling_ok:
  assumes amp: "\<forall>x \<in> set amp. is_i16 x"
  obtains sc where "scalauto_of (max_abs16 amp) = Some sc" and "sc \<le> 4"
    and "\<forall>x \<in> set (scale_down sc amp). \<bar>x\<bar> \<le> 2048"
proof (cases "max_abs16 amp = 0")
  case True
  have "\<bar>x\<bar> \<le> 2048" if "x \<in> set amp" for x
  proof -
    have "saturated_abs16 x \<le> 0" using max_abs16_range [OF amp] that True by auto
    then show ?thesis using amp that by (auto simp: saturated_abs16_eq)
  qed
  then show ?thesis using True that [of 0] by (simp add: scalauto_of_def scale_down_def)
next
  case False
  let ?m = "max_abs16 amp"
  have m: "0 < ?m" "?m \<le> 32767" using max_abs16_range [OF amp] False by auto
  then have "0 < shl ?m 16" "shl ?m 16 < 2147483648" by (simp_all add: shl_def)
  then obtain n where n: "gsm0610_norm (shl ?m 16) = Some (int n)" "n \<le> 30"
    and hi: "shl ?m 16 * 2 ^ n < 2 ^ 31" by (rule gsm0610_norm_pos)
  have mn: "?m * 2 ^ n < 32768" using hi by (simp add: shl_def)
  have sc: "scalauto_of ?m = Some (4 - int n)"
    using m n by (simp add: scalauto_of_def is_i16_def)
  have sat: "saturated_abs16 x \<le> ?m" if "x \<in> set amp" for x
    using max_abs16_range [OF amp] that by simp
  have "\<forall>x \<in> set (scale_down (4 - int n) amp). \<bar>x\<bar> \<le> 2048"
  proof (cases "n \<le> 3")
    case True
    then have idx: "nat (4 - int n - 1) = 3 - n" by simp
    have "\<bar>gsm_mult_r a (asr 16384 (3 - n))\<bar> \<le> 2048" if a: "a \<in> set amp" for a
    proof (rule scaled_sample [OF _ True])
      show i: "is_i16 a" using amp a by simp
      have "?m < 2 ^ (15 - n)" using mn True by (auto simp: le_Suc_eq numeral_3_eq_3)
      moreover have "\<bar>a\<bar> \<le> saturated_abs16 a + 1" using i by (auto simp: saturated_abs16_eq is_i16_def)
      ultimately show "\<bar>a\<bar> \<le> 2 ^ (15 - n)" using sat [OF a] by linarith
    qed
    then show ?thesis using True idx by (auto simp: scale_down_def)
  next
    case False
    have "(2::int) ^ 4 \<le> 2 ^ n" using False by (intro power_increasing) auto
    then have "?m * 16 \<le> ?m * 2 ^ n" using m by simp
    then have "?m < 2048" using mn by linarith
    then have "\<bar>a\<bar> \<le> 2048" if "a \<in> set amp" for a
      using sat [OF that] amp that by (auto simp: saturated_abs16_eq)
    then show ?thesis using False by (simp add: scale_down_def)
  qed
  then show ?thesis using that sc by simp
qed

subsection \<open>Autocorrelation fits 32 bits\<close>

lemma dot_prod_sum: "dot_prod x y = (\<Sum>(a, b) \<leftarrow> zip x y. a * b)"
proof -
  have "foldl (\<lambda>z (a, b). z + a * b) z0 ps = z0 + (\<Sum>(a, b) \<leftarrow> ps. a * b)" for z0 :: int and ps
    by (induction ps arbitrary: z0) auto
  then show ?thesis by (simp add: dot_prod_def)
qed

lemma sum_products_bound:
  fixes B C :: int
  assumes "0 \<le> B" and "0 \<le> C"
  shows "\<forall>(a, b) \<in> set ps. \<bar>a\<bar> \<le> B \<and> \<bar>b\<bar> \<le> C \<Longrightarrow> \<bar>\<Sum>(a, b) \<leftarrow> ps. a * b\<bar> \<le> int (length ps) * (B * C)"
proof (induction ps)
  case (Cons p ps)
  obtain a b where p: "p = (a, b)" by fastforce
  have "\<bar>a * b\<bar> \<le> B * C"
    unfolding abs_mult using Cons.prems p assms by (intro mult_mono) auto
  moreover have "\<bar>\<Sum>(a, b) \<leftarrow> ps. a * b\<bar> \<le> int (length ps) * (B * C)" using Cons by simp
  moreover have "int (length (p # ps)) * (B * C) = B * C + int (length ps) * (B * C)"
    by (simp add: algebra_simps)
  ultimately show ?case using p abs_triangle_ineq [of "a * b" "\<Sum>(a, b) \<leftarrow> ps. a * b"] by simp
qed simp

lemma dot_prod_bound:
  assumes "\<forall>a \<in> set x. \<bar>a\<bar> \<le> B" and "\<forall>b \<in> set y. \<bar>b\<bar> \<le> C" and "0 \<le> B" and "0 \<le> C"
    and "length x \<le> n"
  shows "\<bar>dot_prod x y\<bar> \<le> int n * (B * C)"
proof -
  have "\<forall>(a, b) \<in> set (zip x y). \<bar>a\<bar> \<le> B \<and> \<bar>b\<bar> \<le> C"
    using assms(1,2) by (auto dest: set_zip_leftD set_zip_rightD)
  then have "\<bar>dot_prod x y\<bar> \<le> int (length (zip x y)) * (B * C)"
    unfolding dot_prod_sum by (rule sum_products_bound [OF assms(3,4)])
  also have "\<dots> \<le> int n * (B * C)"
    using assms(3-5) by (intro mult_right_mono) auto
  finally show ?thesis .
qed

lemma acf_bound:
  assumes "\<forall>a \<in> set s. \<bar>a\<bar> \<le> 2048" and "length s \<le> 160"
  shows "\<forall>v \<in> set (acf s). \<bar>v\<bar> \<le> 1342177280"
proof
  fix v assume "v \<in> set (acf s)"
  then obtain k where v: "v = shl (dot_prod (drop k s) s) 1" by (auto simp: acf_def)
  have "\<bar>dot_prod (drop k s) s\<bar> \<le> int 160 * (2048 * 2048)"
    using assms by (intro dot_prod_bound) (auto dest: in_set_dropD)
  then show "\<bar>v\<bar> \<le> 1342177280" unfolding v by (simp add: shl_def abs_mult)
qed

lemma acf_0: "0 \<le> acf s ! 0"
proof -
  have "0 \<le> (\<Sum>(a, b) \<leftarrow> zip s s. a * b)" for s :: "int list"
    by (induction s) auto
  then show ?thesis by (simp add: acf_def shl_def dot_prod_sum)
qed

subsection \<open>The recursion and the coding never fail\<close>

lemma schur_fold_keeps:
  "length P = 9 \<Longrightarrow> length K = 9 \<Longrightarrow> \<forall>v \<in> set P. is_i16 v \<Longrightarrow> \<forall>v \<in> set K. is_i16 v \<Longrightarrow>
     foldl (schur_step r) (P, K) ms = (P', K') \<Longrightarrow>
     length P' = 9 \<and> length K' = 9 \<and> (\<forall>v \<in> set P'. is_i16 v) \<and> (\<forall>v \<in> set K'. is_i16 v)"
proof (induction ms arbitrary: P K)
  case (Cons m ms)
  let ?P = "P[m := saturated_add16 (P ! (m + 1)) (gsm_mult_r (K ! m) r)]"
  let ?K = "K[m := saturated_add16 (K ! m) (gsm_mult_r (P ! (m + 1)) r)]"
  have "\<forall>v \<in> set ?P. is_i16 v" using Cons.prems(3) by (rule ball_list_update) simp
  moreover have "\<forall>v \<in> set ?K. is_i16 v" using Cons.prems(4) by (rule ball_list_update) simp
  moreover have "foldl (schur_step r) (?P, ?K) ms = (P', K')"
    using Cons.prems(5) by (simp add: schur_step_def)
  ultimately show ?case using Cons.IH [of ?P ?K] Cons.prems(1,2) unfolding length_list_update by blast
qed simp

lemma schur_coefficient_total:
  assumes "is_i16 p1" and "saturated_abs16 p1 \<le> p0"
  obtains r where "schur_coefficient p0 p1 = Some r" and "is_i16 r"
proof -
  have "0 \<le> saturated_abs16 p1" using saturated_abs16_range [OF assms(1)] by simp
  then obtain d where d: "gsm_div (saturated_abs16 p1) p0 = Some d" "0 \<le> d" "d \<le> 32767"
    using assms(2) by (rule gsm_div_total)
  moreover have "i16 (- d) = - d" using d by (intro i16_id) (simp add: is_i16_def)
  ultimately show ?thesis
    using that [of "if p1 > 0 then - d else d"] by (simp add: schur_coefficient_def Let_def is_i16_def)
qed

lemma schur_loop_total:
  "k \<le> 8 \<Longrightarrow> length P = 9 \<Longrightarrow> length K = 9 \<Longrightarrow> \<forall>v \<in> set P. is_i16 v \<Longrightarrow> \<forall>v \<in> set K. is_i16 v \<Longrightarrow>
     \<exists>rs. schur_loop k P K = Some rs \<and> length rs = k \<and> (\<forall>r \<in> set rs. is_i16 r)"
proof (induction k arbitrary: P K)
  case (Suc k)
  show ?case
  proof (cases "P ! 0 < saturated_abs16 (P ! 1)")
    case True
    then show ?thesis by (simp add: is_i16_def)
  next
    case False
    have "is_i16 (P ! 1)" using Suc.prems(2,4) by (simp add: nth_mem)
    then obtain r where r: "schur_coefficient (P ! 0) (P ! 1) = Some r" "is_i16 r"
      using False by (metis schur_coefficient_total not_less)
    let ?P = "P[0 := saturated_add16 (P ! 0) (gsm_mult_r (P ! 1) r)]"
    obtain P' K' where f: "foldl (schur_step r) (?P, K) [1..<Suc k] = (P', K')" by fastforce
    have "\<forall>v \<in> set ?P. is_i16 v" using Suc.prems(4) by (rule ball_list_update) simp
    moreover have "length ?P = 9" using Suc.prems(2) by simp
    ultimately have ok: "length P' = 9 \<and> length K' = 9 \<and> (\<forall>v \<in> set P'. is_i16 v) \<and> (\<forall>v \<in> set K'. is_i16 v)"
      using schur_fold_keeps [OF _ Suc.prems(3) _ Suc.prems(5) f] by blast
    have k: "k \<le> 8" using Suc.prems(1) by simp
    obtain rs where rs: "schur_loop k P' K' = Some rs" "length rs = k" "\<forall>r \<in> set rs. is_i16 r"
      using Suc.IH [OF k] ok by blast
    have "schur_loop (Suc k) P K = (if k = 0 then Some [r] else Some (r # rs))"
      unfolding schur_loop.simps if_not_P [OF False] r(1) by (simp add: rs f del: upt_Suc One_nat_def)
    then show ?thesis using r(2) rs by (cases "k = 0") simp_all
  qed
qed simp

lemma reflection_coefficients_total:
  assumes "length L = 9" and "\<forall>v \<in> set L. \<bar>v\<bar> \<le> 1342177280" and "0 \<le> L ! 0"
  shows "\<exists>r. reflection_coefficients L = Some r \<and> length r = 8 \<and> (\<forall>v \<in> set r. is_i16 v)"
proof (cases "L ! 0 = 0")
  case True
  then show ?thesis by (simp add: reflection_coefficients_def is_i16_def)
next
  case False
  have "L ! 0 \<in> set L" using assms(1) by simp
  then have "L ! 0 < 2147483648" using assms(2) by fastforce
  then obtain n where n: "gsm0610_norm (L ! 0) = Some (int n)" "n \<le> 30"
    using gsm0610_norm_pos [of "L ! 0"] False assms(3) by auto
  let ?A = "map (\<lambda>l. i16 (asr (shl l n) 16)) L"
  have "\<exists>rs. schur_loop 8 ?A ?A = Some rs \<and> length rs = 8 \<and> (\<forall>r \<in> set rs. is_i16 r)"
    using assms(1) by (intro schur_loop_total) auto
  then show ?thesis using False n by (simp add: reflection_coefficients_def Let_def)
qed

lemma log_area_ratio_total: "is_i16 r \<Longrightarrow> \<exists>l. log_area_ratio r = Some l \<and> is_i16 l"
proof -
  assume r: "is_i16 r"
  define t where "t = saturated_abs16 r"
  have t: "0 \<le> t" "t \<le> 32767" using saturated_abs16_range [OF r] by (simp_all add: t_def)
  define h where "h = asr t 1"
  have half: "0 \<le> h" "h \<le> 16383" using t asr_bounds [of 0 1 t 16383] by (simp_all add: h_def)
  have i: "is_i16 (t - 11059)" if "\<not> t < 22118" using t that by (simp add: is_i16_def)
  have i4: "is_i16 (shl (t - 26112) 2)" if "\<not> t < 31130" using t that by (simp add: is_i16_def shl_def)
  consider (low) "t < 22118" | (mid) "\<not> t < 22118" "t < 31130" | (high) "\<not> t < 22118" "\<not> t < 31130"
    by blast
  then show ?thesis
  proof cases
    case low
    then show ?thesis
      using t half unfolding log_area_ratio_def Let_def t_def [symmetric] h_def [symmetric]
      by (cases "r < 0") (auto simp: is_i16_def)
  next
    case mid
    then show ?thesis
      using t i unfolding log_area_ratio_def Let_def t_def [symmetric]
      by (cases "r < 0") (auto simp: is_i16_def)
  next
    case high
    then show ?thesis
      using t i4 unfolding log_area_ratio_def Let_def t_def [symmetric]
      by (cases "r < 0") (auto simp: is_i16_def shl_def)
  qed
qed

lemma map_option_list_total:
  "\<forall>x \<in> set xs. \<exists>y. f x = Some y \<and> P y \<Longrightarrow>
     \<exists>ys. map_option_list f xs = Some ys \<and> length ys = length xs \<and> (\<forall>y \<in> set ys. P y)"
  by (induction xs) fastforce+

lemma code_lar_range:
  assumes "MIC \<le> MAC" and "is_i16 (MAC - MIC)"
  shows "0 \<le> code_lar (A, B, MAC, MIC) lar \<and> code_lar (A, B, MAC, MIC) lar \<le> MAC - MIC"
  using assms by (auto simp: code_lar_def Let_def is_i16_def)

lemma scale_down_length [simp]: "length (scale_down sc amp) = length amp"
  by (simp add: scale_down_def)

lemma quantization_fits:
  assumes "length LAR = 8"
  shows "list_all2 (\<lambda>w v. 0 \<le> v \<and> v < 2 ^ w) [6, 6, 5, 5, 4, 4, 3, 3] (quantization_and_coding LAR)"
proof -
  obtain a b c d e f g h where LAR: "LAR = [a, b, c, d, e, f, g, h]"
    using assms by (auto simp: numeral_eq_Suc length_Suc_conv)
  have lt: "0 \<le> code_lar (A, B, MAC, MIC) l \<and> code_lar (A, B, MAC, MIC) l < w"
    if "MIC \<le> MAC" "is_i16 (MAC - MIC)" "MAC - MIC < w" for A B MAC MIC l w
    using code_lar_range [OF that(1,2), of A B l] that(3) by linarith
  show ?thesis
    unfolding LAR quantization_and_coding_def lar_steps_def
    using lt [of "- 32" 31 64 20480 0 a] lt [of "- 32" 31 64 20480 0 b]
      lt [of "- 16" 15 32 20480 2048 c] lt [of "- 16" 15 32 20480 "- 2560" d]
      lt [of "- 8" 7 16 13964 94 e] lt [of "- 8" 7 16 15360 "- 1792" f]
      lt [of "- 4" 3 8 8534 "- 341" g] lt [of "- 4" 3 8 9036 "- 1144" h]
    by (simp add: is_i16_def)
qed

lemma lpc_analysis_ok:
  assumes amp: "\<forall>x \<in> set amp. is_i16 x" and len: "length amp = 160"
  shows "\<exists>amp' LARc. gsm0610_lpc_analysis amp = Some (amp', LARc) \<and> length amp' = 160 \<and>
           (\<forall>x \<in> set amp'. is_i16 x) \<and> length LARc = 8 \<and>
           list_all2 (\<lambda>w v. 0 \<le> v \<and> v < 2 ^ w) [6, 6, 5, 5, 4, 4, 3, 3] LARc"
proof -
  obtain sc where sc: "scalauto_of (max_abs16 amp) = Some sc" "sc \<le> 4"
    and small: "\<forall>x \<in> set (scale_down sc amp). \<bar>x\<bar> \<le> 2048"
    using scaling_ok [OF amp] .
  let ?s = "scale_down sc amp"
  define out where "out = (if sc > 0 then map (\<lambda>a. i16 (shl a (nat sc))) ?s else ?s)"
  have auto: "autocorrelation amp = Some (out, acf ?s)"
    using sc by (simp add: autocorrelation_def out_def Let_def)
  have out: "length out = 160" "\<forall>x \<in> set out. is_i16 x"
    using len amp by (auto simp: out_def scale_down_def)
  have "length (acf ?s) = 9" by (simp add: acf_def)
  then obtain r where r: "reflection_coefficients (acf ?s) = Some r" "length r = 8" "\<forall>v \<in> set r. is_i16 v"
    using reflection_coefficients_total [OF _ acf_bound [OF small] acf_0] len by auto
  obtain L where L: "transform_to_log_area_ratios r = Some L" "length L = length r"
    using map_option_list_total [of r log_area_ratio is_i16] log_area_ratio_total r(3)
    by (auto simp: transform_to_log_area_ratios_def)
  have "length (quantization_and_coding L) = 8"
    using L r by (simp add: quantization_and_coding_def lar_steps_def)
  moreover have "gsm0610_lpc_analysis amp = Some (out, quantization_and_coding L)"
    using auto r L by (simp add: gsm0610_lpc_analysis_def)
  moreover have "length L = 8" using L r by simp
  ultimately show ?thesis using out quantization_fits [of L] by simp
qed

lemma gsm0610_preprocess_ok:
  assumes "pre_ok (z1 s, L_z2 s, mp s)" and "\<forall>x \<in> set amp. is_i16 x" and "160 \<le> length amp"
  shows "\<exists>so z L m. gsm0610_preprocess s amp = Some (so, s\<lparr>z1 := z, L_z2 := L, mp := m\<rparr>) \<and>
           pre_ok (z, L, m) \<and> length so = 160 \<and> (\<forall>x \<in> set so. is_i16 x)"
proof -
  have "\<forall>a \<in> set (take 160 amp). is_i16 a" using assms(2) by (auto dest: in_set_takeD)
  from pre_loop_ok [OF assms(1) this] assms(3) show ?thesis
    by (fastforce simp: gsm0610_preprocess_def mem_read_def)
qed

subsection \<open>Properties\<close>

text \<open>
  The offset compensation of the preprocessing never fails an assertion and never wraps:
  on every 16 bit input its recursive part stays within the bounds of \<open>pre_ok\<close>, which make the
  truncation of the filter output to 16 bits exact and its saturations idle.
\<close>

theorem preprocess_never_wraps:
  assumes "pre_ok (z, L, m)" and "is_i16 a"
  shows "\<exists>so z' L' m'. pre_step (z, L, m) a = Some (so, z', L', m') \<and> is_i16 so \<and>
           pre_ok (z', L', m') \<and> m' = (L' + 16384) div 32768 \<and>
           L' = (L * 32735 + 16384) div 32768 + 32768 * (z' - z)"
proof -
  obtain so z' L' m' where step: "pre_step (z, L, m) a = Some (so, z', L', m')" "is_i16 so"
      "pre_ok (z', L', m')" "m' = asr (L' + 16384) 15"
    using pre_step_ok [OF assms] .
  moreover have "L' = (L * 32735 + 16384) div 32768 + 32768 * (z' - z)"
  proof -
    define Lr where "Lr = (L * 32735 + 16384) div 32768"
    have z: "- 16384 \<le> z" "z \<le> 16380" and zL: "- 536740340 \<le> L - 32768 * z" "L - 32768 * z \<le> 536871412"
      using assms(1) by (simp_all add: pre_ok_def)
    have z': "- 16384 \<le> z'" "z' \<le> 16380" using step(3) by (simp_all add: pre_ok_def)
    have "- 536740340 \<le> Lr - 32768 * z \<and> Lr - 32768 * z \<le> 536871412"
      unfolding Lr_def by (rule pre_step_leak [OF zL z])
    then have i: "is_i32 Lr" "is_i32 (shl (z' - z) 15)" "is_i32 (Lr + 32768 * (z' - z))"
      using z z' by (auto simp: is_i32_def shl_def)
    have "L' = saturated_add32 (i32 Lr) (shl (i16 (z' - z)) 15)"
      using step(1) by (auto simp: pre_step_def Let_def Lr_def asr15 bind_eq_Some_conv split: if_splits)
    also have "\<dots> = Lr + 32768 * (z' - z)"
      using i z z' by (simp add: saturated_add32_eq clamp_def is_i32_def is_i16_def shl_def)
    finally show ?thesis by (simp add: Lr_def)
  qed
  ultimately show ?thesis by (auto simp: asr15)
qed

theorem preprocess_never_wraps_witness:
  "\<exists>so z' L' m'. pre_step (0, 0, 0) (- 32768) = Some (so, z', L', m') \<and> pre_ok (z', L', m') \<and>
     m' = (L' + 16384) div 32768"
  using preprocess_never_wraps [of 0 0 0 "- 32768"] by (auto simp: pre_ok_def is_i16_def)

text \<open>
  The shift and subtract division is the integer quotient of the numerator scaled by
  \<open>2 ^ 15\<close>, and 32767 where the operands are equal.
\<close>

theorem gsm_div_is_quotient:
  assumes "0 \<le> num" and "num \<le> denom" and "0 < denom"
  shows "gsm_div num denom = Some (min 32767 (num * 32768 div denom))"
  using assms by (rule gsm_div_eq)

theorem gsm_div_is_quotient_witness:
  "gsm_div 5461 16384 = Some 10922 \<and> gsm_div 77 77 = Some 32767"
  using gsm_div_is_quotient [of 5461 16384] gsm_div_is_quotient [of 77 77] by simp

text \<open>
  The linear prediction analysis is total on frames of 160 samples: no assertion fails,
  the autocorrelations fit 32 bits after the dynamic scaling, and the eight coded log area
  ratios fit the 6, 6, 5, 5, 4, 4, 3 and 3 bits of the frame formats.
\<close>

theorem lpc_analysis_total:
  assumes "\<forall>x \<in> set amp. is_i16 x" and "length amp = 160"
  shows "\<exists>amp' L_ACF LARc. autocorrelation amp = Some (amp', L_ACF) \<and>
           (\<forall>v \<in> set L_ACF. is_i32 v) \<and>
           gsm0610_lpc_analysis amp = Some (amp', LARc) \<and>
           list_all2 (\<lambda>w v. 0 \<le> v \<and> v < 2 ^ w) [6, 6, 5, 5, 4, 4, 3, 3] LARc"
proof -
  obtain amp' LARc where lpc: "gsm0610_lpc_analysis amp = Some (amp', LARc)"
      "list_all2 (\<lambda>w v. 0 \<le> v \<and> v < 2 ^ w) [6, 6, 5, 5, 4, 4, 3, 3] LARc"
    using lpc_analysis_ok [OF assms] by blast
  obtain sc where sc: "scalauto_of (max_abs16 amp) = Some sc" "sc \<le> 4"
    and small: "\<forall>x \<in> set (scale_down sc amp). \<bar>x\<bar> \<le> 2048"
    using scaling_ok [OF assms(1)] .
  obtain a where a: "autocorrelation amp = Some (a, acf (scale_down sc amp))"
    using sc by (cases "sc > 0") (simp_all add: autocorrelation_def Let_def)
  have "\<forall>v \<in> set (acf (scale_down sc amp)). is_i32 v"
    using acf_bound [OF small] assms(2) by (fastforce simp: is_i32_def)
  moreover have "a = amp'"
    using lpc(1) a by (auto simp: gsm0610_lpc_analysis_def bind_eq_Some_conv)
  ultimately show ?thesis using lpc a by auto
qed

theorem lpc_analysis_total_witness:
  "\<exists>amp' LARc. gsm0610_lpc_analysis (concat (replicate 40 [32767, 12, -32768, -500])) = Some (amp', LARc) \<and>
     list_all2 (\<lambda>w v. 0 \<le> v \<and> v < 2 ^ w) [6, 6, 5, 5, 4, 4, 3, 3] LARc"
  using lpc_analysis_total [of "concat (replicate 40 [32767, 12, -32768, -500])"]
  by (auto simp: is_i16_def length_concat sum_list_replicate)

end
