(* ===== verification/Gsm_Filters.thy ===== *)
theory Gsm_Filters
  imports Gsm_Lpc
begin

text \<open>
  The short term filters (\<open>gsm0610_short_term.c\<close>) and the long term predictor
  (\<open>gsm0610_long_term.c\<close>, its portable branch) of GSM 06.10.

  The long term signal \<open>dp\<close> is a pointer into \<open>dp0\<close>: it is \<open>dp0\<close> with the index \<open>base\<close> of
  \<open>dp[0]\<close>, which is 120 plus a multiple of 40 in every call.
\<close>

subsection \<open>Coefficients of the short term filters\<close>

definition decode_lar :: "int \<times> int \<times> int \<Rightarrow> int \<Rightarrow> int" where
  "decode_lar = (\<lambda>(B, MIC, INVA) c.
     (let temp1 = i16 (shl (saturated_add16 c MIC) 10);
          temp1 = saturated_sub16 temp1 (shl B 1);
          temp1 = gsm_mult_r INVA temp1
      in saturated_add16 temp1 temp1))"

definition decode_log_area_ratios :: "int list \<Rightarrow> int list" where
  "decode_log_area_ratios LARc =
     map2 decode_lar
       [(0, -32, 13107), (0, -32, 13107), (2048, -16, 13107), (-2560, -16, 13107),
        (94, -8, 19223), (-1792, -8, 17476), (-341, -4, 31454), (-1144, -4, 29708)] LARc"

definition coefficients_0_12 :: "int list \<Rightarrow> int list \<Rightarrow> int list" where
  "coefficients_0_12 LARpp_j_1 LARpp_j =
     map2 (\<lambda>p c. saturated_add16 (saturated_add16 (asr p 2) (asr c 2)) (asr p 1)) LARpp_j_1 LARpp_j"

definition coefficients_13_26 :: "int list \<Rightarrow> int list \<Rightarrow> int list" where
  "coefficients_13_26 LARpp_j_1 LARpp_j =
     map2 (\<lambda>p c. saturated_add16 (asr p 1) (asr c 1)) LARpp_j_1 LARpp_j"

definition coefficients_27_39 :: "int list \<Rightarrow> int list \<Rightarrow> int list" where
  "coefficients_27_39 LARpp_j_1 LARpp_j =
     map2 (\<lambda>p c. saturated_add16 (saturated_add16 (asr p 2) (asr c 2)) (asr c 1)) LARpp_j_1 LARpp_j"

definition coefficients_40_159 :: "int list \<Rightarrow> int list" where
  "coefficients_40_159 LARpp_j = LARpp_j"

definition rp_of_positive :: "int \<Rightarrow> int" where
  "rp_of_positive temp =
     (if temp < 11059 then i16 (shl temp 1)
      else if temp < 20070 then i16 (temp + 11059)
      else saturated_add16 (asr temp 2) 26112)"

definition rp_of_larp :: "int \<Rightarrow> int" where
  "rp_of_larp temp =
     (if temp < 0 then i16 (- rp_of_positive (if temp = -32768 then 32767 else i16 (- temp)))
      else rp_of_positive temp)"

definition larp_to_rp :: "int list \<Rightarrow> int list" where
  "larp_to_rp LARp = map rp_of_larp LARp"

subsection \<open>The lattice filters\<close>

text \<open>The loop over the stages for one sample; the second result is the array \<open>u\<close>.\<close>

fun analysis_lattice :: "int list \<Rightarrow> int list \<Rightarrow> int \<Rightarrow> int \<Rightarrow> int \<times> int list" where
  "analysis_lattice (rpi # rp) (ui # u) di u_out =
     (let u_out' = ui + asr (rpi * di + 16384) 15;
          di' = di + asr (rpi * ui + 16384) 15;
          (d, us) = analysis_lattice rp u (saturate di') (saturate u_out')
      in (d, i16 u_out # us))"
| "analysis_lattice _ u di u_out = (di, u)"

fun short_term_analysis_filtering :: "int list \<Rightarrow> int list \<Rightarrow> int list \<Rightarrow> int list \<times> int list" where
  "short_term_analysis_filtering rp u [] = ([], u)"
| "short_term_analysis_filtering rp u (a # amp) =
     (let (d, u1) = analysis_lattice rp u a a;
          (ds, u2) = short_term_analysis_filtering rp u1 amp
      in (i16 d # ds, u2))"

text \<open>The rounded product of the synthesis loop, and the loop over the stages from 7 down.\<close>

definition lattice_mult :: "int \<Rightarrow> int \<Rightarrow> int" where
  "lattice_mult a b =
     (if a = -32768 \<and> b = -32768 then 32767 else i16 (i16 (asr (a * b + 16384) 15) mod 65536))"

fun synthesis_lattice :: "nat \<Rightarrow> int list \<Rightarrow> int list \<Rightarrow> int \<Rightarrow> int \<times> int list" where
  "synthesis_lattice 0 rrp v sri = (sri, v)"
| "synthesis_lattice (Suc i) rrp v sri =
     (let tmp2 = lattice_mult (rrp ! i) (v ! i);
          sri = saturated_sub16 sri tmp2;
          tmp1 = lattice_mult (rrp ! i) sri
      in synthesis_lattice i rrp (v[i + 1 := saturated_add16 (v ! i) tmp1]) sri)"

fun short_term_synthesis_filtering :: "int list \<Rightarrow> int list \<Rightarrow> int list \<Rightarrow> int list \<times> int list" where
  "short_term_synthesis_filtering rrp v [] = ([], v)"
| "short_term_synthesis_filtering rrp v (w # wt) =
     (let (sri, v1) = synthesis_lattice 8 rrp v w;
          (srs, v2) = short_term_synthesis_filtering rrp (v1[0 := sri]) wt
      in (sri # srs, v2))"

text \<open>The four segments of a frame with their interpolated coefficients.\<close>

definition filter_segments ::
    "(int list \<Rightarrow> int list \<Rightarrow> int list \<Rightarrow> int list \<times> int list) \<Rightarrow>
     int list \<Rightarrow> int list \<Rightarrow> int list \<Rightarrow> int list \<Rightarrow> int list \<times> int list" where
  "filter_segments filt prev cur m amp =
     (let (a1, m) = filt (larp_to_rp (coefficients_0_12 prev cur)) m (take 13 amp);
          (a2, m) = filt (larp_to_rp (coefficients_13_26 prev cur)) m (take 14 (drop 13 amp));
          (a3, m) = filt (larp_to_rp (coefficients_27_39 prev cur)) m (take 13 (drop 27 amp));
          (a4, m) = filt (larp_to_rp (coefficients_40_159 cur)) m (take 120 (drop 40 amp))
      in (a1 @ a2 @ a3 @ a4, m))"

definition gsm0610_short_term_analysis_filter ::
    "gsm0610_state \<Rightarrow> int list \<Rightarrow> int list \<Rightarrow> int list \<times> gsm0610_state" where
  "gsm0610_short_term_analysis_filter s LARc amp =
     (let jj = j_st s; j' = jj XOR 1;
          LARpp' = (LARpp s)[jj := decode_log_area_ratios LARc];
          (a, u) = filter_segments short_term_analysis_filtering (LARpp' ! j') (LARpp' ! jj) (u_st s) amp
      in (a, s\<lparr>LARpp := LARpp', j_st := j', u_st := u\<rparr>))"

definition gsm0610_short_term_synthesis_filter ::
    "gsm0610_state \<Rightarrow> int list \<Rightarrow> int list \<Rightarrow> int list \<times> gsm0610_state" where
  "gsm0610_short_term_synthesis_filter s LARcr wt =
     (let jj = j_st s; j' = jj XOR 1;
          LARpp' = (LARpp s)[jj := decode_log_area_ratios LARcr];
          (a, v) = filter_segments short_term_synthesis_filtering (LARpp' ! j') (LARpp' ! jj) (v_st s) wt
      in (a, s\<lparr>LARpp := LARpp', j_st := j', v_st := v\<rparr>))"

subsection \<open>The long term predictor\<close>

definition gsm_DLB :: "int list" where "gsm_DLB = [6554, 16384, 26214, 32767]"
definition gsm_QLB :: "int list" where "gsm_QLB = [3277, 11469, 21299, 32767]"

definition gsm0610_max_cross_corr :: "int list \<Rightarrow> int list \<Rightarrow> nat \<Rightarrow> int \<times> nat" where
  "gsm0610_max_cross_corr wt dp0 base =
     foldl (\<lambda>(mx, index) i.
        let res = dot_prod wt (take 40 (drop (base - i) dp0)) in
        if res > mx then (res, i) else (mx, index)) (0, 40) [40..<121]"

text \<open>The decision loop over the gain levels: the first level not below the ratio.\<close>

definition code_gain :: "int \<Rightarrow> int \<Rightarrow> int" where
  "code_gain R S =
     (if R \<le> saturated_mul16 S (gsm_DLB ! 0) then 0
      else if R \<le> saturated_mul16 S (gsm_DLB ! 1) then 1
      else if R \<le> saturated_mul16 S (gsm_DLB ! 2) then 2 else 3)"

definition ltp_scale :: "int list \<Rightarrow> int option" where
  "ltp_scale d =
     do { let dmax = max_abs16 d;
          temp \<leftarrow> (if dmax = 0 then Some 0 else do { require (dmax > 0); gsm0610_norm (shl dmax 16) });
          let scale = (if temp > 6 then 0 else i16 (6 - temp));
          require (scale \<ge> 0);
          Some scale }"

text \<open>The result is \<open>bc\<close> with the lag \<open>Nc\<close>.\<close>

definition evaluate_ltp_parameters :: "int list \<Rightarrow> int list \<Rightarrow> nat \<Rightarrow> (int \<times> nat) option" where
  "evaluate_ltp_parameters d dp0 base =
     do { scale \<leftarrow> ltp_scale d;
          let wt = map (\<lambda>x. asr x (nat scale)) d;
          let (L_max, Nc) = gsm0610_max_cross_corr wt dp0 base;
          let L_max = shl L_max 1;
          require (scale \<le> 100 \<and> scale \<ge> - 100);
          let L_max = asr L_max (nat (6 - scale));
          require (Nc \<le> 120 \<and> Nc \<ge> 40);
          let h = map (\<lambda>x. asr x 3) (take 40 (drop (base - Nc) dp0));
          let L_power = shl (dot_prod h h) 1;
          if L_max \<le> 0 then Some (0, Nc)
          else if L_max \<ge> L_power then Some (3, Nc)
          else do { temp \<leftarrow> gsm0610_norm L_power;
                    let R = i16 (asr (shl L_max (nat temp)) 16);
                    let S = i16 (asr (shl L_power (nat temp)) 16);
                    Some (code_gain R S, Nc) } }"

definition gain_level :: "int \<Rightarrow> int option" where
  "gain_level bc = (if 0 \<le> bc \<and> bc < 4 then Some (gsm_QLB ! nat bc) else None)"

text \<open>\<open>dpp\<close> is the same place as \<open>dp\<close>, so the estimate is written into \<open>dp0\<close>.\<close>

definition long_term_analysis_filtering ::
    "int \<Rightarrow> nat \<Rightarrow> int list \<Rightarrow> nat \<Rightarrow> int list \<Rightarrow> (int list \<times> int list) option" where
  "long_term_analysis_filtering bc Nc dp0 base d =
     do { q \<leftarrow> gain_level bc;
          let dp' = foldl (\<lambda>dp k. dp[base + k := gsm_mult_r q (dp ! (base + k - Nc))]) dp0 [0..<40];
          Some (dp', map (\<lambda>k. saturated_sub16 (d ! k) (dp' ! (base + k))) [0..<40]) }"

text \<open>The results are \<open>Nc\<close>, \<open>bc\<close>, the new \<open>dp0\<close> and \<open>e[0..39]\<close>.\<close>

definition gsm0610_long_term_predictor ::
    "int list \<Rightarrow> int list \<Rightarrow> nat \<Rightarrow> (int \<times> int \<times> int list \<times> int list) option" where
  "gsm0610_long_term_predictor d dp0 base =
     do { (bc, Nc) \<leftarrow> evaluate_ltp_parameters d dp0 base;
          (dp', e) \<leftarrow> long_term_analysis_filtering bc Nc dp0 base d;
          Some (int Nc, bc, dp', e) }"

definition gsm0610_long_term_synthesis_filtering ::
    "gsm0610_state \<Rightarrow> int \<Rightarrow> int \<Rightarrow> int list \<Rightarrow> gsm0610_state option" where
  "gsm0610_long_term_synthesis_filtering s Ncr bcr erp =
     do { let Nr = (if Ncr < 40 \<or> Ncr > 120 then nrp s else Ncr);
          require (Nr \<ge> 40 \<and> Nr \<le> 120);
          brp \<leftarrow> gain_level bcr;
          require (brp \<noteq> - 32768);
          let dp = foldl (\<lambda>dp k. dp[120 + k := saturated_add16 (erp ! k)
                                       (gsm_mult_r brp (dp ! (120 + k - nat Nr)))]) (dp0_st s) [0..<40];
          let dp = foldl (\<lambda>dp k. dp[k := dp ! (k + 40)]) dp [0..<120];
          Some (s\<lparr>nrp := Nr, dp0_st := dp\<rparr>) }"

subsection \<open>The short term filters keep their widths\<close>

lemma is_i16_decode_lar [simp, int_ranges]: "is_i16 (decode_lar p c)"
  by (cases p) (simp add: decode_lar_def Let_def)

lemma decode_log_area_ratios_ok:
  "length LARc = 8 \<Longrightarrow> length (decode_log_area_ratios LARc) = 8 \<and>
     (\<forall>v \<in> set (decode_log_area_ratios LARc). is_i16 v)"
  by (auto simp: decode_log_area_ratios_def)

lemma coefficients_ok:
  assumes "length p = 8" and "length c = 8"
  shows "length (coefficients_0_12 p c) = 8" "length (coefficients_13_26 p c) = 8"
    "length (coefficients_27_39 p c) = 8" "length (coefficients_40_159 c) = 8"
  using assms by (simp_all add: coefficients_0_12_def coefficients_13_26_def coefficients_27_39_def
      coefficients_40_159_def)

text \<open>A reflection coefficient is never the one value whose product would overflow.\<close>

lemma rp_of_positive_range:
  assumes "0 \<le> t" and "t \<le> 32767"
  shows "0 \<le> rp_of_positive t \<and> rp_of_positive t \<le> 32767"
proof -
  have "0 \<le> asr t 2 \<and> asr t 2 \<le> 8191" using assms asr_bounds [of 0 2 t 8191] by simp
  then show ?thesis
    using assms by (auto simp: rp_of_positive_def saturated_add16_def saturate_eq clamp_def is_i16_def shl_def)
qed

lemma rp_of_larp_range:
  assumes "is_i16 t"
  shows "\<bar>rp_of_larp t\<bar> \<le> 32767"
proof (cases "t < 0")
  case True
  define n where "n = (if t = -32768 then 32767 else i16 (- t))"
  have "0 \<le> n \<and> n \<le> 32767" using assms True by (auto simp: n_def is_i16_def)
  then have r: "0 \<le> rp_of_positive n \<and> rp_of_positive n \<le> 32767" using rp_of_positive_range by blast
  then have "i16 (- rp_of_positive n) = - rp_of_positive n" by (intro i16_id) (simp add: is_i16_def)
  then show ?thesis using True r by (simp add: rp_of_larp_def n_def [symmetric])
next
  case False
  then show ?thesis
    using assms rp_of_positive_range [of t] by (simp add: rp_of_larp_def is_i16_def)
qed

lemma analysis_lattice_ok:
  assumes "length rp = length u" and "analysis_lattice rp u di uo = (d, us)"
  shows "length us = length u \<and> (\<forall>v \<in> set us. is_i16 v)"
  using assms
proof (induction rp u arbitrary: di uo d us rule: list_induct2)
  case (Cons rpi rp ui u)
  obtain d' us' where rec: "analysis_lattice rp u (saturate (di + asr (rpi * ui + 16384) 15))
      (saturate (ui + asr (rpi * di + 16384) 15)) = (d', us')" by fastforce
  then have "us = i16 uo # us'" using Cons.prems by simp
  then show ?case using Cons.IH [OF rec] by simp
qed simp

lemma analysis_filtering_ok:
  "length rp = length u \<Longrightarrow> \<forall>v \<in> set u. is_i16 v \<Longrightarrow>
     short_term_analysis_filtering rp u amp = (out, u') \<Longrightarrow>
     length out = length amp \<and> (\<forall>v \<in> set out. is_i16 v) \<and> length u' = length u \<and> (\<forall>v \<in> set u'. is_i16 v)"
proof (induction rp u amp arbitrary: out u' rule: short_term_analysis_filtering.induct)
  case (2 rp u a amp)
  obtain d u1 where l: "analysis_lattice rp u a a = (d, u1)" by fastforce
  obtain ds u2 where f: "short_term_analysis_filtering rp u1 amp = (ds, u2)" by fastforce
  have u1: "length u1 = length u" "\<forall>v \<in> set u1. is_i16 v"
    using analysis_lattice_ok [OF 2(2) l] by auto
  then have "length ds = length amp \<and> (\<forall>v \<in> set ds. is_i16 v) \<and> length u2 = length u1 \<and> (\<forall>v \<in> set u2. is_i16 v)"
    using 2(1) [OF l [symmetric] refl _ u1(2) f] 2(2) by simp
  then show ?case using 2(4) l f u1 by auto
qed auto

lemma synthesis_lattice_ok:
  "is_i16 sri \<Longrightarrow> \<forall>v \<in> set v. is_i16 v \<Longrightarrow> synthesis_lattice n rrp v sri = (s', v') \<Longrightarrow>
     is_i16 s' \<and> length v' = length v \<and> (\<forall>v \<in> set v'. is_i16 v)"
proof (induction n rrp v sri arbitrary: s' v' rule: synthesis_lattice.induct)
  case (2 i rrp v sri)
  let ?s = "saturated_sub16 sri (lattice_mult (rrp ! i) (v ! i))"
  let ?v = "v[i + 1 := saturated_add16 (v ! i) (lattice_mult (rrp ! i) ?s)]"
  have "\<forall>v \<in> set ?v. is_i16 v" using 2(3) by (rule ball_list_update) simp
  moreover have "synthesis_lattice i rrp ?v ?s = (s', v')" using 2(4) by (simp add: Let_def)
  ultimately show ?case using 2(1) [OF refl refl refl, of s' v'] by simp
qed auto

lemma synthesis_filtering_ok:
  "\<forall>v \<in> set v. is_i16 v \<Longrightarrow> \<forall>w \<in> set wt. is_i16 w \<Longrightarrow>
     short_term_synthesis_filtering rrp v wt = (out, v') \<Longrightarrow>
     length out = length wt \<and> (\<forall>v \<in> set out. is_i16 v) \<and> length v' = length v \<and> (\<forall>v \<in> set v'. is_i16 v)"
proof (induction rrp v wt arbitrary: out v' rule: short_term_synthesis_filtering.induct)
  case (2 rrp v w wt)
  obtain sri v1 where l: "synthesis_lattice 8 rrp v w = (sri, v1)" by fastforce
  obtain ds v2 where f: "short_term_synthesis_filtering rrp (v1[0 := sri]) wt = (ds, v2)" by fastforce
  have w: "is_i16 w" using 2(3) by simp
  have v1: "is_i16 sri" "length v1 = length v" "\<forall>v \<in> set v1. is_i16 v"
    using synthesis_lattice_ok [OF w 2(2) l] by auto
  then have "\<forall>v \<in> set (v1[0 := sri]). is_i16 v" by (intro ball_list_update)
  then have "length ds = length wt \<and> (\<forall>v \<in> set ds. is_i16 v) \<and> length v2 = length v \<and> (\<forall>v \<in> set v2. is_i16 v)"
    using 2(1) [OF l [symmetric] refl _ _ f] 2(3) v1(2) by simp
  then show ?case using 2(4) l f v1 by auto
qed auto

text \<open>The four segments of a frame, for any filter that keeps lengths and 16 bit values.\<close>

definition filter_keeps ::
    "(int list \<Rightarrow> int list \<Rightarrow> int list \<Rightarrow> int list \<times> int list) \<Rightarrow> nat \<Rightarrow> bool" where
  "filter_keeps filt n \<longleftrightarrow>
     (\<forall>rp m amp out m'. length rp = 8 \<longrightarrow> length m = n \<longrightarrow> (\<forall>v \<in> set m. is_i16 v) \<longrightarrow>
        (\<forall>v \<in> set amp. is_i16 v) \<longrightarrow> filt rp m amp = (out, m') \<longrightarrow>
        length out = length amp \<and> (\<forall>v \<in> set out. is_i16 v) \<and> length m' = n \<and> (\<forall>v \<in> set m'. is_i16 v))"

lemma filter_keepsD:
  assumes "filter_keeps filt n" and "length rp = 8" and "length m = n \<and> (\<forall>v \<in> set m. is_i16 v)"
    and "\<forall>v \<in> set amp. is_i16 v" and "filt rp m amp = (out, m')"
  shows "length out = length amp \<and> (\<forall>v \<in> set out. is_i16 v)"
    and "length m' = n \<and> (\<forall>v \<in> set m'. is_i16 v)"
  using assms unfolding filter_keeps_def by blast+

lemma analysis_keeps: "filter_keeps short_term_analysis_filtering 8"
  unfolding filter_keeps_def
proof (intro allI impI)
  fix rp m amp out m' :: "int list"
  assume m: "length m = 8" and rp: "length rp = 8" and i: "\<forall>v \<in> set m. is_i16 v"
    and run: "short_term_analysis_filtering rp m amp = (out, m')"
  have "length rp = length m" using m rp by simp
  from analysis_filtering_ok [OF this i run]
  show "length out = length amp \<and> (\<forall>v \<in> set out. is_i16 v) \<and> length m' = 8 \<and> (\<forall>v \<in> set m'. is_i16 v)"
    unfolding m .
qed

lemma synthesis_keeps: "filter_keeps short_term_synthesis_filtering 9"
  unfolding filter_keeps_def
proof (intro allI impI)
  fix rp m amp out m' :: "int list"
  assume m: "length m = 9" and i: "\<forall>v \<in> set m. is_i16 v" "\<forall>v \<in> set amp. is_i16 v"
    and run: "short_term_synthesis_filtering rp m amp = (out, m')"
  from synthesis_filtering_ok [OF i run]
  show "length out = length amp \<and> (\<forall>v \<in> set out. is_i16 v) \<and> length m' = 9 \<and> (\<forall>v \<in> set m'. is_i16 v)"
    unfolding m .
qed

lemma filter_segments_ok:
  assumes keeps: "filter_keeps filt n" and p: "length prev = 8" and c: "length cur = 8"
    and m: "length m = n \<and> (\<forall>v \<in> set m. is_i16 v)"
    and amp: "length amp = 160" "\<forall>v \<in> set amp. is_i16 v"
    and run: "filter_segments filt prev cur m amp = (out, m')"
  shows "length out = 160 \<and> (\<forall>v \<in> set out. is_i16 v) \<and> length m' = n \<and> (\<forall>v \<in> set m'. is_i16 v)"
proof -
  note len = coefficients_ok [OF p c]
  have rp: "length (larp_to_rp x) = 8" if "length x = 8" for x using that by (simp add: larp_to_rp_def)
  have part: "\<forall>v \<in> set (take i (drop j amp)). is_i16 v" for i j
    using amp(2) by (auto dest!: in_set_takeD in_set_dropD)
  obtain a1 m1 where s1: "filt (larp_to_rp (coefficients_0_12 prev cur)) m (take 13 amp) = (a1, m1)" by fastforce
  obtain a2 m2 where s2: "filt (larp_to_rp (coefficients_13_26 prev cur)) m1 (take 14 (drop 13 amp)) = (a2, m2)"
    by fastforce
  obtain a3 m3 where s3: "filt (larp_to_rp (coefficients_27_39 prev cur)) m2 (take 13 (drop 27 amp)) = (a3, m3)"
    by fastforce
  obtain a4 m4 where s4: "filt (larp_to_rp (coefficients_40_159 cur)) m3 (take 120 (drop 40 amp)) = (a4, m4)"
    by fastforce
  have take0: "\<forall>v \<in> set (take 13 amp). is_i16 v" using part [of 13 0] by simp
  note k1 = filter_keepsD [OF keeps rp [OF len(1)] m take0 s1]
  note k2 = filter_keepsD [OF keeps rp [OF len(2)] k1(2) part s2]
  note k3 = filter_keepsD [OF keeps rp [OF len(3)] k2(2) part s3]
  note k4 = filter_keepsD [OF keeps rp [OF len(4)] k3(2) part s4]
  have "out = a1 @ a2 @ a3 @ a4 \<and> m' = m4"
    using run s1 s2 s3 s4 by (simp add: filter_segments_def)
  then show ?thesis using k1(1) k2(1) k3(1) k4 amp(1) by auto
qed

subsection \<open>The state of the codec\<close>

definition gsm_ok :: "gsm0610_state \<Rightarrow> bool" where
  "gsm_ok s \<longleftrightarrow>
     length (dp0_st s) = 280 \<and> (\<forall>v \<in> set (dp0_st s). is_i16 v) \<and>
     pre_ok (z1 s, L_z2 s, mp s) \<and>
     length (u_st s) = 8 \<and> (\<forall>v \<in> set (u_st s). is_i16 v) \<and>
     length (v_st s) = 9 \<and> (\<forall>v \<in> set (v_st s). is_i16 v) \<and>
     length (LARpp s) = 2 \<and> (\<forall>l \<in> set (LARpp s). length l = 8) \<and> j_st s < 2 \<and>
     40 \<le> nrp s \<and> nrp s \<le> 120 \<and> is_i16 (msr s) \<and> length (e_st s) = 50"

lemma gsm0610_init_ok: "gsm_ok (gsm0610_init pk)"
  by (simp add: gsm_ok_def gsm0610_init_def pre_ok_def is_i16_def)

lemma j_toggle: "j < 2 \<Longrightarrow> j XOR 1 < 2 \<and> j XOR 1 \<noteq> (j :: nat)"
  by (cases "j = 0") (auto simp: less_2_cases_iff)

lemma short_term_filter_ok:
  assumes ok: "gsm_ok s" and larc: "length LARc = 8" and amp: "length amp = 160" "\<forall>v \<in> set amp. is_i16 v"
  shows "gsm0610_short_term_analysis_filter s LARc amp = (out, s') \<Longrightarrow>
      gsm_ok s' \<and> length out = 160 \<and> (\<forall>v \<in> set out. is_i16 v) \<and> dp0_st s' = dp0_st s \<and> packing s' = packing s"
    and "gsm0610_short_term_synthesis_filter s LARc amp = (out, s') \<Longrightarrow>
      gsm_ok s' \<and> length out = 160 \<and> (\<forall>v \<in> set out. is_i16 v) \<and> dp0_st s' = dp0_st s \<and> packing s' = packing s"
proof -
  let ?L = "(LARpp s)[j_st s := decode_log_area_ratios LARc]"
  have "\<forall>l \<in> set ?L. length l = 8"
    using ok decode_log_area_ratios_ok [OF larc] by (intro ball_list_update) (simp_all add: gsm_ok_def)
  then have L: "length ?L = 2" "\<forall>l \<in> set ?L. length l = 8" using ok by (simp_all add: gsm_ok_def)
  have j: "j_st s < 2" "j_st s XOR 1 < 2" using ok j_toggle by (auto simp: gsm_ok_def)
  then have p: "length (?L ! (j_st s XOR 1)) = 8" and c: "length (?L ! j_st s) = 8"
    using L decode_log_area_ratios_ok [OF larc] by simp_all
  have u: "length (u_st s) = 8 \<and> (\<forall>v \<in> set (u_st s). is_i16 v)"
    and v: "length (v_st s) = 9 \<and> (\<forall>v \<in> set (v_st s). is_i16 v)" using ok by (simp_all add: gsm_ok_def)
  {
    assume run: "gsm0610_short_term_analysis_filter s LARc amp = (out, s')"
    obtain a m where f: "filter_segments short_term_analysis_filtering (?L ! (j_st s XOR 1)) (?L ! j_st s) (u_st s) amp = (a, m)"
      by fastforce
    have "out = a" "s' = s\<lparr>LARpp := ?L, j_st := j_st s XOR 1, u_st := m\<rparr>"
      using run f by (auto simp: gsm0610_short_term_analysis_filter_def Let_def)
    then show "gsm_ok s' \<and> length out = 160 \<and> (\<forall>v \<in> set out. is_i16 v) \<and> dp0_st s' = dp0_st s \<and> packing s' = packing s"
      using filter_segments_ok [OF analysis_keeps p c u amp f] ok L j by (simp add: gsm_ok_def)
  next
    assume run: "gsm0610_short_term_synthesis_filter s LARc amp = (out, s')"
    obtain a m where f: "filter_segments short_term_synthesis_filtering (?L ! (j_st s XOR 1)) (?L ! j_st s) (v_st s) amp = (a, m)"
      by fastforce
    have "out = a" "s' = s\<lparr>LARpp := ?L, j_st := j_st s XOR 1, v_st := m\<rparr>"
      using run f by (auto simp: gsm0610_short_term_synthesis_filter_def Let_def)
    then show "gsm_ok s' \<and> length out = 160 \<and> (\<forall>v \<in> set out. is_i16 v) \<and> dp0_st s' = dp0_st s \<and> packing s' = packing s"
      using filter_segments_ok [OF synthesis_keeps p c v amp f] ok L j by (simp add: gsm_ok_def)
  }
qed

subsection \<open>The lag search\<close>

definition lag_corr :: "int list \<Rightarrow> int list \<Rightarrow> nat \<Rightarrow> nat \<Rightarrow> int" where
  "lag_corr wt dp0 base i = dot_prod wt (take 40 (drop (base - i) dp0))"

lemma argmax_fold:
  fixes f :: "nat \<Rightarrow> int"
  assumes "foldl (\<lambda>(mx, index) i. if f i > mx then (f i, i) else (mx, index)) (m0, k0) ks = (m, k)"
  shows "m0 \<le> m \<and> (\<forall>i \<in> set ks. f i \<le> m) \<and>
    ((m = m0 \<and> k = k0 \<and> (\<forall>i \<in> set ks. f i \<le> m0)) \<or>
     (m0 < m \<and> m = f k \<and> (\<exists>xs ys. ks = xs @ k # ys \<and> (\<forall>i \<in> set xs. f i < m))))"
  using assms
proof (induction ks arbitrary: m k rule: rev_induct)
  case (snoc i xs)
  obtain m' k' where pre: "foldl (\<lambda>(mx, index) i. if f i > mx then (f i, i) else (mx, index)) (m0, k0) xs = (m', k')"
    by fastforce
  note ih = snoc.IH [OF pre]
  show ?case
  proof (cases "f i > m'")
    case True
    then have mk: "m = f i" "k = i" using snoc.prems pre by auto
    have "\<forall>j \<in> set xs. f j \<le> m'" and m0: "m0 < f i" using ih True by auto
    then have less: "\<forall>j \<in> set xs. f j < f i" using True by force
    have "\<exists>us vs. xs @ [i] = us @ k # vs \<and> (\<forall>j \<in> set us. f j < m)"
      using less mk by (intro exI [of _ xs] exI [of _ "[]"]) simp
    then show ?thesis using less m0 mk by auto
  next
    case False
    then have mk: "m = m'" "k = k'" using snoc.prems pre by auto
    have "\<exists>us vs. xs @ [i] = us @ k # vs \<and> (\<forall>j \<in> set us. f j < m)"
      if "xs = us @ k # vs" "\<forall>j \<in> set us. f j < m" for us vs
      using that by (intro exI [of _ us] exI [of _ "vs @ [i]"]) simp
    then show ?thesis using ih False mk by auto
  qed
qed simp

definition lags :: "nat list" where "lags = [40..<121]"

lemma lags_simps: "i \<in> set lags \<longleftrightarrow> 40 \<le> i \<and> i \<le> 120" "sorted_wrt (<) lags"
  by (auto simp only: lags_def set_upt atLeastLessThan_iff sorted_wrt_upt)

lemma max_cross_corr_spec:
  assumes "gsm0610_max_cross_corr wt dp0 base = (mx, Nc)"
  shows "0 \<le> mx \<and> 40 \<le> Nc \<and> Nc \<le> 120 \<and> (\<forall>i. 40 \<le> i \<longrightarrow> i \<le> 120 \<longrightarrow> lag_corr wt dp0 base i \<le> mx) \<and>
    (if mx = 0 then Nc = 40
     else mx = lag_corr wt dp0 base Nc \<and> (\<forall>i. 40 \<le> i \<longrightarrow> i < Nc \<longrightarrow> lag_corr wt dp0 base i < mx))"
proof -
  have "foldl (\<lambda>(mx, index) i. if lag_corr wt dp0 base i > mx then (lag_corr wt dp0 base i, i) else (mx, index))
      (0, 40) lags = (mx, Nc)"
    using assms unfolding gsm0610_max_cross_corr_def lag_corr_def Let_def lags_def .
  note f = argmax_fold [OF this]
  have all: "0 \<le> mx" "\<And>i. 40 \<le> i \<Longrightarrow> i \<le> 120 \<Longrightarrow> lag_corr wt dp0 base i \<le> mx"
    using f by (simp_all add: lags_simps)
  show ?thesis
  proof (cases "mx = 0")
    case True
    then have "Nc = 40" using f by simp
    then show ?thesis using all True by simp
  next
    case False
    then have m: "mx = lag_corr wt dp0 base Nc" using f by auto
    obtain xs ys where split: "lags = xs @ Nc # ys" and less: "\<forall>i \<in> set xs. lag_corr wt dp0 base i < mx"
      using f False by auto
    have n: "40 \<le> Nc \<and> Nc \<le> 120" using lags_simps(1) [of Nc] unfolding split by simp
    have "i \<in> set xs" if "40 \<le> i" "i < Nc" for i
    proof -
      have "i \<in> set (xs @ Nc # ys)" unfolding split [symmetric] using that n by (simp add: lags_simps)
      then show ?thesis using that lags_simps(2) unfolding split by (auto simp: sorted_wrt_append)
    qed
    then have "\<forall>i. 40 \<le> i \<longrightarrow> i < Nc \<longrightarrow> lag_corr wt dp0 base i < mx" using less by blast
    then show ?thesis using all m n False by simp
  qed
qed

subsection \<open>The long term predictor is total\<close>

lemma ltp_scale_ok:
  assumes d: "\<forall>x \<in> set d. is_i16 x"
  obtains n where "ltp_scale d = Some (int n)" and "n \<le> 6" and "\<forall>x \<in> set d. \<bar>asr x n\<bar> \<le> 512"
proof (cases "max_abs16 d = 0")
  case True
  have "\<bar>asr x 6\<bar> \<le> 512" if "x \<in> set d" for x
  proof -
    have "saturated_abs16 x \<le> 0" using max_abs16_range [OF d] that True by auto
    then have "x = 0" using d that by (auto simp: saturated_abs16_eq)
    then show ?thesis by (simp add: asr_def)
  qed
  then show ?thesis using True that [of 6] by (simp add: ltp_scale_def is_i16_def)
next
  case False
  let ?m = "max_abs16 d"
  have m: "0 < ?m" "?m \<le> 32767" using max_abs16_range [OF d] False by auto
  then have "0 < shl ?m 16" "shl ?m 16 < 2147483648" by (simp_all add: shl_def)
  then obtain n where n: "gsm0610_norm (shl ?m 16) = Some (int n)" "n \<le> 30"
    and hi: "shl ?m 16 * 2 ^ n < 2 ^ 31" by (rule gsm0610_norm_pos)
  have mn: "?m * 2 ^ n < 32768" using hi by (simp add: shl_def)
  have sat: "saturated_abs16 x \<le> ?m" if "x \<in> set d" for x
    using max_abs16_range [OF d] that by simp
  show ?thesis
  proof (cases "n \<le> 6")
    case True
    have "\<bar>asr x (6 - n)\<bar> \<le> 512" if x: "x \<in> set d" for x
    proof -
      have p: "(32768 :: int) = 512 * 2 ^ (6 - n) * 2 ^ n"
        using True by (simp add: mult.assoc power_add [symmetric])
      have "?m * 2 ^ n < 512 * 2 ^ (6 - n) * 2 ^ n" using mn unfolding p .
      then have "?m < 512 * 2 ^ (6 - n)" by (rule mult_right_less_imp_less) simp
      moreover have "\<bar>x\<bar> \<le> saturated_abs16 x + 1" using d x by (auto simp: saturated_abs16_eq is_i16_def)
      ultimately have b: "\<bar>x\<bar> \<le> 512 * 2 ^ (6 - n)" using sat [OF x] by linarith
      have "(512 :: int) * 2 ^ (6 - n) < (512 + 1) * 2 ^ (6 - n)" by simp
      then have "- 512 \<le> asr x (6 - n) \<and> asr x (6 - n) \<le> 512" using b by (intro asr_bounds) linarith+
      then show ?thesis by (simp add: abs_le_iff)
    qed
    then show ?thesis using True m n that [of "6 - n"] by (simp add: ltp_scale_def is_i16_def of_nat_diff)
  next
    case False
    have "(2::int) ^ 7 \<le> 2 ^ n" using False by (intro power_increasing) auto
    then have "?m * 128 \<le> ?m * 2 ^ n" using m by simp
    then have "?m < 256" using mn by linarith
    then have "\<bar>x\<bar> \<le> 512" if "x \<in> set d" for x
      using sat [OF that] d that by (auto simp: saturated_abs16_eq)
    then show ?thesis using False m n that [of 0] by (simp add: ltp_scale_def)
  qed
qed

text \<open>
  The correlations and the power of the reconstructed signal, doubled, fit 32 bits; the coded
  gain and the lag are in range.
\<close>

lemma cross_corr_bound:
  assumes wt: "\<forall>x \<in> set wt. \<bar>x\<bar> \<le> 512" "length wt = 40" and dp: "\<forall>v \<in> set dp0. is_i16 v"
  shows "\<bar>shl (lag_corr wt dp0 base i) 1\<bar> \<le> 1342177280"
proof -
  have "\<forall>b \<in> set (take 40 (drop (base - i) dp0)). \<bar>b\<bar> \<le> 32768"
    using dp by (auto simp: is_i16_def dest!: in_set_takeD in_set_dropD)
  then have "\<bar>lag_corr wt dp0 base i\<bar> \<le> int 40 * (512 * 32768)"
    using wt unfolding lag_corr_def by (intro dot_prod_bound) auto
  then show ?thesis by (simp add: shl_def abs_mult)
qed

lemma power_bound:
  assumes "\<forall>v \<in> set dp0. is_i16 v"
  shows "(let h = map (\<lambda>x. asr x 3) (take 40 (drop n dp0)) in shl (dot_prod h h) 1) \<le> 1342177280"
proof -
  let ?h = "map (\<lambda>x. asr x 3) (take 40 (drop n dp0))"
  have "\<bar>asr x 3\<bar> \<le> 4096" if "is_i16 x" for x
    using that asr_bounds [of "- 4096" 3 x 4096] by (simp add: is_i16_def abs_le_iff)
  then have h: "\<forall>x \<in> set ?h. \<bar>x\<bar> \<le> 4096"
    using assms by (auto dest!: in_set_takeD in_set_dropD)
  have "\<bar>dot_prod ?h ?h\<bar> \<le> int 40 * (4096 * 4096)"
    by (intro dot_prod_bound [OF h h]) auto
  then show ?thesis by (simp add: shl_def Let_def)
qed

lemma code_gain_range: "0 \<le> code_gain R S \<and> code_gain R S \<le> 3"
  by (simp add: code_gain_def)

lemma evaluate_ltp_ok:
  assumes d: "\<forall>x \<in> set d. is_i16 x" and dp: "\<forall>v \<in> set dp0. is_i16 v"
  obtains bc Nc where "evaluate_ltp_parameters d dp0 base = Some (bc, Nc)"
    and "0 \<le> bc" "bc \<le> 3" and "40 \<le> Nc" "Nc \<le> 120"
proof -
  obtain n where n: "ltp_scale d = Some (int n)" "n \<le> 6" using ltp_scale_ok [OF d] by blast
  obtain mx Nc where c: "gsm0610_max_cross_corr (map (\<lambda>x. asr x n) d) dp0 base = (mx, Nc)" by fastforce
  have Nc: "40 \<le> Nc" "Nc \<le> 120" using max_cross_corr_spec [OF c] by simp_all
  define L where "L = asr (shl mx 1) (nat (6 - int n))"
  define W where "W = (let h = map (\<lambda>x. asr x 3) (take 40 (drop (base - Nc) dp0)) in shl (dot_prod h h) 1)"
  have W: "W \<le> 1342177280" unfolding W_def by (rule power_bound [OF dp])
  have e: "evaluate_ltp_parameters d dp0 base =
      (if L \<le> 0 then Some (0, Nc) else if L \<ge> W then Some (3, Nc)
       else do { temp \<leftarrow> gsm0610_norm W;
                 Some (code_gain (i16 (asr (shl L (nat temp)) 16)) (i16 (asr (shl W (nat temp)) 16)), Nc) })"
    using n c Nc by (simp add: evaluate_ltp_parameters_def L_def W_def Let_def)
  show ?thesis
  proof (cases "0 < L \<and> L < W")
    case True
    then obtain t where "gsm0610_norm W = Some (int t)" using gsm0610_norm_pos [of W] W by auto
    then show ?thesis using that Nc True code_gain_range by (simp add: e)
  next
    case False
    then have "L \<le> 0 \<or> W \<le> L" by auto
    then show ?thesis using that [of 0 Nc] that [of 3 Nc] Nc by (cases "L \<le> 0") (simp_all add: e)
  qed
qed

lemma shift_keeps:
  assumes "length dp = 280" and "\<forall>v \<in> set dp. P v" and "\<forall>k \<in> set ks. k < 120"
  shows "length (foldl (\<lambda>dp k. dp[k := dp ! (k + 40)]) dp ks) = 280 \<and>
    (\<forall>v \<in> set (foldl (\<lambda>dp k. dp[k := dp ! (k + 40)]) dp ks). P v)"
  using assms
proof (induction ks arbitrary: dp)
  case (Cons k ks)
  have "\<forall>v \<in> set (dp[k := dp ! (k + 40)]). P v"
    using Cons.prems by (intro ball_list_update) simp_all
  then show ?case using Cons.IH [of "dp[k := dp ! (k + 40)]"] Cons.prems by simp
qed simp

lemma gain_level_ok: "0 \<le> bc \<Longrightarrow> bc \<le> 3 \<Longrightarrow> \<exists>q. gain_level bc = Some q \<and> q \<noteq> - 32768"
  by (auto simp: gain_level_def gsm_QLB_def nth_Cons split: nat.splits)

lemma long_term_predictor_ok:
  assumes d: "\<forall>x \<in> set d. is_i16 x" and dp: "\<forall>v \<in> set dp0. is_i16 v"
  obtains Nc bc dp' e where "gsm0610_long_term_predictor d dp0 base = Some (Nc, bc, dp', e)"
    and "0 \<le> bc" "bc \<le> 3" and "40 \<le> Nc" "Nc \<le> 120"
    and "length dp' = length dp0" and "\<forall>v \<in> set dp'. is_i16 v"
    and "length e = 40" and "\<forall>v \<in> set e. is_i16 v"
proof -
  obtain bc Nc where p: "evaluate_ltp_parameters d dp0 base = Some (bc, Nc)"
    and r: "0 \<le> bc" "bc \<le> 3" "40 \<le> Nc" "Nc \<le> 120" using evaluate_ltp_ok [OF d dp] .
  obtain q where q: "gain_level bc = Some q" using gain_level_ok [OF r(1,2)] by blast
  define dp' where "dp' = foldl (\<lambda>dp k. dp[base + k := gsm_mult_r q (dp ! (base + k - Nc))]) dp0 [0..<40]"
  have keep: "length dp' = length dp0 \<and> (\<forall>v \<in> set dp'. is_i16 v)"
    unfolding dp'_def by (rule foldl_update_keeps [OF _ dp]) simp
  have "gsm0610_long_term_predictor d dp0 base =
      Some (int Nc, bc, dp', map (\<lambda>k. saturated_sub16 (d ! k) (dp' ! (base + k))) [0..<40])"
    unfolding gsm0610_long_term_predictor_def long_term_analysis_filtering_def p
    using q by (simp add: dp'_def Let_def del: upt_rec_numeral)
  then show ?thesis by (rule that) (use r keep in \<open>auto simp del: upt_rec_numeral\<close>)
qed

lemma long_term_synthesis_ok:
  assumes ok: "gsm_ok s" and bc: "0 \<le> bc" "bc \<le> 3"
  obtains nr dp where "gsm0610_long_term_synthesis_filtering s Nc bc erp = Some (s\<lparr>nrp := nr, dp0_st := dp\<rparr>)"
    and "gsm_ok (s\<lparr>nrp := nr, dp0_st := dp\<rparr>)"
proof -
  define nr where "nr = (if Nc < 40 \<or> Nc > 120 then nrp s else Nc)"
  have nr: "40 \<le> nr" "nr \<le> 120" using ok by (auto simp: nr_def gsm_ok_def)
  obtain q where q: "gain_level bc = Some q" "q \<noteq> - 32768" using gain_level_ok [OF bc] by blast
  define dp1 where "dp1 = foldl (\<lambda>dp k. dp[120 + k := saturated_add16 (erp ! k)
      (gsm_mult_r q (dp ! (120 + k - nat nr)))]) (dp0_st s) [0..<40]"
  define dp2 where "dp2 = foldl (\<lambda>dp k. dp[k := dp ! (k + 40)]) dp1 [0..<120]"
  have d0: "length (dp0_st s) = 280" "\<forall>v \<in> set (dp0_st s). is_i16 v" using ok by (simp_all add: gsm_ok_def)
  have d1: "length dp1 = length (dp0_st s) \<and> (\<forall>v \<in> set dp1. is_i16 v)"
    unfolding dp1_def by (rule foldl_update_keeps [OF _ d0(2)]) simp
  have d2: "length dp2 = 280 \<and> (\<forall>v \<in> set dp2. is_i16 v)"
    unfolding dp2_def by (rule shift_keeps) (use d0 d1 in auto)
  have "gsm0610_long_term_synthesis_filtering s Nc bc erp = Some (s\<lparr>nrp := nr, dp0_st := dp2\<rparr>)"
    unfolding gsm0610_long_term_synthesis_filtering_def nr_def [symmetric]
    using q nr by (simp add: dp1_def dp2_def Let_def del: upt_rec_numeral)
  then show ?thesis by (rule that) (use ok nr d2 in \<open>simp add: gsm_ok_def\<close>)
qed

subsection \<open>Properties\<close>



end
