(* ===== verification/Gsm_Rpe.thy ===== *)
theory Gsm_Rpe
  imports Gsm_Lpc
begin

text \<open>
  The regular pulse excitation of GSM 06.10: \<open>gsm0610_rpe.c\<close> in its portable branch. A result
  \<open>None\<close> is a failing \<open>assert\<close>, or, in the mantissa loop, a loop that does not end.
\<close>

subsection \<open>Encoding\<close>

definition gsm_H :: "int list" where
  "gsm_H = [-134, -374, 0, 2054, 5741, 8192, 5741, 2054, 0, -374, -134]"

text \<open>\<open>e\<close> is the array of 50 of the state: \<open>e[-5]\<close> of the code is its first element.\<close>

definition weighting_filter :: "int list \<Rightarrow> int list" where
  "weighting_filter e =
     map (\<lambda>k. saturate (asr (4096 + dot_prod gsm_H (take 11 (drop k e))) 13)) [0..<40]"

definition grid_energy :: "int list \<Rightarrow> nat \<Rightarrow> nat list \<Rightarrow> int" where
  "grid_energy x m is = (\<Sum>i \<leftarrow> is. asr (x ! (m + 3 * i)) 2 * asr (x ! (m + 3 * i)) 2)"

definition rpe_grid_selection :: "int list \<Rightarrow> int list \<times> nat" where
  "rpe_grid_selection x =
     (let L_common_0_3 = grid_energy x 0 [1..<13];
          EM = shl (L_common_0_3 + grid_energy x 0 [0]) 1;
          L1 = shl (grid_energy x 1 [0..<13]) 1;
          (Mc, EM) = (if L1 > EM then (1, L1) else (0, EM));
          L2 = shl (grid_energy x 2 [0..<13]) 1;
          (Mc, EM) = (if L2 > EM then (2, L2) else (Mc, EM));
          L3 = shl (L_common_0_3 + grid_energy x 3 [12]) 1;
          Mc = (if L3 > EM then 3 else Mc)
      in (map (\<lambda>i. x ! (Mc + 3 * i)) [0..<13], Mc))"

partial_function (option) mant_loop :: "int \<Rightarrow> int \<Rightarrow> (int \<times> int) option" where
  "mant_loop exp mant =
     (if mant \<le> 7 then mant_loop (i16 (exp - 1)) (i16 (shl mant 1 OR 1)) else Some (exp, mant))"

declare mant_loop.simps [code]

text \<open>The result is the exponent with the mantissa.\<close>

definition apcm_quantization_xmaxc_to_exp_mant :: "int \<Rightarrow> (int \<times> int) option" where
  "apcm_quantization_xmaxc_to_exp_mant xmaxc =
     do { let exp = (if xmaxc > 15 then i16 (asr xmaxc 3 - 1) else 0);
          let mant = i16 (xmaxc - shl exp 3);
          (exp, mant) \<leftarrow> (if mant = 0 then Some (- 4, 7)
                           else do { (exp, mant) \<leftarrow> mant_loop exp mant; Some (exp, i16 (mant - 8)) });
          require (exp \<ge> - 4 \<and> exp \<le> 6);
          require (mant \<ge> 0 \<and> mant \<le> 7);
          Some (exp, mant) }"

definition gsm_NRFAC :: "int list" where
  "gsm_NRFAC = [29128, 26215, 23832, 21846, 20165, 18725, 17476, 16384]"

definition gsm_FAC :: "int list" where
  "gsm_FAC = [18431, 20479, 22527, 24575, 26623, 28671, 30719, 32767]"

text \<open>The loop over \<open>i\<close> that finds the exponent of \<open>xmax\<close>: \<open>k\<close> turns are left.\<close>

fun exp_loop :: "nat \<Rightarrow> bool \<Rightarrow> int \<Rightarrow> int \<Rightarrow> int option" where
  "exp_loop 0 itest temp exp = Some exp"
| "exp_loop (Suc k) itest temp exp =
     (let itest = (itest \<or> temp \<le> 0) in
      do { require (exp \<le> 5);
           exp_loop k itest (asr temp 1) (if \<not> itest then exp + 1 else exp) })"

definition quantize_sample :: "int \<Rightarrow> int \<Rightarrow> int \<Rightarrow> int option" where
  "quantize_sample temp1 temp2 x =
     do { require (temp1 \<ge> 0 \<and> temp1 < 16);
          let temp = i16 (shl x (nat temp1));
          let temp = saturated_mul16 temp temp2;
          let temp = asr temp 12;
          Some (i16 (temp + 4)) }"

text \<open>The results are \<open>xMc\<close>, \<open>mant\<close>, \<open>exp\<close> and \<open>xmaxc\<close>.\<close>

definition apcm_quantization :: "int list \<Rightarrow> (int list \<times> int \<times> int \<times> int) option" where
  "apcm_quantization xM =
     do { let xmax = max_abs16 xM;
          exp \<leftarrow> exp_loop 6 False (asr xmax 9) 0;
          require (exp \<le> 6 \<and> exp \<ge> 0);
          let temp = i16 (exp + 5);
          require (temp \<le> 11 \<and> temp \<ge> 0);
          let xmaxc = saturated_add16 (asr xmax (nat temp)) (shl exp 3);
          (exp, mant) \<leftarrow> apcm_quantization_xmaxc_to_exp_mant xmaxc;
          require (exp \<le> 4096 \<and> exp \<ge> - 4096);
          require (mant \<ge> 0 \<and> mant \<le> 7);
          let temp1 = i16 (6 - exp);
          let temp2 = gsm_NRFAC ! nat mant;
          xMc \<leftarrow> map_option_list (quantize_sample temp1 temp2) xM;
          Some (xMc, mant, exp, xmaxc) }"

subsection \<open>Decoding\<close>

definition dequantize_sample :: "int \<Rightarrow> int \<Rightarrow> int \<Rightarrow> int \<Rightarrow> int option" where
  "dequantize_sample temp1 temp2 temp3 x =
     do { require (x \<ge> 0 \<and> x \<le> 7);
          let temp = i16 (shl x 1 - 7);
          require (temp \<le> 7 \<and> temp \<ge> - 7);
          let temp = i16 (shl temp 12);
          let temp = gsm_mult_r temp1 temp;
          let temp = saturated_add16 temp temp3;
          Some (gsm_asr temp temp2) }"

definition apcm_inverse_quantization :: "int list \<Rightarrow> int \<Rightarrow> int \<Rightarrow> int list option" where
  "apcm_inverse_quantization xMc mant exp =
     do { temp1 \<leftarrow> mem_get gsm_FAC (nat mant);
          let temp2 = saturated_sub16 6 exp;
          let temp3 = gsm_asl 1 (saturated_sub16 temp2 1);
          map_option_list (dequantize_sample temp1 temp2 temp3) xMc }"

text \<open>
  The switch enters the loop in its middle: \<open>Mc\<close> zeros come before the first pulse, two before
  each of the others, and the last loop fills up to 40.
\<close>

definition rpe_grid_positioning :: "int \<Rightarrow> int list \<Rightarrow> int list option" where
  "rpe_grid_positioning Mc xMp =
     do { require (0 \<le> Mc \<and> Mc \<le> 3);
          Some (replicate (nat Mc) 0 @ hd xMp # concat (map (\<lambda>x. [0, 0, x]) (tl xMp)) @
                replicate (nat (3 - Mc)) 0) }"

text \<open>The results are \<open>xmaxc\<close>, \<open>Mc\<close>, \<open>xMc\<close> and \<open>e\<close> with its middle replaced.\<close>

definition gsm0610_rpe_encoding :: "int list \<Rightarrow> (int \<times> int \<times> int list \<times> int list) option" where
  "gsm0610_rpe_encoding e =
     do { let x = weighting_filter e;
          let (xM, Mc) = rpe_grid_selection x;
          (xMc, mant, exp, xmaxc) \<leftarrow> apcm_quantization xM;
          xMp \<leftarrow> apcm_inverse_quantization xMc mant exp;
          ep \<leftarrow> rpe_grid_positioning (int Mc) xMp;
          e' \<leftarrow> mem_write e 5 ep;
          Some (xmaxc, int Mc, xMc, e') }"

definition gsm0610_rpe_decoding :: "int \<Rightarrow> int \<Rightarrow> int list \<Rightarrow> int list option" where
  "gsm0610_rpe_decoding xmaxc Mcr xMcr =
     do { (exp, mant) \<leftarrow> apcm_quantization_xmaxc_to_exp_mant xmaxc;
          xMp \<leftarrow> apcm_inverse_quantization xMcr mant exp;
          rpe_grid_positioning Mcr xMp }"

subsection \<open>The quantizer\<close>

text \<open>
  The exponent \<open>k\<close> found by the loop and the top bits of the maximum. The table below is the
  decoded exponent and mantissa of \<open>xmaxc = top + 8 * k\<close>: after normalization the samples are
  below \<open>(mant + 9) * 2048\<close>.
\<close>

lemma exp_table:
  "list_all (\<lambda>t. case exp_loop 6 False t 0 of None \<Rightarrow> False
     | Some k \<Rightarrow> 0 \<le> k \<and> k \<le> 6 \<and> t < 2 ^ nat k \<and> (k = 0 \<or> 2 ^ nat (k - 1) \<le> t)) [0..63]"
  by code_simp

lemma mant_table:
  "list_all (\<lambda>k. list_all (\<lambda>top. (1 \<le> k \<longrightarrow> 8 \<le> top) \<longrightarrow>
     (case apcm_quantization_xmaxc_to_exp_mant (top + 8 * k) of None \<Rightarrow> False
      | Some (e, m) \<Rightarrow> - 4 \<le> e \<and> e \<le> 6 \<and> 0 \<le> m \<and> m \<le> 7 \<and>
          (top + 1) * 2 ^ nat (k + 5) * 2 ^ nat (6 - e) = (m + 9) * 2048)) [0..15]) [0..6]"
  by code_simp

lemma nrfac_table:
  "list_all (\<lambda>m. 16384 \<le> gsm_NRFAC ! nat m \<and> gsm_NRFAC ! nat m \<le> 29128 \<and>
     ((m + 9) * 2048 - 1) * gsm_NRFAC ! nat m < 536870912) [0..7]"
  by code_simp

lemma exp_mant_total:
  assumes "0 \<le> x" and "x \<le> 63"
  obtains e m where "apcm_quantization_xmaxc_to_exp_mant x = Some (e, m)"
    and "- 4 \<le> e" "e \<le> 6" "0 \<le> m" "m \<le> 7"
proof -
  define k where "k = (if x < 16 then 0 else x div 8 - 1)"
  have k: "k \<in> set [0..6]" and top: "x - 8 * k \<in> set [0..15]" and lim: "1 \<le> k \<longrightarrow> 8 \<le> x - 8 * k"
    using assms by (auto simp: k_def)
  have "case apcm_quantization_xmaxc_to_exp_mant (x - 8 * k + 8 * k) of None \<Rightarrow> False
      | Some (e, m) \<Rightarrow> - 4 \<le> e \<and> e \<le> 6 \<and> 0 \<le> m \<and> m \<le> 7 \<and>
          (x - 8 * k + 1) * 2 ^ nat (k + 5) * 2 ^ nat (6 - e) = (m + 9) * 2048"
    using mant_table k top lim unfolding list_all_iff by blast
  then show ?thesis using that by (simp split: option.splits prod.splits)
qed

lemma exp_loop_range:
  assumes "0 \<le> x" and "x \<le> 32767"
  obtains k where "exp_loop 6 False (asr x 9) 0 = Some (int k)" and "k \<le> 6"
    and "asr x (k + 5) \<in> set [0..15]" and "1 \<le> k \<longrightarrow> 8 \<le> asr x (k + 5)"
proof -
  have "asr x 9 \<in> set [0..63]" using assms asr_bounds [of 0 9 x 63] by simp
  then have "case exp_loop 6 False (asr x 9) 0 of None \<Rightarrow> False
     | Some k \<Rightarrow> 0 \<le> k \<and> k \<le> 6 \<and> asr x 9 < 2 ^ nat k \<and> (k = 0 \<or> 2 ^ nat (k - 1) \<le> asr x 9)"
    using exp_table unfolding list_all_iff by blast
  then obtain ki where ki: "exp_loop 6 False (asr x 9) 0 = Some ki" "0 \<le> ki" "ki \<le> 6"
      and hi: "asr x 9 < 2 ^ nat ki" and lo: "ki = 0 \<or> 2 ^ nat (ki - 1) \<le> asr x 9"
    by (auto split: option.splits)
  define k where "k = nat ki"
  have k: "ki = int k" "k \<le> 6" "nat (ki - 1) = k - 1" using ki by (auto simp: k_def)
  have d: "512 * asr x 9 \<le> x" "x < 512 * asr x 9 + 512"
    unfolding asr_def by simp_all
  have p: "(2::int) ^ (k + 5) = 32 * 2 ^ k" by (simp add: power_add)
  have "asr x 9 + 1 \<le> 2 ^ k" using hi k by simp
  then have "x < 512 * 2 ^ k" using d by linarith
  then have top: "0 \<le> asr x (k + 5) \<and> asr x (k + 5) \<le> 15"
    using assms(1) by (intro asr_bounds) (simp_all add: p)
  have "8 \<le> asr x (k + 5)" if "1 \<le> k"
  proof -
    have "(2::int) ^ k = 2 * 2 ^ (k - 1)" using that by (cases k) auto
    moreover have "2 ^ (k - 1) \<le> asr x 9" using lo k that by auto
    ultimately have "8 * 2 ^ (k + 5) \<le> x" using d p by linarith
    then have "asr (shl 8 (k + 5)) (k + 5) \<le> asr x (k + 5)" by (intro asr_mono) (simp add: shl_def)
    then show ?thesis by simp
  qed
  then show ?thesis using that [of k] ki(1) k top by simp
qed

lemma quantize_sample_ok:
  assumes t1: "0 \<le> t1" "t1 < 16" and N: "16384 \<le> N" "N \<le> 29128" and M: "M \<le> 32768" "(M - 1) * N < 536870912"
    and lo: "- (M - 1) \<le> x * 2 ^ nat t1 \<or> (x * 2 ^ nat t1 = - 32768 \<and> N = 16384)"
    and hi: "x * 2 ^ nat t1 \<le> M - 1"
  shows "\<exists>q. quantize_sample t1 N x = Some q \<and> 0 \<le> q \<and> q \<le> 7"
proof -
  define y where "y = x * 2 ^ nat t1"
  have y: "is_i16 y" using lo hi M by (auto simp: is_i16_def y_def [symmetric])
  have n: "is_i16 N" using N by (simp add: is_i16_def)
  have "y * N \<le> (M - 1) * N" using hi N by (intro mult_right_mono) (auto simp: y_def)
  then have up: "y * N < 536870912" using M by linarith
  have low: "- 536870912 \<le> y * N"
  proof (cases "- (M - 1) \<le> y")
    case True
    then have "- (M - 1) * N \<le> y * N" using N by (intro mult_right_mono) auto
    moreover have "- (M - 1) * N = - ((M - 1) * N)" by (rule mult_minus_left)
    ultimately show ?thesis using M(2) by linarith
  next
    case False
    then show ?thesis using lo by (simp add: y_def)
  qed
  define z where "z = y * N div 32768"
  have z: "- 16384 \<le> z \<and> z \<le> 16383"
    using asr_bounds [of "- 16384" 15 "y * N" 16383] low up by (simp add: z_def asr15)
  have "saturated_mul16 y N = z"
    using saturated_mul16_eq [OF y n] N by (simp add: z_def)
  moreover have "- 4 \<le> asr z 12 \<and> asr z 12 \<le> 3"
    using asr_bounds [of "- 4" 12 z 3] z by simp
  moreover have "i16 (asr z 12 + 4) = asr z 12 + 4"
    using calculation by (intro i16_id) (simp add: is_i16_def)
  ultimately show ?thesis
    using t1 y by (simp add: quantize_sample_def shl_def y_def [symmetric])
qed

text \<open>
  The coding of the maximum, and the bound on the normalized samples it gives.
\<close>

lemma apcm_quantization_ok:
  assumes xM: "\<forall>x \<in> set xM. is_i16 x"
  obtains xMc mant exp xmaxc where "apcm_quantization xM = Some (xMc, mant, exp, xmaxc)"
    and "apcm_quantization_xmaxc_to_exp_mant xmaxc = Some (exp, mant)"
    and "0 \<le> xmaxc" "xmaxc \<le> 63" and "- 4 \<le> exp" "exp \<le> 6" and "0 \<le> mant" "mant \<le> 7"
    and "length xMc = length xM" and "\<forall>q \<in> set xMc. 0 \<le> q \<and> q \<le> 7"
proof -
  let ?m = "max_abs16 xM"
  have m: "0 \<le> ?m" "?m \<le> 32767" using max_abs16_range [OF xM] by auto
  obtain k where k: "exp_loop 6 False (asr ?m 9) 0 = Some (int k)" "k \<le> 6"
    and top: "asr ?m (k + 5) \<in> set [0..15]" "1 \<le> k \<longrightarrow> 8 \<le> asr ?m (k + 5)"
    using exp_loop_range [OF m] .
  define t where "t = asr ?m (k + 5)"
  have kk: "int k \<in> set [0..6]" using k(2) by simp
  have lim: "1 \<le> int k \<longrightarrow> 8 \<le> t" "t \<in> set [0..15]" using top by (simp_all add: t_def)
  have "case apcm_quantization_xmaxc_to_exp_mant (t + 8 * int k) of None \<Rightarrow> False
      | Some (e, m) \<Rightarrow> - 4 \<le> e \<and> e \<le> 6 \<and> 0 \<le> m \<and> m \<le> 7 \<and>
          (t + 1) * 2 ^ nat (int k + 5) * 2 ^ nat (6 - e) = (m + 9) * 2048"
    using mant_table kk lim unfolding list_all_iff by blast
  then obtain e mt where em: "apcm_quantization_xmaxc_to_exp_mant (t + 8 * int k) = Some (e, mt)"
    and e: "- 4 \<le> e" "e \<le> 6" and mt: "0 \<le> mt" "mt \<le> 7"
    and scale: "(t + 1) * 2 ^ nat (int k + 5) * 2 ^ nat (6 - e) = (mt + 9) * 2048"
    by (auto split: option.splits)
  have n5: "nat (int k + 5) = k + 5" by simp
  have below: "?m < (t + 1) * 2 ^ (k + 5)"
  proof -
    have "?m = t * 2 ^ (k + 5) + ?m mod 2 ^ (k + 5)"
      by (simp only: t_def asr_def div_mult_mod_eq)
    also have "\<dots> < t * 2 ^ (k + 5) + 2 ^ (k + 5)" by simp
    finally show ?thesis by (simp add: distrib_right)
  qed
  define N where "N = gsm_NRFAC ! nat mt"
  have N: "16384 \<le> N" "N \<le> 29128" "((mt + 9) * 2048 - 1) * N < 536870912"
    using nrfac_table mt unfolding list_all_iff N_def by simp_all
  have six: "i16 (6 - e) = 6 - e" using e by (simp add: is_i16_def)
  have sample: "\<exists>q. quantize_sample (6 - e) N x = Some q \<and> 0 \<le> q \<and> q \<le> 7" if x: "x \<in> set xM" for x
  proof (rule quantize_sample_ok [of "6 - e" N "(mt + 9) * 2048"])
    have i: "is_i16 x" and sat: "saturated_abs16 x \<le> ?m" using xM x max_abs16_range [OF xM] by auto
    let ?p = "(2::int) ^ nat (6 - e)"
    have p: "1 \<le> ?p" by simp
    have M: "(t + 1) * 2 ^ (k + 5) * ?p = (mt + 9) * 2048" using scale n5 by simp
    have bound: "v * ?p \<le> (mt + 9) * 2048 - 1" if "v \<le> ?m" for v
    proof -
      have "v + 1 \<le> (t + 1) * 2 ^ (k + 5)" using that below by simp
      then have "(v + 1) * ?p \<le> (mt + 9) * 2048" unfolding M [symmetric] by (intro mult_right_mono) auto
      moreover have "(v + 1) * ?p = v * ?p + ?p" by (simp add: distrib_right)
      ultimately show ?thesis using p by linarith
    qed
    have "x \<le> ?m" using sat i by (auto simp: saturated_abs16_eq is_i16_def)
    then show "x * ?p \<le> (mt + 9) * 2048 - 1" by (rule bound)
    show "- ((mt + 9) * 2048 - 1) \<le> x * ?p \<or> x * ?p = - 32768 \<and> N = 16384"
    proof (cases "x = - 32768")
      case False
      then have "- x \<le> ?m" using sat i by (auto simp: saturated_abs16_eq is_i16_def)
      then have "- x * ?p \<le> (mt + 9) * 2048 - 1" by (rule bound)
      then show ?thesis by simp
    next
      case True
      then have "?m = 32767" using sat m by (simp add: saturated_abs16_def)
      moreover have "exp_loop 6 False (asr 32767 9) 0 = Some 6" by code_simp
      ultimately have "k = 6" using k(1) by simp
      then have "t = 15" using \<open>?m = 32767\<close> by (simp add: t_def asr_def)
      moreover have "apcm_quantization_xmaxc_to_exp_mant 63 = Some (6, 7)" by code_simp
      ultimately have "e = 6" "mt = 7" using em \<open>k = 6\<close> by simp_all
      then show ?thesis using True by (simp add: N_def gsm_NRFAC_def)
    qed
    show "(mt + 9) * 2048 \<le> 32768" using mt by simp
  qed (use e N in auto)
  obtain xMc where xMc: "map_option_list (quantize_sample (6 - e) N) xM = Some xMc"
      "length xMc = length xM" "\<forall>q \<in> set xMc. 0 \<le> q \<and> q \<le> 7"
    using map_option_list_total [of xM "quantize_sample (6 - e) N" "\<lambda>q. 0 \<le> q \<and> q \<le> 7"] sample by blast
  have xm: "saturated_add16 t (8 * int k) = t + 8 * int k" "0 \<le> t + 8 * int k" "t + 8 * int k \<le> 63"
    using lim kk by (auto simp: saturated_add16_def is_i16_def)
  have "i16 (int k + 5) = int k + 5" using k(2) by (simp add: is_i16_def)
  then have "apcm_quantization xM = Some (xMc, mt, e, t + 8 * int k)"
    using k xm em e mt six xMc
    by (simp add: apcm_quantization_def n5 t_def [symmetric] N_def [symmetric] shl_def mult.commute)
  then show ?thesis using that em xm e mt xMc by blast
qed

subsection \<open>Decoding never fails on fields that fit\<close>

lemma dequantize_sample_ok:
  assumes "0 \<le> x" and "x \<le> 7"
  shows "\<exists>v. dequantize_sample t1 t2 t3 x = Some v \<and> is_i16 v"
proof -
  have "i16 (2 * x - 7) = 2 * x - 7" using assms by (intro i16_id) (simp add: is_i16_def)
  then show ?thesis using assms by (simp add: dequantize_sample_def shl_def mult.commute Let_def)
qed

lemma apcm_inverse_ok:
  assumes "0 \<le> mant" and "mant \<le> 7" and "\<forall>x \<in> set xMc. 0 \<le> x \<and> x \<le> 7"
  obtains xMp where "apcm_inverse_quantization xMc mant exp = Some xMp" and "length xMp = length xMc"
    and "\<forall>v \<in> set xMp. is_i16 v"
proof -
  have "nat mant < length gsm_FAC" using assms by (simp add: gsm_FAC_def)
  moreover obtain xMp where "map_option_list (dequantize_sample (gsm_FAC ! nat mant) (saturated_sub16 6 exp)
        (gsm_asl 1 (saturated_sub16 (saturated_sub16 6 exp) 1))) xMc = Some xMp"
      "length xMp = length xMc" "\<forall>v \<in> set xMp. is_i16 v"
    using map_option_list_total [of xMc _ is_i16] dequantize_sample_ok assms(3) by blast
  ultimately show ?thesis using that by (simp add: apcm_inverse_quantization_def mem_simps)
qed

lemma length_spread: "length (concat (map (\<lambda>x. [0, 0, x]) xs)) = 3 * length xs"
  by (induction xs) auto

lemma rpe_grid_positioning_ok:
  assumes "0 \<le> Mc" and "Mc \<le> 3" and "length xMp = 13" and "\<forall>v \<in> set xMp. is_i16 v"
  obtains ep where "rpe_grid_positioning Mc xMp = Some ep" and "length ep = 40" and "\<forall>v \<in> set ep. is_i16 v"
proof -
  obtain x xs where x: "xMp = x # xs" "length xs = 12"
    using assms(3) by (auto simp: numeral_eq_Suc length_Suc_conv)
  let ?ep = "replicate (nat Mc) 0 @ x # concat (map (\<lambda>x. [0, 0, x]) xs) @ replicate (nat (3 - Mc)) 0"
  have "nat Mc + nat (3 - Mc) = 3" using assms(1,2) by simp
  then have "length ?ep = 40" using x by (simp add: length_spread)
  moreover have "v = 0 \<or> v \<in> set xMp" if "v \<in> set ?ep" for v
    using that x by (auto split: if_splits)
  then have "\<forall>v \<in> set ?ep. is_i16 v" using assms(4) by (fastforce simp: is_i16_def)
  moreover have "rpe_grid_positioning Mc xMp = Some ?ep" using assms(1,2) x by (simp add: rpe_grid_positioning_def)
  ultimately show ?thesis using that by blast
qed

lemma rpe_decoding_ok:
  assumes "0 \<le> xmaxc" and "xmaxc \<le> 63" and "0 \<le> Mc" and "Mc \<le> 3" and "length xMc = 13"
    and "\<forall>x \<in> set xMc. 0 \<le> x \<and> x \<le> 7"
  obtains ep where "gsm0610_rpe_decoding xmaxc Mc xMc = Some ep" and "length ep = 40"
    and "\<forall>v \<in> set ep. is_i16 v"
proof -
  obtain e m where em: "apcm_quantization_xmaxc_to_exp_mant xmaxc = Some (e, m)" and m: "0 \<le> m" "m \<le> 7"
    using exp_mant_total [OF assms(1,2)] by metis
  obtain xMp where x: "apcm_inverse_quantization xMc m e = Some xMp" "length xMp = length xMc"
      "\<forall>v \<in> set xMp. is_i16 v"
    using apcm_inverse_ok [OF m assms(6)] .
  then obtain ep where "rpe_grid_positioning Mc xMp = Some ep" "length ep = 40" "\<forall>v \<in> set ep. is_i16 v"
    using rpe_grid_positioning_ok [OF assms(3,4), of xMp] assms(5) by auto
  then show ?thesis using that em x by (simp add: gsm0610_rpe_decoding_def)
qed

lemma weighting_filter_ok: "length (weighting_filter e) = 40 \<and> (\<forall>v \<in> set (weighting_filter e). is_i16 v)"
  by (auto simp: weighting_filter_def)

lemma rpe_grid_selection_ok:
  assumes "length x = 40" and "\<forall>v \<in> set x. is_i16 v" and "rpe_grid_selection x = (xM, Mc)"
  shows "Mc \<le> 3 \<and> length xM = 13 \<and> (\<forall>v \<in> set xM. is_i16 v)"
proof -
  have Mc: "Mc \<le> 3" and xM: "xM = map (\<lambda>i. x ! (Mc + 3 * i)) [0..<13]"
    using assms(3) by (auto simp: rpe_grid_selection_def Let_def split: if_splits prod.splits)
  have "is_i16 (x ! (Mc + 3 * i))" if "i < 13" for i
    using assms(1,2) Mc that by simp
  then show ?thesis using Mc xM by auto
qed

text \<open>The encoder's own reconstruction of the excitation is the decoder's.\<close>

lemma rpe_encoding_ok:
  assumes "length e = 50"
  obtains xmaxc Mc xMc ep e' where "gsm0610_rpe_encoding e = Some (xmaxc, Mc, xMc, e')"
    and "gsm0610_rpe_decoding xmaxc Mc xMc = Some ep" and "e' = take 5 e @ ep @ drop 45 e"
    and "0 \<le> xmaxc" "xmaxc \<le> 63" and "0 \<le> Mc" "Mc \<le> 3" and "length xMc = 13"
    and "\<forall>q \<in> set xMc. 0 \<le> q \<and> q \<le> 7" and "length ep = 40" and "\<forall>v \<in> set ep. is_i16 v"
proof -
  obtain xM Mc where sel: "rpe_grid_selection (weighting_filter e) = (xM, Mc)" by fastforce
  have xM: "Mc \<le> 3" "length xM = 13" "\<forall>v \<in> set xM. is_i16 v"
    using rpe_grid_selection_ok [OF _ _ sel] weighting_filter_ok by auto
  obtain xMc m ex xmaxc where q: "apcm_quantization xM = Some (xMc, m, ex, xmaxc)"
    and em: "apcm_quantization_xmaxc_to_exp_mant xmaxc = Some (ex, m)"
    and f: "0 \<le> xmaxc" "xmaxc \<le> 63" "0 \<le> m" "m \<le> 7" "length xMc = length xM" "\<forall>q \<in> set xMc. 0 \<le> q \<and> q \<le> 7"
    using apcm_quantization_ok [OF xM(3)] by metis
  obtain xMp where inv: "apcm_inverse_quantization xMc m ex = Some xMp" "length xMp = length xMc"
      "\<forall>v \<in> set xMp. is_i16 v"
    using apcm_inverse_ok [OF f(3,4,6)] .
  obtain ep where ep: "rpe_grid_positioning (int Mc) xMp = Some ep" "length ep = 40" "\<forall>v \<in> set ep. is_i16 v"
    using rpe_grid_positioning_ok [of "int Mc" xMp] xM inv f(5) by auto
  have "gsm0610_rpe_encoding e = Some (xmaxc, int Mc, xMc, take 5 e @ ep @ drop 45 e)"
    using sel q inv ep assms by (simp add: gsm0610_rpe_encoding_def mem_simps)
  moreover have "gsm0610_rpe_decoding xmaxc (int Mc) xMc = Some ep"
    using em inv ep by (simp add: gsm0610_rpe_decoding_def)
  ultimately show ?thesis using that f xM ep by simp
qed

subsection \<open>Properties\<close>

text \<open>
  The block adaptive quantizer is total: for every 13 samples of 16 bits no assertion
  fails, the normalized samples do not overflow, the coded maximum fits 6 bits and its decoded
  exponent and mantissa are those used for the samples, and every coded sample fits 3 bits.
\<close>

theorem apcm_quantization_total:
  assumes "\<forall>x \<in> set xM. is_i16 x"
  shows "\<exists>xMc mant exp xmaxc. apcm_quantization xM = Some (xMc, mant, exp, xmaxc) \<and>
           apcm_quantization_xmaxc_to_exp_mant xmaxc = Some (exp, mant) \<and>
           0 \<le> xmaxc \<and> xmaxc \<le> 63 \<and> length xMc = length xM \<and> (\<forall>q \<in> set xMc. 0 \<le> q \<and> q \<le> 7)"
  using apcm_quantization_ok [OF assms] by metis

theorem apcm_quantization_total_witness:
  "\<exists>xMc mant exp xmaxc. apcm_quantization [-32768, 32767, 0, 5] = Some (xMc, mant, exp, xmaxc) \<and>
     (\<forall>q \<in> set xMc. 0 \<le> q \<and> q \<le> 7)"
  using apcm_quantization_total [of "[-32768, 32767, 0, 5]"] by (auto simp: is_i16_def)

text \<open>
  C21. Analysis by synthesis: the residual the encoder reconstructs into its work array (and
  from which it predicts the next segments) is exactly what the decoder computes from the
  transmitted maximum, grid position and pulses; the rest of the array is not touched.
\<close>

theorem rpe_decoder_tracks_encoder:
  assumes "length e = 50"
  shows "\<exists>xmaxc Mc xMc ep. gsm0610_rpe_encoding e = Some (xmaxc, Mc, xMc, take 5 e @ ep @ drop 45 e) \<and>
           gsm0610_rpe_decoding xmaxc Mc xMc = Some ep \<and> length ep = 40"
  using rpe_encoding_ok [OF assms] by metis

theorem rpe_decoder_tracks_encoder_witness:
  "\<exists>xmaxc Mc xMc ep. gsm0610_rpe_encoding ([0, 0, 0, 0, 0] @ replicate 40 (-1234) @ [0, 0, 0, 0, 0])
       = Some (xmaxc, Mc, xMc, [0, 0, 0, 0, 0] @ ep @ [0, 0, 0, 0, 0]) \<and>
     gsm0610_rpe_decoding xmaxc Mc xMc = Some ep"
  using rpe_decoder_tracks_encoder [of "[0, 0, 0, 0, 0] @ replicate 40 (-1234) @ [0, 0, 0, 0, 0]"] by auto

text \<open>
  The switch that enters its loop in the middle puts pulse \<open>i\<close> at position \<open>Mc + 3 * i\<close> of
  the 40 samples and zeros everywhere else.
\<close>

theorem rpe_grid_positions:
  assumes "0 \<le> Mc" and "Mc \<le> 3" and "length xMp = 13"
  shows "\<exists>ep. rpe_grid_positioning Mc xMp = Some ep \<and> length ep = 40 \<and>
           (\<forall>i < 13. ep ! (nat Mc + 3 * i) = xMp ! i) \<and>
           (\<forall>n < 40. (\<forall>i < 13. n \<noteq> nat Mc + 3 * i) \<longrightarrow> ep ! n = 0)"
proof -
  obtain x0 x1 x2 x3 x4 x5 x6 x7 x8 x9 xa xb xc
    where x: "xMp = [x0, x1, x2, x3, x4, x5, x6, x7, x8, x9, xa, xb, xc]"
    using assms(3) by (auto simp: numeral_eq_Suc length_Suc_conv)
  have all40: "(\<forall>n < 40. P n) \<longleftrightarrow> list_all P [0..<40]" for P :: "nat \<Rightarrow> bool"
    by (auto simp: list_all_iff)
  have all13: "(\<forall>n < 13. P n) \<longleftrightarrow> list_all P [0..<13]" for P :: "nat \<Rightarrow> bool"
    by (auto simp: list_all_iff)
  have "Mc = 0 \<or> Mc = 1 \<or> Mc = 2 \<or> Mc = 3" using assms by auto
  then show ?thesis
    unfolding all40 all13 x by (elim disjE) (simp_all add: rpe_grid_positioning_def upt_rec numeral_eq_Suc)
qed

theorem rpe_grid_positions_witness:
  "\<exists>ep. rpe_grid_positioning 2 [1, 2, 3, 4, 5, 6, 7, 8, 9, 10, 11, 12, 13] = Some ep \<and> length ep = 40"
  using rpe_grid_positions [of 2 "[1, 2, 3, 4, 5, 6, 7, 8, 9, 10, 11, 12, 13]"] by auto

end
