(* ===== verification/Gsm_Codec.thy ===== *)
theory Gsm_Codec
  imports Gsm_Filters Gsm_Rpe
begin

text \<open>
  The GSM 06.10 encoder and decoder: \<open>encode_a_frame\<close> and \<open>gsm0610_encode\<close> of
  \<open>gsm0610_encode.c\<close>, \<open>decode_a_frame\<close>, \<open>postprocessing\<close> and \<open>gsm0610_decode\<close> of
  \<open>gsm0610_decode.c\<close>, over the stages of the other theories.

  The samples and the code are blocks; the length argument of the two functions is the length of
  the block. \<open>None\<close> is a failing assertion or an access outside a block.
\<close>

subsection \<open>Encoding\<close>

text \<open>
  One of the four sub-segments: the parameters \<open>(Nc, bc, Mc, xmaxc, xMc)\<close> and the new \<open>dp0\<close> and
  \<open>e\<close>. The predictor writes \<open>e + 5\<close>, and \<open>dpp\<close> is \<open>dp\<close>.
\<close>

type_synonym sub_parameters = "int \<times> int \<times> int \<times> int \<times> int list"

definition encode_sub ::
    "int list \<Rightarrow> nat \<Rightarrow> int list \<Rightarrow> int list \<Rightarrow> (sub_parameters \<times> int list \<times> int list) option" where
  "encode_sub so k dp0 e =
     do { let base = 120 + 40 * k;
          (Nc, bc, dp, res) \<leftarrow> gsm0610_long_term_predictor (take 40 (drop (40 * k) so)) dp0 base;
          e \<leftarrow> mem_write e 5 res;
          (xmaxc, Mc, xMc, e) \<leftarrow> gsm0610_rpe_encoding e;
          let dp = foldl (\<lambda>dp i. dp[base + i := saturated_add16 (e ! (5 + i)) (dp ! (base + i))]) dp [0..<40];
          Some ((Nc, bc, Mc, xmaxc, xMc), dp, e) }"

fun encode_subs ::
    "int list \<Rightarrow> nat list \<Rightarrow> int list \<Rightarrow> int list \<Rightarrow> (sub_parameters list \<times> int list \<times> int list) option" where
  "encode_subs so [] dp0 e = Some ([], dp0, e)"
| "encode_subs so (k # ks) dp0 e =
     do { (p, dp0, e) \<leftarrow> encode_sub so k dp0 e;
          (ps, dp0, e) \<leftarrow> encode_subs so ks dp0 e;
          Some (p # ps, dp0, e) }"

definition frame_of_subs :: "int list \<Rightarrow> sub_parameters list \<Rightarrow> gsm0610_frame" where
  "frame_of_subs LARc ps =
     \<lparr>f_LARc = LARc, f_Nc = map (\<lambda>(Nc, bc, Mc, xmaxc, xMc). Nc) ps,
      f_bc = map (\<lambda>(Nc, bc, Mc, xmaxc, xMc). bc) ps, f_Mc = map (\<lambda>(Nc, bc, Mc, xmaxc, xMc). Mc) ps,
      f_xmaxc = map (\<lambda>(Nc, bc, Mc, xmaxc, xMc). xmaxc) ps,
      f_xMc = map (\<lambda>(Nc, bc, Mc, xmaxc, xMc). xMc) ps\<rparr>"

definition encode_a_frame :: "gsm0610_state \<Rightarrow> int list \<Rightarrow> (gsm0610_frame \<times> gsm0610_state) option" where
  "encode_a_frame s amp =
     do { (so, s) \<leftarrow> gsm0610_preprocess s amp;
          (so, LARc) \<leftarrow> gsm0610_lpc_analysis so;
          let (so, s) = gsm0610_short_term_analysis_filter s LARc so;
          (ps, dp, e) \<leftarrow> encode_subs so [0..<4] (dp0_st s) (e_st s);
          dp \<leftarrow> mem_write dp 0 (take 120 (drop 160 dp));
          Some (frame_of_subs LARc ps, s\<lparr>dp0_st := dp, e_st := e\<rparr>) }"

abbreviation (input) "GSM0610_PACKING_NONE \<equiv> (0 :: int)"
abbreviation (input) "GSM0610_PACKING_WAV49 \<equiv> (1 :: int)"
abbreviation (input) "GSM0610_PACKING_VOIP \<equiv> (2 :: int)"

function gsm0610_encode :: "gsm0610_state \<Rightarrow> int list \<Rightarrow> (u8 list \<times> gsm0610_state) option" where
  "gsm0610_encode s amp =
     (if amp = [] then Some ([], s)
      else do {
        (f, s) \<leftarrow> encode_a_frame s amp;
        if packing s = GSM0610_PACKING_WAV49 then
          do { (g, s) \<leftarrow> encode_a_frame s (drop 160 amp);
               (code, s) \<leftarrow> gsm0610_encode s (drop 320 amp);
               Some (gsm0610_pack_wav49 f g @ code, s) }
        else
          do { let c = (if packing s = GSM0610_PACKING_VOIP then gsm0610_pack_voip f else gsm0610_pack_none f);
               (code, s) \<leftarrow> gsm0610_encode s (drop 160 amp);
               Some (c @ code, s) } })"
  by pat_completeness auto
termination by (relation "measure (\<lambda>(s, amp). length amp)") auto

subsection \<open>Decoding\<close>

fun post_loop :: "int \<Rightarrow> int list \<Rightarrow> int list \<times> int" where
  "post_loop m [] = ([], m)"
| "post_loop m (a # amp) =
     (let tmp = gsm_mult_r m 28180;
          m = saturated_add16 a tmp;
          (out, m') = post_loop m amp
      in (i16 (saturated_add16 m m AND 65528) # out, m'))"

definition postprocessing :: "gsm0610_state \<Rightarrow> int list \<Rightarrow> int list \<times> gsm0610_state" where
  "postprocessing s amp = (let (out, m) = post_loop (msr s) amp in (out, s\<lparr>msr := m\<rparr>))"

fun decode_subs :: "gsm0610_state \<Rightarrow> gsm0610_frame \<Rightarrow> nat list \<Rightarrow> (int list \<times> gsm0610_state) option" where
  "decode_subs s f [] = Some ([], s)"
| "decode_subs s f (j # js) =
     do { erp \<leftarrow> gsm0610_rpe_decoding (f_xmaxc f ! j) (f_Mc f ! j) (f_xMc f ! j);
          s \<leftarrow> gsm0610_long_term_synthesis_filtering s (f_Nc f ! j) (f_bc f ! j) erp;
          (wt, s') \<leftarrow> decode_subs s f js;
          Some (take 40 (drop 120 (dp0_st s)) @ wt, s') }"

definition decode_a_frame :: "gsm0610_state \<Rightarrow> gsm0610_frame \<Rightarrow> (int list \<times> gsm0610_state) option" where
  "decode_a_frame s f =
     do { (wt, s) \<leftarrow> decode_subs s f [0..<4];
          let (amp, s) = gsm0610_short_term_synthesis_filter s (f_LARc f) wt;
          Some (postprocessing s amp) }"

function gsm0610_decode :: "gsm0610_state \<Rightarrow> u8 list \<Rightarrow> (int list \<times> gsm0610_state) option" where
  "gsm0610_decode s code =
     (if code = [] then Some ([], s)
      else if packing s = GSM0610_PACKING_WAV49 then
        do { (f, g) \<leftarrow> gsm0610_unpack_wav49 code;
             (a, s) \<leftarrow> decode_a_frame s f;
             (b, s) \<leftarrow> decode_a_frame s g;
             (amp, s) \<leftarrow> gsm0610_decode s (drop 65 code);
             Some (a @ b @ amp, s) }
      else if packing s = GSM0610_PACKING_VOIP then
        do { f \<leftarrow> gsm0610_unpack_voip code;
             (a, s) \<leftarrow> decode_a_frame s f;
             (amp, s) \<leftarrow> gsm0610_decode s (drop 33 code);
             Some (a @ amp, s) }
      else
        do { f \<leftarrow> gsm0610_unpack_none code;
             (a, s) \<leftarrow> decode_a_frame s f;
             (amp, s) \<leftarrow> gsm0610_decode s (drop 76 code);
             Some (a @ amp, s) })"
  by pat_completeness auto
termination by (relation "measure (\<lambda>(s, code). length code)") auto

declare gsm0610_encode.simps [simp del] gsm0610_decode.simps [simp del]

subsection \<open>Frames from their parts\<close>

abbreviation fits :: "nat list \<Rightarrow> int list \<Rightarrow> bool" where
  "fits \<equiv> list_all2 (\<lambda>w v. 0 \<le> v \<and> v < 2 ^ w)"

definition sub_fields :: "gsm0610_frame \<Rightarrow> nat \<Rightarrow> int list" where
  "sub_fields f j = [f_Nc f ! j, f_bc f ! j, f_Mc f ! j, f_xmaxc f ! j] @ map (\<lambda>k. f_xMc f ! j ! k) [0..<13]"

definition sub_widths :: "nat list" where
  "sub_widths = [7, 2, 2, 6] @ replicate 13 3"

lemma concat_fits: "\<forall>j \<in> set js. fits w (g j) \<Longrightarrow> fits (concat (map (\<lambda>_. w) js)) (concat (map g js))"
  by (induction js) (auto intro: list_all2_appendI)

lemma frame_fitsI:
  assumes sh: "frame_shaped f" and l: "fits [6, 6, 5, 5, 4, 4, 3, 3] (f_LARc f)"
    and sub: "\<And>j. j < 4 \<Longrightarrow> fits sub_widths (sub_fields f j)"
  shows "frame_fits f"
proof -
  have "map (\<lambda>j. f_LARc f ! j) [0..<8] = f_LARc f"
    using sh by (intro list_as_nths) (simp add: frame_shaped_def)
  then have ff: "frame_fields f = f_LARc f @ concat (map (sub_fields f) [0..<4])"
    unfolding frame_fields_def sub_fields_def by (rule arg_cong)
  have "concat (map (\<lambda>_. sub_widths) [0..<4]) = concat (replicate 4 sub_widths)"
    unfolding map_replicate_const by simp
  then have fw: "frame_widths = [6, 6, 5, 5, 4, 4, 3, 3] @ concat (map (\<lambda>_. sub_widths) [0..<4])"
    unfolding frame_widths_def sub_widths_def [symmetric] by simp
  have "fits (concat (map (\<lambda>_. sub_widths) [0..<4])) (concat (map (sub_fields f) [0..<4]))"
    using sub by (intro concat_fits) simp
  then have "fits frame_widths (frame_fields f)" unfolding ff fw using l by (intro list_all2_appendI)
  then show ?thesis using sh by (simp add: frame_fits_def)
qed

lemma fits_replicate: "length vs = n \<Longrightarrow> \<forall>v \<in> set vs. 0 \<le> v \<and> v < 2 ^ w \<Longrightarrow> fits (replicate n w) vs"
  by (simp add: list_all2_conv_all_nth)

lemma sub_fields_fit:
  assumes "0 \<le> f_Nc f ! j \<and> f_Nc f ! j < 128" and "0 \<le> f_bc f ! j \<and> f_bc f ! j < 4"
    and "0 \<le> f_Mc f ! j \<and> f_Mc f ! j < 4" and "0 \<le> f_xmaxc f ! j \<and> f_xmaxc f ! j < 64"
    and "length (f_xMc f ! j) = 13" and "\<forall>x \<in> set (f_xMc f ! j). 0 \<le> x \<and> x \<le> 7"
  shows "fits sub_widths (sub_fields f j)"
proof -
  have "map (\<lambda>k. f_xMc f ! j ! k) [0..<13] = f_xMc f ! j" using assms(5) by (rule list_as_nths)
  moreover have "fits (replicate 13 3) (f_xMc f ! j)"
    using assms(5,6) by (intro fits_replicate) auto
  ultimately show ?thesis using assms(1-4) by (simp add: sub_fields_def sub_widths_def)
qed

definition sub_ok :: "sub_parameters \<Rightarrow> bool" where
  "sub_ok = (\<lambda>(Nc, bc, Mc, xmaxc, xMc). 40 \<le> Nc \<and> Nc \<le> 120 \<and> 0 \<le> bc \<and> bc \<le> 3 \<and> 0 \<le> Mc \<and> Mc \<le> 3 \<and>
     0 \<le> xmaxc \<and> xmaxc \<le> 63 \<and> length xMc = 13 \<and> (\<forall>x \<in> set xMc. 0 \<le> x \<and> x \<le> 7))"

lemma frame_of_subs_fits:
  assumes l: "fits [6, 6, 5, 5, 4, 4, 3, 3] LARc" and ps: "length ps = 4" "\<forall>p \<in> set ps. sub_ok p"
  shows "frame_fits (frame_of_subs LARc ps)"
proof (rule frame_fitsI)
  have "length LARc = 8" using list_all2_lengthD [OF l] by simp
  then show "frame_shaped (frame_of_subs LARc ps)"
    using ps by (auto simp: frame_shaped_def frame_of_subs_def sub_ok_def)
next
  fix j :: nat assume j: "j < 4"
  obtain Nc bc Mc xmaxc xMc where p: "ps ! j = (Nc, bc, Mc, xmaxc, xMc)" by (cases "ps ! j")
  have "sub_ok (ps ! j)" using ps j by simp
  then show "fits sub_widths (sub_fields (frame_of_subs LARc ps) j)"
    using j ps p by (intro sub_fields_fit) (simp_all add: frame_of_subs_def sub_ok_def)
qed (use l in \<open>simp add: frame_of_subs_def\<close>)

subsection \<open>The encoder is total\<close>

lemma encode_sub_ok:
  assumes so: "\<forall>x \<in> set so. is_i16 x" and dp: "\<forall>v \<in> set dp0. is_i16 v" and e: "length e = 50"
  obtains p dp' e' where "encode_sub so k dp0 e = Some (p, dp', e')" and "sub_ok p"
    and "length dp' = length dp0" and "\<forall>v \<in> set dp'. is_i16 v" and "length e' = 50"
proof -
  let ?d = "take 40 (drop (40 * k) so)"
  have d: "\<forall>x \<in> set ?d. is_i16 x" using so by (auto dest!: in_set_takeD in_set_dropD)
  obtain Nc bc dp1 res where p: "gsm0610_long_term_predictor ?d dp0 (120 + 40 * k) = Some (Nc, bc, dp1, res)"
    and r: "0 \<le> bc" "bc \<le> 3" "40 \<le> Nc" "Nc \<le> 120" and dp1: "length dp1 = length dp0" "\<forall>v \<in> set dp1. is_i16 v"
    and res: "length res = 40"
    using long_term_predictor_ok [OF d dp] by metis
  obtain e1 where w: "mem_write e 5 res = Some e1" and e1: "length e1 = 50"
    using e res by (simp add: mem_simps)
  obtain xmaxc Mc xMc ep e' where q: "gsm0610_rpe_encoding e1 = Some (xmaxc, Mc, xMc, e')"
    and f: "0 \<le> xmaxc" "xmaxc \<le> 63" "0 \<le> Mc" "Mc \<le> 3" "length xMc = 13" "\<forall>q \<in> set xMc. 0 \<le> q \<and> q \<le> 7"
    and e': "e' = take 5 e1 @ ep @ drop 45 e1" "length ep = 40"
    using rpe_encoding_ok [OF e1] by metis
  define dp2 where "dp2 = foldl (\<lambda>dp i. dp[120 + 40 * k + i := saturated_add16 (e' ! (5 + i)) (dp ! (120 + 40 * k + i))])
      dp1 [0..<40]"
  have dp2: "length dp2 = length dp1 \<and> (\<forall>v \<in> set dp2. is_i16 v)"
    unfolding dp2_def by (rule foldl_update_keeps [OF _ dp1(2)]) simp
  have "encode_sub so k dp0 e = Some ((Nc, bc, Mc, xmaxc, xMc), dp2, e')"
    unfolding encode_sub_def Let_def using p w q
    by (simp add: dp2_def del: upt_rec_numeral)
  moreover have "length e' = 50" using e1 e' by simp
  ultimately show ?thesis using that r f dp1 dp2 by (simp add: sub_ok_def)
qed

lemma encode_subs_ok:
  assumes so: "\<forall>x \<in> set so. is_i16 x"
  shows "\<forall>v \<in> set dp0. is_i16 v \<Longrightarrow> length e = 50 \<Longrightarrow>
    \<exists>ps dp' e'. encode_subs so ks dp0 e = Some (ps, dp', e') \<and> length ps = length ks \<and> (\<forall>p \<in> set ps. sub_ok p) \<and>
      length dp' = length dp0 \<and> (\<forall>v \<in> set dp'. is_i16 v) \<and> length e' = 50"
proof (induction ks arbitrary: dp0 e)
  case (Cons k ks)
  obtain p dp1 e1 where s: "encode_sub so k dp0 e = Some (p, dp1, e1)" "sub_ok p"
    "length dp1 = length dp0" "\<forall>v \<in> set dp1. is_i16 v" "length e1 = 50"
    using encode_sub_ok [OF so Cons.prems] .
  then show ?case using Cons.IH [of dp1 e1] by auto
qed simp

lemma encode_a_frame_ok:
  assumes ok: "gsm_ok s" and amp: "\<forall>x \<in> set amp. is_i16 x" "160 \<le> length amp"
  obtains f s' where "encode_a_frame s amp = Some (f, s')" and "frame_fits f" and "gsm_ok s'"
    and "packing s' = packing s"
proof -
  have "pre_ok (z1 s, L_z2 s, mp s)" using ok by (simp add: gsm_ok_def)
  then obtain so z L m where pre: "gsm0610_preprocess s amp = Some (so, s\<lparr>z1 := z, L_z2 := L, mp := m\<rparr>)"
    and z: "pre_ok (z, L, m)" and so: "length so = 160" "\<forall>x \<in> set so. is_i16 x"
    using gsm0610_preprocess_ok [OF _ amp] by blast
  let ?s = "s\<lparr>z1 := z, L_z2 := L, mp := m\<rparr>"
  have ok1: "gsm_ok ?s" using ok z by (simp add: gsm_ok_def)
  obtain so1 LARc where lpc: "gsm0610_lpc_analysis so = Some (so1, LARc)" "length so1 = 160"
    "\<forall>x \<in> set so1. is_i16 x" "length LARc = 8" "fits [6, 6, 5, 5, 4, 4, 3, 3] LARc"
    using lpc_analysis_ok [OF so(2,1)] by blast
  obtain so2 s2 where st: "gsm0610_short_term_analysis_filter ?s LARc so1 = (so2, s2)" by fastforce
  have s2: "gsm_ok s2" "\<forall>v \<in> set so2. is_i16 v" "packing s2 = packing s"
    using short_term_filter_ok(1) [OF ok1 lpc(4,2,3) st] by simp_all
  have a: "\<forall>v \<in> set (dp0_st s2). is_i16 v" "length (e_st s2) = 50" "length (dp0_st s2) = 280"
    using s2(1) by (simp_all add: gsm_ok_def)
  obtain ps dp e where subs: "encode_subs so2 [0..<4] (dp0_st s2) (e_st s2) = Some (ps, dp, e)"
    and ps: "length ps = length [0..<4]" "\<forall>p \<in> set ps. sub_ok p"
    and dp0: "length dp = length (dp0_st s2)" and dpi: "\<forall>v \<in> set dp. is_i16 v" and e: "length e = 50"
    using encode_subs_ok [OF s2(2) a(1,2)] by blast
  have ps4: "length ps = 4" using ps(1) by simp
  have dp: "length dp = 280" "\<forall>v \<in> set dp. is_i16 v" using dp0 dpi a(3) by simp_all
  let ?dp = "take 120 (drop 160 dp) @ drop 120 dp"
  have w: "mem_write dp 0 (take 120 (drop 160 dp)) = Some ?dp" using dp(1) by (simp add: mem_simps)
  have dp': "length ?dp = 280" "\<forall>v \<in> set ?dp. is_i16 v"
    using dp by (auto dest!: in_set_takeD in_set_dropD)
  let ?s' = "s2\<lparr>dp0_st := ?dp, e_st := e\<rparr>"
  have "encode_a_frame s amp = Some (frame_of_subs LARc ps, ?s')"
    unfolding encode_a_frame_def using pre lpc(1) st subs w by (simp del: upt_rec_numeral)
  moreover have "gsm_ok ?s'" using s2(1) dp' e by (simp add: gsm_ok_def)
  ultimately show ?thesis using that frame_of_subs_fits [OF lpc(5) ps4 ps(2)] s2(3) by simp
qed

text \<open>The samples and the bytes of one turn of the two loops.\<close>

definition group_samples :: "int \<Rightarrow> nat" where
  "group_samples pk = (if pk = GSM0610_PACKING_WAV49 then 320 else 160)"

definition group_bytes :: "int \<Rightarrow> nat" where
  "group_bytes pk = (if pk = GSM0610_PACKING_WAV49 then 65 else if pk = GSM0610_PACKING_VOIP then 33 else 76)"

lemma encode_group:
  assumes ok: "gsm_ok s" and amp: "\<forall>x \<in> set amp. is_i16 x" and len: "group_samples (packing s) \<le> length amp"
  obtains fs s' where "\<forall>f \<in> set fs. frame_fits f" and "gsm_ok s'" and "packing s' = packing s"
    and "gsm0610_encode s amp =
      (do { (code, s'') \<leftarrow> gsm0610_encode s' (drop (group_samples (packing s)) amp);
            Some ((if packing s = GSM0610_PACKING_WAV49 then wav49_pack fs
                   else if packing s = GSM0610_PACKING_VOIP then voip_pack fs else none_pack fs) @ code, s'') })"
    and "length fs = (if packing s = GSM0610_PACKING_WAV49 then 2 else 1)"
proof -
  have l: "160 \<le> length amp" "amp \<noteq> []" using len by (auto simp: group_samples_def split: if_splits)
  obtain f s1 where f: "encode_a_frame s amp = Some (f, s1)" "frame_fits f" "gsm_ok s1" "packing s1 = packing s"
    using encode_a_frame_ok [OF ok amp l(1)] .
  show ?thesis
  proof (cases "packing s = 1")
    case True
    have d: "\<forall>x \<in> set (drop 160 amp). is_i16 x" "160 \<le> length (drop 160 amp)"
      using amp len True by (auto simp: group_samples_def dest!: in_set_dropD)
    obtain g s2 where g: "encode_a_frame s1 (drop 160 amp) = Some (g, s2)" "frame_fits g" "gsm_ok s2"
      "packing s2 = packing s1" using encode_a_frame_ok [OF f(3) d] .
    show ?thesis
      by (rule that [of "[f, g]" s2])
        (use True f g l in \<open>simp_all add: gsm0610_encode.simps [of s amp] group_samples_def wav49_pack_def\<close>)
  next
    case False
    show ?thesis
      by (rule that [of "[f]" s1])
        (use False f l in \<open>simp_all add: gsm0610_encode.simps [of s amp] group_samples_def voip_pack_def none_pack_def\<close>)
  qed
qed

subsection \<open>The decoder is total on frames whose fields fit\<close>

text \<open>The mask of the postprocessing rounds a sample down to a multiple of 8.\<close>

lemma mask_13_bits: "x AND 65528 = (x - x mod 8) mod 65536" for x :: int
proof -
  have m: "(65528 :: int) = push_bit 3 (mask 13)" by (simp add: mask_eq_exp_minus_1 push_bit_eq_mult)
  have "x AND 65528 = take_bit 16 (push_bit 3 (drop_bit 3 x))"
    unfolding m by (rule bit_eqI) (auto simp: bit_simps)
  then show ?thesis
    by (simp add: push_bit_eq_mult drop_bit_eq_div take_bit_eq_mod minus_mod_eq_div_mult)
qed

lemma truncated_sample:
  assumes "is_i16 x"
  shows "i16 (x AND 65528) = x - x mod 8"
proof -
  have m: "0 \<le> x mod 8" "x mod 8 \<le> 7" "x mod 8 \<le> x + 32768"
  proof -
    show "0 \<le> x mod 8" "x mod 8 \<le> 7" using pos_mod_bound [of 8 x] by simp_all
    have "x mod 8 = (x + 32768) mod 8" by (simp add: mod_add_eq [symmetric])
    also have "\<dots> \<le> x + 32768" using assms by (intro zmod_le_nonneg_dividend) (simp add: is_i16_def)
    finally show "x mod 8 \<le> x + 32768" .
  qed
  then have "is_i16 (x - x mod 8)" using assms unfolding is_i16_def by linarith
  then show ?thesis unfolding mask_13_bits i16_mod by (rule i16_id)
qed

lemma post_loop_ok:
  "is_i16 m \<Longrightarrow> post_loop m amp = (out, m') \<Longrightarrow>
     is_i16 m' \<and> length out = length amp \<and> (\<forall>v \<in> set out. is_i16 v \<and> 8 dvd v)"
proof (induction amp arbitrary: m out m')
  case (Cons a amp)
  let ?m = "saturated_add16 a (gsm_mult_r m 28180)"
  obtain o1 m1 where p: "post_loop ?m amp = (o1, m1)" by fastforce
  let ?x = "saturated_add16 ?m ?m"
  have out: "out = i16 (?x AND 65528) # o1" "m' = m1" using Cons.prems p by (simp_all add: Let_def)
  have "8 dvd ?x - ?x mod 8" by (rule dvd_minus_mod)
  then have "8 dvd i16 (?x AND 65528)" unfolding truncated_sample [OF is_i16_add16] .
  then show ?case using Cons.IH [OF _ p] out by simp
qed simp

lemma frame_parts:
  assumes "frame_fits f"
  shows "length (f_LARc f) = 8" and "j < 4 \<Longrightarrow> length (f_xMc f ! j) = 13 \<and> (\<forall>x \<in> set (f_xMc f ! j). 0 \<le> x \<and> x \<le> 7)"
proof -
  have sh: "frame_shaped f" using assms by (simp add: frame_fits_def)
  then show "length (f_LARc f) = 8" by (simp add: frame_shaped_def)
  assume j: "j < 4"
  then have l: "length (f_xMc f ! j) = 13" using sh by (simp add: frame_shaped_def)
  have "0 \<le> x \<and> x \<le> 7" if x: "x \<in> set (f_xMc f ! j)" for x
  proof -
    obtain k where "k < 13" "x = f_xMc f ! j ! k" using x l by (auto simp: in_set_conv_nth)
    then show ?thesis using sub_fits(5) [OF assms j, of k] by simp
  qed
  then show "length (f_xMc f ! j) = 13 \<and> (\<forall>x \<in> set (f_xMc f ! j). 0 \<le> x \<and> x \<le> 7)" using l by blast
qed

lemma decode_subs_ok:
  assumes f: "frame_fits f"
  shows "gsm_ok s \<Longrightarrow> \<forall>j \<in> set js. j < 4 \<Longrightarrow>
    \<exists>wt s'. decode_subs s f js = Some (wt, s') \<and> length wt = 40 * length js \<and> (\<forall>v \<in> set wt. is_i16 v) \<and>
      gsm_ok s' \<and> packing s' = packing s"
proof (induction js arbitrary: s)
  case (Cons j js)
  have j: "j < 4" using Cons.prems by simp
  have r: "0 \<le> f_xmaxc f ! j" "f_xmaxc f ! j \<le> 63" "0 \<le> f_Mc f ! j" "f_Mc f ! j \<le> 3" "0 \<le> f_bc f ! j" "f_bc f ! j \<le> 3"
    using sub_fits [OF f j] by simp_all
  obtain erp where e: "gsm0610_rpe_decoding (f_xmaxc f ! j) (f_Mc f ! j) (f_xMc f ! j) = Some erp"
    using rpe_decoding_ok [OF r(1-4)] frame_parts(2) [OF f j] by blast
  obtain nr dp where l: "gsm0610_long_term_synthesis_filtering s (f_Nc f ! j) (f_bc f ! j) erp = Some (s\<lparr>nrp := nr, dp0_st := dp\<rparr>)"
    and ok: "gsm_ok (s\<lparr>nrp := nr, dp0_st := dp\<rparr>)"
    using long_term_synthesis_ok [OF Cons.prems(1) r(5,6)] .
  obtain wt s' where rest: "decode_subs (s\<lparr>nrp := nr, dp0_st := dp\<rparr>) f js = Some (wt, s')" "length wt = 40 * length js"
    "\<forall>v \<in> set wt. is_i16 v" "gsm_ok s'" "packing s' = packing s"
    using Cons.IH [OF ok] Cons.prems(2) by auto
  have dp: "length dp = 280" "\<forall>v \<in> set dp. is_i16 v" using ok by (simp_all add: gsm_ok_def)
  let ?w = "take 40 (drop 120 dp)"
  have w: "length ?w = 40" "\<forall>v \<in> set ?w. is_i16 v" using dp by (auto dest!: in_set_takeD in_set_dropD)
  have "decode_subs s f (j # js) = Some (?w @ wt, s')" using e l rest(1) by simp
  then show ?case using rest w dp by auto
qed simp

lemma decode_a_frame_ok:
  assumes ok: "gsm_ok s" and f: "frame_fits f"
  obtains amp s' where "decode_a_frame s f = Some (amp, s')" and "length amp = 160"
    and "\<forall>v \<in> set amp. is_i16 v \<and> 8 dvd v" and "gsm_ok s'" and "packing s' = packing s"
proof -
  have "\<forall>j \<in> set [0..<4]. j < (4 :: nat)" by simp
  from decode_subs_ok [OF f ok this]
  obtain wt s1 where d: "decode_subs s f [0..<4] = Some (wt, s1)" and len: "length wt = 40 * length [0..<4]"
    and i: "\<forall>v \<in> set wt. is_i16 v" and ok1: "gsm_ok s1" and pk: "packing s1 = packing s" by blast
  have l: "length wt = 160" using len by simp
  obtain a s2 where sf: "gsm0610_short_term_synthesis_filter s1 (f_LARc f) wt = (a, s2)" by fastforce
  have s2: "gsm_ok s2" "length a = 160" "packing s2 = packing s1"
    using short_term_filter_ok(2) [OF ok1 frame_parts(1) [OF f] l i sf] by simp_all
  obtain out m where p: "post_loop (msr s2) a = (out, m)" by fastforce
  have "is_i16 (msr s2)" using s2(1) by (simp add: gsm_ok_def)
  note post = post_loop_ok [OF this p]
  have "decode_a_frame s f = Some (out, s2\<lparr>msr := m\<rparr>)"
    unfolding decode_a_frame_def using d sf p by (simp add: postprocessing_def del: upt_rec_numeral)
  moreover have "gsm_ok (s2\<lparr>msr := m\<rparr>)" using s2(1) post by (simp add: gsm_ok_def)
  ultimately show ?thesis using that post s2 pk by simp
qed

subsection \<open>The packed formats never leave the widths\<close>

lemma frame_of_fields_fits:
  assumes v: "fits frame_widths v"
  shows "frame_fits (frame_of_fields v)"
proof (rule frame_fitsI)
  have len: "length v = 76" using list_all2_lengthD [OF v] by simp
  show "frame_shaped (frame_of_fields v)" using len by (auto simp: frame_shaped_def frame_of_fields_def)
  have "fits (take 8 frame_widths) (take 8 v)" using v by (rule list_all2_takeI)
  then show "fits [6, 6, 5, 5, 4, 4, 3, 3] (f_LARc (frame_of_fields v))"
    by (simp add: frame_widths_def frame_of_fields_def)
  have nth: "0 \<le> v ! i \<and> v ! i < 2 ^ (frame_widths ! i)" if "i < 76" for i
    using list_all2_nthD [OF v] that by simp
  fix j :: nat assume j: "j < 4"
  have x: "\<forall>x \<in> set (map (\<lambda>k. v ! (12 + 17 * j + k)) [0..<13]). 0 \<le> x \<and> x \<le> 7"
  proof
    fix x assume "x \<in> set (map (\<lambda>k. v ! (12 + 17 * j + k)) [0..<13])"
    then obtain k where k: "k < 13" "x = v ! (12 + 17 * j + k)" by auto
    then show "0 \<le> x \<and> x \<le> 7" using nth [of "12 + 17 * j + k"] sub_field_index(10) [OF j k(1)] j by simp
  qed
  show "fits sub_widths (sub_fields (frame_of_fields v) j)"
    by (rule sub_fields_fit)
      (use nth [of "8 + 17 * j"] nth [of "9 + 17 * j"] nth [of "10 + 17 * j"] nth [of "11 + 17 * j"]
        sub_field_index(6-9) [OF j] x j in \<open>simp_all add: frame_of_fields_def del: upt_rec_numeral\<close>)
qed

lemma unpack_steps_fit: "unpack_steps us sr c = Some vs \<Longrightarrow> fits (field_widths us) vs"
proof (induction us sr c arbitrary: vs rule: unpack_steps.induct)
  case (4 w us sr c)
  then obtain vs' where rest: "unpack_steps us (drop_bit w sr) c = Some vs'"
    and vs: "vs = uint (sr AND (2 ^ w - 1)) # vs'" by (auto split: Option.bind_splits)
  have "uint (sr AND (2 ^ w - 1)) = take_bit w (uint sr)"
    by (simp add: mask_eq_exp_minus_1 [symmetric] take_bit_eq_mask [symmetric] unsigned_take_bit_eq)
  then have "0 \<le> uint (sr AND (2 ^ w - 1)) \<and> uint (sr AND (2 ^ w - 1)) < 2 ^ w"
    by (simp add: take_bit_int_less_exp)
  then show ?case using 4(1) [OF rest] vs by simp
qed (auto split: list.splits)

lemma unpack_steps_total: "unpack_legal a (length c) us \<Longrightarrow> \<exists>vs. unpack_steps us sr c = Some vs"
proof (induction us arbitrary: a sr c rule: field_widths.induct)
  case (4 w us)
  then obtain vs where "unpack_steps us (drop_bit w sr) c = Some vs" by fastforce
  then show ?case by simp
qed (auto split: list.splits)

lemma unpack_wav49_fits:
  assumes "65 \<le> length c"
  obtains f g where "gsm0610_unpack_wav49 c = Some (f, g)" and "frame_fits f" and "frame_fits g"
proof -
  have c: "take 65 c @ drop 65 c = c" and l: "length (take 65 c) = 65" using assms by simp_all
  have legal: "unpack_legal 0 (length (take 65 c)) wav49_unpack_program" using wav49_unpack_legal l by simp
  obtain v where "unpack_steps wav49_unpack_program 0 (take 65 c) = Some v"
    using unpack_steps_total [OF legal] by blast
  then have v: "unpack_steps wav49_unpack_program 0 c = Some v"
    using unpack_steps_prefix [OF legal, of 0 "drop 65 c"] by (simp only: c)
  have fit: "fits (frame_widths @ frame_widths) v"
    using unpack_steps_fit [OF v] unfolding wav49_field_widths .
  have "fits frame_widths (take 76 v)" "fits frame_widths (drop 76 v)"
    using list_all2_takeI [OF fit, of 76] list_all2_dropI [OF fit, of 76] by simp_all
  then show ?thesis using that v frame_of_fields_fits by (simp add: gsm0610_unpack_wav49_def)
qed

lemma mask_range: "0 \<le> x AND (2 ^ k - 1) \<and> x AND (2 ^ k - 1) < 2 ^ k" for x :: int
  by (simp add: mask_eq_exp_minus_1 [symmetric] take_bit_eq_mask [symmetric])

lemma or_range:
  assumes "0 \<le> a \<and> a < 2 ^ p" and "0 \<le> b \<and> b < 2 ^ n"
  shows "0 \<le> shl a n OR b \<and> shl a n OR b < 2 ^ (p + n)"
proof -
  have "shl a n OR b = a * 2 ^ n + b" using assms shl_or [of b n a] by (simp add: shl_def)
  moreover have "a * 2 ^ n + b < (a + 1) * 2 ^ n" using assms by (simp add: algebra_simps)
  moreover have "(a + 1) * 2 ^ n \<le> 2 ^ p * 2 ^ n" using assms by (intro mult_right_mono) auto
  moreover have "0 \<le> a * 2 ^ n" using assms by simp
  ultimately show ?thesis using assms unfolding power_add by linarith
qed

lemmas masks = mask_range [of _ 1, simplified] mask_range [of _ 2, simplified] mask_range [of _ 3, simplified]
  mask_range [of _ 4, simplified] mask_range [of _ 5, simplified] mask_range [of _ 6, simplified]
  mask_range [of _ 7, simplified]

lemma joined_masks:
  "0 \<le> shl (a AND 1) 1 OR (b AND 1) \<and> shl (a AND 1) 1 OR (b AND 1) < (4 :: int)"
  "0 \<le> shl (a AND 31) 1 OR (b AND 1) \<and> shl (a AND 31) 1 OR (b AND 1) < (64 :: int)"
  "0 \<le> shl (a AND 15) 2 OR (b AND 3) \<and> shl (a AND 15) 2 OR (b AND 3) < (64 :: int)"
  "0 \<le> shl (a AND 7) 2 OR (b AND 3) \<and> shl (a AND 7) 2 OR (b AND 3) < (32 :: int)"
  "0 \<le> shl (a AND 3) 2 OR (b AND 3) \<and> shl (a AND 3) 2 OR (b AND 3) < (16 :: int)"
  "0 \<le> shl (a AND 1) 2 OR (b AND 3) \<and> shl (a AND 1) 2 OR (b AND 3) < (8 :: int)"
  "0 \<le> shl (a AND 3) 1 OR (b AND 1) \<and> shl (a AND 3) 1 OR (b AND 1) < (8 :: int)"
  using or_range [of "a AND 1" 1 "b AND 1" 1] or_range [of "a AND 31" 5 "b AND 1" 1]
    or_range [of "a AND 15" 4 "b AND 3" 2] or_range [of "a AND 7" 3 "b AND 3" 2]
    or_range [of "a AND 3" 2 "b AND 3" 2] or_range [of "a AND 1" 1 "b AND 3" 2]
    or_range [of "a AND 3" 2 "b AND 1" 1] masks
  by simp_all

lemma voip_LARc_fits: "fits [6, 6, 5, 5, 4, 4, 3, 3] (voip_LARc a b c d e)"
  unfolding voip_LARc_def using masks joined_masks by simp

lemma voip_xMc_fits: "length (voip_xMc a b c d e) = 13 \<and> (\<forall>x \<in> set (voip_xMc a b c d e). 0 \<le> x \<and> x < 8)"
  unfolding voip_xMc_def using masks joined_masks by simp

lemma unpack_voip_fits:
  assumes "33 \<le> length c"
  obtains f where "gsm0610_unpack_voip c = Some f" and "frame_fits f"
proof -
  obtain f where f: "gsm0610_unpack_voip c = Some f" using assms by (simp add: gsm0610_unpack_voip_def Let_def)
  have "frame_fits f"
  proof (rule frame_fitsI)
    show "frame_shaped f"
      using f voip_xMc_fits assms by (auto simp: gsm0610_unpack_voip_def frame_shaped_def Let_def voip_LARc_def)
    show "fits [6, 6, 5, 5, 4, 4, 3, 3] (f_LARc f)"
      using f voip_LARc_fits assms by (auto simp: gsm0610_unpack_voip_def Let_def)
    fix j :: nat assume j: "j < 4"
    have "\<exists>a b d e g. f_xMc f ! j = voip_xMc a b d e g"
      using f j assms by (auto simp: gsm0610_unpack_voip_def Let_def simp del: upt_rec_numeral; blast)
    then have x: "length (f_xMc f ! j) = 13 \<and> (\<forall>x \<in> set (f_xMc f ! j). 0 \<le> x \<and> x < 8)"
      using voip_xMc_fits by metis
    then have "\<forall>x \<in> set (f_xMc f ! j). 0 \<le> x \<and> x \<le> 7" by fastforce
    then show "fits sub_widths (sub_fields f j)"
      by (rule sub_fields_fit [rotated 5])
        (use f j x masks joined_masks assms in \<open>auto simp: gsm0610_unpack_voip_def Let_def simp del: upt_rec_numeral\<close>)
  qed
  then show ?thesis using that f by blast
qed

subsection \<open>Streams\<close>

definition pack_group :: "int \<Rightarrow> gsm0610_frame list \<Rightarrow> u8 list" where
  "pack_group pk = (if pk = GSM0610_PACKING_WAV49 then wav49_pack
                    else if pk = GSM0610_PACKING_VOIP then voip_pack else none_pack)"

definition unpack_group :: "int \<Rightarrow> u8 list \<Rightarrow> gsm0610_frame list option" where
  "unpack_group pk = (if pk = GSM0610_PACKING_WAV49 then wav49_unpack
                      else if pk = GSM0610_PACKING_VOIP then voip_unpack else none_unpack)"

lemma group_sizes [simp]: "0 < group_samples pk" "0 < group_bytes pk"
  by (simp_all add: group_samples_def group_bytes_def)

lemma unpack_pack_group:
  assumes "length fs = (if pk = GSM0610_PACKING_WAV49 then 2 else 1)" and "\<forall>f \<in> set fs. frame_fits f"
  shows "unpack_group pk (pack_group pk fs @ rest) = Some fs" and "length (pack_group pk fs) = group_bytes pk"
  using assms wav49_format.unpack_pack_rest [of fs rest] voip_format.unpack_pack_rest [of fs rest]
    none_format.unpack_pack_rest [of fs rest] wav49_format.pack_length [of fs] voip_format.pack_length [of fs]
    none_format.pack_length [of fs]
  by (auto simp: unpack_group_def pack_group_def group_bytes_def split: if_splits)

lemma encode_stream:
  "gsm_ok s \<Longrightarrow> \<forall>x \<in> set amp. is_i16 x \<Longrightarrow> length amp = n * group_samples (packing s) \<Longrightarrow>
   \<exists>gs s'. gsm0610_encode s amp = Some (concat (map (pack_group (packing s)) gs), s') \<and> gsm_ok s' \<and>
     packing s' = packing s \<and> length gs = n \<and>
     (\<forall>fs \<in> set gs. length fs = (if packing s = GSM0610_PACKING_WAV49 then 2 else 1) \<and> (\<forall>f \<in> set fs. frame_fits f))"
proof (induction n arbitrary: s amp)
  case 0
  then show ?case by (auto simp: gsm0610_encode.simps intro: exI [of _ "[]"])
next
  case (Suc n)
  then have len: "group_samples (packing s) \<le> length amp" by simp
  obtain fs s1 where fs: "\<forall>f \<in> set fs. frame_fits f" and s1: "gsm_ok s1" "packing s1 = packing s"
    and e: "gsm0610_encode s amp =
      (do { (code, s'') \<leftarrow> gsm0610_encode s1 (drop (group_samples (packing s)) amp);
            Some ((if packing s = GSM0610_PACKING_WAV49 then wav49_pack fs
                   else if packing s = GSM0610_PACKING_VOIP then voip_pack fs else none_pack fs) @ code, s'') })"
    and l: "length fs = (if packing s = GSM0610_PACKING_WAV49 then 2 else 1)"
    using encode_group [OF Suc.prems(1,2) len] .
  have d: "\<forall>x \<in> set (drop (group_samples (packing s)) amp). is_i16 x"
    "length (drop (group_samples (packing s)) amp) = n * group_samples (packing s1)"
    using Suc.prems s1 by (auto dest!: in_set_dropD)
  obtain gs s' where gs: "gsm0610_encode s1 (drop (group_samples (packing s)) amp) =
      Some (concat (map (pack_group (packing s)) gs), s')" "gsm_ok s'" "packing s' = packing s" "length gs = n"
    "\<forall>fs \<in> set gs. length fs = (if packing s = GSM0610_PACKING_WAV49 then 2 else 1) \<and> (\<forall>f \<in> set fs. frame_fits f)"
    using Suc.IH [OF s1(1) d] unfolding s1(2) by blast
  have "gsm0610_encode s amp = Some (concat (map (pack_group (packing s)) (fs # gs)), s')"
    using e gs(1) by (simp add: pack_group_def)
  moreover have "length (fs # gs) = Suc n" using gs(4) by simp
  moreover have "\<forall>fs \<in> set (fs # gs). length fs = (if packing s = GSM0610_PACKING_WAV49 then 2 else 1) \<and>
      (\<forall>f \<in> set fs. frame_fits f)" using gs(5) fs l by auto
  ultimately show ?case using gs(2,3) by blast
qed

lemma length_group_stream:
  "\<forall>fs \<in> set gs. length fs = (if pk = GSM0610_PACKING_WAV49 then 2 else 1) \<and> (\<forall>f \<in> set fs. frame_fits f) \<Longrightarrow>
     length (concat (map (pack_group pk) gs)) = length gs * group_bytes pk"
  by (induction gs) (simp_all add: unpack_pack_group(2))

lemma unpack_group_stream:
  "\<forall>fs \<in> set gs. length fs = (if pk = GSM0610_PACKING_WAV49 then 2 else 1) \<and> (\<forall>f \<in> set fs. frame_fits f) \<Longrightarrow>
     i < length gs \<Longrightarrow>
     \<exists>fs. unpack_group pk (drop (i * group_bytes pk) (concat (map (pack_group pk) gs))) = Some fs \<and>
       (\<forall>f \<in> set fs. frame_fits f)"
proof (induction gs arbitrary: i)
  case (Cons fs gs)
  have fs: "length fs = (if pk = GSM0610_PACKING_WAV49 then 2 else 1)" "\<forall>f \<in> set fs. frame_fits f"
    using Cons.prems by simp_all
  note rt = unpack_pack_group [OF fs]
  show ?case
  proof (cases i)
    case 0
    then show ?thesis using rt(1) fs(2) by simp
  next
    case (Suc j)
    then show ?thesis using Cons.IH [of j] Cons.prems rt(2) by simp
  qed
qed simp

lemma unpack_group_total:
  assumes "pk = 1 \<or> pk = 2" and "group_bytes pk \<le> length code"
  shows "\<exists>fs. unpack_group pk code = Some fs \<and> (\<forall>f \<in> set fs. frame_fits f)"
proof (cases "pk = 1")
  case True
  then obtain f g where "gsm0610_unpack_wav49 code = Some (f, g)" "frame_fits f" "frame_fits g"
    using unpack_wav49_fits [of code] assms(2) by (auto simp: group_bytes_def)
  then show ?thesis using True by (simp add: unpack_group_def wav49_unpack_def)
next
  case False
  then obtain f where "gsm0610_unpack_voip code = Some f" "frame_fits f"
    using unpack_voip_fits [of code] assms by (auto simp: group_bytes_def)
  then show ?thesis using False assms(1) by (simp add: unpack_group_def voip_unpack_def)
qed

lemma encode_short: "length amp < 160 \<Longrightarrow> encode_a_frame s amp = None"
  by (simp add: encode_a_frame_def gsm0610_preprocess_def mem_read_def)

text \<open>One turn of the decoding loop, and the whole loop on blocks that unpack to frames that fit.\<close>

lemma decode_group:
  assumes ok: "gsm_ok s" and u: "unpack_group (packing s) code = Some fs" and fs: "\<forall>f \<in> set fs. frame_fits f"
    and ne: "code \<noteq> []"
  obtains a s1 where "gsm0610_decode s code =
      (do { (amp, s'') \<leftarrow> gsm0610_decode s1 (drop (group_bytes (packing s)) code); Some (a @ amp, s'') })"
    and "gsm_ok s1" and "packing s1 = packing s" and "length a = group_samples (packing s)"
    and "\<forall>v \<in> set a. is_i16 v \<and> 8 dvd v"
proof (cases "packing s = 1")
  case True
  then obtain f g where fg: "gsm0610_unpack_wav49 code = Some (f, g)" "fs = [f, g]"
    using u by (auto simp: unpack_group_def wav49_unpack_def split: Option.bind_splits)
  have fits: "frame_fits f" "frame_fits g" using fs fg by simp_all
  obtain a s1 where a: "decode_a_frame s f = Some (a, s1)" "length a = 160" "\<forall>v \<in> set a. is_i16 v \<and> 8 dvd v"
    "gsm_ok s1" "packing s1 = packing s" using decode_a_frame_ok [OF ok fits(1)] .
  obtain b s2 where b: "decode_a_frame s1 g = Some (b, s2)" "length b = 160" "\<forall>v \<in> set b. is_i16 v \<and> 8 dvd v"
    "gsm_ok s2" "packing s2 = packing s1" using decode_a_frame_ok [OF a(4) fits(2)] .
  show ?thesis
    by (rule that [of s2 "a @ b"])
      (use True ne fg a b in \<open>auto simp: gsm0610_decode.simps [of s code] group_bytes_def group_samples_def
         split: Option.bind_splits\<close>)
next
  case False
  then obtain f where f: "fs = [f]"
    "gsm0610_unpack_voip code = Some f \<or> packing s \<noteq> 2" "gsm0610_unpack_none code = Some f \<or> packing s = 2"
    using u by (auto simp: unpack_group_def voip_unpack_def none_unpack_def split: if_splits Option.bind_splits)
  have fits: "frame_fits f" using fs f by simp
  obtain a s1 where a: "decode_a_frame s f = Some (a, s1)" "length a = 160" "\<forall>v \<in> set a. is_i16 v \<and> 8 dvd v"
    "gsm_ok s1" "packing s1 = packing s" using decode_a_frame_ok [OF ok fits] .
  show ?thesis
    by (rule that [of s1 a])
      (use False ne f a in \<open>auto simp: gsm0610_decode.simps [of s code] group_bytes_def group_samples_def\<close>)
qed

lemma decode_stream:
  "gsm_ok s \<Longrightarrow> length code = n * group_bytes (packing s) \<Longrightarrow>
   (\<And>i. i < n \<Longrightarrow> \<exists>fs. unpack_group (packing s) (drop (i * group_bytes (packing s)) code) = Some fs \<and>
                      (\<forall>f \<in> set fs. frame_fits f)) \<Longrightarrow>
   \<exists>amp s'. gsm0610_decode s code = Some (amp, s') \<and> length amp = n * group_samples (packing s) \<and>
     (\<forall>v \<in> set amp. is_i16 v \<and> 8 dvd v) \<and> gsm_ok s' \<and> packing s' = packing s"
proof (induction n arbitrary: s code)
  case 0
  then show ?case by (simp add: gsm0610_decode.simps)
next
  case (Suc n)
  let ?b = "group_bytes (packing s)"
  obtain fs where u: "unpack_group (packing s) code = Some fs" "\<forall>f \<in> set fs. frame_fits f"
    using Suc.prems(3) [of 0] by auto
  have ne: "code \<noteq> []" using Suc.prems(2) group_sizes(2) [of "packing s"] by fastforce
  obtain a s1 where d: "gsm0610_decode s code =
      (do { (amp, s'') \<leftarrow> gsm0610_decode s1 (drop ?b code); Some (a @ amp, s'') })"
    and s1: "gsm_ok s1" "packing s1 = packing s" and a: "length a = group_samples (packing s)"
    "\<forall>v \<in> set a. is_i16 v \<and> 8 dvd v" using decode_group [OF Suc.prems(1) u ne] .
  have "\<exists>fs. unpack_group (packing s1) (drop (i * group_bytes (packing s1)) (drop ?b code)) = Some fs \<and>
      (\<forall>f \<in> set fs. frame_fits f)" if "i < n" for i
    using Suc.prems(3) [of "Suc i"] that s1(2) by (simp add: add.commute)
  then obtain amp s' where "gsm0610_decode s1 (drop ?b code) = Some (amp, s')"
    "length amp = n * group_samples (packing s)" "\<forall>v \<in> set amp. is_i16 v \<and> 8 dvd v" "gsm_ok s'" "packing s' = packing s"
    using Suc.IH [OF s1(1), of "drop ?b code"] Suc.prems(2) s1(2) by auto
  then show ?case using d a by auto
qed

subsection \<open>Properties\<close>

text \<open>
  C23. The encoder is total: from a well formed state every whole number of groups of 16 bit samples
  (160 samples, 320 for WAV49) is encoded without a failing assertion or an access outside a
  buffer, into exactly 76, 33 or 65 bytes a group; the state stays well formed.
\<close>

theorem gsm0610_encode_total:
  assumes "gsm_ok s" and "\<forall>x \<in> set amp. is_i16 x" and "length amp = n * group_samples (packing s)"
  shows "\<exists>code s'. gsm0610_encode s amp = Some (code, s') \<and> length code = n * group_bytes (packing s) \<and>
     gsm_ok s' \<and> packing s' = packing s"
proof -
  obtain gs s' where g: "gsm0610_encode s amp = Some (concat (map (pack_group (packing s)) gs), s')" "gsm_ok s'"
    "packing s' = packing s" "length gs = n"
    "\<forall>fs \<in> set gs. length fs = (if packing s = GSM0610_PACKING_WAV49 then 2 else 1) \<and> (\<forall>f \<in> set fs. frame_fits f)"
    using encode_stream [OF assms] by blast
  then show ?thesis using length_group_stream by blast
qed

theorem gsm0610_encode_total_witness:
  "\<exists>code s'. gsm0610_encode (gsm0610_init 2) (replicate 320 (- 32768)) = Some (code, s') \<and> length code = 66"
  using gsm0610_encode_total [of "gsm0610_init 2" "replicate 320 (- 32768)" 2] gsm0610_init_ok [of 2]
  by (auto simp: is_i16_def gsm0610_init_def group_samples_def group_bytes_def)

text \<open>
  The encoder never checks the number of samples: where it is not a whole number of groups (a
  short last frame, or an odd number of frames for WAV49) it reads past the end of the samples.
\<close>

theorem gsm0610_encode_overreads:
  assumes "gsm_ok s" and "\<forall>x \<in> set amp. is_i16 x" and "\<not> group_samples (packing s) dvd length amp"
  shows "gsm0610_encode s amp = None"
  using assms
proof (induction "length amp" arbitrary: s amp rule: less_induct)
  case less
  show ?case
  proof (cases "group_samples (packing s) \<le> length amp")
    case True
    obtain fs s1 where s1: "gsm_ok s1" "packing s1 = packing s"
      and e: "gsm0610_encode s amp =
      (do { (code, s'') \<leftarrow> gsm0610_encode s1 (drop (group_samples (packing s)) amp);
            Some ((if packing s = GSM0610_PACKING_WAV49 then wav49_pack fs
                   else if packing s = GSM0610_PACKING_VOIP then voip_pack fs else none_pack fs) @ code, s'') })"
      using encode_group [OF less.prems(1,2) True] by metis
    have "length (drop (group_samples (packing s)) amp) < length amp"
      using True group_sizes(1) [of "packing s"] unfolding length_drop by linarith
    then have "gsm0610_encode s1 (drop (group_samples (packing s)) amp) = None"
      using less.prems True s1
      by (intro less.hyps) (auto dest!: in_set_dropD simp: dvd_minus_self)
    then show ?thesis using e by simp
  next
    case False
    have ne: "amp \<noteq> []" using less.prems(3) by auto
    show ?thesis
    proof (cases "length amp < 160")
      case True
      then show ?thesis using ne encode_short [of amp s] by (simp add: gsm0610_encode.simps)
    next
      case long: False
      then have pk: "packing s = 1" "length (drop 160 amp) < 160"
        using False by (auto simp: group_samples_def split: if_splits)
      obtain f s1 where f: "encode_a_frame s amp = Some (f, s1)" "packing s1 = packing s"
        using encode_a_frame_ok [OF less.prems(1,2)] long by (metis not_less)
      then show ?thesis using ne pk encode_short [OF pk(2)] by (simp add: gsm0610_encode.simps [of s amp])
    qed
  qed
qed

theorem gsm0610_encode_overreads_witness:
  "gsm0610_encode (gsm0610_init 1) (replicate 160 7) = None"
  using gsm0610_encode_overreads [of "gsm0610_init 1" "replicate 160 7"] gsm0610_init_ok [of 1]
  by (simp add: is_i16_def gsm0610_init_def group_samples_def)

text \<open>
  C24. What the encoder writes the decoder reads: a decoder with the same packing, in any well formed
  state, decodes the whole stream without a failing assertion and without leaving the code, and
  gives back as many samples as were encoded, each of 13 significant bits.
\<close>

theorem gsm0610_decodes_encoded:
  assumes "gsm_ok s" and "\<forall>x \<in> set amp. is_i16 x" and "group_samples (packing s) dvd length amp"
    and "gsm0610_encode s amp = Some (code, s')" and "gsm_ok t" and "packing t = packing s"
  shows "\<exists>out t'. gsm0610_decode t code = Some (out, t') \<and> length out = length amp \<and>
     (\<forall>v \<in> set out. is_i16 v \<and> 8 dvd v) \<and> gsm_ok t'"
proof -
  obtain n where n: "length amp = n * group_samples (packing s)" using assms(3) by (metis dvd_def mult.commute)
  obtain gs s'' where "gsm0610_encode s amp = Some (concat (map (pack_group (packing s)) gs), s'')"
    and len: "length gs = n"
    and g: "\<forall>fs \<in> set gs. length fs = (if packing s = GSM0610_PACKING_WAV49 then 2 else 1) \<and> (\<forall>f \<in> set fs. frame_fits f)"
    using encode_stream [OF assms(1,2) n] by blast
  then have code: "code = concat (map (pack_group (packing t)) gs)" using assms(4,6) by simp
  have g': "\<forall>fs \<in> set gs. length fs = (if packing t = GSM0610_PACKING_WAV49 then 2 else 1) \<and> (\<forall>f \<in> set fs. frame_fits f)"
    using g assms(6) by simp
  have "length code = n * group_bytes (packing t)" using length_group_stream [OF g'] len code by simp
  moreover have "\<exists>fs. unpack_group (packing t) (drop (i * group_bytes (packing t)) code) = Some fs \<and>
      (\<forall>f \<in> set fs. frame_fits f)" if "i < n" for i
    unfolding code using unpack_group_stream [OF g'] that len by blast
  ultimately show ?thesis using decode_stream [OF assms(5)] n assms(6) by metis
qed

theorem gsm0610_decodes_encoded_witness:
  "\<exists>code s out t. gsm0610_encode (gsm0610_init 1) (replicate 640 1000) = Some (code, s) \<and>
     gsm0610_decode (gsm0610_init 1) code = Some (out, t) \<and> length out = 640"
proof -
  have a: "\<forall>x \<in> set (replicate 640 (1000 :: int)). is_i16 x"
    and d: "group_samples (packing (gsm0610_init 1)) dvd length (replicate 640 (1000 :: int))"
    by (simp_all add: is_i16_def gsm0610_init_def group_samples_def)
  obtain code s where e: "gsm0610_encode (gsm0610_init 1) (replicate 640 1000) = Some (code, s)"
    using encode_stream [OF gsm0610_init_ok a, of 2 1] by (auto simp: gsm0610_init_def group_samples_def)
  show ?thesis using gsm0610_decodes_encoded [OF gsm0610_init_ok a d e gsm0610_init_ok refl] e by auto
qed





end
