(* ===== verification/C_Float.thy ===== *)
theory C_Float
  imports Complex_Main Prelude
begin

text \<open>
  Floating point arithmetic, as the jitter buffer and the resampler of Speex use it, and how far its results are from the
  exact ones.

  A \<open>float\<close> or a \<open>double\<close> is the rational number it stands for. \<open>round_to\<close> rounds to the nearest number of
  \<open>prec\<close> significant bits whose exponent is in a range, ties to even; \<open>None\<close> is an overflow. \<open>fl\<close> is
  single precision, \<open>dbl\<close> double precision; the least exponent is that of the subnormal numbers.
\<close>

definition round_half_even :: "rat \<Rightarrow> int" where
  "round_half_even x =
     (let f = \<lfloor>x\<rfloor>; d = x - of_int f in
      if d < 1 / 2 then f else if d > 1 / 2 then f + 1 else if even f then f else f + 1)"

definition pow2 :: "int \<Rightarrow> rat" where
  "pow2 e = (if e \<ge> 0 then 2 ^ nat e else 1 / 2 ^ nat (- e))"

definition round_to :: "int \<Rightarrow> int list \<Rightarrow> rat \<Rightarrow> rat option" where
  "round_to prec exps x = do { e \<leftarrow> find (\<lambda>e. \<bar>x\<bar> < pow2 (prec + e)) exps;
                               Some (of_int (round_half_even (x / pow2 e)) * pow2 e) }"

definition fl :: "rat \<Rightarrow> rat option" where
  "fl x = round_to 24 [- 149..104] x"

definition dbl :: "rat \<Rightarrow> rat option" where
  "dbl x = round_to 53 [- 1074..971] x"

text \<open>The conversion to \<open>spx_int32_t\<close> truncates; out of range it is undefined.\<close>

definition float_to_i32 :: "rat \<Rightarrow> int option" where
  "float_to_i32 x =
     (let t = (if x \<ge> 0 then \<lfloor>x\<rfloor> else \<lceil>x\<rceil>) in if is_i32 t then Some t else None)"

subsection \<open>Rounding\<close>

lemma pow2_pos [simp]: "0 < pow2 e"
  by (simp add: pow2_def)

lemma pow2_nonzero [simp]: "pow2 e \<noteq> 0"
  using pow2_pos [of e] by linarith

lemma abs_pow2 [simp]: "\<bar>pow2 e\<bar> = pow2 e"
  using pow2_pos [of e] by linarith

lemma pow2_Suc: "pow2 (e + 1) = 2 * pow2 e"
proof (cases "e \<ge> 0")
  case False
  then have "nat (- e) = Suc (nat (- (e + 1)))" by simp
  then show ?thesis using False by (cases "e = - 1") (simp_all add: pow2_def)
qed (simp add: pow2_def nat_add_distrib)

lemma pow2_add_nat: "pow2 (e + int n) = 2 ^ n * pow2 e"
proof (induction n)
  case (Suc n)
  have "pow2 (e + int (Suc n)) = pow2 (e + int n + 1)" by (simp add: add_ac)
  then show ?case using Suc pow2_Suc by simp
qed simp

lemma pow2_of_nat [simp]: "pow2 (int n) = 2 ^ n"
  by (simp add: pow2_def)

lemma round_half_even_error: "\<bar>of_int (round_half_even x) - x\<bar> \<le> 1 / 2"
proof -
  have "of_int \<lfloor>x\<rfloor> \<le> x" "x < of_int \<lfloor>x\<rfloor> + 1" by linarith+
  then show ?thesis by (auto simp: round_half_even_def Let_def abs_le_iff)
qed

lemma round_half_even_int [simp]: "round_half_even (of_int n) = n"
  by (simp add: round_half_even_def)

text \<open>The exponent found is the least with room for the value in the bits of the format.\<close>

lemma round_to_exponent:
  assumes "\<bar>x\<bar> < pow2 k" and "k \<le> prec + hi" and "lo \<le> hi"
  shows "\<exists>e. round_to prec [lo..hi] x = Some (of_int (round_half_even (x / pow2 e)) * pow2 e) \<and> lo \<le> e \<and>
    (e = lo \<or> pow2 (prec - 1 + e) \<le> \<bar>x\<bar>) \<and> (e \<le> k - prec \<or> e = lo)"
proof -
  let ?P = "\<lambda>e. \<bar>x\<bar> < pow2 (prec + e)" and ?es = "[lo..hi]" and ?n = "nat (hi - lo + 1)"
  have nth: "?es ! i = lo + int i" if "i < ?n" for i
    using that by (subst nth_upto) auto
  define i0 where "i0 = nat (k - prec - lo)"
  have i0: "i0 < ?n" using assms(2,3) by (auto simp: i0_def)
  have mono: "pow2 k \<le> pow2 (prec + (lo + int i0))"
  proof -
    have "prec + (lo + int i0) = k + int (nat (prec + (lo + int i0) - k))" by (simp add: i0_def)
    then show ?thesis using pow2_add_nat [of k] by (metis less_eq_rat_def mult_le_cancel_right1 one_le_power order_le_less pow2_pos one_le_numeral not_less)
  qed
  then have "?P (?es ! i0)" using assms(1) nth [OF i0] by simp
  moreover have "?es ! i0 \<in> set ?es" using i0 by (intro nth_mem) simp
  ultimately have "\<exists>e \<in> set ?es. ?P e" by blast
  then obtain e where find: "find ?P ?es = Some e" using find_None_iff [of ?P ?es] by fastforce
  then obtain i where i: "i < ?n" "?P (?es ! i)" "e = ?es ! i"
    and least: "\<And>j. j < i \<Longrightarrow> \<not> ?P (?es ! j)"
    unfolding find_Some_iff length_upto by blast
  have e: "e = lo + int i" using i nth by simp
  have "e = lo \<or> pow2 (prec - 1 + e) \<le> \<bar>x\<bar>"
  proof (cases i)
    case (Suc j)
    then have "\<not> \<bar>x\<bar> < pow2 (prec + (lo + int j))" using least [of j] nth [of j] i(1) by simp
    then show ?thesis using e Suc by (simp add: not_less)
  qed (simp add: e)
  moreover have "e \<le> k - prec \<or> e = lo"
  proof (rule ccontr)
    assume "\<not> ?thesis"
    then have "i0 < i" using e unfolding i0_def by arith
    then have "\<not> ?P (?es ! i0)" by (rule least)
    then show False using nth [OF i0] mono assms(1) by simp
  qed
  moreover have "round_to prec [lo..hi] x = Some (of_int (round_half_even (x / pow2 e)) * pow2 e)" using find by (simp add: round_to_def)
  moreover have "lo \<le> e" using e by simp
  ultimately show ?thesis by blast
qed

lemma fl_exponent:
  assumes "\<bar>x\<bar> < pow2 k" and "k \<le> 128"
  shows "\<exists>e. fl x = Some (of_int (round_half_even (x / pow2 e)) * pow2 e) \<and> - 149 \<le> e \<and>
    (e = - 149 \<or> pow2 (23 + e) \<le> \<bar>x\<bar>) \<and> (e \<le> k - 24 \<or> e = - 149)"
  using round_to_exponent [of x k 24 104 "- 149"] assms unfolding fl_def by simp

text \<open>Rounding is monotone with respect to the numbers of the format.\<close>

lemma round_half_even_le:
  assumes "\<bar>x\<bar> \<le> of_int n"
  shows "\<bar>round_half_even x\<bar> \<le> n"
proof -
  have b: "- of_int n \<le> x" "x \<le> of_int n" using assms by linarith+
  have f: "- n \<le> \<lfloor>x\<rfloor>" "\<lfloor>x\<rfloor> \<le> n" using b by linarith+
  have "\<lfloor>x\<rfloor> = n \<Longrightarrow> x - of_int \<lfloor>x\<rfloor> < 1 / 2" using b by simp
  then show ?thesis using f by (cases "\<lfloor>x\<rfloor> = n") (auto simp: round_half_even_def Let_def abs_le_iff)
qed

lemma round_half_even_ge:
  assumes "of_int n \<le> \<bar>x\<bar>"
  shows "n \<le> \<bar>round_half_even x\<bar>"
proof (cases "0 \<le> x")
  case True
  then have "n \<le> \<lfloor>x\<rfloor>" using assms by linarith
  moreover have "\<lfloor>x\<rfloor> \<le> round_half_even x" by (simp add: round_half_even_def Let_def)
  ultimately show ?thesis by linarith
next
  case False
  then have x: "x \<le> - of_int n" "x < 0" using assms by linarith+
  have "round_half_even x \<le> - n \<and> round_half_even x \<le> 0"
  proof (cases "x - of_int \<lfloor>x\<rfloor> = 0")
    case True
    then have "round_half_even x = \<lfloor>x\<rfloor>" by (simp add: round_half_even_def)
    moreover have "\<lfloor>x\<rfloor> \<le> - n" "\<lfloor>x\<rfloor> \<le> 0" using x by linarith+
    ultimately show ?thesis by simp
  next
    case False
    then have "\<lfloor>x\<rfloor> + 1 \<le> - n" "\<lfloor>x\<rfloor> + 1 \<le> 0" using x by linarith+
    moreover have "round_half_even x \<le> \<lfloor>x\<rfloor> + 1" by (simp add: round_half_even_def Let_def)
    ultimately show ?thesis by linarith
  qed
  then show ?thesis by linarith
qed

lemma fl_int:
  assumes "\<bar>n\<bar> < 2 ^ 24"
  shows "fl (of_int n) = Some (of_int n)"
proof -
  have "\<bar>of_int n :: rat\<bar> < pow2 24"
    using assms by (simp add: pow2_def of_int_abs [symmetric] del: of_int_abs)
  then obtain e where f: "fl (of_int n) = Some (of_int (round_half_even (of_int n / pow2 e)) * pow2 e)" and e: "- 149 \<le> e" "e \<le> 0"
    using fl_exponent [of "of_int n" 24] by auto
  have "of_int n / pow2 e = (of_int (n * 2 ^ nat (- e)) :: rat)" using e by (simp add: pow2_def)
  then have "of_int (round_half_even (of_int n / pow2 e)) * pow2 e = (of_int (n * 2 ^ nat (- e)) :: rat) * pow2 e"
    by (simp only: round_half_even_int)
  also have "\<dots> = of_int n" using e by (simp add: pow2_def)
  finally show ?thesis using f by simp
qed

lemma fl_error:
  assumes "\<bar>x\<bar> < 2 ^ 40"
  obtains y where "fl x = Some y" and "\<bar>y - x\<bar> \<le> \<bar>x\<bar> / 2 ^ 24 + 1"
proof -
  have "\<bar>x\<bar> < pow2 40" using assms by (simp add: pow2_def)
  then obtain e where f: "fl x = Some (of_int (round_half_even (x / pow2 e)) * pow2 e)"
    and e: "e = - 149 \<or> pow2 (23 + e) \<le> \<bar>x\<bar>" using fl_exponent [of x 40] by auto
  let ?y = "of_int (round_half_even (x / pow2 e)) * pow2 e"
  have "?y - x = (of_int (round_half_even (x / pow2 e)) - x / pow2 e) * pow2 e" by (simp add: left_diff_distrib)
  then have "\<bar>?y - x\<bar> = \<bar>of_int (round_half_even (x / pow2 e)) - x / pow2 e\<bar> * pow2 e" by (simp add: abs_mult)
  also have "\<dots> \<le> 1 / 2 * pow2 e" using round_half_even_error by (intro mult_right_mono) (auto simp: order_less_imp_le)
  finally have err: "\<bar>?y - x\<bar> \<le> pow2 e / 2" by simp
  have "pow2 e / 2 \<le> \<bar>x\<bar> / 2 ^ 24 + 1"
  proof (cases "e = - 149")
    case True
    have "pow2 (- 149) \<le> 1" by (simp add: pow2_def)
    then show ?thesis using True by simp
  next
    case False
    have "pow2 (23 + e) = 2 ^ 23 * pow2 e" using pow2_add_nat [of e 23] by (simp add: add.commute)
    then show ?thesis using e False by simp
  qed
  then have "\<bar>?y - x\<bar> \<le> \<bar>x\<bar> / 2 ^ 24 + 1" using err by linarith
  then show ?thesis by (rule that [OF f])
qed

lemma pow2_add: "pow2 (a + b) = pow2 a * pow2 b"
proof (cases "0 \<le> b")
  case True
  then have "b = int (nat b)" by simp
  then show ?thesis by (metis mult.commute pow2_add_nat pow2_of_nat)
next
  case False
  then have "pow2 a = 2 ^ nat (- b) * pow2 (a + b)" using pow2_add_nat [of "a + b" "nat (- b)"] by simp
  moreover have "pow2 b = 1 / 2 ^ nat (- b)" using False by (simp add: pow2_def)
  ultimately show ?thesis by simp
qed

lemma pow2_mono: "a \<le> b \<Longrightarrow> pow2 a \<le> pow2 b"
proof -
  assume "a \<le> b"
  then have "pow2 b = 2 ^ nat (b - a) * pow2 a" using pow2_add_nat [of a "nat (b - a)"] by simp
  moreover have "1 * pow2 a \<le> 2 ^ nat (b - a) * pow2 a" by (intro mult_right_mono) (simp_all add: order_less_imp_le)
  ultimately show ?thesis by simp
qed

lemma pow2_divide: "pow2 a / pow2 b = pow2 (a - b)"
  using pow2_add [of "a - b" b] by simp

lemma pow2_integral: "0 \<le> a \<Longrightarrow> pow2 a = of_int (2 ^ nat a)"
  by (simp add: pow2_def)

lemma abs_divide_le: "\<bar>x\<bar> \<le> B \<Longrightarrow> \<bar>x / pow2 e\<bar> \<le> B / pow2 e"
  by (simp add: abs_divide divide_right_mono order_less_imp_le)

lemma abs_divide_ge: "B \<le> \<bar>x\<bar> \<Longrightarrow> B / pow2 e \<le> \<bar>x / pow2 e\<bar>"
  by (simp add: abs_divide divide_right_mono order_less_imp_le)

lemma round_to_le:
  assumes x: "\<bar>x\<bar> \<le> of_int n * pow2 l" and n: "0 \<le> n" "n < 2 ^ prec" and l: "lo \<le> l" "l \<le> hi"
  shows "\<exists>y. round_to (int prec) [lo..hi] x = Some y \<and> \<bar>y\<bar> \<le> of_int n * pow2 l"
proof -
  have "(of_int n :: rat) < of_int (2 ^ prec)" using n(2) by (simp only: of_int_less_iff)
  then have "of_int n * pow2 l < 2 ^ prec * pow2 l" by (intro mult_strict_right_mono) simp_all
  then have "\<bar>x\<bar> < 2 ^ prec * pow2 l" using x by linarith
  then have "\<bar>x\<bar> < pow2 (int prec + l)" by (simp only: pow2_add pow2_of_nat)
  from round_to_exponent [OF this, of "int prec" hi lo] l obtain e
    where r: "round_to (int prec) [lo..hi] x = Some (of_int (round_half_even (x / pow2 e)) * pow2 e)"
      and e: "lo \<le> e" "e \<le> l \<or> e = lo" by auto
  have le: "e \<le> l" using e l by auto
  have "of_int n * pow2 l / pow2 e = of_int (n * 2 ^ nat (l - e))"
    using le by (simp add: pow2_divide pow2_integral times_divide_eq_right [symmetric] del: times_divide_eq_right)
  then have "\<bar>x / pow2 e\<bar> \<le> of_int (n * 2 ^ nat (l - e))" using abs_divide_le [OF x, of e] by simp
  then have "\<bar>round_half_even (x / pow2 e)\<bar> \<le> n * 2 ^ nat (l - e)" by (rule round_half_even_le)
  then have "(of_int \<bar>round_half_even (x / pow2 e)\<bar> :: rat) \<le> of_int (n * 2 ^ nat (l - e))" by (simp only: of_int_le_iff)
  then have "of_int \<bar>round_half_even (x / pow2 e)\<bar> * pow2 e \<le> of_int (n * 2 ^ nat (l - e)) * pow2 e"
    by (intro mult_right_mono) (simp_all add: order_less_imp_le)
  also have "\<dots> = of_int n * pow2 l" using le pow2_add_nat [of e "nat (l - e)"] by simp
  finally have "\<bar>of_int (round_half_even (x / pow2 e)) * pow2 e\<bar> \<le> of_int n * pow2 l" by (simp add: abs_mult)
  then show ?thesis using r by blast
qed

lemma round_to_ge:
  assumes x: "pow2 l \<le> \<bar>x\<bar>" "\<bar>x\<bar> < pow2 (int prec + hi)" and l: "lo \<le> l" "lo \<le> hi" and p: "0 < prec"
  shows "\<exists>y. round_to (int prec) [lo..hi] x = Some y \<and> pow2 l \<le> \<bar>y\<bar>"
proof -
  from round_to_exponent [OF x(2), of "int prec" hi lo] l obtain e
    where r: "round_to (int prec) [lo..hi] x = Some (of_int (round_half_even (x / pow2 e)) * pow2 e)"
      and e: "e = lo \<or> pow2 (int prec - 1 + e) \<le> \<bar>x\<bar>" by auto
  have "pow2 l \<le> of_int \<bar>round_half_even (x / pow2 e)\<bar> * pow2 e"
  proof (cases "e \<le> l")
    case True
    then have q: "pow2 l / pow2 e = of_int (2 ^ nat (l - e))" by (simp add: pow2_divide pow2_integral)
    have "2 ^ nat (l - e) \<le> \<bar>round_half_even (x / pow2 e)\<bar>"
      using abs_divide_ge [OF x(1), of e] by (intro round_half_even_ge) (simp only: q)
    then have "pow2 l / pow2 e \<le> of_int \<bar>round_half_even (x / pow2 e)\<bar>" by (simp only: q of_int_le_iff)
    then show ?thesis by (simp add: pos_divide_le_eq)
  next
    case False
    then have "pow2 (int prec - 1 + e) \<le> \<bar>x\<bar>" using e l by auto
    then have "pow2 (int prec - 1) * pow2 e \<le> \<bar>x\<bar>" by (simp only: pow2_add)
    then have "pow2 (int prec - 1) \<le> \<bar>x / pow2 e\<bar>" by (simp add: abs_divide pos_le_divide_eq)
    moreover have "1 \<le> pow2 (int prec - 1)" using p pow2_mono [of 0 "int prec - 1"] by (simp add: pow2_def)
    ultimately have "of_int 1 \<le> \<bar>x / pow2 e\<bar>" unfolding of_int_1 by (rule order_trans [rotated])
    then have "1 \<le> \<bar>round_half_even (x / pow2 e)\<bar>" by (rule round_half_even_ge)
    then have "(1 :: rat) \<le> of_int \<bar>round_half_even (x / pow2 e)\<bar>" by (simp only: of_int_1_le_iff)
    then have "1 * pow2 e \<le> of_int \<bar>round_half_even (x / pow2 e)\<bar> * pow2 e" by (intro mult_right_mono) (simp_all add: order_less_imp_le)
    moreover have "pow2 l \<le> pow2 e" using False by (intro pow2_mono) simp
    ultimately show ?thesis by linarith
  qed
  then show ?thesis using r by (simp add: abs_mult)
qed

lemma round_to_exact:
  assumes n: "\<bar>n\<bar> < 2 ^ prec" and l: "lo \<le> l" "l \<le> hi"
  shows "round_to (int prec) [lo..hi] (of_int n * pow2 l) = Some (of_int n * pow2 l)"
proof -
  let ?x = "of_int n * pow2 l"
  have "(of_int \<bar>n\<bar> :: rat) < of_int (2 ^ prec)" using n by (simp only: of_int_less_iff)
  then have "of_int \<bar>n\<bar> * pow2 l < 2 ^ prec * pow2 l" by (intro mult_strict_right_mono) simp_all
  then have "\<bar>?x\<bar> < pow2 (int prec + l)" by (simp add: pow2_add abs_mult)
  from round_to_exponent [OF this, of "int prec" hi lo] l obtain e
    where r: "round_to (int prec) [lo..hi] ?x = Some (of_int (round_half_even (?x / pow2 e)) * pow2 e)"
      and e: "lo \<le> e" "e \<le> l \<or> e = lo" by auto
  have "e \<le> l" using e l by auto
  then have "?x / pow2 e = of_int (n * 2 ^ nat (l - e))"
    by (simp add: pow2_divide pow2_integral times_divide_eq_right [symmetric] del: times_divide_eq_right)
  then have "of_int (round_half_even (?x / pow2 e)) = ?x / pow2 e" by (simp only: round_half_even_int)
  then show ?thesis using r by simp
qed

lemma fl_exact: "\<bar>n\<bar> < 2 ^ 24 \<Longrightarrow> - 149 \<le> l \<Longrightarrow> l \<le> 104 \<Longrightarrow> fl (of_int n * pow2 l) = Some (of_int n * pow2 l)"
  unfolding fl_def using round_to_exact [of n 24 "- 149" l 104] by simp

lemma round_to_le_int:
  assumes "\<bar>x\<bar> \<le> of_int n" and "n < 2 ^ prec" and "lo \<le> 0" and "0 \<le> hi"
  shows "\<exists>y. round_to (int prec) [lo..hi] x = Some y \<and> \<bar>y\<bar> \<le> of_int n"
proof -
  have "0 \<le> (of_int n :: rat)" using assms(1) by linarith
  then have "0 \<le> n" by simp
  then have "\<exists>y. round_to (int prec) [lo..hi] x = Some y \<and> \<bar>y\<bar> \<le> of_int n * pow2 0"
    using assms by (intro round_to_le) (simp_all add: pow2_def)
  then show ?thesis by (simp add: pow2_def)
qed

lemma fl_le_int:
  assumes "\<bar>x\<bar> \<le> of_int n" and "n < 2 ^ 24"
  obtains y where "fl x = Some y" and "\<bar>y\<bar> \<le> of_int n"
  using round_to_le_int [of x n 24 "- 149" 104] assms unfolding fl_def by (auto simp del: upto_rec_numeral)

lemma dbl_le_int:
  assumes "\<bar>x\<bar> \<le> of_int n" and "n < 2 ^ 53"
  obtains y where "dbl x = Some y" and "\<bar>y\<bar> \<le> of_int n"
  using round_to_le_int [of x n 53 "- 1074" 971] assms unfolding dbl_def by (auto simp del: upto_rec_numeral)

lemma dbl_le_pow2:
  assumes "\<bar>x\<bar> \<le> pow2 k" and "- 1074 \<le> k" and "k \<le> 971"
  obtains y where "dbl x = Some y" and "\<bar>y\<bar> \<le> pow2 k"
  using round_to_le [of x 1 k 53 "- 1074" 971] assms unfolding dbl_def by (auto simp del: upto_rec_numeral)

lemma fl_le_pow2:
  assumes "\<bar>x\<bar> \<le> pow2 k" and "- 149 \<le> k" and "k \<le> 104"
  obtains y where "fl x = Some y" and "\<bar>y\<bar> \<le> pow2 k"
  using round_to_le [of x 1 k 24 "- 149" 104] assms unfolding fl_def by (auto simp del: upto_rec_numeral)

lemma round_to_ge_found:
  assumes "pow2 k \<le> \<bar>x\<bar>" and "lo \<le> k" and "0 < prec" and r: "round_to (int prec) [lo..hi] x = Some y"
  shows "pow2 k \<le> \<bar>y\<bar>"
proof -
  obtain e where "find (\<lambda>e. \<bar>x\<bar> < pow2 (int prec + e)) [lo..hi] = Some e"
    using r by (auto simp: round_to_def Option.bind_eq_Some_conv)
  then have e: "\<bar>x\<bar> < pow2 (int prec + e)" "e \<in> set [lo..hi]" unfolding find_Some_iff by (metis nth_mem)+
  then have "pow2 (int prec + e) \<le> pow2 (int prec + hi)" by (intro pow2_mono) auto
  then have "\<bar>x\<bar> < pow2 (int prec + hi)" using e(1) by linarith
  moreover have "lo \<le> hi" using e(2) by auto
  ultimately obtain z where "round_to (int prec) [lo..hi] x = Some z" "pow2 k \<le> \<bar>z\<bar>"
    using round_to_ge [OF assms(1) _ assms(2) _ assms(3)] by blast
  then show ?thesis using r by simp
qed

lemma fl_ge_pow2: "pow2 k \<le> \<bar>x\<bar> \<Longrightarrow> - 149 \<le> k \<Longrightarrow> fl x = Some y \<Longrightarrow> pow2 k \<le> \<bar>y\<bar>"
  unfolding fl_def by (rule round_to_ge_found [of k x "- 149" 24 104 y]) simp_all

lemma dbl_ge_pow2: "pow2 k \<le> \<bar>x\<bar> \<Longrightarrow> - 1074 \<le> k \<Longrightarrow> dbl x = Some y \<Longrightarrow> pow2 k \<le> \<bar>y\<bar>"
  unfolding dbl_def by (rule round_to_ge_found [of k x "- 1074" 53 971 y]) (simp_all del: upto_rec_numeral)

text \<open>A sign is kept.\<close>

lemma round_half_even_sign: "0 \<le> x \<Longrightarrow> 0 \<le> round_half_even x"
  using round_half_even_le [of x] by (simp add: round_half_even_def Let_def)

lemma round_to_nonneg: "0 \<le> x \<Longrightarrow> round_to prec exps x = Some y \<Longrightarrow> 0 \<le> y"
  by (auto simp: round_to_def Option.bind_eq_Some_conv order_less_imp_le intro!: mult_nonneg_nonneg round_half_even_sign divide_nonneg_nonneg)

lemma fl_nonneg: "0 \<le> x \<Longrightarrow> fl x = Some y \<Longrightarrow> 0 \<le> y"
  unfolding fl_def by (rule round_to_nonneg)

end
