(* ===== verification/Insertion.thy ===== *)
theory Insertion
  imports Prelude
begin

text \<open>
  Arrays that are kept sorted by insertion, of which only the first entries are kept: the place of
  a new entry, and the sorted list it gives.
\<close>

subsection \<open>The place of a new entry\<close>

text \<open>\<open>for\<close> loops with a \<open>break\<close> at the first element that satisfies \<open>P\<close>.\<close>

fun first_slot :: "('a \<Rightarrow> bool) \<Rightarrow> 'a list \<Rightarrow> nat" where
  "first_slot P [] = 0"
| "first_slot P (x # xs) = (if P x then 0 else Suc (first_slot P xs))"

lemma first_slot_le: "first_slot P xs \<le> length xs"
  by (induction xs) auto

lemma first_slot_less: "first_slot P xs < length xs \<longleftrightarrow> (\<exists>x \<in> set xs. P x)"
  by (induction xs) auto

lemma first_slot_nth: "first_slot P xs < length xs \<Longrightarrow> P (xs ! first_slot P xs)"
  by (induction xs) auto

lemma first_slot_before: "i < first_slot P xs \<Longrightarrow> \<not> P (xs ! i)"
proof (induction xs arbitrary: i)
  case (Cons x xs)
  then show ?case by (cases i) (auto split: if_splits)
qed simp

lemma first_slot_take: "take (first_slot P xs) xs = takeWhile (\<lambda>x. \<not> P x) xs"
  by (induction xs) auto

lemma first_slot_drop: "drop (first_slot P xs) xs = dropWhile (\<lambda>x. \<not> P x) xs"
  by (induction xs) auto

lemma first_slot_snoc: "P y \<Longrightarrow> first_slot P (xs @ [y]) = first_slot P xs"
  by (induction xs) auto

lemma first_slot_none: "(\<forall>x \<in> set xs. \<not> P x) \<Longrightarrow> first_slot P xs = length xs"
  by (induction xs) auto

lemma first_slot_cong: "(\<And>x. x \<in> set xs \<Longrightarrow> P x = Q x) \<Longrightarrow> first_slot P xs = first_slot Q xs"
  by (induction xs) auto

lemma first_slot_map: "first_slot P (map f xs) = first_slot (\<lambda>x. P (f x)) xs"
  by (induction xs) auto

subsection \<open>Sorted lists\<close>

lemma take_insort: "sorted xs \<Longrightarrow> take n (insort t (take n xs)) = take n (insort t xs)" for t :: "'a :: linorder"
proof (induction xs arbitrary: n)
  case (Cons x xs)
  show ?case
  proof (cases n)
    case (Suc m)
    then show ?thesis using Cons.IH [of m] Cons.prems by (cases m) (auto simp: take_Cons')
  qed simp
qed simp

lemma insort_slot:
  "sorted xs \<Longrightarrow> insort t xs = take (first_slot (\<lambda>v. t < v) xs) xs @ t # drop (first_slot (\<lambda>v. t < v) xs) xs"
  for t :: "'a :: linorder"
proof (induction xs)
  case (Cons x xs)
  let ?s = "first_slot (\<lambda>v. t < v) xs"
  have ih: "insort t xs = take ?s xs @ t # drop ?s xs" using Cons by simp
  consider "t < x" | "t = x" | "x < t" by fastforce
  then show ?case
  proof cases
    case 2
    have "insort x xs = x # xs" using Cons.prems by (cases xs) auto
    then have "take ?s xs @ t # drop ?s xs = t # xs" using ih 2 by simp
    then show ?thesis using 2 by simp
  qed (auto simp: ih)
qed simp

lemma insort_beyond: "sorted xs \<Longrightarrow> n \<le> length xs \<Longrightarrow> 0 < n \<Longrightarrow> xs ! (n - 1) \<le> t \<Longrightarrow> take n (insort t xs) = take n xs"
  for t :: "'a :: linorder"
proof (induction xs arbitrary: n)
  case (Cons x xs)
  show ?case
  proof (cases "n = 1")
    case True
    then show ?thesis using Cons.prems by (cases "t = x") (auto simp: insort_is_Cons)
  next
    case False
    then obtain m where m: "n = Suc m" "0 < m" using Cons.prems by (cases n) auto
    then have "xs ! (m - 1) \<le> t" "m \<le> length xs" using Cons.prems by (auto simp: nth_Cons')
    then have "take m (insort t xs) = take m xs" using Cons.IH [of m] Cons.prems m by auto
    moreover have "x \<le> t"
    proof -
      have "xs ! (m - 1) \<in> set xs" using m Cons.prems by (intro nth_mem) simp
      then show ?thesis using Cons.prems(1) \<open>xs ! (m - 1) \<le> t\<close> by fastforce
    qed
    moreover have "insort x xs = x # xs" using Cons.prems(1) by (cases xs) auto
    ultimately show ?thesis using m by (cases "t = x") auto
  qed
qed simp

end
