(* ===== verification/Jitter_Timings.thy ===== *)
theory Jitter_Timings
  imports C_Float Insertion "HOL-Library.Signed_Division" "HOL-Library.Multiset"
begin

text \<open>
  The arrival statistics of the Speex jitter buffer (\<open>jitter.c\<close>): the timing buffers and the
  search for the optimal delay.

  A timing buffer keeps the smallest timings it was given, in order: \<open>timings\<close> is its content.
\<close>

subsection \<open>Moves\<close>

text \<open>\<open>SPEEX_MOVE (&xs[dst], &xs[src], n)\<close>.\<close>

definition mem_move :: "'a list \<Rightarrow> nat \<Rightarrow> nat \<Rightarrow> nat \<Rightarrow> 'a list option" where
  "mem_move xs dst src n = do { blk \<leftarrow> mem_read xs src n; mem_write xs dst blk }"

subsection \<open>Timing buffers\<close>

record timing_buffer =
  filled :: nat
  curr_count :: int
  timing :: "int list"
  counts :: "int list"

definition MAX_TIMINGS :: nat where "MAX_TIMINGS = 40"
definition MAX_BUFFERS :: nat where "MAX_BUFFERS = 3"
definition TOP_DELAY :: nat where "TOP_DELAY = 40"

definition tb_init :: "timing_buffer \<Rightarrow> timing_buffer" where
  "tb_init tb = tb\<lparr>filled := 0, curr_count := 0\<rparr>"

definition tb_add :: "timing_buffer \<Rightarrow> int \<Rightarrow> timing_buffer option" where
  "tb_add tb t =
     (if filled tb \<ge> MAX_TIMINGS \<and> t \<ge> timing tb ! (filled tb - 1)
      then Some (tb\<lparr>curr_count := i32 (curr_count tb + 1)\<rparr>)
      else do {
        let pos = first_slot (\<lambda>v. t < v) (take (filled tb) (timing tb));
        require (pos \<le> filled tb \<and> pos < MAX_TIMINGS);
        (tm, cs) \<leftarrow>
          (if pos < filled tb
           then do { let move_size = (if filled tb = MAX_TIMINGS then filled tb - pos - 1 else filled tb - pos);
                     tm \<leftarrow> mem_move (timing tb) (pos + 1) pos move_size;
                     cs \<leftarrow> mem_move (counts tb) (pos + 1) pos move_size;
                     Some (tm, cs) }
           else Some (timing tb, counts tb));
        tm \<leftarrow> mem_put tm pos t;
        cs \<leftarrow> mem_put cs pos (i16 (curr_count tb));
        Some (tb\<lparr>timing := tm, counts := cs, curr_count := i32 (curr_count tb + 1),
                 filled := (if filled tb < MAX_TIMINGS then filled tb + 1 else filled tb)\<rparr>) })"

subsection \<open>The optimal delay\<close>

definition ROUND_DOWN :: "int \<Rightarrow> int \<Rightarrow> int option" where
  "ROUND_DOWN x step =
     do { require (step \<noteq> 0);
          Some (if x < 0 then (x - step + 1) sdiv step * step else x sdiv step * step) }"

definition late_factor ::
    "int \<Rightarrow> int \<Rightarrow> int \<Rightarrow> int \<Rightarrow> rat option" where
  "late_factor latency_tradeoff auto_tradeoff window_size tot_count =
     (if latency_tradeoff \<noteq> 0 then
        do { a \<leftarrow> fl (of_int latency_tradeoff); b \<leftarrow> fl (a * 100);
             c \<leftarrow> fl (of_int tot_count); fl (b / c) }
      else fl (of_int (i32 (auto_tradeoff * window_size) sdiv tot_count)))"

text \<open>The latest timing among the heads of the buffers, with the number of its buffer.\<close>

definition pick_latest :: "timing_buffer list \<Rightarrow> nat list \<Rightarrow> nat option \<times> int" where
  "pick_latest tb pos =
     foldl (\<lambda>(next, latest) j.
        if pos ! j < filled (tb ! j) \<and> timing (tb ! j) ! (pos ! j) < latest
        then (Some j, timing (tb ! j) ! (pos ! j)) else (next, latest))
       (None, 32767) [0..<MAX_BUFFERS]"

definition late_cost :: "rat \<Rightarrow> int \<Rightarrow> int \<Rightarrow> int option" where
  "late_cost factor latest late =
     do { l \<leftarrow> fl (of_int late); p \<leftarrow> fl (factor * l);
          m \<leftarrow> fl (of_int (- latest)); c \<leftarrow> fl (m + p);
          float_to_i32 c }"

record delay_search =
  ds_pos :: "nat list"
  ds_late :: int
  ds_penalty :: bool
  ds_best_cost :: int
  ds_opt :: int
  ds_best :: int
  ds_worst :: int

text \<open>The loop over the top delays: \<open>n\<close> turns are left, \<open>first\<close> is the first turn.\<close>

fun delay_loop :: "timing_buffer list \<Rightarrow> rat \<Rightarrow> int \<Rightarrow> nat \<Rightarrow> bool \<Rightarrow> delay_search \<Rightarrow> delay_search option" where
  "delay_loop tb factor step 0 first ds = Some ds"
| "delay_loop tb factor step (Suc n) first ds =
     (case pick_latest tb (ds_pos ds) of
        (None, _) \<Rightarrow> Some ds
      | (Some j, raw) \<Rightarrow>
          do { latest \<leftarrow> ROUND_DOWN raw step;
               cost \<leftarrow> late_cost factor latest (ds_late ds);
               let better = cost < ds_best_cost ds;
               let late = ds_late ds + 1;
               let penalise = latest \<ge> 0 \<and> \<not> ds_penalty ds;
               delay_loop tb factor step n False
                 \<lparr>ds_pos = (ds_pos ds)[j := ds_pos ds ! j + 1],
                  ds_late = (if penalise then late + 4 else late),
                  ds_penalty = (ds_penalty ds \<or> penalise),
                  ds_best_cost = (if better then cost else ds_best_cost ds),
                  ds_opt = (if better then i16 latest else ds_opt ds),
                  ds_best = raw,
                  ds_worst = (if first then raw else ds_worst ds)\<rparr> })"

definition total_count :: "timing_buffer list \<Rightarrow> int" where
  "total_count tb = foldl (\<lambda>s j. i32 (s + curr_count (tb ! j))) 0 [0..<MAX_BUFFERS]"

text \<open>
  \<open>compute_opt_delay\<close> over the fields it reads; the results are the delay and the new
  \<open>auto_tradeoff\<close>.
\<close>

definition opt_delay ::
    "timing_buffer list \<Rightarrow> int \<Rightarrow> int \<Rightarrow> int \<Rightarrow> int \<Rightarrow> (int \<times> int) option" where
  "opt_delay tb delay_step latency_tradeoff auto_tradeoff window_size =
     (if total_count tb = 0 then Some (0, auto_tradeoff)
      else do {
        factor \<leftarrow> late_factor latency_tradeoff auto_tradeoff window_size (total_count tb);
        ds \<leftarrow> delay_loop tb factor delay_step TOP_DELAY True
          \<lparr>ds_pos = replicate MAX_BUFFERS 0, ds_late = 0, ds_penalty = False,
           ds_best_cost = 2147483647, ds_opt = 0, ds_best = 0, ds_worst = 0\<rparr>;
        let auto = 1 + (ds_best ds - ds_worst ds) sdiv int TOP_DELAY;
        Some (if total_count tb < int TOP_DELAY \<and> ds_opt ds > 0 then 0 else ds_opt ds, auto) })"

subsection \<open>A timing buffer keeps the smallest timings\<close>

definition timings :: "timing_buffer \<Rightarrow> int list" where
  "timings tb = take (filled tb) (timing tb)"

definition tb_shape :: "timing_buffer \<Rightarrow> bool" where
  "tb_shape tb \<longleftrightarrow> length (timing tb) = MAX_TIMINGS \<and> length (counts tb) = MAX_TIMINGS \<and> filled tb \<le> MAX_TIMINGS"

definition tb_wf :: "timing_buffer \<Rightarrow> bool" where
  "tb_wf tb \<longleftrightarrow> tb_shape tb \<and> sorted (timings tb)"

lemma length_timings: "tb_shape tb \<Longrightarrow> length (timings tb) = filled tb"
  by (simp add: timings_def tb_shape_def)

lemma tb_init_shape: "tb_shape tb \<Longrightarrow> tb_shape (tb_init tb)"
  by (simp add: tb_shape_def tb_init_def)

lemma tb_init_wf: "tb_shape tb \<Longrightarrow> tb_wf (tb_init tb) \<and> timings (tb_init tb) = []"
  by (simp add: tb_wf_def tb_shape_def tb_init_def timings_def)

lemma mem_move_right:
  assumes "pos + n + 1 \<le> length xs"
  shows "mem_move xs (pos + 1) pos n = Some (take (pos + 1) xs @ take n (drop pos xs) @ drop (pos + 1 + n) xs)"
  using assms by (simp add: mem_move_def mem_simps)

text \<open>Making room at \<open>pos\<close> and storing there, for the timings and the counts.\<close>

lemma shift_and_store:
  assumes "length xs = MAX_TIMINGS" and "f \<le> MAX_TIMINGS" and "pos < f"
  defines "n \<equiv> (if f = MAX_TIMINGS then f - pos - 1 else f - pos)"
  shows "\<exists>ys. mem_move xs (pos + 1) pos n = Some ys \<and> length ys = MAX_TIMINGS \<and>
     take (min MAX_TIMINGS (f + 1)) (ys[pos := v]) = take MAX_TIMINGS (take pos xs @ v # drop pos (take f xs))"
proof -
  have le: "pos + n + 1 \<le> length xs" using assms by (auto simp: n_def)
  let ?ys = "take (pos + 1) xs @ take n (drop pos xs) @ drop (pos + 1 + n) xs"
  have len: "length ?ys = MAX_TIMINGS" using le assms(1) by simp
  have "take (min MAX_TIMINGS (f + 1)) (?ys[pos := v]) = take MAX_TIMINGS (take pos xs @ v # drop pos (take f xs))"
    (is "?l = ?r")
  proof (rule nth_equalityI)
    show "length ?l = length ?r" using assms(1-3) len by auto
    fix i assume "i < length ?l"
    then have i: "i < MAX_TIMINGS" "i \<le> f" using len by auto
    show "?l ! i = ?r ! i"
    proof (cases "i = pos")
      case True
      have "pos < length ?ys" using i True len by simp
      then have "?ys[pos := v] ! pos = v" by (rule nth_list_update_eq)
      then show ?thesis using True i le by (simp add: nth_append)
    next
      case False
      then show ?thesis using i le assms(1-3) by (cases "i < pos")
        (auto simp: nth_append nth_list_update min_def n_def nth_Cons' split: if_splits)
    qed
  qed
  then show ?thesis using mem_move_right [OF le] len by blast
qed

text \<open>A timing is discarded or goes to its place; the buffer keeps its shape.\<close>

lemma tb_add_total:
  assumes shape: "tb_shape tb"
  shows "\<exists>tb'. tb_add tb t = Some tb' \<and> tb_shape tb' \<and> curr_count tb' = i32 (curr_count tb + 1) \<and>
    filled tb' \<le> filled tb + 1 \<and>
    timings tb' =
      (if filled tb \<ge> MAX_TIMINGS \<and> t \<ge> timing tb ! (filled tb - 1) then timings tb
       else let pos = first_slot (\<lambda>v. t < v) (timings tb)
            in take MAX_TIMINGS (take pos (timings tb) @ t # drop pos (timings tb)))"
proof (cases "filled tb \<ge> MAX_TIMINGS \<and> t \<ge> timing tb ! (filled tb - 1)")
  case True
  then show ?thesis using shape by (simp add: tb_add_def tb_shape_def timings_def)
next
  case False
  let ?pos = "first_slot (\<lambda>v. t < v) (timings tb)"
  let ?ins = "take ?pos (timings tb) @ t # drop ?pos (timings tb)"
  have len: "length (timings tb) = filled tb" "length (timing tb) = MAX_TIMINGS" "length (counts tb) = MAX_TIMINGS"
    "filled tb \<le> MAX_TIMINGS" using shape length_timings by (auto simp: tb_shape_def)
  have pos: "?pos \<le> filled tb" using first_slot_le [of _ "timings tb"] len by metis
  have posm: "?pos < MAX_TIMINGS"
  proof (cases "filled tb = MAX_TIMINGS")
    case True
    then have "t < timings tb ! (filled tb - 1)" "filled tb - 1 < length (timings tb)"
      using False len by (auto simp: timings_def MAX_TIMINGS_def)
    then have "\<exists>v \<in> set (timings tb). t < v" using nth_mem by blast
    then show ?thesis using first_slot_less [of _ "timings tb"] len True by metis
  qed (use pos len in simp)
  let ?n = "if filled tb = MAX_TIMINGS then filled tb - ?pos - 1 else filled tb - ?pos"
  let ?f = "if filled tb < MAX_TIMINGS then filled tb + 1 else filled tb"
  have f: "min MAX_TIMINGS (filled tb + 1) = ?f" using len by auto
  have "\<exists>tm cs. (if ?pos < filled tb
           then do { tm \<leftarrow> mem_move (timing tb) (?pos + 1) ?pos ?n;
                     cs \<leftarrow> mem_move (counts tb) (?pos + 1) ?pos ?n; Some (tm, cs) }
           else Some (timing tb, counts tb)) = Some (tm, cs) \<and> length tm = MAX_TIMINGS \<and> length cs = MAX_TIMINGS \<and>
       take ?f (tm[?pos := t]) = take MAX_TIMINGS ?ins"
  proof (cases "?pos < filled tb")
    case True
    have eq: "take ?pos (timing tb) @ t # drop ?pos (take (filled tb) (timing tb)) = ?ins"
      using True by (simp add: timings_def min_def)
    show ?thesis
      using shift_and_store [OF len(2,4) True, of t] shift_and_store [OF len(3,4) True, of 0] True
      unfolding f eq by auto
  next
    case False
    then have "?pos = filled tb" using pos by simp
    then have "?ins = timings tb @ [t]" using len by simp
    moreover have "filled tb < MAX_TIMINGS" using posm \<open>?pos = filled tb\<close> by simp
    ultimately show ?thesis using False len \<open>?pos = filled tb\<close>
      by (simp add: timings_def take_Suc_conv_app_nth)
  qed
  then obtain tm cs where mv: "(if ?pos < filled tb
           then do { tm \<leftarrow> mem_move (timing tb) (?pos + 1) ?pos ?n;
                     cs \<leftarrow> mem_move (counts tb) (?pos + 1) ?pos ?n; Some (tm, cs) }
           else Some (timing tb, counts tb)) = Some (tm, cs)" and l: "length tm = MAX_TIMINGS" "length cs = MAX_TIMINGS"
    and tm: "take ?f (tm[?pos := t]) = take MAX_TIMINGS ?ins" by blast
  let ?tb = "tb\<lparr>timing := tm[?pos := t], counts := cs[?pos := i16 (curr_count tb)],
     curr_count := i32 (curr_count tb + 1), filled := ?f\<rparr>"
  have "tb_add tb t = Some ?tb"
    using mv l pos posm unfolding tb_add_def if_not_P [OF False] timings_def Let_def
    by (simp add: mem_simps del: One_nat_def)
  moreover have "timings ?tb = take MAX_TIMINGS ?ins" using tm by (simp add: timings_def)
  moreover have "tb_shape ?tb" using l len by (simp add: tb_shape_def)
  ultimately show ?thesis unfolding if_not_P [OF False] Let_def by (intro exI [of _ ?tb]) simp
qed

lemma tb_add_keeps_smallest:
  assumes wf: "tb_wf tb"
  obtains tb' where "tb_add tb t = Some tb'" and "tb_wf tb'"
    and "timings tb' = take MAX_TIMINGS (insort t (timings tb))"
proof -
  have sorted: "sorted (timings tb)" and shape: "tb_shape tb" using wf by (simp_all add: tb_wf_def)
  obtain tb' where tb': "tb_add tb t = Some tb'" "tb_shape tb'"
    and ts: "timings tb' =
      (if filled tb \<ge> MAX_TIMINGS \<and> t \<ge> timing tb ! (filled tb - 1) then timings tb
       else let pos = first_slot (\<lambda>v. t < v) (timings tb)
            in take MAX_TIMINGS (take pos (timings tb) @ t # drop pos (timings tb)))"
    using tb_add_total [OF shape] by blast
  have "timings tb' = take MAX_TIMINGS (insort t (timings tb))"
  proof (cases "filled tb \<ge> MAX_TIMINGS \<and> t \<ge> timing tb ! (filled tb - 1)")
    case True
    then have full: "filled tb = MAX_TIMINGS" "length (timings tb) = MAX_TIMINGS"
      using shape length_timings by (auto simp: tb_shape_def)
    then have "0 < MAX_TIMINGS" "timings tb ! (MAX_TIMINGS - 1) \<le> t"
      using True by (simp_all add: timings_def MAX_TIMINGS_def)
    then have "take MAX_TIMINGS (insort t (timings tb)) = take MAX_TIMINGS (timings tb)"
      using full sorted by (intro insort_beyond) simp_all
    then show ?thesis using ts True full by simp
  next
    case False
    show ?thesis unfolding ts if_not_P [OF False] Let_def insort_slot [OF sorted, of t] by (rule refl)
  qed
  moreover have "sorted (take MAX_TIMINGS (insort t (timings tb)))" using sorted by (simp add: sorted_insort sorted_wrt_take)
  ultimately show ?thesis using that tb' by (simp add: tb_wf_def)
qed

fun tb_add_all :: "timing_buffer \<Rightarrow> int list \<Rightarrow> timing_buffer option" where
  "tb_add_all tb [] = Some tb"
| "tb_add_all tb (t # ts) = do { tb' \<leftarrow> tb_add tb t; tb_add_all tb' ts }"

lemma tb_add_all_sorts:
  "tb_wf tb \<Longrightarrow> timings tb = take MAX_TIMINGS (sort us) \<Longrightarrow>
     \<exists>tb'. tb_add_all tb ts = Some tb' \<and> tb_wf tb' \<and> timings tb' = take MAX_TIMINGS (sort (us @ ts))"
proof (induction ts arbitrary: tb us)
  case (Cons t ts)
  obtain tb1 where t: "tb_add tb t = Some tb1" "tb_wf tb1" "timings tb1 = take MAX_TIMINGS (insort t (timings tb))"
    using tb_add_keeps_smallest [OF Cons.prems(1)] by blast
  have "timings tb1 = take MAX_TIMINGS (insort t (sort us))" unfolding t(3) Cons.prems(2) by (rule take_insort) simp
  also have "insort t (sort us) = sort (us @ [t])"
    by (rule properties_for_sort [symmetric]) (simp_all add: sorted_insort)
  finally obtain tb' where "tb_add_all tb1 ts = Some tb'" "tb_wf tb'" "timings tb' = take MAX_TIMINGS (sort ((us @ [t]) @ ts))"
    using Cons.IH [OF t(2)] by blast
  then show ?case using t(1) by auto
qed auto

subsection \<open>The optimal delay is found without overflow\<close>

lemma abs_sdiv: "0 < b \<Longrightarrow> \<bar>a sdiv b\<bar> = \<bar>a\<bar> div b" for a b :: int
  by (cases "a = 0") (simp_all add: signed_divide_int_def abs_mult abs_sgn_eq pos_imp_zdiv_nonneg_iff)

lemma ROUND_DOWN_ok:
  assumes "0 < step"
  shows "\<exists>y. ROUND_DOWN x step = Some y \<and> x - step < y \<and> y \<le> x"
proof (cases "x < 0")
  case True
  let ?a = "step - x - 1"
  have "(x - step + 1) sdiv step = - (?a div step)"
    using assms True by (simp add: signed_divide_int_def sgn_if)
  then have "(x - step + 1) sdiv step * step = ?a mod step - ?a" by (simp add: minus_mod_eq_div_mult [symmetric])
  moreover have "0 \<le> ?a mod step" "?a mod step < step" using assms by simp_all
  ultimately have "x - step < (x - step + 1) sdiv step * step" "(x - step + 1) sdiv step * step \<le> x" by linarith+
  then show ?thesis using assms True by (simp add: ROUND_DOWN_def)
next
  case False
  have "x sdiv step = x div step"
    using assms False by (auto simp: signed_divide_int_def sgn_if)
  then have "x sdiv step * step = x - x mod step" by (simp add: minus_mod_eq_div_mult)
  moreover have "0 \<le> x mod step" "x mod step < step" using assms by simp_all
  ultimately have "x - step < x sdiv step * step" "x sdiv step * step \<le> x" by linarith+
  then show ?thesis using assms False by (simp add: ROUND_DOWN_def)
qed

text \<open>Rounding at most doubles a magnitude and adds one; small integers are exact.\<close>

lemma fl_near:
  assumes "\<bar>x\<bar> \<le> B" and "B < 2 ^ 40"
  obtains y where "fl x = Some y" and "\<bar>y\<bar> \<le> B + B / 2 ^ 24 + 1"
proof -
  have "\<bar>x\<bar> < 2 ^ 40" using assms by linarith
  then obtain y where y: "fl x = Some y" "\<bar>y - x\<bar> \<le> \<bar>x\<bar> / 2 ^ 24 + 1" by (rule fl_error)
  have "\<bar>x\<bar> / 2 ^ 24 \<le> B / 2 ^ 24" using assms(1) by (intro divide_right_mono) auto
  then show ?thesis using that [OF y(1)] y(2) assms(1) by linarith
qed

lemma late_cost_total:
  assumes f: "\<bar>factor\<bar> * of_int late \<le> 2 ^ 29" and late: "0 \<le> late" "late < 2 ^ 24" and l: "\<bar>latest\<bar> \<le> 2 ^ 20"
  shows "\<exists>c. late_cost factor latest late = Some c"
proof -
  have lf: "fl (of_int late) = Some (of_int late)" using late by (intro fl_int) simp
  have mf: "fl (of_int (- latest)) = Some (of_int (- latest))" using l by (intro fl_int) simp
  have "\<bar>factor * of_int late\<bar> \<le> 2 ^ 29" using f late by (simp add: abs_mult)
  then obtain p where p: "fl (factor * of_int late) = Some p" "\<bar>p\<bar> \<le> 2 ^ 29 + 2 ^ 29 / 2 ^ 24 + 1"
    by (rule fl_near) simp_all
  have "\<bar>of_int (- latest) :: rat\<bar> \<le> 2 ^ 20" using l by (simp add: of_int_abs [symmetric] del: of_int_abs)
  then have "\<bar>of_int (- latest) + p\<bar> \<le> 2 ^ 30" using p(2) by (simp add: abs_le_iff)
  then obtain c where c: "fl (of_int (- latest) + p) = Some c" "\<bar>c\<bar> \<le> 2 ^ 30 + 2 ^ 30 / 2 ^ 24 + 1"
    by (rule fl_near) simp_all
  have "is_i32 (if c \<ge> 0 then \<lfloor>c\<rfloor> else \<lceil>c\<rceil>)"
  proof -
    have "c \<le> 2147483647" "- 2147483648 \<le> c" using c(2) by (simp_all add: abs_le_iff)
    then show ?thesis by (auto simp: is_i32_def floor_le_iff le_floor_iff ceiling_le_iff le_ceiling_iff)
  qed
  then show ?thesis using lf mf p c by (simp add: late_cost_def float_to_i32_def Let_def)
qed

text \<open>What the search needs of the buffers.\<close>

definition bufs_ok :: "timing_buffer list \<Rightarrow> bool" where
  "bufs_ok tb \<longleftrightarrow> length tb = MAX_BUFFERS \<and>
     (\<forall>b \<in> set tb. tb_shape b \<and> int (filled b) \<le> curr_count b \<and> curr_count b \<le> 2 ^ 18 \<and>
        (\<forall>t \<in> set (timings b). \<bar>t\<bar> \<le> 2 ^ 19))"

lemma pick_latest_ok:
  assumes "pick_latest tb pos = (Some j, raw)"
  shows "j < MAX_BUFFERS \<and> pos ! j < filled (tb ! j) \<and> raw = timing (tb ! j) ! (pos ! j)"
proof -
  have "foldl (\<lambda>(next, latest) j.
        if pos ! j < filled (tb ! j) \<and> timing (tb ! j) ! (pos ! j) < latest
        then (Some j, timing (tb ! j) ! (pos ! j)) else (next, latest)) (None, 32767) js = (Some j, raw) \<Longrightarrow>
      j \<in> set js \<and> pos ! j < filled (tb ! j) \<and> raw = timing (tb ! j) ! (pos ! j)" for js
    by (induction js rule: rev_induct) (auto split: prod.splits if_splits)
  from this [of "[0..<MAX_BUFFERS]"] show ?thesis using assms by (simp add: pick_latest_def)
qed

lemma three_buffers: "length xs = MAX_BUFFERS \<Longrightarrow> \<exists>a b c. xs = [a, b, c]"
  by (auto simp: MAX_BUFFERS_def numeral_3_eq_3 length_Suc_conv)

lemma total_count_eq:
  assumes "bufs_ok tb"
  shows "total_count tb = (\<Sum>b \<leftarrow> tb. curr_count b)" and "0 \<le> total_count tb" and "total_count tb \<le> 2 ^ 20"
    and "int (\<Sum>b \<leftarrow> tb. filled b) \<le> total_count tb"
proof -
  have "length tb = MAX_BUFFERS" using assms by (simp add: bufs_ok_def)
  then obtain a b c where tb: "tb = [a, b, c]" using three_buffers by blast
  have r: "0 \<le> curr_count a" "0 \<le> curr_count b" "0 \<le> curr_count c" "curr_count a \<le> 2 ^ 18" "curr_count b \<le> 2 ^ 18"
    "curr_count c \<le> 2 ^ 18" "int (filled a) \<le> curr_count a" "int (filled b) \<le> curr_count b" "int (filled c) \<le> curr_count c"
    using assms unfolding bufs_ok_def tb by auto
  have i: "i32 x = x" if "0 \<le> x" "x \<le> 2 ^ 20" for x using that by (intro i32_id) (simp add: is_i32_def)
  have "[0..<MAX_BUFFERS] = [0, 1, 2]" by (simp add: MAX_BUFFERS_def upt_rec)
  then have eq: "total_count tb = curr_count a + curr_count b + curr_count c"
    using r i by (simp add: total_count_def tb)
  then show "total_count tb = (\<Sum>b \<leftarrow> tb. curr_count b)" "0 \<le> total_count tb" "total_count tb \<le> 2 ^ 20"
    "int (\<Sum>b \<leftarrow> tb. filled b) \<le> total_count tb" using r by (simp_all add: tb)
qed

lemma pos_sum_less:
  assumes "length tb = MAX_BUFFERS" and "length pos = MAX_BUFFERS"
    and "\<forall>j < MAX_BUFFERS. pos ! j \<le> filled (tb ! j)" and "j < MAX_BUFFERS" and "pos ! j < filled (tb ! j)"
  shows "sum_list pos < (\<Sum>b \<leftarrow> tb. filled b)"
proof -
  obtain a b c where tb: "tb = [a, b, c]" using three_buffers [OF assms(1)] by blast
  obtain x y z where pos: "pos = [x, y, z]" using three_buffers [OF assms(2)] by blast
  have "j = 0 \<or> j = 1 \<or> j = 2" using assms(4) by (auto simp: MAX_BUFFERS_def)
  moreover have "x \<le> filled a" "y \<le> filled b" "z \<le> filled c"
    using assms(3) [rule_format, of 0] assms(3) [rule_format, of 1] assms(3) [rule_format, of 2]
    by (simp_all add: MAX_BUFFERS_def tb pos)
  ultimately show ?thesis using assms(5) unfolding tb pos by (elim disjE) simp_all
qed

text \<open>The state of the search after \<open>k\<close> turns.\<close>

definition search_ok :: "timing_buffer list \<Rightarrow> nat \<Rightarrow> delay_search \<Rightarrow> bool" where
  "search_ok tb k ds \<longleftrightarrow> length (ds_pos ds) = MAX_BUFFERS \<and> (\<forall>j < MAX_BUFFERS. ds_pos ds ! j \<le> filled (tb ! j)) \<and>
     sum_list (ds_pos ds) = k \<and> 0 \<le> ds_late ds \<and> ds_late ds \<le> int k + (if ds_penalty ds then 4 else 0) \<and>
     is_i16 (ds_opt ds) \<and> \<bar>ds_best ds\<bar> \<le> 2 ^ 19 \<and> \<bar>ds_worst ds\<bar> \<le> 2 ^ 19"

lemma delay_loop_total:
  assumes tb: "bufs_ok tb" and step: "0 < step" "step \<le> 2 ^ 19"
    and factor: "\<bar>factor\<bar> * of_int (total_count tb + 3) \<le> 2 ^ 29"
  shows "search_ok tb k ds \<Longrightarrow> \<exists>ds' k'. delay_loop tb factor step n first ds = Some ds' \<and> search_ok tb k' ds'"
proof (induction n arbitrary: k first ds)
  case (Suc n)
  note ok = Suc.prems [unfolded search_ok_def]
  obtain nx raw where p: "pick_latest tb (ds_pos ds) = (nx, raw)" by fastforce
  show ?case
  proof (cases nx)
    case None
    then show ?thesis using p Suc.prems by auto
  next
    case (Some j)
    then have j: "j < MAX_BUFFERS" "ds_pos ds ! j < filled (tb ! j)" "raw = timing (tb ! j) ! (ds_pos ds ! j)"
      using pick_latest_ok p by auto
    have len: "length tb = MAX_BUFFERS" using tb by (simp add: bufs_ok_def)
    have b: "tb_shape (tb ! j)" "\<forall>t \<in> set (timings (tb ! j)). \<bar>t\<bar> \<le> 2 ^ 19"
      using tb j(1) len by (auto simp: bufs_ok_def)
    have "raw = timings (tb ! j) ! (ds_pos ds ! j)" "ds_pos ds ! j < length (timings (tb ! j))"
      using j length_timings [OF b(1)] by (simp_all add: timings_def)
    then have raw: "\<bar>raw\<bar> \<le> 2 ^ 19" using b(2) nth_mem by metis
    obtain latest where l: "ROUND_DOWN raw step = Some latest" "raw - step < latest" "latest \<le> raw"
      using ROUND_DOWN_ok [OF step(1)] by blast
    have latest: "\<bar>latest\<bar> \<le> 2 ^ 20" using l raw step by (simp add: abs_le_iff)
    have "k < (\<Sum>b \<leftarrow> tb. filled b)" using pos_sum_less [OF len, of "ds_pos ds" j] ok j by simp
    then have kN: "int k + 1 \<le> total_count tb" using total_count_eq(4) [OF tb] by linarith
    then have late: "0 \<le> ds_late ds" "ds_late ds \<le> total_count tb + 3" using ok by (auto split: if_splits)
    have "\<bar>factor\<bar> * of_int (ds_late ds) \<le> \<bar>factor\<bar> * of_int (total_count tb + 3)"
      using late(2) by (intro mult_left_mono) auto
    then have fl: "\<bar>factor\<bar> * of_int (ds_late ds) \<le> 2 ^ 29" using factor by linarith
    have "ds_late ds < 2 ^ 24" using late(2) total_count_eq(3) [OF tb] by simp
    then obtain cost where c: "late_cost factor latest (ds_late ds) = Some cost"
      using late_cost_total [OF fl late(1) _ latest] by blast
    define pen where "pen = (latest \<ge> 0 \<and> \<not> ds_penalty ds)"
    define ds1 where "ds1 = \<lparr>ds_pos = (ds_pos ds)[j := ds_pos ds ! j + 1],
        ds_late = (if pen then ds_late ds + 1 + 4 else ds_late ds + 1),
        ds_penalty = (ds_penalty ds \<or> pen),
        ds_best_cost = (if cost < ds_best_cost ds then cost else ds_best_cost ds),
        ds_opt = (if cost < ds_best_cost ds then i16 latest else ds_opt ds),
        ds_best = raw, ds_worst = (if first then raw else ds_worst ds)\<rparr>"
    have "delay_loop tb factor step (Suc n) first ds = delay_loop tb factor step n False ds1"
      using p Some l(1) c by (simp add: ds1_def pen_def Let_def)
    moreover have "search_ok tb (Suc k) ds1"
      unfolding search_ok_def ds1_def using ok j raw
      by (auto simp: nth_list_update sum_list_update pen_def)
    ultimately show ?thesis using Suc.IH by metis
  qed
qed auto

lemma late_factor_bound:
  assumes N: "0 < N" "N \<le> 2 ^ 20" and a: "\<bar>auto\<bar> \<le> 32000" "\<bar>window\<bar> \<le> 4000" and l: "\<bar>latency\<bar> \<le> 100000"
  obtains f where "late_factor latency auto window N = Some f" and "\<bar>f\<bar> * of_int (N + 3) \<le> 2 ^ 29"
proof -
  have main: "\<exists>f. fl x = Some f \<and> \<bar>f\<bar> * of_int (N + 3) \<le> 2 ^ 29" if x: "\<bar>x\<bar> * of_int N \<le> 128000000" for x
  proof -
    have N1: "1 \<le> (of_int N :: rat)" using N by simp
    have "\<bar>x\<bar> * 1 \<le> \<bar>x\<bar> * of_int N" using N1 by (intro mult_left_mono) auto
    then have xb: "\<bar>x\<bar> \<le> 128000000" using x by simp
    obtain f where f: "fl x = Some f" "\<bar>f\<bar> \<le> \<bar>x\<bar> + \<bar>x\<bar> / 2 ^ 24 + 1"
      by (rule fl_near [of x "\<bar>x\<bar>"]) (use xb in simp_all)
    have "\<bar>f\<bar> * of_int (N + 3) \<le> (\<bar>x\<bar> + \<bar>x\<bar> / 2 ^ 24 + 1) * (of_int N + 3)"
      using f(2) N by (simp add: mult_right_mono)
    also have "\<dots> = \<bar>x\<bar> * of_int N + 3 * \<bar>x\<bar> + (\<bar>x\<bar> * of_int N + 3 * \<bar>x\<bar>) / 2 ^ 24 + of_int N + 3"
      by (simp add: algebra_simps)
    also have "\<dots> \<le> 512000000 + 512000000 / 2 ^ 24 + 2 ^ 20 + 3"
    proof -
      have s: "\<bar>x\<bar> * of_int N + 3 * \<bar>x\<bar> \<le> 512000000" using x xb by linarith
      then have "(\<bar>x\<bar> * of_int N + 3 * \<bar>x\<bar>) / 2 ^ 24 \<le> 512000000 / 2 ^ 24" by (rule divide_right_mono) simp
      moreover have "(of_int N :: rat) \<le> 2 ^ 20" using N by simp
      ultimately show ?thesis using s by linarith
    qed
    also have "\<dots> \<le> 2 ^ 29" by simp
    finally show ?thesis using f(1) by blast
  qed
  show ?thesis
  proof (cases "latency = 0")
    case True
    have "\<bar>auto * window\<bar> \<le> 32000 * 4000" unfolding abs_mult using a by (intro mult_mono) auto
    then have i: "i32 (auto * window) = auto * window" "\<bar>auto * window\<bar> \<le> 128000000"
      by (auto intro!: i32_id simp: is_i32_def)
    let ?q = "(auto * window) sdiv N"
    have "\<bar>?q\<bar> = \<bar>auto * window\<bar> div N" using N(1) by (rule abs_sdiv)
    then have "\<bar>?q\<bar> * N = \<bar>auto * window\<bar> - \<bar>auto * window\<bar> mod N" by (simp add: minus_mod_eq_div_mult)
    moreover have "0 \<le> \<bar>auto * window\<bar> mod N" using N(1) by simp
    ultimately have "\<bar>?q\<bar> * N \<le> \<bar>auto * window\<bar>" by linarith
    then have "\<bar>?q\<bar> * N \<le> 128000000" using i(2) by linarith
    then have "\<bar>of_int ?q :: rat\<bar> * of_int N \<le> 128000000"
      by (metis of_int_abs of_int_le_iff of_int_mult of_int_numeral)
    then show ?thesis using main [of "of_int ?q"] that True i(1) by (auto simp: late_factor_def)
  next
    case False
    have lx: "fl (of_int latency) = Some (of_int latency)" using l by (intro fl_int) simp
    have "fl (of_int (latency * 100)) = Some (of_int (latency * 100))" using l by (intro fl_int) (simp add: abs_mult)
    then have hx: "fl (of_int latency * 100) = Some (of_int latency * 100)" by simp
    have nx: "fl (of_int N) = Some (of_int N)" using N by (intro fl_int) simp
    let ?x = "of_int latency * 100 / of_int N :: rat"
    have "\<bar>?x\<bar> * of_int N = of_int (\<bar>latency\<bar> * 100)" using N by (simp add: abs_mult)
    also have "\<dots> \<le> of_int 128000000" using l by (subst of_int_le_iff) simp
    finally have "\<bar>?x\<bar> * of_int N \<le> 128000000" by simp
    then show ?thesis using main [of ?x] that False lx hx nx by (auto simp: late_factor_def)
  qed
qed

lemma opt_delay_total:
  assumes tb: "bufs_ok tb" and step: "0 < step" "step \<le> 2 ^ 19" and a: "\<bar>auto\<bar> \<le> 32000" "\<bar>window\<bar> \<le> 4000"
    and l: "\<bar>latency\<bar> \<le> 100000"
  shows "\<exists>opt auto'. opt_delay tb step latency auto window = Some (opt, auto') \<and> is_i16 opt \<and> \<bar>auto'\<bar> \<le> 32000"
proof (cases "total_count tb = 0")
  case True
  then show ?thesis using a by (simp add: opt_delay_def is_i16_def)
next
  case False
  then have N: "0 < total_count tb" "total_count tb \<le> 2 ^ 20" using total_count_eq [OF tb] by simp_all
  obtain f where f: "late_factor latency auto window (total_count tb) = Some f" "\<bar>f\<bar> * of_int (total_count tb + 3) \<le> 2 ^ 29"
    using late_factor_bound [OF N a l] .
  let ?ds = "\<lparr>ds_pos = replicate MAX_BUFFERS 0, ds_late = 0, ds_penalty = False,
           ds_best_cost = 2147483647, ds_opt = 0, ds_best = 0, ds_worst = 0\<rparr>"
  have "search_ok tb 0 ?ds" by (simp add: search_ok_def sum_list_replicate is_i16_def)
  then obtain ds k where ds: "delay_loop tb f step TOP_DELAY True ?ds = Some ds" "search_ok tb k ds"
    using delay_loop_total [OF tb step f(2)] by blast
  have "\<bar>ds_best ds - ds_worst ds\<bar> \<le> 2 ^ 20" using ds(2) by (simp add: search_ok_def abs_le_iff)
  moreover have "\<bar>(ds_best ds - ds_worst ds) sdiv 40\<bar> = \<bar>ds_best ds - ds_worst ds\<bar> div 40"
    by (rule abs_sdiv) simp
  moreover have "x div 40 \<le> 26215" if "x \<le> 2 ^ 20" for x :: int
    using zdiv_mono1 [OF that, of 40] by simp
  ultimately have "\<bar>(ds_best ds - ds_worst ds) sdiv 40\<bar> \<le> 26215" by metis
  then have "\<bar>1 + (ds_best ds - ds_worst ds) sdiv int TOP_DELAY\<bar> \<le> 32000" by (simp add: TOP_DELAY_def)
  then show ?thesis using f(1) ds False by (simp add: opt_delay_def Let_def search_ok_def is_i16_def)
qed

text \<open>C27. However many timings a cleared timing buffer is given, and in whatever order, no access
  leaves its two arrays and it holds exactly the 40 smallest of them, in increasing order.\<close>

theorem timing_buffer_keeps_smallest:
  assumes "length (timing tb) = MAX_TIMINGS" and "length (counts tb) = MAX_TIMINGS"
  shows "\<exists>tb'. tb_add_all (tb_init tb) ts = Some tb' \<and> filled tb' = min MAX_TIMINGS (length ts) \<and>
     take (filled tb') (timing tb') = take MAX_TIMINGS (sort ts)"
proof -
  have "tb_shape (tb_init tb)" using assms by (simp add: tb_shape_def tb_init_def)
  then have wf: "tb_wf (tb_init tb)" "timings (tb_init tb) = take MAX_TIMINGS (sort [])"
    by (simp_all add: tb_wf_def timings_def tb_init_def)
  obtain tb' where tb': "tb_add_all (tb_init tb) ts = Some tb'" "tb_wf tb'"
    "timings tb' = take MAX_TIMINGS (sort ([] @ ts))"
    using tb_add_all_sorts [OF wf] by blast
  have "filled tb' = length (timings tb')" using tb'(2) by (simp add: tb_wf_def length_timings)
  also have "\<dots> = min MAX_TIMINGS (length ts)" unfolding tb'(3) by (simp add: min.commute)
  finally show ?thesis using tb' by (simp add: timings_def)
qed

theorem timing_buffer_keeps_smallest_witness:
  "\<exists>tb'. tb_add_all (tb_init \<lparr>filled = 7, curr_count = 9, timing = replicate 40 0, counts = replicate 40 0\<rparr>) [5, -3, 8]
       = Some tb' \<and> take (filled tb') (timing tb') = [-3, 5, 8]"
proof -
  have "\<exists>tb'. tb_add_all (tb_init \<lparr>filled = 7, curr_count = 9, timing = replicate 40 0, counts = replicate 40 0\<rparr>) [5, -3, 8]
       = Some tb' \<and> filled tb' = min MAX_TIMINGS (length [5, -3, 8 :: int]) \<and>
       take (filled tb') (timing tb') = take MAX_TIMINGS (sort [5, -3, 8])"
    by (rule timing_buffer_keeps_smallest) (simp_all add: MAX_TIMINGS_def)
  then show ?thesis by (auto simp: MAX_TIMINGS_def simp del: tb_add_all.simps)
qed

end
