(* ===== verification/Jitter.thy ===== *)
theory Jitter
  imports Jitter_Timings
begin

text \<open>
  The Speex jitter buffer (\<open>jitter.c\<close>): its state \<open>JitterBuffer\<close> and every operation of the file.

  Timestamps are words, compared by the sign of their difference as the macros \<open>LT32\<close> to
  \<open>GE32\<close> do. A data pointer is the block it points to, \<open>None\<close> for a null pointer; \<open>destroy\<close>
  says whether a destroy callback is set, in which case the buffer owns the blocks it is given,
  and otherwise copies them. \<open>released\<close> records the blocks given to the callback or freed, in
  order. Allocations succeed. \<open>timeBuffers\<close> is a list of indices into \<open>tbs\<close> (\<open>_tb\<close> of the code).

  \<open>None\<close> is a failing assertion, an access outside a block, a division by zero, or a conversion
  of a \<open>float\<close> outside the range of the integer.
\<close>

subsection \<open>Comparisons\<close>

definition GT32 :: "u32 \<Rightarrow> u32 \<Rightarrow> bool" where "GT32 a b \<longleftrightarrow> sint (a - b) > 0"
definition GE32 :: "u32 \<Rightarrow> u32 \<Rightarrow> bool" where "GE32 a b \<longleftrightarrow> sint (a - b) \<ge> 0"
definition LT32 :: "u32 \<Rightarrow> u32 \<Rightarrow> bool" where "LT32 a b \<longleftrightarrow> sint (a - b) < 0"
definition LE32 :: "u32 \<Rightarrow> u32 \<Rightarrow> bool" where "LE32 a b \<longleftrightarrow> sint (a - b) \<le> 0"

subsection \<open>State\<close>

record jitter_packet =
  data :: "u8 list option"
  len :: u32
  timestamp :: u32
  span :: u32
  seqno :: u16
  user_data :: u32

record jitter_buffer =
  pointer_timestamp :: u32
  last_returned_timestamp :: u32
  next_stop :: u32
  buffered :: int
  packets :: "jitter_packet list"
  arrival :: "u32 list"
  destroy :: bool
  released :: "u8 list list"
  delay_step :: int
  concealment_size :: int
  reset_state :: bool
  buffer_margin :: int
  late_cutoff :: int
  interp_requested :: int
  auto_adjust :: bool
  tbs :: "timing_buffer list"
  timeBuffers :: "nat list"
  window_size :: int
  subwindow_size :: int
  max_late_rate :: int
  latency_tradeoff :: int
  auto_tradeoff :: int
  lost_count :: int

definition SPEEX_JITTER_MAX_BUFFER_SIZE :: nat where
  "SPEEX_JITTER_MAX_BUFFER_SIZE = 200"

definition null_packet :: jitter_packet where
  "null_packet = \<lparr>data = None, len = 0, timestamp = 0, span = 0, seqno = 0, user_data = 0\<rparr>"

text \<open>The slots that hold a packet and satisfy \<open>P\<close> are emptied and their blocks released.\<close>

definition release_packets :: "(jitter_packet \<Rightarrow> bool) \<Rightarrow> jitter_buffer \<Rightarrow> jitter_buffer" where
  "release_packets P jb =
     jb\<lparr>packets := map (\<lambda>p. if data p \<noteq> None \<and> P p then p\<lparr>data := None\<rparr> else p) (packets jb),
        released := released jb @
          map (\<lambda>p. the (data p)) (filter (\<lambda>p. data p \<noteq> None \<and> P p) (packets jb))\<rparr>"

definition jitter_buffer_reset :: "jitter_buffer \<Rightarrow> jitter_buffer" where
  "jitter_buffer_reset jb =
     (release_packets (\<lambda>p. True) jb)
       \<lparr>pointer_timestamp := 0, next_stop := 0, reset_state := True, lost_count := 0, buffered := 0,
        auto_tradeoff := 32000, tbs := map tb_init (tbs jb), timeBuffers := [0..<MAX_BUFFERS]\<rparr>"

definition set_max_late_rate :: "jitter_buffer \<Rightarrow> int \<Rightarrow> jitter_buffer option" where
  "set_max_late_rate jb r =
     do { require (r \<noteq> 0);
          let w = 100 * int TOP_DELAY sdiv r;
          Some (jb\<lparr>max_late_rate := r, window_size := w, subwindow_size := w sdiv int MAX_BUFFERS\<rparr>) }"

text \<open>The memory \<open>speex_alloc\<close> returns is cleared.\<close>

definition cleared_jitter_buffer :: jitter_buffer where
  "cleared_jitter_buffer =
     \<lparr>pointer_timestamp = 0, last_returned_timestamp = 0, next_stop = 0, buffered = 0,
      packets = replicate SPEEX_JITTER_MAX_BUFFER_SIZE null_packet,
      arrival = replicate SPEEX_JITTER_MAX_BUFFER_SIZE 0, destroy = False, released = [],
      delay_step = 0, concealment_size = 0, reset_state = False, buffer_margin = 0, late_cutoff = 0,
      interp_requested = 0, auto_adjust = False,
      tbs = replicate MAX_BUFFERS
        \<lparr>filled = 0, curr_count = 0, timing = replicate MAX_TIMINGS 0, counts = replicate MAX_TIMINGS 0\<rparr>,
      timeBuffers = replicate MAX_BUFFERS 0, window_size = 0, subwindow_size = 0, max_late_rate = 0,
      latency_tradeoff = 0, auto_tradeoff = 0, lost_count = 0\<rparr>"

definition jitter_buffer_init :: "int \<Rightarrow> jitter_buffer option" where
  "jitter_buffer_init step_size =
     do { jb \<leftarrow> set_max_late_rate
            (cleared_jitter_buffer\<lparr>delay_step := step_size, concealment_size := step_size, buffer_margin := 0,
               late_cutoff := 50, destroy := False, latency_tradeoff := 0, auto_adjust := True\<rparr>) 4;
          Some (jitter_buffer_reset jb) }"

subsection \<open>Timings\<close>

definition compute_opt_delay :: "jitter_buffer \<Rightarrow> (int \<times> jitter_buffer) option" where
  "compute_opt_delay jb =
     do { (opt, auto) \<leftarrow> opt_delay (tbs jb) (delay_step jb) (latency_tradeoff jb) (auto_tradeoff jb) (window_size jb);
          Some (opt, jb\<lparr>auto_tradeoff := auto\<rparr>) }"

definition update_timings :: "jitter_buffer \<Rightarrow> int \<Rightarrow> jitter_buffer option" where
  "update_timings jb t =
     do { let t = (if t < - 32767 then - 32767 else t);
          let t = (if t > 32767 then 32767 else t);
          let full = curr_count (tbs jb ! (timeBuffers jb ! 0)) \<ge> subwindow_size jb;
          let order = (if full then last (timeBuffers jb) # butlast (timeBuffers jb) else timeBuffers jb);
          let bufs = (if full then (tbs jb)[order ! 0 := tb_init (tbs jb ! (order ! 0))] else tbs jb);
          tb \<leftarrow> tb_add (bufs ! (order ! 0)) (i16 t);
          Some (jb\<lparr>timeBuffers := order, tbs := bufs[order ! 0 := tb]\<rparr>) }"

definition shift_tb :: "int \<Rightarrow> timing_buffer \<Rightarrow> timing_buffer" where
  "shift_tb amount tb =
     tb\<lparr>timing := map (\<lambda>t. i32 (t + amount)) (take (filled tb) (timing tb)) @ drop (filled tb) (timing tb)\<rparr>"

definition shift_timings :: "jitter_buffer \<Rightarrow> int \<Rightarrow> jitter_buffer" where
  "shift_timings jb amount =
     jb\<lparr>tbs := foldl (\<lambda>bufs i. bufs[i := shift_tb amount (bufs ! i)]) (tbs jb) (timeBuffers jb)\<rparr>"

subsection \<open>Putting packets\<close>

definition cleanup :: "jitter_buffer \<Rightarrow> jitter_buffer" where
  "cleanup jb =
     (if reset_state jb then jb
      else release_packets (\<lambda>p. LE32 (timestamp p + span p) (pointer_timestamp jb)) jb)"

text \<open>The slot of the oldest packet of a full buffer.\<close>

definition oldest_slot :: "jitter_packet list \<Rightarrow> nat" where
  "oldest_slot ps =
     fst (foldl (\<lambda>(i, earliest) j.
            if data (ps ! i) = None \<or> LT32 (timestamp (ps ! j)) earliest
            then (j, timestamp (ps ! j)) else (i, earliest))
          (0, timestamp (ps ! 0)) [1..<SPEEX_JITTER_MAX_BUFFER_SIZE])"

definition free_slot :: "jitter_buffer \<Rightarrow> nat \<times> jitter_buffer" where
  "free_slot jb =
     (let i = first_slot (\<lambda>p. data p = None) (packets jb) in
      if i = SPEEX_JITTER_MAX_BUFFER_SIZE then
        (let i = oldest_slot (packets jb) in
         (i, jb\<lparr>packets := (packets jb)[i := (packets jb ! i)\<lparr>data := None\<rparr>],
                released := released jb @ (case data (packets jb ! i) of Some d \<Rightarrow> [d] | None \<Rightarrow> [])\<rparr>))
      else (i, jb))"

definition insert_packet :: "jitter_buffer \<Rightarrow> jitter_packet \<Rightarrow> bool \<Rightarrow> jitter_buffer option" where
  "insert_packet jb packet late =
     (let (i, jb) = free_slot jb in
      do { d \<leftarrow> (if destroy jb then Some (data packet)
                  else (case data packet of
                          Some blk \<Rightarrow> do { c \<leftarrow> mem_read blk 0 (unat (len packet)); Some (Some c) }
                        | None \<Rightarrow> if len packet = 0 then Some (Some []) else None));
           Some (jb\<lparr>packets := (packets jb)[i := packet\<lparr>data := d\<rparr>],
                    arrival := (arrival jb)[i := (if reset_state jb \<or> late then 0 else next_stop jb)]\<rparr>) })"

text \<open>Only a packet that is not hopelessly late is stored.\<close>

definition useful :: "jitter_buffer \<Rightarrow> jitter_packet \<Rightarrow> bool" where
  "useful jb packet \<longleftrightarrow> reset_state jb \<or>
     GE32 (timestamp packet + span packet + word_of_int (delay_step jb)) (pointer_timestamp jb)"

definition is_late :: "jitter_buffer \<Rightarrow> jitter_packet \<Rightarrow> bool" where
  "is_late jb packet \<longleftrightarrow> \<not> reset_state jb \<and> LT32 (timestamp packet) (next_stop jb)"

definition jitter_buffer_put :: "jitter_buffer \<Rightarrow> jitter_packet \<Rightarrow> jitter_buffer option" where
  "jitter_buffer_put jb packet =
     do { let jb = cleanup jb;
          let late = is_late jb packet;
          jb \<leftarrow> (if late
                  then update_timings jb (i32 (sint (timestamp packet) - sint (next_stop jb) - buffer_margin jb))
                  else Some jb);
          let jb = (if lost_count jb > 20 then jitter_buffer_reset jb else jb);
          if useful jb packet then insert_packet jb packet late else Some jb }"

subsection \<open>Getting packets\<close>

datatype jitter_result = JITTER_BUFFER_OK | JITTER_BUFFER_MISSING | JITTER_BUFFER_INSERTION

text \<open>The oldest packet, on the first call.\<close>

definition oldest_packet :: "jitter_packet list \<Rightarrow> u32 option" where
  "oldest_packet ps =
     foldl (\<lambda>oldest p. if data p \<noteq> None \<and> (case oldest of None \<Rightarrow> True | Some t \<Rightarrow> LT32 (timestamp p) t)
                       then Some (timestamp p) else oldest) None ps"

text \<open>The four searches for the packet that fits best.\<close>

definition exact_match :: "u32 \<Rightarrow> u32 \<Rightarrow> jitter_packet \<Rightarrow> bool" where
  "exact_match ptr wanted p \<longleftrightarrow> data p \<noteq> None \<and> timestamp p = ptr \<and> GE32 (timestamp p + span p) (ptr + wanted)"

definition older_full :: "u32 \<Rightarrow> u32 \<Rightarrow> jitter_packet \<Rightarrow> bool" where
  "older_full ptr wanted p \<longleftrightarrow>
     data p \<noteq> None \<and> LE32 (timestamp p) ptr \<and> GE32 (timestamp p + span p) (ptr + wanted)"

definition older_part :: "u32 \<Rightarrow> jitter_packet \<Rightarrow> bool" where
  "older_part ptr p \<longleftrightarrow> data p \<noteq> None \<and> LE32 (timestamp p) ptr \<and> GT32 (timestamp p + span p) ptr"

definition starts_within :: "u32 \<Rightarrow> u32 \<Rightarrow> jitter_packet \<Rightarrow> bool" where
  "starts_within ptr wanted p \<longleftrightarrow> data p \<noteq> None \<and> LT32 (timestamp p) (ptr + wanted) \<and> GE32 (timestamp p) ptr"

definition earliest_slot :: "u32 \<Rightarrow> u32 \<Rightarrow> jitter_packet list \<Rightarrow> nat option" where
  "earliest_slot ptr wanted ps =
     foldl (\<lambda>best i.
        if starts_within ptr wanted (ps ! i) \<and>
           (case best of None \<Rightarrow> True
            | Some b \<Rightarrow> LT32 (timestamp (ps ! i)) (timestamp (ps ! b)) \<or>
                        (timestamp (ps ! i) = timestamp (ps ! b) \<and> GT32 (span (ps ! i)) (span (ps ! b))))
        then Some i else best) None [0..<SPEEX_JITTER_MAX_BUFFER_SIZE]"

definition best_slot :: "u32 \<Rightarrow> u32 \<Rightarrow> jitter_packet list \<Rightarrow> nat option" where
  "best_slot ptr wanted ps =
     (let i = first_slot (exact_match ptr wanted) ps in
      if i \<noteq> SPEEX_JITTER_MAX_BUFFER_SIZE then Some i
      else let i = first_slot (older_full ptr wanted) ps in
      if i \<noteq> SPEEX_JITTER_MAX_BUFFER_SIZE then Some i
      else let i = first_slot (older_part ptr) ps in
      if i \<noteq> SPEEX_JITTER_MAX_BUFFER_SIZE then Some i
      else earliest_slot ptr wanted ps)"

text \<open>Copying \<open>n\<close> bytes of a stored block to the caller's packet, after which it is freed.\<close>

definition copy_out :: "u8 list \<Rightarrow> jitter_packet \<Rightarrow> nat \<Rightarrow> jitter_packet option" where
  "copy_out src packet n =
     do { blk \<leftarrow> mem_read src 0 n;
          (case data packet of
             Some dst \<Rightarrow> do { d \<leftarrow> mem_write dst 0 blk; Some (packet\<lparr>data := Some d\<rparr>) }
           | None \<Rightarrow> if n = 0 then Some packet else None) }"

text \<open>The packet of slot \<open>i\<close> is handed over.\<close>

definition take_packet ::
    "jitter_buffer \<Rightarrow> jitter_packet \<Rightarrow> nat \<Rightarrow> int \<Rightarrow> bool \<Rightarrow> (jitter_packet \<times> int \<times> jitter_buffer) option" where
  "take_packet jb packet i desired_span want_offset =
     do { let jb = jb\<lparr>lost_count := 0\<rparr>;
          jb \<leftarrow> (if arrival jb ! i \<noteq> 0
                  then update_timings jb
                    (i32 (sint (timestamp (packets jb ! i)) - sint (arrival jb ! i) - buffer_margin jb))
                  else Some jb);
          let p = packets jb ! i;
          stored \<leftarrow> data p;
          (packet, freed) \<leftarrow>
            (if destroy jb then Some (packet\<lparr>data := Some stored, len := len p\<rparr>, [])
             else do { let packet = (if len p > len packet then packet else packet\<lparr>len := len p\<rparr>);
                       packet \<leftarrow> copy_out stored packet (unat (len packet));
                       Some (packet, [stored]) });
          let offset = i32 (sint (timestamp p) - sint (pointer_timestamp jb));
          let packet = packet\<lparr>timestamp := timestamp p, span := span p, seqno := seqno p, user_data := user_data p\<rparr>;
          let buffered = sint (span packet - word_of_int desired_span);
          Some (packet, (if want_offset then offset else 0),
                jb\<lparr>packets := (packets jb)[i := p\<lparr>data := None\<rparr>], released := released jb @ freed,
                   last_returned_timestamp := timestamp p,
                   pointer_timestamp := timestamp p + span p,
                   buffered := (if want_offset then i32 (buffered + offset) else buffered)\<rparr>) }"

text \<open>Nothing found: more buffering, or a lost packet.\<close>

definition missing_packet ::
    "jitter_buffer \<Rightarrow> jitter_packet \<Rightarrow> int \<Rightarrow> (jitter_result \<times> jitter_packet \<times> jitter_buffer) option" where
  "missing_packet jb packet desired_span =
     do { (opt, jb) \<leftarrow> compute_opt_delay (jb\<lparr>lost_count := i32 (lost_count jb + 1)\<rparr>);
          if opt < 0 then
            do { let jb = shift_timings jb (i16 (- opt));
                 let packet = packet\<lparr>timestamp := pointer_timestamp jb, span := word_of_int (- opt), len := 0\<rparr>;
                 Some (JITTER_BUFFER_INSERTION, packet,
                       jb\<lparr>buffered := sint (span packet - word_of_int desired_span)\<rparr>) }
          else
            do { let packet = packet\<lparr>timestamp := pointer_timestamp jb\<rparr>;
                 desired_span \<leftarrow> ROUND_DOWN desired_span (concealment_size jb);
                 let packet = packet\<lparr>span := word_of_int desired_span, len := 0\<rparr>;
                 Some (JITTER_BUFFER_MISSING, packet,
                       jb\<lparr>pointer_timestamp := pointer_timestamp jb + word_of_int desired_span,
                          buffered := sint (span packet - word_of_int desired_span)\<rparr>) } }"

text \<open>\<open>want_offset\<close> says whether \<open>start_offset\<close> is given; its value is the third result.\<close>

definition jitter_buffer_get ::
    "jitter_buffer \<Rightarrow> jitter_packet \<Rightarrow> int \<Rightarrow> bool \<Rightarrow> (jitter_result \<times> jitter_packet \<times> int \<times> jitter_buffer) option" where
  "jitter_buffer_get jb packet desired_span want_offset =
     (case (if reset_state jb then oldest_packet (packets jb) else Some (pointer_timestamp jb)) of
        None \<Rightarrow> Some (JITTER_BUFFER_MISSING,
                     packet\<lparr>timestamp := 0, span := word_of_int (interp_requested jb)\<rparr>, 0, jb)
      | Some t \<Rightarrow>
        (let jb = (if reset_state jb then jb\<lparr>reset_state := False, pointer_timestamp := t, next_stop := t\<rparr> else jb);
             jb = jb\<lparr>last_returned_timestamp := pointer_timestamp jb\<rparr>
         in if interp_requested jb \<noteq> 0 then
              (let packet = packet\<lparr>timestamp := pointer_timestamp jb, span := word_of_int (interp_requested jb), len := 0\<rparr>
               in Some (JITTER_BUFFER_INSERTION, packet, 0,
                    jb\<lparr>pointer_timestamp := pointer_timestamp jb + word_of_int (interp_requested jb),
                       interp_requested := 0,
                       buffered := sint (span packet - word_of_int desired_span)\<rparr>))
            else (case best_slot (pointer_timestamp jb) (word_of_int desired_span) (packets jb) of
                    Some i \<Rightarrow> do { (packet, offset, jb) \<leftarrow> take_packet jb packet i desired_span want_offset;
                                    Some (JITTER_BUFFER_OK, packet, offset, jb) }
                  | None \<Rightarrow> do { (r, packet, jb) \<leftarrow> missing_packet jb packet desired_span;
                                 Some (r, packet, 0, jb) })))"

definition jitter_buffer_get_another ::
    "jitter_buffer \<Rightarrow> jitter_packet \<Rightarrow> (jitter_result \<times> jitter_packet \<times> jitter_buffer) option" where
  "jitter_buffer_get_another jb packet =
     (let i = first_slot (\<lambda>p. data p \<noteq> None \<and> timestamp p = last_returned_timestamp jb) (packets jb) in
      if i \<noteq> SPEEX_JITTER_MAX_BUFFER_SIZE then
        do { let p = packets jb ! i;
             stored \<leftarrow> data p;
             let packet = packet\<lparr>len := len p\<rparr>;
             (packet, freed) \<leftarrow>
               (if destroy jb then Some (packet\<lparr>data := Some stored\<rparr>, [])
                else do { packet \<leftarrow> copy_out stored packet (unat (len packet)); Some (packet, [stored]) });
             Some (JITTER_BUFFER_OK,
                   packet\<lparr>timestamp := timestamp p, span := span p, seqno := seqno p, user_data := user_data p\<rparr>,
                   jb\<lparr>packets := (packets jb)[i := p\<lparr>data := None\<rparr>], released := released jb @ freed\<rparr>) }
      else Some (JITTER_BUFFER_MISSING, packet\<lparr>data := None, len := 0, span := 0\<rparr>, jb))"

subsection \<open>Adjusting the delay\<close>

definition update_delay :: "jitter_buffer \<Rightarrow> (int \<times> jitter_buffer) option" where
  "update_delay jb =
     do { (opt, jb) \<leftarrow> compute_opt_delay jb;
          let jb = (if opt < 0 then
                      (shift_timings jb (i16 (- opt)))
                        \<lparr>pointer_timestamp := pointer_timestamp jb + word_of_int opt, interp_requested := - opt\<rparr>
                    else if opt > 0 then
                      (shift_timings jb (i16 (- opt)))\<lparr>pointer_timestamp := pointer_timestamp jb + word_of_int opt\<rparr>
                    else jb);
          Some (opt, jb) }"

definition jitter_buffer_update_delay :: "jitter_buffer \<Rightarrow> (int \<times> jitter_buffer) option" where
  "jitter_buffer_update_delay jb = update_delay (jb\<lparr>auto_adjust := False\<rparr>)"

definition auto_update :: "jitter_buffer \<Rightarrow> jitter_buffer option" where
  "auto_update jb = (if auto_adjust jb then do { (opt, jb) \<leftarrow> update_delay jb; Some jb } else Some jb)"

definition jitter_buffer_get_pointer_timestamp :: "jitter_buffer \<Rightarrow> int" where
  "jitter_buffer_get_pointer_timestamp jb = sint (pointer_timestamp jb)"

definition jitter_buffer_tick :: "jitter_buffer \<Rightarrow> jitter_buffer option" where
  "jitter_buffer_tick jb =
     do { jb \<leftarrow> auto_update jb;
          let stop = (if buffered jb \<ge> 0 then pointer_timestamp jb - word_of_int (buffered jb)
                      else pointer_timestamp jb);
          Some (jb\<lparr>next_stop := stop, buffered := 0\<rparr>) }"

definition jitter_buffer_remaining_span :: "jitter_buffer \<Rightarrow> u32 \<Rightarrow> jitter_buffer option" where
  "jitter_buffer_remaining_span jb rem =
     do { jb \<leftarrow> auto_update jb;
          Some (jb\<lparr>next_stop := pointer_timestamp jb - rem\<rparr>) }"

subsection \<open>Parameters\<close>

datatype jitter_request =
  SET_MARGIN int | GET_MARGIN | GET_AVAILABLE_COUNT | SET_DESTROY_CALLBACK bool | GET_DESTROY_CALLBACK
| SET_DELAY_STEP int | GET_DELAY_STEP | SET_CONCEALMENT_SIZE int | GET_CONCEALMENT_SIZE
| SET_MAX_LATE_RATE int | GET_MAX_LATE_RATE | SET_LATE_COST int | GET_LATE_COST | UNKNOWN_REQUEST

text \<open>The results are the return value and, for a request that asks, the answer.\<close>

fun jitter_buffer_ctl :: "jitter_buffer \<Rightarrow> jitter_request \<Rightarrow> (int \<times> int option \<times> jitter_buffer) option" where
  "jitter_buffer_ctl jb (SET_MARGIN v) = Some (0, None, jb\<lparr>buffer_margin := v\<rparr>)"
| "jitter_buffer_ctl jb GET_MARGIN = Some (0, Some (buffer_margin jb), jb)"
| "jitter_buffer_ctl jb GET_AVAILABLE_COUNT =
     Some (0, Some (int (length (filter (\<lambda>p. data p \<noteq> None \<and> LE32 (pointer_timestamp jb) (timestamp p)) (packets jb)))), jb)"
| "jitter_buffer_ctl jb (SET_DESTROY_CALLBACK b) = Some (0, None, jb\<lparr>destroy := b\<rparr>)"
| "jitter_buffer_ctl jb GET_DESTROY_CALLBACK = Some (0, Some (if destroy jb then 1 else 0), jb)"
| "jitter_buffer_ctl jb (SET_DELAY_STEP v) = Some (0, None, jb\<lparr>delay_step := v\<rparr>)"
| "jitter_buffer_ctl jb GET_DELAY_STEP = Some (0, Some (delay_step jb), jb)"
| "jitter_buffer_ctl jb (SET_CONCEALMENT_SIZE v) = Some (0, None, jb\<lparr>concealment_size := v\<rparr>)"
| "jitter_buffer_ctl jb GET_CONCEALMENT_SIZE = Some (0, Some (concealment_size jb), jb)"
| "jitter_buffer_ctl jb (SET_MAX_LATE_RATE v) = do { jb \<leftarrow> set_max_late_rate jb v; Some (0, None, jb) }"
| "jitter_buffer_ctl jb GET_MAX_LATE_RATE = Some (0, Some (max_late_rate jb), jb)"
| "jitter_buffer_ctl jb (SET_LATE_COST v) = Some (0, None, jb\<lparr>latency_tradeoff := v\<rparr>)"
| "jitter_buffer_ctl jb GET_LATE_COST = Some (0, Some (latency_tradeoff jb), jb)"
| "jitter_buffer_ctl jb UNKNOWN_REQUEST = Some (-1, None, jb)"

subsection \<open>The invariant of the buffer\<close>

definition tb_ok :: "timing_buffer \<Rightarrow> bool" where
  "tb_ok b \<longleftrightarrow> tb_shape b \<and> int (filled b) \<le> curr_count b \<and> curr_count b \<le> 1400"

definition jb_inv :: "jitter_buffer \<Rightarrow> bool" where
  "jb_inv jb \<longleftrightarrow>
     length (packets jb) = SPEEX_JITTER_MAX_BUFFER_SIZE \<and> length (arrival jb) = SPEEX_JITTER_MAX_BUFFER_SIZE \<and>
     length (tbs jb) = MAX_BUFFERS \<and> (\<forall>b \<in> set (tbs jb). tb_ok b) \<and>
     length (timeBuffers jb) = MAX_BUFFERS \<and> set (timeBuffers jb) = {..<MAX_BUFFERS} \<and>
     \<bar>window_size jb\<bar> \<le> 4000 \<and> subwindow_size jb \<le> 1334"

lemma tb_init_ok: "tb_ok b \<Longrightarrow> tb_ok (tb_init b)"
  by (simp add: tb_ok_def tb_init_shape) (simp add: tb_init_def)

lemma tb_add_ok:
  assumes b: "tb_ok b" and c: "curr_count b < 1400"
  shows "\<exists>b'. tb_add b t = Some b' \<and> tb_ok b'"
proof -
  have "0 \<le> curr_count b" using b by (simp add: tb_ok_def)
  then have "i32 (curr_count b + 1) = curr_count b + 1" using c by (intro i32_id) (simp add: is_i32_def)
  then show ?thesis using tb_add_total [of b t] b c by (auto simp: tb_ok_def)
qed

lemma rotate_indices:
  assumes "length (xs :: nat list) = MAX_BUFFERS" and "set xs = {..<MAX_BUFFERS}"
  shows "length (last xs # butlast xs) = MAX_BUFFERS \<and> set (last xs # butlast xs) = {..<MAX_BUFFERS}"
proof -
  have "xs \<noteq> []" using assms(1) by (auto simp: MAX_BUFFERS_def)
  then have "xs = butlast xs @ [last xs]" by simp
  then have "set xs = set (last xs # butlast xs)" by (metis Un_commute list.set(2) set_append list.simps(15) set_simps(1) insert_is_Un Un_empty_right)
  then show ?thesis using assms \<open>xs \<noteq> []\<close> by (simp add: MAX_BUFFERS_def)
qed

lemma update_timings_ok:
  assumes inv: "jb_inv jb"
  obtains ord bufs where "update_timings jb t = Some (jb\<lparr>timeBuffers := ord, tbs := bufs\<rparr>)"
    and "jb_inv (jb\<lparr>timeBuffers := ord, tbs := bufs\<rparr>)"
proof -
  define full where "full = (curr_count (tbs jb ! (timeBuffers jb ! 0)) \<ge> subwindow_size jb)"
  define ord where "ord = (if full then last (timeBuffers jb) # butlast (timeBuffers jb) else timeBuffers jb)"
  define bufs where "bufs = (if full then (tbs jb)[ord ! 0 := tb_init (tbs jb ! (ord ! 0))] else tbs jb)"
  have ord: "length ord = MAX_BUFFERS" "set ord = {..<MAX_BUFFERS}"
    using inv rotate_indices [of "timeBuffers jb"] by (auto simp: ord_def jb_inv_def)
  have "ord ! 0 \<in> set ord" using ord(1) by (intro nth_mem) (simp add: MAX_BUFFERS_def)
  then have o0: "ord ! 0 < MAX_BUFFERS" using ord(2) by simp
  have all: "\<forall>b \<in> set (tbs jb). tb_ok b" "length (tbs jb) = MAX_BUFFERS" using inv by (simp_all add: jb_inv_def)
  have b0: "tb_ok (tbs jb ! (ord ! 0))" using all o0 by simp
  have bufs: "\<forall>b \<in> set bufs. tb_ok b" "length bufs = MAX_BUFFERS"
    unfolding bufs_def using ball_list_update [OF all(1) tb_init_ok [OF b0]] all by simp_all
  have "curr_count (bufs ! (ord ! 0)) < 1400"
  proof (cases full)
    case True
    then show ?thesis using o0 all by (simp add: bufs_def tb_init_def)
  next
    case False
    then show ?thesis using inv by (simp add: bufs_def ord_def full_def jb_inv_def)
  qed
  moreover have "tb_ok (bufs ! (ord ! 0))" using bufs o0 by simp
  ultimately obtain tb where tb: "tb_add (bufs ! (ord ! 0)) (i16 (if (if t < - 32767 then - 32767 else t) > 32767 then 32767
        else (if t < - 32767 then - 32767 else t))) = Some tb" "tb_ok tb"
    using tb_add_ok by blast
  have eq: "update_timings jb t = Some (jb\<lparr>timeBuffers := ord, tbs := bufs[ord ! 0 := tb]\<rparr>)"
    using tb(1) unfolding update_timings_def Let_def full_def [symmetric] ord_def [symmetric] bufs_def [symmetric] by simp
  have "\<forall>b \<in> set (bufs[ord ! 0 := tb]). tb_ok b" by (rule ball_list_update [OF bufs(1) tb(2)])
  then have "jb_inv (jb\<lparr>timeBuffers := ord, tbs := bufs[ord ! 0 := tb]\<rparr>)"
    using inv ord bufs by (simp add: jb_inv_def)
  then show ?thesis by (rule that [OF eq])
qed

text \<open>A timing that is taken into account only under a condition.\<close>

lemma maybe_update:
  assumes "jb_inv jb"
  shows "\<exists>jb'. (if c then update_timings jb t else Some jb) = Some jb' \<and> jb_inv jb'"
proof (cases c)
  case True
  obtain ord bufs where "update_timings jb t = Some (jb\<lparr>timeBuffers := ord, tbs := bufs\<rparr>)"
    "jb_inv (jb\<lparr>timeBuffers := ord, tbs := bufs\<rparr>)" using update_timings_ok [OF assms] .
  then show ?thesis using True by simp
qed (use assms in simp)

lemma shift_tb_ok: "tb_ok b \<Longrightarrow> tb_ok (shift_tb a b)"
  by (simp add: tb_ok_def tb_shape_def shift_tb_def)

lemma shift_timings_ok:
  assumes inv: "jb_inv jb"
  obtains bufs where "shift_timings jb a = jb\<lparr>tbs := bufs\<rparr>" and "jb_inv (jb\<lparr>tbs := bufs\<rparr>)"
proof -
  have "\<forall>b \<in> set bs. tb_ok b \<Longrightarrow> length bs = MAX_BUFFERS \<Longrightarrow> \<forall>i \<in> set is. i < MAX_BUFFERS \<Longrightarrow>
      (\<forall>b \<in> set (foldl (\<lambda>bufs i. bufs[i := shift_tb a (bufs ! i)]) bs is). tb_ok b) \<and>
      length (foldl (\<lambda>bufs i. bufs[i := shift_tb a (bufs ! i)]) bs is) = MAX_BUFFERS" for bs "is"
  proof (induction "is" arbitrary: bs)
    case (Cons i "is")
    have "tb_ok (shift_tb a (bs ! i))" using Cons.prems by (intro shift_tb_ok) simp
    then have "\<forall>b \<in> set (bs[i := shift_tb a (bs ! i)]). tb_ok b" by (rule ball_list_update [OF Cons.prems(1)])
    then show ?case using Cons.IH [of "bs[i := shift_tb a (bs ! i)]"] Cons.prems by simp
  qed simp
  from this [of "tbs jb" "timeBuffers jb"] inv show ?thesis
    by (intro that [OF shift_timings_def]) (simp add: jb_inv_def)
qed

lemma release_packets_fields [simp]:
  "length (packets (release_packets P jb)) = length (packets jb)" "arrival (release_packets P jb) = arrival jb"
  "tbs (release_packets P jb) = tbs jb" "timeBuffers (release_packets P jb) = timeBuffers jb"
  "window_size (release_packets P jb) = window_size jb" "subwindow_size (release_packets P jb) = subwindow_size jb"
  "destroy (release_packets P jb) = destroy jb" "reset_state (release_packets P jb) = reset_state jb"
  "pointer_timestamp (release_packets P jb) = pointer_timestamp jb" "next_stop (release_packets P jb) = next_stop jb"
  "lost_count (release_packets P jb) = lost_count jb" "delay_step (release_packets P jb) = delay_step jb"
  by (simp_all add: release_packets_def)

lemma release_packets_inv: "jb_inv (release_packets P jb) = jb_inv jb"
  by (simp add: jb_inv_def)

lemma reset_inv: "jb_inv jb \<Longrightarrow> jb_inv (jitter_buffer_reset jb)"
  by (auto simp: jb_inv_def jitter_buffer_reset_def tb_init_ok)

lemma cleanup_inv: "jb_inv jb \<Longrightarrow> jb_inv (cleanup jb)"
  by (simp add: cleanup_def release_packets_inv)

lemma set_max_late_rate_inv: "jb_inv jb \<Longrightarrow> set_max_late_rate jb r = Some jb' \<Longrightarrow> jb_inv jb'"
proof -
  assume inv: "jb_inv jb" and s: "set_max_late_rate jb r = Some jb'"
  have r: "r \<noteq> 0" using s by (auto simp: set_max_late_rate_def Let_def require_def split: if_splits)
  let ?w = "4000 sdiv r"
  have w: "\<bar>?w\<bar> \<le> 4000"
  proof -
    have "\<bar>?w\<bar> = 4000 div \<bar>r\<bar>" using r by (simp add: signed_divide_int_def abs_mult abs_sgn_eq pos_imp_zdiv_nonneg_iff)
    also have "\<dots> \<le> 4000" using zdiv_mono2 [of 4000 1 "\<bar>r\<bar>"] r by simp
    finally show ?thesis .
  qed
  have "?w sdiv 3 \<le> \<bar>?w\<bar> div 3" using abs_sdiv [of 3 ?w] by linarith
  also have "\<dots> \<le> 4000 div 3" using w by (intro zdiv_mono1) simp_all
  finally have "?w sdiv 3 \<le> 1334" by simp
  then show "jb_inv jb'"
    using inv s r w by (auto simp: set_max_late_rate_def Let_def jb_inv_def TOP_DELAY_def MAX_BUFFERS_def)
qed

text \<open>Slots.\<close>

lemma oldest_slot_less: "oldest_slot ps < SPEEX_JITTER_MAX_BUFFER_SIZE"
proof -
  have "fst (foldl (\<lambda>(i, earliest) j.
            if data (ps ! i) = None \<or> LT32 (timestamp (ps ! j)) earliest
            then (j, timestamp (ps ! j)) else (i, earliest)) (0, e) js) \<in> insert 0 (set js)" for e js
    by (induction js rule: rev_induct) (auto split: prod.splits)
  from this [of "timestamp (ps ! 0)" "[1..<SPEEX_JITTER_MAX_BUFFER_SIZE]"]
  show ?thesis unfolding oldest_slot_def by (auto simp: SPEEX_JITTER_MAX_BUFFER_SIZE_def)
qed

lemma free_slot_ok:
  assumes "length (packets jb) = SPEEX_JITTER_MAX_BUFFER_SIZE" and "free_slot jb = (i, jb')"
  shows "i < SPEEX_JITTER_MAX_BUFFER_SIZE \<and> data (packets jb' ! i) = None \<and>
    length (packets jb') = SPEEX_JITTER_MAX_BUFFER_SIZE \<and>
    (\<exists>ps r. jb' = jb\<lparr>packets := ps, released := r\<rparr>)"
proof (cases "first_slot (\<lambda>p. data p = None) (packets jb) = SPEEX_JITTER_MAX_BUFFER_SIZE")
  case True
  define i0 where "i0 = oldest_slot (packets jb)"
  have "i = i0" and jb': "jb' = jb\<lparr>packets := (packets jb)[i0 := (packets jb ! i0)\<lparr>data := None\<rparr>],
                released := released jb @ (case data (packets jb ! i0) of Some d \<Rightarrow> [d] | None \<Rightarrow> [])\<rparr>"
    using assms(2) True unfolding i0_def free_slot_def Let_def by auto
  moreover have "i0 < length (packets jb)" using oldest_slot_less assms(1) by (simp add: i0_def)
  ultimately show ?thesis using assms(1) by (simp, blast)
next
  case False
  then have e: "i = first_slot (\<lambda>p. data p = None) (packets jb)" "jb' = jb"
    using assms(2) by (auto simp: free_slot_def Let_def)
  moreover have "i < length (packets jb)"
    using False first_slot_le [of "\<lambda>p. data p = None" "packets jb"] assms(1) e by simp
  ultimately show ?thesis
    using first_slot_nth [of "\<lambda>p. data p = None" "packets jb"] assms(1)
    by (intro conjI exI [of _ "packets jb"] exI [of _ "released jb"]) simp_all
qed

lemma insert_packet_inv: "jb_inv jb \<Longrightarrow> insert_packet jb packet late = Some jb' \<Longrightarrow> jb_inv jb'"
proof -
  assume inv: "jb_inv jb" and ins: "insert_packet jb packet late = Some jb'"
  obtain i jb1 where f: "free_slot jb = (i, jb1)" by fastforce
  have "length (packets jb) = SPEEX_JITTER_MAX_BUFFER_SIZE" using inv by (simp add: jb_inv_def)
  then have "\<exists>ps r. jb1 = jb\<lparr>packets := ps, released := r\<rparr>" "length (packets jb1) = SPEEX_JITTER_MAX_BUFFER_SIZE"
    using free_slot_ok f by blast+
  then show "jb_inv jb'" using inv ins f by (auto simp: insert_packet_def jb_inv_def split: Option.bind_splits)
qed

text \<open>The two halves of \<open>jitter_buffer_put\<close>.\<close>

lemma jitter_buffer_put_split:
  assumes "jitter_buffer_put jb p = Some jb'"
  obtains jb1 where "(if is_late (cleanup jb) p
      then update_timings (cleanup jb) (i32 (sint (timestamp p) - sint (next_stop (cleanup jb)) - buffer_margin (cleanup jb)))
      else Some (cleanup jb)) = Some jb1"
    and "(let jb2 = (if lost_count jb1 > 20 then jitter_buffer_reset jb1 else jb1)
          in if useful jb2 p then insert_packet jb2 p (is_late (cleanup jb) p) else Some jb2) = Some jb'"
  using assms unfolding jitter_buffer_put_def Let_def by (rule bind_SomeE)

lemma jitter_buffer_put_inv:
  assumes inv: "jb_inv jb" and put: "jitter_buffer_put jb p = Some jb'"
  shows "jb_inv jb'"
proof -
  obtain jb1 where u: "(if is_late (cleanup jb) p
      then update_timings (cleanup jb) (i32 (sint (timestamp p) - sint (next_stop (cleanup jb)) - buffer_margin (cleanup jb)))
      else Some (cleanup jb)) = Some jb1"
    and ins: "(let jb2 = (if lost_count jb1 > 20 then jitter_buffer_reset jb1 else jb1)
          in if useful jb2 p then insert_packet jb2 p (is_late (cleanup jb) p) else Some jb2) = Some jb'"
    using jitter_buffer_put_split [OF put] .
  have "jb_inv jb1" using maybe_update [OF cleanup_inv [OF inv]] u by (metis option.inject)
  then have "jb_inv (if lost_count jb1 > 20 then jitter_buffer_reset jb1 else jb1)" using reset_inv by simp
  then show ?thesis using ins insert_packet_inv unfolding Let_def by (auto split: if_splits)
qed

lemma compute_opt_delay_inv: "jb_inv jb \<Longrightarrow> compute_opt_delay jb = Some (opt, jb') \<Longrightarrow> jb_inv jb'"
  by (auto simp: compute_opt_delay_def jb_inv_def split: Option.bind_splits)

lemma shift_timings_inv: "jb_inv jb \<Longrightarrow> jb_inv (shift_timings jb a)"
  by (metis shift_timings_ok)

text \<open>The fields the invariant does not speak of.\<close>

lemma jb_inv_updates [simp]:
  "jb_inv (jb\<lparr>pointer_timestamp := t\<rparr>) = jb_inv jb" "jb_inv (jb\<lparr>last_returned_timestamp := t\<rparr>) = jb_inv jb"
  "jb_inv (jb\<lparr>next_stop := t\<rparr>) = jb_inv jb" "jb_inv (jb\<lparr>buffered := x\<rparr>) = jb_inv jb"
  "jb_inv (jb\<lparr>destroy := c\<rparr>) = jb_inv jb" "jb_inv (jb\<lparr>released := r\<rparr>) = jb_inv jb"
  "jb_inv (jb\<lparr>delay_step := x\<rparr>) = jb_inv jb" "jb_inv (jb\<lparr>concealment_size := x\<rparr>) = jb_inv jb"
  "jb_inv (jb\<lparr>reset_state := c\<rparr>) = jb_inv jb" "jb_inv (jb\<lparr>buffer_margin := x\<rparr>) = jb_inv jb"
  "jb_inv (jb\<lparr>interp_requested := x\<rparr>) = jb_inv jb" "jb_inv (jb\<lparr>auto_adjust := c\<rparr>) = jb_inv jb"
  "jb_inv (jb\<lparr>latency_tradeoff := x\<rparr>) = jb_inv jb" "jb_inv (jb\<lparr>lost_count := x\<rparr>) = jb_inv jb"
  "jb_inv (jb\<lparr>packets := (packets jb)[i := p]\<rparr>) = jb_inv jb"
  by (simp_all add: jb_inv_def)

lemma missing_packet_inv: "jb_inv jb \<Longrightarrow> missing_packet jb packet ds = Some (r, packet', jb') \<Longrightarrow> jb_inv jb'"
proof -
  assume inv: "jb_inv jb" and m: "missing_packet jb packet ds = Some (r, packet', jb')"
  obtain opt jb1 where c: "compute_opt_delay (jb\<lparr>lost_count := i32 (lost_count jb + 1)\<rparr>) = Some (opt, jb1)"
    using m by (auto simp: missing_packet_def split: Option.bind_splits)
  then have "jb_inv jb1" using inv by (intro compute_opt_delay_inv [OF _ c]) simp
  then show "jb_inv jb'"
    using m c shift_timings_inv [of jb1 "i16 (- opt)"]
    by (auto simp: missing_packet_def Let_def split: Option.bind_splits if_splits)
qed

lemma take_packet_inv: "jb_inv jb \<Longrightarrow> take_packet jb packet i ds w = Some (packet', off, jb') \<Longrightarrow> jb_inv jb'"
proof -
  assume inv: "jb_inv jb" and t: "take_packet jb packet i ds w = Some (packet', off, jb')"
  let ?jb = "jb\<lparr>lost_count := 0\<rparr>"
  have i0: "jb_inv ?jb" using inv by simp
  obtain jb1 where u: "(if arrival ?jb ! i \<noteq> 0
                  then update_timings ?jb
                    (i32 (sint (timestamp (packets ?jb ! i)) - sint (arrival ?jb ! i) - buffer_margin ?jb))
                  else Some ?jb) = Some jb1" and "jb_inv jb1"
    using maybe_update [OF i0] by blast
  then show "jb_inv jb'"
    using t u by (auto simp: take_packet_def Let_def jb_inv_def split: Option.bind_splits prod.splits)
qed

lemma jitter_buffer_get_inv:
  assumes inv: "jb_inv jb" and get: "jitter_buffer_get jb packet ds w = Some (r, packet', off, jb')"
  shows "jb_inv jb'"
proof (cases "if reset_state jb then oldest_packet (packets jb) else Some (pointer_timestamp jb)")
  case None
  then show ?thesis using get inv by (simp add: jitter_buffer_get_def)
next
  case (Some t)
  define jb1 where "jb1 = (if reset_state jb then jb\<lparr>reset_state := False, pointer_timestamp := t, next_stop := t\<rparr> else jb)"
  define jb2 where "jb2 = jb1\<lparr>last_returned_timestamp := pointer_timestamp jb1\<rparr>"
  have inv2: "jb_inv jb2" using inv by (simp add: jb1_def jb2_def)
  note get = get [unfolded jitter_buffer_get_def Some option.case Let_def, folded jb1_def, folded jb2_def]
  show ?thesis
  proof (cases "interp_requested jb2 \<noteq> 0")
    case True
    then show ?thesis using get inv2 by auto
  next
    case False
    show ?thesis
    proof (cases "best_slot (pointer_timestamp jb2) (word_of_int ds) (packets jb2)")
      case None
      then obtain r' p' jb3 where "missing_packet jb2 packet ds = Some (r', p', jb3)" "jb3 = jb'"
        using get False by (auto split: Option.bind_splits)
      then show ?thesis using missing_packet_inv [OF inv2] by blast
    next
      case (Some i)
      then obtain p' o' jb3 where "take_packet jb2 packet i ds w = Some (p', o', jb3)" "jb3 = jb'"
        using get False by (auto split: Option.bind_splits)
      then show ?thesis using take_packet_inv [OF inv2] by blast
    qed
  qed
qed

lemma jitter_buffer_get_another_inv:
  "jb_inv jb \<Longrightarrow> jitter_buffer_get_another jb packet = Some (r, packet', jb') \<Longrightarrow> jb_inv jb'"
  by (auto simp: jitter_buffer_get_another_def Let_def split: Option.bind_splits if_splits)

lemma update_delay_inv: "jb_inv jb \<Longrightarrow> update_delay jb = Some (opt, jb') \<Longrightarrow> jb_inv jb'"
proof -
  assume inv: "jb_inv jb" and u: "update_delay jb = Some (opt, jb')"
  obtain o1 jb1 where c: "compute_opt_delay jb = Some (o1, jb1)"
    using u by (auto simp: update_delay_def split: Option.bind_splits)
  have "jb_inv jb1" by (rule compute_opt_delay_inv [OF inv c])
  then show "jb_inv jb'" using u c shift_timings_inv [of jb1] by (auto simp: update_delay_def Let_def split: if_splits)
qed

lemma auto_update_inv: "jb_inv jb \<Longrightarrow> auto_update jb = Some jb' \<Longrightarrow> jb_inv jb'"
  using update_delay_inv by (auto simp: auto_update_def split: if_splits Option.bind_splits)

lemma jitter_buffer_ctl_inv: "jb_inv jb \<Longrightarrow> jitter_buffer_ctl jb q = Some (n, a, jb') \<Longrightarrow> jb_inv jb'"
  using set_max_late_rate_inv by (cases q) (auto split: Option.bind_splits)

subsection \<open>The buffer as a state machine\<close>

text \<open>What a program may do with a buffer, one operation a step.\<close>

inductive jitter_step :: "jitter_buffer \<Rightarrow> jitter_buffer \<Rightarrow> bool" where
  put: "jitter_buffer_put jb p = Some jb' \<Longrightarrow> jitter_step jb jb'"
| get: "jitter_buffer_get jb p ds w = Some (r, p', off, jb') \<Longrightarrow> jitter_step jb jb'"
| get_another: "jitter_buffer_get_another jb p = Some (r, p', jb') \<Longrightarrow> jitter_step jb jb'"
| tick: "jitter_buffer_tick jb = Some jb' \<Longrightarrow> jitter_step jb jb'"
| remaining: "jitter_buffer_remaining_span jb rem = Some jb' \<Longrightarrow> jitter_step jb jb'"
| delay: "jitter_buffer_update_delay jb = Some (opt, jb') \<Longrightarrow> jitter_step jb jb'"
| reset: "jitter_step jb (jitter_buffer_reset jb)"
| ctl: "jitter_buffer_ctl jb q = Some (n, a, jb') \<Longrightarrow> jitter_step jb jb'"

inductive jitter_reachable :: "int \<Rightarrow> jitter_buffer \<Rightarrow> bool" for step_size where
  start: "jitter_buffer_init step_size = Some jb \<Longrightarrow> jitter_reachable step_size jb"
| further: "jitter_reachable step_size jb \<Longrightarrow> jitter_step jb jb' \<Longrightarrow> jitter_reachable step_size jb'"

lemma jitter_step_inv: "jitter_step jb jb' \<Longrightarrow> jb_inv jb \<Longrightarrow> jb_inv jb'"
proof (induction rule: jitter_step.induct)
  case (tick jb jb')
  then obtain jb1 where "auto_update jb = Some jb1"
    by (auto simp: jitter_buffer_tick_def split: Option.bind_splits)
  then show ?case using tick auto_update_inv by (auto simp: jitter_buffer_tick_def Let_def)
next
  case (remaining jb rem jb')
  then obtain jb1 where "auto_update jb = Some jb1"
    by (auto simp: jitter_buffer_remaining_span_def split: Option.bind_splits)
  then show ?case using remaining auto_update_inv by (auto simp: jitter_buffer_remaining_span_def)
next
  case (delay jb opt jb')
  then show ?case using update_delay_inv [of "jb\<lparr>auto_adjust := False\<rparr>"] by (simp add: jitter_buffer_update_delay_def)
qed (blast intro: jitter_buffer_put_inv jitter_buffer_get_inv jitter_buffer_get_another_inv reset_inv jitter_buffer_ctl_inv)+

lemma jitter_buffer_init_inv: "jitter_buffer_init step_size = Some jb \<Longrightarrow> jb_inv jb"
proof -
  assume i: "jitter_buffer_init step_size = Some jb"
  let ?jb = "cleared_jitter_buffer\<lparr>delay_step := step_size, concealment_size := step_size, buffer_margin := 0,
               late_cutoff := 50, destroy := False, latency_tradeoff := 0, auto_adjust := True\<rparr>"
  have s: "set_max_late_rate ?jb 4 = Some (?jb\<lparr>max_late_rate := 4, window_size := 1000, subwindow_size := 333\<rparr>)"
    by (simp add: set_max_late_rate_def TOP_DELAY_def MAX_BUFFERS_def)
  have "\<forall>b \<in> set (tbs ?jb). tb_ok b"
    by (simp add: cleared_jitter_buffer_def tb_ok_def tb_shape_def)
  then have "jb_inv (jitter_buffer_reset (?jb\<lparr>max_late_rate := 4, window_size := 1000, subwindow_size := 333\<rparr>))"
    using tb_init_ok by (auto simp: jb_inv_def jitter_buffer_reset_def cleared_jitter_buffer_def)
  then show ?thesis using i s by (simp add: jitter_buffer_init_def)
qed

subsection \<open>The packet that fits best\<close>

text \<open>How far behind a point of time a packet starts.\<close>

definition offset_from :: "u32 \<Rightarrow> jitter_packet \<Rightarrow> int" where
  "offset_from ptr p = uint (timestamp p - ptr)"

lemma starts_within_iff:
  assumes "uint w < 2147483648"
  shows "starts_within ptr w p \<longleftrightarrow> data p \<noteq> None \<and> offset_from ptr p < uint w"
proof (cases "uint (timestamp p - ptr) < 2147483648")
  case True
  have "sint (timestamp p - (ptr + w)) = uint (timestamp p - ptr) - uint w"
    using sint_diff_near [of "timestamp p" ptr "ptr + w"] True assms by simp
  moreover have "0 \<le> sint (timestamp p - ptr)" using True by (simp add: sint_cases)
  ultimately show ?thesis by (simp add: starts_within_def LT32_def GE32_def offset_from_def)
next
  case False
  then have "sint (timestamp p - ptr) < 0"
    using uint_bounded [of "timestamp p - ptr"] by (simp add: sint_cases)
  then show ?thesis using False assms by (simp add: starts_within_def GE32_def offset_from_def)
qed

lemma LT32_offsets:
  assumes "offset_from ptr p < uint w" and "offset_from ptr q < uint w" and "uint w < 2147483648"
  shows "LT32 (timestamp p) (timestamp q) \<longleftrightarrow> offset_from ptr p < offset_from ptr q"
    and "timestamp p = timestamp q \<longleftrightarrow> offset_from ptr p = offset_from ptr q"
proof -
  have "sint (timestamp p - timestamp q) = offset_from ptr p - offset_from ptr q"
    unfolding offset_from_def using assms by (intro sint_diff_near) (simp_all add: offset_from_def)
  then show "LT32 (timestamp p) (timestamp q) \<longleftrightarrow> offset_from ptr p < offset_from ptr q" by (simp add: LT32_def)
  show "timestamp p = timestamp q \<longleftrightarrow> offset_from ptr p = offset_from ptr q"
    unfolding offset_from_def word_uint_eq_iff [symmetric] by simp
qed

definition earliest_of :: "u32 \<Rightarrow> u32 \<Rightarrow> jitter_packet list \<Rightarrow> nat set \<Rightarrow> nat option \<Rightarrow> bool" where
  "earliest_of ptr w ps js best \<longleftrightarrow>
     (case best of None \<Rightarrow> \<forall>j \<in> js. \<not> starts_within ptr w (ps ! j)
      | Some b \<Rightarrow> b \<in> js \<and> starts_within ptr w (ps ! b) \<and>
          (\<forall>j \<in> js. starts_within ptr w (ps ! j) \<longrightarrow> offset_from ptr (ps ! b) \<le> offset_from ptr (ps ! j)))"

lemma earliest_slot_spec:
  assumes w: "uint w < 2147483648"
  shows "earliest_of ptr w ps {..<SPEEX_JITTER_MAX_BUFFER_SIZE} (earliest_slot ptr w ps)"
proof -
  have "earliest_of ptr w ps (set js) (foldl (\<lambda>best i.
        if starts_within ptr w (ps ! i) \<and>
           (case best of None \<Rightarrow> True
            | Some b \<Rightarrow> LT32 (timestamp (ps ! i)) (timestamp (ps ! b)) \<or>
                        (timestamp (ps ! i) = timestamp (ps ! b) \<and> GT32 (span (ps ! i)) (span (ps ! b))))
        then Some i else best) None js)" for js
  proof (induction js rule: rev_induct)
    case (snoc i js)
    let ?best = "foldl (\<lambda>best i.
        if starts_within ptr w (ps ! i) \<and>
           (case best of None \<Rightarrow> True
            | Some b \<Rightarrow> LT32 (timestamp (ps ! i)) (timestamp (ps ! b)) \<or>
                        (timestamp (ps ! i) = timestamp (ps ! b) \<and> GT32 (span (ps ! i)) (span (ps ! b))))
        then Some i else best) None js"
    show ?case
    proof (cases ?best)
      case None
      then show ?thesis using snoc by (auto simp: earliest_of_def)
    next
      case (Some b)
      then have b: "b \<in> set js" "starts_within ptr w (ps ! b)"
        "\<forall>j \<in> set js. starts_within ptr w (ps ! j) \<longrightarrow> offset_from ptr (ps ! b) \<le> offset_from ptr (ps ! j)"
        using snoc by (simp_all add: earliest_of_def)
      show ?thesis
      proof (cases "starts_within ptr w (ps ! i)")
        case True
        then have "offset_from ptr (ps ! i) < uint w" "offset_from ptr (ps ! b) < uint w"
          using b(2) starts_within_iff [OF w] by blast+
        note cmp = LT32_offsets [OF this w]
        show ?thesis using Some True b cmp by (fastforce simp: earliest_of_def)
      next
        case False
        then show ?thesis using Some b by (auto simp: earliest_of_def)
      qed
    qed
  qed (simp add: earliest_of_def)
  from this [of "[0..<SPEEX_JITTER_MAX_BUFFER_SIZE]"] show ?thesis
    unfolding earliest_slot_def atLeast_upt [symmetric] .
qed

text \<open>The four searches in their order.\<close>

definition wanted :: "u32 \<Rightarrow> u32 \<Rightarrow> jitter_packet \<Rightarrow> bool" where
  "wanted ptr w p \<longleftrightarrow> exact_match ptr w p \<or> older_full ptr w p \<or> older_part ptr p \<or> starts_within ptr w p"

definition best_of :: "u32 \<Rightarrow> u32 \<Rightarrow> jitter_packet list \<Rightarrow> jitter_packet \<Rightarrow> bool" where
  "best_of ptr w ps p \<longleftrightarrow>
     (if \<exists>q \<in> set ps. exact_match ptr w q then exact_match ptr w p
      else if \<exists>q \<in> set ps. older_full ptr w q then older_full ptr w p
      else if \<exists>q \<in> set ps. older_part ptr q then older_part ptr p
      else starts_within ptr w p \<and>
           (\<forall>q \<in> set ps. starts_within ptr w q \<longrightarrow> offset_from ptr p \<le> offset_from ptr q))"

lemma first_slot_full:
  assumes "length ps = n"
  shows "first_slot P ps \<noteq> n \<longleftrightarrow> (\<exists>q \<in> set ps. P q)"
    and "first_slot P ps \<noteq> n \<Longrightarrow> first_slot P ps < n \<and> P (ps ! first_slot P ps)"
  using assms first_slot_le [of P ps] first_slot_less [of P ps] first_slot_nth [of P ps] by auto

lemma best_slot_spec:
  assumes len: "length ps = SPEEX_JITTER_MAX_BUFFER_SIZE" and w: "uint w < 2147483648"
  shows "case best_slot ptr w ps of
      None \<Rightarrow> \<forall>q \<in> set ps. \<not> wanted ptr w q
    | Some i \<Rightarrow> i < SPEEX_JITTER_MAX_BUFFER_SIZE \<and> wanted ptr w (ps ! i) \<and> best_of ptr w ps (ps ! i)"
proof -
  note ff = first_slot_full [OF len]
  have idx: "(\<exists>q \<in> set ps. P q) \<longleftrightarrow> (\<exists>j < SPEEX_JITTER_MAX_BUFFER_SIZE. P (ps ! j))" for P
    using len by (metis in_set_conv_nth)
  note e = earliest_slot_spec [OF w, of ptr ps, unfolded earliest_of_def]
  consider (a) "\<exists>q \<in> set ps. exact_match ptr w q"
    | (b) "\<not> (\<exists>q \<in> set ps. exact_match ptr w q)" "\<exists>q \<in> set ps. older_full ptr w q"
    | (c) "\<not> (\<exists>q \<in> set ps. exact_match ptr w q)" "\<not> (\<exists>q \<in> set ps. older_full ptr w q)" "\<exists>q \<in> set ps. older_part ptr q"
    | (d) "\<not> (\<exists>q \<in> set ps. exact_match ptr w q)" "\<not> (\<exists>q \<in> set ps. older_full ptr w q)" "\<not> (\<exists>q \<in> set ps. older_part ptr q)"
    by blast
  then show ?thesis
  proof cases
    case a
    then show ?thesis using ff(2) [of "exact_match ptr w"] ff(1) [of "exact_match ptr w"]
      by (simp add: best_slot_def Let_def best_of_def wanted_def)
  next
    case b
    then show ?thesis using ff(2) [of "older_full ptr w"] ff(1) [of "older_full ptr w"] ff(1) [of "exact_match ptr w"]
      by (simp add: best_slot_def Let_def best_of_def wanted_def)
  next
    case c
    then show ?thesis using ff(2) [of "older_part ptr"] ff(1) [of "older_part ptr"] ff(1) [of "older_full ptr w"]
        ff(1) [of "exact_match ptr w"]
      by (simp add: best_slot_def Let_def best_of_def wanted_def)
  next
    case d
    then have eq: "best_slot ptr w ps = earliest_slot ptr w ps"
      using ff(1) [of "older_part ptr"] ff(1) [of "older_full ptr w"] ff(1) [of "exact_match ptr w"]
      by (simp add: best_slot_def Let_def)
    show ?thesis
    proof (cases "earliest_slot ptr w ps")
      case None
      then have "\<forall>j < SPEEX_JITTER_MAX_BUFFER_SIZE. \<not> starts_within ptr w (ps ! j)" using e by simp
      then have "\<forall>q \<in> set ps. \<not> starts_within ptr w q" using len by (metis in_set_conv_nth)
      then show ?thesis using None eq d by (simp add: wanted_def)
    next
      case (Some i)
      then have i: "i < SPEEX_JITTER_MAX_BUFFER_SIZE" "starts_within ptr w (ps ! i)"
        "\<forall>j < SPEEX_JITTER_MAX_BUFFER_SIZE. starts_within ptr w (ps ! j) \<longrightarrow> offset_from ptr (ps ! i) \<le> offset_from ptr (ps ! j)"
        using e by auto
      have "\<forall>q \<in> set ps. starts_within ptr w q \<longrightarrow> offset_from ptr (ps ! i) \<le> offset_from ptr q"
        using i(3) len by (metis in_set_conv_nth)
      then show ?thesis using Some eq d i by (simp add: wanted_def best_of_def)
    qed
  qed
qed

lemma wanted_has_data: "wanted ptr w p \<Longrightarrow> data p \<noteq> None"
  by (auto simp: wanted_def exact_match_def older_full_def older_part_def starts_within_def)

end
