(* ===== verification/Jitter_Contract.thy ===== *)
theory Jitter_Contract
  imports Jitter
begin

text \<open>
  What the Speex jitter buffer (\<open>jitter.c\<close>) promises its users: its state stays in order, its
  operations do not fail, \<open>jitter_buffer_get\<close> returns the packet that fits best, and every block it
  was given is accounted for.
\<close>

subsection \<open>Blocks\<close>

text \<open>The blocks of the slots, and all the blocks the buffer holds or has released.\<close>

definition block_of :: "jitter_packet \<Rightarrow> u8 list multiset" where
  "block_of p = (case data p of None \<Rightarrow> {#} | Some d \<Rightarrow> {#d#})"

definition held :: "jitter_buffer \<Rightarrow> u8 list multiset" where
  "held jb = (\<Sum>p \<leftarrow> packets jb. block_of p)"

definition account :: "jitter_buffer \<Rightarrow> u8 list multiset" where
  "account jb = held jb + mset (released jb)"

lemma block_of_simps [simp]:
  "data p = None \<Longrightarrow> block_of p = {#}" "data p = Some d \<Longrightarrow> block_of p = {#d#}" "block_of (p\<lparr>data := None\<rparr>) = {#}"
  by (simp_all add: block_of_def)

lemma held_updates [simp]:
  "held (jb\<lparr>pointer_timestamp := t\<rparr>) = held jb" "held (jb\<lparr>last_returned_timestamp := t\<rparr>) = held jb"
  "held (jb\<lparr>next_stop := t\<rparr>) = held jb" "held (jb\<lparr>buffered := x\<rparr>) = held jb" "held (jb\<lparr>released := r\<rparr>) = held jb"
  "held (jb\<lparr>reset_state := c\<rparr>) = held jb" "held (jb\<lparr>interp_requested := x\<rparr>) = held jb"
  "held (jb\<lparr>auto_tradeoff := x\<rparr>) = held jb" "held (jb\<lparr>lost_count := x\<rparr>) = held jb" "held (jb\<lparr>arrival := a\<rparr>) = held jb"
  "held (jb\<lparr>tbs := b\<rparr>) = held jb" "held (jb\<lparr>timeBuffers := o'\<rparr>) = held jb"
  by (simp_all add: held_def)

lemma sum_list_replace: "i < length xs \<Longrightarrow> sum_list (xs[i := v]) + xs ! i = sum_list xs + (v :: 'a :: comm_monoid_add)"
proof (induction xs arbitrary: i)
  case (Cons x xs)
  show ?case
  proof (cases i)
    case (Suc j)
    then have "sum_list (xs[j := v]) + xs ! j = sum_list xs + v" using Cons by simp
    then show ?thesis using Suc by (simp add: ac_simps)
  qed (simp add: ac_simps)
qed simp

lemma held_update:
  assumes "i < length (packets jb)"
  shows "held (jb\<lparr>packets := (packets jb)[i := p]\<rparr>) + block_of (packets jb ! i) = held jb + block_of p"
  using sum_list_replace [of i "map block_of (packets jb)" "block_of p"] assms
  by (simp add: held_def map_update)

lemma held_empties:
  "i < length (packets jb) \<Longrightarrow> data (packets jb ! i) = Some d \<Longrightarrow>
     held jb = held (jb\<lparr>packets := (packets jb)[i := (packets jb ! i)\<lparr>data := None\<rparr>]\<rparr>) + {#d#}"
  using held_update [of i jb "(packets jb ! i)\<lparr>data := None\<rparr>"] by simp

lemma account_release_packets: "account (release_packets P jb) = account jb"
proof -
  have "(\<Sum>p \<leftarrow> map (\<lambda>p. if data p \<noteq> None \<and> P p then p\<lparr>data := None\<rparr> else p) ps. block_of p) +
      mset (map (\<lambda>p. the (data p)) (filter (\<lambda>p. data p \<noteq> None \<and> P p) ps)) = (\<Sum>p \<leftarrow> ps. block_of p)" for ps
    by (induction ps) (auto simp: ac_simps)
  from this [of "packets jb"] show ?thesis
    by (simp add: account_def held_def release_packets_def ac_simps)
qed

lemma held_release_all: "held (release_packets (\<lambda>p. True) jb) = {#}"
proof -
  have "(\<Sum>p \<leftarrow> map (\<lambda>p. if data p \<noteq> None then p\<lparr>data := None\<rparr> else p) ps. block_of p) = {#}" for ps
    by (induction ps) auto
  from this [of "packets jb"] show ?thesis by (simp add: held_def release_packets_def)
qed

lemma account_reset: "account (jitter_buffer_reset jb) = account jb" "held (jitter_buffer_reset jb) = {#}"
  using account_release_packets [of "\<lambda>p. True" jb] held_release_all [of jb]
  by (simp_all add: jitter_buffer_reset_def account_def)

lemma account_cleanup: "account (cleanup jb) = account jb"
  by (simp add: cleanup_def account_release_packets)

text \<open>An update of the timings leaves everything else alone.\<close>

lemma maybe_update_frame:
  assumes "(if c then update_timings jb t else Some jb) = Some jb'"
  shows "\<exists>ord bufs. jb' = jb\<lparr>timeBuffers := ord, tbs := bufs\<rparr>"
proof (cases c)
  case True
  then show ?thesis using assms by (auto simp: update_timings_def Let_def split: Option.bind_splits)
next
  case False
  then have "jb' = jb\<lparr>timeBuffers := timeBuffers jb, tbs := tbs jb\<rparr>" using assms by simp
  then show ?thesis by blast
qed

lemma account_free_slot:
  assumes "length (packets jb) = SPEEX_JITTER_MAX_BUFFER_SIZE" and "free_slot jb = (i, jb')"
  shows "account jb' = account jb"
proof (cases "first_slot (\<lambda>p. data p = None) (packets jb) = SPEEX_JITTER_MAX_BUFFER_SIZE")
  case True
  define i0 where "i0 = oldest_slot (packets jb)"
  have jb': "jb' = jb\<lparr>packets := (packets jb)[i0 := (packets jb ! i0)\<lparr>data := None\<rparr>],
                released := released jb @ (case data (packets jb ! i0) of Some d \<Rightarrow> [d] | None \<Rightarrow> [])\<rparr>"
    using assms(2) True unfolding i0_def free_slot_def Let_def by auto
  have "i0 < length (packets jb)" using oldest_slot_less assms(1) by (simp add: i0_def)
  then have "held (jb\<lparr>packets := (packets jb)[i0 := (packets jb ! i0)\<lparr>data := None\<rparr>]\<rparr>) + block_of (packets jb ! i0) = held jb"
    by (simp add: held_update)
  then show ?thesis unfolding jb' by (auto simp: account_def ac_simps split: option.splits)
qed (use assms in \<open>auto simp: free_slot_def Let_def\<close>)


lemma account_insert_packet:
  assumes len: "length (packets jb) = SPEEX_JITTER_MAX_BUFFER_SIZE" and ins: "insert_packet jb p late = Some jb'"
  shows "account jb' = account jb + (if destroy jb then block_of p else
     {#(case data p of None \<Rightarrow> [] | Some d \<Rightarrow> take (unat (len p)) d)#})"
proof -
  obtain i jb1 where f: "free_slot jb = (i, jb1)" by fastforce
  note fs = free_slot_ok [OF len f]
  have e: "data (packets jb1 ! i) = None" "i < length (packets jb1)" using fs by simp_all
  obtain ps r where jb1: "jb1 = jb\<lparr>packets := ps, released := r\<rparr>" using fs by blast
  have put: "account (jb1\<lparr>packets := (packets jb1)[i := q], arrival := a\<rparr>) = account jb + block_of q" for q a
    using held_update [OF e(2), of q] e(1) account_free_slot [OF len f]
    by (simp add: account_def ac_simps)
  have d: "destroy jb1 = destroy jb" by (simp add: jb1)
  show ?thesis
  proof (cases "destroy jb")
    case True
    then show ?thesis using ins f d put by (cases "data p") (auto simp: insert_packet_def)
  next
    case False
    then show ?thesis using ins f d put
      by (cases "data p") (auto simp: insert_packet_def mem_read_def require_def split: if_splits)
  qed
qed

text \<open>What the buffer takes in for a packet: its block, or a copy of its \<open>len\<close> bytes.\<close>

definition taken_in :: "bool \<Rightarrow> jitter_packet \<Rightarrow> u8 list multiset" where
  "taken_in owns p = (if owns then block_of p
     else {#(case data p of None \<Rightarrow> [] | Some d \<Rightarrow> take (unat (len p)) d)#})"

lemma jitter_buffer_put_account:
  assumes inv: "jb_inv jb" and put: "jitter_buffer_put jb p = Some jb'"
  shows "account jb' = account jb +
     (if lost_count jb > 20 \<or> useful jb p then taken_in (destroy jb) p else {#})"
proof -
  obtain jb1 where u: "(if is_late (cleanup jb) p
      then update_timings (cleanup jb) (i32 (sint (timestamp p) - sint (next_stop (cleanup jb)) - buffer_margin (cleanup jb)))
      else Some (cleanup jb)) = Some jb1"
    and ins: "(let jb2 = (if lost_count jb1 > 20 then jitter_buffer_reset jb1 else jb1)
          in if useful jb2 p then insert_packet jb2 p (is_late (cleanup jb) p) else Some jb2) = Some jb'"
    using jitter_buffer_put_split [OF put] .
  obtain ord bufs where jb1: "jb1 = cleanup jb\<lparr>timeBuffers := ord, tbs := bufs\<rparr>" using maybe_update_frame [OF u] by blast
  have a1: "account jb1 = account jb" using account_cleanup [of jb] by (simp add: jb1 account_def)
  have f: "lost_count jb1 = lost_count jb" "useful jb1 p = useful jb p" "destroy jb1 = destroy jb"
    "length (packets jb1) = SPEEX_JITTER_MAX_BUFFER_SIZE"
    using inv by (simp_all add: jb1 cleanup_def useful_def jb_inv_def)
  define jb2 where "jb2 = (if lost_count jb1 > 20 then jitter_buffer_reset jb1 else jb1)"
  have a2: "account jb2 = account jb" using a1 account_reset(1) [of jb1] by (simp add: jb2_def)
  have g: "useful jb2 p \<longleftrightarrow> lost_count jb > 20 \<or> useful jb p" "destroy jb2 = destroy jb"
    "length (packets jb2) = SPEEX_JITTER_MAX_BUFFER_SIZE"
    using f by (simp_all add: jb2_def jitter_buffer_reset_def) (simp_all add: useful_def)
  have "(if useful jb2 p then insert_packet jb2 p (is_late (cleanup jb) p) else Some jb2) = Some jb'"
    using ins unfolding jb2_def Let_def .
  then show ?thesis using account_insert_packet [OF g(3)] g a2 by (auto simp: taken_in_def split: if_splits)
qed

text \<open>A packet is handed over from its slot: the block itself, or a copy while it is freed.\<close>

lemma take_packet_account:
  assumes inv: "jb_inv jb" and i: "i < SPEEX_JITTER_MAX_BUFFER_SIZE"
    and t: "take_packet jb packet i ds w = Some (packet', off, jb')"
  shows "\<exists>stored. data (packets jb ! i) = Some stored \<and>
     packets jb' = (packets jb)[i := (packets jb ! i)\<lparr>data := None\<rparr>] \<and>
     (if destroy jb then data packet' = Some stored \<and> account jb = account jb' + {#stored#}
      else account jb = account jb')"
proof -
  let ?jb = "jb\<lparr>lost_count := 0\<rparr>"
  obtain jb1 where u: "(if arrival ?jb ! i \<noteq> 0
                  then update_timings ?jb
                    (i32 (sint (timestamp (packets ?jb ! i)) - sint (arrival ?jb ! i) - buffer_margin ?jb))
                  else Some ?jb) = Some jb1"
    using maybe_update [of ?jb] inv by (metis jb_inv_updates(14))
  obtain ord bufs where jb1: "jb1 = jb\<lparr>lost_count := 0, timeBuffers := ord, tbs := bufs\<rparr>" using maybe_update_frame [OF u] by auto
  then obtain stored where s: "data (packets jb ! i) = Some stored"
    using t u by (auto simp: take_packet_def Let_def split: Option.bind_splits)
  have il: "i < length (packets jb)" using i inv by (simp add: jb_inv_def)
  note h = held_empties [OF il s]
  show ?thesis
    using t u s h by (auto simp: jb1 take_packet_def Let_def account_def held_def ac_simps split: Option.bind_splits prod.splits if_splits)
qed

subsection \<open>The ways a get can end\<close>

lemma missing_packet_frame:
  assumes "missing_packet jb packet ds = Some (r, packet', jb')"
  shows "packets jb' = packets jb \<and> released jb' = released jb \<and> r \<noteq> JITTER_BUFFER_OK"
proof -
  obtain opt jb1 where c: "compute_opt_delay (jb\<lparr>lost_count := i32 (lost_count jb + 1)\<rparr>) = Some (opt, jb1)"
    using assms by (auto simp: missing_packet_def split: Option.bind_splits)
  then have "packets jb1 = packets jb" "released jb1 = released jb"
    by (auto simp: compute_opt_delay_def split: Option.bind_splits)
  then show ?thesis using assms c
    by (auto simp: missing_packet_def Let_def shift_timings_def split: Option.bind_splits if_splits)
qed

text \<open>The buffer after the synchronisation of the first call.\<close>

definition synced :: "jitter_buffer \<Rightarrow> u32 \<Rightarrow> jitter_buffer" where
  "synced jb t = (if reset_state jb then jb\<lparr>reset_state := False, pointer_timestamp := t, next_stop := t\<rparr> else jb)
     \<lparr>last_returned_timestamp := t\<rparr>"

definition start_time :: "jitter_buffer \<Rightarrow> u32 option" where
  "start_time jb = (if reset_state jb then oldest_packet (packets jb) else Some (pointer_timestamp jb))"

lemma synced_fields [simp]:
  "packets (synced jb t) = packets jb" "released (synced jb t) = released jb" "destroy (synced jb t) = destroy jb"
  "interp_requested (synced jb t) = interp_requested jb" "jb_inv (synced jb t) = jb_inv jb"
  "held (synced jb t) = held jb" "account (synced jb t) = account jb" "tbs (synced jb t) = tbs jb"
  "delay_step (synced jb t) = delay_step jb" "concealment_size (synced jb t) = concealment_size jb"
  "latency_tradeoff (synced jb t) = latency_tradeoff jb" "auto_tradeoff (synced jb t) = auto_tradeoff jb"
  by (simp_all add: synced_def account_def)

lemma synced_pointer: "start_time jb = Some t \<Longrightarrow> pointer_timestamp (synced jb t) = t"
  by (auto simp: synced_def start_time_def split: if_splits)

lemma jitter_buffer_get_eq:
  "jitter_buffer_get jb packet ds w =
     (case start_time jb of
        None \<Rightarrow> Some (JITTER_BUFFER_MISSING, packet\<lparr>timestamp := 0, span := word_of_int (interp_requested jb)\<rparr>, 0, jb)
      | Some t \<Rightarrow>
         if interp_requested jb \<noteq> 0 then
           (let packet = packet\<lparr>timestamp := t, span := word_of_int (interp_requested jb), len := 0\<rparr>
            in Some (JITTER_BUFFER_INSERTION, packet, 0,
                 (synced jb t)\<lparr>pointer_timestamp := t + word_of_int (interp_requested jb), interp_requested := 0,
                    buffered := sint (span packet - word_of_int ds)\<rparr>))
         else (case best_slot t (word_of_int ds) (packets jb) of
                 Some i \<Rightarrow> do { (packet, offset, jb) \<leftarrow> take_packet (synced jb t) packet i ds w;
                                 Some (JITTER_BUFFER_OK, packet, offset, jb) }
               | None \<Rightarrow> do { (r, packet, jb) \<leftarrow> missing_packet (synced jb t) packet ds;
                              Some (r, packet, 0, jb) }))"
proof (cases "start_time jb")
  case None
  then show ?thesis by (simp add: jitter_buffer_get_def start_time_def [symmetric])
next
  case (Some t)
  then show ?thesis
    by (cases "reset_state jb"; cases "best_slot t (word_of_int ds) (packets jb)")
      (simp_all add: jitter_buffer_get_def start_time_def synced_def Let_def)
qed

lemma jitter_buffer_get_cases:
  assumes "jitter_buffer_get jb packet ds w = Some (r, packet', off, jb')"
  obtains (empty) "start_time jb = None" "r = JITTER_BUFFER_MISSING" "jb' = jb"
  | (interpolate) t where "start_time jb = Some t" "interp_requested jb \<noteq> 0" "r = JITTER_BUFFER_INSERTION"
      "packets jb' = packets jb" "released jb' = released jb"
  | (found) t i where "start_time jb = Some t" "interp_requested jb = 0" "r = JITTER_BUFFER_OK"
      "best_slot t (word_of_int ds) (packets jb) = Some i"
      "take_packet (synced jb t) packet i ds w = Some (packet', off, jb')"
  | (missing) t where "start_time jb = Some t" "interp_requested jb = 0" "r \<noteq> JITTER_BUFFER_OK"
      "best_slot t (word_of_int ds) (packets jb) = None" "packets jb' = packets jb" "released jb' = released jb"
proof (cases "start_time jb")
  case None
  then have "r = JITTER_BUFFER_MISSING" "jb' = jb" using assms unfolding jitter_buffer_get_eq by simp_all
  then show ?thesis by (rule empty [OF None])
next
  case (Some t)
  note get = assms [unfolded jitter_buffer_get_eq Some option.case]
  show ?thesis
  proof (cases "interp_requested jb = 0")
    case False
    then have "r = JITTER_BUFFER_INSERTION" "packets jb' = packets jb" "released jb' = released jb"
      using get by (auto simp: Let_def)
    then show ?thesis by (rule interpolate [OF Some False])
  next
    case True
    show ?thesis
    proof (cases "best_slot t (word_of_int ds) (packets jb)")
      case None
      then have "missing_packet (synced jb t) packet ds = Some (r, packet', jb')"
        using get True by (auto split: Option.bind_splits)
      note m = missing_packet_frame [OF this]
      then show ?thesis using missing [OF Some True _ None] by simp
    next
      case i: (Some i)
      then have "r = JITTER_BUFFER_OK" "take_packet (synced jb t) packet i ds w = Some (packet', off, jb')"
        using get True by (auto split: Option.bind_splits)
      then show ?thesis by (rule found [OF Some True _ i])
    qed
  qed
qed

lemma best_slot_less:
  assumes "length ps = SPEEX_JITTER_MAX_BUFFER_SIZE" and "best_slot ptr w ps = Some i"
  shows "i < SPEEX_JITTER_MAX_BUFFER_SIZE"
proof -
  have e: "earliest_slot ptr w ps = Some i \<Longrightarrow> i < SPEEX_JITTER_MAX_BUFFER_SIZE"
  proof -
    have "foldl (\<lambda>best i.
        if starts_within ptr w (ps ! i) \<and>
           (case best of None \<Rightarrow> True
            | Some b \<Rightarrow> LT32 (timestamp (ps ! i)) (timestamp (ps ! b)) \<or>
                        (timestamp (ps ! i) = timestamp (ps ! b) \<and> GT32 (span (ps ! i)) (span (ps ! b))))
        then Some i else best) None js = Some k \<Longrightarrow> k \<in> set js" for js k
      by (induction js arbitrary: k rule: rev_induct) (auto split: if_splits)
    from this [of "[0..<SPEEX_JITTER_MAX_BUFFER_SIZE]" i]
    show "earliest_slot ptr w ps = Some i \<Longrightarrow> i < SPEEX_JITTER_MAX_BUFFER_SIZE" by (simp add: earliest_slot_def)
  qed
  have f: "first_slot P ps \<noteq> SPEEX_JITTER_MAX_BUFFER_SIZE \<Longrightarrow> first_slot P ps < SPEEX_JITTER_MAX_BUFFER_SIZE" for P
    using first_slot_le [of P ps] assms(1) by simp
  show ?thesis using assms(2) e f by (auto simp: best_slot_def Let_def split: if_splits)
qed

lemma jitter_buffer_get_account:
  assumes inv: "jb_inv jb" and get: "jitter_buffer_get jb packet ds w = Some (r, packet', off, jb')"
  shows "if r = JITTER_BUFFER_OK \<and> destroy jb then account jb = account jb' + block_of packet' \<and> data packet' \<noteq> None
    else account jb = account jb'"
  using get
proof (cases rule: jitter_buffer_get_cases)
  case (found t i)
  have "i < SPEEX_JITTER_MAX_BUFFER_SIZE" using best_slot_less [OF _ found(4)] inv by (simp add: jb_inv_def)
  then show ?thesis using take_packet_account [OF _ _ found(5)] found(3) inv by auto
qed (simp_all add: account_def held_def)

lemma jitter_buffer_get_another_account:
  assumes inv: "jb_inv jb" and get: "jitter_buffer_get_another jb packet = Some (r, packet', jb')"
  shows "if r = JITTER_BUFFER_OK \<and> destroy jb then account jb = account jb' + block_of packet' \<and> data packet' \<noteq> None
    else account jb = account jb'"
proof (cases "first_slot (\<lambda>p. data p \<noteq> None \<and> timestamp p = last_returned_timestamp jb) (packets jb)
    = SPEEX_JITTER_MAX_BUFFER_SIZE")
  case True
  then show ?thesis using get by (auto simp: jitter_buffer_get_another_def)
next
  case False
  define i where "i = first_slot (\<lambda>p. data p \<noteq> None \<and> timestamp p = last_returned_timestamp jb) (packets jb)"
  have i: "i < length (packets jb)"
    using False first_slot_le [of "\<lambda>p. data p \<noteq> None \<and> timestamp p = last_returned_timestamp jb" "packets jb"] inv
    by (simp add: i_def jb_inv_def)
  have "data (packets jb ! i) \<noteq> None" using first_slot_nth i unfolding i_def by blast
  then obtain stored where s: "data (packets jb ! i) = Some stored" by blast
  note h = held_empties [OF i s]
  show ?thesis using get False s h unfolding jitter_buffer_get_another_def i_def [symmetric]
    by (auto simp: Let_def account_def held_def ac_simps split: Option.bind_splits prod.splits if_splits)
qed

subsection \<open>The operations return\<close>

text \<open>Parameters and timings that are not extreme.\<close>

definition jb_bounded :: "jitter_buffer \<Rightarrow> bool" where
  "jb_bounded jb \<longleftrightarrow> 0 < delay_step jb \<and> delay_step jb \<le> 2 ^ 19 \<and> 0 < concealment_size jb \<and>
     \<bar>latency_tradeoff jb\<bar> \<le> 100000 \<and> \<bar>auto_tradeoff jb\<bar> \<le> 32000 \<and>
     (\<forall>b \<in> set (tbs jb). \<forall>t \<in> set (timings b). \<bar>t\<bar> \<le> 2 ^ 19)"

text \<open>A packet's block, where it has one, has at least \<open>len\<close> bytes.\<close>

definition readable :: "jitter_packet \<Rightarrow> bool" where
  "readable p \<longleftrightarrow> (case data p of None \<Rightarrow> True | Some d \<Rightarrow> unat (len p) \<le> length d)"

lemma compute_opt_delay_ok:
  assumes inv: "jb_inv jb" and b: "jb_bounded jb"
  obtains opt a where "compute_opt_delay jb = Some (opt, jb\<lparr>auto_tradeoff := a\<rparr>)" and "is_i16 opt" and "\<bar>a\<bar> \<le> 32000"
proof -
  have "bufs_ok (tbs jb)" using inv b by (fastforce simp: bufs_ok_def jb_inv_def jb_bounded_def tb_ok_def)
  then obtain opt a where "opt_delay (tbs jb) (delay_step jb) (latency_tradeoff jb) (auto_tradeoff jb) (window_size jb)
      = Some (opt, a)" "is_i16 opt" "\<bar>a\<bar> \<le> 32000"
    using opt_delay_total [of "tbs jb" "delay_step jb" "auto_tradeoff jb" "window_size jb" "latency_tradeoff jb"] inv b
    by (auto simp: jb_inv_def jb_bounded_def)
  then show ?thesis by (intro that) (simp_all add: compute_opt_delay_def)
qed

lemma auto_update_total: "jb_inv jb \<Longrightarrow> jb_bounded jb \<Longrightarrow> \<exists>jb'. auto_update jb = Some jb'"
  by (rule compute_opt_delay_ok [of jb]) (auto simp: auto_update_def update_delay_def Let_def)

lemma missing_packet_total:
  assumes inv: "jb_inv jb" and b: "jb_bounded jb"
  shows "\<exists>x. missing_packet jb packet ds = Some x"
proof -
  let ?jb = "jb\<lparr>lost_count := i32 (lost_count jb + 1)\<rparr>"
  have "jb_inv ?jb" "jb_bounded ?jb" using inv b by (simp_all add: jb_bounded_def)
  then obtain opt a where "compute_opt_delay ?jb = Some (opt, ?jb\<lparr>auto_tradeoff := a\<rparr>)" by (rule compute_opt_delay_ok)
  moreover have "0 < concealment_size jb" using b by (simp add: jb_bounded_def)
  ultimately show ?thesis by (simp add: missing_packet_def Let_def ROUND_DOWN_def)
qed

text \<open>The caller's block is as large as it says.\<close>

lemma copy_out_total:
  assumes "n \<le> length src" and "n \<le> unat (len packet)" and "readable packet" and "data packet \<noteq> None"
  shows "\<exists>p. copy_out src packet n = Some p"
  using assms by (auto simp: copy_out_def readable_def mem_simps)

lemma take_packet_total:
  assumes inv: "jb_inv jb" and s: "data (packets jb ! i) \<noteq> None" and r: "readable (packets jb ! i)"
    and p: "destroy jb \<or> (readable packet \<and> data packet \<noteq> None)"
  shows "\<exists>x. take_packet jb packet i ds w = Some x"
proof -
  let ?jb = "jb\<lparr>lost_count := 0\<rparr>" and ?p = "packets jb ! i"
  have "jb_inv ?jb" using inv by simp
  then obtain jb1 where u: "(if arrival ?jb ! i \<noteq> 0
                  then update_timings ?jb
                    (i32 (sint (timestamp (packets ?jb ! i)) - sint (arrival ?jb ! i) - buffer_margin ?jb))
                  else Some ?jb) = Some jb1" using maybe_update by blast
  obtain ord bufs where jb1: "jb1 = jb\<lparr>lost_count := 0, timeBuffers := ord, tbs := bufs\<rparr>" using maybe_update_frame [OF u] by auto
  obtain stored where st: "data ?p = Some stored" using s by blast
  show ?thesis
  proof (cases "destroy jb")
    case True
    then show ?thesis using u st by (simp add: take_packet_def Let_def jb1)
  next
    case False
    let ?packet = "if len ?p > len packet then packet else packet\<lparr>len := len ?p\<rparr>"
    have d: "unat (len ?p) \<le> length stored" using r st by (simp add: readable_def)
    have "unat (len ?packet) \<le> length stored" using d by (auto simp: word_less_nat_alt)
    moreover have "readable ?packet" "data ?packet \<noteq> None"
      using p False by (auto simp: readable_def word_less_nat_alt split: option.splits)
    ultimately obtain q where q: "copy_out stored ?packet (unat (len ?packet)) = Some q"
      using copy_out_total [of "unat (len ?packet)" stored ?packet] by blast
    show ?thesis
      using u st False q by (cases "len ?p > len packet") (simp_all add: take_packet_def Let_def jb1)
  qed
qed

lemma jitter_buffer_get_total:
  assumes inv: "jb_inv jb" and b: "jb_bounded jb" and r: "\<forall>p \<in> set (packets jb). readable p"
    and p: "destroy jb \<or> (readable packet \<and> data packet \<noteq> None)" and ds: "uint (word_of_int ds :: u32) < 2147483648"
  shows "\<exists>x. jitter_buffer_get jb packet ds w = Some x"
proof (cases "start_time jb")
  case None
  then show ?thesis unfolding jitter_buffer_get_eq by simp
next
  case (Some t)
  have len: "length (packets jb) = SPEEX_JITTER_MAX_BUFFER_SIZE" using inv by (simp add: jb_inv_def)
  have i2: "jb_inv (synced jb t)" "jb_bounded (synced jb t)" using inv b by (simp_all add: jb_bounded_def)
  obtain x where m: "missing_packet (synced jb t) packet ds = Some x" using missing_packet_total [OF i2] by blast
  show ?thesis
  proof (cases "best_slot t (word_of_int ds) (packets jb)")
    case None
    then show ?thesis using Some m unfolding jitter_buffer_get_eq by (cases x) (simp add: Let_def)
  next
    case i: (Some i)
    have "i < SPEEX_JITTER_MAX_BUFFER_SIZE" "wanted t (word_of_int ds) (packets jb ! i)"
      using best_slot_spec [OF len ds, of t] i by simp_all
    then have "data (packets jb ! i) \<noteq> None" "readable (packets jb ! i)" using wanted_has_data r len by auto
    then obtain y where y: "take_packet (synced jb t) packet i ds w = Some y"
      using take_packet_total [OF i2(1), of i packet ds w] p by auto
    then show ?thesis using Some i unfolding jitter_buffer_get_eq by (cases y) (simp add: Let_def)
  qed
qed

lemma insert_packet_total:
  assumes "readable p" and "data p \<noteq> None"
  shows "\<exists>x. insert_packet jb p late = Some x"
  using assms by (auto simp: insert_packet_def readable_def mem_simps split: prod.splits)

lemma jitter_buffer_put_total:
  assumes inv: "jb_inv jb" and p: "readable p" "data p \<noteq> None"
  shows "\<exists>x. jitter_buffer_put jb p = Some x"
proof -
  obtain jb1 where u: "(if is_late (cleanup jb) p
      then update_timings (cleanup jb) (i32 (sint (timestamp p) - sint (next_stop (cleanup jb)) - buffer_margin (cleanup jb)))
      else Some (cleanup jb)) = Some jb1" using maybe_update [OF cleanup_inv [OF inv]] by blast
  show ?thesis using insert_packet_total [OF p] unfolding jitter_buffer_put_def Let_def u by simp
qed

lemma readable_empty [simp]: "readable (p\<lparr>data := None\<rparr>)"
  by (simp add: readable_def)

lemma release_packets_readable:
  "\<forall>q \<in> set (packets jb). readable q \<Longrightarrow> \<forall>q \<in> set (packets (release_packets P jb)). readable q"
  by (auto simp: release_packets_def)

lemma insert_packet_readable:
  assumes all: "\<forall>q \<in> set (packets jb). readable q" and p: "readable p" and ins: "insert_packet jb p late = Some jb'"
  shows "\<forall>q \<in> set (packets jb'). readable q"
proof -
  obtain i jb1 where f: "free_slot jb = (i, jb1)" by fastforce
  have free: "\<forall>q \<in> set (packets jb1). readable q"
    using f all ball_list_update [OF all readable_empty, of "oldest_slot (packets jb)"]
    by (auto simp: free_slot_def Let_def simp del: ball_simps split: if_splits)
  have upd: "\<forall>q \<in> set ((packets jb1)[i := p']). readable q" if "readable p'" for p'
    using ball_list_update [OF free that] .
  show ?thesis
  proof (cases "destroy jb1")
    case True
    then show ?thesis using ins f upd [OF p] by (auto simp: insert_packet_def)
  next
    case False
    then obtain c where "jb' = jb1\<lparr>packets := (packets jb1)[i := p\<lparr>data := Some c\<rparr>],
        arrival := (arrival jb1)[i := (if reset_state jb1 \<or> late then 0 else next_stop jb1)]\<rparr>" "length c = unat (len p)"
      using ins f p by (auto simp: insert_packet_def readable_def mem_read_def split: Option.bind_splits option.splits if_splits)
    then show ?thesis using upd [of "p\<lparr>data := Some c\<rparr>"] by (simp add: readable_def)
  qed
qed

lemma jitter_buffer_put_readable:
  assumes all: "\<forall>q \<in> set (packets jb). readable q" and p: "readable p" and put: "jitter_buffer_put jb p = Some jb'"
  shows "\<forall>q \<in> set (packets jb'). readable q"
proof -
  obtain jb1 where u: "(if is_late (cleanup jb) p
      then update_timings (cleanup jb) (i32 (sint (timestamp p) - sint (next_stop (cleanup jb)) - buffer_margin (cleanup jb)))
      else Some (cleanup jb)) = Some jb1"
    and ins: "(let jb2 = (if lost_count jb1 > 20 then jitter_buffer_reset jb1 else jb1)
          in if useful jb2 p then insert_packet jb2 p (is_late (cleanup jb) p) else Some jb2) = Some jb'"
    using jitter_buffer_put_split [OF put] .
  obtain ord bufs where "jb1 = cleanup jb\<lparr>timeBuffers := ord, tbs := bufs\<rparr>" using maybe_update_frame [OF u] by blast
  then have r1: "\<forall>q \<in> set (packets jb1). readable q"
    using release_packets_readable [OF all] all by (simp add: cleanup_def)
  define jb2 where "jb2 = (if lost_count jb1 > 20 then jitter_buffer_reset jb1 else jb1)"
  have r2: "\<forall>q \<in> set (packets jb2). readable q"
    using release_packets_readable [OF r1] r1 by (simp add: jb2_def jitter_buffer_reset_def)
  have "(if useful jb2 p then insert_packet jb2 p (is_late (cleanup jb) p) else Some jb2) = Some jb'"
    using ins unfolding jb2_def Let_def .
  then show ?thesis using insert_packet_readable [OF r2 p] r2 by (auto split: if_splits)
qed

subsection \<open>What is handed over\<close>

lemma take_packet_result:
  assumes inv: "jb_inv jb" and t: "take_packet jb packet i ds w = Some (packet', off, jb')"
  shows "timestamp packet' = timestamp (packets jb ! i) \<and> span packet' = span (packets jb ! i) \<and>
     seqno packet' = seqno (packets jb ! i) \<and> user_data packet' = user_data (packets jb ! i) \<and>
     pointer_timestamp jb' = timestamp (packets jb ! i) + span (packets jb ! i)"
proof -
  let ?jb = "jb\<lparr>lost_count := 0\<rparr>"
  have "jb_inv ?jb" using inv by simp
  then obtain jb1 where u: "(if arrival ?jb ! i \<noteq> 0
                  then update_timings ?jb
                    (i32 (sint (timestamp (packets ?jb ! i)) - sint (arrival ?jb ! i) - buffer_margin ?jb))
                  else Some ?jb) = Some jb1" using maybe_update by blast
  obtain ord bufs where jb1: "jb1 = jb\<lparr>lost_count := 0, timeBuffers := ord, tbs := bufs\<rparr>" using maybe_update_frame [OF u] by auto
  show ?thesis
    using t u by (auto simp: jb1 take_packet_def Let_def split: Option.bind_splits prod.splits if_splits)
qed

text \<open>A new buffer.\<close>

lemma new_buffer:
  obtains jb where "jitter_buffer_init 20 = Some jb" and "jb_inv jb" and "jb_bounded jb" and "destroy jb = False"
    and "packets jb = replicate SPEEX_JITTER_MAX_BUFFER_SIZE null_packet" and "reset_state jb"
    and "interp_requested jb = 0" and "pointer_timestamp jb = 0" and "lost_count jb = 0" and "last_returned_timestamp jb = 0"
proof -
  obtain jb where i: "jitter_buffer_init 20 = Some jb"
    by (simp add: jitter_buffer_init_def set_max_late_rate_def TOP_DELAY_def MAX_BUFFERS_def)
  then have jb: "jb = jitter_buffer_reset (cleared_jitter_buffer\<lparr>delay_step := 20, concealment_size := 20, buffer_margin := 0,
               late_cutoff := 50, destroy := False, latency_tradeoff := 0, auto_adjust := True, max_late_rate := 4,
               window_size := 1000, subwindow_size := 333\<rparr>)"
    by (simp add: jitter_buffer_init_def set_max_late_rate_def TOP_DELAY_def MAX_BUFFERS_def)
  have "jb_bounded jb"
    unfolding jb_bounded_def by (simp add: jb jitter_buffer_reset_def cleared_jitter_buffer_def tb_init_def timings_def
        release_packets_def)
  moreover have "packets jb = replicate SPEEX_JITTER_MAX_BUFFER_SIZE null_packet"
    by (simp add: jb jitter_buffer_reset_def cleared_jitter_buffer_def release_packets_def null_packet_def)
  ultimately show ?thesis using jitter_buffer_init_inv [OF i]
    by (intro that [OF i]) (simp_all add: jb jitter_buffer_reset_def cleared_jitter_buffer_def release_packets_def)
qed

text \<open>A packet, and the new buffer that holds it alone.\<close>

definition sample_packet :: jitter_packet where
  "sample_packet = \<lparr>data = Some [1, 2, 3], len = 3, timestamp = 0, span = 20, seqno = 1, user_data = 0\<rparr>"

lemma buffer_of_one:
  fixes owns :: bool
  obtains jb where "jb_inv jb" and "jb_bounded jb" and "destroy jb = owns" and "\<not> reset_state jb"
    and "interp_requested jb = 0" and "pointer_timestamp jb = 0" and "last_returned_timestamp jb = 0" and "lost_count jb = 0"
    and "packets jb = (replicate SPEEX_JITTER_MAX_BUFFER_SIZE null_packet)[0 := sample_packet]"
    and "\<forall>p \<in> set (packets jb). readable p"
proof -
  obtain jb where jb: "jitter_buffer_init 20 = Some jb" "jb_inv jb" "jb_bounded jb" "destroy jb = False"
    "packets jb = replicate SPEEX_JITTER_MAX_BUFFER_SIZE null_packet" "reset_state jb"
    "interp_requested jb = 0" "pointer_timestamp jb = 0" "lost_count jb = 0" "last_returned_timestamp jb = 0" by (rule new_buffer)
  let ?jb = "jb\<lparr>reset_state := False, destroy := owns, packets := (packets jb)[0 := sample_packet]\<rparr>"
  have "jb_inv ?jb" using jb(2) by (simp add: jb_inv_def)
  moreover have "jb_bounded ?jb" using jb(3) by (simp add: jb_bounded_def)
  moreover have "\<forall>p \<in> set (packets ?jb). readable p"
    using set_update_subset_insert [of "packets jb" 0 sample_packet] jb(5)
    by (auto simp: readable_def null_packet_def sample_packet_def)
  ultimately show ?thesis using jb by (intro that [of ?jb]) simp_all
qed

subsection \<open>How well a packet fits\<close>

text \<open>Where a packet starts and ends, seen from a point of time.\<close>

definition starts_at :: "u32 \<Rightarrow> jitter_packet \<Rightarrow> int" where
  "starts_at ptr p = sint (timestamp p - ptr)"

definition ends_at :: "u32 \<Rightarrow> jitter_packet \<Rightarrow> int" where
  "ends_at ptr p = sint (timestamp p + span p - ptr)"

text \<open>
  The rank of a packet for the \<open>ds\<close> units of time from \<open>ptr\<close>: 0 when it starts on time and reaches the end,
  1 when it started before and reaches the end, 2 when it started before and has not ended, 3 when it
  starts within, and 4 when it is of no use.
\<close>

definition rank :: "u32 \<Rightarrow> int \<Rightarrow> jitter_packet \<Rightarrow> nat" where
  "rank ptr ds p =
     (if data p = None then 4
      else if starts_at ptr p = 0 \<and> ends_at (ptr + word_of_int ds) p \<ge> 0 then 0
      else if starts_at ptr p \<le> 0 \<and> ends_at (ptr + word_of_int ds) p \<ge> 0 then 1
      else if starts_at ptr p \<le> 0 \<and> ends_at ptr p > 0 then 2
      else if 0 \<le> starts_at ptr p \<and> starts_at ptr p < ds then 3 else 4)"

lemma searches_by_time:
  "exact_match ptr w p \<longleftrightarrow> data p \<noteq> None \<and> starts_at ptr p = 0 \<and> ends_at (ptr + w) p \<ge> 0"
  "older_full ptr w p \<longleftrightarrow> data p \<noteq> None \<and> starts_at ptr p \<le> 0 \<and> ends_at (ptr + w) p \<ge> 0"
  "older_part ptr p \<longleftrightarrow> data p \<noteq> None \<and> starts_at ptr p \<le> 0 \<and> ends_at ptr p > 0"
proof -
  have "sint x = 0 \<longleftrightarrow> x = 0" for x :: u32
    using uint_bounded [of x] by (auto simp: sint_cases uint_0_iff)
  then have "timestamp p = ptr \<longleftrightarrow> starts_at ptr p = 0" by (simp add: starts_at_def)
  then show "exact_match ptr w p \<longleftrightarrow> data p \<noteq> None \<and> starts_at ptr p = 0 \<and> ends_at (ptr + w) p \<ge> 0"
    by (simp add: exact_match_def ends_at_def GE32_def)
qed (simp_all add: older_full_def older_part_def starts_at_def ends_at_def LE32_def GE32_def GT32_def)

lemma starts_within_by_time:
  assumes "0 \<le> ds" "is_i32 ds"
  shows "starts_within ptr (word_of_int ds) p \<longleftrightarrow> data p \<noteq> None \<and> 0 \<le> starts_at ptr p \<and> starts_at ptr p < ds"
    and "0 \<le> starts_at ptr p \<Longrightarrow> starts_at ptr p = offset_from ptr p"
proof -
  have u: "uint (word_of_int ds :: u32) = ds" using assms by (simp add: is_i32_def uint_word_of_int)
  then have w: "uint (word_of_int ds :: u32) < 2147483648" using assms by (simp add: is_i32_def)
  have "offset_from ptr p < ds \<longleftrightarrow> 0 \<le> starts_at ptr p \<and> starts_at ptr p < ds"
    using w u uint_bounded [of "timestamp p - ptr"] assms(1) by (simp add: starts_at_def offset_from_def sint_cases)
  then show "starts_within ptr (word_of_int ds) p \<longleftrightarrow> data p \<noteq> None \<and> 0 \<le> starts_at ptr p \<and> starts_at ptr p < ds"
    using starts_within_iff [OF w] u by simp
  show "0 \<le> starts_at ptr p \<Longrightarrow> starts_at ptr p = offset_from ptr p"
    using uint_bounded [of "timestamp p - ptr"] by (simp add: starts_at_def offset_from_def sint_cases split: if_splits)
qed

lemma rank_classes:
  assumes ds: "0 \<le> ds" "is_i32 ds"
  defines "w \<equiv> word_of_int ds"
  shows "rank ptr ds p = 0 \<longleftrightarrow> exact_match ptr w p"
    and "rank ptr ds p \<le> 1 \<longleftrightarrow> older_full ptr w p"
    and "rank ptr ds p \<le> 2 \<longleftrightarrow> older_part ptr p \<or> older_full ptr w p"
    and "rank ptr ds p < 4 \<longleftrightarrow> wanted ptr w p"
  using searches_by_time(1,2) [of ptr w p] searches_by_time(3) [of ptr p] starts_within_by_time(1) [OF ds, of ptr p, folded w_def]
  by (auto simp: rank_def wanted_def w_def)

lemma best_of_rank:
  assumes ds: "0 \<le> ds" "is_i32 ds" and w: "wanted ptr (word_of_int ds) p" and b: "best_of ptr (word_of_int ds) ps p"
    and q: "q \<in> set ps"
  shows "rank ptr ds p \<le> rank ptr ds q"
    and "rank ptr ds p = 3 \<Longrightarrow> rank ptr ds q = 3 \<Longrightarrow> starts_at ptr p \<le> starts_at ptr q"
proof -
  let ?w = "word_of_int ds :: u32"
  note c = rank_classes [OF ds, of ptr]
  have sub: "exact_match ptr ?w x \<Longrightarrow> older_full ptr ?w x" for x using c(1,2) [of x] by linarith
  consider (exact) "exact_match ptr ?w p" | (full) "older_full ptr ?w p" "\<forall>x \<in> set ps. \<not> exact_match ptr ?w x"
    | (part) "older_part ptr p" "\<forall>x \<in> set ps. \<not> older_full ptr ?w x"
    | (starts) "starts_within ptr ?w p" "\<forall>x \<in> set ps. \<not> older_full ptr ?w x \<and> \<not> older_part ptr x"
        "\<forall>x \<in> set ps. starts_within ptr ?w x \<longrightarrow> offset_from ptr p \<le> offset_from ptr x"
    using b sub unfolding best_of_def by (auto split: if_splits)
  note classes = this
  have p4: "rank ptr ds p < 4" using c(4) w by blast
  have q1: "rank ptr ds q = 0 \<longleftrightarrow> exact_match ptr ?w q" "rank ptr ds q \<le> 1 \<longleftrightarrow> older_full ptr ?w q"
    "rank ptr ds q \<le> 2 \<longleftrightarrow> older_part ptr q \<or> older_full ptr ?w q" by (rule c)+
  from classes show "rank ptr ds p \<le> rank ptr ds q"
  proof cases
    case exact
    then show ?thesis using c(1) [of p] by simp
  next
    case full
    then have "rank ptr ds p \<le> 1" "rank ptr ds q \<noteq> 0" using c(1,2) q by simp_all
    then show ?thesis by linarith
  next
    case part
    then have "rank ptr ds p \<le> 2" "\<not> rank ptr ds q \<le> 1" using rank_classes [OF ds, of ptr] q by simp_all
    then show ?thesis by linarith
  next
    case starts
    then have "\<not> rank ptr ds q \<le> 2" using q1(3) q by simp
    then show ?thesis using p4 by linarith
  qed
  assume p3: "rank ptr ds p = 3" and q3: "rank ptr ds q = 3"
  have np: "\<not> exact_match ptr ?w p" "\<not> older_full ptr ?w p" "\<not> older_part ptr p"
    using p3 c(1,2,3) [of p] by simp_all
  have "wanted ptr ?w q" using c(4) [of q] q3 by simp
  then have sq: "starts_within ptr ?w q" using q1 q3 unfolding wanted_def by simp
  from classes show "starts_at ptr p \<le> starts_at ptr q"
  proof cases
    case starts
    then have "offset_from ptr p \<le> offset_from ptr q" using sq q by blast
    then show ?thesis using starts_within_by_time [OF ds] sq starts(1) by metis
  qed (use np in simp_all)
qed

subsection \<open>Properties\<close>

text \<open>C28. Whatever a program does with a jitter buffer, its arrays keep their sizes, every timing
  buffer stays within its arrays with a count of at most 1400, the order of the timing buffers
  names each of them once, and the windows stay small.\<close>

theorem jitter_buffer_stays_well_formed: "jitter_reachable step_size jb \<Longrightarrow> jb_inv jb"
  by (induction rule: jitter_reachable.induct) (blast intro: jitter_buffer_init_inv jitter_step_inv)+

theorem jitter_buffer_stays_well_formed_witness:
  "\<exists>jb. jitter_buffer_init 20 = Some jb \<and> jb_inv (jitter_buffer_reset jb)"
proof -
  obtain jb where i: "jitter_buffer_init 20 = Some jb"
    by (simp add: jitter_buffer_init_def set_max_late_rate_def TOP_DELAY_def MAX_BUFFERS_def)
  then have "jitter_reachable 20 (jitter_buffer_reset jb)"
    by (rule further [OF start jitter_step.reset])
  then have "jb_inv (jitter_buffer_reset jb)" by (rule jitter_buffer_stays_well_formed)
  then show ?thesis using i by blast
qed





text \<open>C31. With a destroy callback every block is accounted for, as held in a slot or given to the
  callback, each time it was given: a put takes in exactly the packet's block, except that the
  block of a hopelessly late packet is neither kept nor destroyed; a get or a get of another
  fragment that succeeds hands over exactly one block, one that fails none.\<close>

theorem jitter_buffer_accounts_for_blocks:
  assumes "jb_inv jb" and "destroy jb"
  shows "(\<forall>p jb'. jitter_buffer_put jb p = Some jb' \<longrightarrow>
       account jb' = account jb + (if lost_count jb > 20 \<or> useful jb p then block_of p else {#})) \<and>
     (\<forall>packet ds w r packet' off jb'. jitter_buffer_get jb packet ds w = Some (r, packet', off, jb') \<longrightarrow>
       account jb = account jb' + (if r = JITTER_BUFFER_OK then block_of packet' else {#}) \<and>
       (r = JITTER_BUFFER_OK \<longrightarrow> data packet' \<noteq> None)) \<and>
     (\<forall>packet r packet' jb'. jitter_buffer_get_another jb packet = Some (r, packet', jb') \<longrightarrow>
       account jb = account jb' + (if r = JITTER_BUFFER_OK then block_of packet' else {#}) \<and>
       (r = JITTER_BUFFER_OK \<longrightarrow> data packet' \<noteq> None)) \<and>
     account (jitter_buffer_reset jb) = account jb \<and> held (jitter_buffer_reset jb) = {#}"
proof (intro conjI allI impI)
  fix p jb' assume "jitter_buffer_put jb p = Some jb'"
  then show "account jb' = account jb + (if lost_count jb > 20 \<or> useful jb p then block_of p else {#})"
    using jitter_buffer_put_account [OF assms(1)] assms(2) by (simp add: taken_in_def)
next
  fix packet ds w r packet' off jb' assume g: "jitter_buffer_get jb packet ds w = Some (r, packet', off, jb')"
  note h = jitter_buffer_get_account [OF assms(1) g]
  show "account jb = account jb' + (if r = JITTER_BUFFER_OK then block_of packet' else {#})"
    "r = JITTER_BUFFER_OK \<Longrightarrow> data packet' \<noteq> None" using h assms(2) by (simp_all split: if_splits)
next
  fix packet r packet' jb' assume g: "jitter_buffer_get_another jb packet = Some (r, packet', jb')"
  note h = jitter_buffer_get_another_account [OF assms(1) g]
  show "account jb = account jb' + (if r = JITTER_BUFFER_OK then block_of packet' else {#})"
    "r = JITTER_BUFFER_OK \<Longrightarrow> data packet' \<noteq> None" using h assms(2) by (simp_all split: if_splits)
qed (rule account_reset)+

text \<open>A hopelessly late packet put into the buffer of one packet: its block is lost.\<close>

theorem jitter_buffer_accounts_for_blocks_witness:
  "\<exists>jb jb'. destroy jb \<and> jitter_buffer_put jb (sample_packet\<lparr>timestamp := - 100\<rparr>) = Some jb' \<and> account jb' = account jb"
proof -
  obtain jb where jb: "jb_inv jb" "jb_bounded jb" "destroy jb" "\<not> reset_state jb" "pointer_timestamp jb = 0" "lost_count jb = 0"
    by (rule buffer_of_one [of True]) blast
  let ?jb = "jb\<lparr>delay_step := 20\<rparr>"
  let ?p = "sample_packet\<lparr>timestamp := - 100\<rparr>"
  have i: "jb_inv ?jb" "destroy ?jb" using jb by simp_all
  obtain jb' where p: "jitter_buffer_put ?jb ?p = Some jb'"
    using jitter_buffer_put_total [OF i(1), of ?p] by (auto simp: readable_def sample_packet_def)
  have "\<not> useful ?jb ?p" using jb(4,5) by (simp add: useful_def GE32_def sample_packet_def)
  then have "account jb' = account ?jb" using jitter_buffer_accounts_for_blocks [OF i] p jb(6) by simp
  then show ?thesis using p i(2) by blast
qed

text \<open>Without a destroy callback, a get of another fragment copies the stored packet whole,
  whatever the length the caller announces: when the packet that comes first is longer than the
  caller's block, the copy runs over its end. (\<open>jitter_buffer_get\<close> checks the length.)\<close>

theorem jitter_buffer_get_another_overruns:
  assumes "\<not> destroy jb" and "length (packets jb) = SPEEX_JITTER_MAX_BUFFER_SIZE"
    and "find (\<lambda>p. data p \<noteq> None \<and> timestamp p = last_returned_timestamp jb) (packets jb) = Some p"
    and "data packet = Some dst" and "length dst < unat (len p)"
  shows "jitter_buffer_get_another jb packet = None"
proof -
  define i where "i = first_slot (\<lambda>p. data p \<noteq> None \<and> timestamp p = last_returned_timestamp jb) (packets jb)"
  have f: "find P ps = Some q \<Longrightarrow> first_slot P ps < length ps \<and> ps ! first_slot P ps = q" for P and ps :: "jitter_packet list" and q
    by (induction ps) (auto split: if_splits)
  have i: "i < SPEEX_JITTER_MAX_BUFFER_SIZE" "packets jb ! i = p" using f [OF assms(3)] assms(2) by (simp_all add: i_def)
  have "copy_out s (packet\<lparr>len := len p\<rparr>) (unat (len p)) = None" for s
    using assms(4,5) by (auto simp: copy_out_def mem_read_def mem_write_def)
  then show ?thesis using i assms(1) unfolding jitter_buffer_get_another_def i_def [symmetric] by (cases "data p") (simp_all add: Let_def)
qed

theorem jitter_buffer_get_another_overruns_witness:
  "\<exists>jb. jb_inv jb \<and> (\<forall>p \<in> set (packets jb). readable p) \<and>
     jitter_buffer_get_another jb (sample_packet\<lparr>data := Some [0, 0], len := 2\<rparr>) = None"
proof -
  obtain jb where jb: "jb_inv jb" "\<not> destroy jb" "last_returned_timestamp jb = 0"
    "packets jb = (replicate SPEEX_JITTER_MAX_BUFFER_SIZE null_packet)[0 := sample_packet]"
    "\<forall>p \<in> set (packets jb). readable p" by (rule buffer_of_one [of False]) blast
  have "find (\<lambda>p. data p \<noteq> None \<and> timestamp p = last_returned_timestamp jb) (packets jb) = Some sample_packet"
    by (simp add: jb SPEEX_JITTER_MAX_BUFFER_SIZE_def sample_packet_def numeral_eq_Suc)
  then have "jitter_buffer_get_another jb (sample_packet\<lparr>data := Some [0, 0], len := 2\<rparr>) = None"
    by (intro jitter_buffer_get_another_overruns [OF jb(2), where p = sample_packet and dst = "[0, 0]"])
       (simp_all add: jb(4) sample_packet_def)
  then show ?thesis using jb by blast
qed

end
