(* ===== verification/Speex_Fixed.thy ===== *)
theory Speex_Fixed
  imports Prelude "HOL-Library.Signed_Division"
begin

text \<open>
  The fixed point arithmetic of Speex (\<open>fixed_generic.h\<close>, \<open>arch.h\<close>, \<open>math_approx.h\<close>), which the
  build selects with \<open>-DFIXED_POINT\<close>. A macro is a function on integers; every cast in its body is
  an \<open>i16\<close> or \<open>i32\<close>, and a sum of two \<open>spx_word32_t\<close> is 32 bits wide. The lemmas state in which
  range the macros compute the exact product, rounded down or to nearest.
\<close>

subsection \<open>The macros\<close>

definition ABS16 :: "int \<Rightarrow> int" where "ABS16 x = (if x < 0 then - x else x)"
definition EXTRACT16 :: "int \<Rightarrow> int" where "EXTRACT16 x = i16 x"
definition SHR16 :: "int \<Rightarrow> nat \<Rightarrow> int" where "SHR16 a n = asr a n"
definition SHL16 :: "int \<Rightarrow> nat \<Rightarrow> int" where "SHL16 a n = i32 (shl a n)"
definition SHR32 :: "int \<Rightarrow> nat \<Rightarrow> int" where "SHR32 a n = asr a n"
definition SHL32 :: "int \<Rightarrow> nat \<Rightarrow> int" where "SHL32 a n = i32 (shl a n)"
definition PSHR16 :: "int \<Rightarrow> nat \<Rightarrow> int" where "PSHR16 a n = SHR16 (i32 (a + asr (shl 1 n) 1)) n"
definition PSHR32 :: "int \<Rightarrow> nat \<Rightarrow> int" where "PSHR32 a n = SHR32 (i32 (a + asr (shl 1 n) 1)) n"

definition SATURATE :: "int \<Rightarrow> int \<Rightarrow> int" where
  "SATURATE x a = (if x > a then a else if x < - a then - a else x)"

definition ADD16 :: "int \<Rightarrow> int \<Rightarrow> int" where "ADD16 a b = i16 (i16 a + i16 b)"
definition SUB16 :: "int \<Rightarrow> int \<Rightarrow> int" where "SUB16 a b = i16 a - i16 b"
definition ADD32 :: "int \<Rightarrow> int \<Rightarrow> int" where "ADD32 a b = i32 (i32 a + i32 b)"
definition SUB32 :: "int \<Rightarrow> int \<Rightarrow> int" where "SUB32 a b = i32 (i32 a - i32 b)"

definition MULT16_16_16 :: "int \<Rightarrow> int \<Rightarrow> int" where "MULT16_16_16 a b = i16 a * i16 b"
definition MULT16_16 :: "int \<Rightarrow> int \<Rightarrow> int" where "MULT16_16 a b = i16 a * i16 b"
definition MAC16_16 :: "int \<Rightarrow> int \<Rightarrow> int \<Rightarrow> int" where "MAC16_16 c a b = ADD32 c (MULT16_16 a b)"

definition MULT16_32_Q13 :: "int \<Rightarrow> int \<Rightarrow> int" where
  "MULT16_32_Q13 a b = ADD32 (MULT16_16 a (SHR32 b 13)) (SHR32 (MULT16_16 a (b AND 0x1fff)) 13)"
definition MULT16_32_Q14 :: "int \<Rightarrow> int \<Rightarrow> int" where
  "MULT16_32_Q14 a b = ADD32 (MULT16_16 a (SHR32 b 14)) (SHR32 (MULT16_16 a (b AND 0x3fff)) 14)"
definition MULT16_32_Q15 :: "int \<Rightarrow> int \<Rightarrow> int" where
  "MULT16_32_Q15 a b = ADD32 (MULT16_16 a (SHR32 b 15)) (SHR32 (MULT16_16 a (b AND 0x7fff)) 15)"
definition MAC16_32_Q15 :: "int \<Rightarrow> int \<Rightarrow> int \<Rightarrow> int" where
  "MAC16_32_Q15 c a b =
     ADD32 c (ADD32 (MULT16_16 a (SHR32 b 15)) (SHR32 (MULT16_16 a (b AND 0x7fff)) 15))"

definition MULT16_16_Q13 :: "int \<Rightarrow> int \<Rightarrow> int" where "MULT16_16_Q13 a b = SHR32 (MULT16_16 a b) 13"
definition MULT16_16_Q14 :: "int \<Rightarrow> int \<Rightarrow> int" where "MULT16_16_Q14 a b = SHR32 (MULT16_16 a b) 14"
definition MULT16_16_Q15 :: "int \<Rightarrow> int \<Rightarrow> int" where "MULT16_16_Q15 a b = SHR32 (MULT16_16 a b) 15"
definition MULT16_16_P13 :: "int \<Rightarrow> int \<Rightarrow> int" where "MULT16_16_P13 a b = SHR32 (ADD32 4096 (MULT16_16 a b)) 13"
definition MULT16_16_P14 :: "int \<Rightarrow> int \<Rightarrow> int" where "MULT16_16_P14 a b = SHR32 (ADD32 8192 (MULT16_16 a b)) 14"
definition MULT16_16_P15 :: "int \<Rightarrow> int \<Rightarrow> int" where "MULT16_16_P15 a b = SHR32 (ADD32 16384 (MULT16_16 a b)) 15"

text \<open>Division by zero is undefined.\<close>

definition DIV32 :: "int \<Rightarrow> int \<Rightarrow> int option" where
  "DIV32 a b = (if i32 b = 0 then None else Some (i32 (i32 a sdiv i32 b)))"
definition DIV32_16 :: "int \<Rightarrow> int \<Rightarrow> int option" where
  "DIV32_16 a b = (if i16 b = 0 then None else Some (i16 (i32 a sdiv i16 b)))"
definition PDIV32 :: "int \<Rightarrow> int \<Rightarrow> int option" where
  "PDIV32 a b = (if i32 b = 0 then None else Some (i32 (i32 (i32 a + asr (i16 b) 1) sdiv i32 b)))"
definition PDIV32_16 :: "int \<Rightarrow> int \<Rightarrow> int option" where
  "PDIV32_16 a b = (if i16 b = 0 then None else Some (i16 (i32 (i32 a + asr (i16 b) 1) sdiv i16 b)))"

subsection \<open>Approximations\<close>

definition spx_ilog2 :: "u32 \<Rightarrow> int" where
  "spx_ilog2 x =
     (let (x, r) = (if x \<ge> 65536 then (drop_bit 16 x, 16) else (x, 0 :: int));
          (x, r) = (if x \<ge> 256 then (drop_bit 8 x, r + 8) else (x, r));
          (x, r) = (if x \<ge> 16 then (drop_bit 4 x, r + 4) else (x, r));
          (x, r) = (if x \<ge> 4 then (drop_bit 2 x, r + 2) else (x, r))
      in if x \<ge> 2 then r + 1 else r)"

definition spx_ilog4 :: "u32 \<Rightarrow> int" where
  "spx_ilog4 x =
     (let (x, r) = (if x \<ge> 65536 then (drop_bit 16 x, 8) else (x, 0 :: int));
          (x, r) = (if x \<ge> 256 then (drop_bit 8 x, r + 4) else (x, r));
          (x, r) = (if x \<ge> 16 then (drop_bit 4 x, r + 2) else (x, r))
      in if x \<ge> 4 then r + 1 else r)"

definition VSHR32 :: "int \<Rightarrow> int \<Rightarrow> int" where
  "VSHR32 a shift = (if shift > 0 then SHR32 a (nat shift) else SHL32 a (nat (- shift)))"

text \<open>A random number, with the new seed.\<close>

definition speex_rand :: "int \<Rightarrow> int \<Rightarrow> int \<times> int" where
  "speex_rand std seed =
     (let seed = i32 (1664525 * seed + 1013904223);
          res = MULT16_16 (EXTRACT16 (SHR32 seed 16)) std
      in (EXTRACT16 (PSHR32 (SUB32 res (SHR32 res 3)) 14), seed))"

definition spx_sqrt :: "int \<Rightarrow> int" where
  "spx_sqrt x =
     (let k = spx_ilog4 (word_of_int x) - 6;
          x = VSHR32 x (2 * k);
          rt = ADD16 3634 (MULT16_16_Q14 x (ADD16 21173 (MULT16_16_Q14 x (ADD16 (-12627) (MULT16_16_Q14 x 4204)))))
      in i16 (VSHR32 rt (7 - k)))"

definition spx_acos :: "int \<Rightarrow> int" where
  "spx_acos x =
     (let s = x < 0;
          x = i16 (if s then - x else x);
          x = asr (i16 (SUB16 16384 x)) 1;
          sq = i16 (MULT16_16_Q13 x (ADD16 16469 (MULT16_16_Q13 x (ADD16 2242 (MULT16_16_Q13 x 1486)))));
          ret = spx_sqrt (SHL32 sq 13)
      in if s then i16 (SUB16 25736 ret) else ret)"

definition spx_cos :: "int \<Rightarrow> int" where
  "spx_cos x =
     (if x < 12868 then
        (let x2 = i16 (MULT16_16_P13 x x)
         in i16 (ADD32 8192 (MULT16_16_P13 x2 (ADD32 (-4096) (MULT16_16_P13 x2 (ADD32 340 (MULT16_16_P13 (-10) x2)))))))
      else
        (let x = i16 (SUB16 25736 x);
             x2 = i16 (MULT16_16_P13 x x)
         in i16 (SUB32 (-8192) (MULT16_16_P13 x2 (ADD32 (-4096) (MULT16_16_P13 x2 (ADD32 340 (MULT16_16_P13 (-10) x2))))))))"

definition spx_exp2 :: "int \<Rightarrow> int" where
  "spx_exp2 x =
     (let integer = SHR16 x 11 in
      if integer > 14 then 0x7fffffff
      else if integer < -15 then 0
      else
        (let frac = i16 (SHL16 (x - SHL16 integer 11) 3);
             frac = ADD16 16384 (MULT16_16_Q14 frac (ADD16 11356 (MULT16_16_Q14 frac (ADD16 3726 (MULT16_16_Q14 1301 frac)))))
         in VSHR32 frac (- integer - 2)))"

definition spx_exp :: "int \<Rightarrow> int" where
  "spx_exp x = (if x > 21290 then 0x7fffffff else if x < -21290 then 0 else spx_exp2 (i16 (MULT16_16_P14 23637 x)))"

definition spx_atan01 :: "int \<Rightarrow> int" where
  "spx_atan01 x =
     i16 (MULT16_16_P15 x (ADD32 32767 (MULT16_16_P15 x (ADD32 (-21) (MULT16_16_P15 x (ADD32 (-11943) (MULT16_16_P15 4936 x)))))))"

definition spx_atan :: "int \<Rightarrow> int option" where
  "spx_atan x =
     (if x \<le> 32767 then Some (SHR16 (spx_atan01 (i16 x)) 1)
      else
        (let e = spx_ilog2 (word_of_int x) in
         if e \<ge> 29 then Some 25736
         else do { x \<leftarrow> DIV32_16 (SHL32 32767 (nat (29 - e))) (EXTRACT16 (SHR32 x (nat (e - 14))));
                   Some (i16 (SUB16 25736 (SHR16 (spx_atan01 x) 1))) }))"

subsection \<open>Ranges\<close>

lemma i16_range: "-32768 \<le> i16 x" "i16 x \<le> 32767"
  using is_i16_i16 [of x] by (simp_all add: is_i16_def)

lemma i16_cong: "a mod 65536 = b mod 65536 \<Longrightarrow> i16 a = i16 b"
  unfolding i16_def by (drule mod_add_cong [OF _ refl, where b = 32768]) simp

lemma i16_residue: "i16 a mod 65536 = a mod 65536"
  unfolding i16_def by (metis add_diff_cancel mod_diff_left_eq)

lemma ADD16_i16: "ADD16 a b = i16 (a + b)"
  unfolding ADD16_def by (rule i16_cong) (metis i16_residue mod_add_eq)

lemma i32_residue: "i32 a mod 4294967296 = a mod 4294967296"
  unfolding i32_def by (metis add_diff_cancel mod_diff_left_eq)

lemma ADD32_i32: "ADD32 a b = i32 (a + b)"
  unfolding ADD32_def by (rule i32_cong) (metis i32_residue mod_add_eq)

lemma SUB32_i32: "SUB32 a b = i32 (a - b)"
  unfolding SUB32_def by (rule i32_cong) (metis i32_residue mod_diff_eq)

text \<open>Inner wrap-arounds do not change the outcome of an outer one.\<close>

lemma i16_eq_iff: "i16 a = i16 b \<longleftrightarrow> a mod 65536 = b mod 65536"
  using i16_cong i16_residue by metis

lemma i16_i32: "i16 (i32 a) = i16 a"
proof (rule i16_cong)
  have "i32 a mod 4294967296 mod 65536 = a mod 4294967296 mod 65536" by (simp only: i32_residue)
  then show "i32 a mod 65536 = a mod 65536" by (simp add: mod_mod_cancel)
qed

lemma i16_inner:
  "i16 (i16 a + b) = i16 (a + b)" "i16 (a + i16 b) = i16 (a + b)"
  "i16 (i16 a - b) = i16 (a - b)" "i16 (a - i16 b) = i16 (a - b)"
  "i16 (i16 a * b) = i16 (a * b)" "i16 (a * i16 b) = i16 (a * b)" "i16 (- i16 a) = i16 (- a)"
proof -
  show "i16 (i16 a + b) = i16 (a + b)" by (rule i16_cong) (metis i16_residue mod_add_left_eq)
  show "i16 (a + i16 b) = i16 (a + b)" by (rule i16_cong) (metis i16_residue mod_add_right_eq)
  show "i16 (i16 a - b) = i16 (a - b)" by (rule i16_cong) (metis i16_residue mod_diff_left_eq)
  show "i16 (a - i16 b) = i16 (a - b)" by (rule i16_cong) (metis i16_residue mod_diff_right_eq)
  show "i16 (i16 a * b) = i16 (a * b)" by (rule i16_cong) (metis i16_residue mod_mult_left_eq)
  show "i16 (a * i16 b) = i16 (a * b)" by (rule i16_cong) (metis i16_residue mod_mult_right_eq)
  show "i16 (- i16 a) = i16 (- a)" by (rule i16_cong) (metis i16_residue mod_minus_eq)
qed

lemma i16_i32_inner:
  "i16 (i32 a + b) = i16 (a + b)" "i16 (a + i32 b) = i16 (a + b)" "i16 (i32 a - b) = i16 (a - b)" "i16 (a - i32 b) = i16 (a - b)"
  by (metis i16_i32 i16_inner)+

lemma is_i16_macros [simp, int_ranges]: "is_i16 (EXTRACT16 x)" "is_i16 (ADD16 a b)"
  by (simp_all add: EXTRACT16_def ADD16_def)

lemma is_i32_macros [simp, int_ranges]: "is_i32 (ADD32 a b)" "is_i32 (SUB32 a b)" "is_i32 (SHL32 a n)" "is_i32 (MAC16_16 a b c)"
  by (simp_all add: ADD32_def SUB32_def SHL32_def MAC16_16_def)

lemma abs_mult_le: "\<bar>a\<bar> \<le> A \<Longrightarrow> \<bar>b\<bar> \<le> B \<Longrightarrow> \<bar>a * b\<bar> \<le> A * B" for a :: int
  unfolding abs_mult by (intro mult_mono) auto

lemma MULT16_16_le: "\<bar>MULT16_16 a b\<bar> \<le> 1073741824"
  using abs_mult_le [of "i16 a" 32768 "i16 b" 32768] i16_range [of a] i16_range [of b] by (simp add: MULT16_16_def abs_le_iff)

lemma is_i32_MULT16_16 [simp, int_ranges]: "is_i32 (MULT16_16 a b)"
  using MULT16_16_le [of a b] by (simp add: is_i32_def abs_le_iff)

lemma MULT16_16_exact: "is_i16 a \<Longrightarrow> is_i16 b \<Longrightarrow> MULT16_16 a b = a * b"
  by (simp add: MULT16_16_def)

text \<open>The product of 16 and 32 bits, done in two halves, is the exact product rounded down.\<close>

lemma and_mask_mod: "b AND 0x1fff = b mod 0x2000" "b AND 0x3fff = b mod 0x4000" "b AND 0x7fff = b mod 0x8000" for b :: int
  using take_bit_eq_mask [of 13 b] take_bit_eq_mask [of 14 b] take_bit_eq_mask [of 15 b]
  by (simp_all add: take_bit_eq_mod mask_eq_exp_minus_1)

lemma mult_split_div:
  fixes a b d :: int
  assumes "0 < d"
  shows "a * (b div d) + (a * (b mod d)) div d = (a * b) div d"
proof -
  have "a * b = a * (b mod d) + a * (b div d) * d" by (metis add.commute distrib_left mult.assoc mult_div_mod_eq mult.commute)
  then show ?thesis using assms by (simp add: div_mult_self1)
qed

lemma mult16_32_exact:
  assumes a: "is_i16 a" and n: "n \<le> 15" and b: "\<bar>b\<bar> \<le> 32767 * 2 ^ n"
  shows "ADD32 (MULT16_16 a (SHR32 b n)) (SHR32 (MULT16_16 a (b mod 2 ^ n)) n) = asr (a * b) n"
proof -
  have h: "- 32768 \<le> asr b n \<and> asr b n \<le> 32767"
  proof (rule asr_bounds)
    have p: "(0::int) < 2 ^ n" by simp
    then show "- 32768 * 2 ^ n \<le> b" using b by linarith
    have "32767 * 2 ^ n < (32767 + 1) * (2::int) ^ n" using p by (intro mult_strict_right_mono) simp_all
    then show "b < (32767 + 1) * 2 ^ n" using b by linarith
  qed
  have "(2::int) ^ n \<le> 2 ^ 15" using n by (intro power_increasing) auto
  then have l: "0 \<le> b mod 2 ^ n" "b mod 2 ^ n < 32768"
    using pos_mod_bound [of "2 ^ n" b] by (simp_all del: pos_mod_bound)
  have eq: "a * asr b n + asr (a * (b mod 2 ^ n)) n = asr (a * b) n"
    unfolding asr_def by (rule mult_split_div) simp
  have "\<bar>a * b\<bar> \<le> 32768 * (32767 * 2 ^ n)"
    by (rule abs_mult_le) (use a b in \<open>simp_all add: is_i16_def abs_le_iff\<close>)
  moreover have "(0::int) < 2 ^ n" by simp
  ultimately have "-1073741824 * 2 ^ n \<le> a * b" "a * b < 1073741825 * 2 ^ n" by linarith+
  then have "-1073741824 \<le> asr (a * b) n \<and> asr (a * b) n \<le> 1073741824" by (intro asr_bounds) simp_all
  then have "is_i32 (asr (a * b) n)" by (simp add: is_i32_def)
  moreover have "is_i16 (asr b n)" "is_i16 (b mod 2 ^ n)" unfolding is_i16_def using h l by linarith+
  ultimately show ?thesis using a eq by (simp add: ADD32_i32 SHR32_def MULT16_16_exact)
qed

lemma MULT16_32_exact:
  assumes "is_i16 a"
  shows "\<bar>b\<bar> \<le> 32767 * 2 ^ 13 \<Longrightarrow> MULT16_32_Q13 a b = asr (a * b) 13"
    and "\<bar>b\<bar> \<le> 32767 * 2 ^ 14 \<Longrightarrow> MULT16_32_Q14 a b = asr (a * b) 14"
    and "\<bar>b\<bar> \<le> 32767 * 2 ^ 15 \<Longrightarrow> MULT16_32_Q15 a b = asr (a * b) 15"
  using mult16_32_exact [OF assms, of 13 b] mult16_32_exact [OF assms, of 14 b] mult16_32_exact [OF assms, of 15 b]
  by (simp_all add: MULT16_32_Q13_def MULT16_32_Q14_def MULT16_32_Q15_def and_mask_mod)

subsection \<open>The binary logarithm\<close>

definition floor_log :: "u32 \<Rightarrow> nat \<Rightarrow> bool" where
  "floor_log x q \<longleftrightarrow> 2 ^ q \<le> unat x \<and> unat x < 2 ^ Suc q"

lemma floor_log_unique: "floor_log x p \<Longrightarrow> floor_log x q \<Longrightarrow> p = q"
proof (rule ccontr)
  assume x: "floor_log x p" "floor_log x q" and "p \<noteq> q"
  then consider "Suc p \<le> q" | "Suc q \<le> p" by linarith
  then show False
  proof cases
    case 1
    then have "(2::nat) ^ Suc p \<le> 2 ^ q" by (intro power_increasing) simp_all
    then show False using x by (simp add: floor_log_def)
  next
    case 2
    then have "(2::nat) ^ Suc q \<le> 2 ^ p" by (intro power_increasing) simp_all
    then show False using x by (simp add: floor_log_def)
  qed
qed

lemma floor_log_exists:
  assumes "x \<noteq> 0"
  shows "\<exists>q < 32. floor_log x q"
proof -
  have "\<exists>q < n. 2 ^ q \<le> v \<and> v < 2 ^ Suc q" if "0 < v" "v < 2 ^ n" for v n :: nat
    using that
  proof (induction n)
    case (Suc n)
    then show ?case by (cases "v < 2 ^ n") (auto intro: less_SucI)
  qed simp
  moreover have "0 < unat x" using assms by (simp add: unat_gt_0)
  moreover have "unat x < 2 ^ 32" using unsigned_less [of x] by simp
  ultimately show ?thesis unfolding floor_log_def by blast
qed

lemma floor_log_less: "floor_log x q \<Longrightarrow> unat x < 2 ^ k \<Longrightarrow> q < k"
  unfolding floor_log_def by (metis le_less_trans one_less_numeral_iff power_less_imp_less_exp semiring_norm(76))

lemma floor_log_ge: "floor_log x q \<Longrightarrow> 2 ^ k \<le> unat x \<Longrightarrow> k \<le> q"
proof (rule ccontr)
  assume x: "floor_log x q" "2 ^ k \<le> unat x" and "\<not> k \<le> q"
  then have "(2::nat) ^ Suc q \<le> 2 ^ k" by (intro power_increasing) simp_all
  then show False using x by (simp add: floor_log_def)
qed

lemma floor_log_drop_bit:
  assumes "floor_log x q" and "2 ^ k \<le> unat x"
  shows "floor_log (drop_bit k x) (q - k)"
proof -
  have k: "k \<le> q" using floor_log_ge [OF assms] .
  then have q: "(2::nat) ^ q = 2 ^ (q - k) * 2 ^ k" by (simp add: power_add [symmetric])
  have "unat (drop_bit k x) = unat x div 2 ^ k" by (subst unat_drop_bit_eq) (rule drop_bit_eq_div)
  moreover have "2 ^ (q - k) \<le> unat x div 2 ^ k" using assms(1) q by (simp add: floor_log_def less_eq_div_iff_mult_less_eq)
  moreover have "unat x div 2 ^ k < 2 ^ Suc (q - k)" using assms(1) q by (simp add: floor_log_def div_less_iff_less_mult)
  ultimately show ?thesis by (simp add: floor_log_def)
qed

text \<open>One step of the search: the low half is enough, or the high half is taken.\<close>

lemma floor_log_step:
  assumes "floor_log x q" and "unat c = 2 ^ k"
  shows "floor_log (fst (if x \<ge> c then (drop_bit k x, s + d) else (x, s))) (if x \<ge> c then q - k else q)"
    and "x \<ge> c \<Longrightarrow> k \<le> q" and "\<not> x \<ge> c \<Longrightarrow> q < k"
  using floor_log_drop_bit [OF assms(1), of k] floor_log_ge [OF assms(1), of k] floor_log_less [OF assms(1), of k] assms
  by (auto simp: word_le_nat_alt)

lemma spx_ilog2_floor_log: "floor_log x q \<Longrightarrow> q < 32 \<Longrightarrow> spx_ilog2 x = int q"
proof -
  have one: "\<exists>y r q'. (if x \<ge> c then (drop_bit k x, s + int k) else (x, s)) = (y, r) \<and> floor_log y q' \<and> q' < k \<and> r + int q' = s + int q"
    if x: "floor_log x q" and c: "unat c = 2 ^ k" and q: "q < 2 * k" for x c :: u32 and k q s
  proof (cases "x \<ge> c")
    case True
    then show ?thesis
      using floor_log_step(1) [OF x c] floor_log_step(2) [OF x c] q by (intro exI [of _ "drop_bit k x"] exI [of _ "s + int k"] exI [of _ "q - k"]) auto
  next
    case False
    then show ?thesis using x floor_log_step(3) [OF x c] by (intro exI [of _ x] exI [of _ s] exI [of _ q]) auto
  qed
  assume x: "floor_log x q" "q < 32"
  obtain x1 r1 q1 where 1: "(if x \<ge> 65536 then (drop_bit 16 x, 0 + int 16) else (x, 0)) = (x1, r1)" "floor_log x1 q1" "q1 < 16" "r1 + int q1 = 0 + int q"
    using one [OF x(1), of 65536 16 0] x(2) by (auto simp del: of_nat_numeral add_0)
  obtain x2 r2 q2 where 2: "(if x1 \<ge> 256 then (drop_bit 8 x1, r1 + int 8) else (x1, r1)) = (x2, r2)" "floor_log x2 q2" "q2 < 8" "r2 + int q2 = r1 + int q1"
    using one [OF 1(2), of 256 8 r1] 1(3) by (auto simp del: of_nat_numeral)
  obtain x3 r3 q3 where 3: "(if x2 \<ge> 16 then (drop_bit 4 x2, r2 + int 4) else (x2, r2)) = (x3, r3)" "floor_log x3 q3" "q3 < 4" "r3 + int q3 = r2 + int q2"
    using one [OF 2(2), of 16 4 r2] 2(3) by (auto simp del: of_nat_numeral)
  obtain x4 r4 q4 where 4: "(if x3 \<ge> 4 then (drop_bit 2 x3, r3 + int 2) else (x3, r3)) = (x4, r4)" "floor_log x4 q4" "q4 < 2" "r4 + int q4 = r3 + int q3"
    using one [OF 3(2), of 4 2 r3] 3(3) by (auto simp del: of_nat_numeral)
  have "(if x4 \<ge> 2 then r4 + 1 else r4) = int q"
  proof (cases "x4 \<ge> 2")
    case True
    then have "q4 = 1" using floor_log_step(2) [OF 4(2), of 2 1] 4(3) by simp
    then show ?thesis using True 1(4) 2(4) 3(4) 4(4) by simp
  next
    case False
    then have "q4 = 0" using floor_log_step(3) [OF 4(2), of 2 1] by simp
    then show ?thesis using False 1(4) 2(4) 3(4) 4(4) by simp
  qed
  moreover have "(if x \<ge> 65536 then (drop_bit 16 x, 16) else (x, 0)) = (x1, r1)"
    "(if x1 \<ge> 256 then (drop_bit 8 x1, r1 + 8) else (x1, r1)) = (x2, r2)"
    "(if x2 \<ge> 16 then (drop_bit 4 x2, r2 + 4) else (x2, r2)) = (x3, r3)"
    "(if x3 \<ge> 4 then (drop_bit 2 x3, r3 + 2) else (x3, r3)) = (x4, r4)"
    using 1(1) 2(1) 3(1) 4(1) by (simp_all only: of_nat_numeral add_0)
  ultimately show ?thesis unfolding spx_ilog2_def by (simp only: Let_def prod.case)
qed

lemma spx_ilog2_bounds:
  assumes "0 < x" and "is_i32 x"
  shows "\<exists>q < 31. spx_ilog2 (word_of_int x) = int q \<and> 2 ^ q \<le> x \<and> x < 2 ^ Suc q"
proof -
  let ?w = "word_of_int x :: u32"
  have u: "int (unat ?w) = x" using assms by (simp add: is_i32_def unsigned_of_int take_bit_int_eq_self)
  then have "?w \<noteq> 0" using assms(1) by auto
  then obtain q where q: "q < 32" "floor_log ?w q" using floor_log_exists by blast
  then have b: "2 ^ q \<le> x" "x < 2 ^ Suc q" unfolding floor_log_def using u
    by (metis of_nat_le_iff of_nat_numeral of_nat_power) (metis q(2) floor_log_def u of_nat_less_iff of_nat_numeral of_nat_power)
  have "int (unat ?w) < 2 ^ 31" unfolding u using assms(2) by (simp add: is_i32_def)
  then have "unat ?w < 2 ^ 31" by (simp only: of_nat_less_numeral_power_cancel_iff)
  then have "q < 31" using floor_log_less q(2) by blast
  then show ?thesis using spx_ilog2_floor_log [OF q(2,1)] b by blast
qed

lemma spx_ilog2_0: "spx_ilog2 0 = 0"
  by (simp add: spx_ilog2_def)

subsection \<open>The square root\<close>

lemma spx_ilog4_half: "spx_ilog4 x = spx_ilog2 x div 2"
proof -
  define x1 where "x1 = (if x \<ge> 65536 then drop_bit 16 x else x)"
  define x2 where "x2 = (if x1 \<ge> 256 then drop_bit 8 x1 else x1)"
  define x3 where "x3 = (if x2 \<ge> 16 then drop_bit 4 x2 else x2)"
  define x4 where "x4 = (if x3 \<ge> 4 then drop_bit 2 x3 else x3)"
  define r1 :: int where "r1 = (if x \<ge> 65536 then 8 else 0)"
  define r2 where "r2 = (if x1 \<ge> 256 then r1 + 4 else r1)"
  define r3 where "r3 = (if x2 \<ge> 16 then r2 + 2 else r2)"
  define r4 where "r4 = (if x3 \<ge> 4 then r3 + 1 else r3)"
  have "(if x \<ge> 65536 then (drop_bit 16 x, 8) else (x, 0)) = (x1, r1)"
    "(if x1 \<ge> 256 then (drop_bit 8 x1, r1 + 4) else (x1, r1)) = (x2, r2)"
    "(if x2 \<ge> 16 then (drop_bit 4 x2, r2 + 2) else (x2, r2)) = (x3, r3)"
    by (simp_all add: x1_def x2_def x3_def r1_def r2_def r3_def)
  then have "spx_ilog4 x = r4" unfolding spx_ilog4_def r4_def by (simp only: Let_def prod.case)
  moreover have "(if x \<ge> 65536 then (drop_bit 16 x, 16) else (x, 0)) = (x1, 2 * r1)"
    "(if x1 \<ge> 256 then (drop_bit 8 x1, 2 * r1 + 8) else (x1, 2 * r1)) = (x2, 2 * r2)"
    "(if x2 \<ge> 16 then (drop_bit 4 x2, 2 * r2 + 4) else (x2, 2 * r2)) = (x3, 2 * r3)"
    "(if x3 \<ge> 4 then (drop_bit 2 x3, 2 * r3 + 2) else (x3, 2 * r3)) = (x4, 2 * r4)"
    by (simp_all add: x1_def x2_def x3_def x4_def r1_def r2_def r3_def r4_def)
  then have "spx_ilog2 x = (if x4 \<ge> 2 then 2 * r4 + 1 else 2 * r4)" unfolding spx_ilog2_def by (simp only: Let_def prod.case)
  ultimately show ?thesis by simp
qed

lemma spx_ilog4_bounds:
  assumes "0 < x" and "is_i32 x"
  shows "\<exists>q < 16. spx_ilog4 (word_of_int x) = int q \<and> 4 ^ q \<le> x \<and> x < 4 ^ Suc q"
proof -
  obtain q where q: "q < 31" "spx_ilog2 (word_of_int x) = int q" "2 ^ q \<le> x" "x < 2 ^ Suc q"
    using spx_ilog2_bounds [OF assms] by blast
  have h: "q div 2 < 16" "int q div 2 = int (q div 2)" using q(1) by auto
  have four: "(4 :: int) ^ n = 2 ^ (2 * n)" for n by (simp add: power_mult)
  have "(2 :: int) ^ (2 * (q div 2)) \<le> 2 ^ q" by (intro power_increasing) simp_all
  moreover have "(2 :: int) ^ Suc q \<le> 2 ^ (2 * Suc (q div 2))" by (intro power_increasing) simp_all
  ultimately have "4 ^ (q div 2) \<le> x \<and> x < 4 ^ Suc (q div 2)" unfolding four using q(3,4) by linarith
  then show ?thesis using h q(2) by (intro exI [of _ "q div 2"]) (simp only: spx_ilog4_half conj_assoc simp_thms)
qed

text \<open>The argument is brought into a range of two bits; there the polynomial stays well inside a word.\<close>

lemma sqrt_argument:
  assumes x: "4 ^ q \<le> x" "x < 4 ^ Suc q"
  shows "4096 \<le> VSHR32 x (2 * (int q - 6)) \<and> VSHR32 x (2 * (int q - 6)) \<le> 16383"
proof (cases "q \<le> 6")
  case True
  let ?p = "(2 :: int) ^ (2 * (6 - q))"
  have p: "4 ^ q * ?p = 4096" "0 < ?p" using True by (simp_all add: power_mult power_add [symmetric])
  have "4 ^ q * ?p \<le> x * ?p" using x(1) by (intro mult_right_mono) simp_all
  moreover have "x * ?p < 4 ^ Suc q * ?p" using x(2) by (intro mult_strict_right_mono) simp_all
  ultimately have b: "4096 \<le> x * ?p" "x * ?p < 4 * (4 ^ q * ?p)" using p(1) by (simp_all only: power_Suc mult.assoc)
  have "nat (- (2 * (int q - 6))) = 2 * (6 - q)" using True by simp
  then show ?thesis using b p True by (auto simp: VSHR32_def SHL32_def shl_def is_i32_def)
next
  case False
  let ?n = "2 * (q - 6)"
  have "(4 :: int) ^ (6 + (q - 6)) = 4 ^ 6 * 4 ^ (q - 6)" by (rule power_add)
  then have p: "4 ^ q = 4096 * (2 :: int) ^ ?n" using False by (simp add: power_mult)
  have n: "nat (2 * (int q - 6)) = ?n" using False by simp
  have "4096 \<le> asr x ?n \<and> asr x ?n \<le> 16383" by (rule asr_bounds) (use x p in simp_all)
  then show ?thesis using n False by (simp add: VSHR32_def SHR32_def)
qed

definition sqrt_poly :: "int \<Rightarrow> int" where
  "sqrt_poly x = ADD16 3634 (MULT16_16_Q14 x (ADD16 21173 (MULT16_16_Q14 x (ADD16 (-12627) (MULT16_16_Q14 x 4204)))))"

lemma spx_sqrt_poly:
  "spx_sqrt x = (let k = spx_ilog4 (word_of_int x) - 6 in i16 (VSHR32 (sqrt_poly (VSHR32 x (2 * k))) (7 - k)))"
  by (simp add: spx_sqrt_def sqrt_poly_def Let_def)

lemma ADD16_exact: "is_i16 a \<Longrightarrow> is_i16 b \<Longrightarrow> is_i16 (a + b) \<Longrightarrow> ADD16 a b = a + b"
  by (simp add: ADD16_def)

lemma Q14_bounds:
  assumes "is_i16 x" and "is_i16 y" and "lo * 16384 \<le> x * y" and "x * y < (hi + 1) * 16384"
  shows "lo \<le> MULT16_16_Q14 x y" and "MULT16_16_Q14 x y \<le> hi"
  using asr_bounds [of lo 14 "x * y" hi] assms by (simp_all add: MULT16_16_Q14_def SHR32_def MULT16_16_exact)

lemma sqrt_poly_bounds:
  assumes x: "4096 \<le> x" "x \<le> X" "X \<le> 16383"
  shows "6033 \<le> sqrt_poly x" and "sqrt_poly x \<le> 3634 + X * 19068 div 16384"
proof -
  have ix: "is_i16 x" using x by (simp add: is_i16_def)
  let ?a = "MULT16_16_Q14 x 4204"
  have a: "1051 \<le> ?a" "?a \<le> 4203"
    using Q14_bounds [of x 4204 1051 4203] x ix by (simp_all add: is_i16_def)
  let ?b = "ADD16 (-12627) ?a"
  have b: "?b = ?a - 12627" using a by (subst ADD16_exact) (simp_all add: is_i16_def)
  let ?c = "MULT16_16_Q14 x ?b"
  have "x * (12627 - ?a) \<le> 16383 * 11576" "4096 * 8424 \<le> x * (12627 - ?a)" using a x by (intro mult_mono; simp)+
  then have "-189649608 \<le> x * ?b" "x * ?b \<le> -34504704" unfolding b by (simp_all add: algebra_simps)
  then have c: "-11576 \<le> ?c" "?c \<le> -2106"
    using Q14_bounds [of x ?b "-11576" "-2106"] a x ix b by (simp_all add: is_i16_def)
  let ?d = "ADD16 21173 ?c"
  have d: "?d = ?c + 21173" using c by (subst ADD16_exact) (simp_all add: is_i16_def)
  let ?e = "MULT16_16_Q14 x ?d"
  have "x * ?d \<le> X * 19067" "4096 * 9597 \<le> x * ?d" using c d x by (intro mult_mono; simp)+
  moreover have "X * 19067 < (X * 19068 div 16384 + 1) * 16384"
    using div_mult_mod_eq [of "X * 19068" 16384] pos_mod_bound [of 16384 "X * 19068"] x by simp
  ultimately have e: "2399 \<le> ?e" "?e \<le> X * 19068 div 16384"
    using Q14_bounds [of x ?d 2399 "X * 19068 div 16384"] c d x ix by (simp_all add: is_i16_def)
  have "X * 19068 div 16384 \<le> 19066" using zdiv_mono1 [of "X * 19068" "16383 * 19068" 16384] x by simp
  then have "sqrt_poly x = 3634 + ?e" unfolding sqrt_poly_def using e by (subst ADD16_exact) (simp_all add: is_i16_def)
  then show "6033 \<le> sqrt_poly x" and "sqrt_poly x \<le> 3634 + X * 19068 div 16384" using e by simp_all
qed


text \<open>
  The root of a number in the range of the energies is positive, and at most 32767; the root of any word is never -1, even of the
  large and negative ones, whose roots wrap around.
\<close>

lemma spx_sqrt_positive:
  assumes "0 < x" and "x \<le> 335544321"
  shows "1 \<le> spx_sqrt x \<and> spx_sqrt x \<le> 22701"
proof -
  obtain q where q: "spx_ilog4 (word_of_int x) = int q" "4 ^ q \<le> x" "x < 4 ^ Suc q"
    using spx_ilog4_bounds [of x] assms by (auto simp: is_i32_def)
  have "(4 :: int) ^ q < 4 ^ 15" using q(2) assms(2) by simp
  then have q14: "q \<le> 14" using power_less_imp_less_exp [of "4 :: int" q 15] by simp
  let ?x = "VSHR32 x (2 * (int q - 6))"
  let ?p = "sqrt_poly ?x"
  have x: "4096 \<le> ?x" "?x \<le> 16383" using sqrt_argument [OF q(2,3)] by simp_all
  have p: "6033 \<le> ?p" "?p \<le> 22701" using sqrt_poly_bounds [OF x(1) x(2)] by simp_all
  have r: "spx_sqrt x = i16 (VSHR32 ?p (13 - int q))" by (simp add: spx_sqrt_poly q(1) Let_def algebra_simps)
  consider "q = 14" | "q = 0" | "1 \<le> q" "q < 14" using q14 by linarith
  then show ?thesis
  proof cases
    case 1
    then have "?x = x div 65536" by (simp add: VSHR32_def SHR32_def asr_def)
    then have "?x \<le> 5120" using assms(2) by simp
    then have "?p \<le> 9593" using sqrt_poly_bounds(2) [OF x(1), of 5120] by simp
    then show ?thesis using p(1) r 1 by (simp add: VSHR32_def SHL32_def shl_def is_i16_def is_i32_def)
  next
    case 2
    then have "x = 1 \<or> x = 2 \<or> x = 3" using q(2,3) by auto
    then show ?thesis by (elim disjE) (simp; code_simp)+
  next
    case 3
    let ?n = "13 - q"
    have n: "i16 (VSHR32 ?p (13 - int q)) = i16 (asr ?p ?n)"
      using 3 by (cases "q = 13") (simp_all add: VSHR32_def SHR32_def SHL32_def i16_i32 nat_diff_distrib')
    have "(2 :: int) ^ ?n \<le> 2 ^ 12" using 3 by (intro power_increasing) simp_all
    then have "1 * 2 ^ ?n \<le> ?p" using p(1) by simp
    moreover have "22702 * 1 \<le> 22702 * (2 :: int) ^ ?n" by (rule mult_left_mono) simp_all
    then have "?p < 22702 * 2 ^ ?n" using p(2) by linarith
    ultimately have "1 \<le> asr ?p ?n \<and> asr ?p ?n \<le> 22701" using asr_bounds [of 1 ?n ?p 22701] by simp
    then show ?thesis using r n by (simp add: is_i16_def)
  qed
qed

lemma even_wrapped: "even (i16 (SHL32 v (Suc n)))"
proof -
  have "even (i32 u) = even u" "even (i16 u) = even u" for u by (auto simp: i32_def i16_def dvd_mod_iff)
  then show ?thesis by (simp add: SHL32_def shl_def)
qed

lemma spx_sqrt_not_minus_one: "is_i32 x \<Longrightarrow> spx_sqrt x \<noteq> -1"
proof (cases "0 < x")
  case True
  assume "is_i32 x"
  then obtain q where q: "spx_ilog4 (word_of_int x) = int q" "4 ^ q \<le> x" "x < 4 ^ Suc q" "q < 16"
    using spx_ilog4_bounds [of x] True by auto
  let ?p = "sqrt_poly (VSHR32 x (2 * (int q - 6)))"
  have p: "6033 \<le> ?p" "?p \<le> 22701" using sqrt_poly_bounds [OF _ _ order.refl] sqrt_argument [OF q(2,3)] by fastforce+
  have r: "spx_sqrt x = i16 (VSHR32 ?p (13 - int q))" by (simp add: spx_sqrt_poly q(1) Let_def algebra_simps)
  show ?thesis
  proof (cases "q \<le> 13")
    case True
    then have "spx_sqrt x = i16 (asr ?p (13 - q))"
      using r by (cases "q = 13") (simp_all add: VSHR32_def SHR32_def SHL32_def i16_i32 nat_diff_distrib')
    moreover have "is_i16 (asr ?p (13 - q))" using p by (intro is_i16_asr) (simp add: is_i16_def)
    ultimately show ?thesis using p(1) by (simp) (metis asr_nonneg neg_0_le_iff_le not_one_le_zero order.trans zero_le_numeral)
  next
    case False
    then have "VSHR32 ?p (13 - int q) = SHL32 ?p (Suc (q - 14))" using Suc_diff_le [of 14 q] by (simp add: VSHR32_def nat_diff_distrib' Suc_diff_le)
    then have "even (spx_sqrt x)" using r even_wrapped by simp
    then show ?thesis by auto
  qed
next
  case False
  assume x: "is_i32 x"
  show ?thesis
  proof (cases "x = 0")
    case True
    then show ?thesis by simp code_simp
  next
    case neg: False
    let ?w = "word_of_int x :: u32"
    have "uint ?w = x + 4294967296"
    proof -
      have "uint ?w = x mod 4294967296" by (simp add: uint_word_of_int)
      also have "\<dots> = (x + 4294967296) mod 4294967296" by simp
      also have "\<dots> = x + 4294967296" using False neg x by (intro mod_pos_pos_trivial) (simp_all add: is_i32_def)
      finally show ?thesis .
    qed
    then have u: "2147483648 \<le> uint ?w" using x by (simp add: is_i32_def)
    then have "2147483648 \<le> int (unat ?w)" by (simp only: uint_nat)
    then have "2147483648 \<le> unat ?w" by linarith
    moreover have "(2 :: nat) ^ 31 = 2147483648" by simp
    ultimately have "2 ^ 31 \<le> unat ?w" by (simp only:)
    moreover have "?w \<noteq> 0"
    proof
      assume "?w = 0"
      then show False using u by (simp only: unsigned_0)
    qed
    then obtain q where q: "q < 32" "floor_log ?w q" using floor_log_exists by blast
    ultimately have "q = 31" using floor_log_ge [of ?w q 31] by linarith
    then have "spx_ilog4 ?w = 15" using spx_ilog2_floor_log [OF q(2,1)] by (simp add: spx_ilog4_half)
    then have "spx_sqrt x = i16 (SHL32 (sqrt_poly (VSHR32 x 18)) 2)" by (simp add: spx_sqrt_poly VSHR32_def)
    then have "even (spx_sqrt x)" using even_wrapped [of _ 1] by (simp add: numeral_2_eq_2)
    then show ?thesis by auto
  qed
qed

end
