(* ===== verification/Speex_Vq.thy ===== *)
theory Speex_Vq
  imports Speex_Fixed Insertion "HOL-Library.Product_Lexorder" "HOL-Library.Multiset"
begin

text \<open>
  Quantization in Speex (\<open>vq.c\<close>): scalar quantization by boundaries, and the search of a codebook for
  the \<open>N\<close> codewords nearest to a vector, with or without a sign.

  The lists of the best found so far are caller's arrays whose first contents do not matter.
\<close>

subsection \<open>Scalar quantization\<close>

fun quant_loop :: "int \<Rightarrow> int list \<Rightarrow> nat \<Rightarrow> nat \<Rightarrow> nat option" where
  "quant_loop x boundary 0 i = Some i"
| "quant_loop x boundary (Suc n) i =
     do { b \<leftarrow> mem_get boundary i; if x > b then quant_loop x boundary n (i + 1) else Some i }"

definition scal_quant :: "int \<Rightarrow> int list \<Rightarrow> nat \<Rightarrow> nat option" where
  "scal_quant x boundary entries = quant_loop x boundary (entries - 1) 0"

definition scal_quant32 :: "int \<Rightarrow> int list \<Rightarrow> nat \<Rightarrow> nat option" where
  "scal_quant32 x boundary entries = quant_loop x boundary (entries - 1) 0"

lemma quant_loop_finds:
  "i + n \<le> length boundary \<Longrightarrow> (\<forall>j < i. boundary ! j < x) \<Longrightarrow>
     \<exists>k. quant_loop x boundary n i = Some k \<and> k \<le> i + n \<and> (\<forall>j < k. boundary ! j < x) \<and>
         (k < i + n \<longrightarrow> x \<le> boundary ! k)"
proof (induction n arbitrary: i)
  case (Suc n)
  show ?case
  proof (cases "x > boundary ! i")
    case True
    then have "\<forall>j < i + 1. boundary ! j < x" using Suc.prems(2) less_Suc_eq by auto
    then show ?thesis using Suc.IH [of "i + 1"] Suc.prems(1) True by (auto simp: mem_simps)
  next
    case False
    then show ?thesis using Suc.prems by (auto simp: mem_simps)
  qed
qed auto

subsection \<open>The best codewords\<close>

text \<open>Making room in the two lists, from the end.\<close>

fun nbest_shift :: "int \<Rightarrow> nat \<Rightarrow> nat \<Rightarrow> int list \<Rightarrow> nat list \<Rightarrow> nat \<times> int list \<times> nat list" where
  "nbest_shift dist used 0 best_dist nbest = (0, best_dist, nbest)"
| "nbest_shift dist used (Suc k) best_dist nbest =
     (if Suc k > used \<or> dist < best_dist ! k
      then nbest_shift dist used k (best_dist[Suc k := best_dist ! k]) (nbest[Suc k := nbest ! k])
      else (Suc k, best_dist, nbest))"

definition nbest_insert ::
    "nat \<Rightarrow> nat \<Rightarrow> int \<Rightarrow> nat \<Rightarrow> int list \<times> nat list \<times> nat \<Rightarrow> int list \<times> nat list \<times> nat" where
  "nbest_insert N i dist index = (\<lambda>(best_dist, nbest, used).
     if i < N \<or> dist < best_dist ! (N - 1) then
       (let (k, best_dist, nbest) = nbest_shift dist used (N - 1) best_dist nbest
        in (best_dist[k := dist], nbest[k := index], used + 1))
     else (best_dist, nbest, used))"

text \<open>The correlation with codeword \<open>i\<close>.\<close>

definition codeword_dot :: "int list \<Rightarrow> int list \<Rightarrow> nat \<Rightarrow> nat \<Rightarrow> int option" where
  "codeword_dot inp codebook n i =
     do { xs \<leftarrow> mem_read inp 0 n;
          cs \<leftarrow> mem_read codebook (n * i) n;
          Some (foldl (\<lambda>dist (x, c). MAC16_16 dist x c) 0 (zip xs cs)) }"

text \<open>The distance, without the energy of the vector itself; with a sign, whether the codeword is negated.\<close>

definition plain_dist :: "int list \<Rightarrow> int list \<Rightarrow> nat \<Rightarrow> int list \<Rightarrow> nat \<Rightarrow> int option" where
  "plain_dist inp codebook n E i =
     do { dot \<leftarrow> codeword_dot inp codebook n i; e \<leftarrow> mem_get E i; Some (SUB32 (SHR32 e 1) dot) }"

definition signed_dist :: "int list \<Rightarrow> int list \<Rightarrow> nat \<Rightarrow> int list \<Rightarrow> nat \<Rightarrow> (int \<times> bool) option" where
  "signed_dist inp codebook n E i =
     do { dot \<leftarrow> codeword_dot inp codebook n i; e \<leftarrow> mem_get E i;
          let (dist, sign) = (if dot > 0 then (i32 (- dot), False) else (dot, True));
          Some (ADD32 dist (SHR32 e 1), sign) }"

fun vq_nbest_loop ::
    "(nat \<Rightarrow> (int \<times> nat) option) \<Rightarrow> nat \<Rightarrow> nat list \<Rightarrow> int list \<times> nat list \<times> nat \<Rightarrow> (int list \<times> nat list \<times> nat) option" where
  "vq_nbest_loop entry N [] st = Some st"
| "vq_nbest_loop entry N (i # is') st =
     do { (dist, index) \<leftarrow> entry i; vq_nbest_loop entry N is' (nbest_insert N i dist index st) }"

definition vq_nbest ::
    "int list \<Rightarrow> int list \<Rightarrow> nat \<Rightarrow> nat \<Rightarrow> int list \<Rightarrow> nat \<Rightarrow> nat list \<Rightarrow> int list \<Rightarrow> (nat list \<times> int list) option" where
  "vq_nbest inp codebook n entries E N nbest best_dist =
     do { require (1 \<le> N \<and> N \<le> length nbest \<and> N \<le> length best_dist);
          (best_dist, nbest, used) \<leftarrow>
            vq_nbest_loop (\<lambda>i. do { dist \<leftarrow> plain_dist inp codebook n E i; Some (dist, i) }) N [0..<entries]
              (best_dist, nbest, 0);
          Some (nbest, best_dist) }"

definition vq_nbest_sign ::
    "int list \<Rightarrow> int list \<Rightarrow> nat \<Rightarrow> nat \<Rightarrow> int list \<Rightarrow> nat \<Rightarrow> nat list \<Rightarrow> int list \<Rightarrow> (nat list \<times> int list) option" where
  "vq_nbest_sign inp codebook n entries E N nbest best_dist =
     do { require (1 \<le> N \<and> N \<le> length nbest \<and> N \<le> length best_dist);
          (best_dist, nbest, used) \<leftarrow>
            vq_nbest_loop (\<lambda>i. do { (dist, sign) \<leftarrow> signed_dist inp codebook n E i;
                                    Some (dist, if sign then i + entries else i) }) N [0..<entries]
              (best_dist, nbest, 0);
          Some (nbest, best_dist) }"

subsection \<open>Insertion finds the place\<close>

lemma nbest_shift_spec:
  assumes "nbest_shift dist used K bd nb = (k, bd', nb')" and "K < length bd" and "length nb = length bd"
    and "sorted (take (min used K) bd)"
  shows "k = first_slot (\<lambda>v. dist < v) (take (min used K) bd) \<and> length bd' = length bd \<and> length nb' = length bd \<and>
     (\<forall>j < length bd. bd' ! j = (if k < j \<and> j \<le> K then bd ! (j - 1) else bd ! j) \<and>
                       nb' ! j = (if k < j \<and> j \<le> K then nb ! (j - 1) else nb ! j))"
  using assms
proof (induction K arbitrary: bd nb)
  case 0
  then show ?case by auto
next
  case (Suc K)
  show ?case
  proof (cases "Suc K > used \<or> dist < bd ! K")
    case True
    let ?bd = "bd[Suc K := bd ! K]" and ?nb = "nb[Suc K := nb ! K]"
    have t: "take (min used K) ?bd = take (min used K) bd" by simp
    have "take (min used K) bd = take (min used K) (take (min used (Suc K)) bd)" by (simp add: min_def)
    then have so: "sorted (take (min used K) ?bd)" unfolding t using Suc.prems(4) sorted_wrt_take by metis
    note ih = Suc.IH [of ?bd ?nb, OF _ _ _ so]
    have i: "k = first_slot (\<lambda>v. dist < v) (take (min used K) bd)" "length bd' = length bd" "length nb' = length bd"
      "\<forall>j < length bd. bd' ! j = (if k < j \<and> j \<le> K then ?bd ! (j - 1) else ?bd ! j) \<and>
                       nb' ! j = (if k < j \<and> j \<le> K then ?nb ! (j - 1) else ?nb ! j)"
      using ih Suc.prems True by simp_all
    have "first_slot (\<lambda>v. dist < v) (take (min used (Suc K)) bd) = first_slot (\<lambda>v. dist < v) (take (min used K) bd)"
    proof (cases "Suc K > used")
      case False
      then have "dist < bd ! K" "min used (Suc K) = Suc K" "min used K = K" using True by auto
      moreover have "take (Suc K) bd = take K bd @ [bd ! K]" using Suc.prems(2) by (simp add: take_Suc_conv_app_nth)
      ultimately show ?thesis by (simp add: first_slot_snoc)
    qed (simp add: min_def)
    moreover have "k \<le> K" using i(1) first_slot_le [of "\<lambda>v. dist < v" "take (min used K) bd"] by simp
    ultimately show ?thesis using i Suc.prems(2,3) by (auto simp: nth_list_update le_Suc_eq)
  next
    case False
    then have u: "min used (Suc K) = Suc K" "bd ! K \<le> dist" by auto
    then have r: "k = Suc K" "bd' = bd" "nb' = nb" using Suc.prems(1) False by auto
    have "\<forall>v \<in> set (take (Suc K) bd). v \<le> bd ! K"
    proof -
      have "take (Suc K) bd = take K bd @ [bd ! K]" using Suc.prems(2) by (simp add: take_Suc_conv_app_nth)
      then show ?thesis using Suc.prems(4) unfolding u(1) by (auto simp: sorted_append)
    qed
    then have "first_slot (\<lambda>v. dist < v) (take (Suc K) bd) = length (take (Suc K) bd)"
      using u(2) by (intro first_slot_none) auto
    then show ?thesis using r u(1) Suc.prems(2,3) by auto
  qed
qed

subsection \<open>The lists hold the best\<close>

text \<open>The \<open>N\<close> best of the first \<open>i\<close> codewords, of equal distances the first.\<close>

definition best_codewords :: "(nat \<Rightarrow> int) \<Rightarrow> nat \<Rightarrow> nat \<Rightarrow> (int \<times> nat) list" where
  "best_codewords d N i = take N (sort (map (\<lambda>j. (d j, j)) [0..<i]))"

definition nbest_inv :: "(nat \<Rightarrow> int) \<Rightarrow> (nat \<Rightarrow> nat) \<Rightarrow> nat \<Rightarrow> nat \<Rightarrow> int list \<times> nat list \<times> nat \<Rightarrow> bool" where
  "nbest_inv d c N i = (\<lambda>(bd, nb, used).
     N \<le> length bd \<and> length nb = length bd \<and> (if i \<le> N then used = i else N \<le> used) \<and>
     take (min i N) bd = map fst (best_codewords d N i) \<and>
     take (min i N) nb = map (\<lambda>(v, j). c j) (best_codewords d N i))"

lemma length_best_codewords [simp]: "length (best_codewords d N i) = min i N"
  by (simp add: best_codewords_def min.commute)

lemma best_codewords_snoc: "best_codewords d N (Suc i) = take N (insort (d i, i) (best_codewords d N i))"
proof -
  let ?e = "\<lambda>j. (d j, j)"
  have "sort (map ?e [0..<Suc i]) = insort (d i, i) (sort (map ?e [0..<i]))"
    by (rule properties_for_sort) (simp_all add: sorted_insort)
  then show ?thesis by (simp add: best_codewords_def take_insort)
qed

lemma sorted_best_codewords: "sorted (best_codewords d N i)" "sorted (map fst (best_codewords d N i))"
proof -
  show s: "sorted (best_codewords d N i)" by (simp add: best_codewords_def sorted_wrt_take)
  then show "sorted (map fst (best_codewords d N i))"
    unfolding sorted_map by (rule sorted_wrt_mono_rel [rotated]) (auto simp: less_eq_prod_def)
qed

lemma best_codewords_old: "v \<in> set (best_codewords d N i) \<Longrightarrow> snd v < i \<and> fst v = d (snd v)"
  unfolding best_codewords_def by (drule in_set_takeD) auto

lemma best_codewords_place:
  "first_slot (\<lambda>v. (d i, i) < v) (best_codewords d N i) = first_slot (\<lambda>v. d i < v) (map fst (best_codewords d N i))"
  unfolding first_slot_map by (rule first_slot_cong) (use best_codewords_old in \<open>fastforce simp: less_prod_def'\<close>)

text \<open>The array after an entry has been put in its place.\<close>

lemma inserted_array:
  assumes bd: "N \<le> length bd" "m \<le> N" "k \<le> m" "k < N" "length bd' = length bd"
    and sh: "\<forall>j < length bd. bd' ! j = (if k < j \<and> j \<le> N - 1 then bd ! (j - 1) else bd ! j)"
  shows "take (min (Suc m) N) (bd'[k := x]) = take N (take k (take m bd) @ x # drop k (take m bd))"
proof (rule nth_equalityI)
  show "length (take (min (Suc m) N) (bd'[k := x])) = length (take N (take k (take m bd) @ x # drop k (take m bd)))"
    using bd by auto
  fix j assume "j < length (take (min (Suc m) N) (bd'[k := x]))"
  then have j: "j < Suc m" "j < N" "j < length bd" using bd by auto
  then show "take (min (Suc m) N) (bd'[k := x]) ! j = take N (take k (take m bd) @ x # drop k (take m bd)) ! j"
    using bd sh by (cases "j = k"; cases "j < k") (auto simp: nth_append nth_Cons' min_def)
qed

lemma nbest_insert_inv:
  assumes inv: "nbest_inv d c N i (bd, nb, used)" and N: "1 \<le> N"
  shows "nbest_inv d c N (Suc i) (nbest_insert N i (d i) (c i) (bd, nb, used))"
proof -
  let ?S = "best_codewords d N i" and ?m = "min i N"
  have i: "N \<le> length bd" "length nb = length bd" "if i \<le> N then used = i else N \<le> used"
    "take ?m bd = map fst ?S" "take ?m nb = map (\<lambda>(v, j). c j) ?S"
    using inv by (simp_all add: nbest_inv_def)
  show ?thesis
  proof (cases "i < N \<or> d i < bd ! (N - 1)")
    case False
    then have m: "N \<le> i" "?m = N" "bd ! (N - 1) \<le> d i" by auto
    have "map fst ?S ! (N - 1) = bd ! (N - 1)" using N by (simp add: i(4) [symmetric] m)
    then have "fst (?S ! (N - 1)) \<le> d i" using m N by (simp add: nth_map)
    moreover have "?S ! (N - 1) \<in> set ?S" using m N by (intro nth_mem) simp
    ultimately have "?S ! (N - 1) \<le> (d i, i)" using best_codewords_old [of "?S ! (N - 1)" d N i]
      by (auto simp: less_eq_prod_def)
    then have "best_codewords d N (Suc i) = ?S"
      using insort_beyond [OF sorted_best_codewords(1), of N d N i "(d i, i)"] m N by (simp add: best_codewords_snoc)
    then show ?thesis using False i m by (auto simp: nbest_inv_def nbest_insert_def min_def split: if_splits)
  next
    case True
    obtain k bd' nb' where sh: "nbest_shift (d i) used (N - 1) bd nb = (k, bd', nb')" by (metis prod_cases3)
    have "sorted (take ?m bd)" unfolding i(4) by (rule sorted_best_codewords)
    moreover have le: "min used (N - 1) \<le> ?m" using i(3) by (auto split: if_splits)
    moreover have "take (min used (N - 1)) bd = take (min used (N - 1)) (take ?m bd)" using le by (simp add: min_def)
    ultimately have "sorted (take (min used (N - 1)) bd)" by (metis sorted_wrt_take)
    note spec = nbest_shift_spec [OF sh _ i(2) this]
    have k: "k = first_slot (\<lambda>v. d i < v) (take (min used (N - 1)) bd)" "length bd' = length bd" "length nb' = length bd"
      "\<forall>j < length bd. bd' ! j = (if k < j \<and> j \<le> N - 1 then bd ! (j - 1) else bd ! j)"
      "\<forall>j < length nb. nb' ! j = (if k < j \<and> j \<le> N - 1 then nb ! (j - 1) else nb ! j)"
      using spec i(1,2) N by auto
    have kp: "k = first_slot (\<lambda>v. (d i, i) < v) ?S"
    proof (cases "i < N")
      case True
      then have "min used (N - 1) = i" "?m = i" using i(3) by auto
      then show ?thesis using k(1) by (simp add: best_codewords_place i(4) [symmetric])
    next
      case False
      then have "min used (N - 1) = N - 1" "?m = N" "d i < bd ! (N - 1)" using i(3) True by (auto split: if_splits)
      moreover have "take N bd = take (N - 1) bd @ [bd ! (N - 1)]"
        using N i(1) take_Suc_conv_app_nth [of "N - 1" bd] by simp
      ultimately show ?thesis using k(1) by (simp add: best_codewords_place i(4) [symmetric] first_slot_snoc)
    qed
    have "k \<le> N - 1" using k(1) first_slot_le [of "\<lambda>v. d i < v" "take (min used (N - 1)) bd"] by simp
    then have kN: "k < N" using N by linarith
    have km: "k \<le> ?m" using first_slot_le [of "\<lambda>v. (d i, i) < v" ?S] by (simp add: kp)
    have S': "best_codewords d N (Suc i) = take N (take k ?S @ (d i, i) # drop k ?S)"
      unfolding best_codewords_snoc insort_slot [OF sorted_best_codewords(1)] kp ..
    have S'f: "map f (best_codewords d N (Suc i)) = take N (take k (map f ?S) @ f (d i, i) # drop k (map f ?S))"
      for f :: "int \<times> nat \<Rightarrow> 'z" by (simp only: S' take_map [symmetric] drop_map [symmetric] map_append list.map)
    have mm: "min (Suc i) N = min (Suc ?m) N" by simp
    have a: "take (min (Suc i) N) (bd'[k := d i]) = map fst (best_codewords d N (Suc i))"
      unfolding mm inserted_array [OF i(1) _ km kN k(2,4), OF min.cobounded2] i(4) S'f by simp
    have b: "take (min (Suc i) N) (nb'[k := c i]) = map (\<lambda>(v, j). c j) (best_codewords d N (Suc i))"
      unfolding mm inserted_array [OF _ _ km kN _ k(5), OF i(1)[folded i(2)] min.cobounded2 k(3)[folded i(2)]] i(5) S'f
      by simp
    have "nbest_insert N i (d i) (c i) (bd, nb, used) = (bd'[k := d i], nb'[k := c i], used + 1)"
      using True sh by (simp add: nbest_insert_def)
    then show ?thesis using a b i(1,2,3) k(2,3) by (auto simp: nbest_inv_def split: if_splits)
  qed
qed

lemma vq_nbest_loop_inv:
  assumes "1 \<le> N"
  shows "nbest_inv d c N i (bd, nb, used) \<Longrightarrow> (\<And>j. i \<le> j \<Longrightarrow> j < i + n \<Longrightarrow> entry j = Some (d j, c j)) \<Longrightarrow>
    \<exists>bd' nb' used'. vq_nbest_loop entry N [i..<i + n] (bd, nb, used) = Some (bd', nb', used') \<and>
      nbest_inv d c N (i + n) (bd', nb', used')"
proof (induction n arbitrary: i bd nb used)
  case (Suc n)
  obtain bd1 nb1 used1 where st: "nbest_insert N i (d i) (c i) (bd, nb, used) = (bd1, nb1, used1)" by (metis prod_cases3)
  have inv: "nbest_inv d c N (Suc i) (bd1, nb1, used1)" using nbest_insert_inv [OF Suc.prems(1) assms] st by simp
  have "[i..<i + Suc n] = i # [Suc i..<Suc i + n]" by (simp add: upt_conv_Cons)
  then show ?case using Suc.IH [OF inv] Suc.prems(2) st by simp
qed auto

text \<open>The searches of a codebook that is all there.\<close>

definition codebook_ok :: "int list \<Rightarrow> int list \<Rightarrow> nat \<Rightarrow> nat \<Rightarrow> int list \<Rightarrow> bool" where
  "codebook_ok inp codebook n entries E \<longleftrightarrow> n \<le> length inp \<and> n * entries \<le> length codebook \<and> entries \<le> length E"

lemma codeword_dot_total:
  assumes "codebook_ok inp codebook n entries E" and "i < entries"
  shows "codeword_dot inp codebook n i =
    Some (foldl (\<lambda>dist (x, c). MAC16_16 dist x c) 0 (zip (take n inp) (take n (drop (n * i) codebook))))"
proof -
  have "n * i + n \<le> n * entries" using assms(2) by (metis add.commute mult_Suc_right mult_le_mono2 Suc_leI)
  then show ?thesis using assms by (simp add: codeword_dot_def codebook_ok_def mem_simps)
qed

lemma plain_dist_total:
  "codebook_ok inp codebook n entries E \<Longrightarrow> i < entries \<Longrightarrow> plain_dist inp codebook n E i \<noteq> None"
  by (simp add: plain_dist_def codeword_dot_total) (simp add: codebook_ok_def mem_simps)

lemma signed_dist_total:
  "codebook_ok inp codebook n entries E \<Longrightarrow> i < entries \<Longrightarrow> signed_dist inp codebook n E i \<noteq> None"
  by (simp add: signed_dist_def codeword_dot_total Let_def) (simp add: codebook_ok_def mem_simps ex_bool_eq)

lemma nbest_start: "N \<le> length bd \<Longrightarrow> N \<le> length nb \<Longrightarrow> length nb = length bd \<Longrightarrow> nbest_inv d c N 0 (bd, nb, 0)"
  by (simp add: nbest_inv_def best_codewords_def)

text \<open>An entry of the search: its distance and the index recorded for it.\<close>

lemma vq_nbest_loop_best:
  assumes N: "1 \<le> N" "N \<le> entries" "N \<le> length bd" "length nb = length bd"
    and e: "\<And>j. j < entries \<Longrightarrow> entry j = Some (d j, c j)"
  shows "\<exists>bd' nb' used'. vq_nbest_loop entry N [0..<entries] (bd, nb, 0) = Some (bd', nb', used') \<and>
    length bd' = length bd \<and> length nb' = length bd \<and>
    take N bd' = map fst (best_codewords d N entries) \<and> take N nb' = map (\<lambda>(v, j). c j) (best_codewords d N entries)"
proof -
  have keep: "length (fst (nbest_insert N i x y (b, n', u))) = length b" for i x y b n' u
  proof -
    have "length (fst (snd (nbest_shift a v K b1 n1))) = length b1" for a v K b1 n1
      by (induction a v K b1 n1 rule: nbest_shift.induct) auto
    then have "length (fst (snd (nbest_shift x u (N - 1) b n'))) = length b" .
    then show ?thesis by (cases "nbest_shift x u (N - 1) b n'") (simp add: nbest_insert_def)
  qed
  have len: "vq_nbest_loop entry N is' (b, n', u) = Some (b', n'', u') \<Longrightarrow> length b' = length b" for is' b n' u b' n'' u'
  proof (induction is' arbitrary: b n' u)
    case (Cons i is')
    then obtain x y where xy: "entry i = Some (x, y)" by (cases "entry i") auto
    obtain b1 n1 u1 where st: "nbest_insert N i x y (b, n', u) = (b1, n1, u1)" by (metis prod_cases3)
    show ?case using Cons.IH [of b1 n1 u1] Cons.prems xy st keep [of i x y b n' u] by simp
  qed simp
  have "nbest_inv d c N 0 (bd, nb, 0)" using N by (simp add: nbest_start)
  then obtain bd' nb' used' where r: "vq_nbest_loop entry N [0..<entries] (bd, nb, 0) = Some (bd', nb', used')"
    "nbest_inv d c N entries (bd', nb', used')"
    using vq_nbest_loop_inv [OF N(1), of d c 0 bd nb 0 entries entry] e by auto
  then show ?thesis using len [OF r(1)] N(2) by (auto simp: nbest_inv_def min_def split: if_splits)
qed

lemma vq_nbest_best:
  assumes cb: "codebook_ok inp codebook n entries E"
    and N: "1 \<le> N" "N \<le> entries" "N \<le> length bd" "length nb = length bd"
  defines "d \<equiv> \<lambda>i. the (plain_dist inp codebook n E i)"
  shows "\<exists>nb' bd'. vq_nbest inp codebook n entries E N nb bd = Some (nb', bd') \<and>
    length bd' = length bd \<and> length nb' = length bd \<and>
    take N bd' = map fst (best_codewords d N entries) \<and> take N nb' = map snd (best_codewords d N entries)"
proof -
  let ?entry = "\<lambda>i. do { dist \<leftarrow> plain_dist inp codebook n E i; Some (dist, i) }"
  have "?entry j = Some (d j, j)" if "j < entries" for j
    using plain_dist_total [OF cb that] by (auto simp: d_def)
  from vq_nbest_loop_best [OF N, of ?entry d "\<lambda>i. i", OF this]
  show ?thesis using N by (auto simp: vq_nbest_def case_prod_unfold)
qed

lemma vq_nbest_sign_best:
  assumes cb: "codebook_ok inp codebook n entries E"
    and N: "1 \<le> N" "N \<le> entries" "N \<le> length bd" "length nb = length bd"
  defines "d \<equiv> \<lambda>i. fst (the (signed_dist inp codebook n E i))"
    and "neg \<equiv> \<lambda>i. snd (the (signed_dist inp codebook n E i))"
  shows "\<exists>nb' bd'. vq_nbest_sign inp codebook n entries E N nb bd = Some (nb', bd') \<and>
    length bd' = length bd \<and> length nb' = length bd \<and>
    take N bd' = map fst (best_codewords d N entries) \<and>
    take N nb' = map (\<lambda>(v, i). if neg i then i + entries else i) (best_codewords d N entries)"
proof -
  let ?entry = "\<lambda>i. do { (dist, sign) \<leftarrow> signed_dist inp codebook n E i; Some (dist, if sign then i + entries else i) }"
  have "?entry j = Some (d j, if neg j then j + entries else j)" if "j < entries" for j
    using signed_dist_total [OF cb that] by (auto simp: d_def neg_def)
  from vq_nbest_loop_best [OF N, of ?entry d "\<lambda>i. if neg i then i + entries else i", OF this]
  show ?thesis using N by (auto simp: vq_nbest_sign_def)
qed

lemma nbest_indices:
  assumes "take N nb = map (\<lambda>(v, j). c j) (best_codewords d N entries)" and "k < N" "N \<le> entries" and "N \<le> length nb"
  shows "\<exists>j < entries. nb ! k = c j"
proof -
  have "nb ! k = map (\<lambda>(v, j). c j) (best_codewords d N entries) ! k" using assms(1,2,4) by (metis nth_take)
  also have "\<dots> = c (snd (best_codewords d N entries ! k))" using assms(2,3) by (simp add: case_prod_unfold)
  finally have "nb ! k = c (snd (best_codewords d N entries ! k))" .
  moreover have "best_codewords d N entries ! k \<in> set (best_codewords d N entries)" using assms(2,3) by (intro nth_mem) simp
  ultimately show ?thesis using best_codewords_old by blast
qed

subsection \<open>Properties\<close>

text \<open>C33. The codebook searches find the \<open>N\<close> best codewords. With a codebook of at least \<open>N\<close> entries, and
  whatever the result arrays held before, no access leaves an array, and the first \<open>N\<close> places of the
  results are the \<open>N\<close> smallest distances in order, with their codewords, the first of equal distances
  first; with signs, a codeword to be negated is recorded with its index raised by the number of entries.\<close>

theorem vq_nbest_finds_best:
  assumes "codebook_ok inp codebook n entries E" and "1 \<le> N" "N \<le> entries" and "N \<le> length best_dist" "length nbest = length best_dist"
  defines "d \<equiv> \<lambda>i. the (plain_dist inp codebook n E i)" and "s \<equiv> \<lambda>i. the (signed_dist inp codebook n E i)"
  shows "(\<exists>nb bd. vq_nbest inp codebook n entries E N nbest best_dist = Some (nb, bd) \<and>
       take N (zip bd nb) = take N (sort (map (\<lambda>i. (d i, i)) [0..<entries]))) \<and>
     (\<exists>nb bd. vq_nbest_sign inp codebook n entries E N nbest best_dist = Some (nb, bd) \<and>
       take N (zip bd nb) = map (\<lambda>(v, i). (v, if snd (s i) then i + entries else i))
         (take N (sort (map (\<lambda>i. (fst (s i), i)) [0..<entries]))))"
proof -
  have z: "zip (map fst ps) (map (\<lambda>(v, i). c i) ps) = map (\<lambda>(v, i). (v, c i)) ps" for c :: "nat \<Rightarrow> nat" and ps :: "(int \<times> nat) list"
    by (induction ps) auto
  have z': "zip (map fst ps) (map snd ps) = ps" for ps :: "(int \<times> nat) list"
    by (rule zip_map_fst_snd)
  show ?thesis
    using vq_nbest_best [OF assms(1-5)] vq_nbest_sign_best [OF assms(1-5)]
    by (auto simp: take_zip z z' d_def s_def best_codewords_def)
qed

theorem vq_nbest_finds_best_witness:
  "\<exists>nb bd. vq_nbest [1, 2] [1, 0, 2, 2, 0, 1] 2 3 [2, 16, 2] 2 [7, 7] [9, 9] = Some (nb, bd) \<and>
     take 2 (zip bd nb) = take 2 (sort (map (\<lambda>i. (the (plain_dist [1, 2] [1, 0, 2, 2, 0, 1] 2 [2, 16, 2] i), i)) [0..<3]))"
  using vq_nbest_finds_best [of "[1, 2]" "[1, 0, 2, 2, 0, 1]" 2 3 "[2, 16, 2]" 2 "[9, 9]" "[7, 7]"]
  by (auto simp: codebook_ok_def)

end
