(* ===== verification/Speex_Stream.thy ===== *)
theory Speex_Stream
  imports Speex_Bits
begin

text \<open>
  Parameters in a Speex packet, for the codec that reads and writes them through \<open>bits.c\<close>: a reader
  always answers, whatever the packet holds, with a value of the width asked for; and a
  parameter written by the encoder is the one the decoder reads.
\<close>

subsection \<open>A reader always answers\<close>

text \<open>A reader in order, or one that has run past the end of its packet.\<close>

definition rd_ok :: "speex_bits \<Rightarrow> bool" where
  "rd_ok b \<longleftrightarrow> overflow b \<or> reader_wf b"

lemma take_bit_bits_val: "take_bit (length vs) (bits_val vs) = bits_val vs"
proof (induction vs rule: rev_induct)
  case (snoc v vs)
  have "bits_val (vs @ [v]) = push_bit 1 (bits_val vs) OR of_bool v" by (simp add: bits_val_def add_bit_def)
  moreover have "take_bit (Suc n) (push_bit 1 x OR of_bool v) = push_bit 1 (take_bit n x) OR of_bool v" for n and x :: u32
    by (simp add: take_bit_or take_bit_push_bit del: push_bit_Suc)
  ultimately show ?case using snoc by simp
qed (simp add: bits_val_def)

lemma uint_bits_val_less: "uint (bits_val vs) < 2 ^ length vs"
proof -
  have "uint (bits_val vs) = take_bit (length vs) (uint (bits_val vs))"
    by (metis take_bit_bits_val unsigned_take_bit_eq)
  also have "\<dots> < 2 ^ length vs" by simp
  finally show ?thesis .
qed

lemma unpack_answers:
  assumes "rd_ok b"
  shows "\<exists>v b'. speex_bits_unpack_unsigned b n = Some (v, b') \<and> rd_ok b' \<and> unat v < 2 ^ n"
proof (cases "reader_wf b \<and> n \<le> length (remaining b)")
  case True
  then obtain b' where b': "speex_bits_unpack_unsigned b n = Some (bits_val (take n (remaining b)), b')" "reader_wf b'"
    using unpack_unsigned_takes advanced_reader by blast
  have "uint (bits_val (take n (remaining b))) < 2 ^ n" using uint_bits_val_less [of "take n (remaining b)"] True by simp
  then have "unat (bits_val (take n (remaining b))) < 2 ^ n"
    by (metis nat_less_numeral_power_cancel_iff of_nat_less_numeral_power_cancel_iff uint_nat unat_eq_nat_uint)
  then show ?thesis using b' by (auto simp: rd_ok_def)
next
  case False
  then have "past_end b n \<or> overflow b" using assms not_past_end [of b n] by (auto simp: rd_ok_def)
  then show ?thesis using unpack_past_end by (fastforce simp: rd_ok_def)
qed

lemma unpack_bit: "rd_ok b \<Longrightarrow> speex_bits_unpack_unsigned b 1 = Some (v, b') \<Longrightarrow> v = 0 \<or> v = 1"
proof -
  assume "rd_ok b" "speex_bits_unpack_unsigned b 1 = Some (v, b')"
  then have "unat v < 2" using unpack_answers [of b 1] by auto
  then have "unat v = 0 \<or> unat v = 1" by auto
  then show ?thesis by (simp add: word_unat_eq_iff)
qed

subsection \<open>What is written is read\<close>

text \<open>The reader takes the value of a field that comes next.\<close>

lemma unpack_field:
  assumes "reader_wf b" and "remaining b = msb_bits n d @ rest"
  shows "\<exists>b'. speex_bits_unpack_unsigned b n = Some (take_bit n d, b') \<and> reader_wf b' \<and> remaining b' = rest"
  using sb_reader.get_fields_takes [OF assms(1), of "[(d, n)]" rest] assms(2) by (auto split: Option.bind_splits)

lemma pack_field:
  assumes "can_receive r b" and "n \<le> 32" and "pack_fits b (n + m + 8)"
  shows "\<exists>b'. speex_bits_pack ra b d n = Some b' \<and> can_receive r b' \<and> written b' = written b @ msb_bits n d \<and>
    pack_fits b' (m + 8)"
  using sb_channel.pack_appends [of r b n ra d] assms sb_channel.fits_less by (fastforce simp: pack_fits_def)

lemma take_bit_small: "unat d < 2 ^ n \<Longrightarrow> take_bit n d = (d :: u32)"
  by (metis take_bit_nat_eq_self unsigned_take_bit_eq word_eq_iff_unsigned)

text \<open>Small numbers as fields.\<close>

lemma unat_field: "k < 4294967296 \<Longrightarrow> unat (of_nat k :: u32) = k"
  by (simp add: unsigned_of_nat take_bit_nat_eq_self)

lemma uint_field: "k < 4294967296 \<Longrightarrow> uint (of_nat k :: u32) = int k"
  using unat_field [of k] by (simp add: uint_nat)

lemma field_value: "k < 2 ^ n \<Longrightarrow> n \<le> 32 \<Longrightarrow> take_bit n (of_nat k :: u32) = of_nat k"
proof -
  assume k: "k < 2 ^ n" "n \<le> 32"
  then have "(2::nat) ^ n \<le> 2 ^ 32" by (intro power_increasing) simp_all
  then have "unat (of_nat k :: u32) = k" using k by (intro unat_field) simp
  then show ?thesis using take_bit_small [of "of_nat k" n] k(1) by simp
qed

subsection \<open>How much is read\<close>

text \<open>
  \<open>b'\<close> is the reader after \<open>n\<close> bits. When the packet has that many left, they are exactly what is gone; otherwise the reader is
  in order or has noticed the end.
\<close>

definition spends :: "speex_bits \<Rightarrow> nat \<Rightarrow> speex_bits \<Rightarrow> bool" where
  "spends b n b' \<longleftrightarrow>
     rd_ok b' \<and> (reader_wf b \<longrightarrow> n \<le> length (remaining b) \<longrightarrow> reader_wf b' \<and> remaining b' = drop n (remaining b))"

lemma spends_ok: "spends b n b' \<Longrightarrow> rd_ok b'"
  by (simp add: spends_def)

lemma spends_none: "rd_ok b \<Longrightarrow> spends b 0 b"
  by (simp add: spends_def)

lemma spends_trans: "spends b n b1 \<Longrightarrow> spends b1 m b2 \<Longrightarrow> spends b (n + m) b2"
  by (auto simp: spends_def add.commute)

lemma unpack_spends:
  assumes "rd_ok b"
  shows "\<exists>v b'. speex_bits_unpack_unsigned b n = Some (v, b') \<and> spends b n b' \<and> unat v < 2 ^ n"
proof -
  obtain v b' where v: "speex_bits_unpack_unsigned b n = Some (v, b')" "rd_ok b'" "unat v < 2 ^ n"
    using unpack_answers [OF assms] by blast
  have "reader_wf b' \<and> remaining b' = drop n (remaining b)" if "reader_wf b" "n \<le> length (remaining b)"
    using sb_reader.unpack_takes [OF that] v(1) by auto
  then show ?thesis using v by (auto simp: spends_def)
qed

end
