(* ===== verification/Quant_Lsp.thy ===== *)
theory Quant_Lsp
  imports Speex_Fixed Speex_Tables Speex_Stream
begin

text \<open>
  The quantization of line spectral pairs (\<open>quant_lsp.c\<close>), in three formats: narrowband, low bit rate
  and high band. Each writes the indices of codewords that refine the same vector one after another,
  and the decoder adds them up. \<open>ra\<close> is the reallocator of the bit packer.

  The error of the encoder is kept in 16 bits and doubled between the stages; the lemmas show
  that whatever it wraps to on the way, the encoder's quantized pairs are the decoder's.
\<close>

subsection \<open>Linear positions and weights\<close>

definition LSP_LINEAR :: "nat \<Rightarrow> int" where "LSP_LINEAR i = SHL16 (int i + 1) 11"
definition LSP_LINEAR_HIGH :: "nat \<Rightarrow> int" where "LSP_LINEAR_HIGH i = ADD16 (MULT16_16_16 (int i) 2560) 6144"
definition LSP_DIV_256 :: "int \<Rightarrow> int" where "LSP_DIV_256 x = SHL16 (i16 x) 5"
definition LSP_DIV_512 :: "int \<Rightarrow> int" where "LSP_DIV_512 x = SHL16 (i16 x) 4"
definition LSP_DIV_1024 :: "int \<Rightarrow> int" where "LSP_DIV_1024 x = SHL16 (i16 x) 3"
definition LSP_PI :: int where "LSP_PI = 25736"

text \<open>The weight of a pair is larger the closer its neighbours are.\<close>

definition quant_weight :: "int list \<Rightarrow> nat \<Rightarrow> nat \<Rightarrow> int option" where
  "quant_weight qlsp order i =
     do { let tmp1 = (if i = 0 then qlsp ! i else i16 (qlsp ! i - qlsp ! (i - 1)));
          let tmp2 = (if i = order - 1 then i16 (LSP_PI - qlsp ! i) else i16 (qlsp ! (i + 1) - qlsp ! i));
          DIV32_16 81920 (ADD16 300 (if tmp2 < tmp1 then tmp2 else tmp1)) }"

fun map_indices :: "(nat \<Rightarrow> 'a option) \<Rightarrow> nat list \<Rightarrow> 'a list option" where
  "map_indices f [] = Some []"
| "map_indices f (i # is') = do { x \<leftarrow> f i; xs \<leftarrow> map_indices f is'; Some (x # xs) }"

definition compute_quant_weights :: "int list \<Rightarrow> nat \<Rightarrow> int list option" where
  "compute_quant_weights qlsp order =
     do { require (order \<le> length qlsp); map_indices (quant_weight qlsp order) [0..<order] }"

subsection \<open>The nearest codeword\<close>

text \<open>\<open>dist i\<close> is the distance of codeword \<open>i\<close>.\<close>

fun best_loop :: "(nat \<Rightarrow> int option) \<Rightarrow> nat list \<Rightarrow> int \<times> nat \<Rightarrow> (int \<times> nat) option" where
  "best_loop dist [] best = Some best"
| "best_loop dist (i # is') (best_dist, best_ix) =
     do { d \<leftarrow> dist i; best_loop dist is' (if d < best_dist then (d, i) else (best_dist, best_ix)) }"

definition code_error :: "int \<Rightarrow> int \<Rightarrow> int" where
  "code_error x c = i16 (SUB16 x (SHL16 (i16 c) 5))"

definition lsp_dist :: "int list \<Rightarrow> int list \<Rightarrow> int" where
  "lsp_dist xs cs = foldl (\<lambda>dist (x, c). MAC16_16 dist (code_error x c) (code_error x c)) 0 (zip xs cs)"

definition lsp_weight_dist :: "int list \<Rightarrow> int list \<Rightarrow> int list \<Rightarrow> int" where
  "lsp_weight_dist ws xs cs =
     foldl (\<lambda>dist (w, x, c). MAC16_32_Q15 dist w (MULT16_16 (code_error x c) (code_error x c))) 0 (zip ws (zip xs cs))"

text \<open>The codeword is taken off the vector.\<close>

definition take_off :: "int list \<Rightarrow> int list \<Rightarrow> nat \<Rightarrow> nat \<Rightarrow> (nat \<times> int list) option" where
  "take_off x cdbk nbDim ix =
     do { xs \<leftarrow> mem_read x 0 nbDim; cs \<leftarrow> mem_read cdbk (ix * nbDim) nbDim;
          Some (ix, map2 code_error xs cs @ drop nbDim x) }"

definition lsp_quant :: "int list \<Rightarrow> int list \<Rightarrow> nat \<Rightarrow> nat \<Rightarrow> (nat \<times> int list) option" where
  "lsp_quant x cdbk nbVec nbDim =
     do { (best_dist, best_ix) \<leftarrow>
            best_loop (\<lambda>i. do { xs \<leftarrow> mem_read x 0 nbDim; cs \<leftarrow> mem_read cdbk (i * nbDim) nbDim;
                                Some (lsp_dist xs cs) }) [0..<nbVec] (2147483647, 0);
          take_off x cdbk nbDim best_ix }"

definition lsp_weight_quant :: "int list \<Rightarrow> int list \<Rightarrow> int list \<Rightarrow> nat \<Rightarrow> nat \<Rightarrow> (nat \<times> int list) option" where
  "lsp_weight_quant x weight cdbk nbVec nbDim =
     do { (best_dist, best_ix) \<leftarrow>
            best_loop (\<lambda>i. do { ws \<leftarrow> mem_read weight 0 nbDim; xs \<leftarrow> mem_read x 0 nbDim;
                                cs \<leftarrow> mem_read cdbk (i * nbDim) nbDim;
                                Some (lsp_weight_dist ws xs cs) }) [0..<nbVec] (2147483647, 0);
          take_off x cdbk nbDim best_ix }"

subsection \<open>The encoder\<close>

text \<open>A stage on the part of the vector from \<open>k\<close> on, which sends the index in 6 bits.\<close>

definition quant_stage ::
    "reallocator \<Rightarrow> (int list \<Rightarrow> (nat \<times> int list) option) \<Rightarrow> nat \<Rightarrow> int list \<Rightarrow> speex_bits \<Rightarrow> (int list \<times> speex_bits) option" where
  "quant_stage ra quantize k q bits =
     do { (ix, y) \<leftarrow> quantize (drop k q);
          bits \<leftarrow> speex_bits_pack ra bits (of_nat ix) 6;
          Some (take k q @ y, bits) }"

text \<open>Entries \<open>a\<close> to \<open>b - 1\<close> are doubled.\<close>

definition double_part :: "nat \<Rightarrow> nat \<Rightarrow> int list \<Rightarrow> int list" where
  "double_part a b q = map (\<lambda>i. if a \<le> i \<and> i < b then i16 (q ! i * 2) else q ! i) [0..<length q]"

text \<open>The error is halved back \<open>s\<close> times and taken off the pairs.\<close>

definition quantized_lsp :: "int list \<Rightarrow> nat \<Rightarrow> int list \<Rightarrow> int list" where
  "quantized_lsp lsp s q = map2 (\<lambda>l v. i16 (l - i16 (PSHR16 v s))) lsp q"

definition lsp_quant_nb :: "reallocator \<Rightarrow> int list \<Rightarrow> nat \<Rightarrow> speex_bits \<Rightarrow> (int list \<times> speex_bits) option" where
  "lsp_quant_nb ra lsp order bits =
     do { require (length lsp = order);
          w \<leftarrow> compute_quant_weights lsp order;
          let q = map (\<lambda>i. i16 (SUB16 (lsp ! i) (LSP_LINEAR i))) [0..<order];
          (q, bits) \<leftarrow> quant_stage ra (\<lambda>x. lsp_quant x cdbk_nb 64 order) 0 q bits;
          let q = double_part 0 order q;
          (q, bits) \<leftarrow> quant_stage ra (\<lambda>x. lsp_weight_quant x w cdbk_nb_low1 64 5) 0 q bits;
          let q = double_part 0 5 q;
          (q, bits) \<leftarrow> quant_stage ra (\<lambda>x. lsp_weight_quant x w cdbk_nb_low2 64 5) 0 q bits;
          (q, bits) \<leftarrow> quant_stage ra (\<lambda>x. lsp_weight_quant x (drop 5 w) cdbk_nb_high1 64 5) 5 q bits;
          let q = double_part 5 10 q;
          (q, bits) \<leftarrow> quant_stage ra (\<lambda>x. lsp_weight_quant x (drop 5 w) cdbk_nb_high2 64 5) 5 q bits;
          Some (quantized_lsp lsp 2 q, bits) }"

definition lsp_quant_lbr :: "reallocator \<Rightarrow> int list \<Rightarrow> nat \<Rightarrow> speex_bits \<Rightarrow> (int list \<times> speex_bits) option" where
  "lsp_quant_lbr ra lsp order bits =
     do { require (length lsp = order);
          w \<leftarrow> compute_quant_weights lsp order;
          let q = map (\<lambda>i. i16 (SUB16 (lsp ! i) (LSP_LINEAR i))) [0..<order];
          (q, bits) \<leftarrow> quant_stage ra (\<lambda>x. lsp_quant x cdbk_nb 64 order) 0 q bits;
          let q = double_part 0 order q;
          (q, bits) \<leftarrow> quant_stage ra (\<lambda>x. lsp_weight_quant x w cdbk_nb_low1 64 5) 0 q bits;
          (q, bits) \<leftarrow> quant_stage ra (\<lambda>x. lsp_weight_quant x (drop 5 w) cdbk_nb_high1 64 5) 5 q bits;
          Some (quantized_lsp lsp 1 q, bits) }"

definition lsp_quant_high :: "reallocator \<Rightarrow> int list \<Rightarrow> nat \<Rightarrow> speex_bits \<Rightarrow> (int list \<times> speex_bits) option" where
  "lsp_quant_high ra lsp order bits =
     do { require (length lsp = order);
          w \<leftarrow> compute_quant_weights lsp order;
          let q = map (\<lambda>i. i16 (SUB16 (lsp ! i) (LSP_LINEAR_HIGH i))) [0..<order];
          (q, bits) \<leftarrow> quant_stage ra (\<lambda>x. lsp_quant x high_lsp_cdbk 64 order) 0 q bits;
          let q = double_part 0 order q;
          (q, bits) \<leftarrow> quant_stage ra (\<lambda>x. lsp_weight_quant x w high_lsp_cdbk2 64 order) 0 q bits;
          Some (quantized_lsp lsp 1 q, bits) }"

subsection \<open>The decoder\<close>

text \<open>An index is read and its codeword of \<open>n\<close> entries added from entry \<open>k\<close> on.\<close>

definition unquant_stage ::
    "(int \<Rightarrow> int) \<Rightarrow> int list \<Rightarrow> nat \<Rightarrow> nat \<Rightarrow> int list \<Rightarrow> speex_bits \<Rightarrow> (int list \<times> speex_bits) option" where
  "unquant_stage scale cdbk n k lsp bits =
     do { (ix, bits) \<leftarrow> speex_bits_unpack_unsigned bits 6;
          cs \<leftarrow> mem_read cdbk (unat ix * n) n;
          xs \<leftarrow> mem_read lsp k n;
          lsp \<leftarrow> mem_write lsp k (map2 (\<lambda>x c. i16 (x + scale c)) xs cs);
          Some (lsp, bits) }"

definition lsp_unquant_nb :: "nat \<Rightarrow> speex_bits \<Rightarrow> (int list \<times> speex_bits) option" where
  "lsp_unquant_nb order bits =
     do { let lsp = map (\<lambda>i. i16 (LSP_LINEAR i)) [0..<order];
          (lsp, bits) \<leftarrow> unquant_stage LSP_DIV_256 cdbk_nb 10 0 lsp bits;
          (lsp, bits) \<leftarrow> unquant_stage LSP_DIV_512 cdbk_nb_low1 5 0 lsp bits;
          (lsp, bits) \<leftarrow> unquant_stage LSP_DIV_1024 cdbk_nb_low2 5 0 lsp bits;
          (lsp, bits) \<leftarrow> unquant_stage LSP_DIV_512 cdbk_nb_high1 5 5 lsp bits;
          unquant_stage LSP_DIV_1024 cdbk_nb_high2 5 5 lsp bits }"

definition lsp_unquant_lbr :: "nat \<Rightarrow> speex_bits \<Rightarrow> (int list \<times> speex_bits) option" where
  "lsp_unquant_lbr order bits =
     do { let lsp = map (\<lambda>i. i16 (LSP_LINEAR i)) [0..<order];
          (lsp, bits) \<leftarrow> unquant_stage LSP_DIV_256 cdbk_nb 10 0 lsp bits;
          (lsp, bits) \<leftarrow> unquant_stage LSP_DIV_512 cdbk_nb_low1 5 0 lsp bits;
          unquant_stage LSP_DIV_512 cdbk_nb_high1 5 5 lsp bits }"

definition lsp_unquant_high :: "nat \<Rightarrow> speex_bits \<Rightarrow> (int list \<times> speex_bits) option" where
  "lsp_unquant_high order bits =
     do { let lsp = map (\<lambda>i. i16 (LSP_LINEAR_HIGH i)) [0..<order];
          (lsp, bits) \<leftarrow> unquant_stage LSP_DIV_256 high_lsp_cdbk order 0 lsp bits;
          unquant_stage LSP_DIV_512 high_lsp_cdbk2 order 0 lsp bits }"

subsection \<open>The first nearest codeword is chosen\<close>

lemma best_loop_spec:
  assumes "\<And>i. i \<in> set is' \<Longrightarrow> dist i = Some (d i)"
  shows "\<exists>bd bi. best_loop dist is' (bd0, bi0) = Some (bd, bi) \<and> bd \<le> bd0 \<and>
     (\<forall>i \<in> set is'. bd \<le> d i) \<and> (bd = bd0 \<and> bi = bi0 \<or> bi \<in> set is' \<and> bd = d bi \<and> bd < bd0)"
  using assms
proof (induction is' arbitrary: bd0 bi0)
  case (Cons i is')
  obtain b where b: "(if d i < bd0 then (d i, i) else (bd0, bi0)) = (fst b, snd b)" by (metis prod.collapse)
  have "\<exists>bd bi. best_loop dist is' (fst b, snd b) = Some (bd, bi) \<and> bd \<le> fst b \<and>
     (\<forall>i \<in> set is'. bd \<le> d i) \<and> (bd = fst b \<and> bi = snd b \<or> bi \<in> set is' \<and> bd = d bi \<and> bd < fst b)"
    by (rule Cons.IH) (simp add: Cons.prems)
  then obtain bd bi where r: "best_loop dist is' (fst b, snd b) = Some (bd, bi)" "bd \<le> fst b"
    "\<forall>i \<in> set is'. bd \<le> d i" "bd = fst b \<and> bi = snd b \<or> bi \<in> set is' \<and> bd = d bi \<and> bd < fst b" by blast
  have "best_loop dist (i # is') (bd0, bi0) = Some (bd, bi)" using r(1) b Cons.prems by simp
  then show ?case using r b by (intro exI [of _ bd] exI [of _ bi]) (auto split: if_splits)
qed simp

lemma best_loop_index:
  assumes "\<And>i. i < n \<Longrightarrow> dist i = Some (d i)" and "0 < n"
  shows "\<exists>bd bi. best_loop dist [0..<n] (M, 0) = Some (bd, bi) \<and> bi < n \<and> (\<forall>i < n. d i < M \<longrightarrow> d bi \<le> d i)"
proof -
  obtain bd bi where r: "best_loop dist [0..<n] (M, 0) = Some (bd, bi)" "\<forall>i \<in> set [0..<n]. bd \<le> d i"
    "bd = M \<and> bi = 0 \<or> bi \<in> set [0..<n] \<and> bd = d bi \<and> bd < M"
    using best_loop_spec [of "[0..<n]" dist d M 0] assms(1) by auto
  have le: "bd \<le> d i" if "i < n" for i using r(2) that by simp
  have "bi < n \<and> (\<forall>i < n. d i < M \<longrightarrow> d bi \<le> d i)"
  proof (cases "bd = M \<and> bi = 0")
    case True
    then show ?thesis using le assms(2) by force
  next
    case False
    then show ?thesis using r(3) le by auto
  qed
  then show ?thesis using r(1) by blast
qed

subsection \<open>Codewords added and taken off\<close>

text \<open>A part of a vector combined with a codeword.\<close>

definition with_code :: "(int \<Rightarrow> int \<Rightarrow> int) \<Rightarrow> nat \<Rightarrow> int list \<Rightarrow> int list \<Rightarrow> int list" where
  "with_code f k cs q = map (\<lambda>i. if k \<le> i \<and> i < k + length cs then f (q ! i) (cs ! (i - k)) else q ! i) [0..<length q]"

definition codeword :: "int list \<Rightarrow> nat \<Rightarrow> nat \<Rightarrow> int list" where
  "codeword cdbk n ix = take n (drop (ix * n) cdbk)"

lemma length_with_code [simp]: "length (with_code f k cs q) = length q"
  by (simp add: with_code_def)

lemma nth_with_code:
  "i < length q \<Longrightarrow> with_code f k cs q ! i = (if k \<le> i \<and> i < k + length cs then f (q ! i) (cs ! (i - k)) else q ! i)"
  by (simp add: with_code_def)

lemma with_code_parts:
  assumes "k + length cs \<le> length q"
  shows "take k q @ map2 f (take (length cs) (drop k q)) cs @ drop (k + length cs) q = with_code f k cs q"
proof (rule nth_equalityI)
  show len: "length (take k q @ map2 f (take (length cs) (drop k q)) cs @ drop (k + length cs) q) = length (with_code f k cs q)"
    using assms by simp
  fix i assume "i < length (take k q @ map2 f (take (length cs) (drop k q)) cs @ drop (k + length cs) q)"
  then have "i < length q" using assms by simp
  then show "(take k q @ map2 f (take (length cs) (drop k q)) cs @ drop (k + length cs) q) ! i = with_code f k cs q ! i"
    using assms by (auto simp: nth_with_code nth_append)
qed

lemma codeword_read:
  assumes "signed_chars (m * n) cdbk" and "ix < m"
  shows "mem_read cdbk (ix * n) n = Some (codeword cdbk n ix)" and "length (codeword cdbk n ix) = n"
    and "\<forall>c \<in> set (codeword cdbk n ix). -128 \<le> c \<and> c \<le> 127"
proof -
  have "ix * n + n \<le> m * n" using assms(2) by (metis add.commute mult_Suc Suc_leI mult_le_mono1)
  then have len: "ix * n + n \<le> length cdbk" using assms(1) by (simp add: signed_chars_def)
  then show "mem_read cdbk (ix * n) n = Some (codeword cdbk n ix)" "length (codeword cdbk n ix) = n"
    by (simp_all add: codeword_def mem_simps)
  show "\<forall>c \<in> set (codeword cdbk n ix). -128 \<le> c \<and> c \<le> 127"
    using assms(1) by (auto simp: codeword_def signed_chars_def list_all_iff dest!: in_set_takeD in_set_dropD)
qed

lemma take_off_codeword:
  assumes "signed_chars (m * n) cdbk" and "ix < m" and "n \<le> length x"
  shows "take_off x cdbk n ix = Some (ix, with_code code_error 0 (codeword cdbk n ix) x)"
  using codeword_read [OF assms(1,2)] assms(3) with_code_parts [of 0 "codeword cdbk n ix" x code_error]
  by (simp add: take_off_def mem_simps)

lemma lsp_quant_total:
  assumes cb: "signed_chars (m * n) cdbk" and m: "0 < m" and x: "n \<le> length x"
  shows "\<exists>ix < m. lsp_quant x cdbk m n = Some (ix, with_code code_error 0 (codeword cdbk n ix) x) \<and>
     (\<forall>i < m. lsp_dist (take n x) (codeword cdbk n i) < 2147483647 \<longrightarrow>
        lsp_dist (take n x) (codeword cdbk n ix) \<le> lsp_dist (take n x) (codeword cdbk n i))"
proof -
  obtain bd ix where b: "best_loop (\<lambda>i. do { xs \<leftarrow> mem_read x 0 n; cs \<leftarrow> mem_read cdbk (i * n) n; Some (lsp_dist xs cs) })
      [0..<m] (2147483647, 0) = Some (bd, ix)" "ix < m"
    "\<forall>i < m. lsp_dist (take n x) (codeword cdbk n i) < 2147483647 \<longrightarrow>
        lsp_dist (take n x) (codeword cdbk n ix) \<le> lsp_dist (take n x) (codeword cdbk n i)"
    using best_loop_index [of m "\<lambda>i. do { xs \<leftarrow> mem_read x 0 n; cs \<leftarrow> mem_read cdbk (i * n) n; Some (lsp_dist xs cs) }"
      "\<lambda>i. lsp_dist (take n x) (codeword cdbk n i)" 2147483647] codeword_read(1) [OF cb] x m by (auto simp: mem_simps)
  then show ?thesis using take_off_codeword [OF cb b(2) x] by (auto simp: lsp_quant_def)
qed

lemma lsp_weight_quant_total:
  assumes cb: "signed_chars (m * n) cdbk" and m: "0 < m" and x: "n \<le> length x" and w: "n \<le> length w"
  shows "\<exists>ix < m. lsp_weight_quant x w cdbk m n = Some (ix, with_code code_error 0 (codeword cdbk n ix) x)"
proof -
  obtain bd ix where b: "best_loop (\<lambda>i. do { ws \<leftarrow> mem_read w 0 n; xs \<leftarrow> mem_read x 0 n;
        cs \<leftarrow> mem_read cdbk (i * n) n; Some (lsp_weight_dist ws xs cs) }) [0..<m] (2147483647, 0) = Some (bd, ix)" "ix < m"
    using best_loop_index [of m "\<lambda>i. do { ws \<leftarrow> mem_read w 0 n; xs \<leftarrow> mem_read x 0 n;
        cs \<leftarrow> mem_read cdbk (i * n) n; Some (lsp_weight_dist ws xs cs) }"
      "\<lambda>i. lsp_weight_dist (take n w) (take n x) (codeword cdbk n i)" 2147483647] codeword_read(1) [OF cb] x m w
    by (auto simp: mem_simps)
  then show ?thesis using take_off_codeword [OF cb b(2) x] by (auto simp: lsp_weight_quant_def)
qed

lemma with_code_drop:
  assumes "k + length cs \<le> length q"
  shows "take k q @ with_code f 0 cs (drop k q) = with_code f k cs q"
  by (rule nth_equalityI) (use assms in \<open>auto simp: nth_with_code nth_append\<close>)

text \<open>What a quantizer of 64 codewords of \<open>n\<close> entries does.\<close>

definition quantizes :: "(int list \<Rightarrow> (nat \<times> int list) option) \<Rightarrow> int list \<Rightarrow> nat \<Rightarrow> bool" where
  "quantizes quantize cdbk n \<longleftrightarrow> (\<forall>x. n \<le> length x \<longrightarrow>
     (\<exists>ix < 64. quantize x = Some (ix, with_code code_error 0 (codeword cdbk n ix) x)))"

lemma quantizers:
  assumes "signed_chars (64 * n) cdbk"
  shows "quantizes (\<lambda>x. lsp_quant x cdbk 64 n) cdbk n"
    and "n \<le> length w \<Longrightarrow> quantizes (\<lambda>x. lsp_weight_quant x w cdbk 64 n) cdbk n"
  using lsp_quant_total [OF assms] lsp_weight_quant_total [OF assms] by (fastforce simp: quantizes_def)+

subsection \<open>Stages write and read the same index\<close>

lemma quant_stage_total:
  assumes "quantizes f cdbk n" and cb: "signed_chars (64 * n) cdbk" and q: "k + n \<le> length q"
    and b: "can_receive r b" "pack_fits b (6 + m + 8)"
  shows "\<exists>ix < 64. \<exists>b'. quant_stage ra f k q b = Some (with_code code_error k (codeword cdbk n ix) q, b') \<and>
     can_receive r b' \<and> written b' = written b @ msb_bits 6 (of_nat ix) \<and> pack_fits b' (m + 8)"
proof -
  have "n \<le> length (drop k q)" using q by simp
  then obtain ix where ix: "ix < 64" "f (drop k q) = Some (ix, with_code code_error 0 (codeword cdbk n ix) (drop k q))"
    using assms(1) unfolding quantizes_def by blast
  obtain b' where b': "speex_bits_pack ra b (of_nat ix) 6 = Some b'" "can_receive r b'"
    "written b' = written b @ msb_bits 6 (of_nat ix)" "pack_fits b' (m + 8)"
    using pack_field [OF b(1), of 6 m ra "of_nat ix"] b(2) by auto
  have "take k q @ with_code code_error 0 (codeword cdbk n ix) (drop k q) = with_code code_error k (codeword cdbk n ix) q"
    using codeword_read(2) [OF cb ix(1)] q by (intro with_code_drop) simp
  then show ?thesis using ix b' by (intro exI [of _ ix] conjI ix(1) exI [of _ b']) (simp_all add: quant_stage_def)
qed

lemma unquant_stage_index:
  assumes cb: "signed_chars (64 * n) cdbk" and lsp: "k + n \<le> length lsp"
    and u: "speex_bits_unpack_unsigned b 6 = Some (v, b')" and v: "unat v < 64"
  shows "unquant_stage scale cdbk n k lsp b =
     Some (with_code (\<lambda>x c. i16 (x + scale c)) k (codeword cdbk n (unat v)) lsp, b')"
proof -
  let ?cs = "codeword cdbk n (unat v)"
  have len: "length ?cs = n" using codeword_read(2) [OF cb v] .
  have "take k lsp @ map2 (\<lambda>x c. i16 (x + scale c)) (take n (drop k lsp)) ?cs @ drop (k + n) lsp
      = with_code (\<lambda>x c. i16 (x + scale c)) k ?cs lsp"
    using with_code_parts [of k ?cs lsp "\<lambda>x c. i16 (x + scale c)"] len lsp by simp
  then show ?thesis using u codeword_read(1) [OF cb v] len lsp by (simp add: unquant_stage_def mem_simps)
qed

text \<open>Whatever the packet holds, a stage succeeds.\<close>

lemma unquant_stage_total:
  assumes cb: "signed_chars (64 * n) cdbk" and lsp: "k + n \<le> length lsp" and b: "rd_ok b"
  shows "\<exists>ix < 64. \<exists>b'. unquant_stage scale cdbk n k lsp b =
     Some (with_code (\<lambda>x c. i16 (x + scale c)) k (codeword cdbk n ix) lsp, b') \<and> rd_ok b'"
proof -
  obtain v b' where u: "speex_bits_unpack_unsigned b 6 = Some (v, b')" "rd_ok b'" "unat v < 64"
    using unpack_answers [OF b, of 6] by auto
  then show ?thesis using unquant_stage_index [OF cb lsp u(1,3), of scale] by blast
qed

lemma unquant_stage_reads:
  assumes cb: "signed_chars (64 * n) cdbk" and lsp: "k + n \<le> length lsp" and ix: "ix < 64"
    and b: "reader_wf b" "remaining b = msb_bits 6 (of_nat ix) @ rest"
  shows "\<exists>b'. unquant_stage scale cdbk n k lsp b =
     Some (with_code (\<lambda>x c. i16 (x + scale c)) k (codeword cdbk n ix) lsp, b') \<and> reader_wf b' \<and> remaining b' = rest"
proof -
  have n: "unat (of_nat ix :: u32) = ix" using ix by (simp add: unat_of_nat)
  then have "take_bit 6 (of_nat ix :: u32) = of_nat ix" using ix by (intro take_bit_small) simp
  then obtain b' where u: "speex_bits_unpack_unsigned b 6 = Some (of_nat ix, b')" "reader_wf b'" "remaining b' = rest"
    using unpack_field [OF b] by auto
  then show ?thesis using unquant_stage_index [OF cb lsp u(1), of scale] n ix by simp
qed

lemma lsp_codebooks:
  "signed_chars (64 * 10) cdbk_nb" "signed_chars (64 * 5) cdbk_nb_low1" "signed_chars (64 * 5) cdbk_nb_low2"
  "signed_chars (64 * 5) cdbk_nb_high1" "signed_chars (64 * 5) cdbk_nb_high2"
  "signed_chars (64 * 8) high_lsp_cdbk" "signed_chars (64 * 8) high_lsp_cdbk2"
  using cdbk_nb_chars cdbk_nb_low1_chars cdbk_nb_low2_chars cdbk_nb_high1_chars cdbk_nb_high2_chars
    high_lsp_cdbk_chars high_lsp_cdbk2_chars by simp_all

subsection \<open>The pairs of a choice of codewords\<close>

text \<open>What the encoder leaves over after the codewords, and what the decoder adds up.\<close>

definition nb_rest :: "int list \<Rightarrow> nat \<Rightarrow> nat \<Rightarrow> nat \<Rightarrow> nat \<Rightarrow> nat \<Rightarrow> int list" where
  "nb_rest lsp i1 i2 i3 i4 i5 =
     with_code code_error 5 (codeword cdbk_nb_high2 5 i5) (double_part 5 10
       (with_code code_error 5 (codeword cdbk_nb_high1 5 i4)
         (with_code code_error 0 (codeword cdbk_nb_low2 5 i3) (double_part 0 5
           (with_code code_error 0 (codeword cdbk_nb_low1 5 i2) (double_part 0 10
             (with_code code_error 0 (codeword cdbk_nb 10 i1)
               (map (\<lambda>i. i16 (SUB16 (lsp ! i) (LSP_LINEAR i))) [0..<10]))))))))"

definition nb_sum :: "nat \<Rightarrow> nat \<Rightarrow> nat \<Rightarrow> nat \<Rightarrow> nat \<Rightarrow> int list" where
  "nb_sum i1 i2 i3 i4 i5 =
     with_code (\<lambda>x c. i16 (x + LSP_DIV_1024 c)) 5 (codeword cdbk_nb_high2 5 i5)
       (with_code (\<lambda>x c. i16 (x + LSP_DIV_512 c)) 5 (codeword cdbk_nb_high1 5 i4)
         (with_code (\<lambda>x c. i16 (x + LSP_DIV_1024 c)) 0 (codeword cdbk_nb_low2 5 i3)
           (with_code (\<lambda>x c. i16 (x + LSP_DIV_512 c)) 0 (codeword cdbk_nb_low1 5 i2)
             (with_code (\<lambda>x c. i16 (x + LSP_DIV_256 c)) 0 (codeword cdbk_nb 10 i1)
               (map (\<lambda>i. i16 (LSP_LINEAR i)) [0..<10])))))"

definition lbr_rest :: "int list \<Rightarrow> nat \<Rightarrow> nat \<Rightarrow> nat \<Rightarrow> int list" where
  "lbr_rest lsp i1 i2 i3 =
     with_code code_error 5 (codeword cdbk_nb_high1 5 i3)
       (with_code code_error 0 (codeword cdbk_nb_low1 5 i2) (double_part 0 10
         (with_code code_error 0 (codeword cdbk_nb 10 i1)
           (map (\<lambda>i. i16 (SUB16 (lsp ! i) (LSP_LINEAR i))) [0..<10]))))"

definition lbr_sum :: "nat \<Rightarrow> nat \<Rightarrow> nat \<Rightarrow> int list" where
  "lbr_sum i1 i2 i3 =
     with_code (\<lambda>x c. i16 (x + LSP_DIV_512 c)) 5 (codeword cdbk_nb_high1 5 i3)
       (with_code (\<lambda>x c. i16 (x + LSP_DIV_512 c)) 0 (codeword cdbk_nb_low1 5 i2)
         (with_code (\<lambda>x c. i16 (x + LSP_DIV_256 c)) 0 (codeword cdbk_nb 10 i1)
           (map (\<lambda>i. i16 (LSP_LINEAR i)) [0..<10])))"

definition high_rest :: "int list \<Rightarrow> nat \<Rightarrow> nat \<Rightarrow> int list" where
  "high_rest lsp i1 i2 =
     with_code code_error 0 (codeword high_lsp_cdbk2 8 i2) (double_part 0 8
       (with_code code_error 0 (codeword high_lsp_cdbk 8 i1)
         (map (\<lambda>i. i16 (SUB16 (lsp ! i) (LSP_LINEAR_HIGH i))) [0..<8])))"

definition high_sum :: "nat \<Rightarrow> nat \<Rightarrow> int list" where
  "high_sum i1 i2 =
     with_code (\<lambda>x c. i16 (x + LSP_DIV_512 c)) 0 (codeword high_lsp_cdbk2 8 i2)
       (with_code (\<lambda>x c. i16 (x + LSP_DIV_256 c)) 0 (codeword high_lsp_cdbk 8 i1)
         (map (\<lambda>i. i16 (LSP_LINEAR_HIGH i)) [0..<8]))"

subsection \<open>The encoder's rest is the error of the decoder's pairs\<close>

lemma code_error_i16: "code_error x c = i16 (x - 32 * c)"
proof -
  have "i16 (i32 (shl (i16 c) 5)) = i16 (32 * c)"
    by (simp add: i16_i32 shl_def i16_inner mult.commute)
  then show ?thesis unfolding code_error_def SUB16_def SHL16_def by (metis i16_idem i16_inner(3,4))
qed

lemma LSP_DIV_i16:
  "i16 (x + LSP_DIV_256 c) = i16 (x + 32 * c)" "i16 (x + LSP_DIV_512 c) = i16 (x + 16 * c)"
  "i16 (x + LSP_DIV_1024 c) = i16 (x + 8 * c)"
proof -
  have "i16 (i32 (shl (i16 c) n)) = i16 (2 ^ n * c)" for n
    by (simp add: i16_i32 shl_def i16_inner mult.commute)
  then have "i16 (x + i32 (shl (i16 c) n)) = i16 (x + 2 ^ n * c)" for n by (metis i16_inner(2))
  from this [of 5] this [of 4] this [of 3] show "i16 (x + LSP_DIV_256 c) = i16 (x + 32 * c)"
    "i16 (x + LSP_DIV_512 c) = i16 (x + 16 * c)" "i16 (x + LSP_DIV_1024 c) = i16 (x + 8 * c)"
    by (simp_all add: LSP_DIV_256_def LSP_DIV_512_def LSP_DIV_1024_def SHL16_def)
qed

lemma nth_double_part: "i < length q \<Longrightarrow> double_part a b q ! i = (if a \<le> i \<and> i < b then i16 (q ! i * 2) else q ! i)"
  by (simp add: double_part_def)

lemma length_double_part [simp]: "length (double_part a b q) = length q"
  by (simp add: double_part_def)

lemma i16_SUB16: "i16 (SUB16 a b) = i16 (a - b)"
  by (simp add: SUB16_def i16_inner)

text \<open>Multiples of a wrapped difference.\<close>

lemma i16_scale: "i16 z = i16 y \<Longrightarrow> i16 (k * z) = i16 (k * y)"
  by (metis i16_inner(6))

lemma codeword_length:
  "i1 < 64 \<Longrightarrow> length (codeword cdbk_nb 10 i1) = 10" "i1 < 64 \<Longrightarrow> length (codeword cdbk_nb_low1 5 i1) = 5"
  "i1 < 64 \<Longrightarrow> length (codeword cdbk_nb_low2 5 i1) = 5" "i1 < 64 \<Longrightarrow> length (codeword cdbk_nb_high1 5 i1) = 5"
  "i1 < 64 \<Longrightarrow> length (codeword cdbk_nb_high2 5 i1) = 5" "i1 < 64 \<Longrightarrow> length (codeword high_lsp_cdbk 8 i1) = 8"
  "i1 < 64 \<Longrightarrow> length (codeword high_lsp_cdbk2 8 i1) = 8"
  by (rule codeword_read(2), rule lsp_codebooks, assumption)+

lemma nb_rest_error:
  assumes ix: "i1 < 64" "i2 < 64" "i3 < 64" "i4 < 64" "i5 < 64" and j: "j < 10"
  shows "nb_rest lsp i1 i2 i3 i4 i5 ! j = i16 (4 * (lsp ! j - nb_sum i1 i2 i3 i4 i5 ! j))"
proof (cases "j < 5")
  case True
  let ?s = "LSP_LINEAR j + 32 * codeword cdbk_nb 10 i1 ! j + 16 * codeword cdbk_nb_low1 5 i2 ! j + 8 * codeword cdbk_nb_low2 5 i3 ! j"
  have "nb_rest lsp i1 i2 i3 i4 i5 ! j = i16 (4 * (lsp ! j - ?s))"
    using True codeword_length [OF ix(1)] codeword_length [OF ix(2)] codeword_length [OF ix(3)] codeword_length [OF ix(4)]
      codeword_length [OF ix(5)]
    by (simp add: nb_rest_def nth_with_code nth_double_part code_error_i16 i16_SUB16 i16_inner algebra_simps)
  moreover have "nb_sum i1 i2 i3 i4 i5 ! j = i16 ?s"
    using True codeword_length [OF ix(1)] codeword_length [OF ix(2)] codeword_length [OF ix(3)] codeword_length [OF ix(4)]
      codeword_length [OF ix(5)]
    by (simp add: nb_sum_def nth_with_code LSP_DIV_i16 i16_inner algebra_simps)
  ultimately show ?thesis by (metis i16_inner(4) i16_scale)
next
  case False
  let ?s = "LSP_LINEAR j + 32 * codeword cdbk_nb 10 i1 ! j + 16 * codeword cdbk_nb_high1 5 i4 ! (j - 5) + 8 * codeword cdbk_nb_high2 5 i5 ! (j - 5)"
  have "nb_rest lsp i1 i2 i3 i4 i5 ! j = i16 (4 * (lsp ! j - ?s))"
    using False j codeword_length [OF ix(1)] codeword_length [OF ix(2)] codeword_length [OF ix(3)] codeword_length [OF ix(4)]
      codeword_length [OF ix(5)]
    by (simp add: nb_rest_def nth_with_code nth_double_part code_error_i16 i16_SUB16 i16_inner algebra_simps)
  moreover have "nb_sum i1 i2 i3 i4 i5 ! j = i16 ?s"
    using False j codeword_length [OF ix(1)] codeword_length [OF ix(2)] codeword_length [OF ix(3)] codeword_length [OF ix(4)]
      codeword_length [OF ix(5)]
    by (simp add: nb_sum_def nth_with_code LSP_DIV_i16 i16_inner algebra_simps)
  ultimately show ?thesis by (metis i16_inner(4) i16_scale)
qed

lemma lbr_rest_error:
  assumes ix: "i1 < 64" "i2 < 64" "i3 < 64" and j: "j < 10"
  shows "lbr_rest lsp i1 i2 i3 ! j = i16 (2 * (lsp ! j - lbr_sum i1 i2 i3 ! j))"
proof -
  let ?c = "if j < 5 then codeword cdbk_nb_low1 5 i2 ! j else codeword cdbk_nb_high1 5 i3 ! (j - 5)"
  let ?s = "LSP_LINEAR j + 32 * codeword cdbk_nb 10 i1 ! j + 16 * ?c"
  have "lbr_rest lsp i1 i2 i3 ! j = i16 (2 * (lsp ! j - ?s))"
    using j codeword_length [OF ix(1)] codeword_length [OF ix(2)] codeword_length [OF ix(3)]
    by (simp add: lbr_rest_def nth_with_code nth_double_part code_error_i16 i16_SUB16 i16_inner algebra_simps)
  moreover have "lbr_sum i1 i2 i3 ! j = i16 ?s"
    using j codeword_length [OF ix(1)] codeword_length [OF ix(2)] codeword_length [OF ix(3)]
    by (simp add: lbr_sum_def nth_with_code LSP_DIV_i16 i16_inner algebra_simps)
  ultimately show ?thesis by (metis i16_inner(4) i16_scale)
qed

lemma high_rest_error:
  assumes ix: "i1 < 64" "i2 < 64" and j: "j < 8"
  shows "high_rest lsp i1 i2 ! j = i16 (2 * (lsp ! j - high_sum i1 i2 ! j))"
proof -
  let ?s = "LSP_LINEAR_HIGH j + 32 * codeword high_lsp_cdbk 8 i1 ! j + 16 * codeword high_lsp_cdbk2 8 i2 ! j"
  have "high_rest lsp i1 i2 ! j = i16 (2 * (lsp ! j - ?s))"
    using j codeword_length [OF ix(1)] codeword_length [OF ix(2)]
    by (simp add: high_rest_def nth_with_code nth_double_part code_error_i16 i16_SUB16 i16_inner algebra_simps)
  moreover have "high_sum i1 i2 ! j = i16 ?s"
    using j codeword_length [OF ix(1)] codeword_length [OF ix(2)]
    by (simp add: high_sum_def nth_with_code LSP_DIV_i16 i16_inner algebra_simps)
  ultimately show ?thesis by (metis i16_inner(4) i16_scale)
qed

subsection \<open>The encoder succeeds\<close>

text \<open>Pairs in order, within \<open>0\<close> and \<open>\<pi>\<close>.\<close>

definition lsp_ordered :: "nat \<Rightarrow> int list \<Rightarrow> bool" where
  "lsp_ordered n lsp \<longleftrightarrow> length lsp = n \<and> sorted lsp \<and> (\<forall>x \<in> set lsp. 0 \<le> x \<and> x \<le> LSP_PI)"

lemma map_indices_total: "(\<And>i. i \<in> set is' \<Longrightarrow> f i \<noteq> None) \<Longrightarrow> \<exists>ys. map_indices f is' = Some ys \<and> length ys = length is'"
proof (induction is')
  case (Cons i is')
  obtain x where "f i = Some x" using Cons.prems [of i] by auto
  then show ?case using Cons by auto
qed simp

lemma compute_quant_weights_total:
  assumes "lsp_ordered n lsp"
  shows "\<exists>w. compute_quant_weights lsp n = Some w \<and> length w = n"
proof -
  have len: "length lsp = n" using assms by (simp add: lsp_ordered_def)
  have r: "0 \<le> lsp ! i \<and> lsp ! i \<le> 25736" if "i < n" for i using assms that by (auto simp: lsp_ordered_def LSP_PI_def)
  have le: "lsp ! i \<le> lsp ! j" if "i \<le> j" "j < n" for i j using assms that by (auto simp: lsp_ordered_def sorted_iff_nth_mono)
  have "quant_weight lsp n i \<noteq> None" if i: "i < n" for i
  proof -
    let ?t1 = "if i = 0 then lsp ! i else i16 (lsp ! i - lsp ! (i - 1))"
    let ?t2 = "if i = n - 1 then i16 (LSP_PI - lsp ! i) else i16 (lsp ! (i + 1) - lsp ! i)"
    have t1: "0 \<le> ?t1 \<and> ?t1 \<le> 25736"
    proof (cases "i = 0")
      case False
      have p: "lsp ! (i - 1) \<le> lsp ! i" "0 \<le> lsp ! (i - 1)" using r [of "i - 1"] le [of "i - 1" i] i by auto
      then have "is_i16 (lsp ! i - lsp ! (i - 1))" unfolding is_i16_def using r [OF i] by linarith
      then show ?thesis using False r [OF i] p by auto
    qed (use r [OF i] in auto)
    have t2: "0 \<le> ?t2 \<and> ?t2 \<le> 25736"
    proof (cases "i = n - 1")
      case True
      then show ?thesis using r [OF i] by (simp add: LSP_PI_def is_i16_def)
    next
      case False
      then have "i + 1 < n" using i by simp
      then show ?thesis using False r [OF i] r [of "i + 1"] le [of i "i + 1"] by (simp add: is_i16_def)
    qed
    let ?t = "if ?t2 < ?t1 then ?t2 else ?t1"
    have "0 \<le> ?t \<and> ?t \<le> 25736" using t1 t2 by auto
    then have "i16 (300 + ?t) = 300 + ?t" by (intro i16_id) (simp add: is_i16_def)
    then have "i16 (ADD16 300 ?t) \<noteq> 0" using \<open>0 \<le> ?t \<and> ?t \<le> 25736\<close> unfolding ADD16_i16 by (simp only: i16_idem) linarith
    then show ?thesis unfolding quant_weight_def Let_def DIV32_16_def by simp
  qed
  then show ?thesis using map_indices_total [of "[0..<n]" "quant_weight lsp n"] len by (simp add: compute_quant_weights_def)
qed

lemma lsp_quant_nb_total:
  assumes lsp: "lsp_ordered 10 lsp" and b: "can_receive r b" "pack_fits b (30 + m + 8)"
  shows "\<exists>i1 i2 i3 i4 i5 b'. i1 < 64 \<and> i2 < 64 \<and> i3 < 64 \<and> i4 < 64 \<and> i5 < 64 \<and>
     lsp_quant_nb ra lsp 10 b = Some (quantized_lsp lsp 2 (nb_rest lsp i1 i2 i3 i4 i5), b') \<and>
     can_receive r b' \<and> pack_fits b' (m + 8) \<and>
     written b' = written b @ concat (map (\<lambda>i. msb_bits 6 (of_nat i)) [i1, i2, i3, i4, i5])"
proof -
  obtain w where w: "compute_quant_weights lsp 10 = Some w" "length w = 10" using compute_quant_weights_total [OF lsp] by blast
  note cb = lsp_codebooks
  let ?q0 = "map (\<lambda>i. i16 (SUB16 (lsp ! i) (LSP_LINEAR i))) [0..<10]"
  obtain i1 b1 where s1: "i1 < 64" "quant_stage ra (\<lambda>x. lsp_quant x cdbk_nb 64 10) 0 ?q0 b =
      Some (with_code code_error 0 (codeword cdbk_nb 10 i1) ?q0, b1)" "can_receive r b1"
    "written b1 = written b @ msb_bits 6 (of_nat i1)" "pack_fits b1 (24 + m + 8)"
    using quant_stage_total [OF quantizers(1) [OF cb(1)] cb(1), of 0 ?q0 r b "24 + m" ra] b by (auto simp: add.assoc)
  let ?q1 = "double_part 0 10 (with_code code_error 0 (codeword cdbk_nb 10 i1) ?q0)"
  obtain i2 b2 where s2: "i2 < 64" "quant_stage ra (\<lambda>x. lsp_weight_quant x w cdbk_nb_low1 64 5) 0 ?q1 b1 =
      Some (with_code code_error 0 (codeword cdbk_nb_low1 5 i2) ?q1, b2)" "can_receive r b2"
    "written b2 = written b1 @ msb_bits 6 (of_nat i2)" "pack_fits b2 (18 + m + 8)"
    using quant_stage_total [OF quantizers(2) [OF cb(2)] cb(2), of w 0 ?q1 r b1 "18 + m" ra] s1(3,5) w(2) by (auto simp: add.assoc)
  let ?q2 = "double_part 0 5 (with_code code_error 0 (codeword cdbk_nb_low1 5 i2) ?q1)"
  obtain i3 b3 where s3: "i3 < 64" "quant_stage ra (\<lambda>x. lsp_weight_quant x w cdbk_nb_low2 64 5) 0 ?q2 b2 =
      Some (with_code code_error 0 (codeword cdbk_nb_low2 5 i3) ?q2, b3)" "can_receive r b3"
    "written b3 = written b2 @ msb_bits 6 (of_nat i3)" "pack_fits b3 (12 + m + 8)"
    using quant_stage_total [OF quantizers(2) [OF cb(3)] cb(3), of w 0 ?q2 r b2 "12 + m" ra] s2(3,5) w(2) by (auto simp: add.assoc)
  let ?q3 = "with_code code_error 0 (codeword cdbk_nb_low2 5 i3) ?q2"
  obtain i4 b4 where s4: "i4 < 64" "quant_stage ra (\<lambda>x. lsp_weight_quant x (drop 5 w) cdbk_nb_high1 64 5) 5 ?q3 b3 =
      Some (with_code code_error 5 (codeword cdbk_nb_high1 5 i4) ?q3, b4)" "can_receive r b4"
    "written b4 = written b3 @ msb_bits 6 (of_nat i4)" "pack_fits b4 (6 + m + 8)"
    using quant_stage_total [OF quantizers(2) [OF cb(4)] cb(4), of "drop 5 w" 5 ?q3 r b3 "6 + m" ra] s3(3,5) w(2) by (auto simp: add.assoc)
  let ?q4 = "double_part 5 10 (with_code code_error 5 (codeword cdbk_nb_high1 5 i4) ?q3)"
  obtain i5 b5 where s5: "i5 < 64" "quant_stage ra (\<lambda>x. lsp_weight_quant x (drop 5 w) cdbk_nb_high2 64 5) 5 ?q4 b4 =
      Some (with_code code_error 5 (codeword cdbk_nb_high2 5 i5) ?q4, b5)" "can_receive r b5"
    "written b5 = written b4 @ msb_bits 6 (of_nat i5)" "pack_fits b5 (m + 8)"
    using quant_stage_total [OF quantizers(2) [OF cb(5)] cb(5), of "drop 5 w" 5 ?q4 r b4 m ra] s4(3,5) w(2) by auto
  have "length lsp = 10" using lsp by (simp add: lsp_ordered_def)
  then have "lsp_quant_nb ra lsp 10 b = Some (quantized_lsp lsp 2 (nb_rest lsp i1 i2 i3 i4 i5), b5)"
    unfolding lsp_quant_nb_def Let_def nb_rest_def using w(1) s1(2) s2(2) s3(2) s4(2) s5(2) by simp
  then show ?thesis using s1 s2 s3 s4 s5 by (intro exI [of _ i1] exI [of _ i2] exI [of _ i3] exI [of _ i4] exI [of _ i5] exI [of _ b5]) simp
qed

lemma lsp_quant_lbr_total:
  assumes lsp: "lsp_ordered 10 lsp" and b: "can_receive r b" "pack_fits b (18 + m + 8)"
  shows "\<exists>i1 i2 i3 b'. i1 < 64 \<and> i2 < 64 \<and> i3 < 64 \<and>
     lsp_quant_lbr ra lsp 10 b = Some (quantized_lsp lsp 1 (lbr_rest lsp i1 i2 i3), b') \<and>
     can_receive r b' \<and> pack_fits b' (m + 8) \<and>
     written b' = written b @ concat (map (\<lambda>i. msb_bits 6 (of_nat i)) [i1, i2, i3])"
proof -
  obtain w where w: "compute_quant_weights lsp 10 = Some w" "length w = 10" using compute_quant_weights_total [OF lsp] by blast
  note cb = lsp_codebooks
  let ?q0 = "map (\<lambda>i. i16 (SUB16 (lsp ! i) (LSP_LINEAR i))) [0..<10]"
  obtain i1 b1 where s1: "i1 < 64" "quant_stage ra (\<lambda>x. lsp_quant x cdbk_nb 64 10) 0 ?q0 b =
      Some (with_code code_error 0 (codeword cdbk_nb 10 i1) ?q0, b1)" "can_receive r b1"
    "written b1 = written b @ msb_bits 6 (of_nat i1)" "pack_fits b1 (12 + m + 8)"
    using quant_stage_total [OF quantizers(1) [OF cb(1)] cb(1), of 0 ?q0 r b "12 + m" ra] b by (auto simp: add.assoc)
  let ?q1 = "double_part 0 10 (with_code code_error 0 (codeword cdbk_nb 10 i1) ?q0)"
  obtain i2 b2 where s2: "i2 < 64" "quant_stage ra (\<lambda>x. lsp_weight_quant x w cdbk_nb_low1 64 5) 0 ?q1 b1 =
      Some (with_code code_error 0 (codeword cdbk_nb_low1 5 i2) ?q1, b2)" "can_receive r b2"
    "written b2 = written b1 @ msb_bits 6 (of_nat i2)" "pack_fits b2 (6 + m + 8)"
    using quant_stage_total [OF quantizers(2) [OF cb(2)] cb(2), of w 0 ?q1 r b1 "6 + m" ra] s1(3,5) w(2) by (auto simp: add.assoc)
  let ?q2 = "with_code code_error 0 (codeword cdbk_nb_low1 5 i2) ?q1"
  obtain i3 b3 where s3: "i3 < 64" "quant_stage ra (\<lambda>x. lsp_weight_quant x (drop 5 w) cdbk_nb_high1 64 5) 5 ?q2 b2 =
      Some (with_code code_error 5 (codeword cdbk_nb_high1 5 i3) ?q2, b3)" "can_receive r b3"
    "written b3 = written b2 @ msb_bits 6 (of_nat i3)" "pack_fits b3 (m + 8)"
    using quant_stage_total [OF quantizers(2) [OF cb(4)] cb(4), of "drop 5 w" 5 ?q2 r b2 m ra] s2(3,5) w(2) by auto
  have "length lsp = 10" using lsp by (simp add: lsp_ordered_def)
  then have "lsp_quant_lbr ra lsp 10 b = Some (quantized_lsp lsp 1 (lbr_rest lsp i1 i2 i3), b3)"
    unfolding lsp_quant_lbr_def Let_def lbr_rest_def using w(1) s1(2) s2(2) s3(2) by simp
  then show ?thesis using s1 s2 s3 by (intro exI [of _ i1] exI [of _ i2] exI [of _ i3] exI [of _ b3]) simp
qed

lemma lsp_quant_high_total:
  assumes lsp: "lsp_ordered 8 lsp" and b: "can_receive r b" "pack_fits b (12 + m + 8)"
  shows "\<exists>i1 i2 b'. i1 < 64 \<and> i2 < 64 \<and>
     lsp_quant_high ra lsp 8 b = Some (quantized_lsp lsp 1 (high_rest lsp i1 i2), b') \<and>
     can_receive r b' \<and> pack_fits b' (m + 8) \<and>
     written b' = written b @ concat (map (\<lambda>i. msb_bits 6 (of_nat i)) [i1, i2])"
proof -
  obtain w where w: "compute_quant_weights lsp 8 = Some w" "length w = 8" using compute_quant_weights_total [OF lsp] by blast
  note cb = lsp_codebooks
  let ?q0 = "map (\<lambda>i. i16 (SUB16 (lsp ! i) (LSP_LINEAR_HIGH i))) [0..<8]"
  obtain i1 b1 where s1: "i1 < 64" "quant_stage ra (\<lambda>x. lsp_quant x high_lsp_cdbk 64 8) 0 ?q0 b =
      Some (with_code code_error 0 (codeword high_lsp_cdbk 8 i1) ?q0, b1)" "can_receive r b1"
    "written b1 = written b @ msb_bits 6 (of_nat i1)" "pack_fits b1 (6 + m + 8)"
    using quant_stage_total [OF quantizers(1) [OF cb(6)] cb(6), of 0 ?q0 r b "6 + m" ra] b by (auto simp: add.assoc)
  let ?q1 = "double_part 0 8 (with_code code_error 0 (codeword high_lsp_cdbk 8 i1) ?q0)"
  obtain i2 b2 where s2: "i2 < 64" "quant_stage ra (\<lambda>x. lsp_weight_quant x w high_lsp_cdbk2 64 8) 0 ?q1 b1 =
      Some (with_code code_error 0 (codeword high_lsp_cdbk2 8 i2) ?q1, b2)" "can_receive r b2"
    "written b2 = written b1 @ msb_bits 6 (of_nat i2)" "pack_fits b2 (m + 8)"
    using quant_stage_total [OF quantizers(2) [OF cb(7)] cb(7), of w 0 ?q1 r b1 m ra] s1(3,5) w(2) by auto
  have "length lsp = 8" using lsp by (simp add: lsp_ordered_def)
  then have "lsp_quant_high ra lsp 8 b = Some (quantized_lsp lsp 1 (high_rest lsp i1 i2), b2)"
    unfolding lsp_quant_high_def Let_def high_rest_def using w(1) s1(2) s2(2) by simp
  then show ?thesis using s1 s2 by (intro exI [of _ i1] exI [of _ i2] exI [of _ b2]) simp
qed

subsection \<open>The decoder reads the same pairs\<close>

lemma lsp_unquant_nb_reads:
  assumes ix: "i1 < 64" "i2 < 64" "i3 < 64" "i4 < 64" "i5 < 64" and b: "reader_wf b"
    and rem: "remaining b = concat (map (\<lambda>i. msb_bits 6 (of_nat i)) [i1, i2, i3, i4, i5]) @ rest"
  shows "\<exists>b'. lsp_unquant_nb 10 b = Some (nb_sum i1 i2 i3 i4 i5, b') \<and> reader_wf b' \<and> remaining b' = rest"
proof -
  note cb = lsp_codebooks
  let ?l0 = "map (\<lambda>i. i16 (LSP_LINEAR i)) [0..<10]"
  let ?l1 = "with_code (\<lambda>x c. i16 (x + LSP_DIV_256 c)) 0 (codeword cdbk_nb 10 i1) ?l0"
  let ?l2 = "with_code (\<lambda>x c. i16 (x + LSP_DIV_512 c)) 0 (codeword cdbk_nb_low1 5 i2) ?l1"
  let ?l3 = "with_code (\<lambda>x c. i16 (x + LSP_DIV_1024 c)) 0 (codeword cdbk_nb_low2 5 i3) ?l2"
  let ?l4 = "with_code (\<lambda>x c. i16 (x + LSP_DIV_512 c)) 5 (codeword cdbk_nb_high1 5 i4) ?l3"
  obtain b1 where s1: "unquant_stage LSP_DIV_256 cdbk_nb 10 0 ?l0 b = Some (?l1, b1)" "reader_wf b1"
    "remaining b1 = concat (map (\<lambda>i. msb_bits 6 (of_nat i)) [i2, i3, i4, i5]) @ rest"
    using unquant_stage_reads [OF cb(1) _ ix(1) b, of 0 ?l0 _ LSP_DIV_256] rem by auto
  obtain b2 where s2: "unquant_stage LSP_DIV_512 cdbk_nb_low1 5 0 ?l1 b1 = Some (?l2, b2)" "reader_wf b2"
    "remaining b2 = concat (map (\<lambda>i. msb_bits 6 (of_nat i)) [i3, i4, i5]) @ rest"
    using unquant_stage_reads [OF cb(2) _ ix(2) s1(2), of 0 ?l1 _ LSP_DIV_512] s1(3) by auto
  obtain b3 where s3: "unquant_stage LSP_DIV_1024 cdbk_nb_low2 5 0 ?l2 b2 = Some (?l3, b3)" "reader_wf b3"
    "remaining b3 = concat (map (\<lambda>i. msb_bits 6 (of_nat i)) [i4, i5]) @ rest"
    using unquant_stage_reads [OF cb(3) _ ix(3) s2(2), of 0 ?l2 _ LSP_DIV_1024] s2(3) by auto
  obtain b4 where s4: "unquant_stage LSP_DIV_512 cdbk_nb_high1 5 5 ?l3 b3 = Some (?l4, b4)" "reader_wf b4"
    "remaining b4 = msb_bits 6 (of_nat i5) @ rest"
    using unquant_stage_reads [OF cb(4) _ ix(4) s3(2), of 5 ?l3 _ LSP_DIV_512] s3(3) by auto
  obtain b5 where s5: "unquant_stage LSP_DIV_1024 cdbk_nb_high2 5 5 ?l4 b4 = Some (nb_sum i1 i2 i3 i4 i5, b5)"
    "reader_wf b5" "remaining b5 = rest"
    using unquant_stage_reads [OF cb(5) _ ix(5) s4(2), of 5 ?l4 _ LSP_DIV_1024] s4(3) unfolding nb_sum_def by auto
  then show ?thesis using s1(1) s2(1) s3(1) s4(1) unfolding lsp_unquant_nb_def Let_def by simp
qed

lemma lsp_unquant_lbr_reads:
  assumes ix: "i1 < 64" "i2 < 64" "i3 < 64" and b: "reader_wf b"
    and rem: "remaining b = concat (map (\<lambda>i. msb_bits 6 (of_nat i)) [i1, i2, i3]) @ rest"
  shows "\<exists>b'. lsp_unquant_lbr 10 b = Some (lbr_sum i1 i2 i3, b') \<and> reader_wf b' \<and> remaining b' = rest"
proof -
  note cb = lsp_codebooks
  let ?l0 = "map (\<lambda>i. i16 (LSP_LINEAR i)) [0..<10]"
  let ?l1 = "with_code (\<lambda>x c. i16 (x + LSP_DIV_256 c)) 0 (codeword cdbk_nb 10 i1) ?l0"
  let ?l2 = "with_code (\<lambda>x c. i16 (x + LSP_DIV_512 c)) 0 (codeword cdbk_nb_low1 5 i2) ?l1"
  obtain b1 where s1: "unquant_stage LSP_DIV_256 cdbk_nb 10 0 ?l0 b = Some (?l1, b1)" "reader_wf b1"
    "remaining b1 = concat (map (\<lambda>i. msb_bits 6 (of_nat i)) [i2, i3]) @ rest"
    using unquant_stage_reads [OF cb(1) _ ix(1) b, of 0 ?l0 _ LSP_DIV_256] rem by auto
  obtain b2 where s2: "unquant_stage LSP_DIV_512 cdbk_nb_low1 5 0 ?l1 b1 = Some (?l2, b2)" "reader_wf b2"
    "remaining b2 = msb_bits 6 (of_nat i3) @ rest"
    using unquant_stage_reads [OF cb(2) _ ix(2) s1(2), of 0 ?l1 _ LSP_DIV_512] s1(3) by auto
  obtain b3 where "unquant_stage LSP_DIV_512 cdbk_nb_high1 5 5 ?l2 b2 = Some (lbr_sum i1 i2 i3, b3)"
    "reader_wf b3" "remaining b3 = rest"
    using unquant_stage_reads [OF cb(4) _ ix(3) s2(2), of 5 ?l2 _ LSP_DIV_512] s2(3) unfolding lbr_sum_def by auto
  then show ?thesis using s1(1) s2(1) unfolding lsp_unquant_lbr_def Let_def by simp
qed

lemma lsp_unquant_high_reads:
  assumes ix: "i1 < 64" "i2 < 64" and b: "reader_wf b"
    and rem: "remaining b = concat (map (\<lambda>i. msb_bits 6 (of_nat i)) [i1, i2]) @ rest"
  shows "\<exists>b'. lsp_unquant_high 8 b = Some (high_sum i1 i2, b') \<and> reader_wf b' \<and> remaining b' = rest"
proof -
  note cb = lsp_codebooks
  let ?l0 = "map (\<lambda>i. i16 (LSP_LINEAR_HIGH i)) [0..<8]"
  let ?l1 = "with_code (\<lambda>x c. i16 (x + LSP_DIV_256 c)) 0 (codeword high_lsp_cdbk 8 i1) ?l0"
  obtain b1 where s1: "unquant_stage LSP_DIV_256 high_lsp_cdbk 8 0 ?l0 b = Some (?l1, b1)" "reader_wf b1"
    "remaining b1 = msb_bits 6 (of_nat i2) @ rest"
    using unquant_stage_reads [OF cb(6) _ ix(1) b, of 0 ?l0 _ LSP_DIV_256] rem by auto
  obtain b2 where "unquant_stage LSP_DIV_512 high_lsp_cdbk2 8 0 ?l1 b1 = Some (high_sum i1 i2, b2)"
    "reader_wf b2" "remaining b2 = rest"
    using unquant_stage_reads [OF cb(7) _ ix(2) s1(2), of 0 ?l1 _ LSP_DIV_512] s1(3) unfolding high_sum_def by auto
  then show ?thesis using s1(1) unfolding lsp_unquant_high_def Let_def by simp
qed

subsection \<open>Properties\<close>

lemma quantized_exact:
  assumes "length lsp = n" "length rest = n" "length d = n" and s: "s = 1 \<or> s = 2"
    and r: "\<And>j. j < n \<Longrightarrow> rest ! j = i16 (2 ^ s * (lsp ! j - d ! j))" and d: "\<And>j. j < n \<Longrightarrow> is_i16 (d ! j)"
    and near: "\<forall>j < n. \<bar>lsp ! j - d ! j\<bar> \<le> 32764 div 2 ^ s"
  shows "quantized_lsp lsp s rest = d"
proof (rule nth_equalityI)
  fix j assume "j < length (quantized_lsp lsp s rest)"
  then have j: "j < n" using assms(1,2) by (simp add: quantized_lsp_def)
  define e where "e = lsp ! j - d ! j"
  have e: "\<bar>e\<bar> \<le> 32764 div 2 ^ s" using near j by (simp add: e_def)
  have re: "rest ! j = 2 ^ s * e"
    using r [OF j, folded e_def] e s by (auto simp: is_i16_def abs_le_iff intro!: i16_id)
  have "PSHR16 (rest ! j) s = e"
  proof -
    have "i32 (2 ^ s * e + asr (shl 1 s) 1) = 2 ^ s * e + asr (shl 1 s) 1"
      using e s by (intro i32_id) (auto simp: is_i32_def shl_def asr_def abs_le_iff)
    then show ?thesis using s by (auto simp: PSHR16_def SHR16_def re shl_def asr_def)
  qed
  moreover have "quantized_lsp lsp s rest ! j = i16 (lsp ! j - i16 (PSHR16 (rest ! j) s))"
    using j assms(1,2) by (simp add: quantized_lsp_def)
  ultimately have "quantized_lsp lsp s rest ! j = i16 (lsp ! j - e)" by (simp add: i16_inner)
  then show "quantized_lsp lsp s rest ! j = d ! j" using d [OF j] by (simp add: e_def)
qed (simp add: quantized_lsp_def assms)

lemma sums_i16:
  "j < 10 \<Longrightarrow> is_i16 (nb_sum i1 i2 i3 i4 i5 ! j)" "j < 10 \<Longrightarrow> is_i16 (lbr_sum i1 i2 i3 ! j)" "j < 8 \<Longrightarrow> is_i16 (high_sum i1 i2 ! j)"
  by (simp_all add: nb_sum_def lbr_sum_def high_sum_def nth_with_code)

text \<open>Encoding pairs into a packet that is sent and decoded: the decoder gets what the encoder keeps.\<close>

definition pairs_agree ::
    "(int list \<Rightarrow> speex_bits \<Rightarrow> (int list \<times> speex_bits) option) \<Rightarrow> (speex_bits \<Rightarrow> (int list \<times> speex_bits) option) \<Rightarrow>
     reallocator \<Rightarrow> speex_bits \<Rightarrow> speex_bits \<Rightarrow> int list \<Rightarrow> int \<Rightarrow> bool" where
  "pairs_agree quant unquant ra r b lsp limit \<longleftrightarrow>
     (\<exists>q b' r' d r''. quant lsp b = Some (q, b') \<and> send_packet ra r b' = Some r' \<and> unquant r' = Some (d, r'') \<and>
        length q = length lsp \<and> length d = length lsp \<and>
        ((\<forall>j < length lsp. \<bar>lsp ! j - d ! j\<bar> \<le> limit) \<longrightarrow> q = d))"

lemma send_fields:
  assumes "can_receive r b" and "pack_fits b 8" and "written b = w"
  shows "\<exists>r' pad. send_packet ra r b = Some r' \<and> reader_wf r' \<and> remaining r' = w @ pad"
  using send_packet_keeps [OF assms(1,2), of ra] assms(3) by auto

lemma pairs_agree_nb:
  assumes lsp: "lsp_ordered 10 lsp" and b: "can_receive r b" "written b = []" "pack_fits b 38"
  shows "pairs_agree (\<lambda>x. lsp_quant_nb ra x 10) (lsp_unquant_nb 10) ra r b lsp 8191"
proof -
  obtain i1 i2 i3 i4 i5 b' where ix: "i1 < 64" "i2 < 64" "i3 < 64" "i4 < 64" "i5 < 64"
    and e: "lsp_quant_nb ra lsp 10 b = Some (quantized_lsp lsp 2 (nb_rest lsp i1 i2 i3 i4 i5), b')"
      "can_receive r b'" "pack_fits b' 8" "written b' = concat (map (\<lambda>i. msb_bits 6 (of_nat i)) [i1, i2, i3, i4, i5])"
    using lsp_quant_nb_total [OF lsp b(1), of 0 ra] b(2,3) by auto
  obtain r' pad where r': "send_packet ra r b' = Some r'" "reader_wf r'"
    "remaining r' = concat (map (\<lambda>i. msb_bits 6 (of_nat i)) [i1, i2, i3, i4, i5]) @ pad"
    using send_fields [OF e(2-4)] by blast
  obtain r'' where d: "lsp_unquant_nb 10 r' = Some (nb_sum i1 i2 i3 i4 i5, r'')"
    using lsp_unquant_nb_reads [OF ix r'(2,3)] by blast
  have len: "length lsp = 10" "length (nb_rest lsp i1 i2 i3 i4 i5) = 10" "length (nb_sum i1 i2 i3 i4 i5) = 10"
    using lsp by (simp_all add: lsp_ordered_def nb_rest_def nb_sum_def)
  have "quantized_lsp lsp 2 (nb_rest lsp i1 i2 i3 i4 i5) = nb_sum i1 i2 i3 i4 i5"
    if "\<forall>j < length lsp. \<bar>lsp ! j - nb_sum i1 i2 i3 i4 i5 ! j\<bar> \<le> 8191"
    by (rule quantized_exact [OF len]) (use that len nb_rest_error [OF ix] sums_i16 in auto)
  then show ?thesis unfolding pairs_agree_def using e(1) r'(1) d len by (auto simp: quantized_lsp_def)
qed

lemma pairs_agree_lbr:
  assumes lsp: "lsp_ordered 10 lsp" and b: "can_receive r b" "written b = []" "pack_fits b 26"
  shows "pairs_agree (\<lambda>x. lsp_quant_lbr ra x 10) (lsp_unquant_lbr 10) ra r b lsp 16382"
proof -
  obtain i1 i2 i3 b' where ix: "i1 < 64" "i2 < 64" "i3 < 64"
    and e: "lsp_quant_lbr ra lsp 10 b = Some (quantized_lsp lsp 1 (lbr_rest lsp i1 i2 i3), b')"
      "can_receive r b'" "pack_fits b' 8" "written b' = concat (map (\<lambda>i. msb_bits 6 (of_nat i)) [i1, i2, i3])"
    using lsp_quant_lbr_total [OF lsp b(1), of 0 ra] b(2,3) by auto
  obtain r' pad where r': "send_packet ra r b' = Some r'" "reader_wf r'"
    "remaining r' = concat (map (\<lambda>i. msb_bits 6 (of_nat i)) [i1, i2, i3]) @ pad"
    using send_fields [OF e(2-4)] by blast
  obtain r'' where d: "lsp_unquant_lbr 10 r' = Some (lbr_sum i1 i2 i3, r'')"
    using lsp_unquant_lbr_reads [OF ix r'(2,3)] by blast
  have len: "length lsp = 10" "length (lbr_rest lsp i1 i2 i3) = 10" "length (lbr_sum i1 i2 i3) = 10"
    using lsp by (simp_all add: lsp_ordered_def lbr_rest_def lbr_sum_def)
  have "quantized_lsp lsp 1 (lbr_rest lsp i1 i2 i3) = lbr_sum i1 i2 i3"
    if "\<forall>j < length lsp. \<bar>lsp ! j - lbr_sum i1 i2 i3 ! j\<bar> \<le> 16382"
    by (rule quantized_exact [OF len]) (use that len lbr_rest_error [OF ix] sums_i16 in auto)
  then show ?thesis unfolding pairs_agree_def using e(1) r'(1) d len by (auto simp: quantized_lsp_def)
qed

lemma pairs_agree_high:
  assumes lsp: "lsp_ordered 8 lsp" and b: "can_receive r b" "written b = []" "pack_fits b 20"
  shows "pairs_agree (\<lambda>x. lsp_quant_high ra x 8) (lsp_unquant_high 8) ra r b lsp 16382"
proof -
  obtain i1 i2 b' where ix: "i1 < 64" "i2 < 64"
    and e: "lsp_quant_high ra lsp 8 b = Some (quantized_lsp lsp 1 (high_rest lsp i1 i2), b')"
      "can_receive r b'" "pack_fits b' 8" "written b' = concat (map (\<lambda>i. msb_bits 6 (of_nat i)) [i1, i2])"
    using lsp_quant_high_total [OF lsp b(1), of 0 ra] b(2,3) by auto
  obtain r' pad where r': "send_packet ra r b' = Some r'" "reader_wf r'"
    "remaining r' = concat (map (\<lambda>i. msb_bits 6 (of_nat i)) [i1, i2]) @ pad"
    using send_fields [OF e(2-4)] by blast
  obtain r'' where d: "lsp_unquant_high 8 r' = Some (high_sum i1 i2, r'')"
    using lsp_unquant_high_reads [OF ix r'(2,3)] by blast
  have len: "length lsp = 8" "length (high_rest lsp i1 i2) = 8" "length (high_sum i1 i2) = 8"
    using lsp by (simp_all add: lsp_ordered_def high_rest_def high_sum_def)
  have "quantized_lsp lsp 1 (high_rest lsp i1 i2) = high_sum i1 i2"
    if "\<forall>j < length lsp. \<bar>lsp ! j - high_sum i1 i2 ! j\<bar> \<le> 16382"
    by (rule quantized_exact [OF len]) (use that len high_rest_error [OF ix] sums_i16 in auto)
  then show ?thesis unfolding pairs_agree_def using e(1) r'(1) d len by (auto simp: quantized_lsp_def)
qed



text \<open>Decoding succeeds whatever the packet holds, and the pairs are those of some codewords.\<close>

lemma lsp_unquant_nb_total:
  assumes "rd_ok b"
  shows "\<exists>d b'. lsp_unquant_nb 10 b = Some (d, b') \<and> rd_ok b' \<and> length d = 10 \<and> (\<forall>j < 10. is_i16 (d ! j))"
proof -
  note cb = lsp_codebooks
  let ?l0 = "map (\<lambda>i. i16 (LSP_LINEAR i)) [0..<10]"
  obtain i1 b1 where s1: "unquant_stage LSP_DIV_256 cdbk_nb 10 0 ?l0 b =
      Some (with_code (\<lambda>x c. i16 (x + LSP_DIV_256 c)) 0 (codeword cdbk_nb 10 i1) ?l0, b1)" "rd_ok b1"
    using unquant_stage_total [OF cb(1) _ assms, of 0 ?l0 LSP_DIV_256] by auto
  let ?l1 = "with_code (\<lambda>x c. i16 (x + LSP_DIV_256 c)) 0 (codeword cdbk_nb 10 i1) ?l0"
  obtain i2 b2 where s2: "unquant_stage LSP_DIV_512 cdbk_nb_low1 5 0 ?l1 b1 =
      Some (with_code (\<lambda>x c. i16 (x + LSP_DIV_512 c)) 0 (codeword cdbk_nb_low1 5 i2) ?l1, b2)" "rd_ok b2"
    using unquant_stage_total [OF cb(2) _ s1(2), of 0 ?l1 LSP_DIV_512] by auto
  let ?l2 = "with_code (\<lambda>x c. i16 (x + LSP_DIV_512 c)) 0 (codeword cdbk_nb_low1 5 i2) ?l1"
  obtain i3 b3 where s3: "unquant_stage LSP_DIV_1024 cdbk_nb_low2 5 0 ?l2 b2 =
      Some (with_code (\<lambda>x c. i16 (x + LSP_DIV_1024 c)) 0 (codeword cdbk_nb_low2 5 i3) ?l2, b3)" "rd_ok b3"
    using unquant_stage_total [OF cb(3) _ s2(2), of 0 ?l2 LSP_DIV_1024] by auto
  let ?l3 = "with_code (\<lambda>x c. i16 (x + LSP_DIV_1024 c)) 0 (codeword cdbk_nb_low2 5 i3) ?l2"
  obtain i4 b4 where s4: "unquant_stage LSP_DIV_512 cdbk_nb_high1 5 5 ?l3 b3 =
      Some (with_code (\<lambda>x c. i16 (x + LSP_DIV_512 c)) 5 (codeword cdbk_nb_high1 5 i4) ?l3, b4)" "rd_ok b4"
    using unquant_stage_total [OF cb(4) _ s3(2), of 5 ?l3 LSP_DIV_512] by auto
  let ?l4 = "with_code (\<lambda>x c. i16 (x + LSP_DIV_512 c)) 5 (codeword cdbk_nb_high1 5 i4) ?l3"
  obtain i5 b5 where s5: "unquant_stage LSP_DIV_1024 cdbk_nb_high2 5 5 ?l4 b4 = Some (nb_sum i1 i2 i3 i4 i5, b5)" "rd_ok b5"
    using unquant_stage_total [OF cb(5) _ s4(2), of 5 ?l4 LSP_DIV_1024] unfolding nb_sum_def by auto
  have "lsp_unquant_nb 10 b = Some (nb_sum i1 i2 i3 i4 i5, b5)"
    using s1(1) s2(1) s3(1) s4(1) s5(1) unfolding lsp_unquant_nb_def Let_def by simp
  then show ?thesis using s5(2) sums_i16(1) by (auto simp: nb_sum_def)
qed

lemma lsp_unquant_lbr_total:
  assumes "rd_ok b"
  shows "\<exists>d b'. lsp_unquant_lbr 10 b = Some (d, b') \<and> rd_ok b' \<and> length d = 10 \<and> (\<forall>j < 10. is_i16 (d ! j))"
proof -
  note cb = lsp_codebooks
  let ?l0 = "map (\<lambda>i. i16 (LSP_LINEAR i)) [0..<10]"
  obtain i1 b1 where s1: "unquant_stage LSP_DIV_256 cdbk_nb 10 0 ?l0 b =
      Some (with_code (\<lambda>x c. i16 (x + LSP_DIV_256 c)) 0 (codeword cdbk_nb 10 i1) ?l0, b1)" "rd_ok b1"
    using unquant_stage_total [OF cb(1) _ assms, of 0 ?l0 LSP_DIV_256] by auto
  let ?l1 = "with_code (\<lambda>x c. i16 (x + LSP_DIV_256 c)) 0 (codeword cdbk_nb 10 i1) ?l0"
  obtain i2 b2 where s2: "unquant_stage LSP_DIV_512 cdbk_nb_low1 5 0 ?l1 b1 =
      Some (with_code (\<lambda>x c. i16 (x + LSP_DIV_512 c)) 0 (codeword cdbk_nb_low1 5 i2) ?l1, b2)" "rd_ok b2"
    using unquant_stage_total [OF cb(2) _ s1(2), of 0 ?l1 LSP_DIV_512] by auto
  let ?l2 = "with_code (\<lambda>x c. i16 (x + LSP_DIV_512 c)) 0 (codeword cdbk_nb_low1 5 i2) ?l1"
  obtain i3 b3 where s3: "unquant_stage LSP_DIV_512 cdbk_nb_high1 5 5 ?l2 b2 = Some (lbr_sum i1 i2 i3, b3)" "rd_ok b3"
    using unquant_stage_total [OF cb(4) _ s2(2), of 5 ?l2 LSP_DIV_512] unfolding lbr_sum_def by auto
  have "lsp_unquant_lbr 10 b = Some (lbr_sum i1 i2 i3, b3)"
    using s1(1) s2(1) s3(1) unfolding lsp_unquant_lbr_def Let_def by simp
  then show ?thesis using s3(2) sums_i16(2) by (auto simp: lbr_sum_def)
qed

lemma lsp_unquant_high_total:
  assumes "rd_ok b"
  shows "\<exists>d b'. lsp_unquant_high 8 b = Some (d, b') \<and> rd_ok b' \<and> length d = 8 \<and> (\<forall>j < 8. is_i16 (d ! j))"
proof -
  note cb = lsp_codebooks
  let ?l0 = "map (\<lambda>i. i16 (LSP_LINEAR_HIGH i)) [0..<8]"
  obtain i1 b1 where s1: "unquant_stage LSP_DIV_256 high_lsp_cdbk 8 0 ?l0 b =
      Some (with_code (\<lambda>x c. i16 (x + LSP_DIV_256 c)) 0 (codeword high_lsp_cdbk 8 i1) ?l0, b1)" "rd_ok b1"
    using unquant_stage_total [OF cb(6) _ assms, of 0 ?l0 LSP_DIV_256] by auto
  let ?l1 = "with_code (\<lambda>x c. i16 (x + LSP_DIV_256 c)) 0 (codeword high_lsp_cdbk 8 i1) ?l0"
  obtain i2 b2 where s2: "unquant_stage LSP_DIV_512 high_lsp_cdbk2 8 0 ?l1 b1 = Some (high_sum i1 i2, b2)" "rd_ok b2"
    using unquant_stage_total [OF cb(7) _ s1(2), of 0 ?l1 LSP_DIV_512] unfolding high_sum_def by auto
  have "lsp_unquant_high 8 b = Some (high_sum i1 i2, b2)"
    using s1(1) s2(1) unfolding lsp_unquant_high_def Let_def by simp
  then show ?thesis using s2(2) sums_i16(3) by (auto simp: high_sum_def)
qed

lemma lsp_dist_sums:
  assumes "length cs \<le> 10" and "\<forall>x \<in> set xs. \<bar>x\<bar> \<le> 10000" and "\<forall>c \<in> set cs. -128 \<le> c \<and> c \<le> 127"
  shows "lsp_dist xs cs = (\<Sum>(x, c) \<leftarrow> zip xs cs. (x - 32 * c)\<^sup>2)"
    and "(\<Sum>(x, c) \<leftarrow> zip xs cs. (x - 32 * c)\<^sup>2) < 2147483647"
proof -
  have sq: "code_error x c = x - 32 * c \<and> (x - 32 * c)\<^sup>2 \<le> 198697216" if "(x, c) \<in> set (zip xs cs)" for x c
  proof -
    have "x \<in> set xs" "c \<in> set cs" using that by (auto dest: set_zip_leftD set_zip_rightD)
    then have r: "\<bar>x\<bar> \<le> 10000" "-128 \<le> c" "c \<le> 127" using assms(2,3) by auto
    then have b: "\<bar>x - 32 * c\<bar> \<le> 14096" by linarith
    then have "is_i16 (x - 32 * c)" by (simp add: is_i16_def abs_le_iff)
    moreover have "\<bar>x - 32 * c\<bar>\<^sup>2 \<le> 14096\<^sup>2" using b by (intro power_mono) auto
    ultimately show ?thesis by (simp add: code_error_i16)
  qed
  have main: "length ps \<le> 10 \<Longrightarrow> (\<forall>(x, c) \<in> set ps. code_error x c = x - 32 * c \<and> (x - 32 * c)\<^sup>2 \<le> 198697216) \<Longrightarrow>
      foldl (\<lambda>dist (x, c). MAC16_16 dist (code_error x c) (code_error x c)) 0 ps = (\<Sum>(x, c) \<leftarrow> ps. (x - 32 * c)\<^sup>2) \<and>
      0 \<le> (\<Sum>(x, c) \<leftarrow> ps. (x - 32 * c)\<^sup>2) \<and> (\<Sum>(x, c) \<leftarrow> ps. (x - 32 * c)\<^sup>2) \<le> 198697216 * int (length ps)"
    for ps :: "(int \<times> int) list"
  proof (induction ps rule: rev_induct)
    case (snoc p ps)
    obtain x c where p: "p = (x, c)" by fastforce
    have e: "code_error x c = x - 32 * c" "(x - 32 * c)\<^sup>2 \<le> 198697216" using snoc.prems p by auto
    have ih: "foldl (\<lambda>dist (x, c). MAC16_16 dist (code_error x c) (code_error x c)) 0 ps = (\<Sum>(x, c) \<leftarrow> ps. (x - 32 * c)\<^sup>2)"
      "0 \<le> (\<Sum>(x, c) \<leftarrow> ps. (x - 32 * c)\<^sup>2)" "(\<Sum>(x, c) \<leftarrow> ps. (x - 32 * c)\<^sup>2) \<le> 198697216 * int (length ps)"
      using snoc by auto
    let ?s = "\<Sum>(x, c) \<leftarrow> ps. (x - 32 * c)\<^sup>2"
    have "MULT16_16 (code_error x c) (code_error x c) = (x - 32 * c)\<^sup>2"
      using is_i16_i16 [of "x - 32 * c"] e(1) by (simp add: MULT16_16_def code_error_i16 power2_eq_square)
    moreover have "is_i32 (?s + (x - 32 * c)\<^sup>2)"
      unfolding is_i32_def using ih e(2) snoc.prems(1) zero_le_power2 [of "x - 32 * c"] by (simp, linarith)
    ultimately have "MAC16_16 ?s (code_error x c) (code_error x c) = ?s + (x - 32 * c)\<^sup>2"
      by (simp add: MAC16_16_def ADD32_i32)
    then show ?case using ih e p by (simp add: add.commute)
  qed simp
  have "length (zip xs cs) \<le> 10" using assms(1) by simp
  moreover have "\<forall>(x, c) \<in> set (zip xs cs). code_error x c = x - 32 * c \<and> (x - 32 * c)\<^sup>2 \<le> 198697216" using sq by blast
  moreover have "198697216 * int (length (zip xs cs)) < 2147483647" using assms(1) by simp
  ultimately show "lsp_dist xs cs = (\<Sum>(x, c) \<leftarrow> zip xs cs. (x - 32 * c)\<^sup>2)"
    "(\<Sum>(x, c) \<leftarrow> zip xs cs. (x - 32 * c)\<^sup>2) < 2147483647"
    using main [of "zip xs cs"] unfolding lsp_dist_def by (blast, linarith)
qed

text \<open>The first stage picks the nearest codeword: for an error vector of at most ten entries within
  10000 of zero, the index sent is that of a codeword at the least squared distance (no
  sum of squares overflows), and the codeword is taken off the vector.\<close>

theorem lsp_quant_nearest:
  assumes "signed_chars (m * n) cdbk" and "0 < m" and "n \<le> 10" and "n \<le> length x" and "\<forall>v \<in> set x. \<bar>v\<bar> \<le> 10000"
  defines "sq_error \<equiv> \<lambda>i. \<Sum>(v, c) \<leftarrow> zip (take n x) (codeword cdbk n i). (v - 32 * c)\<^sup>2"
  shows "\<exists>ix < m. lsp_quant x cdbk m n = Some (ix, with_code (\<lambda>v c. i16 (v - 32 * c)) 0 (codeword cdbk n ix) x) \<and>
     (\<forall>i < m. sq_error ix \<le> sq_error i)"
proof -
  obtain ix where ix: "ix < m" "lsp_quant x cdbk m n = Some (ix, with_code code_error 0 (codeword cdbk n ix) x)"
    "\<forall>i < m. lsp_dist (take n x) (codeword cdbk n i) < 2147483647 \<longrightarrow>
        lsp_dist (take n x) (codeword cdbk n ix) \<le> lsp_dist (take n x) (codeword cdbk n i)"
    using lsp_quant_total [OF assms(1,2,4)] by blast
  have v: "\<forall>v \<in> set (take n x). \<bar>v\<bar> \<le> 10000" using assms(5) by (meson in_set_takeD)
  have d: "lsp_dist (take n x) (codeword cdbk n i) = sq_error i \<and> sq_error i < 2147483647" if "i < m" for i
  proof -
    note cs = codeword_read(2,3) [OF assms(1) that]
    have "length (codeword cdbk n i) \<le> 10" using cs(1) assms(3) by simp
    then show ?thesis using lsp_dist_sums(1) [OF _ v cs(2)] lsp_dist_sums(2) [OF _ v cs(2)] by (simp add: sq_error_def)
  qed
  have "code_error = (\<lambda>v c. i16 (v - 32 * c))" by (intro ext) (rule code_error_i16)
  then show ?thesis using ix d by auto
qed

theorem lsp_quant_nearest_witness:
  "\<exists>ix < 64. \<exists>x. lsp_quant [300, -200, 50, 4000, 5, 6, 7, 8, 9, 10] cdbk_nb 64 10 = Some (ix, x)"
  using lsp_quant_nearest [of 64 10 cdbk_nb "[300, -200, 50, 4000, 5, 6, 7, 8, 9, 10]"] lsp_codebooks(1) by auto

subsection \<open>How much the line spectral pairs take\<close>

lemma unquant_stage_spends:
  assumes "rd_ok b" and "unquant_stage scale cdbk n k lsp b = Some (l, b')"
  shows "spends b 6 b'"
  using unpack_spends [OF assms(1), of 6] assms(2) by (auto simp: unquant_stage_def split: Option.bind_splits)

lemma lsp_unquant_spends:
  assumes "rd_ok b"
  shows "\<exists>d b'. lsp_unquant_nb 10 b = Some (d, b') \<and> spends b 30 b' \<and> length d = 10 \<and> (\<forall>v \<in> set d. is_i16 v)"
    and "\<exists>d b'. lsp_unquant_lbr 10 b = Some (d, b') \<and> spends b 18 b' \<and> length d = 10 \<and> (\<forall>v \<in> set d. is_i16 v)"
    and "\<exists>d b'. lsp_unquant_high 8 b = Some (d, b') \<and> spends b 12 b' \<and> length d = 8 \<and> (\<forall>v \<in> set d. is_i16 v)"
proof -
  note stage = unquant_stage_spends and ok = spends_ok
  obtain d b' where u: "lsp_unquant_nb 10 b = Some (d, b')" "length d = 10" "\<forall>j < 10. is_i16 (d ! j)"
    using lsp_unquant_nb_total [OF assms] by blast
  then obtain l1 b1 l2 b2 l3 b3 l4 b4 where
    1: "unquant_stage LSP_DIV_256 cdbk_nb 10 0 (map (\<lambda>i. i16 (LSP_LINEAR i)) [0..<10]) b = Some (l1, b1)" and
    2: "unquant_stage LSP_DIV_512 cdbk_nb_low1 5 0 l1 b1 = Some (l2, b2)" and
    3: "unquant_stage LSP_DIV_1024 cdbk_nb_low2 5 0 l2 b2 = Some (l3, b3)" and
    4: "unquant_stage LSP_DIV_512 cdbk_nb_high1 5 5 l3 b3 = Some (l4, b4)" and
    5: "unquant_stage LSP_DIV_1024 cdbk_nb_high2 5 5 l4 b4 = Some (d, b')"
    unfolding lsp_unquant_nb_def Let_def by (auto elim!: bind_SomeE simp del: upt_rec_numeral)
  note s1 = stage [OF assms 1] note s2 = stage [OF ok [OF s1] 2] note s3 = stage [OF ok [OF s2] 3]
  note s4 = stage [OF ok [OF s3] 4] note s5 = stage [OF ok [OF s4] 5]
  have "spends b 30 b'" using spends_trans [OF spends_trans [OF spends_trans [OF spends_trans [OF s1 s2] s3] s4] s5] by simp
  then show "\<exists>d b'. lsp_unquant_nb 10 b = Some (d, b') \<and> spends b 30 b' \<and> length d = 10 \<and> (\<forall>v \<in> set d. is_i16 v)"
    using u by (auto simp: in_set_conv_nth)
next
  note stage = unquant_stage_spends and ok = spends_ok
  obtain d b' where u: "lsp_unquant_lbr 10 b = Some (d, b')" "length d = 10" "\<forall>j < 10. is_i16 (d ! j)"
    using lsp_unquant_lbr_total [OF assms] by blast
  then obtain l1 b1 l2 b2 where
    1: "unquant_stage LSP_DIV_256 cdbk_nb 10 0 (map (\<lambda>i. i16 (LSP_LINEAR i)) [0..<10]) b = Some (l1, b1)" and
    2: "unquant_stage LSP_DIV_512 cdbk_nb_low1 5 0 l1 b1 = Some (l2, b2)" and
    3: "unquant_stage LSP_DIV_512 cdbk_nb_high1 5 5 l2 b2 = Some (d, b')"
    unfolding lsp_unquant_lbr_def Let_def by (auto elim!: bind_SomeE simp del: upt_rec_numeral)
  note s1 = stage [OF assms 1] note s2 = stage [OF ok [OF s1] 2] note s3 = stage [OF ok [OF s2] 3]
  have "spends b 18 b'" using spends_trans [OF spends_trans [OF s1 s2] s3] by simp
  then show "\<exists>d b'. lsp_unquant_lbr 10 b = Some (d, b') \<and> spends b 18 b' \<and> length d = 10 \<and> (\<forall>v \<in> set d. is_i16 v)"
    using u by (auto simp: in_set_conv_nth)
next
  note stage = unquant_stage_spends and ok = spends_ok
  obtain d b' where u: "lsp_unquant_high 8 b = Some (d, b')" "length d = 8" "\<forall>j < 8. is_i16 (d ! j)"
    using lsp_unquant_high_total [OF assms] by blast
  then obtain l1 b1 where
    1: "unquant_stage LSP_DIV_256 high_lsp_cdbk 8 0 (map (\<lambda>i. i16 (LSP_LINEAR_HIGH i)) [0..<8]) b = Some (l1, b1)" and
    2: "unquant_stage LSP_DIV_512 high_lsp_cdbk2 8 0 l1 b1 = Some (d, b')"
    unfolding lsp_unquant_high_def Let_def by (auto elim!: bind_SomeE simp del: upt_rec_numeral)
  note s1 = stage [OF assms 1] note s2 = stage [OF ok [OF s1] 2]
  have "spends b 12 b'" using spends_trans [OF s1 s2] by simp
  then show "\<exists>d b'. lsp_unquant_high 8 b = Some (d, b') \<and> spends b 12 b' \<and> length d = 8 \<and> (\<forall>v \<in> set d. is_i16 v)"
    using u by (auto simp: in_set_conv_nth)
qed

end
