(* ===== verification/Speex_Inband.thy ===== *)
theory Speex_Inband
  imports Speex_Stream
begin

text \<open>
  In-band requests in a Speex stream (\<open>speex_callbacks.c\<close>): a request number in four bits, then a
  payload, which goes to the handler registered for the number or is skipped.

  A handler is a function on the packet and the state \<open>'d\<close> behind its \<open>data\<close> pointer; \<open>None\<close> in the list is a
  null pointer. The requests go to the codec through \<open>speex_encoder_ctl\<close> and
  \<open>speex_decoder_ctl\<close>, which dispatch through a function pointer: the parameter \<open>ctl\<close>, given the request and
  its argument. \<open>putc\<close> is the \<open>_speex_putc\<close> of the platform.
\<close>

type_synonym 'd handler = "speex_bits \<Rightarrow> 'd \<Rightarrow> (int \<times> speex_bits \<times> 'd) option"

subsection \<open>The dispatcher\<close>

definition skip_width :: "nat \<Rightarrow> nat" where
  "skip_width ix =
     (if ix < 2 then 1 else if ix < 8 then 4 else if ix < 10 then 8 else if ix < 12 then 16
      else if ix < 14 then 32 else 64)"

definition speex_inband_handler :: "'d handler option list \<Rightarrow> 'd handler" where
  "speex_inband_handler callback_list bits state =
     do { (ix, bits) \<leftarrow> speex_bits_unpack_unsigned bits 4;
          callback \<leftarrow> mem_get callback_list (unat ix);
          case callback of
            Some func \<Rightarrow> func bits state
          | None \<Rightarrow> Some (0, speex_bits_advance bits (skip_width (unat ix)), state) }"

subsection \<open>The standard handlers\<close>

definition SPEEX_SET_ENH :: nat where "SPEEX_SET_ENH = 0"
definition SPEEX_SET_MODE :: nat where "SPEEX_SET_MODE = 6"
definition SPEEX_SET_LOW_MODE :: nat where "SPEEX_SET_LOW_MODE = 8"
definition SPEEX_SET_HIGH_MODE :: nat where "SPEEX_SET_HIGH_MODE = 10"
definition SPEEX_SET_VBR :: nat where "SPEEX_SET_VBR = 12"
definition SPEEX_SET_VBR_QUALITY :: nat where "SPEEX_SET_VBR_QUALITY = 14"

type_synonym 'd ctl = "nat \<Rightarrow> nat \<Rightarrow> 'd \<Rightarrow> 'd"

definition speex_std_mode_request_handler :: "'d ctl \<Rightarrow> 'd handler" where
  "speex_std_mode_request_handler ctl bits state =
     do { (m, bits) \<leftarrow> speex_bits_unpack_unsigned bits 4; Some (0, bits, ctl SPEEX_SET_MODE (unat m) state) }"

definition speex_std_low_mode_request_handler :: "'d ctl \<Rightarrow> 'd handler" where
  "speex_std_low_mode_request_handler ctl bits state =
     do { (m, bits) \<leftarrow> speex_bits_unpack_unsigned bits 4; Some (0, bits, ctl SPEEX_SET_LOW_MODE (unat m) state) }"

definition speex_std_high_mode_request_handler :: "'d ctl \<Rightarrow> 'd handler" where
  "speex_std_high_mode_request_handler ctl bits state =
     do { (m, bits) \<leftarrow> speex_bits_unpack_unsigned bits 4; Some (0, bits, ctl SPEEX_SET_HIGH_MODE (unat m) state) }"

definition speex_std_vbr_request_handler :: "'d ctl \<Rightarrow> 'd handler" where
  "speex_std_vbr_request_handler ctl bits state =
     do { (vbr, bits) \<leftarrow> speex_bits_unpack_unsigned bits 1; Some (0, bits, ctl SPEEX_SET_VBR (unat vbr) state) }"

definition speex_std_enh_request_handler :: "'d ctl \<Rightarrow> 'd handler" where
  "speex_std_enh_request_handler ctl bits state =
     do { (enh, bits) \<leftarrow> speex_bits_unpack_unsigned bits 1; Some (0, bits, ctl SPEEX_SET_ENH (unat enh) state) }"

text \<open>The quality is handed over as a float, which holds the four bits exactly.\<close>

definition speex_std_vbr_quality_request_handler :: "'d ctl \<Rightarrow> 'd handler" where
  "speex_std_vbr_quality_request_handler ctl bits state =
     do { (qual, bits) \<leftarrow> speex_bits_unpack_unsigned bits 4;
          Some (0, bits, ctl SPEEX_SET_VBR_QUALITY (unat qual) state) }"

definition speex_std_char_handler :: "(u8 \<Rightarrow> 'd \<Rightarrow> 'd) \<Rightarrow> 'd handler" where
  "speex_std_char_handler putc bits state =
     do { (ch, bits) \<leftarrow> speex_bits_unpack_unsigned bits 8; Some (0, bits, putc (ucast ch) state) }"

definition speex_default_user_handler :: "'d handler" where
  "speex_default_user_handler bits state =
     do { (req_size, bits) \<leftarrow> speex_bits_unpack_unsigned bits 4;
          Some (0, speex_bits_advance bits (5 + 8 * unat req_size), state) }"

subsection \<open>What a handler consumes\<close>

text \<open>\<open>h\<close> reads exactly a payload of \<open>n\<close> bits, returns 0 and acts on the state by \<open>f\<close> of its value.\<close>

definition consumes :: "'d handler \<Rightarrow> nat \<Rightarrow> (u32 \<Rightarrow> 'd \<Rightarrow> 'd) \<Rightarrow> bool" where
  "consumes h n f \<longleftrightarrow>
     (\<forall>b st payload rest. reader_wf b \<longrightarrow> remaining b = payload @ rest \<longrightarrow> length payload = n \<longrightarrow>
        (\<exists>b'. h b st = Some (0, b', f (bits_val payload) st) \<and> reader_wf b' \<and> remaining b' = rest))"

lemma consumesD:
  "consumes h n f \<Longrightarrow> reader_wf b \<Longrightarrow> remaining b = payload @ rest \<Longrightarrow> length payload = n \<Longrightarrow>
     \<exists>b'. h b st = Some (0, b', f (bits_val payload) st) \<and> reader_wf b' \<and> remaining b' = rest"
  by (simp add: consumes_def)

lemma advance_takes:
  assumes "reader_wf b" and "remaining b = payload @ rest" and "length payload = n"
  shows "reader_wf (speex_bits_advance b n) \<and> remaining (speex_bits_advance b n) = rest"
  using advanced_reader [OF assms(1), of n] advance_fits [OF assms(1), of n] assms(2,3) by auto

lemma unpack_takes_payload:
  assumes "reader_wf b" and "remaining b = payload @ rest" and "length payload = n"
  shows "\<exists>b'. speex_bits_unpack_unsigned b n = Some (bits_val payload, b') \<and> reader_wf b' \<and> remaining b' = rest"
  using sb_reader.unpack_takes [OF assms(1), of n] assms(2,3) by auto

text \<open>Two kinds of handler: one reads its payload, one skips it.\<close>

lemma reading_handler:
  assumes "\<And>b st. h b st = do { (v, b) \<leftarrow> speex_bits_unpack_unsigned b n; Some (0, b, f v st) }"
  shows "consumes h n f"
  unfolding consumes_def
proof (intro allI impI)
  fix b st payload rest
  assume "reader_wf b" "remaining b = payload @ rest" "length payload = n"
  then obtain b' where "speex_bits_unpack_unsigned b n = Some (bits_val payload, b')" "reader_wf b'" "remaining b' = rest"
    using unpack_takes_payload by blast
  then show "\<exists>b'. h b st = Some (0, b', f (bits_val payload) st) \<and> reader_wf b' \<and> remaining b' = rest" by (auto simp: assms)
qed

lemma skipping_handler:
  assumes "\<And>b st. h b st = Some (0, speex_bits_advance b n, st)"
  shows "consumes h n (\<lambda>v st. st)"
  unfolding consumes_def using advance_takes assms by blast

lemma consumes_standard:
  "consumes (speex_std_mode_request_handler ctl) 4 (\<lambda>v. ctl SPEEX_SET_MODE (unat v))"
  "consumes (speex_std_low_mode_request_handler ctl) 4 (\<lambda>v. ctl SPEEX_SET_LOW_MODE (unat v))"
  "consumes (speex_std_high_mode_request_handler ctl) 4 (\<lambda>v. ctl SPEEX_SET_HIGH_MODE (unat v))"
  "consumes (speex_std_vbr_quality_request_handler ctl) 4 (\<lambda>v. ctl SPEEX_SET_VBR_QUALITY (unat v))"
  "consumes (speex_std_vbr_request_handler ctl) 1 (\<lambda>v. ctl SPEEX_SET_VBR (unat v))"
  "consumes (speex_std_enh_request_handler ctl) 1 (\<lambda>v. ctl SPEEX_SET_ENH (unat v))"
  "consumes (speex_std_char_handler putc) 8 (\<lambda>v. putc (ucast v))"
  by (rule reading_handler,
      simp only: speex_std_mode_request_handler_def speex_std_low_mode_request_handler_def speex_std_high_mode_request_handler_def
        speex_std_vbr_quality_request_handler_def speex_std_vbr_request_handler_def speex_std_enh_request_handler_def
        speex_std_char_handler_def)+

text \<open>The dispatcher reads the number and leaves the payload to the handler.\<close>

lemma inband_dispatch:
  assumes b: "reader_wf b" "remaining b = msb_bits 4 ix @ payload @ rest" and ix: "unat ix < 16" "length list = 16"
    and h: "case list ! unat ix of Some h \<Rightarrow> consumes h n f | None \<Rightarrow> skip_width (unat ix) = n \<and> f = (\<lambda>v st. st)"
    and n: "length payload = n"
  shows "\<exists>b'. speex_inband_handler list b st = Some (0, b', f (bits_val payload) st) \<and> reader_wf b' \<and> remaining b' = rest"
proof -
  obtain b1 where b1: "speex_bits_unpack_unsigned b 4 = Some (ix, b1)" "reader_wf b1" "remaining b1 = payload @ rest"
    using unpack_field [OF b] take_bit_small [of ix 4] ix(1) by auto
  show ?thesis
  proof (cases "list ! unat ix")
    case None
    then show ?thesis
      using b1 advance_takes [OF b1(2,3) n] h ix by (simp add: speex_inband_handler_def mem_simps)
  next
    case (Some g)
    then show ?thesis
      using b1 consumesD [OF _ b1(2,3) n, of g f st] h ix by (simp add: speex_inband_handler_def mem_simps)
  qed
qed

subsection \<open>Properties\<close>

text \<open>
  The handlers of the library for the requests of the library, and what each does to the state. \<open>enc\<close> and \<open>dec\<close>
  are the control functions of the encoder and the decoder that the requests are for.
\<close>

definition standard_handler :: "'d ctl \<Rightarrow> 'd ctl \<Rightarrow> (u8 \<Rightarrow> 'd \<Rightarrow> 'd) \<Rightarrow> nat \<Rightarrow> 'd handler option" where
  "standard_handler enc dec putc ix =
     (if ix = 0 then Some (speex_std_enh_request_handler dec)
      else if ix = 2 then Some (speex_std_mode_request_handler enc)
      else if ix = 3 then Some (speex_std_low_mode_request_handler enc)
      else if ix = 4 then Some (speex_std_high_mode_request_handler enc)
      else if ix = 5 then Some (speex_std_vbr_quality_request_handler enc)
      else if ix = 8 then Some (speex_std_char_handler putc) else None)"

definition request_effect :: "'d ctl \<Rightarrow> 'd ctl \<Rightarrow> (u8 \<Rightarrow> 'd \<Rightarrow> 'd) \<Rightarrow> nat \<Rightarrow> u32 \<Rightarrow> 'd \<Rightarrow> 'd" where
  "request_effect enc dec putc ix =
     (if ix = 0 then (\<lambda>v. dec SPEEX_SET_ENH (unat v)) else if ix = 2 then (\<lambda>v. enc SPEEX_SET_MODE (unat v))
      else if ix = 3 then (\<lambda>v. enc SPEEX_SET_LOW_MODE (unat v)) else if ix = 4 then (\<lambda>v. enc SPEEX_SET_HIGH_MODE (unat v))
      else if ix = 5 then (\<lambda>v. enc SPEEX_SET_VBR_QUALITY (unat v)) else if ix = 8 then (\<lambda>v. putc (ucast v))
      else (\<lambda>v st. st))"

lemma standard_handler_consumes:
  "standard_handler enc dec putc ix = Some h \<Longrightarrow> consumes h (skip_width ix) (request_effect enc dec putc ix)"
  using consumes_standard by (auto simp: standard_handler_def skip_width_def request_effect_def split: if_splits)


text \<open>A packet that asks for mode 5.\<close>

definition mode_request :: speex_bits where
  "mode_request = \<lparr>chars = [0x25], nbBits = 8, charPtr = 0, bitPtr = 0, owner = True, overflow = False, buf_size = 1\<rparr>"

definition mode_value :: "nat ctl" where
  "mode_value request v st = v"


text \<open>
  The handler for the request to switch variable bit rate reads one bit of the four the request takes when it is
  skipped: the decoder goes on three bits too early.
\<close>

theorem vbr_request_leaves_three_bits:
  assumes "reader_wf b" and "remaining b = msb_bits 4 7 @ payload @ rest" and "length payload = 4"
    and "length skipping = 16" and "skipping ! 7 = None"
    and "length handling = 16" and "handling ! 7 = Some (speex_std_vbr_request_handler ctl)"
  shows "\<exists>b1 b2 st'. speex_inband_handler skipping b st = Some (0, b1, st) \<and> remaining b1 = rest \<and>
    speex_inband_handler handling b st = Some (0, b2, st') \<and> remaining b2 = drop 1 payload @ rest"
proof -
  have "remaining b = msb_bits 4 7 @ take 1 payload @ drop 1 payload @ rest" "length (take 1 payload) = 1" using assms(2,3) by simp_all
  then show ?thesis
    using inband_dispatch [OF assms(1,2) _ assms(4) _ assms(3), of "\<lambda>v st. st" st]
      inband_dispatch [OF assms(1) _ _ assms(6), of 7 "take 1 payload" "drop 1 payload @ rest" 1] assms(5,7) consumes_standard(5) [of ctl]
    by (simp add: skip_width_def) blast
qed

text \<open>A packet with a request for variable bit rate and eight bits more.\<close>

definition vbr_request :: speex_bits where
  "vbr_request = \<lparr>chars = [0x78, 0xA5], nbBits = 16, charPtr = 0, bitPtr = 0, owner = True, overflow = False, buf_size = 2\<rparr>"

theorem vbr_request_leaves_three_bits_witness:
  "\<exists>b1 b2 st'. speex_inband_handler (replicate 16 None) vbr_request (0 :: nat) = Some (0, b1, 0) \<and> remaining b1 = byte_bits 0xA5 \<and>
     speex_inband_handler ((replicate 16 None)[7 := Some (speex_std_vbr_request_handler mode_value)]) vbr_request 0 = Some (0, b2, st') \<and>
     remaining b2 = [False, False, False] @ byte_bits 0xA5"
proof -
  have "reader_wf vbr_request" "remaining vbr_request = msb_bits 4 7 @ [True, False, False, False] @ byte_bits 0xA5" by code_simp+
  then show ?thesis
    using vbr_request_leaves_three_bits [of vbr_request "[True, False, False, False]" "byte_bits 0xA5" "replicate 16 None"
        "(replicate 16 None)[7 := Some (speex_std_vbr_request_handler mode_value)]" mode_value 0] by simp
qed

end
