(* ===== verification/Speex_Header.thy ===== *)
theory Speex_Header
  imports Prelude
begin

text \<open>
  The header packet of a Speex stream (\<open>speex_header.c\<close>). A header travels as the image of its struct:
  two character arrays and thirteen 32 bit integers, least significant byte first on the targets, where
  \<open>le_int\<close> is the identity. \<open>None\<close> is an access outside the packet, \<open>Some None\<close> the null pointer.
\<close>

subsection \<open>The struct and its image\<close>

record speex_header =
  speex_string :: "u8 list"
  speex_version :: "u8 list"
  speex_version_id :: int
  header_size :: int
  rate :: int
  mode :: int
  mode_bitstream_version :: int
  nb_channels :: int
  bitrate :: int
  frame_size :: int
  vbr :: int
  frames_per_packet :: int
  extra_headers :: int
  reserved1 :: int
  reserved2 :: int

definition SPEEX_HEADER_STRING_LENGTH :: nat where "SPEEX_HEADER_STRING_LENGTH = 8"
definition SPEEX_HEADER_VERSION_LENGTH :: nat where "SPEEX_HEADER_VERSION_LENGTH = 20"
definition SPEEX_NB_MODES :: int where "SPEEX_NB_MODES = 3"

text \<open>\<open>sizeof(SpeexHeader)\<close>\<close>

definition sizeof_header :: nat where "sizeof_header = 80"

definition int_bytes :: "int \<Rightarrow> u8 list" where
  "int_bytes i = map (\<lambda>k. word_of_int (asr i (8 * k))) [0..<4]"

definition bytes_int :: "u8 list \<Rightarrow> int" where
  "bytes_int bs = i32 (foldr (\<lambda>b acc. uint b + 256 * acc) bs 0)"

definition header_ints :: "speex_header \<Rightarrow> int list" where
  "header_ints h =
     [speex_version_id h, header_size h, rate h, mode h, mode_bitstream_version h, nb_channels h, bitrate h,
      frame_size h, vbr h, frames_per_packet h, extra_headers h, reserved1 h, reserved2 h]"

definition header_image :: "speex_header \<Rightarrow> u8 list" where
  "header_image h = speex_string h @ speex_version h @ concat (map int_bytes (header_ints h))"

definition image_int :: "u8 list \<Rightarrow> nat \<Rightarrow> int" where
  "image_int bs k = bytes_int (take 4 (drop (28 + 4 * k) bs))"

definition image_header :: "u8 list \<Rightarrow> speex_header" where
  "image_header bs =
     \<lparr>speex_string = take 8 bs, speex_version = take 20 (drop 8 bs), speex_version_id = image_int bs 0,
      header_size = image_int bs 1, rate = image_int bs 2, mode = image_int bs 3, mode_bitstream_version = image_int bs 4,
      nb_channels = image_int bs 5, bitrate = image_int bs 6, frame_size = image_int bs 7, vbr = image_int bs 8,
      frames_per_packet = image_int bs 9, extra_headers = image_int bs 10, reserved1 = image_int bs 11, reserved2 = image_int bs 12\<rparr>"

subsection \<open>The operations\<close>

definition le_int :: "int \<Rightarrow> int" where
  "le_int i = i"

definition endian_switch :: "speex_header \<Rightarrow> speex_header" where
  "endian_switch h =
     h\<lparr>speex_version_id := le_int (speex_version_id h), header_size := le_int (header_size h), rate := le_int (rate h),
       mode := le_int (mode h), mode_bitstream_version := le_int (mode_bitstream_version h),
       nb_channels := le_int (nb_channels h), bitrate := le_int (bitrate h), frame_size := le_int (frame_size h),
       vbr := le_int (vbr h), frames_per_packet := le_int (frames_per_packet h), extra_headers := le_int (extra_headers h)\<rparr>"

definition chars_of :: "string \<Rightarrow> u8 list" where
  "chars_of s = map (\<lambda>c. word_of_nat (of_char c)) s"

definition speex_magic :: "u8 list" where
  "speex_magic = chars_of ''Speex   ''"

definition SPEEX_VERSION :: "u8 list" where
  "SPEEX_VERSION = chars_of ''speex-1.2beta3''"

text \<open>Of the mode the header takes its identifier, the version of its bit stream and its frame size.\<close>

record mode_info =
  modeID :: int
  bitstream_version :: int
  mode_frame_size :: int

definition speex_init_header :: "int \<Rightarrow> int \<Rightarrow> mode_info \<Rightarrow> speex_header" where
  "speex_init_header rt channels m =
     (let i = min (SPEEX_HEADER_VERSION_LENGTH - 1) (length SPEEX_VERSION)
      in \<lparr>speex_string = speex_magic,
          speex_version = take i SPEEX_VERSION @ replicate (SPEEX_HEADER_VERSION_LENGTH - i) 0,
          speex_version_id = 1, header_size = int sizeof_header, rate = rt, mode = modeID m,
          mode_bitstream_version = bitstream_version m, nb_channels = channels, bitrate = -1,
          frame_size = mode_frame_size m, vbr = 0, frames_per_packet = 0, extra_headers = 0, reserved1 = 0, reserved2 = 0\<rparr>)"

definition speex_header_to_packet :: "speex_header \<Rightarrow> u8 list \<times> int" where
  "speex_header_to_packet header = (header_image (endian_switch header), int sizeof_header)"

text \<open>The first characters are compared one by one, up to the first that differs.\<close>

fun same_chars :: "u8 list \<Rightarrow> nat \<Rightarrow> u8 list \<Rightarrow> bool option" where
  "same_chars packet i [] = Some True"
| "same_chars packet i (h # hs) =
     do { c \<leftarrow> mem_get packet i; if c \<noteq> h then Some False else same_chars packet (i + 1) hs }"

definition clamp_channels :: "speex_header \<Rightarrow> speex_header" where
  "clamp_channels h =
     (let h = (if nb_channels h > 2 then h\<lparr>nb_channels := 2\<rparr> else h)
      in if nb_channels h < 1 then h\<lparr>nb_channels := 1\<rparr> else h)"

definition speex_packet_to_header :: "u8 list \<Rightarrow> int \<Rightarrow> speex_header option option" where
  "speex_packet_to_header packet n =
     do { same \<leftarrow> same_chars packet 0 speex_magic;
          if \<not> same then Some None
          else if n < int sizeof_header then Some None
          else do { bs \<leftarrow> mem_read packet 0 sizeof_header;
                    let h = endian_switch (image_header bs);
                    if mode h \<ge> SPEEX_NB_MODES \<or> mode h < 0 then Some None
                    else Some (Some (clamp_channels h)) } }"

subsection \<open>The image determines the header\<close>

definition header_wf :: "speex_header \<Rightarrow> bool" where
  "header_wf h \<longleftrightarrow> length (speex_string h) = 8 \<and> length (speex_version h) = 20 \<and> list_all is_i32 (header_ints h)"

lemma length_int_bytes [simp]: "length (int_bytes i) = 4"
  by (simp add: int_bytes_def)

lemma endian_switch_id [simp]: "endian_switch h = h"
  by (simp add: endian_switch_def le_int_def)

lemma byte_of_int: "uint (word_of_int x :: u8) = x mod 256"
  by (simp add: uint_word_of_int)

lemma split_int32: "x mod 256 + 256 * (x div 256 mod 256 + 256 * (x div 65536 mod 256 + 256 * (x div 16777216 mod 256))) = x mod 4294967296"
  for x :: int
proof -
  have "x mod (256 * 256) = 256 * (x div 256 mod 256) + x mod 256" by (rule zmod_zmult2_eq) simp
  moreover have "x mod (65536 * 256) = 65536 * (x div 65536 mod 256) + x mod 65536" by (rule zmod_zmult2_eq) simp
  moreover have "x mod (16777216 * 256) = 16777216 * (x div 16777216 mod 256) + x mod 16777216" by (rule zmod_zmult2_eq) simp
  ultimately show ?thesis by simp
qed

lemma bytes_int_int_bytes: "is_i32 i \<Longrightarrow> bytes_int (int_bytes i) = i"
proof -
  assume i: "is_i32 i"
  have four: "[0..<4] = [0, 1, 2, 3 :: nat]" by code_simp
  have "int_bytes i = [word_of_int i, word_of_int (i div 256), word_of_int (i div 65536), word_of_int (i div 16777216)]"
    unfolding int_bytes_def four by (simp add: asr_def)
  then have "bytes_int (int_bytes i) = i32 (i mod 4294967296)"
    unfolding split_int32 [symmetric] by (simp only: bytes_int_def byte_of_int foldr.simps comp_apply id_apply mult_zero_right add_0_right)
  also have "\<dots> = i32 i" by (rule i32_cong) simp
  finally show ?thesis using i by simp
qed

lemma image_int_nth:
  assumes "length xs = 28" and "k < length ys"
  shows "image_int (xs @ concat (map int_bytes ys)) k = bytes_int (int_bytes (ys ! k))"
proof -
  have "drop (4 * k) (concat (map int_bytes ys)) = concat (map int_bytes (drop k ys))" for ys k
  proof (induction ys arbitrary: k)
    case (Cons y ys)
    then show ?case by (cases k) simp_all
  qed simp
  moreover have "drop k ys = ys ! k # drop (Suc k) ys" using assms(2) by (simp add: Cons_nth_drop_Suc)
  ultimately show ?thesis using assms(1) by (simp add: image_int_def)
qed

lemma length_header_image: "header_wf h \<Longrightarrow> length (header_image h) = sizeof_header"
  by (simp add: header_wf_def header_image_def header_ints_def sizeof_header_def)

lemma image_header_header_image:
  assumes "header_wf h"
  shows "image_header (header_image h) = h"
proof -
  have "image_int (header_image h) k = header_ints h ! k" if "k < 13" for k
  proof -
    have "image_int (header_image h) k = bytes_int (int_bytes (header_ints h ! k))"
      using image_int_nth [of "speex_string h @ speex_version h" k "header_ints h"] assms that
      by (simp add: header_image_def header_wf_def header_ints_def)
    moreover have "is_i32 (header_ints h ! k)" using assms that by (auto simp: header_wf_def list_all_length header_ints_def)
    ultimately show ?thesis by (simp add: bytes_int_int_bytes)
  qed
  note ints = this [of 0] this [of 1] this [of 2] this [of 3] this [of 4] this [of 5] this [of 6] this [of 7]
    this [of 8] this [of 9] this [of 10] this [of 11] this [of 12]
  have "take 8 (header_image h) = speex_string h" "take 20 (drop 8 (header_image h)) = speex_version h"
    using assms by (simp_all add: header_image_def header_wf_def)
  then show ?thesis unfolding image_header_def using ints by (simp add: header_ints_def)
qed

lemma same_chars_total: "i + length hs \<le> length packet \<Longrightarrow> same_chars packet i hs = Some (take (length hs) (drop i packet) = hs)"
proof (induction hs arbitrary: i)
  case (Cons h hs)
  have "drop i packet = packet ! i # drop (i + 1) packet" using Cons.prems by (simp add: Cons_nth_drop_Suc)
  then show ?case using Cons.IH [of "i + 1"] Cons.prems by (auto simp: mem_simps)
qed simp

lemma same_chars_short: "j < length hs \<Longrightarrow> drop i packet = take j hs \<Longrightarrow> length packet = i + j \<Longrightarrow> same_chars packet i hs = None"
proof (induction hs arbitrary: i j)
  case (Cons h hs)
  show ?case
  proof (cases j)
    case 0
    then show ?thesis using Cons.prems by (simp add: mem_get_def)
  next
    case (Suc j')
    then have "i < length packet" using Cons.prems by simp
    then have "drop i packet = packet ! i # drop (i + 1) packet" by (simp add: Cons_nth_drop_Suc)
    then have "packet ! i = h" "drop (i + 1) packet = take j' hs" using Cons.prems(2) Suc by auto
    then show ?thesis using Cons.IH [of j' "i + 1"] Cons.prems Suc \<open>i < length packet\<close> by (simp add: mem_simps)
  qed
qed simp

lemma length_speex_magic [simp]: "length speex_magic = 8"
  by (simp add: speex_magic_def chars_of_def)

lemma packet_to_header_eq:
  assumes "sizeof_header \<le> length packet"
  shows "speex_packet_to_header packet n =
     Some (let h = image_header (take sizeof_header packet)
           in if take 8 packet = speex_magic \<and> int sizeof_header \<le> n \<and> 0 \<le> mode h \<and> mode h < SPEEX_NB_MODES
              then Some (clamp_channels h) else None)"
  using assms same_chars_total [of 0 speex_magic packet]
  by (auto simp: speex_packet_to_header_def mem_simps sizeof_header_def Let_def)

subsection \<open>Properties\<close>

text \<open>
  C35. A header that names one of the modes is read back from its packet as it was written, the number of
  channels brought to 1 or 2; in particular every header made by \<open>speex_init_header\<close> is.
\<close>

theorem speex_header_round_trip:
  assumes "header_wf h" and "speex_string h = speex_magic" and "0 \<le> mode h" and "mode h < SPEEX_NB_MODES"
    and "speex_header_to_packet h = (packet, n)"
  shows "speex_packet_to_header packet n = Some (Some (h\<lparr>nb_channels := max 1 (min 2 (nb_channels h))\<rparr>))"
proof -
  have p: "packet = header_image h" "n = int sizeof_header" using assms(5) by (simp_all add: speex_header_to_packet_def)
  have "take 8 packet = speex_magic" unfolding p header_image_def using assms(1,2) by (simp add: header_wf_def)
  moreover have "take sizeof_header packet = header_image h" unfolding p using length_header_image [OF assms(1)] by simp
  ultimately have "speex_packet_to_header packet n = Some (Some (clamp_channels h))"
    using packet_to_header_eq [of packet n] length_header_image [OF assms(1)] image_header_header_image [OF assms(1)] assms(3,4) p
    by (simp add: Let_def)
  then show ?thesis by (simp add: clamp_channels_def Let_def)
qed

lemma init_header_wf:
  assumes "is_i32 rt" and "is_i32 channels" and "is_i32 (modeID m)" and "is_i32 (bitstream_version m)" and "is_i32 (mode_frame_size m)"
  shows "header_wf (speex_init_header rt channels m)"
proof -
  have "length SPEEX_VERSION = 14" by (simp add: SPEEX_VERSION_def chars_of_def)
  then show ?thesis
    using assms by (simp add: header_wf_def speex_init_header_def header_ints_def SPEEX_HEADER_VERSION_LENGTH_def is_i32_def sizeof_header_def)
qed

theorem speex_header_round_trip_witness:
  "speex_packet_to_header (fst (speex_header_to_packet (speex_init_header 16000 5 \<lparr>modeID = 1, bitstream_version = 4, mode_frame_size = 320\<rparr>))) 80 =
     Some (Some ((speex_init_header 16000 5 \<lparr>modeID = 1, bitstream_version = 4, mode_frame_size = 320\<rparr>)\<lparr>nb_channels := 2\<rparr>))"
proof -
  let ?h = "speex_init_header 16000 5 \<lparr>modeID = 1, bitstream_version = 4, mode_frame_size = 320\<rparr>"
  have "header_wf ?h" by (rule init_header_wf) (simp_all add: is_i32_def)
  moreover have "speex_string ?h = speex_magic" "mode ?h = 1" "nb_channels ?h = 5" by (simp_all add: speex_init_header_def Let_def)
  moreover have "speex_header_to_packet ?h = (fst (speex_header_to_packet ?h), 80)" by (simp add: speex_header_to_packet_def sizeof_header_def)
  ultimately show ?thesis using speex_header_round_trip [of ?h "fst (speex_header_to_packet ?h)" 80] by (simp add: SPEEX_NB_MODES_def)
qed

text \<open>
  C36. Whatever a packet of at least 80 bytes holds, it is read inside its block, and a header that is accepted
  names an existing mode and one or two channels. But the first characters are compared before the
  size is looked at: of a shorter packet that begins like a header, bytes beyond its end are read.
\<close>

theorem speex_packet_to_header_checks:
  "(sizeof_header \<le> length packet \<longrightarrow>
      (\<exists>r. speex_packet_to_header packet n = Some r \<and>
           (case r of None \<Rightarrow> True
            | Some h \<Rightarrow> int sizeof_header \<le> n \<and> speex_string h = speex_magic \<and> mode h \<in> {0, 1, 2} \<and> nb_channels h \<in> {1, 2}))) \<and>
   (k < 8 \<longrightarrow> speex_packet_to_header (take k speex_magic) (int k) = None)"
proof (intro conjI impI)
  assume "sizeof_header \<le> length packet"
  note eq = packet_to_header_eq [OF this, of n]
  have "speex_string (image_header (take sizeof_header packet)) = take 8 packet" by (simp add: image_header_def sizeof_header_def)
  moreover have "nb_channels (clamp_channels h) \<in> {1, 2}" "speex_string (clamp_channels h) = speex_string h" "mode (clamp_channels h) = mode h" for h
    by (auto simp: clamp_channels_def Let_def)
  moreover have "0 \<le> m \<Longrightarrow> m < SPEEX_NB_MODES \<Longrightarrow> m \<in> {0, 1, 2}" for m by (auto simp: SPEEX_NB_MODES_def)
  ultimately show "\<exists>r. speex_packet_to_header packet n = Some r \<and>
           (case r of None \<Rightarrow> True
            | Some h \<Rightarrow> int sizeof_header \<le> n \<and> speex_string h = speex_magic \<and> mode h \<in> {0, 1, 2} \<and> nb_channels h \<in> {1, 2})"
    unfolding eq Let_def by (simp split: if_splits)
next
  assume "k < 8"
  then have "same_chars (take k speex_magic) 0 speex_magic = None" using same_chars_short [of k speex_magic 0 "take k speex_magic"] by simp
  then show "speex_packet_to_header (take k speex_magic) (int k) = None" by (simp add: speex_packet_to_header_def)
qed

theorem speex_packet_to_header_checks_witness:
  "(\<exists>r. speex_packet_to_header (replicate 80 0) 80 = Some r) \<and> speex_packet_to_header (take 3 speex_magic) 3 = None"
  using speex_packet_to_header_checks [of "replicate 80 0" 80 3] by (auto simp: sizeof_header_def)

end
