(* ===== verification/Speex_Stereo.thy ===== *)
theory Speex_Stereo
  imports Speex_Vq Speex_Inband
begin

text \<open>
  Intensity stereo (\<open>stereo.c\<close>, in fixed point): the encoder mixes the two channels into one and sends, in
  an in-band request, their balance and how coherent they are; the decoder spreads the decoded
  channel over two with gains it smooths. The variants on \<open>float\<close> samples are not modelled.

  A block of samples holds both channels interleaved. The accumulated energies are 32 bits wide.
\<close>

subsection \<open>State\<close>

record stereo_state =
  balance :: int
  e_ratio :: int
  smooth_left :: int
  smooth_right :: int
  state_reserved1 :: u32
  state_reserved2 :: int

definition e_ratio_quant :: "int list" where
  "e_ratio_quant = [8192, 10332, 13009, 16384]"

definition e_ratio_quant_bounds :: "int list" where
  "e_ratio_quant_bounds = [9257, 11665, 14696]"

definition balance_bounds :: "int list" where
  "balance_bounds =
     [18, 23, 30, 38, 49, 63, 81, 104, 134, 172, 221, 284, 364, 468, 600, 771,
      990, 1271, 1632, 2096, 2691, 3455, 4436, 5696, 7314, 9392, 12059, 15484, 19882, 25529, 32766]"

definition SPEEX_INBAND_STEREO :: nat where "SPEEX_INBAND_STEREO = 9"

definition speex_stereo_state_reset :: "stereo_state \<Rightarrow> stereo_state" where
  "speex_stereo_state_reset st =
     st\<lparr>balance := 65536, e_ratio := 16384, smooth_left := 16384, smooth_right := 16384,
        state_reserved1 := 0xdeadbeef, state_reserved2 := 0\<rparr>"

text \<open>The block is allocated cleared.\<close>

definition speex_stereo_state_init :: stereo_state where
  "speex_stereo_state_init =
     speex_stereo_state_reset \<lparr>balance = 0, e_ratio = 0, smooth_left = 0, smooth_right = 0, state_reserved1 = 0, state_reserved2 = 0\<rparr>"

definition COMPATIBILITY_HACK :: "stereo_state \<Rightarrow> stereo_state" where
  "COMPATIBILITY_HACK st = (if state_reserved1 st \<noteq> 0xdeadbeef then speex_stereo_state_reset st else st)"

subsection \<open>The encoder\<close>

text \<open>One sample of the mixing loop: the samples and the energies of the two channels and of the mix.\<close>

definition mix_sample :: "nat \<Rightarrow> int list \<times> int \<times> int \<times> int \<Rightarrow> (int list \<times> int \<times> int \<times> int) option" where
  "mix_sample i = (\<lambda>(data, e_left, e_right, e_tot).
     do { l \<leftarrow> mem_get data (2 * i); r \<leftarrow> mem_get data (2 * i + 1);
          let e_left = i32 (e_left + SHR32 (MULT16_16 l l) 8);
          let e_right = i32 (e_right + SHR32 (MULT16_16 r r) 8);
          let m = i16 (SHR16 l 1 + PSHR16 r 1);
          data \<leftarrow> mem_put data i m;
          Some (data, e_left, e_right, i32 (e_tot + SHR32 (MULT16_16 m m) 8)) })"

fun mix_loop :: "nat list \<Rightarrow> int list \<times> int \<times> int \<times> int \<Rightarrow> (int list \<times> int \<times> int \<times> int) option" where
  "mix_loop [] st = Some st"
| "mix_loop (i # is') st = do { st \<leftarrow> mix_sample i st; mix_loop is' st }"

definition balance_index :: "int \<Rightarrow> int \<Rightarrow> nat option" where
  "balance_index largest smallest =
     (let shift = spx_ilog2 (word_of_int largest) - 15;
          largest = VSHR32 largest (shift - 4);
          smallest = VSHR32 smallest shift
      in do { bal \<leftarrow> DIV32 largest (ADD32 smallest 1);
              let bal = (if bal > 32767 then 32767 else bal);
              scal_quant (EXTRACT16 bal) balance_bounds 32 })"

definition ratio_index :: "int \<Rightarrow> int \<Rightarrow> int \<Rightarrow> nat option" where
  "ratio_index e_tot e_left e_right =
     (let shift = spx_ilog2 (word_of_int e_tot);
          e_tot = VSHR32 e_tot (shift - 25);
          e_left = VSHR32 e_left (shift - 10);
          e_right = VSHR32 e_right (shift - 10)
      in do { ratio \<leftarrow> DIV32 e_tot (i32 (e_left + e_right + 1));
              scal_quant (EXTRACT16 ratio) e_ratio_quant_bounds 4 })"

definition speex_encode_stereo_int ::
    "reallocator \<Rightarrow> int list \<Rightarrow> nat \<Rightarrow> speex_bits \<Rightarrow> (int list \<times> speex_bits) option" where
  "speex_encode_stereo_int ra data frame_size bits =
     do { bits \<leftarrow> speex_bits_pack ra bits 14 5;
          bits \<leftarrow> speex_bits_pack ra bits (of_nat SPEEX_INBAND_STEREO) 4;
          (data, e_left, e_right, e_tot) \<leftarrow> mix_loop [0..<frame_size] (data, 0, 0, 0);
          (bits, largest, smallest) \<leftarrow>
            (if e_left > e_right then do { bits \<leftarrow> speex_bits_pack ra bits 0 1; Some (bits, e_left, e_right) }
             else do { bits \<leftarrow> speex_bits_pack ra bits 1 1; Some (bits, e_right, e_left) });
          balance_id \<leftarrow> balance_index largest smallest;
          bits \<leftarrow> speex_bits_pack ra bits (of_nat balance_id) 5;
          tmp \<leftarrow> ratio_index e_tot e_left e_right;
          bits \<leftarrow> speex_bits_pack ra bits (of_nat tmp) 2;
          Some (data, bits) }"

subsection \<open>The decoder\<close>

definition speex_std_stereo_request_handler :: "stereo_state handler" where
  "speex_std_stereo_request_handler bits stereo =
     (let stereo = COMPATIBILITY_HACK stereo in
      do { (s, bits) \<leftarrow> speex_bits_unpack_unsigned bits 1;
           let sign = (if s \<noteq> 0 then -1 else 1 :: int);
           (dexp, bits) \<leftarrow> speex_bits_unpack_unsigned bits 5;
           let stereo = stereo\<lparr>balance := spx_exp (i16 (MULT16_16 sign (SHL16 (uint dexp) 9)))\<rparr>;
           (tmp, bits) \<leftarrow> speex_bits_unpack_unsigned bits 2;
           ratio \<leftarrow> mem_get e_ratio_quant (unat tmp);
           Some (0, bits, stereo\<lparr>e_ratio := ratio\<rparr>) })"

text \<open>The gains of the two channels, 14 bits after the point.\<close>

definition stereo_gains :: "int \<Rightarrow> int \<Rightarrow> (int \<times> int) option" where
  "stereo_gains bal ratio =
     do { e \<leftarrow> DIV32 4194304 (spx_sqrt (MULT16_32_Q15 ratio (ADD32 65536 bal)));
          let e_right = i16 e;
          Some (i16 (SHR32 (MULT16_16 (spx_sqrt bal) e_right) 8), e_right) }"

definition smooth_gain :: "int \<Rightarrow> int \<Rightarrow> int" where
  "smooth_gain g e = EXTRACT16 (PSHR32 (MAC16_16 (MULT16_16 g 32113) e 655) 15)"

definition spread_sample :: "int \<Rightarrow> int \<Rightarrow> nat \<Rightarrow> int list \<times> stereo_state \<Rightarrow> (int list \<times> stereo_state) option" where
  "spread_sample e_left e_right i = (\<lambda>(data, stereo).
     do { tmp \<leftarrow> mem_get data i;
          let stereo = stereo\<lparr>smooth_left := smooth_gain (smooth_left stereo) e_left\<rparr>;
          let stereo = stereo\<lparr>smooth_right := smooth_gain (smooth_right stereo) e_right\<rparr>;
          data \<leftarrow> mem_put data (2 * i) (i16 (MULT16_16_P14 (smooth_left stereo) tmp));
          data \<leftarrow> mem_put data (2 * i + 1) (i16 (MULT16_16_P14 (smooth_right stereo) tmp));
          Some (data, stereo) })"

fun spread_loop :: "int \<Rightarrow> int \<Rightarrow> nat list \<Rightarrow> int list \<times> stereo_state \<Rightarrow> (int list \<times> stereo_state) option" where
  "spread_loop e_left e_right [] st = Some st"
| "spread_loop e_left e_right (i # is') st = do { st \<leftarrow> spread_sample e_left e_right i st; spread_loop e_left e_right is' st }"

definition speex_decode_stereo_int :: "int list \<Rightarrow> nat \<Rightarrow> stereo_state \<Rightarrow> (int list \<times> stereo_state) option" where
  "speex_decode_stereo_int data frame_size stereo =
     (let stereo = COMPATIBILITY_HACK stereo in
      do { (e_left, e_right) \<leftarrow> stereo_gains (balance stereo) (e_ratio stereo);
           spread_loop e_left e_right (rev [0..<frame_size]) (data, stereo) })"

subsection \<open>The mix\<close>

definition mixed :: "int list \<Rightarrow> nat \<Rightarrow> int" where
  "mixed data i = asr (data ! (2 * i)) 1 + asr (data ! (2 * i + 1) + 1) 1"

definition energy :: "(nat \<Rightarrow> int) \<Rightarrow> nat \<Rightarrow> int" where
  "energy f n = (\<Sum>i < n. asr (f i * f i) 8)"

lemma energy_Suc: "energy f (Suc n) = energy f n + asr (f n * f n) 8"
  by (simp add: energy_def)

lemma square_part: "is_i16 x \<Longrightarrow> 0 \<le> asr (x * x) 8 \<and> asr (x * x) 8 \<le> 4194304"
proof -
  assume "is_i16 x"
  then have "\<bar>x * x\<bar> \<le> 32768 * 32768" by (intro abs_mult_le) (simp_all add: is_i16_def abs_le_iff)
  then show ?thesis by (intro asr_bounds) (simp_all add: abs_le_iff)
qed

lemma energy_bounds: "(\<And>i. i < n \<Longrightarrow> is_i16 (f i)) \<Longrightarrow> 0 \<le> energy f n \<and> energy f n \<le> 4194304 * int n"
proof (induction n)
  case (Suc n)
  then show ?case using square_part [of "f n"] by (simp add: energy_Suc algebra_simps)
qed (simp add: energy_def)

lemma asr1: "asr x 1 = x div 2"
  by (simp add: asr_def)

lemma mixed_i16: "is_i16 (data ! (2 * i)) \<Longrightarrow> is_i16 (data ! (2 * i + 1)) \<Longrightarrow> is_i16 (mixed data i)"
  unfolding mixed_def is_i16_def asr1 by presburger

lemma mix_loop_append: "mix_loop (xs @ ys) st = Option.bind (mix_loop xs st) (mix_loop ys)"
proof (induction xs arbitrary: st)
  case (Cons x xs)
  then show ?case by (cases "mix_sample x st") auto
qed simp

lemma mix_sample_value:
  assumes l: "is_i16 l" and r: "is_i16 r"
  shows "i16 (SHR16 l 1 + PSHR16 r 1) = asr l 1 + asr (r + 1) 1"
proof -
  have "PSHR16 r 1 = asr (r + 1) 1" using r by (simp add: PSHR16_def SHR16_def shl_def asr_def is_i16_def is_i32_def)
  moreover have "is_i16 (asr l 1 + asr (r + 1) 1)" using l r unfolding is_i16_def asr1 by presburger
  ultimately show ?thesis by (simp add: SHR16_def)
qed

text \<open>
  After \<open>k\<close> samples the first \<open>k\<close> places hold the mix and the rest is as it was; 511 samples at full scale do
  not overflow the energies.
\<close>

lemma mix_loop_spec:
  assumes data: "2 * n \<le> length data" "\<forall>x \<in> set data. is_i16 x" and n: "n \<le> 511"
  shows "k \<le> n \<Longrightarrow> mix_loop [0..<k] (data, 0, 0, 0) =
    Some (map (mixed data) [0..<k] @ drop k data, energy (\<lambda>i. data ! (2 * i)) k, energy (\<lambda>i. data ! (2 * i + 1)) k,
          energy (mixed data) k)"
proof (induction k)
  case 0
  then show ?case by (simp add: energy_def)
next
  case (Suc k)
  let ?m = "map (mixed data) [0..<k] @ drop k data"
  let ?l = "data ! (2 * k)" and ?r = "data ! (2 * k + 1)"
  have len: "length ?m = length data" using Suc.prems data(1) by simp
  have at: "?m ! (2 * k) = ?l" "?m ! (2 * k + 1) = ?r" using Suc.prems data(1) by (simp_all add: nth_append mult_2)
  have i16: "i < n \<Longrightarrow> is_i16 (data ! (2 * i))" "i < n \<Longrightarrow> is_i16 (data ! (2 * i + 1))" for i using data by simp_all
  have k: "k < n" "Suc k \<le> n" using Suc.prems by simp_all
  have lr: "is_i16 ?l" "is_i16 ?r" using i16 k by blast+
  have b: "is_i32 (energy f (Suc k))" if "\<And>i. i < n \<Longrightarrow> is_i16 (f i)" for f
    using energy_bounds [of "Suc k" f] that k n unfolding is_i32_def by force
  have e: "i32 (energy f k + SHR32 (MULT16_16 (f k) (f k)) 8) = energy f (Suc k)" if "\<And>i. i < n \<Longrightarrow> is_i16 (f i)" for f
    using b [of f] that [of k] that k(1) by (simp add: SHR32_def MULT16_16_exact energy_Suc)
  have mix: "i16 (SHR16 ?l 1 + PSHR16 ?r 1) = mixed data k" using mix_sample_value [OF lr] by (simp add: mixed_def)
  have put: "?m[k := mixed data k] = map (mixed data) [0..<Suc k] @ drop (Suc k) data"
    using k(1) data(1) by (simp add: list_update_append Cons_nth_drop_Suc [symmetric])
  have "mix_loop [0..<Suc k] (data, 0, 0, 0) = mix_sample k (?m, energy (\<lambda>i. data ! (2 * i)) k, energy (\<lambda>i. data ! (2 * i + 1)) k, energy (mixed data) k)"
    using Suc.IH k by (simp add: mix_loop_append split: Option.bind_split)
  also have "\<dots> = Some (?m[k := mixed data k], energy (\<lambda>i. data ! (2 * i)) (Suc k), energy (\<lambda>i. data ! (2 * i + 1)) (Suc k), energy (mixed data) (Suc k))"
    using e [of "\<lambda>i. data ! (2 * i)"] e [of "\<lambda>i. data ! (2 * i + 1)"] e [of "mixed data"] i16 mixed_i16 [of data] len at mix k data(1)
    by (simp add: mix_sample_def mem_simps Let_def)
  finally show ?case unfolding put .
qed

subsection \<open>The indices\<close>

lemma scal_quant_less:
  assumes "length boundary = n - 1" and "0 < n"
  shows "\<exists>k. scal_quant x boundary n = Some k \<and> k < n"
  using quant_loop_finds [of 0 "n - 1" boundary x] assms by (auto simp: scal_quant_def)

lemma VSHR32_small:
  assumes "0 \<le> x" and "x < 2 ^ Suc q" and "q < 31"
  shows "0 \<le> VSHR32 x (int q - 15)" and "VSHR32 x (int q - 15) < 65536"
proof -
  have "0 \<le> VSHR32 x (int q - 15) \<and> VSHR32 x (int q - 15) < 65536"
  proof (cases "q > 15")
    case True
    then have "Suc q = 16 + (q - 15)" by simp
    then have "(2::int) ^ Suc q = 2 ^ 16 * 2 ^ (q - 15)" by (metis power_add)
    then have "x < (65535 + 1) * 2 ^ (q - 15)" using assms(2) by simp
    then show ?thesis using True assms(1) asr_bounds [of 0 "q - 15" x 65535] by (simp add: VSHR32_def SHR32_def nat_diff_distrib)
  next
    case False
    let ?k = "15 - q"
    have "x * 2 ^ ?k < 2 ^ Suc q * 2 ^ ?k" using assms(2) by (intro mult_strict_right_mono) simp_all
    also have "(2::int) ^ Suc q * 2 ^ ?k = 2 ^ 16" using False by (simp add: power_add [symmetric] flip: power_Suc)
    finally have "x * 2 ^ ?k < 65536" by simp
    moreover have "0 \<le> x * 2 ^ ?k" using assms(1) by simp
    ultimately show ?thesis using False by (auto simp: VSHR32_def SHL32_def shl_def is_i32_def nat_diff_distrib')
  qed
  then show "0 \<le> VSHR32 x (int q - 15)" "VSHR32 x (int q - 15) < 65536" by simp_all
qed

lemma balance_index_total:
  assumes "0 \<le> smallest" and "smallest \<le> largest" and "is_i32 largest"
  shows "\<exists>k. balance_index largest smallest = Some k \<and> k < 32"
proof -
  have "\<exists>q < 31. spx_ilog2 (word_of_int largest) = int q \<and> smallest < 2 ^ Suc q"
  proof (cases "largest = 0")
    case True
    then show ?thesis using assms by (intro exI [of _ 0]) (simp add: spx_ilog2_0)
  next
    case False
    then show ?thesis using spx_ilog2_bounds [of largest] assms by fastforce
  qed
  then obtain q where q: "q < 31" "spx_ilog2 (word_of_int largest) = int q" "smallest < 2 ^ Suc q" by blast
  let ?d = "ADD32 (VSHR32 smallest (int q - 15)) 1"
  have "?d \<noteq> 0" "is_i32 ?d" using VSHR32_small [OF assms(1) q(3,1)] by (simp_all add: ADD32_i32 is_i32_def)
  then obtain b where b: "DIV32 (VSHR32 largest (int q - 15 - 4)) ?d = Some b" by (simp add: DIV32_def)
  then show ?thesis
    using q(2) scal_quant_less [of balance_bounds 32] by (simp add: balance_index_def Let_def balance_bounds_def)
qed

text \<open>The divisor of the ratio: a left shift leaves it odd, a right shift positive.\<close>

lemma ratio_divisor:
  assumes "0 \<le> a" and "a \<le> 2143289344" and "0 \<le> b" and "b \<le> 2143289344"
  shows "i32 (VSHR32 a m + VSHR32 b m + 1) \<noteq> 0"
proof (cases "m > 0")
  case True
  have "0 \<le> asr c (nat m) \<and> asr c (nat m) \<le> 1073741822" if "0 \<le> c" "c \<le> 2143289344" for c
  proof (rule asr_bounds)
    have "(2::int) ^ 1 \<le> 2 ^ nat m" using True by (intro power_increasing) simp_all
    then have "1073741823 * (2::int) \<le> 1073741823 * 2 ^ nat m" by simp
    then show "c < (1073741822 + 1) * 2 ^ nat m" using that by simp
  qed (use that in simp)
  then have "is_i32 (asr a (nat m) + asr b (nat m) + 1)" "asr a (nat m) + asr b (nat m) + 1 > 0"
    using assms unfolding is_i32_def by (smt (verit))+
  then show ?thesis using True by (simp add: VSHR32_def SHR32_def)
next
  case False
  show ?thesis
  proof (cases "m = 0")
    case True
    have "is_i32 a" "is_i32 b" using assms by (simp_all add: is_i32_def)
    then have v: "VSHR32 a m = a" "VSHR32 b m = b" using True by (simp_all add: VSHR32_def SHL32_def)
    show ?thesis
    proof
      assume "i32 (VSHR32 a m + VSHR32 b m + 1) = 0"
      then have "(a + b + 1) mod 4294967296 = 0" unfolding v by (metis i32_residue mod_0)
      moreover have "0 < a + b + 1" "a + b + 1 < 4294967296" using assms by linarith+
      ultimately show False by simp
    qed
  next
    case False
    then have n: "nat (- m) \<noteq> 0" using \<open>\<not> m > 0\<close> by simp
    have even: "even (SHL32 c (nat (- m)))" for c
    proof -
      have "even (c * 2 ^ nat (- m))" using n by simp
      then have "even (c * 2 ^ nat (- m) + 2147483648)" by simp
      then have "even ((c * 2 ^ nat (- m) + 2147483648) mod 4294967296)" by (simp add: dvd_mod_iff)
      then show ?thesis by (simp add: SHL32_def shl_def i32_def)
    qed
    have "odd (SHL32 a (nat (- m)) + SHL32 b (nat (- m)) + 1)" using even by simp
    then have "odd ((SHL32 a (nat (- m)) + SHL32 b (nat (- m)) + 1 + 2147483648) mod 4294967296)" by (simp add: dvd_mod_iff)
    then have "odd (i32 (SHL32 a (nat (- m)) + SHL32 b (nat (- m)) + 1))" by (simp add: i32_def)
    then have "i32 (SHL32 a (nat (- m)) + SHL32 b (nat (- m)) + 1) \<noteq> 0" by fastforce
    then show ?thesis using \<open>\<not> m > 0\<close> by (simp add: VSHR32_def)
  qed
qed

lemma ratio_index_total:
  assumes "0 \<le> a" and "a \<le> 2143289344" and "0 \<le> b" and "b \<le> 2143289344"
  shows "\<exists>k. ratio_index e a b = Some k \<and> k < 4"
proof -
  have "is_i32 (i32 x)" for x by simp
  then obtain v where "DIV32 (VSHR32 e (spx_ilog2 (word_of_int e) - 25))
      (i32 (VSHR32 a (spx_ilog2 (word_of_int e) - 10) + VSHR32 b (spx_ilog2 (word_of_int e) - 10) + 1)) = Some v"
    using ratio_divisor [OF assms, of "spx_ilog2 (word_of_int e) - 10"] by (simp add: DIV32_def)
  then show ?thesis
    using scal_quant_less [of e_ratio_quant_bounds 4] by (simp add: ratio_index_def Let_def e_ratio_quant_bounds_def)
qed

subsection \<open>The gains\<close>

definition stereo_balance :: "int \<Rightarrow> int \<Rightarrow> int" where
  "stereo_balance sg d = spx_exp (i16 (MULT16_16 sg (SHL16 d 9)))"

definition gains_ok :: "int \<Rightarrow> nat \<Rightarrow> nat \<Rightarrow> bool" where
  "gains_ok sg d q \<longleftrightarrow>
     (case stereo_gains (stereo_balance sg (int d)) (e_ratio_quant ! q) of
        None \<Rightarrow> False
      | Some (l, r) \<Rightarrow> is_i16 l \<and> is_i16 r \<and> (if sg = -1 \<and> 18 \<le> d \<and> q = 0 then l < 0 \<and> r = -32768 else 0 < l \<and> 0 < r))"

definition gains_row :: "int \<Rightarrow> nat \<Rightarrow> bool" where
  "gains_row sg d = list_all (gains_ok sg d) [0..<4]"

lemma gains_table: "list_all (gains_row 1) [0..<32]" "list_all (gains_row (-1)) [0..<32]"
  by code_simp+

lemma gains_value:
  assumes "sg \<in> {1, -1}" and "d < 32" and "q < 4"
  shows "\<exists>l r. stereo_gains (stereo_balance sg (int d)) (e_ratio_quant ! q) = Some (l, r) \<and> is_i16 l \<and> is_i16 r \<and>
     (if sg = -1 \<and> 18 \<le> d \<and> q = 0 then l < 0 \<and> r = -32768 else 0 < l \<and> 0 < r)"
proof -
  have "d \<in> set [0..<32]" "q \<in> set [0..<4]" using assms by auto
  then have "gains_ok sg d q" using gains_table assms(1) unfolding list_all_iff gains_row_def by blast
  then obtain p where p: "stereo_gains (stereo_balance sg (int d)) (e_ratio_quant ! q) = Some p"
    "case p of (l, r) \<Rightarrow> is_i16 l \<and> is_i16 r \<and> (if sg = -1 \<and> 18 \<le> d \<and> q = 0 then l < 0 \<and> r = -32768 else 0 < l \<and> 0 < r)"
    unfolding gains_ok_def by (cases "stereo_gains (stereo_balance sg (int d)) (e_ratio_quant ! q)") simp_all
  then show ?thesis by (cases p) blast
qed

text \<open>The two weights of the smoothing add up to one.\<close>

lemma smooth_gain_between:
  assumes "is_i16 g" and "is_i16 e"
  shows "min g e \<le> smooth_gain g e \<and> smooth_gain g e \<le> max g e"
proof -
  let ?lo = "min g e" and ?hi = "max g e"
  let ?v = "g * 32113 + e * 655"
  have m: "MULT16_16 g 32113 = g * 32113" "MULT16_16 e 655 = e * 655"
    using assms by (simp_all add: MULT16_16_exact is_i16_def)
  have b: "?lo * 32768 \<le> ?v" "?v \<le> ?hi * 32768" by linarith+
  have r: "-32768 \<le> ?lo" "?hi \<le> 32767" using assms by (simp_all add: is_i16_def)
  then have "is_i32 ?v" "is_i32 (?v + 16384)" using b unfolding is_i32_def by linarith+
  then have "PSHR32 (MAC16_16 (MULT16_16 g 32113) e 655) 15 = asr (?v + 16384) 15"
    by (simp add: PSHR32_def SHR32_def MAC16_16_def ADD32_i32 m shl_def asr_def)
  moreover have "?lo \<le> asr (?v + 16384) 15 \<and> asr (?v + 16384) 15 \<le> ?hi" using b by (intro asr_bounds) simp_all
  moreover from this r have "is_i16 (asr (?v + 16384) 15)" unfolding is_i16_def by linarith
  ultimately show ?thesis by (simp add: smooth_gain_def EXTRACT16_def)
qed

lemma smooth_gain_i16 [simp, int_ranges]: "is_i16 (smooth_gain g e)"
  by (simp add: smooth_gain_def)

subsection \<open>Spreading\<close>

definition between :: "int \<Rightarrow> int \<Rightarrow> int \<Rightarrow> bool" where
  "between a b x \<longleftrightarrow> is_i16 x \<and> min a b \<le> x \<and> x \<le> max a b"

lemma between_smooth: "between a e g \<Longrightarrow> is_i16 e \<Longrightarrow> between a e (smooth_gain g e)"
  using smooth_gain_between [of g e] by (auto simp: between_def)

lemma spread_loop_total:
  assumes "is_i16 e_left" and "is_i16 e_right"
  shows "\<forall>i \<in> set is'. 2 * i + 1 < length data \<Longrightarrow> between gl e_left (smooth_left st) \<Longrightarrow> between gr e_right (smooth_right st) \<Longrightarrow>
    \<exists>data' st'. spread_loop e_left e_right is' (data, st) = Some (data', st') \<and> length data' = length data \<and>
      between gl e_left (smooth_left st') \<and> between gr e_right (smooth_right st') \<and>
      st' = st\<lparr>smooth_left := smooth_left st', smooth_right := smooth_right st'\<rparr>"
proof (induction is' arbitrary: data st)
  case (Cons i is')
  let ?gl = "smooth_gain (smooth_left st) e_left" and ?gr = "smooth_gain (smooth_right st) e_right"
  let ?st = "st\<lparr>smooth_left := ?gl, smooth_right := ?gr\<rparr>"
  obtain data1 where 1: "spread_sample e_left e_right i (data, st) = Some (data1, ?st)" "length data1 = length data"
    using Cons.prems(1) by (fastforce simp: spread_sample_def mem_simps Let_def)
  show ?case
    using Cons.IH [of data1 ?st] Cons.prems 1 assms between_smooth by auto
qed simp

definition stereo_ok :: "stereo_state \<Rightarrow> bool" where
  "stereo_ok st \<longleftrightarrow> is_i16 (smooth_left st) \<and> is_i16 (smooth_right st) \<and>
     (\<exists>sg \<in> {1, -1}. \<exists>d < 32. \<exists>q < 4. balance st = stereo_balance sg (int d) \<and> e_ratio st = e_ratio_quant ! q)"

lemma stereo_ok_reset: "stereo_ok (speex_stereo_state_reset st)"
proof -
  have "stereo_balance 1 (int 0) = 65536" "e_ratio_quant ! 3 = 16384" by code_simp+
  then have "\<exists>sg \<in> {1, -1}. \<exists>d < 32. \<exists>q < 4. 65536 = stereo_balance sg (int d) \<and> 16384 = e_ratio_quant ! q"
    by (intro bexI [of _ 1] exI [of _ "0 :: nat"] conjI exI [of _ "3 :: nat"]) simp_all
  then show ?thesis by (simp add: stereo_ok_def speex_stereo_state_reset_def is_i16_def)
qed

subsection \<open>The request\<close>

definition stereo_payload :: "bool \<Rightarrow> nat \<Rightarrow> nat \<Rightarrow> bool list" where
  "stereo_payload s d q = msb_bits 1 (of_bool s) @ msb_bits 5 (of_nat d) @ msb_bits 2 (of_nat q)"

definition stereo_set :: "bool \<Rightarrow> nat \<Rightarrow> nat \<Rightarrow> stereo_state \<Rightarrow> stereo_state" where
  "stereo_set s d q st =
     (COMPATIBILITY_HACK st)\<lparr>balance := stereo_balance (if s then -1 else 1) (int d), e_ratio := e_ratio_quant ! q\<rparr>"

lemma stereo_handler_reads:
  assumes "reader_wf b" and "remaining b = stereo_payload s d q @ rest" and "d < 32" and "q < 4"
  shows "\<exists>b'. speex_std_stereo_request_handler b st = Some (0, b', stereo_set s d q st) \<and> reader_wf b' \<and> remaining b' = rest"
proof -
  obtain b1 where 1: "speex_bits_unpack_unsigned b 1 = Some (of_bool s, b1)" "reader_wf b1"
      "remaining b1 = msb_bits 5 (of_nat d) @ msb_bits 2 (of_nat q) @ rest"
    using unpack_field [OF assms(1), of 1 "of_bool s"] assms(2) by (cases s) (auto simp: stereo_payload_def)
  obtain b2 where 2: "speex_bits_unpack_unsigned b1 5 = Some (of_nat d, b2)" "reader_wf b2" "remaining b2 = msb_bits 2 (of_nat q) @ rest"
    using unpack_field [OF 1(2,3)] field_value [of d 5] assms(3) by auto
  obtain b3 where 3: "speex_bits_unpack_unsigned b2 2 = Some (of_nat q, b3)" "reader_wf b3" "remaining b3 = rest"
    using unpack_field [OF 2(2,3)] field_value [of q 2] assms(4) by auto
  have "uint (of_nat d :: u32) = int d" "unat (of_nat q :: u32) = q"
    using assms(3,4) by (simp_all add: unat_field uint_field)
  then show ?thesis
    using 1 2 3 assms(4) by (simp add: speex_std_stereo_request_handler_def stereo_set_def stereo_balance_def e_ratio_quant_def mem_simps Let_def)
qed

lemma stereo_inband_reads:
  assumes "reader_wf b" and "remaining b = msb_bits 4 9 @ stereo_payload s d q @ rest" and "d < 32" and "q < 4"
    and "length list = 16" and "list ! 9 = Some speex_std_stereo_request_handler"
  shows "\<exists>b'. speex_inband_handler list b st = Some (0, b', stereo_set s d q st) \<and> reader_wf b' \<and> remaining b' = rest"
proof -
  obtain b1 where 1: "speex_bits_unpack_unsigned b 4 = Some (9, b1)" "reader_wf b1" "remaining b1 = stereo_payload s d q @ rest"
    using unpack_field [OF assms(1,2)] by auto
  show ?thesis
    using stereo_handler_reads [OF 1(2,3) assms(3,4), of st] 1(1) assms(5,6) by (simp add: speex_inband_handler_def mem_simps)
qed

lemma stereo_set_ok: "stereo_ok (COMPATIBILITY_HACK st) \<Longrightarrow> d < 32 \<Longrightarrow> q < 4 \<Longrightarrow> stereo_ok (stereo_set s d q st)"
  unfolding stereo_ok_def stereo_set_def by (cases s) auto

text \<open>What the encoder sends.\<close>

lemma encode_stereo_sends:
  assumes "can_receive r b" and "pack_fits b (17 + 8)" and "2 * n \<le> length data" and "\<forall>x \<in> set data. is_i16 x" and "n \<le> 511"
  defines "el \<equiv> energy (\<lambda>i. data ! (2 * i)) n" and "er \<equiv> energy (\<lambda>i. data ! (2 * i + 1)) n"
  shows "\<exists>d q b'. speex_encode_stereo_int ra data n b = Some (map (mixed data) [0..<n] @ drop n data, b') \<and> can_receive r b' \<and>
     written b' = written b @ msb_bits 5 14 @ msb_bits 4 9 @ stereo_payload (el \<le> er) d q \<and> d < 32 \<and> q < 4 \<and>
     balance_index (max el er) (min el er) = Some d \<and> ratio_index (energy (mixed data) n) el er = Some q"
proof -
  have "0 \<le> el \<and> el \<le> 4194304 * int n" "0 \<le> er \<and> er \<le> 4194304 * int n"
    unfolding el_def er_def by (rule energy_bounds; use assms(3,4) in simp)+
  then have e: "0 \<le> el" "el \<le> 2143289344" "0 \<le> er" "er \<le> 2143289344" using assms(5) by simp_all
  obtain d where d: "balance_index (max el er) (min el er) = Some d" "d < 32"
  proof -
    have "is_i32 (max el er)" "0 \<le> min el er" "min el er \<le> max el er" using e by (auto simp: is_i32_def)
    then show ?thesis using balance_index_total [of "min el er" "max el er"] that by blast
  qed
  obtain q where q: "ratio_index (energy (mixed data) n) el er = Some q" "q < 4"
    using ratio_index_total [OF e] by blast
  obtain b1 where 1: "speex_bits_pack ra b 14 5 = Some b1" "can_receive r b1" "written b1 = written b @ msb_bits 5 14" "pack_fits b1 (12 + 8)"
    using pack_field [OF assms(1), of 5 12 ra 14] assms(2) by auto
  obtain b2 where 2: "speex_bits_pack ra b1 9 4 = Some b2" "can_receive r b2" "written b2 = written b1 @ msb_bits 4 9" "pack_fits b2 (8 + 8)"
    using pack_field [OF 1(2), of 4 8 ra 9] 1(4) by auto
  obtain b3 where 3: "speex_bits_pack ra b2 (of_bool (el \<le> er)) 1 = Some b3" "can_receive r b3"
      "written b3 = written b2 @ msb_bits 1 (of_bool (el \<le> er))" "pack_fits b3 (7 + 8)"
    using pack_field [OF 2(2), of 1 7 ra "of_bool (el \<le> er)"] 2(4) by auto
  obtain b4 where 4: "speex_bits_pack ra b3 (of_nat d) 5 = Some b4" "can_receive r b4" "written b4 = written b3 @ msb_bits 5 (of_nat d)" "pack_fits b4 (2 + 8)"
    using pack_field [OF 3(2), of 5 2 ra "of_nat d"] 3(4) by auto
  obtain b5 where 5: "speex_bits_pack ra b4 (of_nat q) 2 = Some b5" "can_receive r b5" "written b5 = written b4 @ msb_bits 2 (of_nat q)"
    using pack_field [OF 4(2), of 2 0 ra "of_nat q"] 4(4) by auto
  have mix: "mix_loop [0..<n] (data, 0, 0, 0) = Some (map (mixed data) [0..<n] @ drop n data, el, er, energy (mixed data) n)"
    using mix_loop_spec [OF assms(3-5), of n] by (simp add: el_def er_def)
  have "speex_encode_stereo_int ra data n b = Some (map (mixed data) [0..<n] @ drop n data, b5)"
  proof (cases "el > er")
    case True
    then show ?thesis using 1(1) 2(1) 3(1) 4(1) 5(1) mix d(1) q(1)
      by (simp add: speex_encode_stereo_int_def SPEEX_INBAND_STEREO_def max_def min_def)
  next
    case False
    then show ?thesis using 1(1) 2(1) 3(1) 4(1) 5(1) mix d(1) q(1)
      by (simp add: speex_encode_stereo_int_def SPEEX_INBAND_STEREO_def max_def min_def)
  qed
  then show ?thesis using 1(3) 2(3) 3(3) 4(3) 5(2,3) d q by (auto simp: stereo_payload_def)
qed

subsection \<open>Properties\<close>

text \<open>
  C39. The stereo encoder mixes up to 511 samples of any loudness and sends a request that the decoder's handler
  reads back: the balance and the coherence it stores are those of the indices the encoder computed from
  the energies of the two channels and the mix, and the handler takes nothing more from the packet.
\<close>

theorem stereo_request_round_trip:
  assumes "can_receive r b" and "pack_fits b (17 + 8)" and "2 * n \<le> length data" and "\<forall>x \<in> set data. is_i16 x" and "n \<le> 511"
    and "length list = 16" and "list ! 9 = Some speex_std_stereo_request_handler"
  shows "\<exists>d q b'. speex_encode_stereo_int ra data n b = Some (map (mixed data) [0..<n] @ drop n data, b') \<and>
    (let el = energy (\<lambda>i. data ! (2 * i)) n; er = energy (\<lambda>i. data ! (2 * i + 1)) n in
       balance_index (max el er) (min el er) = Some d \<and> ratio_index (energy (mixed data) n) el er = Some q \<and>
       (\<exists>payload. written b' = written b @ msb_bits 5 14 @ msb_bits 4 9 @ payload \<and> length payload = 8 \<and>
          (\<forall>rd rest st. reader_wf rd \<and> remaining rd = msb_bits 4 9 @ payload @ rest \<longrightarrow>
             (\<exists>rd'. speex_inband_handler list rd st = Some (0, rd', stereo_set (el \<le> er) d q st) \<and> reader_wf rd' \<and> remaining rd' = rest))))"
proof -
  let ?el = "energy (\<lambda>i. data ! (2 * i)) n" and ?er = "energy (\<lambda>i. data ! (2 * i + 1)) n"
  obtain d q b' where e: "speex_encode_stereo_int ra data n b = Some (map (mixed data) [0..<n] @ drop n data, b')"
      "written b' = written b @ msb_bits 5 14 @ msb_bits 4 9 @ stereo_payload (?el \<le> ?er) d q" "d < 32" "q < 4"
      "balance_index (max ?el ?er) (min ?el ?er) = Some d" "ratio_index (energy (mixed data) n) ?el ?er = Some q"
    using encode_stereo_sends [OF assms(1-5), of ra] by blast
  have "length (stereo_payload (?el \<le> ?er) d q) = 8" by (simp add: stereo_payload_def)
  then show ?thesis
    unfolding Let_def using e stereo_inband_reads [OF _ _ e(3,4) assms(6,7)] by blast
qed

text \<open>A signal on the right channel alone: index 31 to the right, least coherence.\<close>

theorem stereo_request_round_trip_witness:
  "\<exists>b' payload. speex_encode_stereo_int (\<lambda>_ _. None) [0, 10000] 1 (empty_bits 8) = Some ([5000, 10000], b') \<and>
    written b' = msb_bits 5 14 @ msb_bits 4 9 @ payload \<and>
    (\<forall>rd. reader_wf rd \<and> remaining rd = msb_bits 4 9 @ payload \<longrightarrow>
       (\<exists>rd'. speex_inband_handler ((replicate 16 None)[9 := Some speex_std_stereo_request_handler]) rd speex_stereo_state_init =
          Some (0, rd', stereo_set True 31 0 speex_stereo_state_init) \<and> remaining rd' = []))"
proof -
  let ?data = "[0, 10000] :: int list"
  have e: "energy (\<lambda>i. ?data ! (2 * i)) 1 = 0" "energy (\<lambda>i. ?data ! (2 * i + 1)) 1 = 390625" "energy (mixed ?data) 1 = 97656"
    by (simp_all add: energy_def mixed_def asr_def)
  have v: "balance_index 390625 0 = Some 31" "ratio_index 97656 0 390625 = Some 0" by code_simp+
  have b: "can_receive (empty_bits 8) (empty_bits 8)" "written (empty_bits 8) = []" "pack_fits (empty_bits 8) (17 + 8)"
    using empty_bits_wf [of 8 8 25] by simp_all
  have m: "map (mixed ?data) [0..<1] @ drop 1 ?data = [5000, 10000]" by (simp add: mixed_def asr_def)
  have l: "2 * 1 \<le> length ?data" "\<forall>x \<in> set ?data. is_i16 x" "1 \<le> (511 :: nat)"
    "length ((replicate 16 None)[9 := Some speex_std_stereo_request_handler]) = 16"
    "(replicate 16 None)[9 := Some speex_std_stereo_request_handler] ! 9 = Some speex_std_stereo_request_handler"
    by (simp_all add: is_i16_def)
  show ?thesis
    using stereo_request_round_trip [OF b(1,3) l, of "\<lambda>_ _. None"] b(2) v unfolding Let_def e m by fastforce
qed

text \<open>
  The gains of the decoder, which its comment promises to be just below 2 at most, are positive 16 bit
  numbers for every request but those of a right channel louder by an index of 18 or more and of least coherence,
  as a signal on the right alone gives: there the gain of the right channel, 32768, wraps to -32768
  and both channels are played with their sign reversed.
\<close>

theorem stereo_gain_wraps:
  assumes "d < 32" and "q < 4"
  shows "\<exists>l r. stereo_gains (balance (stereo_set s d q st)) (e_ratio (stereo_set s d q st)) = Some (l, r) \<and> is_i16 l \<and> is_i16 r \<and>
     (if s \<and> 18 \<le> d \<and> q = 0 then l < 0 \<and> r = -32768 else 0 < l \<and> 0 < r)"
  using gains_value [OF _ assms, of "if s then -1 else 1"] by (cases s) (simp_all add: stereo_set_def)

theorem stereo_gain_wraps_witness:
  "\<exists>l. stereo_gains (balance (stereo_set True 31 0 speex_stereo_state_init)) (e_ratio (stereo_set True 31 0 speex_stereo_state_init)) = Some (l, -32768) \<and> l < 0"
  using stereo_gain_wraps [of 31 0 True speex_stereo_state_init] by auto

text \<open>
  In every state that a reset and any stereo requests lead to, the decoder spreads a frame over the two channels
  inside its block, whatever the samples; the smoothed gains move between the old gains and the new, so they never
  overflow, and the state stays such a state.
\<close>

theorem stereo_decoding_total:
  assumes "state_reserved1 st = 0xdeadbeef \<Longrightarrow> stereo_ok st" and "2 * n \<le> length data"
  shows "\<exists>l r data' st'. stereo_gains (balance (COMPATIBILITY_HACK st)) (e_ratio (COMPATIBILITY_HACK st)) = Some (l, r) \<and>
    speex_decode_stereo_int data n st = Some (data', st') \<and> length data' = length data \<and> stereo_ok st' \<and>
    between (smooth_left (COMPATIBILITY_HACK st)) l (smooth_left st') \<and> between (smooth_right (COMPATIBILITY_HACK st)) r (smooth_right st') \<and>
    (\<forall>s d q. d < 32 \<longrightarrow> q < 4 \<longrightarrow> stereo_ok (stereo_set s d q st'))"
proof -
  let ?st = "COMPATIBILITY_HACK st"
  have ok: "stereo_ok ?st" using assms(1) stereo_ok_reset by (simp add: COMPATIBILITY_HACK_def)
  then obtain sg d q where v: "sg \<in> {1, -1}" "d < 32" "q < 4" "balance ?st = stereo_balance sg (int d)" "e_ratio ?st = e_ratio_quant ! q"
    unfolding stereo_ok_def by blast
  obtain l r where g: "stereo_gains (balance ?st) (e_ratio ?st) = Some (l, r)" "is_i16 l" "is_i16 r"
    using gains_value [OF v(1-3)] v(4,5) by auto
  have "between (smooth_left ?st) l (smooth_left ?st)" "between (smooth_right ?st) r (smooth_right ?st)"
    using ok by (simp_all add: between_def stereo_ok_def)
  then obtain data' st' where s: "spread_loop l r (rev [0..<n]) (data, ?st) = Some (data', st')" "length data' = length data"
      "between (smooth_left ?st) l (smooth_left st')" "between (smooth_right ?st) r (smooth_right st')"
      "st' = ?st\<lparr>smooth_left := smooth_left st', smooth_right := smooth_right st'\<rparr>"
    using spread_loop_total [OF g(2,3), of "rev [0..<n]" data "smooth_left ?st" ?st "smooth_right ?st"] assms(2) by auto
  have ok': "stereo_ok st'" using ok s(3,4) by (subst s(5)) (simp add: stereo_ok_def between_def)
  then have "stereo_ok (COMPATIBILITY_HACK st')" using stereo_ok_reset by (simp add: COMPATIBILITY_HACK_def)
  then have "\<forall>s d q. d < 32 \<longrightarrow> q < 4 \<longrightarrow> stereo_ok (stereo_set s d q st')" using stereo_set_ok by blast
  then show ?thesis using g(1) s ok' by (simp add: speex_decode_stereo_int_def Let_def)
qed

theorem stereo_decoding_total_witness:
  "\<exists>data' st'. speex_decode_stereo_int [5000, 10000] 1 speex_stereo_state_init = Some (data', st') \<and> length data' = 2 \<and> stereo_ok st'"
  using stereo_decoding_total [of speex_stereo_state_init 1 "[5000, 10000]"] stereo_ok_reset by (auto simp: speex_stereo_state_init_def)

end
