(* ===== verification/G711.thy ===== *)
theory G711
  imports Spandsp_Arith
begin

text \<open>
  The companding of G.711 (\<open>spandsp/g711.h\<close>): a sample is coded by its sign, the segment its magnitude falls
  in and the four bits after the leading one. \<open>ULAW_ZEROTRAP\<close> is not defined.
\<close>

subsection \<open>The codes\<close>

definition linear_to_ulaw :: "int \<Rightarrow> u8" where
  "linear_to_ulaw linear =
     (let (linear, mask) = (if linear \<ge> 0 then (i32 (0x84 + linear), 0xFF) else (i32 (0x84 - linear), 0x7F :: int));
          seg = top_bit (word_of_int (linear OR 0xFF)) - 7
      in if seg \<ge> 8 then word_of_int (0x7F XOR mask)
         else word_of_int ((shl seg 4 OR (asr linear (nat (seg + 3)) AND 0xF)) XOR mask))"

definition ulaw_to_linear :: "u8 \<Rightarrow> int" where
  "ulaw_to_linear ulaw =
     (let ulaw = uint (NOT ulaw);
          t = shl (shl (ulaw AND 0x0F) 3 + 0x84) (nat (asr (ulaw AND 0x70) 4))
      in i16 (if ulaw AND 0x80 \<noteq> 0 then 0x84 - t else t - 0x84))"

definition linear_to_alaw :: "int \<Rightarrow> u8" where
  "linear_to_alaw linear =
     (let (linear, mask) = (if linear \<ge> 0 then (linear, 0x55 OR 0x80) else (i32 (i32 (- linear) - 1), 0x55 :: int));
          seg = top_bit (word_of_int (linear OR 0xFF)) - 7
      in if seg \<ge> 8 then (if linear \<ge> 0 then word_of_int (0x7F XOR mask) else word_of_int (0x00 XOR mask))
         else word_of_int ((shl seg 4 OR (asr linear (if seg \<noteq> 0 then nat (seg + 3) else 4) AND 0x0F)) XOR mask))"

definition alaw_to_linear :: "u8 \<Rightarrow> int" where
  "alaw_to_linear alaw =
     (let alaw = uint (alaw XOR 0x55);
          i = shl (alaw AND 0x0F) 4;
          seg = asr (alaw AND 0x70) 4;
          i = (if seg \<noteq> 0 then shl (i + 0x108) (nat (seg - 1)) else i + 8)
      in i16 (if alaw AND 0x80 \<noteq> 0 then i else - i))"

subsection \<open>The segment\<close>

lemma top_bit_between:
  assumes "2 ^ p \<le> x" and "x < 2 ^ Suc p" and "p < 32"
  shows "top_bit (word_of_int x) = int p"
proof (rule top_bit_highest)
  have x: "0 \<le> x" using assms(1) by (smt (verit) zero_le_power)
  have "x = 2 ^ p + (x - 2 ^ p)" by simp
  have "x div 2 ^ p = 1"
    using assms(1,2) by (intro int_div_pos_eq [of _ _ _ "x - 2 ^ p"]) auto
  then have "bit x p" by (simp add: bit_iff_odd)
  then show "bit (word_of_int x :: u32) p" using assms(3) by (simp add: bit_word_of_int_iff)
next
  fix i assume "bit (word_of_int x :: u32) i"
  then have b: "bit x i" by (simp add: bit_word_of_int_iff)
  have x: "0 \<le> x" using assms(1) by (smt (verit) zero_le_power)
  then show "i \<le> p" using small_bits [OF x assms(2) b] by simp
qed

lemma segment_of:
  assumes "2 ^ p \<le> x" and "x < 2 ^ Suc p" and "7 \<le> p" and "p < 32"
  shows "top_bit (word_of_int (x OR 0xFF)) = int p"
proof (rule top_bit_highest)
  have x: "0 \<le> x" using assms(1) by (smt (verit) zero_le_power)
  have "x div 2 ^ p = 1"
    using assms(1,2) by (intro int_div_pos_eq [of _ _ _ "x - 2 ^ p"]) auto
  then have "bit x p" by (simp add: bit_iff_odd)
  then show "bit (word_of_int (x OR 0xFF) :: u32) p" using assms(4) by (simp add: bit_word_of_int_iff bit_or_iff)
  fix i assume "bit (word_of_int (x OR 0xFF) :: u32) i"
  then have "bit x i \<or> bit (0xFF :: int) i" by (simp add: bit_word_of_int_iff bit_or_iff)
  moreover have "bit (0xFF :: int) i \<Longrightarrow> i < 8" by (rule small_bits) auto
  ultimately show "i \<le> p" using small_bits [OF x assms(2)] assms(3) by fastforce
qed

lemma segment_of_small:
  assumes "0 \<le> x" and "x < 256"
  shows "top_bit (word_of_int (x OR 0xFF)) = 7"
proof -
  have "x OR 0xFF = (0xFF :: int)"
  proof (rule bit_eqI)
    fix n
    have "bit (0xFF :: int) n \<longleftrightarrow> n < 8" using bit_mask_iff [of 8 n, where 'a = int] by (simp add: mask_eq_exp_minus_1)
    moreover have "bit x n \<Longrightarrow> n < 8" by (rule small_bits [OF assms(1)]) (use assms(2) in simp_all)
    ultimately show "bit (x OR 0xFF) n \<longleftrightarrow> bit (0xFF :: int) n" by (auto simp: bit_or_iff)
  qed
  then show ?thesis using top_bit_between [of 7 255] by simp
qed

text \<open>The magnitude is the segment's leading one, the four bits sent and a rest.\<close>

lemma segment_parts:
  fixes x :: int
  assumes "2 ^ (s + 7) \<le> x" and "x < 2 ^ (s + 8)"
  shows "\<exists>q r. asr x (s + 3) AND 0xF = q \<and> 0 \<le> q \<and> q < 16 \<and> 0 \<le> r \<and> r < 2 ^ (s + 3) \<and> x = (q + 16) * 2 ^ (s + 3) + r"
proof -
  let ?d = "x div 2 ^ (s + 3)"
  have x: "x = ?d * 2 ^ (s + 3) + x mod 2 ^ (s + 3)" by (simp only: div_mult_mod_eq)
  have "16 * 2 ^ (s + 3) \<le> x" "x < (31 + 1) * 2 ^ (s + 3)" using assms by (simp_all add: power_add)
  then have d: "16 \<le> ?d" "?d \<le> 31" using asr_bounds [of 16 "s + 3" x 31] by (simp_all add: asr_def)
  have "?d AND 0xF = ?d mod 16" using take_bit_eq_mask [of 4 ?d] by (simp add: take_bit_eq_mod mask_eq_exp_minus_1)
  also have "?d mod 16 = ?d - 16"
  proof -
    have "16 \<le> d \<Longrightarrow> d \<le> 31 \<Longrightarrow> d mod 16 = d - 16" for d :: int by presburger
    then show ?thesis using d by blast
  qed
  finally have "asr x (s + 3) AND 0xF = ?d - 16" by (simp add: asr_def)
  moreover have "0 \<le> x mod 2 ^ (s + 3)" "x mod 2 ^ (s + 3) < 2 ^ (s + 3)" by simp_all
  moreover have "x = (?d - 16 + 16) * 2 ^ (s + 3) + x mod 2 ^ (s + 3)" using x by simp
  ultimately show ?thesis using d by (intro exI [of _ "?d - 16"] exI [of _ "x mod 2 ^ (s + 3)"]) simp
qed

lemma magnitude_segment:
  fixes x :: int
  assumes "128 \<le> x" and "x < 32768"
  shows "\<exists>s < 8. 2 ^ (s + 7) \<le> x \<and> x < 2 ^ (s + 8)"
proof -
  consider "x < 256" | "256 \<le> x" "x < 512" | "512 \<le> x" "x < 1024" | "1024 \<le> x" "x < 2048" | "2048 \<le> x" "x < 4096"
    | "4096 \<le> x" "x < 8192" | "8192 \<le> x" "x < 16384" | "16384 \<le> x" using assms by linarith
  then show ?thesis
  proof cases
    case 1 then show ?thesis using assms by (intro exI [of _ 0]) simp
  next case 2 then show ?thesis by (intro exI [of _ 1]) simp
  next case 3 then show ?thesis by (intro exI [of _ 2]) simp
  next case 4 then show ?thesis by (intro exI [of _ 3]) simp
  next case 5 then show ?thesis by (intro exI [of _ 4]) simp
  next case 6 then show ?thesis by (intro exI [of _ 5]) simp
  next case 7 then show ?thesis by (intro exI [of _ 6]) simp
  next case 8 then show ?thesis using assms by (intro exI [of _ 7]) simp
  qed
qed

subsection \<open>What a code stands for\<close>

lemma ulaw_values:
  "list_all (\<lambda>s. list_all (\<lambda>q.
     ulaw_to_linear (word_of_int ((shl (int s) 4 OR int q) XOR 0xFF)) = (2 * int q + 33) * 2 ^ (s + 2) - 132 \<and>
     ulaw_to_linear (word_of_int ((shl (int s) 4 OR int q) XOR 0x7F)) = 132 - (2 * int q + 33) * 2 ^ (s + 2)) [0..<16]) [0..<8]"
  by code_simp

lemma alaw_values:
  "list_all (\<lambda>s. list_all (\<lambda>q.
     alaw_to_linear (word_of_int ((shl (int s) 4 OR int q) XOR 0xD5)) = (if s = 0 then 16 * int q + 8 else (2 * int q + 33) * 2 ^ (s + 2)) \<and>
     alaw_to_linear (word_of_int ((shl (int s) 4 OR int q) XOR 0x55)) = - (if s = 0 then 16 * int q + 8 else (2 * int q + 33) * 2 ^ (s + 2))) [0..<16]) [0..<8]"
  by code_simp

lemma ulaw_codes: "list_all (\<lambda>c. linear_to_ulaw (ulaw_to_linear c) = (if c = 0x7F then 0xFF else c)) (map word_of_nat [0..<256])"
  by code_simp

lemma alaw_codes: "list_all (\<lambda>c. linear_to_alaw (alaw_to_linear c) = c) (map word_of_nat [0..<256])"
  by code_simp

lemma all_bytes: "c \<in> set (map word_of_nat [0..<256])" for c :: u8
proof -
  have "unat c \<in> set [0..<256]" using unsigned_less [of c] by simp
  then have "(word_of_nat (unat c) :: u8) \<in> word_of_nat ` set [0..<256]" by (rule imageI)
  then show ?thesis by simp
qed

lemma ulaw_value:
  assumes "s < 8" and "0 \<le> q" and "q < 16"
  shows "ulaw_to_linear (word_of_int ((shl (int s) 4 OR q) XOR 0xFF)) = (2 * q + 33) * 2 ^ (s + 2) - 132"
    and "ulaw_to_linear (word_of_int ((shl (int s) 4 OR q) XOR 0x7F)) = 132 - (2 * q + 33) * 2 ^ (s + 2)"
proof -
  have "s \<in> set [0..<8]" "nat q \<in> set [0..<16]" using assms by (simp_all add: nat_less_iff)
  moreover have "int (nat q) = q" using assms by simp
  ultimately show "ulaw_to_linear (word_of_int ((shl (int s) 4 OR q) XOR 0xFF)) = (2 * q + 33) * 2 ^ (s + 2) - 132"
    "ulaw_to_linear (word_of_int ((shl (int s) 4 OR q) XOR 0x7F)) = 132 - (2 * q + 33) * 2 ^ (s + 2)"
    using ulaw_values unfolding list_all_iff by metis+
qed

lemma alaw_value:
  assumes "s < 8" and "0 \<le> q" and "q < 16"
  shows "alaw_to_linear (word_of_int ((shl (int s) 4 OR q) XOR 0xD5)) = (if s = 0 then 16 * q + 8 else (2 * q + 33) * 2 ^ (s + 2))"
    and "alaw_to_linear (word_of_int ((shl (int s) 4 OR q) XOR 0x55)) = - (if s = 0 then 16 * q + 8 else (2 * q + 33) * 2 ^ (s + 2))"
proof -
  have "s \<in> set [0..<8]" "nat q \<in> set [0..<16]" using assms by (simp_all add: nat_less_iff)
  moreover have "int (nat q) = q" using assms by simp
  ultimately show "alaw_to_linear (word_of_int ((shl (int s) 4 OR q) XOR 0xD5)) = (if s = 0 then 16 * q + 8 else (2 * q + 33) * 2 ^ (s + 2))"
    "alaw_to_linear (word_of_int ((shl (int s) 4 OR q) XOR 0x55)) = - (if s = 0 then 16 * q + 8 else (2 * q + 33) * 2 ^ (s + 2))"
    using alaw_values unfolding list_all_iff by metis+
qed

lemma ulaw_of_magnitude:
  assumes "s < 8" and "2 ^ (s + 7) \<le> m" and "m < 2 ^ (s + 8)" and "m = (if x \<ge> 0 then 132 + x else 132 - x)"
  shows "\<bar>ulaw_to_linear (linear_to_ulaw x) - x\<bar> \<le> 2 ^ (s + 2)"
proof -
  obtain q r where q: "asr m (s + 3) AND 0xF = q" "0 \<le> q" "q < 16" and r: "0 \<le> r" "r < 2 ^ (s + 3)"
    and m: "m = (q + 16) * 2 ^ (s + 3) + r" using segment_parts [OF assms(2,3)] by blast
  have top: "top_bit (word_of_int (m OR 0xFF)) = int (s + 7)"
    by (rule segment_of) (use assms(1-3) in \<open>simp_all add: power_add\<close>)
  have "(2::int) ^ (s + 8) \<le> 2 ^ 15" using assms(1) by (intro power_increasing) auto
  then have m32: "i32 m = m" using assms(2,3) by (intro i32_id) (simp add: is_i32_def, smt (verit) zero_le_power)
  have code: "linear_to_ulaw x = word_of_int ((shl (int s) 4 OR q) XOR (if x \<ge> 0 then 0xFF else 0x7F))"
    using m32 top q(1) assms(1,4) by (simp add: linear_to_ulaw_def Let_def nat_add_distrib add.commute [of 3 s] split: if_splits)
  have "(2::int) ^ (s + 3) = 2 * 2 ^ (s + 2)" by (simp add: power_add)
  then have mid: "m = (2 * q + 32) * 2 ^ (s + 2) + r" "r < 2 * 2 ^ (s + 2)" using m r(2) by (simp_all add: algebra_simps)
  show ?thesis
  proof (cases "x \<ge> 0")
    case True
    then have "ulaw_to_linear (linear_to_ulaw x) - x = (2 * q + 33) * 2 ^ (s + 2) - m"
      using code ulaw_value(1) [OF assms(1) q(2,3)] assms(4) by simp
    also have "\<dots> = 2 ^ (s + 2) - r" unfolding mid by (simp add: algebra_simps)
    finally show ?thesis using r(1) mid(2) by linarith
  next
    case False
    then have "ulaw_to_linear (linear_to_ulaw x) - x = m - (2 * q + 33) * 2 ^ (s + 2)"
      using code ulaw_value(2) [OF assms(1) q(2,3)] assms(4) by simp
    also have "\<dots> = r - 2 ^ (s + 2)" unfolding mid by (simp add: algebra_simps)
    finally show ?thesis using r(1) mid(2) by linarith
  qed
qed

lemma alaw_code:
  assumes "m = (if x \<ge> 0 then x else - x - 1)" and "m < 32768" and "top_bit (word_of_int (m OR 0xFF)) = int (s + 7)" and "s < 8"
    and "asr m (if s = 0 then 4 else s + 3) AND 0xF = q"
  shows "linear_to_alaw x = word_of_int ((shl (int s) 4 OR q) XOR (if x \<ge> 0 then 0xD5 else 0x55))"
proof -
  have "x < 0 \<Longrightarrow> i32 (i32 (- x) - 1) = m" using assms(1,2) by (simp add: is_i32_def)
  then show ?thesis using assms by (auto simp: linear_to_alaw_def Let_def nat_add_distrib add.commute [of 3 s] split: if_splits)
qed

lemma scaled_bound: "e \<le> h \<Longrightarrow> 32 * h \<le> b \<Longrightarrow> 32 * e \<le> (b :: int)"
  by linarith

text \<open>The distance to the middle of the step.\<close>

lemma alaw_of_magnitude:
  assumes "m = (if x \<ge> 0 then x else - x - 1)" and "0 \<le> m" and "m < 32768"
  shows "32 * \<bar>alaw_to_linear (linear_to_alaw x) - x\<bar> \<le> max 256 \<bar>x\<bar>"
proof -
  have "\<exists>s q h r. s < 8 \<and> 0 \<le> q \<and> q < 16 \<and> 0 \<le> r \<and> r < 2 * h \<and> 32 * h \<le> max 256 m \<and>
      (if s = 0 then 16 * q + 8 else (2 * q + 33) * 2 ^ (s + 2)) = m + h - r \<and>
      linear_to_alaw x = word_of_int ((shl (int s) 4 OR q) XOR (if x \<ge> 0 then 0xD5 else 0x55))"
  proof (cases "m < 256")
    case True
    have "asr m 4 AND 0xF = asr m 4 mod 16" using take_bit_eq_mask [of 4 "asr m 4"] by (simp add: take_bit_eq_mod mask_eq_exp_minus_1)
    also have "\<dots> = m div 16" using True assms(2) by (simp add: asr_def)
    finally have "linear_to_alaw x = word_of_int ((shl (int 0) 4 OR m div 16) XOR (if x \<ge> 0 then 0xD5 else 0x55))"
      using alaw_code [of m x 0 "m div 16"] segment_of_small [of m] assms True by simp
    moreover have "16 * (m div 16) + 8 = m + 8 - m mod 16" by (simp add: minus_mod_eq_mult_div [symmetric])
    ultimately show ?thesis
      using True assms(2) by (intro exI [of _ 0] exI [of _ "m div 16"] exI [of _ 8] exI [of _ "m mod 16"]) auto
  next
    case False
    then obtain s where s: "s < 8" "2 ^ (s + 7) \<le> m" "m < 2 ^ (s + 8)" using magnitude_segment [of m] assms(3) by auto
    have s0: "s \<noteq> 0" using s(3) False by (intro notI) simp
    obtain q r where q: "asr m (s + 3) AND 0xF = q" "0 \<le> q" "q < 16" and r: "0 \<le> r" "r < 2 ^ (s + 3)"
      and m: "m = (q + 16) * 2 ^ (s + 3) + r" using segment_parts [OF s(2,3)] by blast
    have "top_bit (word_of_int (m OR 0xFF)) = int (s + 7)"
      by (rule segment_of) (use s in \<open>simp_all add: power_add\<close>)
    then have "linear_to_alaw x = word_of_int ((shl (int s) 4 OR q) XOR (if x \<ge> 0 then 0xD5 else 0x55))"
      using alaw_code [of m x s q] assms s(1) s0 q(1) by simp
    moreover have "(2::int) ^ (s + 3) = 2 * 2 ^ (s + 2)" "(2::int) ^ (s + 7) = 32 * 2 ^ (s + 2)" by (simp_all add: power_add)
    moreover from this have "(2 * q + 33) * 2 ^ (s + 2) = m + 2 ^ (s + 2) - r" unfolding m by (simp add: algebra_simps)
    ultimately show ?thesis
      using s s0 q(2,3) r by (intro exI [of _ s] exI [of _ q] exI [of _ "2 ^ (s + 2)"] exI [of _ r]) simp
  qed
  then obtain s q h r where s: "s < 8" "0 \<le> q" "q < 16" and r: "0 \<le> r" "r < 2 * h" "32 * h \<le> max 256 m"
    and v: "(if s = 0 then 16 * q + 8 else (2 * q + 33) * 2 ^ (s + 2)) = m + h - r"
    and code: "linear_to_alaw x = word_of_int ((shl (int s) 4 OR q) XOR (if x \<ge> 0 then 0xD5 else 0x55))" by blast
  show ?thesis
  proof (cases "x \<ge> 0")
    case True
    then have "alaw_to_linear (linear_to_alaw x) = m + h - r" unfolding code using alaw_value(1) [OF s] v by simp
    then have "\<bar>alaw_to_linear (linear_to_alaw x) - x\<bar> \<le> h" using r assms(1) True by simp
    then show ?thesis by (rule scaled_bound) (use r(3) assms(1,2) True in simp)
  next
    case False
    then have "alaw_to_linear (linear_to_alaw x) = - (m + h - r)" unfolding code using alaw_value(2) [OF s] v by simp
    then have "\<bar>alaw_to_linear (linear_to_alaw x) - x\<bar> \<le> h" using r(1,2) assms(1) False by simp
    then show ?thesis by (rule scaled_bound) (use r(3) assms(1,2) False in simp)
  qed
qed

subsection \<open>Properties\<close>

text \<open>
  C37. Every code but one is the code of the sample it stands for, in both laws; the u-law code of
  the negative zero comes back as that of the positive one.
\<close>

theorem g711_codes_round_trip:
  "linear_to_alaw (alaw_to_linear a) = a \<and> linear_to_ulaw (ulaw_to_linear u) = (if u = 0x7F then 0xFF else u)"
  using alaw_codes ulaw_codes all_bytes [of a] all_bytes [of u] unfolding list_all_iff by blast



end
