(* ===== verification/Speex_Filters.thy ===== *)
theory Speex_Filters
  imports Speex_Fixed
begin

text \<open>
  The signal processing primitives of Speex in fixed point (\<open>libspeex/filters.c\<close>, and \<open>inner_prod\<close> of \<open>ltp.c\<close>): bandwidth
  expansion, the recursive filters, energies, the two band filter bank and the comb filter that enhances
  the decoded excitation.

  A filter gets the samples it reads as a list and returns the samples it writes with its new memory; it reads a sample before
  it writes the same place, so the callers that filter in place get what the code gives them. A pointer
  into the middle of a buffer, which the code also follows backwards, is the buffer with an integer
  position (\<open>cell\<close>, \<open>cells\<close>). Scratch memory of the code that is always written before it is read is just a list.
\<close>

subsection \<open>Pointers into a buffer\<close>

definition cell :: "'a list \<Rightarrow> int \<Rightarrow> 'a option" where
  "cell buf k = (if 0 \<le> k then mem_get buf (nat k) else None)"

definition cells :: "'a list \<Rightarrow> int \<Rightarrow> nat \<Rightarrow> 'a list option" where
  "cells buf k n = (if 0 \<le> k then mem_read buf (nat k) n else None)"

definition set_cells :: "'a list \<Rightarrow> int \<Rightarrow> 'a list \<Rightarrow> 'a list option" where
  "set_cells buf k vs = (if 0 \<le> k then mem_write buf (nat k) vs else None)"

lemma cell_Some [mem_simps]: "0 \<le> k \<Longrightarrow> k < int (length buf) \<Longrightarrow> cell buf k = Some (buf ! nat k)"
  by (simp add: cell_def mem_get_def nat_less_iff)

lemma cells_Some [mem_simps]: "0 \<le> k \<Longrightarrow> k + int n \<le> int (length buf) \<Longrightarrow> cells buf k n = Some (take n (drop (nat k) buf))"
  by (auto simp: cells_def mem_read_def)

lemma set_cells_Some [mem_simps]:
  "0 \<le> k \<Longrightarrow> k + int (length vs) \<le> int (length buf) \<Longrightarrow>
     set_cells buf k vs = Some (take (nat k) buf @ vs @ drop (nat k + length vs) buf)"
  by (auto simp: set_cells_def mem_write_def)

subsection \<open>Bandwidth expansion and limits\<close>

primrec bw_lpc_loop :: "int \<Rightarrow> int \<Rightarrow> int list \<Rightarrow> int list" where
  "bw_lpc_loop gamma tmp [] = []"
| "bw_lpc_loop gamma tmp (l # ls) = i16 (MULT16_16_P15 tmp l) # bw_lpc_loop gamma (i16 (MULT16_16_P15 tmp gamma)) ls"

definition bw_lpc :: "int \<Rightarrow> int list \<Rightarrow> nat \<Rightarrow> int list option" where
  "bw_lpc gamma lpc_in order = do { l \<leftarrow> mem_read lpc_in 0 order; Some (bw_lpc_loop gamma gamma l) }"

text \<open>Integers are never the NaN that the code looks for.\<close>

definition sanitize_values32 :: "int list \<Rightarrow> int \<Rightarrow> int \<Rightarrow> int list" where
  "sanitize_values32 vec min_val max_val =
     map (\<lambda>v. if \<not> (v \<ge> min_val \<and> v \<le> max_val)
               then (if v < min_val then min_val else if v > max_val then max_val else 0) else v) vec"

subsection \<open>The output filter\<close>

definition Pcoef :: "(int \<times> int \<times> int) list" where
  "Pcoef = [(16384, -31313, 14991), (16384, -31569, 15249), (16384, -31677, 15328), (16384, -32313, 15947), (16384, -22446, 6537)]"

definition Zcoef :: "(int \<times> int \<times> int) list" where
  "Zcoef = [(15672, -31344, 15672), (15802, -31601, 15802), (15847, -31694, 15847), (16162, -32322, 16162), (14418, -28836, 14418)]"

fun highpass_loop :: "int \<times> int \<times> int \<Rightarrow> int \<times> int \<times> int \<Rightarrow> int list \<Rightarrow> int \<times> int \<Rightarrow> int list \<times> int \<times> int" where
  "highpass_loop den num [] mem = ([], mem)"
| "highpass_loop (d0, d1, d2) (n0, n1, n2) (x # xs) (m0, m1) =
     (let vout = ADD32 (MULT16_16 n0 x) m0;
          yi = EXTRACT16 (SATURATE (PSHR32 vout 14) 32767);
          m0 = ADD32 (MAC16_16 m1 n1 x) (SHL32 (MULT16_32_Q15 (- d1) vout) 1);
          m1 = ADD32 (MULT16_16 n2 x) (SHL32 (MULT16_32_Q15 (- d2) vout) 1);
          (ys, mem) = highpass_loop (d0, d1, d2) (n0, n1, n2) xs (m0, m1)
      in (yi # ys, mem))"

definition highpass :: "int list \<Rightarrow> nat \<Rightarrow> int \<times> int \<Rightarrow> (int list \<times> int \<times> int) option" where
  "highpass x filtID mem =
     do { let filtID = (if filtID > 4 then 4 else filtID);
          den \<leftarrow> mem_get Pcoef filtID;
          num \<leftarrow> mem_get Zcoef filtID;
          Some (highpass_loop den num x mem) }"

subsection \<open>Scaling\<close>

definition signal_mul :: "int list \<Rightarrow> int \<Rightarrow> int list" where
  "signal_mul x scale = map (\<lambda>v. SHL32 (MULT16_32_Q14 (EXTRACT16 (SHR32 v 7)) scale) 7) x"

definition signal_div :: "int list \<Rightarrow> int \<Rightarrow> int list option" where
  "signal_div x scale =
     (if scale > SHL32 16384 8 then
        do { scale_1 \<leftarrow> PDIV32_16 (SHL32 16384 7) (PSHR32 scale 14);
             Some (map (\<lambda>v. i16 (MULT16_16_P15 scale_1 v)) x) }
      else if scale > SHR32 16384 2 then
        do { scale_1 \<leftarrow> DIV32_16 (SHL32 16384 3) (PSHR32 scale 9);
             Some (map (\<lambda>v. i16 (PSHR32 (MULT16_16 scale_1 (SHL16 v 2)) 8)) x) }
      else
        do { let scale = PSHR32 scale 7;
             let scale = (if scale < 5 then 5 else scale);
             scale_1 \<leftarrow> DIV32_16 (SHL32 16384 3) scale;
             Some (map (\<lambda>v. i16 (PSHR32 (MULT16_16 scale_1 (SHL16 v 2)) 6)) x) })"

subsection \<open>Energies\<close>

text \<open>The sum of products of four pairs at a time, each sum of four brought down by six bits.\<close>

fun sum_fours :: "(int \<times> int) list \<Rightarrow> int \<Rightarrow> int" where
  "sum_fours ((a0, b0) # (a1, b1) # (a2, b2) # (a3, b3) # ps) acc =
     sum_fours ps (ADD32 acc (SHR32 (MAC16_16 (MAC16_16 (MAC16_16 (MAC16_16 0 a0 b0) a1 b1) a2 b2) a3 b3) 6))"
| "sum_fours _ acc = acc"

definition inner_prod :: "int list \<Rightarrow> int list \<Rightarrow> nat \<Rightarrow> int option" where
  "inner_prod x y len =
     do { let n = 4 * (len div 4);
          x \<leftarrow> mem_read x 0 n;
          y \<leftarrow> mem_read y 0 n;
          Some (sum_fours (zip x y) 0) }"

text \<open>The largest magnitude, in a variable of the width that \<open>narrow\<close> gives it.\<close>

definition max_magnitude :: "(int \<Rightarrow> int) \<Rightarrow> int \<Rightarrow> int list \<Rightarrow> int" where
  "max_magnitude narrow start x =
     foldl (\<lambda>max_val v. let tmp = (if v < 0 then i32 (- v) else v) in if tmp > max_val then narrow tmp else max_val) start x"

text \<open>The shift that brings a magnitude below a limit; the loop does not end for a negative limit.\<close>

partial_function (option) scale_shift :: "int \<Rightarrow> int \<Rightarrow> nat \<Rightarrow> nat option" where
  "scale_shift limit max_val sig_shift =
     (if max_val > limit then scale_shift limit (asr max_val 1) (sig_shift + 1) else Some sig_shift)"

definition whole_fours :: "nat \<Rightarrow> nat" where
  "whole_fours len = 4 * ((len + 3) div 4)"

definition compute_rms :: "int list \<Rightarrow> nat \<Rightarrow> int option" where
  "compute_rms x len =
     do { xs \<leftarrow> mem_read x 0 len;
          sig_shift \<leftarrow> scale_shift 16383 (max_magnitude i32 1 xs) 0;
          x \<leftarrow> mem_read x 0 (whole_fours len);
          let ts = map (\<lambda>v. EXTRACT16 (SHR32 v sig_shift)) x;
          q \<leftarrow> DIV32 (sum_fours (zip ts ts) 0) (int len);
          Some (EXTRACT16 (PSHR32 (SHL32 (spx_sqrt q) (sig_shift + 3)) 14)) }"

definition rms_level :: "int list \<Rightarrow> nat \<Rightarrow> nat \<Rightarrow> int option" where
  "rms_level ts len up =
     do { q \<leftarrow> DIV32 (sum_fours (zip ts ts) 0) (int len); Some (i16 (SHL16 (spx_sqrt q) up)) }"

definition compute_rms16 :: "int list \<Rightarrow> nat \<Rightarrow> int option" where
  "compute_rms16 x len =
     do { xs \<leftarrow> mem_read x 0 len;
          let max_val = max_magnitude i16 10 xs;
          x \<leftarrow> mem_read x 0 (whole_fours len);
          if max_val > 16383 then rms_level (map (\<lambda>v. SHR16 v 1) x) len 4
          else
            do { let sig_shift = (if max_val < 8192 then 1 else 0);
                 let sig_shift = (if max_val < 4096 then 2 else sig_shift);
                 let sig_shift = (if max_val < 2048 then 3 else sig_shift);
                 rms_level (map (\<lambda>v. SHL16 v sig_shift) x) len (3 - sig_shift) } }"

definition normalize16 :: "int list \<Rightarrow> int \<Rightarrow> (nat \<times> int list) option" where
  "normalize16 x max_scale =
     do { let max_val = foldl (\<lambda>max_val v. let tmp = (if v < 0 then i32 (- v) else v) in if tmp \<ge> max_val then tmp else max_val) 1 x;
          sig_shift \<leftarrow> scale_shift max_scale max_val 0;
          Some (sig_shift, map (\<lambda>v. EXTRACT16 (SHR32 v sig_shift)) x) }"

subsection \<open>Filters with memory\<close>

text \<open>
  The three filters share the way a sample is made from the oldest memory cell; they differ in what they
  feed up. \<open>mem[j]\<close> becomes \<open>step mem[j + 1] j\<close>, the last cell \<open>last_step\<close>.
\<close>

definition filter_out :: "int \<Rightarrow> int \<Rightarrow> int" where
  "filter_out x m0 = EXTRACT16 (SATURATE (ADD32 x (PSHR32 m0 13)) 32767)"

primrec filter_mem16_loop :: "int list \<Rightarrow> int list \<Rightarrow> int list \<Rightarrow> int list \<Rightarrow> int list \<times> int list" where
  "filter_mem16_loop num den [] mem = ([], mem)"
| "filter_mem16_loop num den (xi # xs) mem =
     (let yi = filter_out xi (hd mem);
          nyi = i16 (- yi);
          mem = map (\<lambda>(m, n, d). MAC16_16 (MAC16_16 m n xi) d nyi) (zip (tl mem) (zip (butlast num) (butlast den)))
                  @ [ADD32 (MULT16_16 (last num) xi) (MULT16_16 (last den) nyi)];
          (ys, mem) = filter_mem16_loop num den xs mem
      in (yi # ys, mem))"

primrec iir_mem16_loop :: "int list \<Rightarrow> int list \<Rightarrow> int list \<Rightarrow> int list \<times> int list" where
  "iir_mem16_loop den [] mem = ([], mem)"
| "iir_mem16_loop den (xi # xs) mem =
     (let yi = filter_out xi (hd mem);
          nyi = i16 (- yi);
          mem = map (\<lambda>(m, d). MAC16_16 m d nyi) (zip (tl mem) (butlast den)) @ [MULT16_16 (last den) nyi];
          (ys, mem) = iir_mem16_loop den xs mem
      in (yi # ys, mem))"

primrec fir_mem16_loop :: "int list \<Rightarrow> int list \<Rightarrow> int list \<Rightarrow> int list \<times> int list" where
  "fir_mem16_loop num [] mem = ([], mem)"
| "fir_mem16_loop num (xi # xs) mem =
     (let yi = filter_out xi (hd mem);
          mem = map (\<lambda>(m, n). MAC16_16 m n xi) (zip (tl mem) (butlast num)) @ [MULT16_16 (last num) xi];
          (ys, mem) = fir_mem16_loop num xs mem
      in (yi # ys, mem))"

definition filter_mem16 :: "int list \<Rightarrow> int list \<Rightarrow> int list \<Rightarrow> nat \<Rightarrow> int list \<Rightarrow> (int list \<times> int list) option" where
  "filter_mem16 x num den ord mem =
     do { require (0 < ord);
          num \<leftarrow> mem_read num 0 ord;
          den \<leftarrow> mem_read den 0 ord;
          mem \<leftarrow> mem_read mem 0 ord;
          Some (filter_mem16_loop num den x mem) }"

definition iir_mem16 :: "int list \<Rightarrow> int list \<Rightarrow> nat \<Rightarrow> int list \<Rightarrow> (int list \<times> int list) option" where
  "iir_mem16 x den ord mem =
     do { require (0 < ord);
          den \<leftarrow> mem_read den 0 ord;
          mem \<leftarrow> mem_read mem 0 ord;
          Some (iir_mem16_loop den x mem) }"

definition fir_mem16 :: "int list \<Rightarrow> int list \<Rightarrow> nat \<Rightarrow> int list \<Rightarrow> (int list \<times> int list) option" where
  "fir_mem16 x num ord mem =
     do { require (0 < ord);
          num \<leftarrow> mem_read num 0 ord;
          mem \<leftarrow> mem_read mem 0 ord;
          Some (fir_mem16_loop num x mem) }"

definition syn_percep_zero16 :: "int list \<Rightarrow> int list \<Rightarrow> int list \<Rightarrow> int list \<Rightarrow> nat \<Rightarrow> int list option" where
  "syn_percep_zero16 xx ak awk1 awk2 ord =
     do { (y, mem) \<leftarrow> iir_mem16 xx ak ord (replicate ord 0);
          (y, mem) \<leftarrow> filter_mem16 y awk1 awk2 ord (replicate ord 0);
          Some y }"

definition residue_percep_zero16 :: "int list \<Rightarrow> int list \<Rightarrow> int list \<Rightarrow> int list \<Rightarrow> nat \<Rightarrow> int list option" where
  "residue_percep_zero16 xx ak awk1 awk2 ord =
     do { (y, mem) \<leftarrow> filter_mem16 xx ak awk1 ord (replicate ord 0);
          (y, mem) \<leftarrow> fir_mem16 y awk2 ord (replicate ord 0);
          Some y }"

primrec impulse_loop :: "int list \<Rightarrow> int list \<Rightarrow> int list \<Rightarrow> int list \<Rightarrow> int list \<Rightarrow> int list" where
  "impulse_loop ak awk2 [] mem1 mem2 = []"
| "impulse_loop ak awk2 (y # ys) mem1 mem2 =
     (let y1 = ADD16 y (EXTRACT16 (PSHR32 (hd mem1) 13));
          ny1i = i16 (- y1);
          yi = i16 (PSHR32 (ADD32 (SHL32 y1 14) (hd mem2)) 13);
          ny2i = i16 (- yi);
          mem1 = map (\<lambda>(m, d). MAC16_16 m d ny1i) (zip (tl mem1) (butlast awk2)) @ [MULT16_16 (last awk2) ny1i];
          mem2 = map (\<lambda>(m, d). MAC16_16 m d ny2i) (zip (tl mem2) (butlast ak)) @ [MULT16_16 (last ak) ny2i]
      in yi # impulse_loop ak awk2 ys mem1 mem2)"

definition compute_impulse_response :: "int list \<Rightarrow> int list \<Rightarrow> int list \<Rightarrow> nat \<Rightarrow> nat \<Rightarrow> int list option" where
  "compute_impulse_response ak awk1 awk2 N ord =
     do { require (0 < ord \<and> ord < N);
          ak \<leftarrow> mem_read ak 0 ord;
          awk1 \<leftarrow> mem_read awk1 0 ord;
          awk2 \<leftarrow> mem_read awk2 0 ord;
          let y = 8192 # awk1 @ replicate (N - ord - 1) 0;
          Some (impulse_loop ak awk2 y (replicate ord 0) (replicate ord 0)) }"

subsection \<open>The two band filter bank\<close>

text \<open>
  Two coefficients at a time: the low band takes both with the same sign, the high band alternates. \<open>x\<close> is the
  signal after \<open>M - 1\<close> samples of history, \<open>i\<close> the position.
\<close>

definition qmf_decomp_sum :: "int list \<Rightarrow> int list \<Rightarrow> nat \<Rightarrow> nat \<Rightarrow> int \<times> int" where
  "qmf_decomp_sum a x M i =
     foldl (\<lambda>(y1k, y2k) j.
         let u = x ! (i + j); v = x ! (M - 1 + i - j) in
         (ADD32 y1k (MULT16_16 (a ! j) (ADD16 u v)),
          (if even j then SUB32 else ADD32) y2k (MULT16_16 (a ! j) (SUB16 u v))))
       (0, 0) [0..<M div 2]"

text \<open>\<open>N\<close> samples and \<open>M\<close> coefficients; \<open>M\<close> is a multiple of four and at most \<open>N + 1\<close>.\<close>

definition qmf_decomp :: "int list \<Rightarrow> int list \<Rightarrow> nat \<Rightarrow> nat \<Rightarrow> int list \<Rightarrow> (int list \<times> int list \<times> int list) option" where
  "qmf_decomp xx aa N M mem =
     do { require (0 < M \<and> 4 dvd M \<and> M - 1 \<le> N);
          aa \<leftarrow> mem_read aa 0 M;
          m \<leftarrow> mem_read mem 0 (M - 1);
          xx \<leftarrow> mem_read xx 0 N;
          let a = rev aa;
          let x = rev m @ map (\<lambda>v. SHR16 v 1) xx;
          let mem = map (\<lambda>i. SHR16 (xx ! (N - i - 1)) 1) [0..<M - 1] @ drop (M - 1) mem;
          let ys = map (\<lambda>k. qmf_decomp_sum a x M (2 * k)) [0..<(N + 1) div 2];
          let out = (\<lambda>y. EXTRACT16 (SATURATE (PSHR32 y 15) 32767));
          Some (map (\<lambda>y. out (fst y)) ys, map (\<lambda>y. out (snd y)) ys, mem) }"

text \<open>
  Four output samples at a time from two samples of each band. \<open>p\<close> is the position in the extended bands, \<open>x10\<close>, \<open>x20\<close>
  the sample of each band that the next pair of coefficients shares.
\<close>

definition qmf_synth_mac :: "int \<Rightarrow> int \<Rightarrow> int \<times> int \<Rightarrow> int \<times> int \<Rightarrow> int \<times> int \<times> int \<times> int \<Rightarrow> int \<times> int \<times> int \<times> int" where
  "qmf_synth_mac a0 a1 xa xb y =
     (case (xa, xb, y) of ((xa1, xa2), (xb1, xb2), (y0, y1, y2, y3)) \<Rightarrow>
       (MAC16_16 (MAC16_16 y0 a0 xa1) (- a0) xa2, MAC16_16 (MAC16_16 y1 a1 xa1) a1 xa2,
        MAC16_16 (MAC16_16 y2 a0 xb1) (- a0) xb2, MAC16_16 (MAC16_16 y3 a1 xb1) a1 xb2))"

fun qmf_synth_sum ::
  "int list \<Rightarrow> int list \<Rightarrow> int list \<Rightarrow> nat \<Rightarrow> nat list \<Rightarrow> int \<times> int \<Rightarrow> int \<times> int \<times> int \<times> int \<Rightarrow> (int \<times> int \<times> int \<times> int) option" where
  "qmf_synth_sum a xx1 xx2 p [] x0 y = Some y"
| "qmf_synth_sum a xx1 xx2 p (j # js) x0 y =
     do { a0 \<leftarrow> mem_get a (2 * j);
          a1 \<leftarrow> mem_get a (2 * j + 1);
          x11 \<leftarrow> mem_get xx1 (p - 1 + j);
          x21 \<leftarrow> mem_get xx2 (p - 1 + j);
          let y = qmf_synth_mac a0 a1 (x11, x21) x0 y;
          a0 \<leftarrow> mem_get a (2 * j + 2);
          a1 \<leftarrow> mem_get a (2 * j + 3);
          x10 \<leftarrow> mem_get xx1 (p + j);
          x20 \<leftarrow> mem_get xx2 (p + j);
          let y = qmf_synth_mac a0 a1 (x10, x20) (x11, x21) y;
          qmf_synth_sum a xx1 xx2 p js (x10, x20) y }"

fun qmf_synth_loop :: "int list \<Rightarrow> int list \<Rightarrow> int list \<Rightarrow> nat \<Rightarrow> nat \<Rightarrow> nat list \<Rightarrow> int list option" where
  "qmf_synth_loop a xx1 xx2 N2 M2 [] = Some []"
| "qmf_synth_loop a xx1 xx2 N2 M2 (i # is') =
     do { require (i + 2 \<le> N2);
          x10 \<leftarrow> mem_get xx1 (N2 - 2 - i);
          x20 \<leftarrow> mem_get xx2 (N2 - 2 - i);
          (y0, y1, y2, y3) \<leftarrow>
            qmf_synth_sum a xx1 xx2 (N2 - i) (map (\<lambda>j. 2 * j) [0..<(M2 + 1) div 2]) (x10, x20) (0, 0, 0, 0);
          let out = (\<lambda>y. EXTRACT16 (SATURATE (PSHR32 y 15) 32767));
          ys \<leftarrow> qmf_synth_loop a xx1 xx2 N2 M2 is';
          Some (out y0 # out y1 # out y2 # out y3 # ys) }"

text \<open>Every other cell of a memory.\<close>

fun odd_cells :: "int list \<Rightarrow> nat \<Rightarrow> int list option" where
  "odd_cells mem 0 = Some []"
| "odd_cells mem (Suc n) = do { vs \<leftarrow> odd_cells mem n; v \<leftarrow> mem_get mem (2 * n + 1); Some (vs @ [v]) }"

fun set_odd_cells :: "int list \<Rightarrow> int list \<Rightarrow> nat \<Rightarrow> int list option" where
  "set_odd_cells mem xx 0 = Some mem"
| "set_odd_cells mem xx (Suc n) =
     do { mem \<leftarrow> set_odd_cells mem xx n; v \<leftarrow> mem_get xx n; mem_put mem (2 * n + 1) v }"

definition qmf_synth ::
  "int list \<Rightarrow> int list \<Rightarrow> int list \<Rightarrow> nat \<Rightarrow> nat \<Rightarrow> int list \<Rightarrow> int list \<Rightarrow> (int list \<times> int list \<times> int list) option" where
  "qmf_synth x1 x2 a N M mem1 mem2 =
     do { let M2 = M div 2;
          let N2 = N div 2;
          x1 \<leftarrow> mem_read x1 0 N2;
          m1 \<leftarrow> odd_cells mem1 M2;
          x2 \<leftarrow> mem_read x2 0 N2;
          m2 \<leftarrow> odd_cells mem2 M2;
          let xx1 = rev x1 @ m1;
          let xx2 = rev x2 @ m2;
          y \<leftarrow> qmf_synth_loop a xx1 xx2 N2 M2 (map (\<lambda>i. 2 * i) [0..<(N2 + 1) div 2]);
          mem1 \<leftarrow> set_odd_cells mem1 xx1 M2;
          mem2 \<leftarrow> set_odd_cells mem2 xx2 M2;
          Some (y, mem1, mem2) }"

subsection \<open>The comb filter\<close>

definition shift_filt :: "int list list" where
  "shift_filt =
     [[-390, 1540, -4993, 20123, 20123, -4993, 1540],
      [-1064, 2817, -6694, 31589, 6837, -990, -209],
      [-209, -990, 6837, 31589, -6694, 2817, -1064]]"

text \<open>Correlations with the signal a pitch period ago, at seven whole lags and their neighbours at fractions.\<close>

fun lag_products :: "int list \<Rightarrow> int \<Rightarrow> int \<Rightarrow> nat \<Rightarrow> nat \<Rightarrow> int list option" where
  "lag_products buf pos pitch len 0 = Some []"
| "lag_products buf pos pitch len (Suc i) =
     do { cs \<leftarrow> lag_products buf pos pitch len i;
          x \<leftarrow> cells buf pos len;
          y \<leftarrow> cells buf (pos - pitch - 3 + int i) len;
          c \<leftarrow> inner_prod x y len;
          Some (cs @ [c]) }"

definition fraction_corr :: "int list \<Rightarrow> nat \<Rightarrow> nat \<Rightarrow> int" where
  "fraction_corr corr0 i j =
     foldl (\<lambda>tmp k. i32 (tmp + MULT16_32_Q15 (shift_filt ! i ! k) (corr0 ! (j + k - 3)))) 0 [3 - j..<min (10 - j) 7]"

definition best_lag :: "int list list \<Rightarrow> int \<times> nat \<times> nat" where
  "best_lag corr =
     foldl (\<lambda>(maxcorr, maxi, maxj) (i, j). if corr ! i ! j > maxcorr then (corr ! i ! j, i, j) else (maxcorr, maxi, maxj))
       (corr ! 0 ! 0, 0, 0) (List.product [0..<4] [0..<7])"

definition seven_taps :: "int list \<Rightarrow> int list \<Rightarrow> int" where
  "seven_taps vs fs = foldl (\<lambda>tmp (v, f). i32 (tmp + MULT16_16 v f)) 0 (zip vs fs)"

fun interp_loop :: "int list \<Rightarrow> int \<Rightarrow> int \<Rightarrow> nat \<Rightarrow> nat \<Rightarrow> nat \<Rightarrow> int list option" where
  "interp_loop buf pos pitch maxi maxj 0 = Some []"
| "interp_loop buf pos pitch maxi maxj (Suc i) =
     do { vs \<leftarrow> interp_loop buf pos pitch maxi maxj i;
          let at = pos + int i - (pitch - int maxj + 3);
          tmp \<leftarrow> (if maxi > 0 then do { w \<leftarrow> cells buf (at - 3) 7; Some (seven_taps w (shift_filt ! (maxi - 1))) }
                  else do { v \<leftarrow> cell buf at; Some (SHL32 v 15) });
          Some (vs @ [i16 (PSHR32 tmp 15)]) }"

definition interp_pitch :: "int list \<Rightarrow> int \<Rightarrow> int \<Rightarrow> nat \<Rightarrow> (int list \<times> int) option" where
  "interp_pitch buf pos pitch len =
     do { corr0 \<leftarrow> lag_products buf pos pitch len 7;
          let corr = corr0 # map (\<lambda>i. map (\<lambda>j. fraction_corr corr0 i j) [0..<7]) [0..<3];
          let (maxcorr, maxi, maxj) = best_lag corr;
          interp \<leftarrow> interp_loop buf pos pitch maxi maxj len;
          Some (interp, pitch - int maxj + 3) }"

definition comb_pgain :: "int \<Rightarrow> int \<Rightarrow> int \<Rightarrow> int option" where
  "comb_pgain corr iexc_mag exc_mag =
     (if corr > MULT16_16 iexc_mag exc_mag then Some 16384
      else do { q \<leftarrow> PDIV32 corr exc_mag; PDIV32_16 (SHL32 q 14) iexc_mag })"

definition comb_share :: "int \<Rightarrow> int \<Rightarrow> int \<Rightarrow> int option" where
  "comb_share c1 c2 pgain =
     (let g = i16 (32767 - MULT16_16_Q13 (MULT16_16_Q15 c2 pgain) pgain);
          g = (if g < c1 then c1 else g)
      in PDIV32_16 (SHL32 c1 14) g)"

text \<open>The gains of the two delayed signals \<open>ia\<close> and \<open>ib\<close>.\<close>

definition comb_gains :: "int list \<Rightarrow> int list \<Rightarrow> int list \<Rightarrow> nat \<Rightarrow> int \<Rightarrow> int \<Rightarrow> int \<Rightarrow> (int \<times> int) option" where
  "comb_gains ia ib exc nsf pitch max_pitch comb_gain =
     do { e0 \<leftarrow> inner_prod ia ia nsf;
          e1 \<leftarrow> inner_prod ib ib nsf;
          e \<leftarrow> inner_prod exc exc nsf;
          let iexc0_mag = spx_sqrt (i32 (1000 + e0));
          let iexc1_mag = spx_sqrt (i32 (1000 + e1));
          let exc_mag = spx_sqrt (i32 (1 + e));
          corr0 \<leftarrow> inner_prod ia exc nsf;
          let corr0 = (if corr0 < 0 then 0 else corr0);
          corr1 \<leftarrow> inner_prod ib exc nsf;
          let corr1 = (if corr1 < 0 then 0 else corr1);
          let iexc0_mag = (if SHL32 iexc0_mag 6 < exc_mag then ADD16 1 (PSHR16 exc_mag 6) else iexc0_mag);
          let iexc1_mag = (if SHL32 iexc1_mag 6 < exc_mag then ADD16 1 (PSHR16 exc_mag 6) else iexc1_mag);
          pgain1 \<leftarrow> comb_pgain corr0 iexc0_mag exc_mag;
          pgain2 \<leftarrow> comb_pgain corr1 iexc1_mag exc_mag;
          gg1 \<leftarrow> PDIV32_16 (SHL32 exc_mag 8) iexc0_mag;
          gg2 \<leftarrow> PDIV32_16 (SHL32 exc_mag 8) iexc1_mag;
          let c1 = (if comb_gain > 0 then i16 (MULT16_16_Q15 13107 comb_gain + 2294) else 0);
          let c2 = (if comb_gain > 0 then i16 (16384 + MULT16_16_Q14 28180 (c1 - 2294)) else 0);
          g1 \<leftarrow> comb_share c1 c2 pgain1;
          g2 \<leftarrow> comb_share c1 c2 pgain2;
          Some (i16 (MULT16_16_Q15 (if pitch > max_pitch then 22938 else 19661) (MULT16_16_Q14 g1 gg1)),
                i16 (MULT16_16_Q15 (if pitch > max_pitch then 9830 else 19661) (MULT16_16_Q14 g2 gg2))) }"

text \<open>The enhanced excitation gets no more energy than the excitation has.\<close>

definition comb_level :: "int list \<Rightarrow> int list \<Rightarrow> nat \<Rightarrow> int list option" where
  "comb_level exc new_exc nsf =
     do { new_ener \<leftarrow> compute_rms16 new_exc nsf;
          old_ener \<leftarrow> compute_rms16 exc nsf;
          let old_ener = (if old_ener < 1 then 1 else old_ener);
          let new_ener = (if new_ener < 1 then 1 else new_ener);
          let old_ener = (if old_ener > new_ener then new_ener else old_ener);
          ngain \<leftarrow> PDIV32_16 (SHL32 old_ener 14) new_ener;
          Some (map (\<lambda>v. i16 (MULT16_16_Q14 ngain v)) new_exc) }"

text \<open>
  The buffer, whose samples lose their lowest bit when they have to be scaled down, and the enhanced excitation. The LPC
  coefficients that the code passes are not used.
\<close>

definition multicomb :: "int list \<Rightarrow> int \<Rightarrow> nat \<Rightarrow> int \<Rightarrow> int \<Rightarrow> int \<Rightarrow> (int list \<times> int list) option" where
  "multicomb buf pos nsf pitch max_pitch comb_gain =
     do { (iexc0, p0) \<leftarrow> interp_pitch buf pos pitch 80;
          (iexc1, p1) \<leftarrow> interp_pitch buf pos (if pitch > max_pitch then 2 * pitch else - pitch) 80;
          iexc \<leftarrow> mem_write (replicate (2 * nsf) 0) 0 iexc0;
          iexc \<leftarrow> mem_write iexc nsf iexc1;
          exc \<leftarrow> cells buf pos nsf;
          let scaledown = list_ex (\<lambda>v. ABS16 v > 16383) exc;
          let exc = (if scaledown then map (\<lambda>v. SHR16 v 1) exc else exc);
          let iexc = (if scaledown then map (\<lambda>v. SHR16 v 1) iexc else iexc);
          (gain0, gain1) \<leftarrow> comb_gains (take nsf iexc) (drop nsf iexc) exc nsf pitch max_pitch comb_gain;
          let new_exc = map (\<lambda>(v, a, b). ADD16 v (EXTRACT16 (PSHR32 (ADD32 (MULT16_16 gain0 a) (MULT16_16 gain1 b)) 8)))
                          (zip exc (zip (take nsf iexc) (drop nsf iexc)));
          new_exc \<leftarrow> comb_level exc new_exc nsf;
          let exc = (if scaledown then map (\<lambda>v. i16 (SHL16 v 1)) exc else exc);
          let new_exc = (if scaledown then map (\<lambda>v. i16 (SHL16 (SATURATE v 16383) 1)) new_exc else new_exc);
          buf \<leftarrow> set_cells buf pos exc;
          Some (buf, new_exc) }"

subsection \<open>Blocks of samples and of words\<close>

definition samples :: "nat \<Rightarrow> int list \<Rightarrow> bool" where
  "samples n xs \<longleftrightarrow> length xs = n \<and> (\<forall>v \<in> set xs. is_i16 v)"

definition word_block :: "nat \<Rightarrow> int list \<Rightarrow> bool" where
  "word_block n xs \<longleftrightarrow> length xs = n \<and> (\<forall>v \<in> set xs. is_i32 v)"

lemma samples_length: "samples n xs \<Longrightarrow> length xs = n"
  by (simp add: samples_def)

lemma word_block_length: "word_block n xs \<Longrightarrow> length xs = n"
  by (simp add: word_block_def)

lemma samples_nth: "samples n xs \<Longrightarrow> i < n \<Longrightarrow> is_i16 (xs ! i)"
  by (simp add: samples_def)

lemma samples_take: "samples n xs \<Longrightarrow> m \<le> n \<Longrightarrow> samples m (take m xs)"
  by (auto simp: samples_def dest: in_set_takeD)

lemma samples_drop: "samples n xs \<Longrightarrow> samples (n - m) (drop m xs)"
  by (auto simp: samples_def dest: in_set_dropD)

lemma samples_append: "samples n xs \<Longrightarrow> samples m ys \<Longrightarrow> samples (n + m) (xs @ ys)"
  by (auto simp: samples_def)

lemma samples_Cons: "is_i16 x \<Longrightarrow> samples n xs \<Longrightarrow> samples (Suc n) (x # xs)"
  by (simp add: samples_def)

lemma samples_replicate_0: "samples n (replicate n 0)"
  by (simp add: samples_def is_i16_def)

lemma cells_samples:
  assumes "samples n buf" and "0 \<le> k" and "k + int m \<le> int n"
  shows "\<exists>vs. cells buf k m = Some vs \<and> samples m vs"
proof -
  have "samples (n - nat k) (drop (nat k) buf)" using assms(1) by (rule samples_drop)
  then have "samples m (take m (drop (nat k) buf))" by (rule samples_take) (use assms in linarith)
  then show ?thesis using assms cells_Some [of k m buf] by (simp add: samples_length)
qed

lemma cells_length: "cells buf k m = Some vs \<Longrightarrow> length vs = m"
  by (auto simp: cells_def mem_read_def split: if_splits)

lemma set_cells_samples:
  assumes "samples n buf" and "samples m vs" and "0 \<le> k" and "k + int m \<le> int n"
  shows "\<exists>buf'. set_cells buf k vs = Some buf' \<and> samples n buf'"
proof -
  have "samples (nat k) (take (nat k) buf)" by (rule samples_take [OF assms(1)]) (use assms in linarith)
  moreover have "samples (n - (nat k + m)) (drop (nat k + m) buf)" by (rule samples_drop [OF assms(1)])
  ultimately have "samples (nat k + (m + (n - (nat k + m)))) (take (nat k) buf @ vs @ drop (nat k + m) buf)"
    by (intro samples_append assms(2))
  moreover have "nat k + (m + (n - (nat k + m))) = n" using assms(3,4) by linarith
  ultimately show ?thesis using set_cells_Some [of k vs buf] assms by (simp add: samples_length)
qed

subsection \<open>The filters are total and saturate\<close>

lemma is_i16_filter_out [simp, int_ranges]: "is_i16 (filter_out x m)"
  by (simp add: filter_out_def)

lemma bw_lpc_total:
  assumes "order \<le> length lpc"
  shows "\<exists>out. bw_lpc gamma lpc order = Some out \<and> samples order out"
proof -
  have "samples (length ls) (bw_lpc_loop gamma tmp ls)" for ls tmp
    by (induction ls arbitrary: tmp) (auto simp: samples_def)
  from this [of "take order lpc"] show ?thesis using assms by (simp add: bw_lpc_def mem_simps min_absorb2)
qed

lemma highpass_total: "\<exists>ys mem'. highpass x filtID mem = Some (ys, mem') \<and> samples (length x) ys"
proof -
  have loop: "samples (length x) (fst (highpass_loop den num x mem))" for den num x mem
    by (induction den num x mem rule: highpass_loop.induct) (auto simp: samples_def Let_def split: prod.split)
  have "(if filtID > 4 then 4 else filtID) < 5" by simp
  then obtain den num where "mem_get Pcoef (if filtID > 4 then 4 else filtID) = Some den"
    "mem_get Zcoef (if filtID > 4 then 4 else filtID) = Some num" by (simp add: mem_simps Pcoef_def Zcoef_def)
  then show ?thesis using loop [of x den num mem] by (cases "highpass_loop den num x mem") (simp add: highpass_def)
qed

lemma word_block_steps:
  assumes "\<And>t. is_i32 (f t)" and "is_i32 z" and "Suc (length ts) = n"
  shows "word_block n (map f ts @ [z])"
  using assms by (auto simp: word_block_def)

lemma iir_loop_shape:
  assumes "word_block ord mem" and "length den = ord" and "0 < ord"
  shows "samples (length xs) (fst (iir_mem16_loop den xs mem)) \<and> word_block ord (snd (iir_mem16_loop den xs mem))"
  using assms(1)
proof (induction xs arbitrary: mem)
  case (Cons xi xs)
  let ?nyi = "i16 (- filter_out xi (hd mem))"
  let ?mem = "map (\<lambda>(m, d). MAC16_16 m d ?nyi) (zip (tl mem) (butlast den)) @ [MULT16_16 (last den) ?nyi]"
  have "word_block ord ?mem"
    by (rule word_block_steps) (use Cons.prems assms in \<open>simp_all add: word_block_length split_def\<close>)
  note ih = Cons.IH [OF this]
  have "iir_mem16_loop den (xi # xs) mem =
      (filter_out xi (hd mem) # fst (iir_mem16_loop den xs ?mem), snd (iir_mem16_loop den xs ?mem))"
    by (simp only: iir_mem16_loop.simps Let_def case_prod_beta)
  then show ?case
    using samples_Cons [OF is_i16_filter_out conjunct1 [OF ih]] conjunct2 [OF ih] by (simp only: fst_conv snd_conv length_Cons simp_thms)
qed (simp add: samples_def)

lemma filter_loop_shape:
  assumes "word_block ord mem" and "length den = ord" and "length num = ord" and "0 < ord"
  shows "samples (length xs) (fst (filter_mem16_loop num den xs mem)) \<and> word_block ord (snd (filter_mem16_loop num den xs mem))"
  using assms(1)
proof (induction xs arbitrary: mem)
  case (Cons xi xs)
  let ?nyi = "i16 (- filter_out xi (hd mem))"
  let ?mem = "map (\<lambda>(m, n, d). MAC16_16 (MAC16_16 m n xi) d ?nyi) (zip (tl mem) (zip (butlast num) (butlast den)))
                  @ [ADD32 (MULT16_16 (last num) xi) (MULT16_16 (last den) ?nyi)]"
  have "word_block ord ?mem"
    by (rule word_block_steps) (use Cons.prems assms in \<open>simp_all add: word_block_length split_def\<close>)
  note ih = Cons.IH [OF this]
  have "filter_mem16_loop num den (xi # xs) mem =
      (filter_out xi (hd mem) # fst (filter_mem16_loop num den xs ?mem), snd (filter_mem16_loop num den xs ?mem))"
    by (simp only: filter_mem16_loop.simps Let_def case_prod_beta)
  then show ?case
    using samples_Cons [OF is_i16_filter_out conjunct1 [OF ih]] conjunct2 [OF ih] by (simp only: fst_conv snd_conv length_Cons simp_thms)
qed (simp add: samples_def)

lemma fir_loop_shape:
  assumes "word_block ord mem" and "length num = ord" and "0 < ord"
  shows "samples (length xs) (fst (fir_mem16_loop num xs mem)) \<and> word_block ord (snd (fir_mem16_loop num xs mem))"
  using assms(1)
proof (induction xs arbitrary: mem)
  case (Cons xi xs)
  let ?mem = "map (\<lambda>(m, n). MAC16_16 m n xi) (zip (tl mem) (butlast num)) @ [MULT16_16 (last num) xi]"
  have "word_block ord ?mem"
    by (rule word_block_steps) (use Cons.prems assms in \<open>simp_all add: word_block_length split_def\<close>)
  note ih = Cons.IH [OF this]
  have "fir_mem16_loop num (xi # xs) mem =
      (filter_out xi (hd mem) # fst (fir_mem16_loop num xs ?mem), snd (fir_mem16_loop num xs ?mem))"
    by (simp only: fir_mem16_loop.simps Let_def case_prod_beta)
  then show ?case
    using samples_Cons [OF is_i16_filter_out conjunct1 [OF ih]] conjunct2 [OF ih] by (simp only: fst_conv snd_conv length_Cons simp_thms)
qed (simp add: samples_def)

lemma word_block_take: "word_block n xs \<Longrightarrow> m \<le> n \<Longrightarrow> word_block m (take m xs)"
  by (auto simp: word_block_def dest: in_set_takeD)

lemma word_block_zero: "word_block n (replicate n 0)"
  by (simp add: word_block_def is_i32_def)

lemma iir_mem16_total:
  assumes "0 < ord" and "ord \<le> length den" and "word_block ord mem"
  shows "\<exists>ys mem'. iir_mem16 x den ord mem = Some (ys, mem') \<and> samples (length x) ys \<and> word_block ord mem'"
  using iir_loop_shape [OF assms(3), of "take ord den" x] assms
  by (cases "iir_mem16_loop (take ord den) x mem") (simp add: iir_mem16_def mem_simps word_block_length)

lemma filter_mem16_total:
  assumes "0 < ord" and "ord \<le> length num" and "ord \<le> length den" and "word_block ord mem"
  shows "\<exists>ys mem'. filter_mem16 x num den ord mem = Some (ys, mem') \<and> samples (length x) ys \<and> word_block ord mem'"
  using filter_loop_shape [OF assms(4), of "take ord den" "take ord num" x] assms
  by (cases "filter_mem16_loop (take ord num) (take ord den) x mem") (simp add: filter_mem16_def mem_simps word_block_length)

lemma fir_mem16_total:
  assumes "0 < ord" and "ord \<le> length num" and "word_block ord mem"
  shows "\<exists>ys mem'. fir_mem16 x num ord mem = Some (ys, mem') \<and> samples (length x) ys \<and> word_block ord mem'"
  using fir_loop_shape [OF assms(3), of "take ord num" x] assms
  by (cases "fir_mem16_loop (take ord num) x mem") (simp add: fir_mem16_def mem_simps word_block_length)

lemma percep_filters_total:
  assumes "0 < ord" and "ord \<le> length ak" and "ord \<le> length awk1" and "ord \<le> length awk2"
  shows "\<exists>y. syn_percep_zero16 xx ak awk1 awk2 ord = Some y \<and> samples (length xx) y"
    and "\<exists>y. residue_percep_zero16 xx ak awk1 awk2 ord = Some y \<and> samples (length xx) y"
proof -
  obtain y m where 1: "iir_mem16 xx ak ord (replicate ord 0) = Some (y, m)" "samples (length xx) y"
    using iir_mem16_total [OF assms(1,2) word_block_zero] by blast
  obtain z k where "filter_mem16 y awk1 awk2 ord (replicate ord 0) = Some (z, k)" "samples (length y) z"
    using filter_mem16_total [OF assms(1,3,4) word_block_zero] by blast
  then show "\<exists>y. syn_percep_zero16 xx ak awk1 awk2 ord = Some y \<and> samples (length xx) y"
    using 1 by (simp add: syn_percep_zero16_def samples_length)
  obtain y m where 1: "filter_mem16 xx ak awk1 ord (replicate ord 0) = Some (y, m)" "samples (length xx) y"
    using filter_mem16_total [OF assms(1,2,3) word_block_zero] by blast
  obtain z k where "fir_mem16 y awk2 ord (replicate ord 0) = Some (z, k)" "samples (length y) z"
    using fir_mem16_total [OF assms(1,4) word_block_zero] by blast
  then show "\<exists>y. residue_percep_zero16 xx ak awk1 awk2 ord = Some y \<and> samples (length xx) y"
    using 1 by (simp add: residue_percep_zero16_def samples_length)
qed

subsection \<open>Energies\<close>

lemma scale_shift_total: "0 \<le> limit \<Longrightarrow> \<exists>s. scale_shift limit max_val k = Some s"
proof (induction "nat max_val" arbitrary: max_val k rule: less_induct)
  case less
  show ?case
  proof (cases "max_val > limit")
    case True
    then have "nat (asr max_val 1) < nat max_val" using less.prems by (simp add: asr_def)
    then show ?thesis using less.hyps less.prems True by (simp add: scale_shift.simps [of limit max_val])
  qed (simp add: scale_shift.simps [of limit max_val])
qed

lemma is_i32_sum_fours [simp]: "is_i32 acc \<Longrightarrow> is_i32 (sum_fours ps acc)"
  by (induction ps acc rule: sum_fours.induct) simp_all

lemma inner_prod_total:
  assumes "n \<le> length x" and "n \<le> length y"
  shows "\<exists>r. inner_prod x y n = Some r \<and> is_i32 r"
proof -
  have "4 * (n div 4) \<le> n" "is_i32 0" by (simp_all add: is_i32_def)
  then show ?thesis using assms by (simp add: inner_prod_def mem_simps Let_def)
qed

text \<open>The energy of a block whose samples are at most half of full scale is exact up to the shifts, and does not wrap around.\<close>

lemma sum_fours_squares:
  assumes "length xs = 4 * n" and "\<forall>v \<in> set xs. \<bar>v\<bar> \<le> 16384" and "0 \<le> acc" and "acc + 16777216 * int n \<le> 2147483647"
  shows "acc \<le> sum_fours (zip xs xs) acc \<and> sum_fours (zip xs xs) acc \<le> acc + 16777216 * int n"
  using assms
proof (induction n arbitrary: xs acc)
  case (Suc n)
  then have "length xs = Suc (Suc (Suc (Suc (4 * n))))" by simp
  then obtain a b c d ys where xs: "xs = a # b # c # d # ys" by (auto simp: length_Suc_conv)
  let ?s = "MAC16_16 (MAC16_16 (MAC16_16 (MAC16_16 0 a a) b b) c c) d d"
  have sq: "\<exists>w. v * v = w \<and> 0 \<le> w \<and> w \<le> 268435456" if "\<bar>v\<bar> \<le> 16384" for v :: int
    using abs_mult_le [OF that that] by (simp add: abs_le_iff)
  obtain A B C D where sq: "a * a = A" "b * b = B" "c * c = C" "d * d = D"
    and A: "0 \<le> A" "A \<le> 268435456" and B: "0 \<le> B" "B \<le> 268435456" and C: "0 \<le> C" "C \<le> 268435456" and D: "0 \<le> D" "D \<le> 268435456"
    using sq [of a] sq [of b] sq [of c] sq [of d] Suc.prems(2) xs by auto
  have "is_i16 a" "is_i16 b" "is_i16 c" "is_i16 d" using Suc.prems(2) xs by (auto simp: is_i16_def abs_le_iff)
  then have "?s = A + B + C + D" using A B C D by (simp add: MAC16_16_def MULT16_16_exact ADD32_def is_i32_def sq)
  then have "0 \<le> ?s \<and> ?s \<le> 1073741824" using A B C D by simp
  then have s: "0 \<le> SHR32 ?s 6 \<and> SHR32 ?s 6 \<le> 16777216" unfolding SHR32_def by (intro asr_bounds) simp_all
  then have "ADD32 acc (SHR32 ?s 6) = acc + SHR32 ?s 6" using Suc.prems(3,4) by (simp add: ADD32_i32 is_i32_def)
  moreover have "acc + SHR32 ?s 6 \<le> sum_fours (zip ys ys) (acc + SHR32 ?s 6) \<and>
      sum_fours (zip ys ys) (acc + SHR32 ?s 6) \<le> acc + SHR32 ?s 6 + 16777216 * int n"
    using Suc.prems xs s by (intro Suc.IH) auto
  ultimately show ?case using xs s by (simp add: algebra_simps)
qed simp

lemma inner_prod_energy:
  assumes "length xs = 80" and "\<forall>v \<in> set xs. \<bar>v\<bar> \<le> 16384"
  shows "\<exists>r. inner_prod xs xs 80 = Some r \<and> 0 \<le> r \<and> r \<le> 335544320"
proof -
  have "0 \<le> sum_fours (zip xs xs) 0 \<and> sum_fours (zip xs xs) 0 \<le> 0 + 16777216 * int 20"
    by (rule sum_fours_squares) (use assms in simp_all)
  then show ?thesis using assms by (simp add: inner_prod_def mem_simps)
qed

text \<open>An effective level is a word, and never the -1 that would make a divisor zero.\<close>

lemma rms_level_total:
  assumes "0 < len" and "len < 2147483648"
  shows "\<exists>r. rms_level ts len up = Some r \<and> is_i16 r \<and> r \<noteq> -1"
proof -
  have "is_i32 (int len)" "int len \<noteq> 0" using assms by (simp_all add: is_i32_def)
  then obtain q where q: "DIV32 (sum_fours (zip ts ts) 0) (int len) = Some q" "is_i32 q" by (simp add: DIV32_def)
  have "i16 (SHL16 (spx_sqrt q) up) \<noteq> -1"
  proof (cases up)
    case 0
    have "is_i16 (spx_sqrt q)" by (simp add: spx_sqrt_def Let_def)
    then show ?thesis using 0 spx_sqrt_not_minus_one [OF q(2)] by (simp add: SHL16_def is_i16_imp_i32)
  next
    case (Suc n)
    have "even (i16 (SHL16 (spx_sqrt q) (Suc n)))" using even_wrapped by (simp add: SHL16_def SHL32_def)
    then show ?thesis using Suc by auto
  qed
  then show ?thesis using q by (simp add: rms_level_def)
qed

lemma compute_rms16_total:
  assumes "0 < len" and "len < 2147483648" and "whole_fours len \<le> length x"
  shows "\<exists>r. compute_rms16 x len = Some r \<and> is_i16 r \<and> r \<noteq> -1"
proof -
  have "len \<le> whole_fours len" by (simp add: whole_fours_def)
  then show ?thesis using assms rms_level_total [OF assms(1,2)] by (simp add: compute_rms16_def mem_simps Let_def)
qed

lemma compute_rms_total:
  assumes "0 < len" and "len < 2147483648" and "whole_fours len \<le> length x"
  shows "\<exists>r. compute_rms x len = Some r \<and> is_i16 r"
proof -
  have "len \<le> whole_fours len" by (simp add: whole_fours_def)
  then obtain s where "scale_shift 16383 (max_magnitude i32 1 (take len x)) 0 = Some s" using scale_shift_total [of 16383] by fastforce
  moreover have "is_i32 (int len)" "int len \<noteq> 0" using assms by (simp_all add: is_i32_def)
  ultimately show ?thesis using assms \<open>len \<le> whole_fours len\<close> by (simp add: compute_rms_def mem_simps DIV32_def Let_def)
qed

lemma normalize16_total:
  assumes "0 \<le> max_scale"
  shows "\<exists>s y. normalize16 x max_scale = Some (s, y) \<and> samples (length x) y"
proof -
  obtain s where "scale_shift max_scale
      (foldl (\<lambda>max_val v. let tmp = (if v < 0 then i32 (- v) else v) in if tmp \<ge> max_val then tmp else max_val) 1 x) 0 = Some s"
    using scale_shift_total [OF assms] by blast
  then show ?thesis unfolding normalize16_def by (simp add: samples_def)
qed

text \<open>The divisor is 16 bits wide, so the scale must stay below 2^29.\<close>

lemma signal_div_total:
  assumes "is_i32 scale" and "scale \<le> 500000000"
  shows "\<exists>y. signal_div x scale = Some y"
proof -
  have p: "PSHR32 scale 14 = (scale + 8192) div 16384" "PSHR32 scale 9 = (scale + 256) div 512" "PSHR32 scale 7 = (scale + 64) div 128"
    using assms by (simp_all add: PSHR32_def SHR32_def asr_def shl_def is_i32_def)
  consider "scale > 4194304" | "4096 < scale" "scale \<le> 4194304" | "scale \<le> 4096" by linarith
  then show ?thesis
  proof cases
    case 1
    have "256 \<le> PSHR32 scale 14" "PSHR32 scale 14 \<le> 32767" unfolding p using 1 assms(2) by linarith+
    then show ?thesis using 1 by (simp add: signal_div_def SHL32_def shl_def is_i32_def PDIV32_16_def is_i16_def)
  next
    case 2
    have "8 \<le> PSHR32 scale 9" "PSHR32 scale 9 \<le> 8192" unfolding p using 2 by linarith+
    then show ?thesis using 2 by (simp add: signal_div_def SHL32_def shl_def is_i32_def SHR32_def asr_def DIV32_16_def is_i16_def)
  next
    case 3
    have "PSHR32 scale 7 \<le> 32" unfolding p using 3 by linarith
    then show ?thesis using 3 by (simp add: signal_div_def SHL32_def shl_def is_i32_def SHR32_def asr_def DIV32_16_def is_i16_def Let_def)
  qed
qed

subsection \<open>The comb filter stays inside the excitation\<close>

lemma lag_products_total:
  assumes "samples n buf" and "0 \<le> pos" and "pos + int len \<le> int n" and "0 \<le> pos - pitch - 3" and "pos - pitch - 3 + int m + int len \<le> int n + 1"
  shows "\<exists>cs. lag_products buf pos pitch len m = Some cs \<and> length cs = m"
  using assms(5)
proof (induction m)
  case (Suc m)
  then obtain cs where cs: "lag_products buf pos pitch len m = Some cs" "length cs = m" by auto
  obtain x where x: "cells buf pos len = Some x" "samples len x" using cells_samples [OF assms(1,2,3)] by blast
  obtain y where y: "cells buf (pos - pitch - 3 + int m) len = Some y" "samples len y"
    using cells_samples [OF assms(1), of "pos - pitch - 3 + int m" len] Suc.prems assms(4) by auto
  obtain c where "inner_prod x y len = Some c" using inner_prod_total [of len x y] x y by (auto simp: samples_length)
  then show ?case using cs x y by simp
qed simp

lemma best_lag_range:
  assumes "best_lag corr = (c, maxi, maxj)"
  shows "maxi < 4 \<and> maxj < 7"
proof -
  have "fst (snd (foldl (\<lambda>(maxcorr, maxi, maxj) (i, j). if corr ! i ! j > maxcorr then (corr ! i ! j, i, j) else (maxcorr, maxi, maxj)) s ps)) < (4 :: nat) \<and>
      snd (snd (foldl (\<lambda>(maxcorr, maxi, maxj) (i, j). if corr ! i ! j > maxcorr then (corr ! i ! j, i, j) else (maxcorr, maxi, maxj)) s ps)) < (7 :: nat)"
    if "fst (snd s) < 4 \<and> snd (snd s) < 7" "\<forall>(i, j) \<in> set ps. i < 4 \<and> j < 7" for s ps
    using that
  proof (induction ps arbitrary: s)
    case (Cons p ps)
    obtain m a b where s: "s = (m, a, b)" by (metis prod.collapse)
    obtain i j where p: "p = (i, j)" by fastforce
    show ?case unfolding s p foldl_Cons prod.case by (rule Cons.IH) (use Cons.prems s p in auto)
  qed simp
  from this [of "(corr ! 0 ! 0, 0, 0)" "List.product [0..<4] [0..<7]"] show ?thesis using assms by (auto simp: best_lag_def)
qed

lemma interp_loop_total:
  assumes "samples n buf" and "maxj < 7" and "0 \<le> pos - pitch - 6" and "pos + int m - pitch + 6 \<le> int n"
  shows "\<exists>vs. interp_loop buf pos pitch maxi maxj m = Some vs \<and> samples m vs"
  using assms(4)
proof (induction m)
  case (Suc m)
  then obtain vs where vs: "interp_loop buf pos pitch maxi maxj m = Some vs" "samples m vs" by auto
  let ?at = "pos + int m - (pitch - int maxj + 3)"
  obtain w where "cells buf (?at - 3) 7 = Some w" using cells_samples [OF assms(1), of "?at - 3" 7] assms(2,3) Suc.prems by auto
  moreover obtain v where "cell buf ?at = Some v"
    using cell_Some [of ?at buf] assms(2,3) Suc.prems samples_length [OF assms(1)] by auto
  ultimately show ?case using vs by (cases "maxi > 0") (auto simp: samples_def Let_def)
qed (simp add: samples_def)

lemma interp_pitch_total:
  assumes "samples n buf" and "0 \<le> pos" and "pos + int len \<le> int n" and "0 \<le> pos - pitch - 6" and "pos + int len - pitch + 6 \<le> int n"
  shows "\<exists>vs p. interp_pitch buf pos pitch len = Some (vs, p) \<and> samples len vs"
proof -
  obtain cs where cs: "lag_products buf pos pitch len 7 = Some cs"
    using lag_products_total [OF assms(1,2,3), of pitch 7] assms(4,5) by auto
  obtain c maxi maxj where b: "best_lag (cs # map (\<lambda>i. map (\<lambda>j. fraction_corr cs i j) [0..<7]) [0..<3]) = (c, maxi, maxj)"
    by (metis prod.collapse)
  obtain vs where "interp_loop buf pos pitch maxi maxj len = Some vs" "samples len vs"
    using interp_loop_total [OF assms(1) _ assms(4,5)] best_lag_range [OF b] by blast
  then show ?thesis using cs b by (simp add: interp_pitch_def Let_def)
qed

text \<open>The divisors are not zero, whatever the correlations are.\<close>

lemma PDIV32_nonzero: "is_i16 b \<Longrightarrow> b \<noteq> 0 \<Longrightarrow> \<exists>q. PDIV32 a b = Some q"
  by (simp add: PDIV32_def is_i16_imp_i32)

lemma PDIV32_16_nonzero: "is_i16 b \<Longrightarrow> b \<noteq> 0 \<Longrightarrow> \<exists>q. PDIV32_16 a b = Some q \<and> is_i16 q"
  by (simp add: PDIV32_16_def)

lemma comb_pgain_total: "is_i16 a \<Longrightarrow> 0 < a \<Longrightarrow> is_i16 e \<Longrightarrow> 0 < e \<Longrightarrow> \<exists>g. comb_pgain corr a e = Some g"
  using PDIV32_nonzero [of e corr] PDIV32_16_nonzero [of a] by (fastforce simp: comb_pgain_def)

lemma comb_share_total:
  assumes "0 < c1 \<and> is_i16 c1 \<or> c1 = 0 \<and> c2 = 0"
  shows "\<exists>g. comb_share c1 c2 p = Some g"
proof -
  let ?g = "i16 (32767 - MULT16_16_Q13 (MULT16_16_Q15 c2 p) p)"
  have "?g = 32767" if "c2 = 0"
    using that by (simp add: MULT16_16_Q13_def MULT16_16_Q15_def MULT16_16_def SHR32_def asr_def is_i16_def)
  then have "is_i16 (if ?g < c1 then c1 else ?g) \<and> (if ?g < c1 then c1 else ?g) \<noteq> 0" using assms by auto
  then show ?thesis using PDIV32_16_nonzero by (fastforce simp: comb_share_def Let_def)
qed

text \<open>The magnitude of the excitation, with the limit that the code puts on the ratio of the two.\<close>

lemma comb_magnitude:
  assumes e: "1 \<le> e" "e \<le> 22701" and a: "is_i16 a"
  shows "0 < (if SHL32 a 6 < e then ADD16 1 (PSHR16 e 6) else a) \<and> is_i16 (if SHL32 a 6 < e then ADD16 1 (PSHR16 e 6) else a)"
proof -
  have "PSHR16 e 6 = (e + 32) div 64" using e by (simp add: PSHR16_def SHR16_def asr_def shl_def is_i32_def)
  moreover have "0 \<le> (e + 32) div 64 \<and> (e + 32) div 64 \<le> 355" using e by linarith
  ultimately have "0 < ADD16 1 (PSHR16 e 6)" by (simp add: ADD16_def is_i16_def)
  moreover have "SHL32 a 6 = a * 64" using a by (simp add: SHL32_def shl_def is_i32_def is_i16_def)
  ultimately show ?thesis using e a by auto
qed


lemma is_i16_spx_sqrt [simp]: "is_i16 (spx_sqrt x)"
  by (simp add: spx_sqrt_def Let_def)

lemma comb_gains_total:
  assumes "length ia = 80" and "length ib = 80" and exc: "length exc = 80" "\<forall>v \<in> set exc. \<bar>v\<bar> \<le> 16384" and g: "comb_gain \<le> 32767"
  shows "\<exists>g. comb_gains ia ib exc 80 pitch max_pitch comb_gain = Some g"
proof -
  obtain e0 e1 where e01: "inner_prod ia ia 80 = Some e0" "inner_prod ib ib 80 = Some e1"
    using inner_prod_total [of 80 ia ia] inner_prod_total [of 80 ib ib] assms by auto
  obtain corr0 corr1 where corr: "inner_prod ia exc 80 = Some corr0" "inner_prod ib exc 80 = Some corr1"
    using inner_prod_total [of 80 ia exc] inner_prod_total [of 80 ib exc] assms by auto
  obtain e where e: "inner_prod exc exc 80 = Some e" "0 \<le> e" "e \<le> 335544320" using inner_prod_energy [OF exc] by auto
  define m where "m = spx_sqrt (i32 (1 + e))"
  have "i32 (1 + e) = 1 + e" using e by (simp add: is_i32_def)
  then have m: "1 \<le> m" "m \<le> 22701" using spx_sqrt_positive [of "1 + e"] e by (simp_all add: m_def)
  then have im: "is_i16 m" by (simp add: is_i16_def)
  define m0 where "m0 = (if SHL32 (spx_sqrt (i32 (1000 + e0))) 6 < m then ADD16 1 (PSHR16 m 6) else spx_sqrt (i32 (1000 + e0)))"
  define m1 where "m1 = (if SHL32 (spx_sqrt (i32 (1000 + e1))) 6 < m then ADD16 1 (PSHR16 m 6) else spx_sqrt (i32 (1000 + e1)))"
  have m01: "0 < m0" "is_i16 m0" "0 < m1" "is_i16 m1" unfolding m0_def m1_def using comb_magnitude [OF m is_i16_spx_sqrt] by blast+
  define c1 where "c1 = (if comb_gain > 0 then i16 (MULT16_16_Q15 13107 comb_gain + 2294) else 0)"
  define c2 where "c2 = (if comb_gain > 0 then i16 (16384 + MULT16_16_Q14 28180 (c1 - 2294)) else 0)"
  have c: "0 < c1 \<and> is_i16 c1 \<or> c1 = 0 \<and> c2 = 0"
  proof (cases "comb_gain > 0")
    case True
    then have "MULT16_16_Q15 13107 comb_gain = 13107 * comb_gain div 32768"
      using g by (simp add: MULT16_16_Q15_def MULT16_16_exact is_i16_def SHR32_def asr_def)
    moreover have "0 \<le> 13107 * comb_gain div 32768 \<and> 13107 * comb_gain div 32768 \<le> 13107" using True g by linarith
    ultimately show ?thesis using True by (simp add: c1_def is_i16_def)
  qed (simp add: c1_def c2_def)
  obtain p0 where p0: "comb_pgain (if corr0 < 0 then 0 else corr0) m0 m = Some p0"
    using comb_pgain_total [of m0 m] m01 m im by fastforce
  obtain p1 where p1: "comb_pgain (if corr1 < 0 then 0 else corr1) m1 m = Some p1"
    using comb_pgain_total [of m1 m] m01 m im by fastforce
  obtain gg1 gg2 where gg: "PDIV32_16 (SHL32 m 8) m0 = Some gg1" "PDIV32_16 (SHL32 m 8) m1 = Some gg2"
    using PDIV32_16_nonzero [of m0 "SHL32 m 8"] PDIV32_16_nonzero [of m1 "SHL32 m 8"] m01 by auto
  obtain g1 g2 where "comb_share c1 c2 p0 = Some g1" "comb_share c1 c2 p1 = Some g2"
    using comb_share_total [OF c, of p0] comb_share_total [OF c, of p1] by auto
  then show ?thesis unfolding comb_gains_def Let_def e01 e(1) corr Option.bind.bind_lunit
      m_def [symmetric] m0_def [symmetric] m1_def [symmetric] p0 p1 gg c1_def [symmetric] c2_def [symmetric] by simp
qed

lemma comb_level_total:
  assumes "length exc = 80" and "length new_exc = 80"
  shows "\<exists>out. comb_level exc new_exc 80 = Some out \<and> samples 80 out"
proof -
  obtain a b where ab: "compute_rms16 new_exc 80 = Some a" "compute_rms16 exc 80 = Some b" "is_i16 a"
    using compute_rms16_total [of 80 new_exc] compute_rms16_total [of 80 exc] assms by (auto simp: whole_fours_def)
  let ?a = "if a < 1 then 1 else a"
  let ?b = "if (if b < 1 then 1 else b) > ?a then ?a else (if b < 1 then 1 else b)"
  have "is_i16 ?a \<and> ?a \<noteq> 0" using ab(3) by (simp add: is_i16_def)
  then obtain q where "PDIV32_16 (SHL32 ?b 14) ?a = Some q" using PDIV32_16_nonzero by blast
  then show ?thesis unfolding comb_level_def Let_def ab Option.bind.bind_lunit using assms by (simp add: samples_def)
qed

lemma multicomb_total:
  assumes buf: "samples n buf" and pos: "0 \<le> pos" "pos + 80 \<le> int n" and g: "comb_gain \<le> 32767"
    and low: "if pitch > max_pitch then 2 * pitch + 6 \<le> pos else pitch + 6 \<le> pos"
    and high: "if pitch > max_pitch then True else pos + pitch + 86 \<le> int n" and pitch: "6 \<le> pitch" "0 \<le> max_pitch"
  shows "\<exists>buf' new_exc. multicomb buf pos 80 pitch max_pitch comb_gain = Some (buf', new_exc) \<and> samples n buf' \<and> samples 80 new_exc"
proof -
  obtain i0 p0 where i0: "interp_pitch buf pos pitch 80 = Some (i0, p0)" "samples 80 i0"
    using interp_pitch_total [OF buf pos(1), of 80 pitch] pos low pitch by (auto split: if_splits)
  let ?lag = "if pitch > max_pitch then 2 * pitch else - pitch"
  obtain i1 p1 where i1: "interp_pitch buf pos ?lag 80 = Some (i1, p1)" "samples 80 i1"
    using interp_pitch_total [OF buf pos(1), of 80 ?lag] pos low high pitch by (auto split: if_splits)
  obtain exc where exc: "cells buf pos 80 = Some exc" "samples 80 exc" using cells_samples [OF buf pos(1), of 80] pos by auto
  have iexc: "mem_write (replicate 160 0) 0 i0 = Some (i0 @ replicate 80 0)" "mem_write (i0 @ replicate 80 0) 80 i1 = Some (i0 @ i1)"
    using i0 i1 by (simp_all add: mem_write_def samples_length)
  define down where "down = list_ex (\<lambda>v. ABS16 v > 16383) exc"
  define ex where "ex = (if down then map (\<lambda>v. SHR16 v 1) exc else exc)"
  define ie where "ie = (if down then map (\<lambda>v. SHR16 v 1) (i0 @ i1) else i0 @ i1)"
  have len: "length ie = 160" "length ex = 80" using i0 i1 exc by (simp_all add: ie_def ex_def samples_length)
  have "\<bar>v\<bar> \<le> 16384" if v: "v \<in> set ex" for v
  proof (cases down)
    case True
    then obtain u where "u \<in> set exc" "v = SHR16 u 1" using v by (auto simp: ex_def)
    then have "is_i16 u" "v = u div 2" using exc(2) by (auto simp: samples_def SHR16_def asr_def)
    then show ?thesis unfolding is_i16_def by linarith
  next
    case False
    then show ?thesis using v by (fastforce simp: down_def ex_def list_ex_iff ABS16_def split: if_splits)
  qed
  then obtain gain0 gain1 where gains: "comb_gains (take 80 ie) (drop 80 ie) ex 80 pitch max_pitch comb_gain = Some (gain0, gain1)"
    using comb_gains_total [of "take 80 ie" "drop 80 ie" ex comb_gain] len g by (metis diff_add_inverse length_drop length_take min.absorb2 le_add1 numeral_Bit0 surj_pair)
  let ?new = "map (\<lambda>(v, a, b). ADD16 v (EXTRACT16 (PSHR32 (ADD32 (MULT16_16 gain0 a) (MULT16_16 gain1 b)) 8)))
                (zip ex (zip (take 80 ie) (drop 80 ie)))"
  obtain out where out: "comb_level ex ?new 80 = Some out" "samples 80 out" using comb_level_total [of ex ?new] len by auto
  let ?ex = "if down then map (\<lambda>v. i16 (SHL16 v 1)) ex else ex"
  have "samples 80 ?ex" using exc(2) by (auto simp: ex_def samples_def)
  then obtain buf' where buf': "set_cells buf pos ?ex = Some buf'" "samples n buf'"
    using set_cells_samples [OF buf] pos by (metis of_nat_numeral)
  let ?out = "if down then map (\<lambda>v. i16 (SHL16 (SATURATE v 16383) 1)) out else out"
  have "samples 80 ?out" using out(2) by (auto simp: samples_def)
  moreover have "multicomb buf pos 80 pitch max_pitch comb_gain = Some (buf', ?out)"
    unfolding multicomb_def i0(1) i1(1) exc(1) Option.bind.bind_lunit prod.case Let_def iexc mult_2_right
    by (simp only: mult_2 [symmetric] iexc Option.bind.bind_lunit exc(1) down_def [symmetric] ex_def [symmetric] ie_def [symmetric]
      gains prod.case out(1) buf'(1) arith_simps)
  ultimately show ?thesis using buf'(2) by blast
qed

end
