(* ===== verification/Speex_Ltp.thy ===== *)
theory Speex_Ltp
  imports Speex_Filters Speex_Stream Speex_Tables
begin

text \<open>
  The adaptive codebook of the Speex decoder (\<open>libspeex/ltp.c\<close>, fixed point): the excitation of a subframe predicted from the
  excitation a pitch period before, with three taps or with a forced pitch. The excitation is the
  buffer with the position of the subframe, since the code reads behind the pointer it is given. A
  decoder function returns the buffer, the prediction, the pitch, the three gains and the reader.
\<close>

type_synonym gains = "int \<times> int \<times> int"

definition gain_3tap_to_1tap :: "gains \<Rightarrow> int" where
  "gain_3tap_to_1tap g =
     (case g of (g0, g1, g2) \<Rightarrow>
       (if g1 < 0 then - g1 else g1) + (if g0 > 0 then g0 else - SHR16 g0 1) + (if g2 > 0 then g2 else - SHR16 g2 1))"

record ltp_params =
  gain_cdbk :: "int list"
  gain_bits :: nat
  pitch_bits :: nat

subsection \<open>Three taps\<close>

text \<open>One tap: the excitation \<open>lag\<close> samples before is added with the gain \<open>g\<close> at the positions \<open>js\<close>.\<close>

fun add_tap :: "int list \<Rightarrow> int \<Rightarrow> int \<Rightarrow> int \<Rightarrow> nat list \<Rightarrow> int list \<Rightarrow> int list option" where
  "add_tap buf pos g lag [] out = Some out"
| "add_tap buf pos g lag (j # js) out =
     do { v \<leftarrow> cell buf (pos + int j - lag);
          e \<leftarrow> mem_get out j;
          add_tap buf pos g lag js (out[j := MAC16_16 e g v]) }"

text \<open>
  Tap \<open>i\<close> looks \<open>pitch + 1 - i\<close> samples back; where that is not in the past yet, a whole period more.
\<close>

definition pitch_tap :: "int list \<Rightarrow> int \<Rightarrow> int \<Rightarrow> nat \<Rightarrow> int \<Rightarrow> nat \<Rightarrow> int list \<Rightarrow> int list option" where
  "pitch_tap buf pos pitch nsf g i out =
     do { let pp = pitch + 1 - int i;
          let tmp1 = (if int nsf > pp then nat pp else nsf);
          out \<leftarrow> add_tap buf pos g pp [0..<tmp1] out;
          let tmp3 = (if int nsf > pp + pitch then nat (pp + pitch) else nsf);
          add_tap buf pos g (pp + pitch) [tmp1..<tmp3] out }"

text \<open>After a loss the gain is limited, unless the pitch stays inside the frame.\<close>

definition lost_gains :: "int \<Rightarrow> int \<Rightarrow> gains \<Rightarrow> gains option" where
  "lost_gains count_lost last_pitch_gain gain =
     do { let tmp = (if count_lost < 4 then last_pitch_gain else SHR16 last_pitch_gain 1);
          let tmp = (if tmp > 62 then 62 else tmp);
          let gain_sum = i16 (gain_3tap_to_1tap gain);
          if gain_sum > tmp then
            do { fact \<leftarrow> DIV32_16 (SHL32 tmp 14) gain_sum;
                 let (g0, g1, g2) = gain;
                 Some (i16 (MULT16_16_Q14 fact g0), i16 (MULT16_16_Q14 fact g1), i16 (MULT16_16_Q14 fact g2)) }
          else Some gain }"

type_synonym ltp_unquant_func =
  "int list \<Rightarrow> int \<Rightarrow> int \<Rightarrow> int \<Rightarrow> int \<Rightarrow> ltp_params option \<Rightarrow> nat \<Rightarrow> speex_bits \<Rightarrow> int \<Rightarrow> nat \<Rightarrow> int \<Rightarrow> nat \<Rightarrow>
     (int list \<times> int list \<times> int \<times> gains \<times> speex_bits) option"

definition pitch_unquant_3tap :: ltp_unquant_func where
  "pitch_unquant_3tap buf pos start stop pitch_coef par nsf bits count_lost subframe_offset last_pitch_gain cdbk_offset =
     do { params \<leftarrow> par;
          let gain_cdbk_size = 2 ^ gain_bits params;
          let off = 4 * gain_cdbk_size * cdbk_offset;
          (p, bits) \<leftarrow> speex_bits_unpack_unsigned bits (pitch_bits params);
          let pitch = int (unat p) + start;
          (gain_index, bits) \<leftarrow> speex_bits_unpack_unsigned bits (gain_bits params);
          c0 \<leftarrow> mem_get (gain_cdbk params) (off + unat gain_index * 4);
          c1 \<leftarrow> mem_get (gain_cdbk params) (off + unat gain_index * 4 + 1);
          c2 \<leftarrow> mem_get (gain_cdbk params) (off + unat gain_index * 4 + 2);
          let gain = (ADD16 32 c0, ADD16 32 c1, ADD16 32 c2);
          gain \<leftarrow> (if count_lost \<noteq> 0 \<and> pitch > int subframe_offset then lost_gains count_lost last_pitch_gain gain else Some gain);
          let (g0, g1, g2) = gain;
          let exc_out = replicate nsf 0;
          exc_out \<leftarrow> pitch_tap buf pos pitch nsf (i16 (SHL16 g2 7)) 0 exc_out;
          exc_out \<leftarrow> pitch_tap buf pos pitch nsf (i16 (SHL16 g1 7)) 1 exc_out;
          exc_out \<leftarrow> pitch_tap buf pos pitch nsf (i16 (SHL16 g0 7)) 2 exc_out;
          Some (buf, exc_out, pitch, gain, bits) }"

subsection \<open>Forced pitch\<close>

text \<open>The prediction is written to the excitation as it goes, and may be predicted from again.\<close>

fun forced_loop :: "int list \<Rightarrow> int \<Rightarrow> int \<Rightarrow> int \<Rightarrow> nat \<Rightarrow> (int list \<times> int list) option" where
  "forced_loop buf pos start coef 0 = Some (buf, [])"
| "forced_loop buf pos start coef (Suc i) =
     do { (buf, exc_out) \<leftarrow> forced_loop buf pos start coef i;
          v \<leftarrow> cell buf (pos + int i - start);
          let e = MULT16_16 v (SHL16 coef 7);
          buf \<leftarrow> set_cells buf (pos + int i) [EXTRACT16 (PSHR32 e 13)];
          Some (buf, exc_out @ [e]) }"

definition forced_pitch_unquant :: ltp_unquant_func where
  "forced_pitch_unquant buf pos start stop pitch_coef par nsf bits count_lost subframe_offset last_pitch_gain cdbk_offset =
     do { let pitch_coef = (if pitch_coef > 63 then 63 else pitch_coef);
          (buf, exc_out) \<leftarrow> forced_loop buf pos start pitch_coef nsf;
          Some (buf, exc_out, start, (0, pitch_coef, 0), bits) }"

subsection \<open>Gains\<close>

text \<open>Gains of a codebook: small, so that the gain of one tap is neither negative nor large.\<close>

definition gains_small :: "gains \<Rightarrow> bool" where
  "gains_small g \<longleftrightarrow> (case g of (g0, g1, g2) \<Rightarrow> \<bar>g0\<bar> \<le> 160 \<and> \<bar>g1\<bar> \<le> 160 \<and> \<bar>g2\<bar> \<le> 160)"

lemma gain_1tap_range: "gains_small g \<Longrightarrow> 0 \<le> gain_3tap_to_1tap g \<and> gain_3tap_to_1tap g \<le> 480"
  by (cases g) (auto simp: gains_small_def gain_3tap_to_1tap_def SHR16_def asr_def)

lemma scaled_gain:
  assumes "0 \<le> f" and "f \<le> 16384" and "\<bar>g\<bar> \<le> 160"
  shows "\<bar>i16 (MULT16_16_Q14 f g)\<bar> \<le> 160"
proof -
  have "f * (- 160) \<le> f * g" "f * g \<le> f * 160" using assms by (intro mult_left_mono; simp add: abs_le_iff)+
  then have "-160 * 2 ^ 14 \<le> f * g" "f * g < (160 + 1) * 2 ^ 14" using assms by simp_all
  then have "-160 \<le> asr (f * g) 14 \<and> asr (f * g) 14 \<le> 160" by (rule asr_bounds)
  moreover have "is_i16 f" "is_i16 g" using assms by (simp_all add: is_i16_def abs_le_iff)
  ultimately show ?thesis by (simp add: MULT16_16_Q14_def SHR32_def MULT16_16_exact is_i16_def abs_le_iff)
qed

lemma gain_factor:
  assumes "0 \<le> t" and "t < s" and "s \<le> 480"
  shows "\<exists>f. DIV32_16 (SHL32 t 14) s = Some f \<and> 0 \<le> f \<and> f \<le> 16384"
proof -
  have "t * 16384 div s \<le> s * 16384 div s" using assms by (intro zdiv_mono1) linarith+
  also have "\<dots> = 16384" using assms by simp
  finally have "t * 16384 div s \<le> 16384" .
  moreover have "0 \<le> t * 16384 div s" using assms by (simp add: pos_imp_zdiv_nonneg_iff)
  moreover have "(t * 16384) sdiv s = t * 16384 div s" using assms by (simp add: signed_divide_int_def sgn_if)
  ultimately show ?thesis using assms by (simp add: DIV32_16_def SHL32_def shl_def is_i32_def is_i16_def)
qed

lemma lost_gains_total:
  assumes g: "gains_small g" and l: "0 \<le> lp" "lp \<le> 32767"
  shows "\<exists>g'. lost_gains c lp g = Some g' \<and> gains_small g'"
proof -
  define tmp where "tmp = (if (if c < 4 then lp else SHR16 lp 1) > 62 then 62 else if c < 4 then lp else SHR16 lp 1)"
  define t where "t = gain_3tap_to_1tap g"
  have tmp: "0 \<le> tmp" using l by (auto simp: SHR16_def tmp_def)
  have t: "i16 t = t" "t \<le> 480" using gain_1tap_range [OF g] by (simp_all add: t_def is_i16_def)
  have eq: "lost_gains c lp g = (if t > tmp then
      do { fact \<leftarrow> DIV32_16 (SHL32 tmp 14) t;
           let (g0, g1, g2) = g;
           Some (i16 (MULT16_16_Q14 fact g0), i16 (MULT16_16_Q14 fact g1), i16 (MULT16_16_Q14 fact g2)) } else Some g)"
    unfolding lost_gains_def Let_def tmp_def [symmetric] t_def [symmetric] t(1) ..
  show ?thesis
  proof (cases "t > tmp")
    case True
    then obtain f where f: "DIV32_16 (SHL32 tmp 14) t = Some f" "0 \<le> f" "f \<le> 16384" using gain_factor [OF tmp _ t(2)] by blast
    then show ?thesis using True g scaled_gain [OF f(2,3)] unfolding eq by (cases g) (simp add: gains_small_def)
  next
    case False
    then show ?thesis using g by (simp add: eq)
  qed
qed


subsection \<open>The prediction is total\<close>

lemma add_tap_total:
  assumes "samples n buf" and "word_block nsf out" and "\<forall>j \<in> set js. j < nsf \<and> 0 \<le> pos + int j - lag \<and> pos + int j - lag < int n"
  shows "\<exists>out'. add_tap buf pos g lag js out = Some out' \<and> word_block nsf out'"
  using assms(2,3)
proof (induction js arbitrary: out)
  case (Cons j js)
  obtain v where v: "cell buf (pos + int j - lag) = Some v" using cell_Some [of _ buf] assms(1) Cons.prems(2) by (force simp: samples_length)
  have e: "mem_get out j = Some (out ! j)" using Cons.prems by (simp add: mem_simps word_block_length)
  have "word_block nsf (out[j := MAC16_16 (out ! j) g v])"
    using Cons.prems(1) set_update_subset_insert [of out j] by (fastforce simp: word_block_def)
  then show ?case using Cons.IH Cons.prems(2) v e by simp
qed simp

lemma pitch_tap_total:
  assumes buf: "samples n buf" and out: "word_block nsf out" and pos: "pitch + 1 \<le> pos" "pos + int nsf \<le> int n"
    and pitch: "1 < pitch" and i: "i < 3"
  shows "\<exists>out'. pitch_tap buf pos pitch nsf g i out = Some out' \<and> word_block nsf out'"
proof -
  let ?pp = "pitch + 1 - int i"
  let ?t1 = "if int nsf > ?pp then nat ?pp else nsf"
  let ?t3 = "if int nsf > ?pp + pitch then nat (?pp + pitch) else nsf"
  have pp: "0 < ?pp" "?pp \<le> pitch + 1" using pitch i by simp_all
  obtain o1 where o1: "add_tap buf pos g ?pp [0..<?t1] out = Some o1" "word_block nsf o1"
  proof -
    have "j < nsf \<and> 0 \<le> pos + int j - ?pp \<and> pos + int j - ?pp < int n" if "j \<in> set [0..<?t1]" for j
      using that pos pp by (auto split: if_splits)
    then show thesis using add_tap_total [OF buf out] that by blast
  qed
  have "j < nsf \<and> 0 \<le> pos + int j - (?pp + pitch) \<and> pos + int j - (?pp + pitch) < int n" if "j \<in> set [?t1..<?t3]" for j
    using that pos pp pitch by (auto split: if_splits)
  then obtain o2 where "add_tap buf pos g (?pp + pitch) [?t1..<?t3] o1 = Some o2" "word_block nsf o2"
    using add_tap_total [OF buf o1(2)] by blast
  then show ?thesis using o1(1) unfolding pitch_tap_def Let_def by simp
qed

definition ltp_params_ok :: "ltp_params \<Rightarrow> nat \<Rightarrow> bool" where
  "ltp_params_ok par maxbits \<longleftrightarrow> signed_chars (4 * 2 ^ gain_bits par) (gain_cdbk par) \<and> pitch_bits par \<le> maxbits"

text \<open>
  The prediction answers whatever the packet holds, the pitch is in the range of its bits, the gains are small, and
  the reader is as far on as the parameters say.
\<close>

lemma pitch_unquant_3tap_total:
  assumes par: "ltp_params_ok par pb" and buf: "samples n buf" and rd: "rd_ok bits" and l: "0 \<le> lp" "lp \<le> 32767"
    and pos: "start + 2 ^ pb \<le> pos" "pos + int nsf \<le> int n" and start: "1 < start"
  shows "\<exists>exc_out pitch g bits'.
    pitch_unquant_3tap buf pos start stop coef (Some par) nsf bits lost off lp 0 = Some (buf, exc_out, pitch, g, bits') \<and>
    word_block nsf exc_out \<and> start \<le> pitch \<and> pitch < start + 2 ^ pitch_bits par \<and> gains_small g \<and> spends bits (pitch_bits par + gain_bits par) bits'"
proof -
  obtain p b1 where p: "speex_bits_unpack_unsigned bits (pitch_bits par) = Some (p, b1)" "spends bits (pitch_bits par) b1" "unat p < 2 ^ pitch_bits par"
    using unpack_spends [OF rd] by blast
  obtain k b2 where k: "speex_bits_unpack_unsigned b1 (gain_bits par) = Some (k, b2)" "spends b1 (gain_bits par) b2" "unat k < 2 ^ gain_bits par"
    using unpack_spends [OF spends_ok [OF p(2)]] by blast
  define pitch where "pitch = int (unat p) + start"
  have "int (unat p) < 2 ^ pitch_bits par" using p(3) by (metis of_nat_less_iff of_nat_numeral of_nat_power)
  moreover have "(2 :: int) ^ pitch_bits par \<le> 2 ^ pb" using par by (intro power_increasing) (simp_all add: ltp_params_ok_def)
  ultimately have pitch: "start \<le> pitch" "pitch < start + 2 ^ pitch_bits par" "pitch + 1 \<le> pos"
    unfolding pitch_def using pos(1) by linarith+
  have c: "\<exists>c. mem_get (gain_cdbk par) (unat k * 4 + i) = Some c \<and> -128 \<le> c \<and> c \<le> 127" if "i < 4" for i
  proof -
    have "unat k * 4 + i < length (gain_cdbk par)" using par k(3) that by (simp add: ltp_params_ok_def signed_chars_def)
    moreover from this have "gain_cdbk par ! (unat k * 4 + i) \<in> set (gain_cdbk par)" by (rule nth_mem)
    ultimately show ?thesis using par by (simp add: mem_simps ltp_params_ok_def signed_chars_def list_all_iff)
  qed
  obtain c0 c1 c2 where cs: "mem_get (gain_cdbk par) (unat k * 4) = Some c0" "mem_get (gain_cdbk par) (unat k * 4 + 1) = Some c1"
    "mem_get (gain_cdbk par) (unat k * 4 + 2) = Some c2" and r: "-128 \<le> c0" "c0 \<le> 127" "-128 \<le> c1" "c1 \<le> 127" "-128 \<le> c2" "c2 \<le> 127"
    using c [of 0] c [of 1] c [of 2] by auto
  have small: "gains_small (ADD16 32 c0, ADD16 32 c1, ADD16 32 c2)" using r by (simp add: gains_small_def ADD16_i16 is_i16_def abs_le_iff)
  then obtain g0 g1 g2 where g: "(if lost \<noteq> 0 \<and> pitch > int off then lost_gains lost lp (ADD16 32 c0, ADD16 32 c1, ADD16 32 c2)
      else Some (ADD16 32 c0, ADD16 32 c1, ADD16 32 c2)) = Some (g0, g1, g2)" "gains_small (g0, g1, g2)"
    using lost_gains_total [OF small l, of lost] by (cases "lost \<noteq> 0 \<and> pitch > int off") auto
  have p1: "1 < pitch" using pitch(1) start by simp
  note tap = pitch_tap_total [OF buf _ pitch(3) pos(2) p1]
  obtain o0 where o0: "pitch_tap buf pos pitch nsf (i16 (SHL16 g2 7)) 0 (replicate nsf 0) = Some o0" "word_block nsf o0"
    using tap [OF word_block_zero, of 0] by auto
  obtain o1 where o1: "pitch_tap buf pos pitch nsf (i16 (SHL16 g1 7)) 1 o0 = Some o1" "word_block nsf o1"
    using tap [OF o0(2), of 1] by auto
  obtain o2 where o2: "pitch_tap buf pos pitch nsf (i16 (SHL16 g0 7)) 2 o1 = Some o2" "word_block nsf o2"
    using tap [OF o1(2), of 2] by auto
  have "pitch_unquant_3tap buf pos start stop coef (Some par) nsf bits lost off lp 0 = Some (buf, o2, pitch, (g0, g1, g2), b2)"
    unfolding pitch_unquant_3tap_def Let_def Option.bind.bind_lunit p(1) k(1) prod.case mult_0_right add_0 cs
      pitch_def [symmetric] g(1) o0(1) o1(1) o2(1) ..
  then show ?thesis using o2(2) pitch(1,2) g(2) spends_trans [OF p(2) k(2)] by blast
qed

lemma forced_loop_total:
  assumes "samples n buf" and "0 < start" and "start \<le> pos" and "pos + int m \<le> int n"
  shows "\<exists>buf' out. forced_loop buf pos start coef m = Some (buf', out) \<and> samples n buf' \<and> word_block m out"
  using assms(4)
proof (induction m)
  case 0
  then show ?case using assms(1) by (simp add: word_block_def)
next
  case (Suc m)
  then obtain buf1 out where 1: "forced_loop buf pos start coef m = Some (buf1, out)" "samples n buf1" "word_block m out" by auto
  obtain v where v: "cell buf1 (pos + int m - start) = Some v"
    using cell_Some [of "pos + int m - start" buf1] assms(2,3) Suc.prems 1(2) by (auto simp: samples_length)
  let ?e = "MULT16_16 v (SHL16 coef 7)"
  have "samples 1 [EXTRACT16 (PSHR32 ?e 13)]" by (simp add: samples_def)
  then obtain buf2 where "set_cells buf1 (pos + int m) [EXTRACT16 (PSHR32 ?e 13)] = Some buf2" "samples n buf2"
    using set_cells_samples [OF 1(2), of 1 _ "pos + int m"] assms(2,3) Suc.prems by auto
  then show ?case using 1 v by (simp add: word_block_def Let_def)
qed

lemma forced_pitch_unquant_total:
  assumes "samples n buf" and "rd_ok bits" and "0 < start" and "start \<le> pos" and "pos + int nsf \<le> int n" and "0 \<le> coef"
  shows "\<exists>buf' exc_out g.
    forced_pitch_unquant buf pos start stop coef par nsf bits lost off lp k = Some (buf', exc_out, start, g, bits) \<and>
    samples n buf' \<and> word_block nsf exc_out \<and> gains_small g"
  using forced_loop_total [OF assms(1,3,4,5), of "if coef > 63 then 63 else coef"] assms(6)
  by (auto simp: forced_pitch_unquant_def gains_small_def Let_def)

end
