(* ===== verification/Speex_Innovation.thy ===== *)
theory Speex_Innovation
  imports Speex_Filters Speex_Stream Speex_Tables
begin

text \<open>
  The innovation of the Speex decoder (\<open>libspeex/cb_search.c\<close>, fixed point): a shape, with a sign in some modes, from a codebook
  for each part of the subframe, or noise. The excitation given is the block that is filled.
\<close>

record split_cb_params =
  subvect_size :: nat
  nb_subvect :: nat
  shape_cb :: "int list"
  shape_bits :: nat
  have_sign :: bool

type_synonym innovation_unquant_func =
  "int list \<Rightarrow> split_cb_params option \<Rightarrow> nat \<Rightarrow> speex_bits \<Rightarrow> int \<Rightarrow> (int list \<times> speex_bits \<times> int) option"

text \<open>The codewords of all parts come first.\<close>

fun read_shapes :: "split_cb_params \<Rightarrow> nat \<Rightarrow> speex_bits \<Rightarrow> ((bool \<times> nat) list \<times> speex_bits) option" where
  "read_shapes par 0 bits = Some ([], bits)"
| "read_shapes par (Suc n) bits =
     do { (s, bits) \<leftarrow> (if have_sign par then speex_bits_unpack_unsigned bits 1 else Some (0, bits));
          (ind, bits) \<leftarrow> speex_bits_unpack_unsigned bits (shape_bits par);
          (rest, bits) \<leftarrow> read_shapes par n bits;
          Some ((s \<noteq> 0, unat ind) # rest, bits) }"

fun write_shapes :: "split_cb_params \<Rightarrow> nat \<Rightarrow> (bool \<times> nat) list \<Rightarrow> int list \<Rightarrow> int list option" where
  "write_shapes par i [] exc = Some exc"
| "write_shapes par i ((neg, ind) # shapes) exc =
     do { vs \<leftarrow> mem_read (shape_cb par) (ind * subvect_size par) (subvect_size par);
          exc \<leftarrow> mem_write exc (subvect_size par * i)
                 (map (\<lambda>v. if neg then i32 (- SHL32 v 9) else SHL32 v 9) vs);
          write_shapes par (i + 1) shapes exc }"

definition split_cb_shape_sign_unquant :: innovation_unquant_func where
  "split_cb_shape_sign_unquant exc par nsf bits seed =
     do { params \<leftarrow> par;
          (shapes, bits) \<leftarrow> read_shapes params (nb_subvect params) bits;
          exc \<leftarrow> write_shapes params 0 shapes exc;
          Some (exc, bits, seed) }"

fun noise_loop :: "nat \<Rightarrow> int \<Rightarrow> int list \<times> int" where
  "noise_loop 0 seed = ([], seed)"
| "noise_loop (Suc n) seed =
     (let (r, seed) = speex_rand 1 seed; (vs, seed) = noise_loop n seed in (SHL32 r 14 # vs, seed))"

definition noise_codebook_unquant :: innovation_unquant_func where
  "noise_codebook_unquant exc par nsf bits seed =
     do { let (vs, seed) = noise_loop nsf seed;
          exc \<leftarrow> mem_write exc 0 vs;
          Some (exc, bits, seed) }"

subsection \<open>The innovation is total\<close>

definition split_cb_ok :: "split_cb_params \<Rightarrow> nat \<Rightarrow> bool" where
  "split_cb_ok par nsf \<longleftrightarrow>
     signed_chars (subvect_size par * 2 ^ shape_bits par) (shape_cb par) \<and> nb_subvect par * subvect_size par \<le> nsf"

definition split_cb_width :: "split_cb_params \<Rightarrow> nat" where
  "split_cb_width par = nb_subvect par * (of_bool (have_sign par) + shape_bits par)"

lemma read_shapes_total:
  assumes "rd_ok bits"
  shows "\<exists>shapes bits'. read_shapes par n bits = Some (shapes, bits') \<and> length shapes = n \<and>
    (\<forall>(m, ind) \<in> set shapes. ind < 2 ^ shape_bits par) \<and> spends bits (n * (of_bool (have_sign par) + shape_bits par)) bits'"
  using assms
proof (induction n arbitrary: bits)
  case 0
  then show ?case by (simp add: spends_none)
next
  case (Suc n)
  obtain s b1 where s: "(if have_sign par then speex_bits_unpack_unsigned bits 1 else Some (0, bits)) = Some (s, b1)"
    "spends bits (of_bool (have_sign par)) b1"
    using unpack_spends [OF Suc.prems, of 1] spends_none [OF Suc.prems] by (cases "have_sign par") auto
  obtain k b2 where k: "speex_bits_unpack_unsigned b1 (shape_bits par) = Some (k, b2)" "spends b1 (shape_bits par) b2" "unat k < 2 ^ shape_bits par"
    using unpack_spends [OF spends_ok [OF s(2)]] by blast
  obtain rest b3 where r: "read_shapes par n b2 = Some (rest, b3)" "length rest = n" "\<forall>(m, ind) \<in> set rest. ind < 2 ^ shape_bits par"
    "spends b2 (n * (of_bool (have_sign par) + shape_bits par)) b3"
    using Suc.IH [OF spends_ok [OF k(2)]] by blast
  have "spends bits (Suc n * (of_bool (have_sign par) + shape_bits par)) b3"
    using spends_trans [OF spends_trans [OF s(2) k(2)] r(4)] by simp
  then show ?case using s(1) k r by simp
qed

lemma word_block_write:
  assumes "word_block n exc" and "i + length vs \<le> n" and "\<forall>v \<in> set vs. is_i32 v"
  shows "\<exists>exc'. mem_write exc i vs = Some exc' \<and> word_block n exc'"
  using assms by (auto simp: mem_write_def word_block_def dest: in_set_takeD in_set_dropD)

lemma write_shapes_total:
  assumes "word_block nsf exc" and "signed_chars (subvect_size par * 2 ^ shape_bits par) (shape_cb par)"
    and "\<forall>(m, ind) \<in> set shapes. ind < 2 ^ shape_bits par" and "(i + length shapes) * subvect_size par \<le> nsf"
  shows "\<exists>exc'. write_shapes par i shapes exc = Some exc' \<and> word_block nsf exc'"
  using assms(1,3,4)
proof (induction shapes arbitrary: i exc)
  case (Cons s shapes)
  obtain m ind where s: "s = (m, ind)" by fastforce
  let ?n = "subvect_size par"
  have ind: "Suc ind \<le> 2 ^ shape_bits par" using Cons.prems(2) s by simp
  have "ind * ?n + ?n = ?n * Suc ind" by simp
  also have "\<dots> \<le> ?n * 2 ^ shape_bits par" using ind by (rule mult_le_mono2)
  finally have "ind * ?n + ?n \<le> length (shape_cb par)" using assms(2) by (simp add: signed_chars_def)
  then obtain vs where vs: "mem_read (shape_cb par) (ind * ?n) ?n = Some vs" "length vs = ?n" by (simp add: mem_simps)
  have room: "?n * i + ?n \<le> nsf"
  proof -
    have "(i + 1) * ?n \<le> (i + length (s # shapes)) * ?n" by (intro mult_le_mono1) simp
    then show ?thesis using Cons.prems(3) by (simp add: algebra_simps)
  qed
  define ws where "ws = map (\<lambda>v. if m then i32 (- SHL32 v 9) else SHL32 v 9) vs"
  have "\<forall>w \<in> set ws. is_i32 w" unfolding ws_def by (cases m) simp_all
  moreover have "?n * i + length ws \<le> nsf" using room vs(2) by (simp add: ws_def)
  ultimately obtain exc1 where exc1: "mem_write exc (?n * i) ws = Some exc1" "word_block nsf exc1"
    using word_block_write [OF Cons.prems(1)] by blast
  have "\<forall>(m, ind) \<in> set shapes. ind < 2 ^ shape_bits par" "(i + 1 + length shapes) * ?n \<le> nsf" using Cons.prems(2,3) by simp_all
  then obtain exc2 where "write_shapes par (i + 1) shapes exc1 = Some exc2" "word_block nsf exc2" using Cons.IH [OF exc1(2)] by blast
  then show ?case unfolding s write_shapes.simps vs(1) Option.bind.bind_lunit ws_def [symmetric] exc1(1) by blast
qed simp

lemma split_cb_unquant_total:
  assumes "split_cb_ok par nsf" and "word_block nsf exc" and "rd_ok bits"
  shows "\<exists>exc' bits'. split_cb_shape_sign_unquant exc (Some par) nsf bits seed = Some (exc', bits', seed) \<and>
    word_block nsf exc' \<and> spends bits (split_cb_width par) bits'"
proof -
  obtain shapes bits' where r: "read_shapes par (nb_subvect par) bits = Some (shapes, bits')" "length shapes = nb_subvect par"
    "\<forall>(m, ind) \<in> set shapes. ind < 2 ^ shape_bits par" "spends bits (split_cb_width par) bits'"
    using read_shapes_total [OF assms(3)] unfolding split_cb_width_def by blast
  then show ?thesis using write_shapes_total [OF assms(2) _ r(3), of 0] assms(1)
    by (auto simp: split_cb_shape_sign_unquant_def split_cb_ok_def)
qed

lemma noise_loop_shape: "length (fst (noise_loop n seed)) = n \<and> (\<forall>v \<in> set (fst (noise_loop n seed)). is_i32 v) \<and>
    (is_i32 seed \<longrightarrow> is_i32 (snd (noise_loop n seed)))"
proof (induction n arbitrary: seed)
  case (Suc n)
  have "is_i32 (snd (speex_rand 1 seed))" by (simp add: speex_rand_def Let_def)
  then show ?case using Suc.IH [of "snd (speex_rand 1 seed)"] by (simp add: case_prod_beta Let_def)
qed simp

lemma noise_unquant_total:
  assumes "word_block nsf exc" and "is_i32 seed"
  shows "\<exists>exc' seed'. noise_codebook_unquant exc par nsf bits seed = Some (exc', bits, seed') \<and> word_block nsf exc' \<and> is_i32 seed'"
  using word_block_write [OF assms(1), of 0 "fst (noise_loop nsf seed)"] noise_loop_shape [of nsf seed] assms(2)
  by (auto simp: noise_codebook_unquant_def case_prod_beta Let_def)

end
