(* ===== verification/Speex_Modes.thy ===== *)
theory Speex_Modes
  imports Speex_Ltp Speex_Innovation Quant_Lsp
begin

text \<open>
  The narrowband mode of Speex (\<open>libspeex/modes.c\<close>, \<open>modes.h\<close>) as its decoder uses it: the parameters of the eight submodes
  with their decoding functions, and the query of the frame sizes (\<open>nb_mode_query\<close> of \<open>speex.c\<close>).
\<close>

record SpeexSubmode =
  lbr_pitch :: int
  forced_pitch_gain :: bool
  have_subframe_gain :: nat
  double_codebook :: bool
  lsp_unquant :: "nat \<Rightarrow> speex_bits \<Rightarrow> (int list \<times> speex_bits) option"
  ltp_unquant :: "ltp_unquant_func option"
  ltp_par :: "ltp_params option"
  innovation_unquant :: "innovation_unquant_func option"
  innovation_par :: "split_cb_params option"
  comb_gain :: int
  bits_per_frame :: nat

record SpeexNBMode =
  frameSize :: nat
  subframeSize :: nat
  lpcSize :: nat
  pitchStart :: int
  pitchEnd :: int
  gamma1 :: int
  gamma2 :: int
  lpc_floor :: int
  submodes :: "SpeexSubmode option list"
  defaultSubmode :: int
  quality_map :: "int list"

subsection \<open>Parameters\<close>

definition ltp_params_nb :: ltp_params where
  "ltp_params_nb = \<lparr>gain_cdbk = gain_cdbk_nb, gain_bits = 7, pitch_bits = 7\<rparr>"
definition ltp_params_vlbr :: ltp_params where
  "ltp_params_vlbr = \<lparr>gain_cdbk = gain_cdbk_lbr, gain_bits = 5, pitch_bits = 0\<rparr>"
definition ltp_params_lbr :: ltp_params where
  "ltp_params_lbr = \<lparr>gain_cdbk = gain_cdbk_lbr, gain_bits = 5, pitch_bits = 7\<rparr>"
definition ltp_params_med :: ltp_params where
  "ltp_params_med = \<lparr>gain_cdbk = gain_cdbk_lbr, gain_bits = 5, pitch_bits = 7\<rparr>"

definition split_cb_nb_vlbr :: split_cb_params where
  "split_cb_nb_vlbr = \<lparr>subvect_size = 10, nb_subvect = 4, shape_cb = exc_10_16_table, shape_bits = 4, have_sign = False\<rparr>"
definition split_cb_nb_ulbr :: split_cb_params where
  "split_cb_nb_ulbr = \<lparr>subvect_size = 20, nb_subvect = 2, shape_cb = exc_20_32_table, shape_bits = 5, have_sign = False\<rparr>"
definition split_cb_nb_lbr :: split_cb_params where
  "split_cb_nb_lbr = \<lparr>subvect_size = 10, nb_subvect = 4, shape_cb = exc_10_32_table, shape_bits = 5, have_sign = False\<rparr>"
definition split_cb_nb :: split_cb_params where
  "split_cb_nb = \<lparr>subvect_size = 5, nb_subvect = 8, shape_cb = exc_5_64_table, shape_bits = 6, have_sign = False\<rparr>"
definition split_cb_nb_med :: split_cb_params where
  "split_cb_nb_med = \<lparr>subvect_size = 8, nb_subvect = 5, shape_cb = exc_8_128_table, shape_bits = 7, have_sign = False\<rparr>"
definition split_cb_sb :: split_cb_params where
  "split_cb_sb = \<lparr>subvect_size = 5, nb_subvect = 8, shape_cb = exc_5_256_table, shape_bits = 8, have_sign = False\<rparr>"

subsection \<open>Submodes\<close>

definition nb_submode1 :: SpeexSubmode where
  "nb_submode1 = \<lparr>lbr_pitch = 0, forced_pitch_gain = True, have_subframe_gain = 0, double_codebook = False,
     lsp_unquant = lsp_unquant_lbr, ltp_unquant = Some forced_pitch_unquant, ltp_par = None,
     innovation_unquant = Some noise_codebook_unquant, innovation_par = None, comb_gain = -1, bits_per_frame = 43\<rparr>"

definition nb_submode8 :: SpeexSubmode where
  "nb_submode8 = \<lparr>lbr_pitch = 0, forced_pitch_gain = True, have_subframe_gain = 0, double_codebook = False,
     lsp_unquant = lsp_unquant_lbr, ltp_unquant = Some forced_pitch_unquant, ltp_par = None,
     innovation_unquant = Some split_cb_shape_sign_unquant, innovation_par = Some split_cb_nb_ulbr, comb_gain = 16384, bits_per_frame = 79\<rparr>"

definition nb_submode2 :: SpeexSubmode where
  "nb_submode2 = \<lparr>lbr_pitch = 0, forced_pitch_gain = False, have_subframe_gain = 0, double_codebook = False,
     lsp_unquant = lsp_unquant_lbr, ltp_unquant = Some pitch_unquant_3tap, ltp_par = Some ltp_params_vlbr,
     innovation_unquant = Some split_cb_shape_sign_unquant, innovation_par = Some split_cb_nb_vlbr, comb_gain = 19661, bits_per_frame = 119\<rparr>"

definition nb_submode3 :: SpeexSubmode where
  "nb_submode3 = \<lparr>lbr_pitch = -1, forced_pitch_gain = False, have_subframe_gain = 1, double_codebook = False,
     lsp_unquant = lsp_unquant_lbr, ltp_unquant = Some pitch_unquant_3tap, ltp_par = Some ltp_params_lbr,
     innovation_unquant = Some split_cb_shape_sign_unquant, innovation_par = Some split_cb_nb_lbr, comb_gain = 18022, bits_per_frame = 160\<rparr>"

definition nb_submode4 :: SpeexSubmode where
  "nb_submode4 = \<lparr>lbr_pitch = -1, forced_pitch_gain = False, have_subframe_gain = 1, double_codebook = False,
     lsp_unquant = lsp_unquant_lbr, ltp_unquant = Some pitch_unquant_3tap, ltp_par = Some ltp_params_med,
     innovation_unquant = Some split_cb_shape_sign_unquant, innovation_par = Some split_cb_nb_med, comb_gain = 14746, bits_per_frame = 220\<rparr>"

definition nb_submode5 :: SpeexSubmode where
  "nb_submode5 = \<lparr>lbr_pitch = -1, forced_pitch_gain = False, have_subframe_gain = 3, double_codebook = False,
     lsp_unquant = lsp_unquant_nb, ltp_unquant = Some pitch_unquant_3tap, ltp_par = Some ltp_params_nb,
     innovation_unquant = Some split_cb_shape_sign_unquant, innovation_par = Some split_cb_nb, comb_gain = 9830, bits_per_frame = 300\<rparr>"

definition nb_submode6 :: SpeexSubmode where
  "nb_submode6 = \<lparr>lbr_pitch = -1, forced_pitch_gain = False, have_subframe_gain = 3, double_codebook = False,
     lsp_unquant = lsp_unquant_nb, ltp_unquant = Some pitch_unquant_3tap, ltp_par = Some ltp_params_nb,
     innovation_unquant = Some split_cb_shape_sign_unquant, innovation_par = Some split_cb_sb, comb_gain = 6554, bits_per_frame = 364\<rparr>"

definition nb_submode7 :: SpeexSubmode where
  "nb_submode7 = \<lparr>lbr_pitch = -1, forced_pitch_gain = False, have_subframe_gain = 3, double_codebook = True,
     lsp_unquant = lsp_unquant_nb, ltp_unquant = Some pitch_unquant_3tap, ltp_par = Some ltp_params_nb,
     innovation_unquant = Some split_cb_shape_sign_unquant, innovation_par = Some split_cb_nb, comb_gain = 3277, bits_per_frame = 492\<rparr>"

definition nb_mode :: SpeexNBMode where
  "nb_mode = \<lparr>frameSize = 160, subframeSize = 40, lpcSize = 10, pitchStart = 17, pitchEnd = 144, gamma1 = 29491, gamma2 = 19661,
     lpc_floor = 7,
     submodes = [None, Some nb_submode1, Some nb_submode2, Some nb_submode3, Some nb_submode4, Some nb_submode5, Some nb_submode6,
       Some nb_submode7, Some nb_submode8, None, None, None, None, None, None, None],
     defaultSubmode = 5, quality_map = [1, 8, 2, 3, 3, 4, 4, 5, 5, 6, 7]\<rparr>"

text \<open>The query answers -1 for an unknown request, and gives the value -1 to a submode that does not exist.\<close>

definition nb_mode_query :: "SpeexNBMode \<Rightarrow> nat \<Rightarrow> int \<Rightarrow> (int \<times> int) option" where
  "nb_mode_query m request v =
     (if request = 0 then Some (0, int (frameSize m))
      else if request = 1 then
        (if v = 0 then Some (0, 4 + 1)
         else do { s \<leftarrow> cell (submodes m) v;
                   Some (0, case s of None \<Rightarrow> -1 | Some s \<Rightarrow> int (bits_per_frame s)) })
      else Some (-1, v))"

subsection \<open>The parameters fit their codebooks\<close>

lemma ltp_params_fit: "ltp_params_ok ltp_params_nb 7" "ltp_params_ok ltp_params_vlbr 0" "ltp_params_ok ltp_params_lbr 7" "ltp_params_ok ltp_params_med 7"
  using gain_cdbk_nb_chars gain_cdbk_lbr_chars
  by (simp_all add: ltp_params_ok_def ltp_params_nb_def ltp_params_vlbr_def ltp_params_lbr_def ltp_params_med_def)

lemma split_cb_fits: "split_cb_ok split_cb_nb_vlbr 40" "split_cb_ok split_cb_nb_ulbr 40" "split_cb_ok split_cb_nb_lbr 40"
  "split_cb_ok split_cb_nb 40" "split_cb_ok split_cb_nb_med 40" "split_cb_ok split_cb_sb 40"
  using exc_10_16_table_chars exc_20_32_table_chars exc_10_32_table_chars exc_5_64_table_chars exc_8_128_table_chars exc_5_256_table_chars
  by (simp_all add: split_cb_ok_def split_cb_nb_vlbr_def split_cb_nb_ulbr_def split_cb_nb_lbr_def split_cb_nb_def split_cb_nb_med_def split_cb_sb_def)

end
