(* ===== verification/Speex_Lsp.thy ===== *)
theory Speex_Lsp
  imports Speex_Filters
begin

text \<open>
  Line spectral pairs in the Speex decoder (\<open>libspeex/lsp.c\<close>, fixed point): interpolation between frames, the margin
  that is to keep the synthesis filter stable, and the conversion to prediction coefficients.

  The conversion cascades second order sections. The code keeps the output of every section in a row of a matrix,
  whose first two cells and last cell it knows beforehand; here a row is a list that ends with its last
  cell that is not zero. Cell 0 of a row is never used.
\<close>

definition ANGLE2X :: "int \<Rightarrow> int" where "ANGLE2X a = SHL16 (spx_cos a) 2"

definition lsp_xin :: int where "lsp_xin = SHL32 1 20"

definition lsp_first_row :: "int \<Rightarrow> int list" where
  "lsp_first_row f = [0, 0, lsp_xin, i32 (- MULT16_32_Q14 f lsp_xin), lsp_xin]"

definition lsp_next_row :: "int \<Rightarrow> nat \<Rightarrow> int list \<Rightarrow> int list" where
  "lsp_next_row f i x =
     [0, 0, lsp_xin]
     @ map (\<lambda>j. ADD32 (SUB32 (x ! (j + 2)) (MULT16_32_Q14 f (x ! (j + 1)))) (x ! j)) [1..<2 * (i + 1) - 1]
     @ [SUB32 (x ! (2 * i + 1)) (MULT16_32_Q14 f (x ! (2 * i + 2))), lsp_xin]"

text \<open>Row \<open>Suc i\<close>, for the frequencies at the positions \<open>off\<close>, \<open>off + 2\<close>, and so on.\<close>

fun lsp_row :: "int list \<Rightarrow> nat \<Rightarrow> nat \<Rightarrow> int list" where
  "lsp_row freqn off 0 = lsp_first_row (freqn ! off)"
| "lsp_row freqn off (Suc i) = lsp_next_row (freqn ! (2 * Suc i + off)) (Suc i) (lsp_row freqn off i)"

text \<open>The last sections, and the hard limit.\<close>

definition lsp_join :: "int list \<Rightarrow> int list \<Rightarrow> nat \<Rightarrow> int" where
  "lsp_join p q j =
     (let xout1 = (if j = 1 then 0 else p ! (j + 1));
          xout2 = (if j = 1 then 0 else q ! (j + 1));
          a = PSHR32 (i32 (p ! (j + 2) + xout1 + q ! (j + 2) - xout2)) 8
      in if a < -32767 then -32767 else if a > 32767 then 32767 else a)"

definition lsp_to_lpc :: "int list \<Rightarrow> nat \<Rightarrow> int list option" where
  "lsp_to_lpc freq lpcrdr =
     do { let m = lpcrdr div 2;
          require (0 < m \<and> 2 * m = lpcrdr);
          freq \<leftarrow> mem_read freq 0 lpcrdr;
          let freqn = map (\<lambda>f. i16 (ANGLE2X f)) freq;
          let p = lsp_row freqn 0 (m - 1);
          let q = lsp_row freqn 1 (m - 1);
          Some (map (lsp_join p q) [1..<lpcrdr + 1]) }"

definition enforce_step :: "int \<Rightarrow> int list \<Rightarrow> nat \<Rightarrow> int list" where
  "enforce_step m lsp i =
     (let lsp = (if lsp ! i < lsp ! (i - 1) + m then lsp[i := i16 (lsp ! (i - 1) + m)] else lsp)
      in if lsp ! i > lsp ! (i + 1) - m then lsp[i := i16 (SHR16 (lsp ! i) 1 + SHR16 (lsp ! (i + 1) - m) 1)] else lsp)"

definition lsp_enforce_margin :: "int list \<Rightarrow> nat \<Rightarrow> int \<Rightarrow> int list option" where
  "lsp_enforce_margin lsp len margin =
     do { require (0 < len \<and> len \<le> length lsp);
          let m = margin;
          let m2 = i16 (25736 - margin);
          let lsp = (if lsp ! 0 < m then lsp[0 := m] else lsp);
          let lsp = (if lsp ! (len - 1) > m2 then lsp[len - 1 := m2] else lsp);
          Some (foldl (enforce_step m) lsp [1..<len - 1]) }"

definition lsp_interpolate :: "int list \<Rightarrow> int list \<Rightarrow> nat \<Rightarrow> nat \<Rightarrow> nat \<Rightarrow> int list option" where
  "lsp_interpolate old_lsp new_lsp len subframe nb_subframes =
     do { tmp \<leftarrow> DIV32_16 (SHL32 (1 + int subframe) 14) (int nb_subframes);
          let tmp2 = i16 (16384 - tmp);
          old_lsp \<leftarrow> mem_read old_lsp 0 len;
          new_lsp \<leftarrow> mem_read new_lsp 0 len;
          Some (map (\<lambda>(a, b). i16 (MULT16_16_P14 tmp2 a + MULT16_16_P14 tmp b)) (zip old_lsp new_lsp)) }"

subsection \<open>They are total\<close>

lemma is_i16_lsp_join: "is_i16 (lsp_join p q j)"
proof -
  have "is_i16 (if a < -32767 then -32767 else if a > 32767 then 32767 else a)" for a :: int by (simp add: is_i16_def)
  then show ?thesis unfolding lsp_join_def Let_def .
qed

lemma lsp_to_lpc_total:
  assumes "0 < n" and "even n" and "n \<le> length freq"
  shows "\<exists>ak. lsp_to_lpc freq n = Some ak \<and> samples n ak"
proof -
  have "0 < n div 2 \<and> 2 * (n div 2) = n" using assms(1,2) by (auto elim: evenE)
  then show ?thesis using assms(3) is_i16_lsp_join by (simp add: lsp_to_lpc_def mem_simps samples_def Let_def del: upt_Suc)
qed

lemma enforce_step_samples: "samples n lsp \<Longrightarrow> samples n (enforce_step m lsp i)"
proof -
  have upd: "samples n (l[i := i16 v])" if "samples n l" for l v
    using that set_update_subset_insert [of l i "i16 v"] by (auto simp: samples_def)
  assume "samples n lsp"
  then have "samples n (if lsp ! i < lsp ! (i - 1) + m then lsp[i := i16 (lsp ! (i - 1) + m)] else lsp)" using upd by simp
  then show ?thesis unfolding enforce_step_def Let_def using upd by presburger
qed

lemma lsp_enforce_margin_total:
  assumes "0 < n" and "samples n lsp" and "is_i16 margin"
  shows "\<exists>out. lsp_enforce_margin lsp n margin = Some out \<and> samples n out"
proof -
  have "samples n (foldl (enforce_step m) l is')" if "samples n l" for m l is'
    using that by (induction is' arbitrary: l) (simp_all add: enforce_step_samples)
  moreover have "samples n (l[i := v])" if "samples n l" "is_i16 v" for l i v
    using that set_update_subset_insert [of l i v] by (auto simp: samples_def)
  ultimately show ?thesis using assms by (simp add: lsp_enforce_margin_def samples_length Let_def)
qed

lemma lsp_interpolate_total:
  assumes "n \<le> length a" and "n \<le> length b" and "0 < k" and "k \<le> 32767"
  shows "\<exists>out. lsp_interpolate a b n sub k = Some out \<and> samples n out"
proof -
  have "is_i16 (int k)" using assms by (simp add: is_i16_def)
  then show ?thesis using assms by (auto simp: lsp_interpolate_def mem_simps DIV32_16_def samples_def Let_def)
qed

lemma i16_zero [simp]: "i16 0 = 0"
  by (simp add: is_i16_def)

text \<open>In the last subframe the interpolation has arrived at the new pairs.\<close>

lemma lsp_interpolate_arrives:
  assumes "samples n a" and "samples n b" and "0 < k" and "k \<le> 4"
  shows "lsp_interpolate a b n (k - 1) k = Some b"
proof -
  have k: "k = 1 \<or> k = 2 \<or> k = 3 \<or> k = 4" using assms(3,4) by auto
  have tmp: "DIV32_16 (SHL32 (1 + int (k - 1)) 14) (int k) = Some 16384"
    using k by (elim disjE) (simp; code_simp)+
  have "i16 (MULT16_16_P14 0 u + MULT16_16_P14 16384 v) = v" if "is_i16 v" for u v
  proof -
    have "MULT16_16_P14 0 u = 0" by (simp add: MULT16_16_P14_def MULT16_16_def SHR32_def asr_def ADD32_def is_i32_def)
    moreover have "MULT16_16_P14 16384 v = v"
      using that by (simp add: MULT16_16_P14_def MULT16_16_exact SHR32_def asr_def ADD32_def is_i32_def is_i16_def)
    ultimately show ?thesis using that by simp
  qed
  then have "map (\<lambda>(u, v). i16 (MULT16_16_P14 0 u + MULT16_16_P14 16384 v)) (zip a b) = map snd (zip a b)"
    using assms(2) by (intro map_cong) (auto simp: samples_def dest: set_zip_rightD)
  then show ?thesis using assms tmp by (simp add: lsp_interpolate_def mem_simps samples_length)
qed

text \<open>Pairs that keep the margin are left alone.\<close>

definition lsp_stable :: "nat \<Rightarrow> int \<Rightarrow> int list \<Rightarrow> bool" where
  "lsp_stable n m lsp \<longleftrightarrow> m \<le> lsp ! 0 \<and> lsp ! (n - 1) \<le> 25736 - m \<and> (\<forall>i < n - 1. lsp ! i + m \<le> lsp ! (i + 1))"

lemma lsp_enforce_margin_keeps:
  assumes "0 < n" and "samples n lsp" and "lsp_stable n m lsp" and "0 \<le> m" and "m \<le> 25736"
  shows "lsp_enforce_margin lsp n m = Some lsp"
proof -
  have "enforce_step m lsp i = lsp" if "1 \<le> i" "i < n - 1" for i
  proof -
    have "i - 1 < n - 1" "i - 1 + 1 = i" using that by simp_all
    then have "lsp ! (i - 1) + m \<le> lsp ! i" "lsp ! i + m \<le> lsp ! (i + 1)" using assms(3) that unfolding lsp_stable_def by metis+
    then show ?thesis by (simp add: enforce_step_def)
  qed
  then have "foldl (enforce_step m) lsp is' = lsp" if "\<forall>i \<in> set is'. 1 \<le> i \<and> i < n - 1" for is'
    using that by (induction is') auto
  moreover have "i16 (25736 - m) = 25736 - m" using assms(4,5) by (simp add: is_i16_def)
  ultimately show ?thesis using assms by (simp add: lsp_enforce_margin_def samples_length lsp_stable_def)
qed

end
