(* ===== verification/Nb_Decoder.thy ===== *)
theory Nb_Decoder
  imports Speex_Modes Speex_Lsp Speex_Inband
begin

text \<open>
  The narrowband decoder of Speex (\<open>libspeex/nb_celp.c\<close>, \<open>nb_celp.h\<close>, fixed point): one frame of 160 samples from a packet,
  or from nothing when the packet is lost.

  \<open>DecState\<close> is the state of the code without the handlers of in-band requests, which act on the state themselves
  and are given to \<open>nb_decode\<close>: a handler gets the packet and the decoder with the data \<open>'e\<close> of the application. \<open>excBuf\<close> is the
  excitation, \<open>exc\<close> the position of the current frame in it; \<open>innov_save\<close> is the caller's block, if there is one. The result of
  \<open>nb_decode\<close> is the code that it returns and the samples, if it writes any.
\<close>

record DecState =
  first :: bool
  count_lost :: int
  frameSize :: nat
  subframeSize :: nat
  nbSubframes :: nat
  lpcSize :: nat
  min_pitch :: int
  max_pitch :: int
  sampling_rate :: int
  last_ol_gain :: int
  excBuf :: "int list"
  exc :: int
  old_qlsp :: "int list"
  interp_qlpc :: "int list"
  mem_sp :: "int list"
  mem_hp :: "int \<times> int"
  pi_gain :: "int list"
  innov_save :: "int list option"
  level :: int
  max_level :: int
  min_level :: int
  last_pitch :: int
  last_pitch_gain :: int
  pitch_gain_buf :: "int list"
  pitch_gain_buf_idx :: nat
  seed :: int
  encode_submode :: int
  submodes :: "SpeexSubmode option list"
  submodeID :: int
  lpc_enh_enabled :: int
  voc_m1 :: int
  voc_m2 :: int
  voc_mean :: int
  voc_offset :: int
  dtx_enabled :: bool
  isWideband :: int
  highpass_enabled :: int

definition ol_gain_table :: "int list" where
  "ol_gain_table =
     [18900, 25150, 33468, 44536, 59265, 78865, 104946, 139653, 185838, 247297, 329081, 437913, 582736, 775454, 1031906,
      1373169, 1827293, 2431601, 3235761, 4305867, 5729870, 7624808, 10146425, 13501971, 17967238, 23909222, 31816294,
      42338330, 56340132, 74972501, 99766822, 132760927]"

definition exc_gain_quant_scal3 :: "int list" where
  "exc_gain_quant_scal3 = [1002, 2680, 5086, 7016, 9108, 11781, 15380, 21740]"

definition exc_gain_quant_scal1 :: "int list" where
  "exc_gain_quant_scal1 = [11546, 17224]"

definition attenuation :: "int list" where
  "attenuation = [32767, 31483, 27923, 22861, 17278, 12055, 7764, 4616, 2533, 1283]"

definition wb_skip_table :: "int list" where
  "wb_skip_table = [0, 36, 112, 192, 352, 0, 0, 0]"

subsection \<open>A new decoder\<close>

text \<open>\<open>speex_alloc\<close> gives memory filled with zero.\<close>

definition nb_decoder_init :: "SpeexNBMode \<Rightarrow> DecState" where
  "nb_decoder_init mode =
     (let fs = SpeexNBMode.frameSize mode; ss = SpeexNBMode.subframeSize mode; ord = SpeexNBMode.lpcSize mode;
          mp = pitchEnd mode
      in \<lparr>first = True, count_lost = 0, frameSize = fs, subframeSize = ss, nbSubframes = fs div ss, lpcSize = ord,
          min_pitch = pitchStart mode, max_pitch = mp, sampling_rate = 8000, last_ol_gain = 0,
          excBuf = replicate (fs + 2 * nat mp + ss + 12) 0, exc = 2 * mp + int ss + 6,
          old_qlsp = replicate ord 0, interp_qlpc = replicate ord 0, mem_sp = replicate ord 0, mem_hp = (0, 0),
          pi_gain = replicate (fs div ss) 0, innov_save = None, level = 0, max_level = 0, min_level = 0,
          last_pitch = 40, last_pitch_gain = 0, pitch_gain_buf = [0, 0, 0], pitch_gain_buf_idx = 0, seed = 1000,
          encode_submode = 1, submodes = SpeexNBMode.submodes mode, submodeID = defaultSubmode mode,
          lpc_enh_enabled = 1, voc_m1 = 0, voc_m2 = 0, voc_mean = 0, voc_offset = 0, dtx_enabled = False,
          isWideband = 0, highpass_enabled = 1\<rparr>)"

subsection \<open>The excitation\<close>

definition at_exc :: "DecState \<Rightarrow> int \<Rightarrow> int list" where
  "at_exc st off = drop (nat (exc st + off)) (excBuf st)"

definition shift_exc :: "DecState \<Rightarrow> DecState option" where
  "shift_exc st =
     do { vs \<leftarrow> mem_read (excBuf st) (frameSize st) (2 * nat (max_pitch st) + subframeSize st + 12);
          buf \<leftarrow> mem_write (excBuf st) 0 vs;
          Some (st\<lparr>excBuf := buf\<rparr>) }"

definition put_gain :: "int \<Rightarrow> DecState \<Rightarrow> DecState option" where
  "put_gain g st =
     do { buf \<leftarrow> mem_put (pitch_gain_buf st) (pitch_gain_buf_idx st) g;
          let idx = pitch_gain_buf_idx st + 1;
          Some (st\<lparr>pitch_gain_buf := buf, pitch_gain_buf_idx := (if idx > 2 then 0 else idx)\<rparr>) }"

subsection \<open>Lost frames\<close>

definition median3 :: "int \<Rightarrow> int \<Rightarrow> int \<Rightarrow> int" where
  "median3 a b c = (if a < b then (if b < c then b else if a < c then c else a) else (if c < b then b else if c < a then c else a))"

text \<open>The excitation goes on with the last pitch, attenuated, and some noise.\<close>

fun lost_loop :: "int list \<Rightarrow> int \<Rightarrow> int \<Rightarrow> int \<Rightarrow> int \<Rightarrow> int \<Rightarrow> nat \<Rightarrow> (int list \<times> int) option" where
  "lost_loop buf pos pitch_val pitch_gain noise_gain sd 0 = Some (buf, sd)"
| "lost_loop buf pos pitch_val pitch_gain noise_gain sd (Suc i) =
     do { (buf, sd) \<leftarrow> lost_loop buf pos pitch_val pitch_gain noise_gain sd i;
          v \<leftarrow> cell buf (pos + int i - pitch_val);
          let (r, sd) = speex_rand noise_gain sd;
          buf \<leftarrow> set_cells buf (pos + int i) [i16 (MULT16_16_Q15 pitch_gain v + r)];
          Some (buf, sd) }"

definition nb_decode_lost :: "DecState \<Rightarrow> (int list \<times> DecState) option" where
  "nb_decode_lost st =
     do { fact \<leftarrow> (if count_lost st < 10 then cell attenuation (count_lost st) else Some 0);
          b0 \<leftarrow> mem_get (pitch_gain_buf st) 0;
          b1 \<leftarrow> mem_get (pitch_gain_buf st) 1;
          b2 \<leftarrow> mem_get (pitch_gain_buf st) 2;
          let gain_med = median3 b0 b1 b2;
          let st = (if gain_med < last_pitch_gain st then st\<lparr>last_pitch_gain := gain_med\<rparr> else st);
          let pitch_gain = (if last_pitch_gain st > 54 then 54 else last_pitch_gain st);
          let pitch_gain = i16 (SHL16 pitch_gain 9);
          let pitch_gain = i16 (MULT16_16_Q15 fact pitch_gain);
          innov_gain \<leftarrow> compute_rms16 (at_exc st 0) (frameSize st);
          let noise_gain = i16 (MULT16_16_Q15 innov_gain (MULT16_16_Q15 fact (SUB16 32767 (MULT16_16_Q15 pitch_gain pitch_gain))));
          st \<leftarrow> shift_exc st;
          let (r, sd) = speex_rand (1 + count_lost st) (seed st);
          let pitch_val = last_pitch st + SHR32 r 14;
          let pitch_val = (if pitch_val > max_pitch st then max_pitch st else pitch_val);
          let pitch_val = (if pitch_val < min_pitch st then min_pitch st else pitch_val);
          (buf, sd) \<leftarrow> lost_loop (excBuf st) (exc st) pitch_val pitch_gain noise_gain sd (frameSize st);
          qlpc \<leftarrow> bw_lpc 32113 (interp_qlpc st) (lpcSize st);
          x \<leftarrow> cells buf (exc st - int (subframeSize st)) (frameSize st);
          (out, mem) \<leftarrow> iir_mem16 x qlpc (lpcSize st) (mem_sp st);
          (out, hp) \<leftarrow> highpass out 1 (mem_hp st);
          st \<leftarrow> put_gain (i16 (PSHR16 pitch_gain 9)) st;
          Some (out, st\<lparr>excBuf := buf, seed := sd, interp_qlpc := qlpc, mem_sp := mem, mem_hp := hp, first := False,
                        count_lost := i32 (count_lost st + 1)\<rparr>) }"

subsection \<open>Finding the frame in the packet\<close>

text \<open>
  \<open>speex_bits_advance\<close> for an amount that may be negative, which moves the cursor back; \<open>None\<close> is a cursor before the packet.
\<close>

definition speex_bits_advance_by :: "speex_bits \<Rightarrow> int \<Rightarrow> speex_bits option" where
  "speex_bits_advance_by b n =
     (if shl (int (charPtr b)) 3 + int (bitPtr b) + n > nbBits b \<or> overflow b then Some (b\<lparr>overflow := True\<rparr>)
      else if int (charPtr b) + asr (int (bitPtr b) + n) 3 < 0 then None
      else Some (b\<lparr>charPtr := nat (int (charPtr b) + asr (int (bitPtr b) + n) 3), bitPtr := nat ((int (bitPtr b) + n) mod 8)\<rparr>))"

text \<open>The code that the decoder returns early, or the submode of the frame that comes next.\<close>

datatype scan = Return int | Frame nat

text \<open>A wideband layer is skipped, given that its first bit has been read.\<close>

definition skip_layer :: "speex_bits \<Rightarrow> speex_bits option" where
  "skip_layer bits =
     do { (submode, bits) \<leftarrow> speex_bits_unpack_unsigned bits 3;
          advance \<leftarrow> mem_get wb_skip_table (unat submode);
          speex_bits_advance_by bits (advance - (3 + 1)) }"

text \<open>Up to two wideband layers, and the bit that says that a narrowband frame or a request follows.\<close>

definition skip_layers :: "speex_bits \<Rightarrow> (int option \<times> speex_bits) option" where
  "skip_layers bits =
     (if speex_bits_remaining bits < 5 then Some (Some (-1), bits)
      else
        do { (wideband, bits) \<leftarrow> speex_bits_unpack_unsigned bits 1;
             if wideband = 0 then Some (None, bits)
             else
               do { bits \<leftarrow> skip_layer bits;
                    if speex_bits_remaining bits < 5 then Some (Some (-1), bits)
                    else
                      do { (wideband, bits) \<leftarrow> speex_bits_unpack_unsigned bits 1;
                           if wideband = 0 then Some (None, bits)
                           else
                             do { bits \<leftarrow> skip_layer bits;
                                  (wideband, bits) \<leftarrow> speex_bits_unpack_unsigned bits 1;
                                  if wideband = 0 then Some (None, bits) else Some (Some (-2), bits) } } } })"

text \<open>The handlers of in-band requests act on the decoder and the application's data.\<close>

record 'e callbacks =
  speex_callbacks :: "(DecState \<times> 'e) handler option list"
  user_callback :: "(DecState \<times> 'e) handler"

partial_function (option) nb_scan ::
  "'e callbacks \<Rightarrow> speex_bits \<Rightarrow> DecState \<times> 'e \<Rightarrow> (scan \<times> speex_bits \<times> DecState \<times> 'e) option" where
  "nb_scan cb bits st =
     do { (ret, bits) \<leftarrow> skip_layers bits;
          case ret of
            Some code \<Rightarrow> Some (Return code, bits, st)
          | None \<Rightarrow>
              if speex_bits_remaining bits < 4 then Some (Return (-1), bits, st)
              else
                do { (m, bits) \<leftarrow> speex_bits_unpack_unsigned bits 4;
                     if m = 15 then Some (Return (-1), bits, st)
                     else if m = 14 then
                       do { (ret, bits, st) \<leftarrow> speex_inband_handler (speex_callbacks cb) bits st;
                            if ret \<noteq> 0 then Some (Return ret, bits, st) else nb_scan cb bits st }
                     else if m = 13 then
                       do { (ret, bits, st) \<leftarrow> user_callback cb bits st;
                            if ret \<noteq> 0 then Some (Return ret, bits, st) else nb_scan cb bits st }
                     else if m > 8 then Some (Return (-2), bits, st)
                     else Some (Frame (unat m), bits, st) } }"

subsection \<open>A frame without parameters\<close>

fun rand_loop :: "int \<Rightarrow> int \<Rightarrow> nat \<Rightarrow> int list \<times> int" where
  "rand_loop std sd 0 = ([], sd)"
| "rand_loop std sd (Suc n) =
     (let (r, sd) = speex_rand std sd; (rs, sd) = rand_loop std sd n in (r # rs, sd))"

definition nb_null_frame :: "DecState \<Rightarrow> (int list \<times> DecState) option" where
  "nb_null_frame st =
     do { lpc \<leftarrow> bw_lpc 30474 (interp_qlpc st) (lpcSize st);
          innov_gain \<leftarrow> compute_rms16 (at_exc st 0) (frameSize st);
          let (x, sd) = rand_loop innov_gain (seed st) (frameSize st);
          buf \<leftarrow> set_cells (excBuf st) (exc st) x;
          (out, mem) \<leftarrow> iir_mem16 x lpc (lpcSize st) (mem_sp st);
          Some (out, st\<lparr>excBuf := buf, seed := sd, first := True, mem_sp := mem, count_lost := 0\<rparr>) }"

subsection \<open>The parameters of a frame\<close>

text \<open>After a loss the filter memory is damped by how far the line spectral pairs have moved.\<close>

definition lsp_distance :: "int list \<Rightarrow> int list \<Rightarrow> int" where
  "lsp_distance old new = foldl (\<lambda>d (a, b). ADD32 d (if a - b < 0 then - (a - b) else a - b)) 0 (zip old new)"

definition damp_memory :: "int list \<Rightarrow> DecState \<Rightarrow> DecState" where
  "damp_memory qlsp st =
     (let st = (if count_lost st \<noteq> 0
                then (let fact = i16 (SHR16 19661 (nat (SHR32 (lsp_distance (old_qlsp st) qlsp) 15)))
                      in st\<lparr>mem_sp := map (MULT16_32_Q15 fact) (mem_sp st)\<rparr>)
                else st)
      in if first st \<or> count_lost st \<noteq> 0 then st\<lparr>old_qlsp := qlsp\<rparr> else st)"

record frame_params =
  qlsp :: "int list"
  ol_pitch :: int
  ol_pitch_coef :: int
  ol_gain :: int

definition read_frame_params :: "SpeexSubmode \<Rightarrow> DecState \<Rightarrow> speex_bits \<Rightarrow> (frame_params \<times> DecState \<times> speex_bits) option" where
  "read_frame_params sm st bits =
     do { (ql, bits) \<leftarrow> lsp_unquant sm (lpcSize st) bits;
          let st = damp_memory ql st;
          (pitch, bits) \<leftarrow>
            (if lbr_pitch sm \<noteq> -1 then do { (v, bits) \<leftarrow> speex_bits_unpack_unsigned bits 7; Some (min_pitch st + int (unat v), bits) }
             else Some (0, bits));
          (coef, bits) \<leftarrow>
            (if forced_pitch_gain sm then
               do { (v, bits) \<leftarrow> speex_bits_unpack_unsigned bits 4;
                    Some (i16 (MULT16_16_P15 2185 (SHL16 (int (unat v)) 6)), bits) }
             else Some (0, bits));
          (qe, bits) \<leftarrow> speex_bits_unpack_unsigned bits 5;
          g \<leftarrow> mem_get ol_gain_table (unat qe);
          let gain = MULT16_32_Q15 28406 g;
          (st, bits) \<leftarrow>
            (if submodeID st = 1 then
               do { (extra, bits) \<leftarrow> speex_bits_unpack_unsigned bits 4; Some (st\<lparr>dtx_enabled := (extra = 15)\<rparr>, bits) }
             else Some (st, bits));
          let st = (if submodeID st > 1 then st\<lparr>dtx_enabled := False\<rparr> else st);
          Some (\<lparr>qlsp = ql, ol_pitch = pitch, ol_pitch_coef = coef, ol_gain = gain\<rparr>, st, bits) }"

subsection \<open>A subframe\<close>

text \<open>The pitch of the frame: the best gain, with a preference for the smaller of two multiples.\<close>

definition better_pitch :: "int \<Rightarrow> int \<Rightarrow> int \<Rightarrow> int \<Rightarrow> bool" where
  "better_pitch tmp pitch bp bg \<longleftrightarrow>
     tmp > bg \<and> \<bar>2 * bp - pitch\<bar> \<ge> 3 \<and> \<bar>3 * bp - pitch\<bar> \<ge> 4 \<and> \<bar>4 * bp - pitch\<bar> \<ge> 5 \<or>
     tmp > MULT16_16_Q15 19661 bg \<and>
       (\<bar>bp - 2 * pitch\<bar> < 3 \<or> \<bar>bp - 3 * pitch\<bar> < 4 \<or> \<bar>bp - 4 * pitch\<bar> < 5) \<or>
     MULT16_16_Q15 21955 tmp > bg \<and>
       (\<bar>2 * bp - pitch\<bar> < 3 \<or> \<bar>3 * bp - pitch\<bar> < 4 \<or> \<bar>4 * bp - pitch\<bar> < 5)"

record pitch_track =
  pitch_average :: int
  best_pitch :: int
  best_pitch_gain :: int

definition track_pitch :: "gains \<Rightarrow> int \<Rightarrow> pitch_track \<Rightarrow> pitch_track" where
  "track_pitch g pitch t =
     (let tmp = i16 (gain_3tap_to_1tap g);
          t = t\<lparr>pitch_average := i16 (pitch_average t + tmp)\<rparr>
      in if better_pitch tmp pitch (best_pitch t) (best_pitch_gain t)
         then t\<lparr>best_pitch := pitch, best_pitch_gain := (if tmp > best_pitch_gain t then tmp else best_pitch_gain t)\<rparr>
         else t)"

definition pitch_limits :: "SpeexSubmode \<Rightarrow> DecState \<Rightarrow> int \<Rightarrow> int \<times> int" where
  "pitch_limits sm st olp =
     (if lbr_pitch sm \<noteq> -1 then
        (let margin = lbr_pitch sm in
         if margin \<noteq> 0 then
           (if olp - margin + 1 < min_pitch st then min_pitch st else olp - margin + 1,
            if olp + margin > max_pitch st then max_pitch st else olp + margin)
         else (olp, olp))
      else (min_pitch st, max_pitch st))"

definition subframe_energy :: "SpeexSubmode \<Rightarrow> int \<Rightarrow> speex_bits \<Rightarrow> (int \<times> speex_bits) option" where
  "subframe_energy sm gain bits =
     (if have_subframe_gain sm = 3 then
        do { (q, bits) \<leftarrow> speex_bits_unpack_unsigned bits 3;
             s \<leftarrow> mem_get exc_gain_quant_scal3 (unat q);
             Some (MULT16_32_Q14 s gain, bits) }
      else if have_subframe_gain sm = 1 then
        do { (q, bits) \<leftarrow> speex_bits_unpack_unsigned bits 1;
             s \<leftarrow> mem_get exc_gain_quant_scal1 (unat q);
             Some (MULT16_32_Q14 s gain, bits) }
      else Some (gain, bits))"

text \<open>The innovation, of one codebook or two.\<close>

definition decode_innovation :: "SpeexSubmode \<Rightarrow> nat \<Rightarrow> int \<Rightarrow> speex_bits \<Rightarrow> int \<Rightarrow> (int list \<times> speex_bits \<times> int) option" where
  "decode_innovation sm nsf ener bits sd =
     do { unquant \<leftarrow> innovation_unquant sm;
          (innov, bits, sd) \<leftarrow> unquant (replicate nsf 0) (innovation_par sm) nsf bits sd;
          let innov = signal_mul innov ener;
          if double_codebook sm then
            do { (innov2, bits, sd) \<leftarrow> unquant (replicate nsf 0) (innovation_par sm) nsf bits sd;
                 let innov2 = signal_mul innov2 (MULT16_32_Q15 14895 ener);
                 Some (map (\<lambda>(a, b). ADD32 a b) (zip innov innov2), bits, sd) }
          else Some (innov, bits, sd) }"

text \<open>
  The vocoder mode: pulses a pitch apart, until the subframe is full, and noise by the filter that follows. The loop does not end when the
  pitch is not positive.
\<close>

partial_function (option) voc_pulses :: "int \<Rightarrow> nat \<Rightarrow> int \<Rightarrow> int \<Rightarrow> int list \<Rightarrow> (int list \<times> int) option" where
  "voc_pulses pitch nsf pulse off x =
     (if off < int nsf then
        do { x \<leftarrow> (if off \<ge> 0 then mem_put x (nat off) pulse else Some x);
             voc_pulses pitch nsf pulse (off + pitch) x }
      else Some (x, off))"

fun voc_filter :: "int \<Rightarrow> (int \<times> int) list \<Rightarrow> int \<times> int \<times> int \<Rightarrow> int list \<times> int \<times> int \<times> int" where
  "voc_filter g [] voc = ([], voc)"
| "voc_filter g ((e, iv) # xs) (m1, m2, mean) =
     (let v = ADD16 (ADD16 (MULT16_16_Q15 22938 e) (MULT16_16_Q15 9830 m1))
                    (SUB16 (MULT16_16_Q15 (32767 - MULT16_16_16 435 g) (EXTRACT16 (PSHR32 iv 14)))
                           (MULT16_16_Q15 (MULT16_16_16 77 g) (EXTRACT16 (PSHR32 m2 14))));
          mean = EXTRACT16 (PSHR32 (ADD32 (MULT16_16 26214 mean) (MULT16_16 6554 v)) 15);
          (vs, voc) = voc_filter g xs (e, iv, mean)
      in (i16 (v - mean) # vs, voc))"

definition vocoder :: "frame_params \<Rightarrow> int list \<Rightarrow> DecState \<Rightarrow> (int list \<times> DecState) option" where
  "vocoder fp innov st =
     do { let g = i16 (MULT16_16_P14 24576 (ol_pitch_coef fp - 13));
          let g = (if g < 0 then 0 else g);
          let g = (if g > 64 then 64 else g);
          let pulse = i16 (MULT16_16 (spx_sqrt (MULT16_16_16 2 (ol_pitch fp)))
                                     (EXTRACT16 (PSHR32 (MULT16_16 g (PSHR32 (ol_gain fp) 14)) 6)));
          (x, off) \<leftarrow> voc_pulses (ol_pitch fp) (subframeSize st) pulse (voc_offset st) (replicate (subframeSize st) 0);
          let (y, m1, m2, mean) = voc_filter g (zip x innov) (voc_m1 st, voc_m2 st, voc_mean st);
          Some (y, st\<lparr>voc_offset := off - int (subframeSize st), voc_m1 := m1, voc_m2 := m2, voc_mean := mean\<rparr>) }"

definition save_innovation :: "nat \<Rightarrow> int list \<Rightarrow> DecState \<Rightarrow> DecState option" where
  "save_innovation offset innov st =
     (case innov_save st of
        None \<Rightarrow> Some st
      | Some block \<Rightarrow>
          do { block \<leftarrow> mem_write block offset (map (\<lambda>v. EXTRACT16 (PSHR32 v 14)) innov);
               Some (st\<lparr>innov_save := Some block\<rparr>) })"

definition nb_subframe ::
  "SpeexSubmode \<Rightarrow> frame_params \<Rightarrow> nat \<Rightarrow> pitch_track \<Rightarrow> DecState \<Rightarrow> speex_bits \<Rightarrow> (pitch_track \<times> DecState \<times> speex_bits) option" where
  "nb_subframe sm fp sub t st bits =
     do { let nsf = subframeSize st;
          let offset = nsf * sub;
          let pos = exc st + int offset;
          buf \<leftarrow> set_cells (excBuf st) pos (replicate nsf 0);
          let (pit_min, pit_max) = pitch_limits sm st (ol_pitch fp);
          unquant \<leftarrow> ltp_unquant sm;
          (buf, exc32, pitch, g, bits) \<leftarrow>
            unquant buf pos pit_min pit_max (ol_pitch_coef fp) (ltp_par sm) nsf bits (count_lost st) offset (last_pitch_gain st) 0;
          let exc32 = sanitize_values32 exc32 (- 262144000) 262144000;
          let t = track_pitch g pitch t;
          (ener, bits) \<leftarrow> subframe_energy sm (ol_gain fp) bits;
          (innov, bits, sd) \<leftarrow> decode_innovation sm nsf ener bits (seed st);
          let st = st\<lparr>seed := sd\<rparr>;
          let x = map (\<lambda>(e, v). EXTRACT16 (SATURATE (PSHR32 (ADD32 (SHL32 e 1) v) 14) 32767)) (zip exc32 innov);
          st \<leftarrow> save_innovation offset innov st;
          (x, st) \<leftarrow> (if submodeID st = 1 then vocoder fp innov st else Some (x, st));
          buf \<leftarrow> set_cells buf pos x;
          Some (t, st\<lparr>excBuf := buf\<rparr>, bits) }"

fun nb_subframes ::
  "SpeexSubmode \<Rightarrow> frame_params \<Rightarrow> nat list \<Rightarrow> pitch_track \<Rightarrow> DecState \<Rightarrow> speex_bits \<Rightarrow> (pitch_track \<times> DecState \<times> speex_bits) option" where
  "nb_subframes sm fp [] t st bits = Some (t, st, bits)"
| "nb_subframes sm fp (sub # subs) t st bits =
     do { (t, st, bits) \<leftarrow> nb_subframe sm fp sub t st bits; nb_subframes sm fp subs t st bits }"

subsection \<open>From the excitation to the output\<close>

definition enhance :: "SpeexSubmode \<Rightarrow> int \<Rightarrow> DecState \<Rightarrow> (int list \<times> DecState) option" where
  "enhance sm pitch st =
     (if lpc_enh_enabled st \<noteq> 0 \<and> comb_gain sm > 0 \<and> count_lost st = 0 then
        do { (buf, a) \<leftarrow> multicomb (excBuf st) (exc st - int (subframeSize st)) (2 * subframeSize st) pitch 40 (comb_gain sm);
             (buf, b) \<leftarrow> multicomb buf (exc st + int (subframeSize st)) (2 * subframeSize st) pitch 40 (comb_gain sm);
             Some (a @ b, st\<lparr>excBuf := buf\<rparr>) }
      else do { x \<leftarrow> cells (excBuf st) (exc st - int (subframeSize st)) (frameSize st); Some (x, st) })"

text \<open>After a loss the excitation gets the energy that the frame says.\<close>

definition rescale_lost :: "int \<Rightarrow> int list \<times> DecState \<Rightarrow> (int list \<times> DecState) option" where
  "rescale_lost gain out_st =
     (case out_st of (out, st) \<Rightarrow>
       if count_lost st \<noteq> 0 then
         do { exc_ener \<leftarrow> compute_rms16 (at_exc st 0) (frameSize st);
              gain32 \<leftarrow> PDIV32 gain (ADD16 exc_ener 1);
              let gain32 = (if gain32 > 32767 then 32767 else gain32);
              let g = EXTRACT16 gain32;
              x \<leftarrow> cells (excBuf st) (exc st) (frameSize st);
              buf \<leftarrow> set_cells (excBuf st) (exc st) (map (\<lambda>v. i16 (MULT16_16_Q14 g v)) x);
              out \<leftarrow> cells buf (exc st - int (subframeSize st)) (frameSize st);
              Some (out, st\<lparr>excBuf := buf\<rparr>) }
       else Some (out, st))"

text \<open>The gain of the filter at half the sampling rate.\<close>

definition gain_at_pi :: "int list \<Rightarrow> nat \<Rightarrow> int" where
  "gain_at_pi ak ord = foldl (\<lambda>g i. ADD32 g (SUB32 (ak ! (i + 1)) (ak ! i))) 8192 (map (\<lambda>i. 2 * i) [0..<(ord + 1) div 2])"

definition synth_subframe :: "int list \<Rightarrow> nat \<Rightarrow> int list \<Rightarrow> DecState \<Rightarrow> (int list \<times> DecState) option" where
  "synth_subframe ql sub sp st =
     do { il \<leftarrow> lsp_interpolate (old_qlsp st) ql (lpcSize st) sub (nbSubframes st);
          il \<leftarrow> lsp_enforce_margin il (lpcSize st) 16;
          ak \<leftarrow> lsp_to_lpc il (lpcSize st);
          pg \<leftarrow> mem_put (pi_gain st) sub (gain_at_pi ak (lpcSize st));
          (sp, mem) \<leftarrow> iir_mem16 sp (interp_qlpc st) (lpcSize st) (mem_sp st);
          Some (sp, st\<lparr>pi_gain := pg, mem_sp := mem, interp_qlpc := ak\<rparr>) }"

fun synth_subframes :: "int list \<Rightarrow> nat list \<Rightarrow> int list \<Rightarrow> DecState \<Rightarrow> (int list \<times> DecState) option" where
  "synth_subframes ql [] out st = Some ([], st)"
| "synth_subframes ql (sub # subs) out st =
     do { sp \<leftarrow> mem_read out (subframeSize st * sub) (subframeSize st);
          (sp, st) \<leftarrow> synth_subframe ql sub sp st;
          (rest, st) \<leftarrow> synth_subframes ql subs out st;
          Some (sp @ rest, st) }"

definition track_level :: "int \<Rightarrow> DecState \<Rightarrow> DecState" where
  "track_level gain st =
     (let lv = i16 (1 + PSHR32 gain 14);
          mx = MULT16_16_Q15 32440 (max_level st);
          mx = (if mx > lv then mx else lv);
          mn = ADD16 1 (MULT16_16_Q14 16548 (min_level st));
          mn = (if mn < lv then mn else lv);
          mx = (if mx < mn + 1 then i16 (mn + 1) else mx)
      in st\<lparr>level := lv, max_level := mx, min_level := mn\<rparr>)"

definition nb_frame :: "SpeexSubmode \<Rightarrow> DecState \<Rightarrow> speex_bits \<Rightarrow> (int list \<times> DecState \<times> speex_bits) option" where
  "nb_frame sm st bits =
     do { (fp, st, bits) \<leftarrow> read_frame_params sm st bits;
          (t, st, bits) \<leftarrow> nb_subframes sm fp [0..<nbSubframes st] \<lparr>pitch_average = 0, best_pitch = 40, best_pitch_gain = 0\<rparr> st bits;
          (out, st) \<leftarrow> enhance sm (best_pitch t) st;
          (out, st) \<leftarrow> rescale_lost (ol_gain fp) (out, st);
          (out, st) \<leftarrow> synth_subframes (qlsp fp) [0..<nbSubframes st] out st;
          (out, st) \<leftarrow>
            (if highpass_enabled st \<noteq> 0 then
               do { (out, hp) \<leftarrow> highpass out ((if isWideband st \<noteq> 0 then 2 else 0) + 1) (mem_hp st); Some (out, st\<lparr>mem_hp := hp\<rparr>) }
             else Some (out, st));
          let st = track_level (ol_gain fp) st;
          let g = i16 (PSHR16 (pitch_average t) 2);
          st \<leftarrow> put_gain g (st\<lparr>old_qlsp := qlsp fp, first := False, count_lost := 0, last_pitch := best_pitch t, last_pitch_gain := g\<rparr>);
          Some (out, st\<lparr>last_ol_gain := i16 (ol_gain fp)\<rparr>, bits) }"

subsection \<open>The decoder\<close>

text \<open>The frame of the submode that the state is in.\<close>

definition nb_decode_frame :: "DecState \<Rightarrow> speex_bits option \<Rightarrow> (int list \<times> DecState \<times> speex_bits option) option" where
  "nb_decode_frame st bits =
     do { st \<leftarrow> shift_exc st;
          sm \<leftarrow> cell (submodes st) (submodeID st);
          case sm of
            None \<Rightarrow> do { (out, st) \<leftarrow> nb_null_frame st; Some (out, st, bits) }
          | Some sm \<Rightarrow>
              do { b \<leftarrow> bits;
                   (out, st, b) \<leftarrow> nb_frame sm st b;
                   Some (out, st, Some b) } }"

definition nb_decode ::
  "'e callbacks \<Rightarrow> DecState \<times> 'e \<Rightarrow> speex_bits option \<Rightarrow> (int \<times> int list option \<times> (DecState \<times> 'e) \<times> speex_bits option) option" where
  "nb_decode cb st_env bits =
     (case (st_env, bits) of
        ((st, env), None) \<Rightarrow>
          if dtx_enabled st then
            do { (out, st, b) \<leftarrow> nb_decode_frame (st\<lparr>submodeID := 0\<rparr>) None; Some (0, Some out, (st, env), None) }
          else do { (out, st) \<leftarrow> nb_decode_lost st; Some (0, Some out, (st, env), None) }
      | ((st, env), Some b) \<Rightarrow>
          do { (ret, b, st, env) \<leftarrow>
                 (if encode_submode st \<noteq> 0
                  then do { (s, b, st, env) \<leftarrow> nb_scan cb b (st, env);
                            case s of Return code \<Rightarrow> Some (Some code, b, st, env)
                            | Frame m \<Rightarrow> Some (None, b, st\<lparr>submodeID := int m\<rparr>, env) }
                  else Some (None, b, st, env));
               case ret of
                 Some code \<Rightarrow> Some (code, None, (st, env), Some b)
               | None \<Rightarrow> do { (out, st, b) \<leftarrow> nb_decode_frame st (Some b); Some (0, Some out, (st, env), b) } })"

end
