(* ===== verification/Nb_Safety.thy ===== *)
theory Nb_Safety
  imports Nb_Decoder
begin

text \<open>
  The narrowband decoder is safe: an invariant of its state, that every frame, lost or not, of every submode and
  with any parameters is decoded within the buffers, and that the search for the frame in the packet ends.
\<close>

subsection \<open>The invariant\<close>

definition dec_shape :: "DecState \<Rightarrow> bool" where
  "dec_shape st \<longleftrightarrow>
     frameSize st = 160 \<and> subframeSize st = 40 \<and> nbSubframes st = 4 \<and> lpcSize st = 10 \<and> min_pitch st = 17 \<and> max_pitch st = 144 \<and>
     exc st = 334 \<and> submodes st = SpeexNBMode.submodes nb_mode"

definition dec_buffers :: "DecState \<Rightarrow> bool" where
  "dec_buffers st \<longleftrightarrow>
     samples 500 (excBuf st) \<and> samples 10 (old_qlsp st) \<and> samples 10 (interp_qlpc st) \<and> word_block 10 (mem_sp st) \<and>
     length (pi_gain st) = 4 \<and> (\<forall>block. innov_save st = Some block \<longrightarrow> 160 \<le> length block)"

definition dec_values :: "DecState \<Rightarrow> bool" where
  "dec_values st \<longleftrightarrow>
     17 \<le> last_pitch st \<and> last_pitch st \<le> 144 \<and> 0 \<le> last_pitch_gain st \<and> last_pitch_gain st \<le> 32767 \<and>
     length (pitch_gain_buf st) = 3 \<and> (\<forall>v \<in> set (pitch_gain_buf st). 0 \<le> v \<and> v \<le> 32767) \<and> pitch_gain_buf_idx st < 3 \<and>
     is_i32 (seed st) \<and> 0 \<le> submodeID st \<and> submodeID st < 16 \<and> 0 \<le> voc_offset st"

definition dec_ok :: "DecState \<Rightarrow> bool" where
  "dec_ok st \<longleftrightarrow> dec_shape st \<and> dec_buffers st \<and> dec_values st"

lemma dec_shapeD:
  assumes "dec_ok st"
  shows "frameSize st = 160" "subframeSize st = 40" "nbSubframes st = 4" "lpcSize st = 10" "min_pitch st = 17" "max_pitch st = 144"
    "exc st = 334" "submodes st = SpeexNBMode.submodes nb_mode"
  using assms by (simp_all add: dec_ok_def dec_shape_def)

lemma dec_buffersD:
  assumes "dec_ok st"
  shows "samples 500 (excBuf st)" "samples 10 (old_qlsp st)" "samples 10 (interp_qlpc st)" "word_block 10 (mem_sp st)" "length (pi_gain st) = 4"
    "innov_save st = Some block \<Longrightarrow> 160 \<le> length block"
  using assms by (simp_all add: dec_ok_def dec_buffers_def)

lemma dec_valuesD:
  assumes "dec_ok st"
  shows "17 \<le> last_pitch st" "last_pitch st \<le> 144" "0 \<le> last_pitch_gain st" "last_pitch_gain st \<le> 32767"
    "length (pitch_gain_buf st) = 3" "v \<in> set (pitch_gain_buf st) \<Longrightarrow> 0 \<le> v \<and> v \<le> 32767" "pitch_gain_buf_idx st < 3"
    "is_i32 (seed st)" "0 \<le> submodeID st" "submodeID st < 16" "0 \<le> voc_offset st"
  using assms by (simp_all add: dec_ok_def dec_values_def)

lemma dec_ok_init: "dec_ok (nb_decoder_init nb_mode)"
  by (simp add: dec_ok_def dec_shape_def dec_buffers_def dec_values_def nb_decoder_init_def nb_mode_def Let_def samples_def
      word_block_def is_i16_def is_i32_def)

text \<open>Updates that keep the invariant.\<close>

lemma dec_ok_update:
  assumes "dec_ok st"
  shows "samples 500 b \<Longrightarrow> dec_ok (st\<lparr>excBuf := b\<rparr>)" "samples 10 b \<Longrightarrow> dec_ok (st\<lparr>old_qlsp := b\<rparr>)"
    "samples 10 b \<Longrightarrow> dec_ok (st\<lparr>interp_qlpc := b\<rparr>)" "word_block 10 b \<Longrightarrow> dec_ok (st\<lparr>mem_sp := b\<rparr>)"
    "length b = 4 \<Longrightarrow> dec_ok (st\<lparr>pi_gain := b\<rparr>)" "160 \<le> length b \<Longrightarrow> dec_ok (st\<lparr>innov_save := Some b\<rparr>)"
    "17 \<le> p \<Longrightarrow> p \<le> 144 \<Longrightarrow> dec_ok (st\<lparr>last_pitch := p\<rparr>)" "0 \<le> p \<Longrightarrow> p \<le> 32767 \<Longrightarrow> dec_ok (st\<lparr>last_pitch_gain := p\<rparr>)"
    "is_i32 p \<Longrightarrow> dec_ok (st\<lparr>seed := p\<rparr>)" "0 \<le> p \<Longrightarrow> p < 16 \<Longrightarrow> dec_ok (st\<lparr>submodeID := p\<rparr>)" "0 \<le> p \<Longrightarrow> dec_ok (st\<lparr>voc_offset := p\<rparr>)"
    "dec_ok (st\<lparr>first := f\<rparr>)" "dec_ok (st\<lparr>count_lost := c\<rparr>)" "dec_ok (st\<lparr>mem_hp := h\<rparr>)" "dec_ok (st\<lparr>last_ol_gain := c\<rparr>)"
    "dec_ok (st\<lparr>level := c\<rparr>)" "dec_ok (st\<lparr>max_level := c\<rparr>)" "dec_ok (st\<lparr>min_level := c\<rparr>)" "dec_ok (st\<lparr>voc_m1 := c\<rparr>)"
    "dec_ok (st\<lparr>voc_m2 := c\<rparr>)" "dec_ok (st\<lparr>voc_mean := c\<rparr>)" "dec_ok (st\<lparr>dtx_enabled := f\<rparr>)"
  using assms by (simp_all add: dec_ok_def dec_shape_def dec_buffers_def dec_values_def)

lemma shift_exc_total:
  assumes "dec_ok st"
  shows "\<exists>buf. shift_exc st = Some (st\<lparr>excBuf := buf\<rparr>) \<and> samples 500 buf"
proof -
  note d = dec_shapeD [OF assms] and b = dec_buffersD(1) [OF assms]
  have l: "length (excBuf st) = 500" using b by (rule samples_length)
  have "samples (340 + 160) (take 340 (drop 160 (excBuf st)) @ drop 340 (excBuf st))"
  proof (rule samples_append)
    have "samples (500 - 160) (drop 160 (excBuf st))" using b by (rule samples_drop)
    then show "samples 340 (take 340 (drop 160 (excBuf st)))" by (rule samples_take) simp
    show "samples 160 (drop 340 (excBuf st))" using samples_drop [OF b, of 340] by simp
  qed
  moreover have "shift_exc st = Some (st\<lparr>excBuf := take 340 (drop 160 (excBuf st)) @ drop 340 (excBuf st)\<rparr>)"
    using d l by (simp add: shift_exc_def mem_simps)
  ultimately show ?thesis by auto
qed

lemma put_gain_total:
  assumes "dec_ok st" and "0 \<le> g" and "g \<le> 32767"
  shows "\<exists>buf idx. put_gain g st = Some (st\<lparr>pitch_gain_buf := buf, pitch_gain_buf_idx := idx\<rparr>) \<and>
    dec_ok (st\<lparr>pitch_gain_buf := buf, pitch_gain_buf_idx := idx\<rparr>)"
proof -
  note v = dec_valuesD [OF assms(1)]
  have "\<forall>w \<in> set ((pitch_gain_buf st)[pitch_gain_buf_idx st := g]). 0 \<le> w \<and> w \<le> 32767"
    by (rule ball_list_update) (use assms v in auto)
  then have "dec_ok (st\<lparr>pitch_gain_buf := (pitch_gain_buf st)[pitch_gain_buf_idx st := g],
      pitch_gain_buf_idx := if pitch_gain_buf_idx st + 1 > 2 then 0 else pitch_gain_buf_idx st + 1\<rparr>)"
    using assms v by (simp add: dec_ok_def dec_shape_def dec_buffers_def dec_values_def)
  moreover have "mem_put (pitch_gain_buf st) (pitch_gain_buf_idx st) g = Some ((pitch_gain_buf st)[pitch_gain_buf_idx st := g])"
    using v(5,7) by (intro mem_put_Some) simp
  ultimately show ?thesis unfolding put_gain_def Let_def by (intro exI conjI) simp_all
qed

lemma at_exc_level:
  assumes "dec_ok st"
  shows "\<exists>r. compute_rms16 (at_exc st 0) (frameSize st) = Some r \<and> is_i16 r \<and> r \<noteq> -1"
  using compute_rms16_total [of 160 "at_exc st 0"] dec_shapeD [OF assms] samples_length [OF dec_buffersD(1) [OF assms]]
  by (simp add: at_exc_def whole_fours_def)

subsection \<open>The block for the innovation\<close>

text \<open>No step of the decoder gives up the block for the innovation.\<close>

definition same_loan :: "DecState \<Rightarrow> DecState \<Rightarrow> bool" where
  "same_loan st st' \<longleftrightarrow> (innov_save st' = None \<longleftrightarrow> innov_save st = None)"

lemma same_loan_refl [simp]: "same_loan st st"
  by (simp add: same_loan_def)

lemma same_loan_trans: "same_loan st st1 \<Longrightarrow> same_loan st1 st2 \<Longrightarrow> same_loan st st2"
  by (simp add: same_loan_def)

lemma same_loan_update: "innov_save st' = innov_save st \<Longrightarrow> same_loan st st'"
  by (simp add: same_loan_def)

lemma damp_memory_loan: "same_loan st (damp_memory q st)"
  by (simp add: damp_memory_def same_loan_def Let_def)

lemma read_frame_params_loan: "read_frame_params sm st b = Some (fp, st', b') \<Longrightarrow> same_loan st st'"
  unfolding read_frame_params_def Let_def using damp_memory_loan
  by (auto simp: same_loan_def split: Option.bind_splits prod.splits if_splits)

lemma save_innovation_loan: "save_innovation off x st = Some st' \<Longrightarrow> same_loan st st'"
  by (auto simp: save_innovation_def same_loan_def split: option.splits Option.bind_splits)

lemma vocoder_loan: "vocoder fp x st = Some (y, st') \<Longrightarrow> same_loan st st'"
  unfolding vocoder_def Let_def by (auto simp: same_loan_def split: Option.bind_splits prod.splits)

lemma enhance_loan: "enhance sm p st = Some (x, st') \<Longrightarrow> same_loan st st'"
  by (auto simp: enhance_def same_loan_def split: Option.bind_splits if_splits)

lemma rescale_lost_loan: "rescale_lost g (x, st) = Some (y, st') \<Longrightarrow> same_loan st st'"
  by (auto simp: rescale_lost_def same_loan_def Let_def split: Option.bind_splits if_splits)

lemma synth_subframe_loan: "synth_subframe ql sub sp st = Some (y, st') \<Longrightarrow> same_loan st st'"
  by (auto simp: synth_subframe_def same_loan_def split: Option.bind_splits)

lemma synth_subframes_loan: "synth_subframes ql subs out st = Some (y, st') \<Longrightarrow> same_loan st st'"
proof (induction subs arbitrary: st y)
  case (Cons s subs)
  then show ?case using synth_subframe_loan same_loan_trans by (fastforce split: Option.bind_splits)
qed simp

subsection \<open>Lost frames\<close>

lemma is_i32_rand [simp]: "is_i32 (snd (speex_rand std sd))"
  by (simp add: speex_rand_def Let_def)

lemma is_i16_rand [simp]: "is_i16 (fst (speex_rand std sd))"
  by (simp add: speex_rand_def Let_def)

lemma lost_loop_total:
  assumes "samples n buf" and "0 < pitch" and "pitch \<le> pos" and "pos + int m \<le> int n" and "is_i32 sd"
  shows "\<exists>buf' sd'. lost_loop buf pos pitch pg ng sd m = Some (buf', sd') \<and> samples n buf' \<and> is_i32 sd'"
  using assms(4)
proof (induction m)
  case 0
  then show ?case using assms(1,5) by simp
next
  case (Suc m)
  then obtain buf1 sd1 where 1: "lost_loop buf pos pitch pg ng sd m = Some (buf1, sd1)" "samples n buf1" "is_i32 sd1" by auto
  obtain v where v: "cell buf1 (pos + int m - pitch) = Some v"
    using cell_Some [of "pos + int m - pitch" buf1] assms(2,3) Suc.prems 1(2) by (auto simp: samples_length)
  obtain r sd2 where r: "speex_rand ng sd1 = (r, sd2)" by fastforce
  have "samples 1 [i16 (MULT16_16_Q15 pg v + r)]" by (simp add: samples_def)
  then obtain buf2 where "set_cells buf1 (pos + int m) [i16 (MULT16_16_Q15 pg v + r)] = Some buf2" "samples n buf2"
    using set_cells_samples [OF 1(2), of 1 _ "pos + int m"] assms(2,3) Suc.prems by auto
  moreover have "is_i32 sd2" using is_i32_rand [of ng sd1] r by simp
  ultimately show ?case using 1 v r by simp
qed

lemma attenuation_range: "0 \<le> c \<Longrightarrow> c < 10 \<Longrightarrow> \<exists>f. cell attenuation c = Some f \<and> 0 \<le> f \<and> f \<le> 32767"
proof -
  assume c: "0 \<le> c" "c < 10"
  have "list_all (\<lambda>f. 0 \<le> f \<and> f \<le> 32767) attenuation" "length attenuation = 10" by (simp_all add: attenuation_def)
  then show ?thesis using c cell_Some [of c attenuation] by (auto simp: list_all_length nat_less_iff)
qed

lemma Q15_range:
  assumes "0 \<le> a" "a \<le> 32767" "0 \<le> b" "b \<le> B" "B \<le> 32767"
  shows "0 \<le> MULT16_16_Q15 a b \<and> MULT16_16_Q15 a b \<le> B"
proof -
  have "0 \<le> a * b" "a * b \<le> 32767 * B" using assms by (simp, intro mult_mono) simp_all
  then have "0 * 2 ^ 15 \<le> a * b" "a * b < (B + 1) * 2 ^ 15" using assms by simp_all
  then have "0 \<le> asr (a * b) 15 \<and> asr (a * b) 15 \<le> B" by (rule asr_bounds)
  moreover have "is_i16 a" "is_i16 b" using assms by (simp_all add: is_i16_def)
  ultimately show ?thesis by (simp add: MULT16_16_Q15_def SHR32_def MULT16_16_exact)
qed

lemma median3_in: "median3 a b c \<in> {a, b, c}"
  by (simp add: median3_def)

lemma nb_decode_lost_total:
  assumes ok: "dec_ok st" and c: "0 \<le> count_lost st" "count_lost st < 2147483647"
  shows "\<exists>out st'. nb_decode_lost st = Some (out, st') \<and> samples 160 out \<and> dec_ok st' \<and> same_loan st st' \<and> count_lost st' = count_lost st + 1"
proof -
  note d = dec_shapeD [OF ok] and v = dec_valuesD [OF ok]
  obtain fact where f: "(if count_lost st < 10 then cell attenuation (count_lost st) else Some 0) = Some fact" "0 \<le> fact" "fact \<le> 32767"
    using attenuation_range [of "count_lost st"] c by (cases "count_lost st < 10") auto
  obtain b0 b1 b2 where pb: "pitch_gain_buf st = [b0, b1, b2]" using v(5) by (auto simp: length_Suc_conv numeral_3_eq_3)
  have mg: "mem_get (pitch_gain_buf st) 0 = Some b0" "mem_get (pitch_gain_buf st) 1 = Some b1" "mem_get (pitch_gain_buf st) 2 = Some b2"
    by (simp_all add: pb mem_get_def)
  have m: "0 \<le> median3 b0 b1 b2" "median3 b0 b1 b2 \<le> 32767" using median3_in [of b0 b1 b2] v(6) pb by auto
  define st1 where "st1 = (if median3 b0 b1 b2 < last_pitch_gain st then st\<lparr>last_pitch_gain := median3 b0 b1 b2\<rparr> else st)"
  have ok1: "dec_ok st1" using ok m by (simp add: st1_def dec_ok_update)
  have same1: "count_lost st1 = count_lost st" by (simp add: st1_def)
  note d1 = dec_shapeD [OF ok1] and v1 = dec_valuesD [OF ok1]
  define pg0 where "pg0 = (if last_pitch_gain st1 > 54 then 54 else last_pitch_gain st1)"
  have "0 \<le> pg0" "pg0 \<le> 54" using v1 by (simp_all add: pg0_def)
  then have pg1: "i16 (SHL16 pg0 9) = pg0 * 512" by (simp add: SHL16_def shl_def is_i16_def is_i32_def)
  define pg where "pg = i16 (MULT16_16_Q15 fact (i16 (SHL16 pg0 9)))"
  have "0 \<le> MULT16_16_Q15 fact (pg0 * 512) \<and> MULT16_16_Q15 fact (pg0 * 512) \<le> 27648"
    by (rule Q15_range) (use f \<open>0 \<le> pg0\<close> \<open>pg0 \<le> 54\<close> in simp_all)
  then have pg: "0 \<le> pg" "pg \<le> 27648" unfolding pg_def pg1 by (simp_all add: is_i16_def)
  obtain ig where ig: "compute_rms16 (at_exc st1 0) (frameSize st1) = Some ig" using at_exc_level [OF ok1] by blast
  define ng where "ng = i16 (MULT16_16_Q15 ig (MULT16_16_Q15 fact (SUB16 32767 (MULT16_16_Q15 pg pg))))"
  obtain buf2 where st2: "shift_exc st1 = Some (st1\<lparr>excBuf := buf2\<rparr>)" "samples 500 buf2" using shift_exc_total [OF ok1] by blast
  define st2 where "st2 = st1\<lparr>excBuf := buf2\<rparr>"
  have ok2: "dec_ok st2" unfolding st2_def by (rule dec_ok_update(1) [OF ok1 st2(2)])
  note d2 = dec_shapeD [OF ok2] and b2 = dec_buffersD [OF ok2]
  obtain r sd where r: "speex_rand (1 + count_lost st2) (seed st2) = (r, sd)" by fastforce
  have sd: "is_i32 sd" using is_i32_rand [of "1 + count_lost st2" "seed st2"] r by simp
  define p0 where "p0 = (if last_pitch st2 + SHR32 r 14 > max_pitch st2 then max_pitch st2 else last_pitch st2 + SHR32 r 14)"
  define p where "p = (if p0 < min_pitch st2 then min_pitch st2 else p0)"
  have p: "17 \<le> p" "p \<le> 144" using d2 by (simp_all add: p0_def p_def)
  obtain buf3 sd3 where l: "lost_loop (excBuf st2) (exc st2) p pg ng sd (frameSize st2) = Some (buf3, sd3)" "samples 500 buf3" "is_i32 sd3"
    using lost_loop_total [OF b2(1), of p "exc st2" 160 sd pg ng] p sd d2 by auto
  obtain qlpc where q: "bw_lpc 32113 (interp_qlpc st2) (lpcSize st2) = Some qlpc" "samples 10 qlpc"
    using bw_lpc_total [of 10 "interp_qlpc st2" 32113] b2(3) d2 by (auto simp: samples_length)
  obtain x where x: "cells buf3 (exc st2 - int (subframeSize st2)) (frameSize st2) = Some x" "samples 160 x"
    using cells_samples [OF l(2), of 294 160] d2 by auto
  obtain y mem where y: "iir_mem16 x qlpc (lpcSize st2) (mem_sp st2) = Some (y, mem)" "samples 160 y" "word_block 10 mem"
    using iir_mem16_total [of 10 qlpc "mem_sp st2" x] q(2) b2(4) x(2) d2 by (auto simp: samples_length)
  obtain z hp where z: "highpass y 1 (mem_hp st2) = Some (z, hp)" "samples 160 z"
    using highpass_total [of y 1 "mem_hp st2"] y(2) by (auto simp: samples_length)
  have h: "0 \<le> (pg + 256) div 512" "(pg + 256) div 512 \<le> 54" using pg by linarith+
  then have g: "i16 (PSHR16 pg 9) = (pg + 256) div 512"
    using pg by (simp add: PSHR16_def SHR16_def asr_def shl_def is_i32_def is_i16_def)
  obtain buf idx where pgb: "put_gain (i16 (PSHR16 pg 9)) st2 = Some (st2\<lparr>pitch_gain_buf := buf, pitch_gain_buf_idx := idx\<rparr>)"
    "dec_ok (st2\<lparr>pitch_gain_buf := buf, pitch_gain_buf_idx := idx\<rparr>)"
    using put_gain_total [OF ok2, of "i16 (PSHR16 pg 9)"] g h by auto
  let ?st = "st2\<lparr>pitch_gain_buf := buf, pitch_gain_buf_idx := idx\<rparr>"
  let ?st' = "?st\<lparr>excBuf := buf3, seed := sd3, interp_qlpc := qlpc, mem_sp := mem, mem_hp := hp, first := False,
                 count_lost := i32 (count_lost ?st + 1)\<rparr>"
  have "nb_decode_lost st = Some (z, ?st')"
    by (simp only: nb_decode_lost_def f(1) Option.bind.bind_lunit mg Let_def prod.case st1_def [symmetric] pg0_def [symmetric] pg_def [symmetric]
        ig ng_def [symmetric] st2(1) st2_def [symmetric] r p0_def [symmetric] p_def [symmetric] l(1) q(1) x(1) y(1) z(1) pgb(1))
  moreover have "dec_ok ?st'" using pgb(2) l(2,3) q(2) y(3) by (intro dec_ok_update)
  moreover have "same_loan st ?st'" by (simp add: same_loan_def st2_def st1_def)
  moreover have "count_lost ?st' = count_lost st + 1" using c by (simp add: st2_def same1 is_i32_def)
  ultimately show ?thesis using z(2) by blast
qed

subsection \<open>What a submode must provide\<close>

text \<open>
  The decoding functions of a submode with their parameters: they answer whatever the packet holds, with blocks that fit a subframe
  and a pitch in range, and read a fixed number of bits (\<open>wl\<close>, \<open>wp\<close>, \<open>wi\<close>).
\<close>

locale decodable =
  fixes sm :: SpeexSubmode and wl :: nat and wp :: nat and wi :: nat
  assumes lsp: "rd_ok b \<Longrightarrow> \<exists>d b'. lsp_unquant sm 10 b = Some (d, b') \<and> spends b wl b' \<and> samples 10 d"
    and ltp: "samples 500 buf \<Longrightarrow> rd_ok b \<Longrightarrow> 334 \<le> pos \<Longrightarrow> pos + 40 \<le> 500 \<Longrightarrow> 17 \<le> start \<Longrightarrow> start \<le> 144 \<Longrightarrow>
      (lbr_pitch sm = -1 \<Longrightarrow> start = 17) \<Longrightarrow> 0 \<le> coef \<Longrightarrow> 0 \<le> lp \<Longrightarrow> lp \<le> 32767 \<Longrightarrow>
      \<exists>buf' exc32 pitch g b'. the (ltp_unquant sm) buf pos start stop coef (ltp_par sm) 40 b lost off lp 0 = Some (buf', exc32, pitch, g, b') \<and>
        samples 500 buf' \<and> word_block 40 exc32 \<and> 17 \<le> pitch \<and> pitch \<le> 144 \<and> gains_small g \<and> spends b wp b'"
    and innovation: "rd_ok b \<Longrightarrow> word_block 40 x \<Longrightarrow> is_i32 sd \<Longrightarrow>
      \<exists>x' b' sd'. the (innovation_unquant sm) x (innovation_par sm) 40 b sd = Some (x', b', sd') \<and> word_block 40 x' \<and> spends b wi b' \<and> is_i32 sd'"
    and has_functions: "ltp_unquant sm \<noteq> None" "innovation_unquant sm \<noteq> None"
    and comb: "comb_gain sm \<le> 32767"
    and lbr: "lbr_pitch sm = 0 \<or> lbr_pitch sm = -1"

lemma ltp_forced:
  assumes "samples 500 buf" "rd_ok b" "334 \<le> pos" "pos + 40 \<le> 500" "17 \<le> start" "start \<le> 144" "0 \<le> coef"
  shows "\<exists>buf' exc32 pitch g b'. forced_pitch_unquant buf pos start stop coef par 40 b lost off lp 0 = Some (buf', exc32, pitch, g, b') \<and>
        samples 500 buf' \<and> word_block 40 exc32 \<and> 17 \<le> pitch \<and> pitch \<le> 144 \<and> gains_small g \<and> spends b 0 b'"
proof -
  have "0 < start" "start \<le> pos" "pos + int 40 \<le> int 500" using assms by simp_all
  then show ?thesis using forced_pitch_unquant_total [OF assms(1,2), of start pos 40 coef stop par lost off lp 0] assms spends_none [OF assms(2)]
    by blast
qed

lemma ltp_three:
  assumes "samples 500 buf" "rd_ok b" "334 \<le> pos" "pos + 40 \<le> 500" "17 \<le> start" "start \<le> 144" "0 \<le> lp" "lp \<le> 32767"
    and par: "ltp_params_ok par pb" "start + 2 ^ pb \<le> 145"
  shows "\<exists>buf' exc32 pitch g b'. pitch_unquant_3tap buf pos start stop coef (Some par) 40 b lost off lp 0 = Some (buf', exc32, pitch, g, b') \<and>
        samples 500 buf' \<and> word_block 40 exc32 \<and> 17 \<le> pitch \<and> pitch \<le> 144 \<and> gains_small g \<and> spends b (pitch_bits par + gain_bits par) b'"
proof -
  have "start + 2 ^ pb \<le> pos" "pos + int 40 \<le> int 500" "1 < start" using assms by simp_all
  then obtain e pitch g b' where r: "pitch_unquant_3tap buf pos start stop coef (Some par) 40 b lost off lp 0 = Some (buf, e, pitch, g, b')"
    "word_block 40 e" "start \<le> pitch" "pitch < start + 2 ^ pitch_bits par" "gains_small g" "spends b (pitch_bits par + gain_bits par) b'"
    using pitch_unquant_3tap_total [OF par(1) assms(1,2,7,8)] by blast
  have "(2 :: int) ^ pitch_bits par \<le> 2 ^ pb" using par by (intro power_increasing) (simp_all add: ltp_params_ok_def)
  then have "17 \<le> pitch" "pitch \<le> 144" using r(3,4) par(2) assms(5) by linarith+
  then show ?thesis using r assms(1) by blast
qed

lemma lsp_narrow:
  assumes "rd_ok b"
  shows "\<exists>d b'. lsp_unquant_nb 10 b = Some (d, b') \<and> spends b 30 b' \<and> samples 10 d"
    and "\<exists>d b'. lsp_unquant_lbr 10 b = Some (d, b') \<and> spends b 18 b' \<and> samples 10 d"
  using lsp_unquant_spends [OF assms] by (fastforce simp: samples_def)+

lemma innovation_split:
  assumes "split_cb_ok par 40" "rd_ok b" "word_block 40 x" "is_i32 sd"
  shows "\<exists>x' b' sd'. split_cb_shape_sign_unquant x (Some par) 40 b sd = Some (x', b', sd') \<and> word_block 40 x' \<and> spends b (split_cb_width par) b' \<and> is_i32 sd'"
  using split_cb_unquant_total [OF assms(1,3,2)] assms(4) by blast

lemma innovation_noise:
  assumes "rd_ok b" "word_block 40 x" "is_i32 sd"
  shows "\<exists>x' b' sd'. noise_codebook_unquant x par 40 b sd = Some (x', b', sd') \<and> word_block 40 x' \<and> spends b 0 b' \<and> is_i32 sd'"
  using noise_unquant_total [OF assms(2,3)] spends_none [OF assms(1)] by blast

lemma ltp_normal:
  assumes "ltp_params_ok par 7" and "pitch_bits par + gain_bits par = w"
    and "samples 500 buf" "rd_ok b" "334 \<le> pos" "pos + 40 \<le> 500" "17 \<le> start" "start \<le> 144" "(-1 :: int) = -1 \<Longrightarrow> start = 17"
      "0 \<le> coef" "0 \<le> lp" "lp \<le> 32767"
  shows "\<exists>buf' exc32 pitch g b'. pitch_unquant_3tap buf pos start stop coef (Some par) 40 b lost off lp 0 = Some (buf', exc32, pitch, g, b') \<and>
        samples 500 buf' \<and> word_block 40 exc32 \<and> 17 \<le> pitch \<and> pitch \<le> 144 \<and> gains_small g \<and> spends b w b'"
  using ltp_three [OF assms(3-8,11,12,1)] assms(2,9) by simp

lemma ltp_open_loop:
  assumes "ltp_params_ok par 0" and "pitch_bits par + gain_bits par = w"
    and "samples 500 buf" "rd_ok b" "334 \<le> pos" "pos + 40 \<le> 500" "17 \<le> start" "start \<le> 144" "0 \<le> coef" "0 \<le> lp" "lp \<le> 32767"
  shows "\<exists>buf' exc32 pitch g b'. pitch_unquant_3tap buf pos start stop coef (Some par) 40 b lost off lp 0 = Some (buf', exc32, pitch, g, b') \<and>
        samples 500 buf' \<and> word_block 40 exc32 \<and> 17 \<le> pitch \<and> pitch \<le> 144 \<and> gains_small g \<and> spends b w b'"
  using ltp_three [OF assms(3-8,10,11,1)] assms(2,8) by simp

lemma innovation_width:
  assumes "split_cb_ok par 40" "split_cb_width par = w" "rd_ok b" "word_block 40 x" "is_i32 sd"
  shows "\<exists>x' b' sd'. split_cb_shape_sign_unquant x (Some par) 40 b sd = Some (x', b', sd') \<and> word_block 40 x' \<and> spends b w b' \<and> is_i32 sd'"
  using innovation_split [OF assms(1,3-5)] assms(2) by simp

lemma parameter_widths:
  "pitch_bits ltp_params_nb + gain_bits ltp_params_nb = 14" "pitch_bits ltp_params_vlbr + gain_bits ltp_params_vlbr = 5"
  "pitch_bits ltp_params_lbr + gain_bits ltp_params_lbr = 12" "pitch_bits ltp_params_med + gain_bits ltp_params_med = 12"
  "split_cb_width split_cb_nb_vlbr = 16" "split_cb_width split_cb_nb_ulbr = 10" "split_cb_width split_cb_nb_lbr = 20"
  "split_cb_width split_cb_nb = 48" "split_cb_width split_cb_nb_med = 35" "split_cb_width split_cb_sb = 64"
  by (simp_all add: ltp_params_nb_def ltp_params_vlbr_def ltp_params_lbr_def ltp_params_med_def split_cb_width_def split_cb_nb_vlbr_def
      split_cb_nb_ulbr_def split_cb_nb_lbr_def split_cb_nb_def split_cb_nb_med_def split_cb_sb_def)

lemmas decoding_functions = lsp_narrow ltp_forced innovation_noise ltp_normal ltp_open_loop innovation_width
lemmas parameters_fit = ltp_params_fit split_cb_fits parameter_widths

interpretation nb1: decodable nb_submode1 18 0 0
  by (unfold_locales; (unfold nb_submode1_def SpeexSubmode.simps option.sel);
      ((rule decoding_functions; (assumption | rule parameters_fit)) | simp))

interpretation nb2: decodable nb_submode2 18 5 16
  by (unfold_locales; (unfold nb_submode2_def SpeexSubmode.simps option.sel);
      ((rule decoding_functions; (assumption | rule parameters_fit)) | simp))

interpretation nb3: decodable nb_submode3 18 12 20
  by (unfold_locales; (unfold nb_submode3_def SpeexSubmode.simps option.sel);
      ((rule decoding_functions; (assumption | rule parameters_fit)) | simp))

interpretation nb4: decodable nb_submode4 18 12 35
  by (unfold_locales; (unfold nb_submode4_def SpeexSubmode.simps option.sel);
      ((rule decoding_functions; (assumption | rule parameters_fit)) | simp))

interpretation nb5: decodable nb_submode5 30 14 48
  by (unfold_locales; (unfold nb_submode5_def SpeexSubmode.simps option.sel);
      ((rule decoding_functions; (assumption | rule parameters_fit)) | simp))

interpretation nb6: decodable nb_submode6 30 14 64
  by (unfold_locales; (unfold nb_submode6_def SpeexSubmode.simps option.sel);
      ((rule decoding_functions; (assumption | rule parameters_fit)) | simp))

interpretation nb7: decodable nb_submode7 30 14 48
  by (unfold_locales; (unfold nb_submode7_def SpeexSubmode.simps option.sel);
      ((rule decoding_functions; (assumption | rule parameters_fit)) | simp))

interpretation nb8: decodable nb_submode8 18 0 10
  by (unfold_locales; (unfold nb_submode8_def SpeexSubmode.simps option.sel);
      ((rule decoding_functions; (assumption | rule parameters_fit)) | simp))

subsection \<open>The parameters of a frame are read safely\<close>

lemma damp_memory_ok:
  assumes ok: "dec_ok st" and q: "samples 10 q"
  shows "dec_ok (damp_memory q st)" and "submodeID (damp_memory q st) = submodeID st" and "count_lost (damp_memory q st) = count_lost st"
proof -
  have m: "word_block 10 (map (MULT16_32_Q15 f) (mem_sp st))" for f
    using dec_buffersD(4) [OF ok] by (auto simp: word_block_def MULT16_32_Q15_def)
  show "dec_ok (damp_memory q st)" using ok q m by (simp add: damp_memory_def Let_def dec_ok_update)
  show "submodeID (damp_memory q st) = submodeID st" "count_lost (damp_memory q st) = count_lost st"
    by (simp_all add: damp_memory_def Let_def)
qed

lemma ol_gain_table_get: "unat q < 32 \<Longrightarrow> \<exists>g. mem_get ol_gain_table (unat q) = Some g"
  by (simp add: mem_get_def ol_gain_table_def)

text \<open>What the parameters promise, and how many bits the first part of a frame takes.\<close>

definition params_ok :: "SpeexSubmode \<Rightarrow> frame_params \<Rightarrow> bool" where
  "params_ok sm fp \<longleftrightarrow>
     samples 10 (qlsp fp) \<and> 0 \<le> ol_pitch_coef fp \<and> (lbr_pitch sm \<noteq> -1 \<or> 0 < ol_pitch fp \<longrightarrow> 17 \<le> ol_pitch fp \<and> ol_pitch fp \<le> 144)"

definition params_width :: "SpeexSubmode \<Rightarrow> bool \<Rightarrow> nat" where
  "params_width sm voc =
     (if lbr_pitch sm \<noteq> -1 then 7 else 0) + (if forced_pitch_gain sm then 4 else 0) + 5 + (if voc then 4 else 0)"

lemma read_ol_pitch:
  assumes "rd_ok b"
  shows "\<exists>p b'. (if l \<noteq> -1 then do { (v, b) \<leftarrow> speex_bits_unpack_unsigned b 7; Some (17 + int (unat v), b) } else Some (0, b)) = Some (p, b') \<and>
    spends b (if l \<noteq> -1 then 7 else 0) b' \<and> (l \<noteq> (-1 :: int) \<or> 0 < p \<longrightarrow> 17 \<le> p \<and> p \<le> 144)"
proof (cases "l \<noteq> -1")
  case True
  obtain v b' where v: "speex_bits_unpack_unsigned b 7 = Some (v, b')" "spends b 7 b'" "unat v < 2 ^ 7" using unpack_spends [OF assms] by blast
  then have "unat v \<le> 127" by simp
  then have "int (unat v) \<le> 127" by linarith
  then show ?thesis using True v by simp
qed (use spends_none [OF assms] in simp)

lemma read_forced_gain:
  assumes "rd_ok b"
  shows "\<exists>c b'. (if f then do { (v, b) \<leftarrow> speex_bits_unpack_unsigned b 4; Some (i16 (MULT16_16_P15 2185 (SHL16 (int (unat v)) 6)), b) }
      else Some (0, b)) = Some (c, b') \<and> spends b (if f then 4 else 0) b' \<and> 0 \<le> c"
proof (cases f)
  case True
  obtain v b' where v: "speex_bits_unpack_unsigned b 4 = Some (v, b')" "spends b 4 b'" "unat v < 2 ^ 4" using unpack_spends [OF assms] by blast
  define k where "k = int (unat v)"
  have "unat v \<le> 15" using v(3) by simp
  then have k: "0 \<le> k" "k \<le> 15" unfolding k_def by linarith+
  then have "SHL16 k 6 = k * 64" by (simp add: SHL16_def shl_def is_i32_def)
  moreover have "is_i16 (k * 64)" using k by (simp add: is_i16_def)
  ultimately have "MULT16_16_P15 2185 (SHL16 k 6) = (16384 + 2185 * (k * 64)) div 32768"
    using k by (simp add: MULT16_16_P15_def MULT16_16_exact is_i16_def ADD32_i32 is_i32_def SHR32_def asr_def)
  moreover have "0 \<le> (16384 + 2185 * (k * 64)) div 32768 \<and> (16384 + 2185 * (k * 64)) div 32768 \<le> 100" using k by linarith
  ultimately have "0 \<le> i16 (MULT16_16_P15 2185 (SHL16 k 6))" by (simp add: is_i16_def)
  then show ?thesis using True v by (simp add: k_def)
qed (use spends_none [OF assms] in simp)

lemma read_extra:
  assumes "rd_ok b" and "dec_ok st"
  shows "\<exists>st' b'. (if submodeID st = 1 then do { (extra, b) \<leftarrow> speex_bits_unpack_unsigned b 4; Some (st\<lparr>dtx_enabled := (extra = 15)\<rparr>, b) }
      else Some (st, b)) = Some (st', b') \<and> spends b (if submodeID st = 1 then 4 else 0) b' \<and> dec_ok st' \<and> submodeID st' = submodeID st \<and>
      count_lost st' = count_lost st"
proof (cases "submodeID st = 1")
  case True
  obtain v b' where v: "speex_bits_unpack_unsigned b 4 = Some (v, b')" "spends b 4 b'" using unpack_spends [OF assms(1)] by blast
  have "dec_ok (st\<lparr>dtx_enabled := (v = 15)\<rparr>)" using assms(2) by (rule dec_ok_update)
  then show ?thesis using True v by simp
qed (use spends_none [OF assms(1)] assms(2) in simp)

context decodable
begin

lemma read_frame_params_total:
  assumes ok: "dec_ok st" and rd: "rd_ok b"
  shows "\<exists>fp st' b'. read_frame_params sm st b = Some (fp, st', b') \<and> params_ok sm fp \<and> dec_ok st' \<and>
    submodeID st' = submodeID st \<and> count_lost st' = count_lost st \<and> spends b (wl + params_width sm (submodeID st = 1)) b'"
proof -
  note d = dec_shapeD [OF ok]
  obtain ql b1 where 1: "lsp_unquant sm 10 b = Some (ql, b1)" "spends b wl b1" "samples 10 ql" using lsp [OF rd] by blast
  define st1 where "st1 = damp_memory ql st"
  have ok1: "dec_ok st1" "submodeID st1 = submodeID st" "count_lost st1 = count_lost st"
    unfolding st1_def using damp_memory_ok [OF ok 1(3)] by blast+
  note d1 = dec_shapeD [OF ok1(1)]
  obtain p b2 where 2: "(if lbr_pitch sm \<noteq> -1 then do { (v, b) \<leftarrow> speex_bits_unpack_unsigned b1 7; Some (17 + int (unat v), b) }
      else Some (0, b1)) = Some (p, b2)" "spends b1 (if lbr_pitch sm \<noteq> -1 then 7 else 0) b2" "lbr_pitch sm \<noteq> -1 \<or> 0 < p \<longrightarrow> 17 \<le> p \<and> p \<le> 144"
    using read_ol_pitch [OF spends_ok [OF 1(2)], of "lbr_pitch sm"] by blast
  obtain c b3 where 3: "(if forced_pitch_gain sm then do { (v, b) \<leftarrow> speex_bits_unpack_unsigned b2 4; Some (i16 (MULT16_16_P15 2185 (SHL16 (int (unat v)) 6)), b) }
      else Some (0, b2)) = Some (c, b3)" "spends b2 (if forced_pitch_gain sm then 4 else 0) b3" "0 \<le> c"
    using read_forced_gain [OF spends_ok [OF 2(2)], of "forced_pitch_gain sm"] by blast
  obtain qe b4 where 4: "speex_bits_unpack_unsigned b3 5 = Some (qe, b4)" "spends b3 5 b4" "unat qe < 2 ^ 5"
    using unpack_spends [OF spends_ok [OF 3(2)]] by blast
  obtain g where g: "mem_get ol_gain_table (unat qe) = Some g" using ol_gain_table_get [of qe] 4(3) by auto
  obtain st2 b5 where 5: "(if submodeID st1 = 1 then do { (extra, b) \<leftarrow> speex_bits_unpack_unsigned b4 4; Some (st1\<lparr>dtx_enabled := (extra = 15)\<rparr>, b) }
      else Some (st1, b4)) = Some (st2, b5)" "spends b4 (if submodeID st1 = 1 then 4 else 0) b5" "dec_ok st2" "submodeID st2 = submodeID st1"
      "count_lost st2 = count_lost st1"
    using read_extra [OF spends_ok [OF 4(2)] ok1(1)] by blast
  define st3 where "st3 = (if submodeID st2 > 1 then st2\<lparr>dtx_enabled := False\<rparr> else st2)"
  have "read_frame_params sm st b = Some (\<lparr>qlsp = ql, ol_pitch = p, ol_pitch_coef = c, ol_gain = MULT16_32_Q15 28406 g\<rparr>, st3, b5)"
    by (simp only: read_frame_params_def d(4) 1(1) Option.bind.bind_lunit prod.case Let_def st1_def [symmetric] d1(5) 2(1) 3(1) 4(1) g 5(1)
        st3_def [symmetric])
  moreover have "dec_ok st3" "submodeID st3 = submodeID st" "count_lost st3 = count_lost st"
    using 5 ok1 by (simp_all add: st3_def dec_ok_update)
  moreover have "spends b (wl + params_width sm (submodeID st = 1)) b5"
    using spends_trans [OF spends_trans [OF spends_trans [OF spends_trans [OF 1(2) 2(2)] 3(2)] 4(2)] 5(2)] ok1(2)
    by (simp add: params_width_def add.assoc)
  ultimately show ?thesis using 1(3) 2(3) 3(3) by (auto simp: params_ok_def)
qed

end

subsection \<open>Subframes are decoded safely\<close>

text \<open>The pitch found so far, after \<open>n\<close> subframes.\<close>

definition track_ok :: "int \<Rightarrow> pitch_track \<Rightarrow> bool" where
  "track_ok n t \<longleftrightarrow> 0 \<le> pitch_average t \<and> pitch_average t \<le> 480 * n \<and> 17 \<le> best_pitch t \<and> best_pitch t \<le> 144"

lemma track_pitch_ok:
  assumes t: "track_ok n t" and g: "gains_small g" and p: "17 \<le> p" "p \<le> 144" and n: "n < 4"
  shows "track_ok (n + 1) (track_pitch g p t)"
proof -
  have r: "0 \<le> gain_3tap_to_1tap g" "gain_3tap_to_1tap g \<le> 480" using gain_1tap_range [OF g] by simp_all
  then have i: "i16 (gain_3tap_to_1tap g) = gain_3tap_to_1tap g" by (simp add: is_i16_def)
  have a: "0 \<le> pitch_average t" "pitch_average t \<le> 480 * n" using t by (simp_all add: track_ok_def)
  then have "i16 (pitch_average t + gain_3tap_to_1tap g) = pitch_average t + gain_3tap_to_1tap g" using r n by (simp add: is_i16_def)
  then show ?thesis using t r a i p by (simp add: track_pitch_def track_ok_def Let_def)
qed

lemma subframe_energy_total:
  assumes "rd_ok b"
  shows "\<exists>e b'. subframe_energy sm g b = Some (e, b') \<and>
    spends b (if have_subframe_gain sm = 3 then 3 else if have_subframe_gain sm = 1 then 1 else 0) b'"
proof -
  have q3: "\<exists>s. mem_get exc_gain_quant_scal3 (unat q) = Some s" if "unat q < 2 ^ 3" for q :: u32
    using that by (simp add: mem_get_def exc_gain_quant_scal3_def)
  have q1: "\<exists>s. mem_get exc_gain_quant_scal1 (unat q) = Some s" if "unat q < 2 ^ 1" for q :: u32
    using that by (simp add: mem_get_def exc_gain_quant_scal1_def)
  show ?thesis using unpack_spends [OF assms, of 3] unpack_spends [OF assms, of 1] q3 q1 spends_none [OF assms]
    unfolding subframe_energy_def by fastforce
qed

lemma signal_mul_block: "word_block n x \<Longrightarrow> word_block n (signal_mul x e)"
  by (auto simp: word_block_def signal_mul_def)

lemma voc_pulses_total:
  assumes "0 < pitch" and "is_i16 pulse" and "samples n x" and "0 \<le> off"
  shows "\<exists>x' off'. voc_pulses pitch n pulse off x = Some (x', off') \<and> samples n x' \<and> int n \<le> off'"
  using assms(3,4)
proof (induction "nat (int n - off)" arbitrary: x off rule: less_induct)
  case less
  show ?case
  proof (cases "off < int n")
    case True
    then have put: "mem_put x (nat off) pulse = Some (x[nat off := pulse])"
      using less.prems by (intro mem_put_Some) (simp add: samples_length nat_less_iff)
    have "samples n (x[nat off := pulse])" using less.prems(1) assms(2) set_update_subset_insert [of x] by (fastforce simp: samples_def)
    moreover have "nat (int n - (off + pitch)) < nat (int n - off)" using True assms(1) by simp
    ultimately obtain x' off' where "voc_pulses pitch n pulse (off + pitch) (x[nat off := pulse]) = Some (x', off')" "samples n x'" "int n \<le> off'"
      using less.hyps less.prems(2) assms(1) by fastforce
    then show ?thesis using True less.prems(2) put by (simp add: voc_pulses.simps [of pitch n pulse off])
  qed (use less.prems in \<open>simp add: voc_pulses.simps [of pitch n pulse off]\<close>)
qed

lemma voc_filter_samples: "samples (length xs) (fst (voc_filter g xs voc))"
proof (induction xs arbitrary: voc)
  case (Cons x xs)
  obtain e iv where x: "x = (e, iv)" by fastforce
  obtain m1 m2 mean where voc: "voc = (m1, m2, mean)" by (metis prod.collapse)
  show ?case unfolding x voc voc_filter.simps Let_def case_prod_beta fst_conv length_Cons by (rule samples_Cons) (simp, rule Cons.IH)
qed (simp add: samples_def)

lemma vocoder_total:
  assumes ok: "dec_ok st" and p: "0 < ol_pitch fp" and i: "length innov = 40"
  shows "\<exists>x st'. vocoder fp innov st = Some (x, st') \<and> samples 40 x \<and> dec_ok st' \<and> submodeID st' = submodeID st \<and> count_lost st' = count_lost st"
proof -
  note d = dec_shapeD [OF ok]
  define g0 where "g0 = i16 (MULT16_16_P14 24576 (ol_pitch_coef fp - 13))"
  define g1 where "g1 = (if g0 < 0 then 0 else g0)"
  define g where "g = (if g1 > 64 then 64 else g1)"
  define pulse where "pulse = i16 (MULT16_16 (spx_sqrt (MULT16_16_16 2 (ol_pitch fp))) (EXTRACT16 (PSHR32 (MULT16_16 g (PSHR32 (ol_gain fp) 14)) 6)))"
  have "is_i16 pulse" by (simp add: pulse_def)
  then obtain x off where x: "voc_pulses (ol_pitch fp) 40 pulse (voc_offset st) (replicate 40 0) = Some (x, off)" "samples 40 x" "40 \<le> off"
    using voc_pulses_total [OF p, of pulse 40 "replicate 40 0" "voc_offset st"] dec_valuesD(11) [OF ok] samples_replicate_0 [of 40] by auto
  obtain y m1 m2 mean where y: "voc_filter g (zip x innov) (voc_m1 st, voc_m2 st, voc_mean st) = (y, m1, m2, mean)" by (metis prod.collapse)
  have "samples 40 y" using voc_filter_samples [of "zip x innov" g "(voc_m1 st, voc_m2 st, voc_mean st)"] y i x(2) by (simp add: samples_length)
  let ?st = "st\<lparr>voc_offset := off - 40, voc_m1 := m1, voc_m2 := m2, voc_mean := mean\<rparr>"
  have "dec_ok ?st" using ok x(3) by (intro dec_ok_update) simp_all
  moreover have "vocoder fp innov st = Some (y, st\<lparr>voc_offset := off - int 40, voc_m1 := m1, voc_m2 := m2, voc_mean := mean\<rparr>)"
    by (simp only: vocoder_def Let_def g0_def [symmetric] g1_def [symmetric] g_def [symmetric] pulse_def [symmetric] d(2) x(1)
        Option.bind.bind_lunit prod.case y)
  ultimately show ?thesis using \<open>samples 40 y\<close> by simp
qed

lemma save_innovation_total:
  assumes "dec_ok st" and "length innov = 40" and "offset + 40 \<le> 160"
  shows "\<exists>st'. save_innovation offset innov st = Some st' \<and> dec_ok st' \<and> submodeID st' = submodeID st \<and> count_lost st' = count_lost st"
proof (cases "innov_save st")
  case (Some block)
  then have l: "160 \<le> length block" using dec_buffersD(6) [OF assms(1)] by blast
  let ?b = "take offset block @ map (\<lambda>v. EXTRACT16 (PSHR32 v 14)) innov @ drop (offset + 40) block"
  have "mem_write block offset (map (\<lambda>v. EXTRACT16 (PSHR32 v 14)) innov) = Some ?b" using l assms(2,3) by (simp add: mem_write_def)
  moreover have "dec_ok (st\<lparr>innov_save := Some ?b\<rparr>)" using assms l by (intro dec_ok_update) simp_all
  ultimately show ?thesis using Some by (simp add: save_innovation_def)
qed (use assms in \<open>simp add: save_innovation_def\<close>)

definition subframe_width :: "SpeexSubmode \<Rightarrow> nat" where
  "subframe_width sm = (if have_subframe_gain sm = 3 then 3 else if have_subframe_gain sm = 1 then 1 else 0)"

context decodable
begin

lemma decode_innovation_total:
  assumes rd: "rd_ok b" and sd: "is_i32 sd"
  shows "\<exists>x b' sd'. decode_innovation sm 40 e b sd = Some (x, b', sd') \<and> word_block 40 x \<and>
    spends b (if double_codebook sm then 2 * wi else wi) b' \<and> is_i32 sd'"
proof -
  obtain f where f: "innovation_unquant sm = Some f" using has_functions(2) by blast
  obtain x1 b1 sd1 where 1: "f (replicate 40 0) (innovation_par sm) 40 b sd = Some (x1, b1, sd1)" "word_block 40 x1"
    "spends b wi b1" "is_i32 sd1" using innovation [OF rd word_block_zero sd] f by auto
  show ?thesis
  proof (cases "double_codebook sm")
    case True
    obtain x2 b2 sd2 where 2: "f (replicate 40 0) (innovation_par sm) 40 b1 sd1 = Some (x2, b2, sd2)" "word_block 40 x2"
      "spends b1 wi b2" "is_i32 sd2" using innovation [OF spends_ok [OF 1(3)] word_block_zero 1(4)] f by auto
    let ?x = "map (\<lambda>(a, b). ADD32 a b) (zip (signal_mul x1 e) (signal_mul x2 (MULT16_32_Q15 14895 e)))"
    have "word_block 40 ?x" using signal_mul_block [OF 1(2), of e] signal_mul_block [OF 2(2), of "MULT16_32_Q15 14895 e"]
      by (auto simp: word_block_def)
    moreover have "decode_innovation sm 40 e b sd = Some (?x, b2, sd2)"
      by (simp only: decode_innovation_def f 1(1) 2(1) True Let_def Option.bind.bind_lunit prod.case if_True)
    ultimately show ?thesis using True 2(4) spends_trans [OF 1(3) 2(3)] by (simp add: mult_2)
  next
    case False
    then show ?thesis using f 1 signal_mul_block by (simp add: decode_innovation_def)
  qed
qed

lemma pitch_limits_ok:
  assumes ok: "dec_ok st" and p: "params_ok sm fp"
  shows "\<exists>lo hi. pitch_limits sm st (ol_pitch fp) = (lo, hi) \<and> 17 \<le> lo \<and> lo \<le> 144 \<and> (lbr_pitch sm = -1 \<longrightarrow> lo = 17)"
  using lbr p dec_shapeD [OF ok] by (auto simp: pitch_limits_def params_ok_def)

lemma nb_subframe_total:
  assumes ok: "dec_ok st" and rd: "rd_ok b" and p: "params_ok sm fp" and voc: "submodeID st = 1 \<Longrightarrow> 0 < ol_pitch fp"
    and sub: "sub < 4" and t: "track_ok (int sub) t"
  shows "\<exists>t' st' b'. nb_subframe sm fp sub t st b = Some (t', st', b') \<and> track_ok (int sub + 1) t' \<and> dec_ok st' \<and> same_loan st st' \<and>
    submodeID st' = submodeID st \<and> count_lost st' = count_lost st \<and>
    spends b (wp + subframe_width sm + (if double_codebook sm then 2 * wi else wi)) b'"
proof -
  note d = dec_shapeD [OF ok] and v = dec_valuesD [OF ok]
  define pos where "pos = exc st + int (40 * sub)"
  have pos: "334 \<le> pos" "pos + 40 \<le> 500" using sub d by (simp_all add: pos_def)
  obtain buf0 where 0: "set_cells (excBuf st) pos (replicate 40 0) = Some buf0" "samples 500 buf0"
    using set_cells_samples [OF dec_buffersD(1) [OF ok] samples_replicate_0, of pos 40] pos by auto
  obtain lo hi where lim: "pitch_limits sm st (ol_pitch fp) = (lo, hi)" "17 \<le> lo" "lo \<le> 144" "lbr_pitch sm = -1 \<longrightarrow> lo = 17"
    using pitch_limits_ok [OF ok p] by blast
  have coef: "0 \<le> ol_pitch_coef fp" using p by (simp add: params_ok_def)
  obtain f where f: "ltp_unquant sm = Some f" using has_functions(1) by blast
  obtain buf1 e32 pitch g b1 where 1: "f buf0 pos lo hi (ol_pitch_coef fp) (ltp_par sm) 40 b (count_lost st) (40 * sub) (last_pitch_gain st) 0 =
      Some (buf1, e32, pitch, g, b1)" "samples 500 buf1" "word_block 40 e32" "17 \<le> pitch" "pitch \<le> 144" "gains_small g" "spends b wp b1"
    using ltp [OF 0(2) rd pos lim(2,3) lim(4) [rule_format] coef v(3,4)] f by fastforce
  define t' where "t' = track_pitch g pitch t"
  have t': "track_ok (int sub + 1) t'" unfolding t'_def using track_pitch_ok [OF t 1(6,4,5)] sub by simp
  obtain ener b2 where 2: "subframe_energy sm (ol_gain fp) b1 = Some (ener, b2)" "spends b1 (subframe_width sm) b2"
    using subframe_energy_total [OF spends_ok [OF 1(7)]] unfolding subframe_width_def by blast
  obtain innov b3 sd where 3: "decode_innovation sm 40 ener b2 (seed st) = Some (innov, b3, sd)" "word_block 40 innov"
    "spends b2 (if double_codebook sm then 2 * wi else wi) b3" "is_i32 sd"
    using decode_innovation_total [OF spends_ok [OF 2(2)] v(8)] by blast
  define st1 where "st1 = st\<lparr>seed := sd\<rparr>"
  have ok1: "dec_ok st1" unfolding st1_def by (rule dec_ok_update(9) [OF ok 3(4)])
  define x where "x = map (\<lambda>(e, v). EXTRACT16 (SATURATE (PSHR32 (ADD32 (SHL32 e 1) v) 14) 32767)) (zip (sanitize_values32 e32 (- 262144000) 262144000) innov)"
  have len: "length innov = 40" "length e32 = 40" using 3(2) 1(3) by (simp_all add: word_block_length)
  have x: "samples 40 x" unfolding x_def using len by (auto simp: samples_def sanitize_values32_def)
  obtain st2 where 4: "save_innovation (40 * sub) innov st1 = Some st2" "dec_ok st2" "submodeID st2 = submodeID st1" "count_lost st2 = count_lost st1"
    using save_innovation_total [OF ok1 len(1), of "40 * sub"] sub by auto
  obtain y st3 where 5: "(if submodeID st2 = 1 then vocoder fp innov st2 else Some (x, st2)) = Some (y, st3)" "samples 40 y" "dec_ok st3"
    "submodeID st3 = submodeID st2" "count_lost st3 = count_lost st2"
  proof (cases "submodeID st2 = 1")
    case True
    then have "0 < ol_pitch fp" using voc 4(3) by (simp add: st1_def)
    then show thesis using vocoder_total [OF 4(2) _ len(1)] True that by auto
  next
    case False
    then show thesis using x 4(2) that by simp
  qed
  obtain buf2 where 6: "set_cells buf1 pos y = Some buf2" "samples 500 buf2"
    using set_cells_samples [OF 1(2) 5(2), of pos] pos by auto
  have "nb_subframe sm fp sub t st b = Some (t', st3\<lparr>excBuf := buf2\<rparr>, b3)"
    by (simp only: nb_subframe_def Let_def d(2) pos_def [symmetric] 0(1) Option.bind.bind_lunit prod.case lim(1) f 1(1) t'_def [symmetric] 2(1) 3(1)
        st1_def [symmetric] x_def [symmetric] 4(1) 5(1) 6(1))
  moreover have "dec_ok (st3\<lparr>excBuf := buf2\<rparr>)" by (rule dec_ok_update(1) [OF 5(3) 6(2)])
  moreover have "spends b (wp + subframe_width sm + (if double_codebook sm then 2 * wi else wi)) b3"
    using spends_trans [OF spends_trans [OF 1(7) 2(2)] 3(3)] .
  moreover have "same_loan st (st3\<lparr>excBuf := buf2\<rparr>)"
    using save_innovation_loan [OF 4(1)] 5(1) vocoder_loan by (auto simp: st1_def same_loan_def split: if_splits)
  ultimately show ?thesis using t' 4(3,4) 5(4,5) by (auto simp: st1_def)
qed

end

subsection \<open>The output is made safely\<close>

lemma rescale_lost_total:
  assumes ok: "dec_ok st" and out: "samples 160 out"
  shows "\<exists>out' st'. rescale_lost g (out, st) = Some (out', st') \<and> samples 160 out' \<and> dec_ok st'"
proof (cases "count_lost st = 0")
  case False
  note d = dec_shapeD [OF ok]
  obtain e where e: "compute_rms16 (at_exc st 0) (frameSize st) = Some e" "is_i16 e" "e \<noteq> -1" using at_exc_level [OF ok] by blast
  have "ADD16 e 1 \<noteq> 0"
  proof (cases "e = 32767")
    case False
    then have "ADD16 e 1 = e + 1" using e(2) by (intro ADD16_exact) (auto simp: is_i16_def)
    then show ?thesis using e(3) by linarith
  qed (simp add: ADD16_i16 i16_def)
  then obtain q where q: "PDIV32 g (ADD16 e 1) = Some q" using PDIV32_nonzero [of "ADD16 e 1" g] by auto
  define k where "k = EXTRACT16 (if q > 32767 then 32767 else q)"
  obtain x where x: "cells (excBuf st) 334 160 = Some x" "samples 160 x" using cells_samples [OF dec_buffersD(1) [OF ok], of 334 160] by auto
  have "samples 160 (map (\<lambda>v. i16 (MULT16_16_Q14 k v)) x)" using x(2) by (auto simp: samples_def)
  then obtain buf where buf: "set_cells (excBuf st) 334 (map (\<lambda>v. i16 (MULT16_16_Q14 k v)) x) = Some buf" "samples 500 buf"
    using set_cells_samples [OF dec_buffersD(1) [OF ok], of 160 _ 334] by auto
  obtain y where y: "cells buf (334 - int 40) 160 = Some y" "samples 160 y" using cells_samples [OF buf(2), of "334 - int 40" 160] by auto
  have "rescale_lost g (out, st) = Some (y, st\<lparr>excBuf := buf\<rparr>)"
    unfolding rescale_lost_def prod.case using False
    by (simp only: if_True not_False_eq_True simp_thms e(1) [unfolded d(1)] Option.bind.bind_lunit q Let_def k_def [symmetric] d(1,2,7) x(1) buf(1) y(1))
  then show ?thesis using y(2) dec_ok_update(1) [OF ok buf(2)] by blast
next
  case True
  then show ?thesis using ok out by (simp add: rescale_lost_def)
qed

lemma synth_subframe_total:
  assumes ok: "dec_ok st" and q: "samples 10 q" and sub: "sub < 4" and sp: "samples 40 sp"
  shows "\<exists>sp' st'. synth_subframe q sub sp st = Some (sp', st') \<and> samples 40 sp' \<and> dec_ok st'"
proof -
  note d = dec_shapeD [OF ok] and b = dec_buffersD [OF ok]
  obtain il where il: "lsp_interpolate (old_qlsp st) q 10 sub 4 = Some il" "samples 10 il"
    using lsp_interpolate_total [of 10 "old_qlsp st" q 4 sub] b(2) q by (auto simp: samples_length)
  obtain il2 where il2: "lsp_enforce_margin il 10 16 = Some il2" "samples 10 il2"
    using lsp_enforce_margin_total [of 10 il 16] il(2) by (auto simp: is_i16_def)
  obtain ak where ak: "lsp_to_lpc il2 10 = Some ak" "samples 10 ak" using lsp_to_lpc_total [of 10 il2] il2(2) by (auto simp: samples_length)
  have pg: "mem_put (pi_gain st) sub (gain_at_pi ak 10) = Some ((pi_gain st)[sub := gain_at_pi ak 10])" using b(5) sub by (simp add: mem_simps)
  obtain y mem where y: "iir_mem16 sp (interp_qlpc st) 10 (mem_sp st) = Some (y, mem)" "samples 40 y" "word_block 10 mem"
    using iir_mem16_total [of 10 "interp_qlpc st" "mem_sp st" sp] b(3,4) sp by (auto simp: samples_length)
  have "synth_subframe q sub sp st = Some (y, st\<lparr>pi_gain := (pi_gain st)[sub := gain_at_pi ak 10], mem_sp := mem, interp_qlpc := ak\<rparr>)"
    by (simp only: synth_subframe_def d(3,4) il(1) Option.bind.bind_lunit il2(1) ak(1) pg y(1) prod.case)
  moreover have "dec_ok (st\<lparr>pi_gain := (pi_gain st)[sub := gain_at_pi ak 10], mem_sp := mem, interp_qlpc := ak\<rparr>)"
    using ok b(5) y(3) ak(2) by (intro dec_ok_update) simp_all
  ultimately show ?thesis using y(2) by blast
qed

lemma synth_subframes_total:
  assumes ok: "dec_ok st" and q: "samples 10 q" and out: "samples 160 out" and subs: "\<forall>s \<in> set subs. s < 4"
  shows "\<exists>out' st'. synth_subframes q subs out st = Some (out', st') \<and> samples (40 * length subs) out' \<and> dec_ok st'"
  using ok subs
proof (induction subs arbitrary: st)
  case Nil
  then show ?case by (simp add: samples_def)
next
  case (Cons s subs)
  note d = dec_shapeD [OF Cons.prems(1)]
  have s4: "s < 4" using Cons.prems(2) by simp
  have "samples 40 (take 40 (drop (40 * s) out))"
    by (rule samples_take [OF samples_drop [OF out]]) (use Cons.prems(2) in auto)
  moreover have "mem_read out (40 * s) 40 = Some (take 40 (drop (40 * s) out))" using Cons.prems(2) out by (simp add: mem_simps samples_length)
  ultimately obtain sp where sp: "mem_read out (40 * s) 40 = Some sp" "samples 40 sp" by blast
  obtain y st1 where y: "synth_subframe q s sp st = Some (y, st1)" "samples 40 y" "dec_ok st1"
    using synth_subframe_total [OF Cons.prems(1) q s4 sp(2)] by blast
  obtain z st2 where z: "synth_subframes q subs out st1 = Some (z, st2)" "samples (40 * length subs) z" "dec_ok st2"
    using Cons.IH [OF y(3)] Cons.prems(2) by auto
  have "synth_subframes q (s # subs) out st = Some (y @ z, st2)"
    by (simp only: synth_subframes.simps d(2) sp(1) Option.bind.bind_lunit y(1) z(1) prod.case)
  moreover have "samples (40 * length (s # subs)) (y @ z)" using samples_append [OF y(2) z(2)] by simp
  ultimately show ?case using z(3) by blast
qed

text \<open>The body of a frame: all that is read after the five bits of the submode.\<close>

definition body_width :: "SpeexSubmode \<Rightarrow> nat \<Rightarrow> nat \<Rightarrow> nat \<Rightarrow> bool \<Rightarrow> nat" where
  "body_width sm wl wp wi voc =
     wl + params_width sm voc + 4 * (wp + subframe_width sm + (if double_codebook sm then 2 * wi else wi))"

context decodable
begin

lemma nb_subframes_total:
  assumes "dec_ok st" and "rd_ok b" and p: "params_ok sm fp" and "submodeID st = 1 \<Longrightarrow> 0 < ol_pitch fp"
    and "n \<le> 4" and "track_ok (int (4 - n)) t"
  shows "\<exists>t' st' b'. nb_subframes sm fp [4 - n..<4] t st b = Some (t', st', b') \<and> track_ok 4 t' \<and> dec_ok st' \<and> same_loan st st' \<and>
    submodeID st' = submodeID st \<and> count_lost st' = count_lost st \<and>
    spends b (n * (wp + subframe_width sm + (if double_codebook sm then 2 * wi else wi))) b'"
  using assms(1,2,4-6)
proof (induction n arbitrary: t st b)
  case 0
  then show ?case by (simp add: spends_none)
next
  case (Suc n)
  let ?w = "wp + subframe_width sm + (if double_codebook sm then 2 * wi else wi)"
  have sub: "4 - Suc n < 4" "Suc (4 - Suc n) = 4 - n" using Suc.prems(4) by simp_all
  then have upt: "[4 - Suc n..<4] = (4 - Suc n) # [4 - n..<4]" by (simp add: upt_conv_Cons)
  obtain t1 st1 b1 where 1: "nb_subframe sm fp (4 - Suc n) t st b = Some (t1, st1, b1)" "track_ok (int (4 - Suc n) + 1) t1" "dec_ok st1"
    "same_loan st st1" "submodeID st1 = submodeID st" "count_lost st1 = count_lost st" "spends b ?w b1"
    using nb_subframe_total [OF Suc.prems(1,2) p Suc.prems(3) sub(1) Suc.prems(5)] by blast
  have t1: "track_ok (int (4 - n)) t1" using 1(2) sub(2) by (metis of_nat_Suc add.commute)
  obtain t2 st2 b2 where 2: "nb_subframes sm fp [4 - n..<4] t1 st1 b1 = Some (t2, st2, b2)" "track_ok 4 t2" "dec_ok st2"
    "same_loan st1 st2" "submodeID st2 = submodeID st1" "count_lost st2 = count_lost st1" "spends b1 (n * ?w) b2"
    using Suc.IH [OF 1(3) spends_ok [OF 1(7)] _ _ t1] Suc.prems(3,4) 1(5) by fastforce
  have "nb_subframes sm fp [4 - Suc n..<4] t st b = Some (t2, st2, b2)"
    by (simp only: upt nb_subframes.simps 1(1) 2(1) Option.bind.bind_lunit prod.case)
  then show ?case using 2(2,3,5,6) 1(5,6) spends_trans [OF 1(7) 2(7)] same_loan_trans [OF 1(4) 2(4)] by simp
qed

lemma enhance_total:
  assumes ok: "dec_ok st" and p: "17 \<le> pitch" "pitch \<le> 144"
  shows "\<exists>out st'. enhance sm pitch st = Some (out, st') \<and> samples 160 out \<and> dec_ok st'"
proof (cases "lpc_enh_enabled st \<noteq> 0 \<and> comb_gain sm > 0 \<and> count_lost st = 0")
  case True
  note d = dec_shapeD [OF ok]
  have low: "if pitch > 40 then 2 * pitch + 6 \<le> pos else pitch + 6 \<le> pos" if "294 \<le> pos" for pos using p that by simp
  have high: "if pitch > 40 then True else pos + pitch + 86 \<le> int 500" if "pos \<le> 374" for pos using p that by simp
  have mc: "\<exists>buf' y. multicomb buf pos 80 pitch 40 (comb_gain sm) = Some (buf', y) \<and> samples 500 buf' \<and> samples 80 y"
    if "samples 500 buf" "294 \<le> pos" "pos \<le> 374" for buf pos
    by (rule multicomb_total [OF that(1) _ _ comb low [OF that(2)] high [OF that(3)]]) (use that p in simp_all)
  obtain buf1 a where a: "multicomb (excBuf st) (334 - int 40) 80 pitch 40 (comb_gain sm) = Some (buf1, a)" "samples 500 buf1" "samples 80 a"
    using mc [OF dec_buffersD(1) [OF ok], of "334 - int 40"] by auto
  obtain buf2 c where c: "multicomb buf1 (334 + int 40) 80 pitch 40 (comb_gain sm) = Some (buf2, c)" "samples 500 buf2" "samples 80 c"
    using mc [OF a(2), of "334 + int 40"] by auto
  have "2 * 40 = (80 :: nat)" by simp
  then have "enhance sm pitch st = Some (a @ c, st\<lparr>excBuf := buf2\<rparr>)"
    unfolding enhance_def by (simp only: True if_True d(2,7) simp_thms a(1) c(1) Option.bind.bind_lunit prod.case)
  then show ?thesis using samples_append [OF a(3) c(3)] dec_ok_update(1) [OF ok c(2)] by simp
next
  case False
  then show ?thesis using cells_samples [OF dec_buffersD(1) [OF ok], of "334 - int 40" 160] dec_shapeD [OF ok] ok
    unfolding enhance_def by (auto simp del: not_gr0)
qed

lemma nb_frame_total:
  assumes ok: "dec_ok st" and rd: "rd_ok b" and voc: "submodeID st = 1 \<Longrightarrow> lbr_pitch sm \<noteq> -1"
  shows "\<exists>out st' b'. nb_frame sm st b = Some (out, st', b') \<and> samples 160 out \<and> dec_ok st' \<and> same_loan st st' \<and> count_lost st' = 0 \<and>
    spends b (body_width sm wl wp wi (submodeID st = 1)) b'"
proof -
  obtain fp st1 b1 where 1: "read_frame_params sm st b = Some (fp, st1, b1)" "params_ok sm fp" "dec_ok st1" "submodeID st1 = submodeID st"
    "spends b (wl + params_width sm (submodeID st = 1)) b1"
    using read_frame_params_total [OF ok rd] by blast
  have q: "samples 10 (qlsp fp)" and pos: "submodeID st1 = 1 \<Longrightarrow> 0 < ol_pitch fp"
    using 1(2,4) voc by (auto simp: params_ok_def)
  let ?t0 = "\<lparr>pitch_average = 0, best_pitch = 40, best_pitch_gain = 0\<rparr>"
  have "track_ok (int (4 - 4)) ?t0" by (simp add: track_ok_def)
  then obtain t st2 b2 where 2: "nb_subframes sm fp [0..<4] ?t0 st1 b1 = Some (t, st2, b2)" "track_ok 4 t" "dec_ok st2"
    "same_loan st1 st2" "spends b1 (4 * (wp + subframe_width sm + (if double_codebook sm then 2 * wi else wi))) b2"
    using nb_subframes_total [OF 1(3) spends_ok [OF 1(5)] 1(2) pos, of 4 ?t0] by auto
  have t: "17 \<le> best_pitch t" "best_pitch t \<le> 144" "0 \<le> pitch_average t" "pitch_average t \<le> 1920" using 2(2) by (simp_all add: track_ok_def)
  obtain out3 st3 where 3: "enhance sm (best_pitch t) st2 = Some (out3, st3)" "samples 160 out3" "dec_ok st3"
    using enhance_total [OF 2(3) t(1,2)] by blast
  obtain out4 st4 where 4: "rescale_lost (ol_gain fp) (out3, st3) = Some (out4, st4)" "samples 160 out4" "dec_ok st4"
    using rescale_lost_total [OF 3(3,2)] by blast
  obtain out5 st5 where 5: "synth_subframes (qlsp fp) [0..<4] out4 st4 = Some (out5, st5)" "samples 160 out5" "dec_ok st5"
    using synth_subframes_total [OF 4(3) q 4(2), of "[0..<4]"] by auto
  obtain out6 st6 where 6: "(if highpass_enabled st5 \<noteq> 0 then do { (out, hp) \<leftarrow> highpass out5 ((if isWideband st5 \<noteq> 0 then 2 else 0) + 1) (mem_hp st5);
      Some (out, st5\<lparr>mem_hp := hp\<rparr>) } else Some (out5, st5)) = Some (out6, st6)" "samples 160 out6" "dec_ok st6"
  proof (cases "highpass_enabled st5 \<noteq> 0")
    case True
    obtain y hp where "highpass out5 ((if isWideband st5 \<noteq> 0 then 2 else 0) + 1) (mem_hp st5) = Some (y, hp)" "samples 160 y"
      using highpass_total [of out5 "(if isWideband st5 \<noteq> 0 then 2 else 0) + 1" "mem_hp st5"] 5(2) by (auto simp: samples_length)
    then show thesis using True that dec_ok_update(14) [OF 5(3)] by simp
  next
    case False
    then show thesis using 5 that by simp
  qed
  define st7 where "st7 = track_level (ol_gain fp) st6"
  have ok7: "dec_ok st7" unfolding st7_def track_level_def Let_def by (intro dec_ok_update 6(3))
  define g where "g = i16 (PSHR16 (pitch_average t) 2)"
  have "PSHR16 (pitch_average t) 2 = (pitch_average t + 2) div 4" using t by (simp add: PSHR16_def SHR16_def asr_def shl_def is_i32_def)
  moreover have "0 \<le> (pitch_average t + 2) div 4 \<and> (pitch_average t + 2) div 4 \<le> 480" using t by linarith
  ultimately have g: "0 \<le> g" "g \<le> 32767" by (simp_all add: g_def is_i16_def)
  let ?st8 = "st7\<lparr>old_qlsp := qlsp fp, first := False, count_lost := 0, last_pitch := best_pitch t, last_pitch_gain := g\<rparr>"
  have "dec_ok ?st8" by (intro dec_ok_update ok7 q t g)
  then obtain buf idx where 9: "put_gain g ?st8 = Some (?st8\<lparr>pitch_gain_buf := buf, pitch_gain_buf_idx := idx\<rparr>)"
    "dec_ok (?st8\<lparr>pitch_gain_buf := buf, pitch_gain_buf_idx := idx\<rparr>)" using put_gain_total g by blast
  let ?st9 = "?st8\<lparr>pitch_gain_buf := buf, pitch_gain_buf_idx := idx\<rparr>"
  have "nb_frame sm st b = Some (out6, ?st9\<lparr>last_ol_gain := i16 (ol_gain fp)\<rparr>, b2)"
    by (simp only: nb_frame_def 1(1) Option.bind.bind_lunit prod.case dec_shapeD(3) [OF 1(3)] 2(1) 3(1) 4(1) dec_shapeD(3) [OF 4(3)] 5(1) 6(1)
        Let_def st7_def [symmetric] g_def [symmetric] 9(1))
  moreover have "dec_ok (?st9\<lparr>last_ol_gain := i16 (ol_gain fp)\<rparr>)" by (rule dec_ok_update(15) [OF 9(2)])
  moreover have "same_loan st (?st9\<lparr>last_ol_gain := i16 (ol_gain fp)\<rparr>)"
  proof -
    have "same_loan st st5"
      using read_frame_params_loan [OF 1(1)] 2(4) enhance_loan [OF 3(1)] rescale_lost_loan [OF 4(1)] synth_subframes_loan [OF 5(1)]
      by (simp add: same_loan_def)
    moreover have "same_loan st5 st6" using 6(1) by (auto simp: same_loan_def split: if_splits Option.bind_splits)
    ultimately show ?thesis by (simp add: same_loan_def st7_def track_level_def Let_def)
  qed
  moreover have "count_lost (?st9\<lparr>last_ol_gain := i16 (ol_gain fp)\<rparr>) = 0" by simp
  ultimately show ?thesis using 6(2) spends_trans [OF 1(5) 2(5)] unfolding body_width_def by blast
qed

end

subsection \<open>A frame of any submode\<close>

text \<open>The bits of a frame after those of the submode, by the table of the mode.\<close>

definition frame_bits :: "DecState \<Rightarrow> nat" where
  "frame_bits st = (case submodes st ! nat (submodeID st) of None \<Rightarrow> 0 | Some sm \<Rightarrow> bits_per_frame sm - 5)"

lemma body_widths:
  "body_width nb_submode1 18 0 0 True = 43 - 5" "body_width nb_submode8 18 0 10 False = 79 - 5" "body_width nb_submode2 18 5 16 False = 119 - 5"
  "body_width nb_submode3 18 12 20 False = 160 - 5" "body_width nb_submode4 18 12 35 False = 220 - 5" "body_width nb_submode5 30 14 48 False = 300 - 5"
  "body_width nb_submode6 30 14 64 False = 364 - 5" "body_width nb_submode7 30 14 48 False = 492 - 5"
  by (simp_all add: body_width_def params_width_def subframe_width_def nb_submode1_def nb_submode2_def nb_submode3_def nb_submode4_def
      nb_submode5_def nb_submode6_def nb_submode7_def nb_submode8_def)

lemma submode_cases:
  assumes "dec_ok st"
  shows "cell (submodes st) (submodeID st) = Some (submodes st ! nat (submodeID st)) \<and>
    (submodeID st = 0 \<longrightarrow> submodes st ! nat (submodeID st) = None) \<and>
    (\<forall>sm. submodes st ! nat (submodeID st) = Some sm \<longrightarrow> (submodeID st = 1 \<longrightarrow> lbr_pitch sm \<noteq> -1) \<and>
       (\<exists>wl wp wi. decodable sm wl wp wi \<and> body_width sm wl wp wi (submodeID st = 1) = bits_per_frame sm - 5))"
proof -
  let ?i = "nat (submodeID st)"
  have i: "?i < 16" "submodeID st = int ?i" using dec_valuesD(9,10) [OF assms] by simp_all
  have s: "submodes st = SpeexNBMode.submodes nb_mode" by (rule dec_shapeD(8) [OF assms])
  have l: "length (SpeexNBMode.submodes nb_mode) = 16" by (simp add: nb_mode_def)
  have c: "cell (submodes st) (submodeID st) = Some (submodes st ! ?i)" using s l cell_Some [of "submodeID st" "submodes st"] dec_valuesD(9,10) [OF assms] by simp
  have n: "SpeexNBMode.submodes nb_mode ! k = [None, Some nb_submode1, Some nb_submode2, Some nb_submode3, Some nb_submode4, Some nb_submode5, Some nb_submode6,
       Some nb_submode7, Some nb_submode8, None, None, None, None, None, None, None] ! k" for k
    by (simp add: nb_mode_def)
  have b: "bits_per_frame nb_submode1 = 43" "bits_per_frame nb_submode2 = 119" "bits_per_frame nb_submode3 = 160" "bits_per_frame nb_submode4 = 220"
    "bits_per_frame nb_submode5 = 300" "bits_per_frame nb_submode6 = 364" "bits_per_frame nb_submode7 = 492" "bits_per_frame nb_submode8 = 79"
    "lbr_pitch nb_submode1 = 0"
    by (simp_all add: nb_submode1_def nb_submode2_def nb_submode3_def nb_submode4_def nb_submode5_def nb_submode6_def nb_submode7_def nb_submode8_def)
  have "?i \<in> {0..<16}" using i by simp
  then have "?i = 0 \<or> ?i = 1 \<or> ?i = 2 \<or> ?i = 3 \<or> ?i = 4 \<or> ?i = 5 \<or> ?i = 6 \<or> ?i = 7 \<or> ?i = 8 \<or> 8 < ?i" by auto
  moreover have "SpeexNBMode.submodes nb_mode ! ?i = None" if "8 < ?i"
  proof -
    have "?i = 9 \<or> ?i = 10 \<or> ?i = 11 \<or> ?i = 12 \<or> ?i = 13 \<or> ?i = 14 \<or> ?i = 15" using that i(1) by auto
    then show ?thesis unfolding n by auto
  qed
  moreover note d = nb1.decodable_axioms nb2.decodable_axioms nb3.decodable_axioms nb4.decodable_axioms nb5.decodable_axioms
    nb6.decodable_axioms nb7.decodable_axioms nb8.decodable_axioms
  have "\<exists>wl wp wi. decodable nb_submode1 wl wp wi \<and> body_width nb_submode1 wl wp wi True = 43 - 5"
    "\<exists>wl wp wi. decodable nb_submode2 wl wp wi \<and> body_width nb_submode2 wl wp wi False = 119 - 5"
    "\<exists>wl wp wi. decodable nb_submode3 wl wp wi \<and> body_width nb_submode3 wl wp wi False = 160 - 5"
    "\<exists>wl wp wi. decodable nb_submode4 wl wp wi \<and> body_width nb_submode4 wl wp wi False = 220 - 5"
    "\<exists>wl wp wi. decodable nb_submode5 wl wp wi \<and> body_width nb_submode5 wl wp wi False = 300 - 5"
    "\<exists>wl wp wi. decodable nb_submode6 wl wp wi \<and> body_width nb_submode6 wl wp wi False = 364 - 5"
    "\<exists>wl wp wi. decodable nb_submode7 wl wp wi \<and> body_width nb_submode7 wl wp wi False = 492 - 5"
    "\<exists>wl wp wi. decodable nb_submode8 wl wp wi \<and> body_width nb_submode8 wl wp wi False = 79 - 5"
    using d body_widths by blast+
  ultimately show ?thesis using c i(2) b unfolding s by (elim disjE) (simp_all add: n)
qed

lemma rand_loop_shape: "samples n (fst (rand_loop std sd n)) \<and> (is_i32 sd \<longrightarrow> is_i32 (snd (rand_loop std sd n)))"
proof (induction n arbitrary: sd)
  case (Suc n)
  show ?case using Suc.IH [of "snd (speex_rand std sd)"] by (auto simp: case_prod_beta Let_def intro: samples_Cons)
qed (simp add: samples_def)

lemma nb_null_frame_total:
  assumes ok: "dec_ok st"
  shows "\<exists>out st'. nb_null_frame st = Some (out, st') \<and> samples 160 out \<and> dec_ok st' \<and> same_loan st st' \<and> count_lost st' = 0"
proof -
  note d = dec_shapeD [OF ok] and b = dec_buffersD [OF ok]
  obtain lpc where l: "bw_lpc 30474 (interp_qlpc st) 10 = Some lpc" "samples 10 lpc"
    using bw_lpc_total [of 10 "interp_qlpc st" 30474] b(3) by (auto simp: samples_length)
  obtain g where g: "compute_rms16 (at_exc st 0) 160 = Some g" using at_exc_level [OF ok] d(1) by auto
  obtain x sd where x: "rand_loop g (seed st) 160 = (x, sd)" "samples 160 x" "is_i32 sd"
    using rand_loop_shape [of 160 g "seed st"] dec_valuesD(8) [OF ok] by (metis prod.collapse)
  obtain buf where buf: "set_cells (excBuf st) (exc st) x = Some buf" "samples 500 buf"
    using set_cells_samples [OF b(1) x(2), of "exc st"] d(7) by auto
  obtain y mem where y: "iir_mem16 x lpc 10 (mem_sp st) = Some (y, mem)" "samples 160 y" "word_block 10 mem"
    using iir_mem16_total [of 10 lpc "mem_sp st" x] l(2) b(4) x(2) by (auto simp: samples_length)
  let ?st = "st\<lparr>excBuf := buf, seed := sd, first := True, mem_sp := mem, count_lost := 0\<rparr>"
  have "nb_null_frame st = Some (y, ?st)"
    by (simp only: nb_null_frame_def d(1,4) l(1) g x(1) buf(1) y(1) Option.bind.bind_lunit prod.case Let_def)
  moreover have "dec_ok ?st" by (intro dec_ok_update ok buf(2) x(3) y(3))
  moreover have "same_loan st ?st" by (simp add: same_loan_def)
  moreover have "count_lost ?st = 0" by simp
  ultimately show ?thesis using y(2) by blast
qed

lemma nb_decode_frame_total:
  assumes ok: "dec_ok st" and rd: "rd_ok b"
  shows "\<exists>out st' b'. nb_decode_frame st (Some b) = Some (out, st', Some b') \<and> samples 160 out \<and> dec_ok st' \<and> same_loan st st' \<and> count_lost st' = 0 \<and>
    spends b (frame_bits st) b'"
proof -
  obtain buf where 1: "shift_exc st = Some (st\<lparr>excBuf := buf\<rparr>)" "samples 500 buf" using shift_exc_total [OF ok] by blast
  define st1 where "st1 = st\<lparr>excBuf := buf\<rparr>"
  have ok1: "dec_ok st1" and same: "submodes st1 = submodes st" "submodeID st1 = submodeID st"
    unfolding st1_def using dec_ok_update(1) [OF ok 1(2)] by simp_all
  have loan: "innov_save st1 = innov_save st" by (simp add: st1_def)
  note c = submode_cases [OF ok, THEN conjunct1] submode_cases [OF ok, THEN conjunct2, THEN conjunct2, rule_format]
  show ?thesis
  proof (cases "submodes st ! nat (submodeID st)")
    case None
    obtain out st' where "nb_null_frame st1 = Some (out, st')" "samples 160 out" "dec_ok st'" "same_loan st st'" "count_lost st' = 0"
      using nb_null_frame_total [OF ok1] loan by (auto simp: same_loan_def)
    moreover have "frame_bits st = 0" using None by (simp add: frame_bits_def)
    ultimately show ?thesis using None c(1) 1(1) same spends_none [OF rd] by (simp add: nb_decode_frame_def st1_def [symmetric])
  next
    case (Some sm)
    obtain wl wp wi where d: "decodable sm wl wp wi" "body_width sm wl wp wi (submodeID st = 1) = bits_per_frame sm - 5"
      and voc: "submodeID st = 1 \<longrightarrow> lbr_pitch sm \<noteq> -1" using c(2) [OF Some] by blast
    obtain out st' b' where "nb_frame sm st1 b = Some (out, st', b')" "samples 160 out" "dec_ok st'" "same_loan st st'" "count_lost st' = 0"
      "spends b (body_width sm wl wp wi (submodeID st = 1)) b'"
      using decodable.nb_frame_total [OF d(1) ok1 rd] voc same(2) loan by (auto simp: same_loan_def)
    moreover have "frame_bits st = bits_per_frame sm - 5" using Some by (simp add: frame_bits_def)
    ultimately show ?thesis using Some c(1) 1(1) same d(2) by (simp add: nb_decode_frame_def st1_def [symmetric])
  qed
qed

lemma nb_decode_silence_total:
  assumes ok: "dec_ok st" and s: "submodeID st = 0"
  shows "\<exists>out st'. nb_decode_frame st None = Some (out, st', None) \<and> samples 160 out \<and> dec_ok st' \<and> same_loan st st' \<and> count_lost st' = 0"
proof -
  obtain buf where 1: "shift_exc st = Some (st\<lparr>excBuf := buf\<rparr>)" "samples 500 buf" using shift_exc_total [OF ok] by blast
  have ok1: "dec_ok (st\<lparr>excBuf := buf\<rparr>)" by (rule dec_ok_update(1) [OF ok 1(2)])
  have "cell (submodes st) (submodeID st) = Some None" using submode_cases [OF ok] s by simp
  then show ?thesis using nb_null_frame_total [OF ok1] 1(1) by (auto simp: nb_decode_frame_def same_loan_def)
qed

end
