(* ===== verification/Nb_Control.thy ===== *)
theory Nb_Control
  imports Nb_Safety
begin

text \<open>
  The requests to the narrowband decoder: \<open>nb_decoder_ctl\<close> of \<open>nb_celp.c\<close>, the request numbers of \<open>speex.h\<close> and
  \<open>modes.h\<close>, and the handlers that a new decoder has.

  The block behind the argument pointer is one of \<open>ctl_arg\<close>: a number, an array, a handler with its number, or
  the block for the innovation; \<open>Stack\<close> is a place for the pointer to the scratch memory, which the model does not have. Its value after the request is part of the result. The activity, a ratio of two
  logarithms in \<open>float\<close>, is the parameter \<open>activity\<close> of the two quotients that the code takes first.
\<close>

datatype 'e ctl_arg = Number int | Numbers "int list" | Callback int "(DecState \<times> 'e) handler" | Block "int list option" | Stack

definition SPEEX_GET_ENH :: nat where "SPEEX_GET_ENH = 1"
definition SPEEX_GET_FRAME_SIZE :: nat where "SPEEX_GET_FRAME_SIZE = 3"
definition SPEEX_GET_MODE :: nat where "SPEEX_GET_MODE = 7"
definition SPEEX_GET_LOW_MODE :: nat where "SPEEX_GET_LOW_MODE = 9"
definition SPEEX_GET_BITRATE :: nat where "SPEEX_GET_BITRATE = 19"
definition SPEEX_SET_HANDLER :: nat where "SPEEX_SET_HANDLER = 20"
definition SPEEX_SET_USER_HANDLER :: nat where "SPEEX_SET_USER_HANDLER = 22"
definition SPEEX_SET_SAMPLING_RATE :: nat where "SPEEX_SET_SAMPLING_RATE = 24"
definition SPEEX_GET_SAMPLING_RATE :: nat where "SPEEX_GET_SAMPLING_RATE = 25"
definition SPEEX_RESET_STATE :: nat where "SPEEX_RESET_STATE = 26"
definition SPEEX_SET_SUBMODE_ENCODING :: nat where "SPEEX_SET_SUBMODE_ENCODING = 36"
definition SPEEX_GET_SUBMODE_ENCODING :: nat where "SPEEX_GET_SUBMODE_ENCODING = 37"
definition SPEEX_GET_LOOKAHEAD :: nat where "SPEEX_GET_LOOKAHEAD = 39"
definition SPEEX_SET_HIGHPASS :: nat where "SPEEX_SET_HIGHPASS = 44"
definition SPEEX_GET_HIGHPASS :: nat where "SPEEX_GET_HIGHPASS = 45"
definition SPEEX_GET_ACTIVITY :: nat where "SPEEX_GET_ACTIVITY = 47"
definition SPEEX_GET_PI_GAIN :: nat where "SPEEX_GET_PI_GAIN = 100"
definition SPEEX_GET_EXC :: nat where "SPEEX_GET_EXC = 101"
definition SPEEX_GET_DTX_STATUS :: nat where "SPEEX_GET_DTX_STATUS = 103"
definition SPEEX_SET_INNOVATION_SAVE :: nat where "SPEEX_SET_INNOVATION_SAVE = 104"
definition SPEEX_SET_WIDEBAND :: nat where "SPEEX_SET_WIDEBAND = 105"
definition SPEEX_GET_STACK :: nat where "SPEEX_GET_STACK = 106"

subsection \<open>Requests that change the decoder\<close>

definition reset_state :: "DecState \<Rightarrow> DecState option" where
  "reset_state st =
     do { mem \<leftarrow> mem_write (mem_sp st) 0 (replicate (lpcSize st) 0);
          buf \<leftarrow> mem_write (excBuf st) 0 (replicate (nat (int (frameSize st) + max_pitch st + 1)) 0);
          Some (st\<lparr>mem_sp := mem, excBuf := buf\<rparr>) }"

definition set_number :: "nat \<Rightarrow> int \<Rightarrow> DecState \<Rightarrow> DecState option" where
  "set_number req v st =
     (if req = SPEEX_SET_MODE \<or> req = SPEEX_SET_LOW_MODE then Some (st\<lparr>submodeID := v\<rparr>)
      else if req = SPEEX_SET_ENH then Some (st\<lparr>lpc_enh_enabled := v\<rparr>)
      else if req = SPEEX_SET_SAMPLING_RATE then Some (st\<lparr>sampling_rate := v\<rparr>)
      else if req = SPEEX_SET_SUBMODE_ENCODING then Some (st\<lparr>encode_submode := v\<rparr>)
      else if req = SPEEX_SET_HIGHPASS then Some (st\<lparr>highpass_enabled := v\<rparr>)
      else if req = SPEEX_SET_WIDEBAND then Some (st\<lparr>isWideband := v\<rparr>)
      else None)"

definition set_callback :: "nat \<Rightarrow> int \<Rightarrow> (DecState \<times> 'e) handler \<Rightarrow> 'e callbacks \<Rightarrow> 'e callbacks option" where
  "set_callback req ix h cb =
     (if req = SPEEX_SET_HANDLER then
        (if 0 \<le> ix then do { cbs \<leftarrow> mem_put (speex_callbacks cb) (nat ix) (Some h); Some (cb\<lparr>speex_callbacks := cbs\<rparr>) } else None)
      else if req = SPEEX_SET_USER_HANDLER then Some (cb\<lparr>user_callback := h\<rparr>)
      else None)"

subsection \<open>Requests that read the decoder\<close>

definition bitrate :: "DecState \<Rightarrow> int option" where
  "bitrate st =
     do { sm \<leftarrow> cell (submodes st) (submodeID st);
          let bits = (case sm of Some sm \<Rightarrow> int (bits_per_frame sm) | None \<Rightarrow> 4 + 1);
          if frameSize st = 0 then None else Some (i32 (sampling_rate st * bits) sdiv int (frameSize st)) }"

definition activity_of :: "(int \<Rightarrow> int \<Rightarrow> int) \<Rightarrow> DecState \<Rightarrow> int option" where
  "activity_of activity st =
     (if min_level st = 0 then None else Some (activity (level st sdiv min_level st) (max_level st sdiv min_level st)))"

definition get_number :: "(int \<Rightarrow> int \<Rightarrow> int) \<Rightarrow> nat \<Rightarrow> DecState \<Rightarrow> int option" where
  "get_number activity req st =
     (if req = SPEEX_GET_MODE \<or> req = SPEEX_GET_LOW_MODE then Some (submodeID st)
      else if req = SPEEX_GET_ENH then Some (lpc_enh_enabled st)
      else if req = SPEEX_GET_FRAME_SIZE then Some (int (frameSize st))
      else if req = SPEEX_GET_BITRATE then bitrate st
      else if req = SPEEX_GET_SAMPLING_RATE then Some (sampling_rate st)
      else if req = SPEEX_GET_SUBMODE_ENCODING then Some (encode_submode st)
      else if req = SPEEX_GET_LOOKAHEAD then Some (int (subframeSize st))
      else if req = SPEEX_GET_HIGHPASS then Some (highpass_enabled st)
      else if req = SPEEX_GET_ACTIVITY then activity_of activity st
      else if req = SPEEX_GET_DTX_STATUS then Some (of_bool (dtx_enabled st))
      else None)"

fun excitation_levels :: "DecState \<Rightarrow> nat \<Rightarrow> int list option" where
  "excitation_levels st 0 = Some []"
| "excitation_levels st (Suc i) =
     do { ls \<leftarrow> excitation_levels st i;
          l \<leftarrow> compute_rms16 (at_exc st (int (i * subframeSize st))) (subframeSize st);
          Some (ls @ [l]) }"

definition get_numbers :: "nat \<Rightarrow> int list \<Rightarrow> DecState \<Rightarrow> int list option" where
  "get_numbers req block st =
     (if req = SPEEX_GET_PI_GAIN then do { g \<leftarrow> mem_read (pi_gain st) 0 (nbSubframes st); mem_write block 0 g }
      else if req = SPEEX_GET_EXC then do { ls \<leftarrow> excitation_levels st (nbSubframes st); mem_write block 0 ls }
      else None)"

subsection \<open>The requests\<close>

definition number_setters :: "nat set" where
  "number_setters = {SPEEX_SET_MODE, SPEEX_SET_LOW_MODE, SPEEX_SET_ENH, SPEEX_SET_SAMPLING_RATE, SPEEX_SET_SUBMODE_ENCODING,
     SPEEX_SET_HIGHPASS, SPEEX_SET_WIDEBAND}"

definition number_getters :: "nat set" where
  "number_getters = {SPEEX_GET_MODE, SPEEX_GET_LOW_MODE, SPEEX_GET_ENH, SPEEX_GET_FRAME_SIZE, SPEEX_GET_BITRATE, SPEEX_GET_SAMPLING_RATE,
     SPEEX_GET_SUBMODE_ENCODING, SPEEX_GET_LOOKAHEAD, SPEEX_GET_HIGHPASS, SPEEX_GET_ACTIVITY, SPEEX_GET_DTX_STATUS}"

definition nb_decoder_ctl ::
  "(int \<Rightarrow> int \<Rightarrow> int) \<Rightarrow> nat \<Rightarrow> 'e ctl_arg \<Rightarrow> 'e callbacks \<Rightarrow> DecState \<Rightarrow> (int \<times> 'e ctl_arg \<times> 'e callbacks \<times> DecState) option" where
  "nb_decoder_ctl activity req arg cb st =
     (if req \<in> number_setters then
        (case arg of Number v \<Rightarrow> do { st \<leftarrow> set_number req v st; Some (0, arg, cb, st) } | _ \<Rightarrow> None)
      else if req \<in> number_getters then
        (case arg of Number _ \<Rightarrow> do { v \<leftarrow> get_number activity req st; Some (0, Number v, cb, st) } | _ \<Rightarrow> None)
      else if req \<in> {SPEEX_SET_HANDLER, SPEEX_SET_USER_HANDLER} then
        (case arg of Callback ix h \<Rightarrow> do { cb \<leftarrow> set_callback req ix h cb; Some (0, arg, cb, st) } | _ \<Rightarrow> None)
      else if req = SPEEX_RESET_STATE then do { st \<leftarrow> reset_state st; Some (0, arg, cb, st) }
      else if req \<in> {SPEEX_GET_PI_GAIN, SPEEX_GET_EXC} then
        (case arg of Numbers block \<Rightarrow> do { block \<leftarrow> get_numbers req block st; Some (0, Numbers block, cb, st) } | _ \<Rightarrow> None)
      else if req = SPEEX_SET_INNOVATION_SAVE then
        (case arg of Block block \<Rightarrow> Some (0, arg, cb, st\<lparr>innov_save := block\<rparr>) | _ \<Rightarrow> None)
      else if req = SPEEX_GET_STACK then (case arg of Stack \<Rightarrow> Some (0, Stack, cb, st) | _ \<Rightarrow> None)
      else Some (-1, arg, cb, st))"

text \<open>The handlers of a new decoder: none, and the one of the library for the application's own requests.\<close>

definition default_callbacks :: "'e callbacks" where
  "default_callbacks = \<lparr>speex_callbacks = replicate 16 None, user_callback = speex_default_user_handler\<rparr>"

subsection \<open>Properties\<close>

lemmas request_numbers =
  SPEEX_SET_ENH_def SPEEX_SET_MODE_def SPEEX_SET_LOW_MODE_def SPEEX_GET_ENH_def SPEEX_GET_FRAME_SIZE_def SPEEX_GET_MODE_def
  SPEEX_GET_LOW_MODE_def SPEEX_GET_BITRATE_def SPEEX_SET_HANDLER_def SPEEX_SET_USER_HANDLER_def SPEEX_SET_SAMPLING_RATE_def
  SPEEX_GET_SAMPLING_RATE_def SPEEX_RESET_STATE_def SPEEX_SET_SUBMODE_ENCODING_def SPEEX_GET_SUBMODE_ENCODING_def
  SPEEX_GET_LOOKAHEAD_def SPEEX_SET_HIGHPASS_def SPEEX_GET_HIGHPASS_def SPEEX_GET_ACTIVITY_def SPEEX_GET_PI_GAIN_def
  SPEEX_GET_EXC_def SPEEX_GET_DTX_STATUS_def SPEEX_SET_INNOVATION_SAVE_def SPEEX_SET_WIDEBAND_def SPEEX_GET_STACK_def

lemmas dec_ok_defs = dec_ok_def dec_shape_def dec_buffers_def dec_values_def

lemma set_number_ok:
  assumes "dec_ok st" and "req \<in> number_setters" and "req \<in> {SPEEX_SET_MODE, SPEEX_SET_LOW_MODE} \<longrightarrow> 0 \<le> v \<and> v < 16"
  shows "\<exists>st'. set_number req v st = Some st' \<and> dec_ok st' \<and> count_lost st' = count_lost st"
  using assms by (auto simp: set_number_def number_setters_def dec_ok_defs)

lemma reset_state_ok:
  assumes "dec_ok st"
  shows "reset_state st = Some (st\<lparr>mem_sp := replicate 10 0, excBuf := replicate 305 0 @ drop 305 (excBuf st)\<rparr>) \<and>
    dec_ok (st\<lparr>mem_sp := replicate 10 0, excBuf := replicate 305 0 @ drop 305 (excBuf st)\<rparr>)"
proof -
  note d = dec_shapeD [OF assms] and b = dec_buffersD [OF assms]
  have l: "length (excBuf st) = 500" "length (mem_sp st) = 10" using b(1,4) by (simp_all add: samples_length word_block_def)
  have "samples (305 + 195) (replicate 305 0 @ drop 305 (excBuf st))"
    by (rule samples_append) (use samples_drop [OF b(1), of 305] in \<open>simp_all add: samples_def is_i16_def\<close>)
  moreover have "word_block 10 (replicate 10 0)" by (simp add: word_block_def is_i32_def)
  ultimately have "dec_ok (st\<lparr>mem_sp := replicate 10 0, excBuf := replicate 305 0 @ drop 305 (excBuf st)\<rparr>)"
    using assms by (simp add: dec_ok_defs)
  then show ?thesis using d l by (simp add: reset_state_def mem_simps)
qed

lemma excitation_levels_total:
  assumes "dec_ok st" and "n \<le> 4"
  shows "\<exists>ls. excitation_levels st n = Some ls \<and> length ls = n"
  using assms(2)
proof (induction n)
  case (Suc n)
  note d = dec_shapeD [OF assms(1)] and l = samples_length [OF dec_buffersD(1) [OF assms(1)]]
  have n: "nat (exc st + int (n * subframeSize st)) = 334 + n * 40" using d by simp
  have "40 \<le> length (at_exc st (int (n * subframeSize st)))" using l n Suc.prems by (simp only: at_exc_def length_drop n)
  then obtain r where "compute_rms16 (at_exc st (int (n * subframeSize st))) 40 = Some r"
    using compute_rms16_total [of 40 "at_exc st (int (n * subframeSize st))"] by (auto simp: whole_fours_def)
  then show ?case using Suc d by auto
qed simp

text \<open>The arguments that a request is for.\<close>

definition arg_fits :: "nat \<Rightarrow> 'e ctl_arg \<Rightarrow> DecState \<Rightarrow> bool" where
  "arg_fits req arg st \<longleftrightarrow>
     (case arg of
        Number v \<Rightarrow> req \<in> number_setters \<union> number_getters \<and> (req \<in> {SPEEX_SET_MODE, SPEEX_SET_LOW_MODE} \<longrightarrow> 0 \<le> v \<and> v < 16) \<and>
          (req = SPEEX_GET_ACTIVITY \<longrightarrow> min_level st \<noteq> 0)
      | Numbers block \<Rightarrow> req \<in> {SPEEX_GET_PI_GAIN, SPEEX_GET_EXC} \<and> 4 \<le> length block
      | Callback ix h \<Rightarrow> req = SPEEX_SET_USER_HANDLER \<or> req = SPEEX_SET_HANDLER \<and> 0 \<le> ix \<and> ix < 16
      | Block b \<Rightarrow> req = SPEEX_SET_INNOVATION_SAVE \<and> (\<forall>block. b = Some block \<longrightarrow> 160 \<le> length block)
      | Stack \<Rightarrow> req \<in> {SPEEX_GET_STACK, SPEEX_RESET_STATE})"

lemma bitrate_total: "dec_ok st \<Longrightarrow> \<exists>v. bitrate st = Some v"
  using dec_shapeD(1) [of st] submode_cases [of st] by (auto simp: bitrate_def Let_def)

lemma get_number_total:
  assumes "dec_ok st" and "req \<in> number_getters" and "req = SPEEX_GET_ACTIVITY \<longrightarrow> min_level st \<noteq> 0"
  shows "\<exists>v. get_number activity req st = Some v"
  using assms(2,3) bitrate_total [OF assms(1)] unfolding number_getters_def
  by (elim insertE) (auto simp: get_number_def activity_of_def request_numbers)

lemma get_numbers_total:
  assumes "dec_ok st" and "req \<in> {SPEEX_GET_PI_GAIN, SPEEX_GET_EXC}" and "4 \<le> length block"
  shows "\<exists>block'. get_numbers req block st = Some block'"
proof -
  obtain ls where "excitation_levels st 4 = Some ls" "length ls = 4" using excitation_levels_total [OF assms(1), of 4] by auto
  then show ?thesis
    using assms(2,3) dec_shapeD(3) [OF assms(1)] dec_buffersD(5) [OF assms(1)]
    by (auto simp: get_numbers_def mem_simps request_numbers)
qed

lemma numbers_apart: "number_setters \<inter> number_getters = {}"
  by (simp add: number_setters_def number_getters_def request_numbers)

lemma set_callback_total:
  assumes "req = SPEEX_SET_USER_HANDLER \<or> req = SPEEX_SET_HANDLER \<and> 0 \<le> ix \<and> ix < 16" and "length (speex_callbacks cb) = 16"
  shows "\<exists>cb'. set_callback req ix h cb = Some cb' \<and> length (speex_callbacks cb') = 16"
  using assms by (auto simp: set_callback_def mem_simps request_numbers)

lemma requests_total:
  assumes "dec_ok st" and "length (speex_callbacks cb) = 16" and "arg_fits req arg st"
  shows "\<exists>ret arg' cb' st'. nb_decoder_ctl activity req arg cb st = Some (ret, arg', cb', st') \<and> dec_ok st' \<and>
    count_lost st' = count_lost st \<and> length (speex_callbacks cb') = 16"
proof (cases arg)
  case (Number v)
  then consider "req \<in> number_setters" | "req \<in> number_getters" "req \<notin> number_setters"
    using assms(3) by (auto simp: arg_fits_def)
  then show ?thesis
  proof cases
    case 1
    then show ?thesis using set_number_ok [OF assms(1) 1, of v] assms(2,3) Number by (auto simp: nb_decoder_ctl_def arg_fits_def)
  next
    case 2
    then show ?thesis using get_number_total [OF assms(1) 2(1), of activity] assms Number by (auto simp: nb_decoder_ctl_def arg_fits_def)
  qed
next
  case (Numbers block)
  then have r: "req \<in> {SPEEX_GET_PI_GAIN, SPEEX_GET_EXC}" "4 \<le> length block" using assms(3) by (simp_all add: arg_fits_def)
  then show ?thesis using get_numbers_total [OF assms(1) r] assms Numbers
    by (auto simp: nb_decoder_ctl_def number_setters_def number_getters_def request_numbers)
next
  case (Callback ix h)
  then have r: "req = SPEEX_SET_USER_HANDLER \<or> req = SPEEX_SET_HANDLER \<and> 0 \<le> ix \<and> ix < 16" using assms(3) by (simp add: arg_fits_def)
  then show ?thesis using set_callback_total [OF r assms(2), of h] assms Callback
    by (auto simp: nb_decoder_ctl_def number_setters_def number_getters_def request_numbers)
next
  case (Block b)
  then show ?thesis using assms
    by (auto simp: arg_fits_def nb_decoder_ctl_def number_setters_def number_getters_def request_numbers dec_ok_defs)
next
  case Stack
  then show ?thesis using assms reset_state_ok [OF assms(1)]
    by (auto simp: arg_fits_def nb_decoder_ctl_def number_setters_def number_getters_def request_numbers)
qed



definition settings :: "(nat \<times> nat) set" where
  "settings =
     {(SPEEX_SET_MODE, SPEEX_GET_MODE), (SPEEX_SET_LOW_MODE, SPEEX_GET_LOW_MODE), (SPEEX_SET_ENH, SPEEX_GET_ENH),
      (SPEEX_SET_SAMPLING_RATE, SPEEX_GET_SAMPLING_RATE), (SPEEX_SET_SUBMODE_ENCODING, SPEEX_GET_SUBMODE_ENCODING),
      (SPEEX_SET_HIGHPASS, SPEEX_GET_HIGHPASS)}"

text \<open>
  What an application sets it reads back: the mode, the enhancer, the sampling rate, the coding of submodes and the high-pass filter.
\<close>

theorem settings_read_back:
  assumes "(set_req, get_req) \<in> settings"
  shows "\<exists>st'. nb_decoder_ctl activity set_req (Number v) cb st = Some (0, Number v, cb, st') \<and>
    nb_decoder_ctl activity get_req (Number w) cb st' = Some (0, Number v, cb, st')"
  using assms unfolding settings_def
  by (elim insertE) (simp_all add: nb_decoder_ctl_def number_setters_def number_getters_def set_number_def get_number_def request_numbers)

theorem settings_read_back_witness:
  "\<exists>st'. nb_decoder_ctl (\<lambda>a b. a) SPEEX_SET_ENH (Number 5) (default_callbacks :: unit callbacks) (nb_decoder_init nb_mode) =
      Some (0, Number 5, default_callbacks, st') \<and>
    nb_decoder_ctl (\<lambda>a b. a) SPEEX_GET_ENH (Number 0) (default_callbacks :: unit callbacks) st' = Some (0, Number 5, default_callbacks, st')"
  by (rule settings_read_back) (simp add: settings_def)

text \<open>
  C14. Resetting a decoder sets its filter memory and the first 305 samples of the excitation to zero, and nothing of the other 195: they are
  what the next frame's pitch prediction reads from.
\<close>

theorem reset_keeps_recent_excitation:
  assumes "dec_ok st"
  shows "\<exists>st'. nb_decoder_ctl activity SPEEX_RESET_STATE arg cb st = Some (0, arg, cb, st') \<and> mem_sp st' = replicate 10 0 \<and>
    excBuf st' = replicate 305 0 @ drop 305 (excBuf st) \<and>
    shift_exc st' = Some (st'\<lparr>excBuf := replicate 145 0 @ drop 305 (excBuf st) @ drop 340 (excBuf st)\<rparr>)"
proof -
  let ?st = "st\<lparr>mem_sp := replicate 10 0, excBuf := replicate 305 0 @ drop 305 (excBuf st)\<rparr>"
  have l: "length (excBuf st) = 500" by (rule samples_length [OF dec_buffersD(1) [OF assms]])
  have "take 340 (drop 160 (replicate 305 0 @ drop 305 (excBuf st))) @ drop 340 (replicate 305 0 @ drop 305 (excBuf st)) =
      replicate 145 0 @ drop 305 (excBuf st) @ drop 340 (excBuf st)"
    using l by (simp add: drop_replicate)
  then have "shift_exc ?st = Some (?st\<lparr>excBuf := replicate 145 0 @ drop 305 (excBuf st) @ drop 340 (excBuf st)\<rparr>)"
    using dec_shapeD [OF assms] l by (simp add: shift_exc_def mem_simps)
  then show ?thesis using reset_state_ok [OF assms]
    by (simp add: nb_decoder_ctl_def number_setters_def number_getters_def request_numbers)
qed

theorem reset_keeps_recent_excitation_witness:
  "\<exists>st'. nb_decoder_ctl (\<lambda>a b. a) SPEEX_RESET_STATE Stack (default_callbacks :: unit callbacks)
      (nb_decoder_init nb_mode\<lparr>excBuf := replicate 500 7\<rparr>) = Some (0, Stack, default_callbacks, st') \<and> mem_sp st' = replicate 10 0 \<and>
    excBuf st' = replicate 305 0 @ drop 305 (excBuf (nb_decoder_init nb_mode\<lparr>excBuf := replicate 500 7\<rparr>)) \<and>
    shift_exc st' = Some (st'\<lparr>excBuf := replicate 145 0 @ drop 305 (excBuf (nb_decoder_init nb_mode\<lparr>excBuf := replicate 500 7\<rparr>)) @
      drop 340 (excBuf (nb_decoder_init nb_mode\<lparr>excBuf := replicate 500 7\<rparr>))\<rparr>)"
proof (rule reset_keeps_recent_excitation)
  have "samples 500 (replicate 500 7)" by (simp add: samples_def is_i16_def)
  then show "dec_ok (nb_decoder_init nb_mode\<lparr>excBuf := replicate 500 7\<rparr>)" by (rule dec_ok_update(1) [OF dec_ok_init])
qed

text \<open>
  The activity of a decoder that has not decoded a frame yet is a division by zero: its levels are zero and integers.
\<close>

theorem activity_of_new_decoder_fails:
  "nb_decoder_ctl activity SPEEX_GET_ACTIVITY (Number v) cb (nb_decoder_init nb_mode) = None"
  by (simp add: nb_decoder_ctl_def number_setters_def number_getters_def request_numbers get_number_def activity_of_def nb_decoder_init_def Let_def)

end
