(* ===== verification/Sb_Decoder.thy ===== *)
theory Sb_Decoder
  imports Nb_Control
begin

text \<open>
  The wideband decoder of Speex (\<open>libspeex/sb_celp.c\<close>, \<open>sb_celp.h\<close>, \<open>modes_wb.c\<close>, fixed point): a decoder for the low half of the band
  gives half of the samples, a layer of the packet says what is in the high half, and a filter bank joins the
  two. The low decoder is reached through the function pointers of its mode (\<open>SpeexMode\<close> of \<open>speex.h\<close>, the dispatch of
  \<open>speex.c\<close>): the narrowband decoder in wideband mode, the wideband decoder itself in ultra-wideband mode.

  A caller hands over the block for the samples; the decoder lends its second half to the low decoder, which saves
  its innovation there, and the model passes what the block holds in and out. \<open>'l\<close> is the state of the low decoder.
\<close>

subsection \<open>Modes\<close>

record ('l, 'e) SpeexMode =
  dec :: "'l \<Rightarrow> speex_bits option \<Rightarrow> int list \<Rightarrow> (int \<times> int list \<times> 'l \<times> speex_bits option) option"
  dec_ctl :: "nat \<Rightarrow> 'e ctl_arg \<Rightarrow> 'l \<Rightarrow> (int \<times> 'e ctl_arg \<times> 'l) option"
  lent_block :: "'l \<Rightarrow> int list option"

definition speex_decode_native ::
  "('l, 'e) SpeexMode \<Rightarrow> 'l \<Rightarrow> speex_bits option \<Rightarrow> int list \<Rightarrow> (int \<times> int list \<times> 'l \<times> speex_bits option) option" where
  "speex_decode_native m st bits out = dec m st bits out"

definition speex_decoder_ctl :: "('l, 'e) SpeexMode \<Rightarrow> nat \<Rightarrow> 'e ctl_arg \<Rightarrow> 'l \<Rightarrow> (int \<times> 'e ctl_arg \<times> 'l) option" where
  "speex_decoder_ctl m request arg st = dec_ctl m request arg st"

text \<open>The narrowband mode: the decoder with its handlers and the application's data.\<close>

type_synonym 'e nb_state = "'e callbacks \<times> DecState \<times> 'e"

definition speex_nb_mode :: "(int \<Rightarrow> int \<Rightarrow> int) \<Rightarrow> ('e nb_state, 'e) SpeexMode" where
  "speex_nb_mode activity =
     \<lparr>dec = (\<lambda>(cb, st, env) bits out.
        do { (ret, x, (st, env), bits) \<leftarrow> nb_decode cb (st, env) bits;
             out \<leftarrow> (case x of None \<Rightarrow> Some out | Some x \<Rightarrow> mem_write out 0 x);
             Some (ret, out, (cb, st, env), bits) }),
      dec_ctl = (\<lambda>request arg (cb, st, env).
        do { (ret, arg, cb, st) \<leftarrow> nb_decoder_ctl activity request arg cb st; Some (ret, arg, (cb, st, env)) }),
      lent_block = (\<lambda>(cb, st, env). innov_save st)\<rparr>"

definition split_cb_high :: split_cb_params where
  "split_cb_high = \<lparr>subvect_size = 8, nb_subvect = 5, shape_cb = hexc_table, shape_bits = 7, have_sign = True\<rparr>"
definition split_cb_high_lbr :: split_cb_params where
  "split_cb_high_lbr = \<lparr>subvect_size = 10, nb_subvect = 4, shape_cb = hexc_10_32_table, shape_bits = 5, have_sign = False\<rparr>"

definition wb_submode1 :: SpeexSubmode where
  "wb_submode1 = \<lparr>lbr_pitch = 0, forced_pitch_gain = False, have_subframe_gain = 1, double_codebook = False,
     lsp_unquant = lsp_unquant_high, ltp_unquant = None, ltp_par = None,
     innovation_unquant = None, innovation_par = None, comb_gain = -1, bits_per_frame = 36\<rparr>"

definition wb_submode2 :: SpeexSubmode where
  "wb_submode2 = \<lparr>lbr_pitch = 0, forced_pitch_gain = False, have_subframe_gain = 1, double_codebook = False,
     lsp_unquant = lsp_unquant_high, ltp_unquant = None, ltp_par = None,
     innovation_unquant = Some split_cb_shape_sign_unquant, innovation_par = Some split_cb_high_lbr, comb_gain = -1, bits_per_frame = 112\<rparr>"

definition wb_submode3 :: SpeexSubmode where
  "wb_submode3 = \<lparr>lbr_pitch = 0, forced_pitch_gain = False, have_subframe_gain = 1, double_codebook = False,
     lsp_unquant = lsp_unquant_high, ltp_unquant = None, ltp_par = None,
     innovation_unquant = Some split_cb_shape_sign_unquant, innovation_par = Some split_cb_high, comb_gain = -1, bits_per_frame = 192\<rparr>"

definition wb_submode4 :: SpeexSubmode where
  "wb_submode4 = \<lparr>lbr_pitch = 0, forced_pitch_gain = False, have_subframe_gain = 1, double_codebook = True,
     lsp_unquant = lsp_unquant_high, ltp_unquant = None, ltp_par = None,
     innovation_unquant = Some split_cb_shape_sign_unquant, innovation_par = Some split_cb_high, comb_gain = -1, bits_per_frame = 352\<rparr>"

record SpeexSBMode =
  sb_frameSize :: nat
  sb_subframeSize :: nat
  sb_lpcSize :: nat
  sb_gamma1 :: int
  sb_gamma2 :: int
  sb_lpc_floor :: int
  folding_gain :: int
  sb_submodes :: "SpeexSubmode option list"
  sb_defaultSubmode :: int
  low_quality_map :: "int list"
  sb_quality_map :: "int list"
  nb_modes :: int

definition sb_wb_mode :: SpeexSBMode where
  "sb_wb_mode = \<lparr>sb_frameSize = 160, sb_subframeSize = 40, sb_lpcSize = 8, sb_gamma1 = 29491, sb_gamma2 = 19661, sb_lpc_floor = 7,
     folding_gain = 29491,
     sb_submodes = [None, Some wb_submode1, Some wb_submode2, Some wb_submode3, Some wb_submode4, None, None, None], sb_defaultSubmode = 3,
     low_quality_map = [1, 8, 2, 3, 4, 5, 5, 6, 6, 7, 7], sb_quality_map = [1, 1, 1, 1, 1, 1, 2, 2, 3, 3, 4], nb_modes = 5\<rparr>"

definition sb_uwb_mode :: SpeexSBMode where
  "sb_uwb_mode = \<lparr>sb_frameSize = 320, sb_subframeSize = 80, sb_lpcSize = 8, sb_gamma1 = 29491, sb_gamma2 = 19661, sb_lpc_floor = 7,
     folding_gain = 22938,
     sb_submodes = [None, Some wb_submode1, None, None, None, None, None, None], sb_defaultSubmode = 1,
     low_quality_map = [0, 1, 2, 3, 4, 5, 6, 7, 8, 9, 10], sb_quality_map = [0, 1, 1, 1, 1, 1, 1, 1, 1, 1, 1], nb_modes = 2\<rparr>"

definition wb_mode_query :: "SpeexSBMode \<Rightarrow> nat \<Rightarrow> int \<Rightarrow> (int \<times> int) option" where
  "wb_mode_query m request v =
     (if request = 0 then Some (0, 2 * int (sb_frameSize m))
      else if request = 1 then
        (if v = 0 then Some (0, 3 + 1)
         else do { s \<leftarrow> cell (sb_submodes m) v;
                   Some (0, case s of None \<Rightarrow> -1 | Some s \<Rightarrow> int (bits_per_frame s)) })
      else Some (-1, v))"

subsection \<open>The state\<close>

record 'l SBDecState =
  st_low :: 'l
  full_frame_size :: nat
  frame_size :: nat
  subframeSize :: nat
  nbSubframes :: nat
  lpcSize :: nat
  first :: bool
  sampling_rate :: int
  lpc_enh_enabled :: int
  g0_mem :: "int list"
  g1_mem :: "int list"
  excBuf :: "int list"
  old_qlsp :: "int list"
  interp_qlpc :: "int list"
  mem_sp :: "int list"
  pi_gain :: "int list"
  exc_rms :: "int list"
  innov_save :: "int list option"
  last_ener :: int
  seed :: int
  encode_submode :: int
  submodes :: "SpeexSubmode option list"
  submodeID :: int

definition gc_quant_bound :: "int list" where
  "gc_quant_bound = [125, 164, 215, 282, 370, 484, 635, 832, 1090, 1428, 1871, 2452, 3213, 4210, 5516, 7228]"

definition h0 :: "int list" where
  "h0 =
     [2, -7, -7, 18, 15, -39, -25, 75, 35, -130, -41, 212, 38, -327, -17, 483, -32, -689, 124, 956, -283, -1307, 543, 1780, -973, -2467,
      1733, 3633, -3339, -6409, 9059, 30153, 30153, 9059, -6409, -3339, 3633, 1733, -2467, -973, 1780, 543, -1307, -283, 956, 124, -689,
      -32, 483, -17, -327, 38, 212, -41, -130, 35, 75, -25, -39, 15, 18, -7, -7, 2]"

definition MULT16_32_P15 :: "int \<Rightarrow> int \<Rightarrow> int" where
  "MULT16_32_P15 a b = ADD32 (MULT16_16 a (SHR32 b 15)) (PSHR32 (MULT16_16 a (b AND 0x7fff)) 15)"

text \<open>What a request that reads a number or a block leaves behind its pointer.\<close>

definition number_of :: "'e ctl_arg \<Rightarrow> int option" where
  "number_of arg = (case arg of Number v \<Rightarrow> Some v | _ \<Rightarrow> None)"
definition numbers_of :: "'e ctl_arg \<Rightarrow> int list option" where
  "numbers_of arg = (case arg of Numbers vs \<Rightarrow> Some vs | _ \<Rightarrow> None)"

text \<open>The state of the low decoder is made by its own mode; \<open>speex_alloc\<close> gives memory filled with zero.\<close>

definition sb_decoder_init :: "('l, 'e) SpeexMode \<Rightarrow> SpeexSBMode \<Rightarrow> 'l \<Rightarrow> 'l SBDecState option" where
  "sb_decoder_init m mode low =
     do { let fs = sb_frameSize mode;
          let ss = sb_subframeSize mode;
          (r, arg, low) \<leftarrow> speex_decoder_ctl m SPEEX_GET_SAMPLING_RATE (Number 0) low;
          rate \<leftarrow> number_of arg;
          (r, arg, low) \<leftarrow> speex_decoder_ctl m SPEEX_SET_WIDEBAND (Number 1) low;
          Some \<lparr>st_low = low, full_frame_size = 2 * fs, frame_size = fs, subframeSize = ss, nbSubframes = fs div ss,
            lpcSize = sb_lpcSize mode, first = True, sampling_rate = i32 (rate * 2), lpc_enh_enabled = 0,
            g0_mem = replicate 64 0, g1_mem = replicate 64 0, excBuf = replicate ss 0, old_qlsp = replicate (sb_lpcSize mode) 0,
            interp_qlpc = replicate (sb_lpcSize mode) 0, mem_sp = replicate (2 * sb_lpcSize mode) 0, pi_gain = replicate (fs div ss) 0,
            exc_rms = replicate (fs div ss) 0, innov_save = None, last_ener = 0, seed = 1000, encode_submode = 1,
            submodes = sb_submodes mode, submodeID = sb_defaultSubmode mode\<rparr> }"

subsection \<open>The two bands\<close>

definition filter_high :: "'l SBDecState \<Rightarrow> int list \<Rightarrow> (int list \<times> 'l SBDecState) option" where
  "filter_high st x =
     do { (y, mem) \<leftarrow> iir_mem16 x (interp_qlpc st) (lpcSize st) (mem_sp st);
          mem \<leftarrow> mem_write (mem_sp st) 0 mem;
          Some (y, st\<lparr>mem_sp := mem\<rparr>) }"

definition join_bands :: "'l SBDecState \<Rightarrow> int list \<Rightarrow> int list \<Rightarrow> (int list \<times> 'l SBDecState) option" where
  "join_bands st lo hi =
     do { (out, g0, g1) \<leftarrow> qmf_synth lo hi h0 (full_frame_size st) 64 (g0_mem st) (g1_mem st);
          Some (out, st\<lparr>g0_mem := g0, g1_mem := g1\<rparr>) }"

subsection \<open>Lost and silent frames\<close>

text \<open>The submode, which the code changes and restores, is not read in between.\<close>

definition sb_decode_lost :: "'l SBDecState \<Rightarrow> int list \<Rightarrow> bool \<Rightarrow> (int list \<times> 'l SBDecState) option" where
  "sb_decode_lost st lo dtx =
     do { lpc \<leftarrow> (if dtx then Some (interp_qlpc st) else bw_lpc 32440 (interp_qlpc st) (lpcSize st));
          let ener = (if dtx then last_ener st else i16 (MULT16_16_Q15 29491 (last_ener st)));
          let (x, sd) = rand_loop ener (seed st) (frame_size st);
          (hi, st) \<leftarrow> filter_high (st\<lparr>interp_qlpc := lpc, first := True, last_ener := ener, seed := sd\<rparr>) x;
          join_bands st lo hi }"

definition sb_null_frame :: "'l SBDecState \<Rightarrow> int list \<Rightarrow> bool \<Rightarrow> (int list \<times> 'l SBDecState) option" where
  "sb_null_frame st lo dtx =
     (if dtx then sb_decode_lost st lo True
      else do { (hi, st) \<leftarrow> filter_high (st\<lparr>first := True\<rparr>) (replicate (frame_size st) 0);
                join_bands st lo hi })"

subsection \<open>The layer of the high band\<close>

text \<open>The submode of the layer, or the code that is returned for one that does not exist.\<close>

definition read_layer :: "'l SBDecState \<Rightarrow> speex_bits \<Rightarrow> (int option \<times> 'l SBDecState \<times> speex_bits) option" where
  "read_layer st bits =
     (if encode_submode st \<noteq> 0 then
        do { (wideband, bits) \<leftarrow> (if speex_bits_remaining bits > 0 then speex_bits_peek bits else Some (0, bits));
             (m, bits) \<leftarrow>
               (if wideband \<noteq> 0 then
                  do { (wideband, bits) \<leftarrow> speex_bits_unpack_unsigned bits 1; speex_bits_unpack_unsigned bits 3 }
                else Some (0, bits));
             sm \<leftarrow> mem_get (submodes st) (unat m);
             Some (if m \<noteq> 0 \<and> sm = None then Some (-2) else None, st\<lparr>submodeID := int (unat m)\<rparr>, bits) }
      else Some (None, st, bits))"

text \<open>The responses of the filters at the edge between the bands, and their ratio.\<close>

definition low_edge :: "int list \<Rightarrow> nat \<Rightarrow> int" where
  "low_edge ak ord = foldl (\<lambda>r i. i32 (r + i32 (ak ! (i + 1) - ak ! i))) 8192 (map (\<lambda>i. 2 * i) [0..<(ord + 1) div 2])"

definition high_edge :: "int list \<Rightarrow> nat \<Rightarrow> int" where
  "high_edge ak ord = foldl (\<lambda>r i. i32 (r + i32 (ak ! i + ak ! (i + 1)))) 8192 (map (\<lambda>i. 2 * i) [0..<(ord + 1) div 2])"

definition filter_ratio :: "int \<Rightarrow> int \<Rightarrow> int option" where
  "filter_ratio rl rh =
     do { q \<leftarrow> PDIV32 (SHL32 (ADD32 rl 82) 7) (ADD32 82 rh); Some (EXTRACT16 (SATURATE q 32767)) }"

text \<open>Without innovation the high band is the innovation of the low band, folded.\<close>

definition folded_sample :: "int \<Rightarrow> int \<Rightarrow> nat \<Rightarrow> int \<Rightarrow> int" where
  "folded_sample gain g i v =
     (let x = SHL32 (MULT16_32_P15 (MULT16_16_Q15 gain v) (SHL32 g 6)) 14 in if even i then x else i32 (- x))"

definition folded_excitation ::
  "SpeexSBMode \<Rightarrow> int list \<Rightarrow> nat \<Rightarrow> nat \<Rightarrow> int \<Rightarrow> speex_bits \<Rightarrow> (int list \<times> speex_bits) option" where
  "folded_excitation mode low_innov offset nsf ratio bits =
     do { (quant, bits) \<leftarrow> speex_bits_unpack_unsigned bits 5;
          let g = spx_exp (MULT16_16 256 (int (unat quant) - 10));
          g \<leftarrow> PDIV32 g ratio;
          low \<leftarrow> mem_read low_innov offset nsf;
          Some (map (\<lambda>(i, v). folded_sample (folding_gain mode) g i v) (zip [0..<nsf] low), bits) }"

definition coded_excitation ::
  "SpeexSubmode \<Rightarrow> innovation_unquant_func \<Rightarrow> int \<Rightarrow> nat \<Rightarrow> int \<Rightarrow> speex_bits \<Rightarrow> int \<Rightarrow> (int list \<times> speex_bits \<times> int) option" where
  "coded_excitation sm unquant el nsf ratio bits sd =
     do { (qgc, bits) \<leftarrow> speex_bits_unpack_unsigned bits 4;
          bound \<leftarrow> mem_get gc_quant_bound (unat qgc);
          let gc = i16 (MULT16_16_Q15 28626 bound);
          let gc = (if nsf = 80 then i16 (MULT16_16_P14 23170 gc) else gc);
          scale \<leftarrow> PDIV32 (SHL32 (MULT16_16 gc el) 3) ratio;
          let scale = SHL32 scale 11;
          (x, bits, sd) \<leftarrow> unquant (replicate nsf 0) (innovation_par sm) nsf bits sd;
          let x = signal_mul x scale;
          if double_codebook sm then
            do { (x2, bits, sd) \<leftarrow> unquant (replicate nsf 0) (innovation_par sm) nsf bits sd;
                 let x2 = signal_mul x2 (MULT16_32_P15 13107 scale);
                 Some (map (\<lambda>(a, b). ADD32 a b) (zip x x2), bits, sd) }
          else Some (x, bits, sd) }"

text \<open>The innovation for a decoder of a still wider band: every other sample.\<close>

definition save_high :: "nat \<Rightarrow> int list \<Rightarrow> 'l SBDecState \<Rightarrow> 'l SBDecState option" where
  "save_high offset x st =
     (case innov_save st of
        None \<Rightarrow> Some st
      | Some block \<Rightarrow>
          do { block \<leftarrow> mem_write block (2 * offset) (concat (map (\<lambda>v. [EXTRACT16 (PSHR32 v 14), 0]) x));
               Some (st\<lparr>innov_save := Some block\<rparr>) })"

text \<open>What the low band gives to the subframes.\<close>

record low_band =
  low_pi_gain :: "int list"
  low_exc_rms :: "int list"
  low_innov :: "int list"

definition sb_excitation ::
  "SpeexSBMode \<Rightarrow> SpeexSubmode \<Rightarrow> low_band \<Rightarrow> nat \<Rightarrow> nat \<Rightarrow> int \<Rightarrow> speex_bits \<Rightarrow> int \<Rightarrow> (int list \<times> speex_bits \<times> int) option" where
  "sb_excitation mode sm low sub nsf ratio bits sd =
     (case innovation_unquant sm of
        None \<Rightarrow> do { (x, bits) \<leftarrow> folded_excitation mode (low_innov low) (nsf * sub) nsf ratio bits; Some (x, bits, sd) }
      | Some unquant \<Rightarrow>
          do { el \<leftarrow> mem_get (low_exc_rms low) sub; coded_excitation sm unquant el nsf ratio bits sd })"

definition sb_filter :: "'l SBDecState \<Rightarrow> int list \<Rightarrow> nat \<Rightarrow> int list option" where
  "sb_filter st ql sub =
     do { il \<leftarrow> lsp_interpolate (old_qlsp st) ql (lpcSize st) sub (nbSubframes st);
          il \<leftarrow> lsp_enforce_margin il (lpcSize st) 410;
          lsp_to_lpc il (lpcSize st) }"

definition sb_subframe ::
  "SpeexSBMode \<Rightarrow> SpeexSubmode \<Rightarrow> low_band \<Rightarrow> int list \<Rightarrow> nat \<Rightarrow> int \<Rightarrow> 'l SBDecState \<Rightarrow> speex_bits \<Rightarrow>
   (int list \<times> int \<times> 'l SBDecState \<times> speex_bits) option" where
  "sb_subframe mode sm low ql sub ener st bits =
     do { let nsf = subframeSize st;
          ak \<leftarrow> sb_filter st ql sub;
          pg \<leftarrow> mem_put (pi_gain st) sub (high_edge ak (lpcSize st));
          rl \<leftarrow> mem_get (low_pi_gain low) sub;
          ratio \<leftarrow> filter_ratio rl (low_edge ak (lpcSize st));
          (x, bits, sd) \<leftarrow> sb_excitation mode sm low sub nsf ratio bits (seed st);
          st \<leftarrow> save_high (nsf * sub) x (st\<lparr>pi_gain := pg, seed := sd\<rparr>);
          past \<leftarrow> mem_read (excBuf st) 0 nsf;
          (y, st) \<leftarrow> filter_high st past;
          let e = map (\<lambda>v. EXTRACT16 (PSHR32 v 14)) x;
          buf \<leftarrow> mem_write (excBuf st) 0 e;
          rms \<leftarrow> compute_rms16 buf nsf;
          er \<leftarrow> mem_put (exc_rms st) sub rms;
          d \<leftarrow> DIV32 (MULT16_16 rms rms) (int (nbSubframes st));
          Some (y, ADD32 ener d, st\<lparr>excBuf := buf, interp_qlpc := ak, exc_rms := er\<rparr>, bits) }"

fun sb_subframes ::
  "SpeexSBMode \<Rightarrow> SpeexSubmode \<Rightarrow> low_band \<Rightarrow> int list \<Rightarrow> nat list \<Rightarrow> int \<Rightarrow> 'l SBDecState \<Rightarrow> speex_bits \<Rightarrow>
   (int list \<times> int \<times> 'l SBDecState \<times> speex_bits) option" where
  "sb_subframes mode sm low ql [] ener st bits = Some ([], ener, st, bits)"
| "sb_subframes mode sm low ql (sub # subs) ener st bits =
     do { (y, ener, st, bits) \<leftarrow> sb_subframe mode sm low ql sub ener st bits;
          (ys, ener, st, bits) \<leftarrow> sb_subframes mode sm low ql subs ener st bits;
          Some (y @ ys, ener, st, bits) }"

definition sb_frame ::
  "SpeexSBMode \<Rightarrow> SpeexSubmode \<Rightarrow> low_band \<Rightarrow> int list \<Rightarrow> 'l SBDecState \<Rightarrow> speex_bits \<Rightarrow> (int list \<times> 'l SBDecState \<times> speex_bits) option" where
  "sb_frame mode sm low lo st bits =
     do { (ql, bits) \<leftarrow> lsp_unquant sm (lpcSize st) bits;
          let st = (if first st then st\<lparr>old_qlsp := ql\<rparr> else st);
          (hi, ener, st, bits) \<leftarrow> sb_subframes mode sm low ql [0..<nbSubframes st] 0 st bits;
          (out, st) \<leftarrow> join_bands (st\<lparr>last_ener := spx_sqrt ener\<rparr>) lo hi;
          Some (out, st\<lparr>old_qlsp := ql, first := False\<rparr>, bits) }"

subsection \<open>The decoder\<close>

text \<open>What the low decoder says about its frame.\<close>

definition ask_low_band :: "('l, 'e) SpeexMode \<Rightarrow> nat \<Rightarrow> int list \<Rightarrow> 'l \<Rightarrow> (low_band \<times> 'l) option" where
  "ask_low_band m n innov low =
     do { (r, arg, low) \<leftarrow> speex_decoder_ctl m SPEEX_GET_PI_GAIN (Numbers (replicate n 0)) low;
          pg \<leftarrow> numbers_of arg;
          (r, arg, low) \<leftarrow> speex_decoder_ctl m SPEEX_GET_EXC (Numbers (replicate n 0)) low;
          er \<leftarrow> numbers_of arg;
          Some (\<lparr>low_pi_gain = pg, low_exc_rms = er, low_innov = innov\<rparr>, low) }"

definition decode_low ::
  "('l, 'e) SpeexMode \<Rightarrow> nat \<Rightarrow> 'l \<Rightarrow> speex_bits option \<Rightarrow> int list \<Rightarrow> (int \<times> int list \<times> int list \<times> bool \<times> 'l \<times> speex_bits option) option" where
  "decode_low m fs low bits out =
     do { (r, arg, low) \<leftarrow> speex_decoder_ctl m SPEEX_SET_INNOVATION_SAVE (Block (Some (drop fs out))) low;
          (ret, lo, low, bits) \<leftarrow> speex_decode_native m low bits (take fs out);
          hi \<leftarrow> lent_block m low;
          (r, arg, low) \<leftarrow> speex_decoder_ctl m SPEEX_GET_DTX_STATUS (Number 0) low;
          dtx \<leftarrow> number_of arg;
          Some (ret, lo, hi, dtx \<noteq> 0, low, bits) }"

definition sb_decode ::
  "('l, 'e) SpeexMode \<Rightarrow> SpeexSBMode \<Rightarrow> 'l SBDecState \<Rightarrow> speex_bits option \<Rightarrow> int list \<Rightarrow>
   (int \<times> int list \<times> 'l SBDecState \<times> speex_bits option) option" where
  "sb_decode m mode st bits out =
     do { (ret, lo, hi, dtx, low, bits) \<leftarrow> decode_low m (frame_size st) (st_low st) bits out;
          let st = st\<lparr>st_low := low\<rparr>;
          if ret \<noteq> 0 then Some (ret, lo @ hi, st, bits)
          else
            case bits of
              None \<Rightarrow> do { (out, st) \<leftarrow> sb_decode_lost st lo dtx; Some (0, out, st, None) }
            | Some b \<Rightarrow>
                do { (code, st, b) \<leftarrow> read_layer st b;
                     case code of
                       Some c \<Rightarrow> Some (c, lo @ hi, st, Some b)
                     | None \<Rightarrow>
                         do { sm \<leftarrow> cell (submodes st) (submodeID st);
                              case sm of
                                None \<Rightarrow> do { (out, st) \<leftarrow> sb_null_frame st lo dtx; Some (0, out, st, Some b) }
                              | Some sm \<Rightarrow>
                                  do { (low, l) \<leftarrow> ask_low_band m (nbSubframes st) hi (st_low st);
                                       (out, st, b) \<leftarrow> sb_frame mode sm low lo (st\<lparr>st_low := l\<rparr>) b;
                                       Some (0, out, st, Some b) } } } }"

end
