(* ===== verification/Sb_Control.thy ===== *)
theory Sb_Control
  imports Sb_Decoder
begin

text \<open>
  The requests to the wideband decoder: \<open>sb_decoder_ctl\<close> of \<open>sb_celp.c\<close>, and the wideband mode as a low decoder
  for ultra-wideband. What the low decoder returns is ignored, as in the code.
\<close>

definition SPEEX_SET_QUALITY :: nat where "SPEEX_SET_QUALITY = 4"

definition low_requests :: "nat set" where
  "low_requests = {SPEEX_SET_LOW_MODE, SPEEX_GET_LOW_MODE, SPEEX_SET_HANDLER, SPEEX_SET_USER_HANDLER, SPEEX_SET_HIGHPASS, SPEEX_GET_HIGHPASS,
     SPEEX_GET_ACTIVITY, SPEEX_GET_DTX_STATUS, SPEEX_SET_WIDEBAND}"

definition to_low :: "('l, 'e) SpeexMode \<Rightarrow> nat \<Rightarrow> 'e ctl_arg \<Rightarrow> 'l SBDecState \<Rightarrow> ('e ctl_arg \<times> 'l SBDecState) option" where
  "to_low m req arg st = do { (ret, arg, low) \<leftarrow> speex_decoder_ctl m req arg (st_low st); Some (arg, st\<lparr>st_low := low\<rparr>) }"

definition set_quality :: "('l, 'e) SpeexMode \<Rightarrow> SpeexSBMode \<Rightarrow> int \<Rightarrow> 'l SBDecState \<Rightarrow> 'l SBDecState option" where
  "set_quality m mode v st =
     do { let quality = (if v < 0 then 0 else v);
          let quality = (if quality > 10 then 10 else quality);
          hq \<leftarrow> mem_get (sb_quality_map mode) (nat quality);
          lq \<leftarrow> mem_get (low_quality_map mode) (nat quality);
          (arg, st) \<leftarrow> to_low m SPEEX_SET_MODE (Number lq) (st\<lparr>submodeID := hq\<rparr>);
          Some st }"

definition sb_reset_state :: "'l SBDecState \<Rightarrow> 'l SBDecState option" where
  "sb_reset_state st =
     do { mem \<leftarrow> mem_write (mem_sp st) 0 (replicate (2 * lpcSize st) 0);
          g0 \<leftarrow> mem_write (g0_mem st) 0 (replicate 64 0);
          g1 \<leftarrow> mem_write (g1_mem st) 0 (replicate 64 0);
          Some (st\<lparr>mem_sp := mem, g0_mem := g0, g1_mem := g1, last_ener := 0\<rparr>) }"

definition sb_set_number :: "('l, 'e) SpeexMode \<Rightarrow> SpeexSBMode \<Rightarrow> nat \<Rightarrow> int \<Rightarrow> 'l SBDecState \<Rightarrow> 'l SBDecState option" where
  "sb_set_number m mode req v st =
     (if req = SPEEX_SET_HIGH_MODE then Some (st\<lparr>submodeID := v\<rparr>)
      else if req = SPEEX_SET_ENH then
        do { (arg, st) \<leftarrow> to_low m req (Number v) st; Some (st\<lparr>lpc_enh_enabled := v\<rparr>) }
      else if req = SPEEX_SET_MODE \<or> req = SPEEX_SET_QUALITY then set_quality m mode v st
      else if req = SPEEX_SET_SAMPLING_RATE then
        do { (arg, st) \<leftarrow> to_low m req (Number (asr v 1)) (st\<lparr>sampling_rate := v\<rparr>); Some st }
      else if req = SPEEX_SET_SUBMODE_ENCODING then
        do { (arg, st) \<leftarrow> to_low m req (Number v) (st\<lparr>encode_submode := v\<rparr>); Some st }
      else None)"

definition sb_bitrate :: "'l SBDecState \<Rightarrow> int \<Rightarrow> int option" where
  "sb_bitrate st low =
     do { sm \<leftarrow> cell (submodes st) (submodeID st);
          let bits = (case sm of Some sm \<Rightarrow> int (bits_per_frame sm) | None \<Rightarrow> 3 + 1);
          if full_frame_size st = 0 then None else Some (i32 (low + i32 (sampling_rate st * bits) sdiv int (full_frame_size st))) }"

definition sb_get_number :: "('l, 'e) SpeexMode \<Rightarrow> nat \<Rightarrow> int \<Rightarrow> 'l SBDecState \<Rightarrow> (int \<times> 'l SBDecState) option" where
  "sb_get_number m req v st =
     (if req = SPEEX_GET_FRAME_SIZE then Some (int (full_frame_size st), st)
      else if req = SPEEX_GET_ENH then Some (lpc_enh_enabled st, st)
      else if req = SPEEX_GET_BITRATE then
        do { (arg, st) \<leftarrow> to_low m req (Number v) st; low \<leftarrow> number_of arg; r \<leftarrow> sb_bitrate st low; Some (r, st) }
      else if req = SPEEX_GET_SAMPLING_RATE then Some (sampling_rate st, st)
      else if req = SPEEX_GET_SUBMODE_ENCODING then Some (encode_submode st, st)
      else if req = SPEEX_GET_LOOKAHEAD then
        do { (arg, st) \<leftarrow> to_low m req (Number v) st; low \<leftarrow> number_of arg; Some (i32 (2 * low), st) }
      else None)"

definition sb_number_setters :: "nat set" where
  "sb_number_setters = {SPEEX_SET_HIGH_MODE, SPEEX_SET_ENH, SPEEX_SET_MODE, SPEEX_SET_QUALITY, SPEEX_SET_SAMPLING_RATE, SPEEX_SET_SUBMODE_ENCODING}"

definition sb_number_getters :: "nat set" where
  "sb_number_getters = {SPEEX_GET_FRAME_SIZE, SPEEX_GET_ENH, SPEEX_GET_BITRATE, SPEEX_GET_SAMPLING_RATE, SPEEX_GET_SUBMODE_ENCODING,
     SPEEX_GET_LOOKAHEAD}"

definition sb_decoder_ctl ::
  "('l, 'e) SpeexMode \<Rightarrow> SpeexSBMode \<Rightarrow> nat \<Rightarrow> 'e ctl_arg \<Rightarrow> 'l SBDecState \<Rightarrow> (int \<times> 'e ctl_arg \<times> 'l SBDecState) option" where
  "sb_decoder_ctl m mode req arg st =
     (if req \<in> sb_number_setters then do { v \<leftarrow> number_of arg; st \<leftarrow> sb_set_number m mode req v st; Some (0, arg, st) }
      else if req \<in> sb_number_getters then do { v \<leftarrow> number_of arg; (v, st) \<leftarrow> sb_get_number m req v st; Some (0, Number v, st) }
      else if req \<in> low_requests then do { (arg, st) \<leftarrow> to_low m req arg st; Some (0, arg, st) }
      else if req = SPEEX_RESET_STATE then do { st \<leftarrow> sb_reset_state st; Some (0, arg, st) }
      else if req = SPEEX_GET_PI_GAIN then
        do { block \<leftarrow> numbers_of arg; g \<leftarrow> mem_read (pi_gain st) 0 (nbSubframes st); block \<leftarrow> mem_write block 0 g; Some (0, Numbers block, st) }
      else if req = SPEEX_GET_EXC then
        do { block \<leftarrow> numbers_of arg; r \<leftarrow> mem_read (exc_rms st) 0 (nbSubframes st); block \<leftarrow> mem_write block 0 r; Some (0, Numbers block, st) }
      else if req = SPEEX_SET_INNOVATION_SAVE then
        (case arg of Block block \<Rightarrow> Some (0, arg, st\<lparr>innov_save := block\<rparr>) | _ \<Rightarrow> None)
      else if req = SPEEX_GET_STACK then (case arg of Stack \<Rightarrow> Some (0, Stack, st) | _ \<Rightarrow> None)
      else Some (-1, arg, st))"

text \<open>The wideband mode, on its low decoder.\<close>

definition speex_wb_mode :: "('l, 'e) SpeexMode \<Rightarrow> SpeexSBMode \<Rightarrow> ('l SBDecState, 'e) SpeexMode" where
  "speex_wb_mode m mode =
     \<lparr>dec = (\<lambda>st bits out. sb_decode m mode st bits out), dec_ctl = sb_decoder_ctl m mode, lent_block = innov_save\<rparr>"

lemmas sb_request_sets = sb_number_setters_def sb_number_getters_def low_requests_def SPEEX_SET_QUALITY_def SPEEX_SET_HIGH_MODE_def request_numbers

end
