(* ===== verification/Nb_Packets.thy ===== *)
theory Nb_Packets
  imports Nb_Control
begin

text \<open>
  The narrowband decoder as a whole: the search for the frame in a packet ends and takes the layers and requests before it,
  every packet and every loss is decoded, and frames take the bits that the mode says.
\<close>

subsection \<open>Moving in the packet\<close>

text \<open>Where a read leaves the reader: \<open>n\<close> bits on, or past the end.\<close>

definition moved :: "speex_bits \<Rightarrow> int \<Rightarrow> speex_bits \<Rightarrow> bool" where
  "moved b n b' \<longleftrightarrow>
     overflow b' \<or>
     reader_wf b \<and> reader_wf b' \<and> chars b' = chars b \<and> nbBits b' = nbBits b \<and> int (position b') = int (position b) + n"

lemma moved_ok: "moved b n b' \<Longrightarrow> rd_ok b'"
  by (auto simp: moved_def rd_ok_def)

lemma moved_trans: "moved b n b1 \<Longrightarrow> moved b1 m b2 \<Longrightarrow> moved b (n + m) b2"
  by (auto simp: moved_def reader_wf_def)

lemma remaining_bits: "reader_wf b \<Longrightarrow> speex_bits_remaining b = nbBits b - int (position b)"
  by (simp add: speex_bits_remaining_def reader_wf_def position_def)

lemma moved_remaining: "moved b n b' \<Longrightarrow> speex_bits_remaining b' = -1 \<or> speex_bits_remaining b' = speex_bits_remaining b - n"
  by (auto simp: moved_def remaining_bits) (simp add: speex_bits_remaining_def)

lemma remaining_range: "rd_ok b \<Longrightarrow> -1 \<le> speex_bits_remaining b"
  by (auto simp: rd_ok_def remaining_bits) (auto simp: speex_bits_remaining_def reader_wf_def position_def)

lemma unpack_moves:
  assumes "rd_ok b"
  shows "\<exists>v b'. speex_bits_unpack_unsigned b n = Some (v, b') \<and> moved b (int n) b' \<and> unat v < 2 ^ n"
proof -
  obtain v b' where v: "speex_bits_unpack_unsigned b n = Some (v, b')" "rd_ok b'" "unat v < 2 ^ n"
    using unpack_answers [OF assms] by blast
  show ?thesis
  proof (cases "reader_wf b \<and> n \<le> length (remaining b)")
    case True
    then have "b' = b\<lparr>charPtr := (position b + n) div 8, bitPtr := (position b + n) mod 8\<rparr>"
      using unpack_unsigned_takes [of b n] v(1) by simp
    moreover from this have "reader_wf b'" using advanced_reader(1) True by blast
    ultimately have "moved b (int n) b'" using True by (auto simp: moved_def position_def)
    then show ?thesis using v by blast
  next
    case False
    then have "past_end b n \<or> overflow b" using assms not_past_end [of b n] by (auto simp: rd_ok_def)
    then have "overflow b'" using unpack_past_end v(1) by force
    then show ?thesis using v by (auto simp: moved_def)
  qed
qed

lemma advance_by_moves:
  assumes "rd_ok b" and "overflow b \<or> 0 \<le> int (position b) + n"
  shows "\<exists>b'. speex_bits_advance_by b n = Some b' \<and> moved b n b'"
proof (cases "shl (int (charPtr b)) 3 + int (bitPtr b) + n > nbBits b \<or> overflow b")
  case True
  then show ?thesis by (auto simp: speex_bits_advance_by_def moved_def)
next
  case False
  then have wf: "reader_wf b" and pos: "0 \<le> int (position b) + n" using assms by (auto simp: rd_ok_def)
  let ?p = "nat (int (position b) + n)"
  have bp: "bitPtr b < 8" using wf by (simp add: reader_wf_def)
  have "int (charPtr b) + asr (int (bitPtr b) + n) 3 = (int (position b) + n) div 8"
    by (simp add: position_def asr_def algebra_simps)
  moreover have "(int (bitPtr b) + n) mod 8 = (int (position b) + n) mod 8"
    using mod_mult_self2 [of "int (bitPtr b) + n" 8 "int (charPtr b)"] by (simp add: position_def algebra_simps)
  ultimately have adv: "speex_bits_advance_by b n = Some (b\<lparr>charPtr := ?p div 8, bitPtr := ?p mod 8\<rparr>)"
    using False pos by (simp add: speex_bits_advance_by_def nat_div_distrib nat_mod_distrib)
  let ?b = "b\<lparr>charPtr := ?p div 8, bitPtr := ?p mod 8\<rparr>"
  have "position ?b = ?p" by (simp add: position_def)
  moreover from this have "reader_wf ?b" using wf False pos by (simp add: reader_wf_def position_def)
  ultimately have "moved b n ?b" using wf pos by (simp add: moved_def)
  then show ?thesis using adv by blast
qed

lemma advance_forward:
  assumes "rd_ok b"
  shows "rd_ok (speex_bits_advance b n) \<and> speex_bits_remaining (speex_bits_advance b n) \<le> speex_bits_remaining b"
proof (cases "past_end b n \<or> overflow b")
  case True
  then show ?thesis using remaining_range [OF assms]
    by (simp add: speex_bits_advance_def rd_ok_def) (simp add: speex_bits_remaining_def)
next
  case False
  then have wf: "reader_wf b" using assms by (simp add: rd_ok_def)
  then have fit: "n \<le> length (remaining b)" using not_past_end [OF wf] False by auto
  note adv = advance_fits [OF wf fit] advanced_reader(1) [OF wf fit]
  then show ?thesis using remaining_bits [OF wf] remaining_bits [OF adv(2)] by (simp add: rd_ok_def position_def)
qed

lemma unpack_forward:
  assumes "rd_ok b"
  shows "\<exists>v b'. speex_bits_unpack_unsigned b n = Some (v, b') \<and> rd_ok b' \<and> speex_bits_remaining b' \<le> speex_bits_remaining b \<and> unat v < 2 ^ n"
  using unpack_moves [OF assms, of n] moved_ok moved_remaining remaining_range [OF assms] by fastforce

subsection \<open>Layers are skipped\<close>

lemma skip_layer_moves:
  assumes rd: "rd_ok b" and p: "overflow b \<or> 1 \<le> position b"
  shows "\<exists>b' n. skip_layer b = Some b' \<and> moved b n b' \<and> -1 \<le> n"
proof -
  obtain s b1 where s: "speex_bits_unpack_unsigned b 3 = Some (s, b1)" "moved b 3 b1" "unat s < 8" using unpack_moves [OF rd, of 3] by auto
  have "length wb_skip_table = 8" "list_all (\<lambda>a. 0 \<le> a) wb_skip_table" by (simp_all add: wb_skip_table_def)
  then obtain a where a: "mem_get wb_skip_table (unat s) = Some a" "0 \<le> a" using s(3) by (simp add: mem_get_def list_all_length)
  have "overflow b1 \<or> 0 \<le> int (position b1) + (a - (3 + 1))" using s(2) p a(2) by (auto simp: moved_def reader_wf_def)
  then obtain b2 where b2: "speex_bits_advance_by b1 (a - (3 + 1)) = Some b2" "moved b1 (a - (3 + 1)) b2"
    using advance_by_moves [OF moved_ok [OF s(2)]] by blast
  have "skip_layer b = Some b2" by (simp only: skip_layer_def s(1) a(1) b2(1) Option.bind.bind_lunit prod.case)
  then show ?thesis using moved_trans [OF s(2) b2(2)] a(2) by fastforce
qed

lemma moved_position: "moved b n b' \<Longrightarrow> 1 \<le> n \<Longrightarrow> overflow b' \<or> 1 \<le> position b'"
  by (auto simp: moved_def)

text \<open>When a frame or a request follows, at least the bit that says so has been taken.\<close>

lemma skip_layers_moves:
  assumes rd: "rd_ok b"
  shows "\<exists>ret b' n. skip_layers b = Some (ret, b') \<and> rd_ok b' \<and> ret \<noteq> Some 0 \<and> (ret = None \<longrightarrow> 5 \<le> speex_bits_remaining b \<and> moved b n b' \<and> 1 \<le> n)"
proof (cases "speex_bits_remaining b < 5")
  case True
  then show ?thesis using rd by (simp add: skip_layers_def)
next
  case False
  obtain w1 b1 where 1: "speex_bits_unpack_unsigned b 1 = Some (w1, b1)" "moved b 1 b1" using unpack_moves [OF rd, of 1] by auto
  show ?thesis
  proof (cases "w1 = 0")
    case True
    then have "skip_layers b = Some (None, b1)" using False 1(1) by (simp add: skip_layers_def)
    then show ?thesis using 1(2) moved_ok [OF 1(2)] False by fastforce
  next
    case w1: False
    obtain b2 n2 where 2: "skip_layer b1 = Some b2" "moved b1 n2 b2" "-1 \<le> n2"
      using skip_layer_moves [OF moved_ok [OF 1(2)] moved_position [OF 1(2)]] by auto
    show ?thesis
    proof (cases "speex_bits_remaining b2 < 5")
      case True
      then have "skip_layers b = Some (Some (-1), b2)" using False 1(1) 2(1) w1 by (simp add: skip_layers_def)
      then show ?thesis using moved_ok [OF 2(2)] by auto
    next
      case r2: False
      obtain w3 b3 where 3: "speex_bits_unpack_unsigned b2 1 = Some (w3, b3)" "moved b2 1 b3" using unpack_moves [OF moved_ok [OF 2(2)], of 1] by auto
      note m3 = moved_trans [OF moved_trans [OF 1(2) 2(2)] 3(2)]
      show ?thesis
      proof (cases "w3 = 0")
        case True
        then have "skip_layers b = Some (None, b3)" using False 1(1) 2(1) 3(1) w1 r2 by (simp add: skip_layers_def)
        then show ?thesis using m3 moved_ok [OF m3] 2(3) False by fastforce
      next
        case w3: False
        obtain b4 n4 where 4: "skip_layer b3 = Some b4" "moved b3 n4 b4" "-1 \<le> n4"
          using skip_layer_moves [OF moved_ok [OF 3(2)] moved_position [OF 3(2)]] by auto
        obtain w5 b5 where 5: "speex_bits_unpack_unsigned b4 1 = Some (w5, b5)" "moved b4 1 b5" using unpack_moves [OF moved_ok [OF 4(2)], of 1] by auto
        note m5 = moved_trans [OF moved_trans [OF m3 4(2)] 5(2)]
        have "skip_layers b = Some (if w5 = 0 then None else Some (-2), b5)"
          using False 1(1) 2(1) 3(1) 4(1) 5(1) w1 w3 r2 by (simp add: skip_layers_def)
        then show ?thesis using m5 moved_ok [OF m5] 2(3) 4(3) False by (cases "w5 = 0") fastforce+
      qed
    qed
  qed
qed

subsection \<open>What a request handler must keep\<close>

text \<open>A decoder in order that has lost at most \<open>n\<close> frames in a row; with \<open>l\<close>, one that has a block for the innovation.\<close>

definition dec_lost :: "bool \<Rightarrow> int \<Rightarrow> DecState \<Rightarrow> bool" where
  "dec_lost l n st \<longleftrightarrow> dec_ok st \<and> 0 \<le> count_lost st \<and> count_lost st \<le> n \<and> (l \<longrightarrow> innov_save st \<noteq> None)"

text \<open>A handler leaves the decoder in order and never moves back in the packet.\<close>

definition handler_ok :: "(DecState \<times> 'e) handler \<Rightarrow> bool" where
  "handler_ok h \<longleftrightarrow>
     (\<forall>b st env l n. rd_ok b \<longrightarrow> dec_lost l n st \<longrightarrow>
        (\<exists>ret b' st' env'. h b (st, env) = Some (ret, b', st', env') \<and> rd_ok b' \<and> dec_lost l n st' \<and>
           speex_bits_remaining b' \<le> speex_bits_remaining b))"

lemma handler_okI:
  assumes "\<And>b st env l n. rd_ok b \<Longrightarrow> dec_lost l n st \<Longrightarrow>
    \<exists>ret b' st' env'. h b (st, env) = Some (ret, b', st', env') \<and> rd_ok b' \<and> dec_lost l n st' \<and>
      speex_bits_remaining b' \<le> speex_bits_remaining b"
  shows "handler_ok h"
  using assms by (simp add: handler_ok_def)

text \<open>The library's handlers: one reads a value and acts on the decoder or the application's data, one skips.\<close>

lemma handler_ok_reads:
  assumes "\<And>b st. h b st = do { (v, b) \<leftarrow> speex_bits_unpack_unsigned b n; Some (0, b, f v st) }"
    and "\<And>v l m st env. dec_lost l m st \<Longrightarrow> dec_lost l m (fst (f v (st, env)))"
  shows "handler_ok h"
proof (rule handler_okI)
  fix b st l m and env :: 'a
  assume b: "rd_ok b" "dec_lost l m st"
  obtain v b1 where v: "speex_bits_unpack_unsigned b n = Some (v, b1)" "rd_ok b1" "speex_bits_remaining b1 \<le> speex_bits_remaining b"
    using unpack_forward [OF b(1)] by blast
  obtain st1 env1 where f: "f v (st, env) = (st1, env1)" by (cases "f v (st, env)") auto
  then have "dec_lost l m st1" using assms(2) [OF b(2), of v env] by simp
  then show "\<exists>ret b' st' env'. h b (st, env) = Some (ret, b', st', env') \<and> rd_ok b' \<and> dec_lost l m st' \<and>
      speex_bits_remaining b' \<le> speex_bits_remaining b"
    using v f by (simp add: assms(1))
qed

lemma handler_ok_user: "handler_ok speex_default_user_handler"
proof (rule handler_okI)
  fix b st l m and env :: 'a
  assume b: "rd_ok b" "dec_lost l m st"
  obtain v b1 where v: "speex_bits_unpack_unsigned b 4 = Some (v, b1)" "rd_ok b1" "speex_bits_remaining b1 \<le> speex_bits_remaining b"
    using unpack_forward [OF b(1)] by blast
  then show "\<exists>ret b' st' env'. speex_default_user_handler b (st, env) = Some (ret, b', st', env') \<and> rd_ok b' \<and> dec_lost l m st' \<and>
      speex_bits_remaining b' \<le> speex_bits_remaining b"
    using b(2) advance_forward [OF v(2), of "5 + 8 * unat v"] by (simp add: speex_default_user_handler_def)
qed

locale request_handlers =
  fixes cb :: "'e callbacks"
  assumes registered: "length (speex_callbacks cb) = 16"
    and inband: "Some h \<in> set (speex_callbacks cb) \<Longrightarrow> handler_ok h"
    and user: "handler_ok (user_callback cb)"
begin

lemma inband_handler_ok: "handler_ok (speex_inband_handler (speex_callbacks cb))"
  unfolding handler_ok_def
proof (intro allI impI)
  fix b st and env :: 'e and l n
  assume rd: "rd_ok b" and ok: "dec_lost l n st"
  obtain ix b1 where 1: "speex_bits_unpack_unsigned b 4 = Some (ix, b1)" "moved b 4 b1" "unat ix < 16" using unpack_moves [OF rd, of 4] by auto
  have g: "mem_get (speex_callbacks cb) (unat ix) = Some (speex_callbacks cb ! unat ix)" using 1(3) registered by (simp add: mem_simps)
  have le: "speex_bits_remaining b1 \<le> speex_bits_remaining b"
    using moved_remaining [OF 1(2)] remaining_range [OF rd] by auto
  show "\<exists>ret b' st' env'. speex_inband_handler (speex_callbacks cb) b (st, env) = Some (ret, b', st', env') \<and> rd_ok b' \<and> dec_lost l n st' \<and>
      speex_bits_remaining b' \<le> speex_bits_remaining b"
  proof (cases "speex_callbacks cb ! unat ix")
    case None
    let ?b = "speex_bits_advance b1 (skip_width (unat ix))"
    have "rd_ok ?b \<and> speex_bits_remaining ?b \<le> speex_bits_remaining b1" by (rule advance_forward [OF moved_ok [OF 1(2)]])
    then show ?thesis using 1(1) g None ok le by (fastforce simp: speex_inband_handler_def)
  next
    case (Some h)
    then have "handler_ok h" using 1(3) registered by (intro inband) (metis nth_mem)
    then obtain ret b' st' env' where "h b1 (st, env) = Some (ret, b', st', env')" "rd_ok b'" "dec_lost l n st'"
      "speex_bits_remaining b' \<le> speex_bits_remaining b1"
      using ok moved_ok [OF 1(2)] unfolding handler_ok_def by blast
    then show ?thesis using 1(1) g Some le by (simp add: speex_inband_handler_def)
  qed
qed

text \<open>The search for a frame ends: every round takes bits from the packet.\<close>

lemma nb_scan_total:
  assumes "rd_ok b" and "dec_lost l n st"
  shows "\<exists>s b' st' env'. nb_scan cb b (st, env) = Some (s, b', st', env') \<and> rd_ok b' \<and> dec_lost l n st' \<and> (\<forall>m. s = Frame m \<longrightarrow> m \<le> 8) \<and> (\<forall>c. s = Return c \<longrightarrow> c \<noteq> 0)"
  using assms
proof (induction "nat (speex_bits_remaining b)" arbitrary: b st env rule: less_induct)
  case less
  obtain ret b1 k where 1: "skip_layers b = Some (ret, b1)" "rd_ok b1" "ret \<noteq> Some 0"
    "ret = None \<longrightarrow> 5 \<le> speex_bits_remaining b \<and> moved b k b1 \<and> 1 \<le> k"
    using skip_layers_moves [OF less.prems(1)] by blast
  show ?case
  proof (cases ret)
    case (Some code)
    then show ?thesis using 1 less.prems by (simp add: nb_scan.simps [of cb b])
  next
    case None
    then have r: "5 \<le> speex_bits_remaining b" "moved b k b1" "1 \<le> k" using 1(4) by simp_all
    show ?thesis
    proof (cases "speex_bits_remaining b1 < 4")
      case True
      then show ?thesis using 1 None less.prems by (simp add: nb_scan.simps [of cb b])
    next
      case room: False
      obtain m b2 where 2: "speex_bits_unpack_unsigned b1 4 = Some (m, b2)" "moved b1 4 b2" "unat m < 16" using unpack_moves [OF 1(2), of 4] by auto
      have less2: "speex_bits_remaining b2 < speex_bits_remaining b"
        using moved_remaining [OF moved_trans [OF r(2) 2(2)]] r(1,3) by auto
      have again: "\<exists>s b' st' env'. (do { (ret, bits, st) \<leftarrow> h b2 (st, env); if ret \<noteq> 0 then Some (Return ret, bits, st) else nb_scan cb bits st })
          = Some (s, b', st', env') \<and> rd_ok b' \<and> dec_lost l n st' \<and> (\<forall>m. s = Frame m \<longrightarrow> m \<le> 8) \<and> (\<forall>c. s = Return c \<longrightarrow> c \<noteq> 0)"
        if h: "handler_ok h" for h :: "(DecState \<times> 'e) handler"
      proof -
        obtain ret b3 st3 env3 where 3: "h b2 (st, env) = Some (ret, b3, st3, env3)" "rd_ok b3" "dec_lost l n st3"
          "speex_bits_remaining b3 \<le> speex_bits_remaining b2"
          using h moved_ok [OF 2(2)] less.prems(2) unfolding handler_ok_def by blast
        have "nat (speex_bits_remaining b3) < nat (speex_bits_remaining b)" using 3(4) less2 r(1) by simp
        then show ?thesis using less.hyps [OF _ 3(2,3), of env3] 3 by (cases "ret = 0") auto
      qed
      consider "m = 15" | "m = 14" | "m = 13" | "m > 8" "m \<noteq> 15" "m \<noteq> 14" "m \<noteq> 13" | "m \<le> 8" by force
      then show ?thesis
      proof cases
        case 1
        then show ?thesis using \<open>skip_layers b = Some (ret, b1)\<close> None room 2 moved_ok [OF 2(2)] less.prems(2) by (simp add: nb_scan.simps [of cb b])
      next
        case 2
        then show ?thesis using again [OF inband_handler_ok] \<open>skip_layers b = Some (ret, b1)\<close> None room \<open>speex_bits_unpack_unsigned b1 4 = Some (m, b2)\<close>
          by (simp add: nb_scan.simps [of cb b])
      next
        case 3
        then show ?thesis using again [OF user] \<open>skip_layers b = Some (ret, b1)\<close> None room \<open>speex_bits_unpack_unsigned b1 4 = Some (m, b2)\<close>
          by (simp add: nb_scan.simps [of cb b])
      next
        case 4
        then show ?thesis using \<open>skip_layers b = Some (ret, b1)\<close> None room 2 moved_ok [OF 2(2)] less.prems(2) by (simp add: nb_scan.simps [of cb b])
      next
        case 5
        moreover from this have "unat m \<le> 8" by (simp add: word_le_nat_alt)
        moreover from 5 have "\<not> m > 8" "m \<noteq> 15" "m \<noteq> 14" "m \<noteq> 13" by auto
        ultimately show ?thesis using \<open>skip_layers b = Some (ret, b1)\<close> None room 2 moved_ok [OF 2(2)] less.prems(2) by (simp add: nb_scan.simps [of cb b])
      qed
    qed
  qed
qed

text \<open>A packet is answered with a frame or a code.\<close>

lemma nb_decode_packet:
  assumes b: "rd_ok b" and st: "dec_lost l n st"
  shows "\<exists>ret out st' env' b'. nb_decode cb (st, env) (Some b) = Some (ret, out, (st', env'), Some b') \<and> rd_ok b' \<and> dec_lost l n st' \<and>
    (if ret = 0 then \<exists>x. out = Some x \<and> samples 160 x \<and> count_lost st' = 0 else out = None)"
proof -
  have frame: "\<exists>out st' b'. nb_decode_frame st (Some b) = Some (out, st', Some b') \<and> samples 160 out \<and> rd_ok b' \<and> dec_lost l n st' \<and>
      count_lost st' = 0" if "dec_lost l n st" "rd_ok b" for st b
    using nb_decode_frame_total [of st b] that spends_ok unfolding dec_lost_def same_loan_def by fastforce
  show ?thesis
  proof (cases "encode_submode st = 0")
    case True
    then show ?thesis using frame [OF st b] by (auto simp: nb_decode_def)
  next
    case False
    obtain s b1 st1 env1 where scan: "nb_scan cb b (st, env) = Some (s, b1, st1, env1)" "rd_ok b1" "dec_lost l n st1"
      "\<forall>m. s = Frame m \<longrightarrow> m \<le> 8" "\<forall>c. s = Return c \<longrightarrow> c \<noteq> 0"
      using nb_scan_total [OF b st] by blast
    show ?thesis
    proof (cases s)
      case (Return code)
      then show ?thesis using scan False by (simp add: nb_decode_def)
    next
      case (Frame m)
      then have "dec_lost l n (st1\<lparr>submodeID := int m\<rparr>)" using scan(3,4) by (simp add: dec_lost_def dec_ok_update(10))
      then show ?thesis using frame [OF _ scan(2)] scan(1) Frame False by (fastforce simp: nb_decode_def)
    qed
  qed
qed

end

lemma nb_decode_loss:
  assumes "dec_lost l n st" and "n < 2147483647"
  shows "\<exists>x st'. nb_decode cb (st, env) None = Some (0, Some x, (st', env), None) \<and> samples 160 x \<and> dec_lost l (n + 1) st'"
proof (cases "dtx_enabled st")
  case True
  have "dec_ok (st\<lparr>submodeID := 0\<rparr>)" using assms(1) by (simp add: dec_lost_def dec_ok_update(10))
  then obtain x st' where "nb_decode_frame (st\<lparr>submodeID := 0\<rparr>) None = Some (x, st', None)" "samples 160 x" "dec_ok st'"
    "innov_save st' = None \<longleftrightarrow> innov_save st = None" "count_lost st' = 0"
    using nb_decode_silence_total [of "st\<lparr>submodeID := 0\<rparr>"] by (auto simp: same_loan_def)
  then show ?thesis using True assms(1) by (auto simp: nb_decode_def dec_lost_def)
next
  case False
  obtain x st' where "nb_decode_lost st = Some (x, st')" "samples 160 x" "dec_ok st'"
    "innov_save st' = None \<longleftrightarrow> innov_save st = None" "count_lost st' = count_lost st + 1"
    using nb_decode_lost_total [of st] assms by (auto simp: dec_lost_def same_loan_def)
  then show ?thesis using False assms(1) by (auto simp: nb_decode_def dec_lost_def)
qed

subsection \<open>The library's handlers\<close>

text \<open>
  Requests for the decoder go to its control function, those for the encoder and the characters to the
  application.
\<close>

definition dec_request :: "(DecState \<times> 'e) ctl" where
  "dec_request req v = (\<lambda>(st, env). (case set_number req (int v) st of Some st' \<Rightarrow> (st', env) | None \<Rightarrow> (st, env)))"

definition to_application :: "('e \<Rightarrow> 'e) \<Rightarrow> DecState \<times> 'e \<Rightarrow> DecState \<times> 'e" where
  "to_application f = (\<lambda>(st, env). (st, f env))"

definition library_handler :: "'e ctl \<Rightarrow> (u8 \<Rightarrow> 'e \<Rightarrow> 'e) \<Rightarrow> nat \<Rightarrow> (DecState \<times> 'e) handler option" where
  "library_handler enc putc = standard_handler (\<lambda>req v. to_application (enc req v)) dec_request (\<lambda>ch. to_application (putc ch))"

definition library_callbacks :: "'e ctl \<Rightarrow> (u8 \<Rightarrow> 'e \<Rightarrow> 'e) \<Rightarrow> 'e callbacks \<Rightarrow> bool" where
  "library_callbacks enc putc cb \<longleftrightarrow>
     length (speex_callbacks cb) = 16 \<and> (\<forall>ix < 16. speex_callbacks cb ! ix \<in> {None, library_handler enc putc ix}) \<and>
     user_callback cb = speex_default_user_handler"

lemma enh_keeps: "dec_lost l n st \<Longrightarrow> dec_lost l n (fst (dec_request SPEEX_SET_ENH v (st, env)))"
  by (auto simp: dec_request_def set_number_def request_numbers dec_lost_def dec_ok_defs)

lemma application_keeps: "dec_lost l n st \<Longrightarrow> dec_lost l n (fst (to_application f (st, env)))"
  by (simp add: to_application_def)

lemma handler_ok_application:
  assumes "\<And>b st. h b st = do { (v, b) \<leftarrow> speex_bits_unpack_unsigned b n; Some (0, b, to_application (f v) st) }"
  shows "handler_ok h"
  by (rule handler_ok_reads [where f = "\<lambda>v. to_application (f v)", OF assms application_keeps])

lemma library_handler_ok: "library_handler enc putc ix = Some h \<Longrightarrow> handler_ok h"
proof -
  assume h: "library_handler enc putc ix = Some h"
  note app = handler_ok_application
  have "handler_ok (speex_std_enh_request_handler dec_request :: (DecState \<times> 'b) handler)"
    by (rule handler_ok_reads [where f = "\<lambda>v. dec_request SPEEX_SET_ENH (unat v)"], simp only: speex_std_enh_request_handler_def, rule enh_keeps)
  moreover have "handler_ok (speex_std_char_handler (\<lambda>ch. to_application (putc ch)))"
    by (rule app) (simp add: speex_std_char_handler_def)
  moreover have "handler_ok (speex_std_mode_request_handler (\<lambda>req v. to_application (enc req v)))"
    by (rule app) (simp add: speex_std_mode_request_handler_def)
  moreover have "handler_ok (speex_std_low_mode_request_handler (\<lambda>req v. to_application (enc req v)))"
    by (rule app) (simp add: speex_std_low_mode_request_handler_def)
  moreover have "handler_ok (speex_std_high_mode_request_handler (\<lambda>req v. to_application (enc req v)))"
    by (rule app) (simp add: speex_std_high_mode_request_handler_def)
  moreover have "handler_ok (speex_std_vbr_quality_request_handler (\<lambda>req v. to_application (enc req v)))"
    by (rule app) (simp add: speex_std_vbr_quality_request_handler_def)
  ultimately show ?thesis using h by (auto simp: library_handler_def standard_handler_def split: if_splits)
qed

lemma library_callbacks_ok: "library_callbacks enc putc cb \<Longrightarrow> request_handlers cb"
proof
  assume lib: "library_callbacks enc putc cb"
  then show "length (speex_callbacks cb) = 16" "handler_ok (user_callback cb)"
    by (simp_all add: library_callbacks_def handler_ok_user)
  fix h assume "Some h \<in> set (speex_callbacks cb)"
  then obtain ix where "ix < 16" "speex_callbacks cb ! ix = Some h" using lib by (auto simp: in_set_conv_nth library_callbacks_def)
  then have "library_handler enc putc ix = Some h" using lib by (auto simp: library_callbacks_def)
  then show "handler_ok h" by (rule library_handler_ok)
qed

interpretation silent: request_handlers default_callbacks
  by (rule library_callbacks_ok [of undefined undefined]) (simp add: library_callbacks_def default_callbacks_def)

subsection \<open>What is in a packet\<close>

text \<open>A wideband layer of submode \<open>l\<close>, and the start of a narrowband frame of submode \<open>m\<close>.\<close>

definition wb_layer :: "u32 \<times> bool list \<Rightarrow> bool list" where
  "wb_layer = (\<lambda>(l, body). True # msb_bits 3 l @ body)"

definition nb_start :: "u32 \<Rightarrow> bool list" where
  "nb_start m = False # msb_bits 4 m"

lemma take_flag:
  assumes "reader_wf b" and "remaining b = f # rest"
  shows "\<exists>b'. speex_bits_unpack_unsigned b 1 = Some (of_bool f, b') \<and> reader_wf b' \<and> remaining b' = rest"
  using unpack_takes_payload [OF assms(1), of "[f]" rest 1] assms(2) by (simp add: bits_val_def add_bit_def)

lemma take_number:
  assumes "reader_wf b" and "remaining b = msb_bits n d @ rest" and "unat d < 2 ^ n"
  shows "\<exists>b'. speex_bits_unpack_unsigned b n = Some (d, b') \<and> reader_wf b' \<and> remaining b' = rest"
  using unpack_field [OF assms(1,2)] take_bit_small [OF assms(3)] by simp

lemma remaining_count: "reader_wf b \<Longrightarrow> speex_bits_remaining b = int (length (remaining b))"
  using Speex_Bits.remaining_length [of b] by (auto simp: remaining_bits reader_wf_def of_nat_diff)

lemma advance_by_takes:
  assumes "reader_wf b" and "remaining b = body @ rest"
  shows "\<exists>b'. speex_bits_advance_by b (int (length body)) = Some b' \<and> reader_wf b' \<and> remaining b' = rest"
proof -
  have "speex_bits_advance_by b (int (length body)) = Some (speex_bits_advance b (length body))"
    by (auto simp: speex_bits_advance_by_def speex_bits_advance_def past_end_def asr_def nat_add_distrib nat_div_distrib nat_mod_distrib
        simp flip: zdiv_int zmod_int of_nat_add)
  then show ?thesis using advance_takes [OF assms(1,2)] by simp
qed

lemma skip_layer_takes:
  assumes "reader_wf b" and "remaining b = msb_bits 3 l @ body @ rest" and "l \<in> {1, 2, 3, 4}"
    and "length body + 4 = nat (wb_skip_table ! unat l)"
  shows "\<exists>b'. skip_layer b = Some b' \<and> reader_wf b' \<and> remaining b' = rest"
proof -
  have l: "unat l < 8" using assms(3) by auto
  obtain b1 where 1: "speex_bits_unpack_unsigned b 3 = Some (l, b1)" "reader_wf b1" "remaining b1 = body @ rest"
    using take_number [OF assms(1,2)] l by auto
  have "mem_get wb_skip_table (unat l) = Some (int (length body) + 4)"
    using l assms(3,4) by (auto simp: wb_skip_table_def mem_get_def)
  then show ?thesis using 1(1) advance_by_takes [OF 1(2,3)] by (simp add: skip_layer_def)
qed

definition layer_ok :: "u32 \<times> bool list \<Rightarrow> bool" where
  "layer_ok = (\<lambda>(l, body). l \<in> {1, 2, 3, 4} \<and> length body + 4 = nat (wb_skip_table ! unat l))"

lemma wb_layer_taken:
  assumes "reader_wf b" and "remaining b = wb_layer l @ rest" and "layer_ok l"
  shows "\<exists>b1 b2. speex_bits_unpack_unsigned b 1 = Some (1, b1) \<and> skip_layer b1 = Some b2 \<and> reader_wf b2 \<and> remaining b2 = rest"
proof -
  obtain k body where l: "l = (k, body)" by (cases l)
  obtain b1 where b1: "speex_bits_unpack_unsigned b 1 = Some (1, b1)" "reader_wf b1" "remaining b1 = msb_bits 3 k @ body @ rest"
    using take_flag [OF assms(1), of True] assms(2) l by (auto simp: wb_layer_def)
  then show ?thesis using skip_layer_takes [OF b1(2,3)] assms(3) l by (auto simp: layer_ok_def)
qed

lemma skip_layers_takes:
  assumes wf: "reader_wf b" and b: "remaining b = concat (map wb_layer ls) @ False # rest" and ls: "\<forall>l \<in> set ls. layer_ok l" "length ls \<le> 2"
    and rest: "4 \<le> length rest"
  shows "\<exists>b'. skip_layers b = Some (None, b') \<and> reader_wf b' \<and> remaining b' = rest"
proof -
  have room: "\<not> speex_bits_remaining b < 5" using remaining_count [OF wf] b rest by simp
  consider "ls = []" | l where "ls = [l]" | l k where "ls = [l, k]"
    using ls(2) by (cases ls; cases "tl ls") auto
  then show ?thesis
  proof cases
    case 1
    then obtain b1 where "speex_bits_unpack_unsigned b 1 = Some (0, b1)" "reader_wf b1" "remaining b1 = rest"
      using take_flag [OF wf, of False] b by auto
    then show ?thesis using room by (simp add: skip_layers_def)
  next
    case (2 l)
    then obtain b1 b2 where 1: "speex_bits_unpack_unsigned b 1 = Some (1, b1)" "skip_layer b1 = Some b2" "reader_wf b2" "remaining b2 = False # rest"
      using wb_layer_taken [OF wf, of l "False # rest"] b ls(1) by auto
    obtain b3 where "speex_bits_unpack_unsigned b2 1 = Some (0, b3)" "reader_wf b3" "remaining b3 = rest"
      using take_flag [OF 1(3,4)] by auto
    moreover have "\<not> speex_bits_remaining b2 < 5" using remaining_count [OF 1(3)] 1(4) rest by simp
    ultimately show ?thesis using room 1(1,2) by (simp add: skip_layers_def)
  next
    case (3 l k)
    then obtain b1 b2 where 1: "speex_bits_unpack_unsigned b 1 = Some (1, b1)" "skip_layer b1 = Some b2" "reader_wf b2"
      "remaining b2 = wb_layer k @ False # rest"
      using wb_layer_taken [OF wf, of l "wb_layer k @ False # rest"] b ls(1) by auto
    obtain b3 b4 where 2: "speex_bits_unpack_unsigned b2 1 = Some (1, b3)" "skip_layer b3 = Some b4" "reader_wf b4" "remaining b4 = False # rest"
      using wb_layer_taken [OF 1(3,4)] ls(1) 3 by auto
    obtain b5 where "speex_bits_unpack_unsigned b4 1 = Some (0, b5)" "reader_wf b5" "remaining b5 = rest"
      using take_flag [OF 2(3,4)] by auto
    moreover have "\<not> speex_bits_remaining b2 < 5" using remaining_count [OF 1(3)] 1(4) rest by simp
    ultimately show ?thesis using room 1(1,2) 2(1,2) by (simp add: skip_layers_def)
  qed
qed

text \<open>The head of a packet: layers, and four bits that say what follows.\<close>

lemma nb_head:
  assumes wf: "reader_wf b" and b: "remaining b = concat (map wb_layer ls) @ nb_start m @ rest" and ls: "\<forall>l \<in> set ls. layer_ok l" "length ls \<le> 2"
    and m: "unat m < 16"
  shows "\<exists>b1 b2. skip_layers b = Some (None, b1) \<and> \<not> speex_bits_remaining b1 < 4 \<and> speex_bits_unpack_unsigned b1 4 = Some (m, b2) \<and>
    reader_wf b2 \<and> remaining b2 = rest"
proof -
  obtain b1 where 1: "skip_layers b = Some (None, b1)" "reader_wf b1" "remaining b1 = msb_bits 4 m @ rest"
    using skip_layers_takes [OF wf, of ls "msb_bits 4 m @ rest"] b ls by (auto simp: nb_start_def)
  obtain b2 where "speex_bits_unpack_unsigned b1 4 = Some (m, b2)" "reader_wf b2" "remaining b2 = rest"
    using take_number [OF 1(2,3)] m by auto
  then show ?thesis using 1 remaining_count [OF 1(2)] by fastforce
qed

lemma nb_scan_frame:
  assumes "reader_wf b" and "remaining b = concat (map wb_layer ls) @ nb_start m @ rest" and "\<forall>l \<in> set ls. layer_ok l" and "length ls \<le> 2"
    and m: "unat m \<le> 8"
  shows "\<exists>b'. nb_scan cb b st = Some (Frame (unat m), b', st) \<and> reader_wf b' \<and> remaining b' = rest"
proof -
  have "\<not> m > 8" "m \<noteq> 13" "m \<noteq> 14" "m \<noteq> 15" using m by (auto simp: word_less_nat_alt)
  then show ?thesis using nb_head [OF assms(1-4)] m by (auto simp: nb_scan.simps [of cb b])
qed

lemma nb_scan_terminator:
  assumes "reader_wf b" and "remaining b = concat (map wb_layer ls) @ nb_start 15 @ rest" and "\<forall>l \<in> set ls. layer_ok l" and "length ls \<le> 2"
  shows "\<exists>b'. nb_scan cb b st = Some (Return (-1), b', st) \<and> reader_wf b' \<and> remaining b' = rest"
  using nb_head [OF assms] by (auto simp: nb_scan.simps [of cb b])

lemma nb_scan_request:
  assumes "reader_wf b" and "remaining b = concat (map wb_layer ls) @ nb_start 14 @ msb_bits 4 ix @ payload @ rest"
    and "\<forall>l \<in> set ls. layer_ok l" and "length ls \<le> 2"
    and ix: "unat ix < 16" "length (speex_callbacks cb) = 16"
    and h: "case speex_callbacks cb ! unat ix of Some h \<Rightarrow> consumes h (length payload) f
      | None \<Rightarrow> skip_width (unat ix) = length payload \<and> f = (\<lambda>v st. st)"
  shows "\<exists>b'. nb_scan cb b st = nb_scan cb b' (f (bits_val payload) st) \<and> reader_wf b' \<and> remaining b' = rest"
proof -
  obtain b1 b2 where 1: "skip_layers b = Some (None, b1)" "\<not> speex_bits_remaining b1 < 4" "speex_bits_unpack_unsigned b1 4 = Some (14, b2)"
    "reader_wf b2" "remaining b2 = msb_bits 4 ix @ payload @ rest"
    using nb_head [OF assms(1-4)] by auto
  obtain b3 where "speex_inband_handler (speex_callbacks cb) b2 st = Some (0, b3, f (bits_val payload) st)" "reader_wf b3" "remaining b3 = rest"
    using inband_dispatch [OF 1(4,5) ix h refl] by blast
  then show ?thesis using 1(1-3) by (auto simp: nb_scan.simps [of cb b])
qed

subsection \<open>Properties\<close>

text \<open>What the code documents as the bits of a frame, for the modes 0 to 8.\<close>

definition frame_sizes :: "nat list" where
  "frame_sizes = [5, 43, 119, 160, 220, 300, 364, 492, 79]"

lemma frame_bits_mode:
  assumes "dec_ok st" and "m \<le> 8"
  shows "frame_bits (st\<lparr>submodeID := int m\<rparr>) = frame_sizes ! m - 5"
proof -
  have "m \<in> {0, 1, 2, 3, 4, 5, 6, 7, 8}" using assms(2) by auto
  then show ?thesis
    by (elim insertE) (simp_all add: frame_bits_def dec_shapeD(8) [OF assms(1)] nb_mode_def frame_sizes_def nb_submode1_def nb_submode2_def
      nb_submode3_def nb_submode4_def nb_submode5_def nb_submode6_def nb_submode7_def nb_submode8_def)
qed

lemma nb_decode_of_scan:
  assumes scan: "nb_scan cb b (st, env) = Some (Frame m, b1, st1, env1)" and b1: "reader_wf b1" "dec_ok st1" "encode_submode st \<noteq> 0"
    and m: "m \<le> 8" "frame_sizes ! m - 5 \<le> length (remaining b1)"
  shows "\<exists>x st' b'. nb_decode cb (st, env) (Some b) = Some (0, Some x, (st', env1), Some b') \<and> samples 160 x \<and> dec_ok st' \<and> count_lost st' = 0 \<and>
    reader_wf b' \<and> remaining b' = drop (frame_sizes ! m - 5) (remaining b1)"
proof -
  let ?st = "st1\<lparr>submodeID := int m\<rparr>"
  have ok: "dec_ok ?st" "rd_ok b1" using b1 m by (simp_all add: dec_ok_update(10) rd_ok_def)
  obtain x st' b' where "nb_decode_frame ?st (Some b1) = Some (x, st', Some b')" "samples 160 x" "dec_ok st'" "count_lost st' = 0"
    "spends b1 (frame_bits ?st) b'"
    using nb_decode_frame_total [OF ok] by blast
  then show ?thesis using scan b1(1,3) m(2) frame_bits_mode [OF b1(2) m(1)] by (simp add: nb_decode_def spends_def)
qed




text \<open>
  A terminator ends the packet: the decoder says so and nothing of it has changed.
\<close>

theorem terminator_ends_packet:
  assumes "reader_wf b" and "remaining b = concat (map wb_layer ls) @ nb_start 15 @ rest" and "\<forall>l \<in> set ls. layer_ok l" and "length ls \<le> 2"
    and "encode_submode st \<noteq> 0"
  shows "\<exists>b'. nb_decode cb (st, env) (Some b) = Some (-1, None, (st, env), Some b') \<and> reader_wf b' \<and> remaining b' = rest"
proof -
  obtain b' where "nb_scan cb b (st, env) = Some (Return (-1), b', (st, env))" "reader_wf b'" "remaining b' = rest"
    using nb_scan_terminator [OF assms(1-4)] by blast
  then show ?thesis using assms(5) by (simp add: nb_decode_def)
qed

text \<open>A wideband layer whose width in the table is 0 takes the reader back to its start.\<close>

lemma advance_back:
  assumes "reader_wf b" and "4 \<le> position b"
  shows "\<exists>b'. speex_bits_advance_by b (-4) = Some b' \<and> reader_wf b' \<and> remaining b' = drop (position b - 4) (take (nat (nbBits b)) (buf_bits (chars b)))"
proof -
  obtain b' where b': "speex_bits_advance_by b (-4) = Some b'" "moved b (-4) b'"
    using advance_by_moves [of b "-4"] assms by (auto simp: rd_ok_def)
  moreover have "\<not> overflow b'" using b'(1) assms(1) by (auto simp: speex_bits_advance_by_def reader_wf_def position_def split: if_splits)
  ultimately have "reader_wf b'" "chars b' = chars b" "nbBits b' = nbBits b" "position b' = position b - 4"
    using assms(2) by (auto simp: moved_def)
  then show ?thesis using b'(1) by (simp add: remaining_def)
qed

lemma skip_layer_0:
  assumes "reader_wf b" and "remaining b = False # False # False # rest" and "0 < position b"
  shows "\<exists>b'. skip_layer b = Some b' \<and> reader_wf b' \<and> remaining b' = drop (position b - 1) (take (nat (nbBits b)) (buf_bits (chars b)))"
proof -
  have "remaining b = msb_bits 3 0 @ rest" using assms(2) by (simp add: msb_bits_def upt_rec)
  then obtain b1 where 1: "speex_bits_unpack_unsigned b 3 = Some (0, b1)" "reader_wf b1" "remaining b1 = rest"
    using take_number [OF assms(1), of 3 0 rest] by auto
  have "moved b 3 b1" using unpack_moves [of b 3] assms(1) 1(1) by (auto simp: rd_ok_def)
  then have p: "position b1 = position b + 3" "chars b1 = chars b" "nbBits b1 = nbBits b" using 1(2) by (auto simp: moved_def reader_wf_def)
  obtain b2 where "speex_bits_advance_by b1 (-4) = Some b2" "reader_wf b2"
    "remaining b2 = drop (position b1 - 4) (take (nat (nbBits b1)) (buf_bits (chars b1)))"
    using advance_back [OF 1(2)] p(1) assms(3) by auto
  moreover have "mem_get wb_skip_table 0 = Some 0" by (simp add: wb_skip_table_def mem_get_def)
  ultimately show ?thesis using 1(1) p by (simp add: skip_layer_def)
qed

lemma layer_0_taken:
  assumes "reader_wf b" and "remaining b = True # False # False # False # rest"
  shows "\<exists>b1 b2. speex_bits_unpack_unsigned b 1 = Some (1, b1) \<and> skip_layer b1 = Some b2 \<and> reader_wf b2 \<and> remaining b2 = remaining b"
proof -
  obtain b1 where 1: "speex_bits_unpack_unsigned b 1 = Some (1, b1)" "reader_wf b1" "remaining b1 = False # False # False # rest"
    using take_flag [OF assms] by auto
  have "moved b 1 b1" using unpack_moves [of b 1] assms(1) 1(1) by (auto simp: rd_ok_def)
  then have p: "position b1 = position b + 1" "chars b1 = chars b" "nbBits b1 = nbBits b" using 1(2) by (auto simp: moved_def reader_wf_def)
  then show ?thesis using skip_layer_0 [OF 1(2,3)] 1(1) by (auto simp: remaining_def)
qed

text \<open>
  C12. A wideband layer of submode 0, four bits that the wideband encoder writes for silence, is not skipped: its width in the table is 0,
  so the reader goes back to the start of the layer and the packet is rejected as corrupt.
\<close>

theorem wideband_layer_0_rejected:
  assumes wf: "reader_wf b" and b: "remaining b = wb_layer (0, []) @ rest" and rest: "rest \<noteq> []" and "encode_submode st \<noteq> 0"
  shows "\<exists>b'. nb_decode cb (st, env) (Some b) = Some (-2, None, (st, env), Some b')"
proof -
  have b0: "remaining b = True # False # False # False # rest" using b by (simp add: wb_layer_def msb_bits_def upt_rec)
  have room: "\<not> speex_bits_remaining b < 5" using remaining_count [OF wf] b0 rest by (cases rest) simp_all
  obtain b1 b2 where 1: "speex_bits_unpack_unsigned b 1 = Some (1, b1)" "skip_layer b1 = Some b2" "reader_wf b2" "remaining b2 = remaining b"
    using layer_0_taken [OF wf b0] by blast
  obtain b3 b4 where 2: "speex_bits_unpack_unsigned b2 1 = Some (1, b3)" "skip_layer b3 = Some b4" "reader_wf b4" "remaining b4 = remaining b"
    using layer_0_taken [OF 1(3)] 1(4) b0 by auto
  obtain b5 where 3: "speex_bits_unpack_unsigned b4 1 = Some (1, b5)" using take_flag [OF 2(3), of True] 2(4) b0 by auto
  have "\<not> speex_bits_remaining b2 < 5" using remaining_count [OF 1(3)] 1(4) room remaining_count [OF wf] by simp
  then have "skip_layers b = Some (Some (-2), b5)" using room 1(1,2) 2(1,2) 3 by (simp add: skip_layers_def)
  then show ?thesis using assms(4) by (simp add: nb_decode_def nb_scan.simps [of cb b])
qed

text \<open>A packet of the network, as \<open>speex_bits_read_from\<close> leaves it.\<close>

definition packet_of :: "u8 list \<Rightarrow> speex_bits" where
  "packet_of cs = \<lparr>chars = cs, nbBits = 8 * int (length cs), charPtr = 0, bitPtr = 0, owner = True, overflow = False, buf_size = length cs\<rparr>"

lemma packet_of_wf: "reader_wf (packet_of cs)"
  by (simp add: packet_of_def reader_wf_def position_def)

lemma encode_submode_init: "encode_submode (nb_decoder_init mode) = 1"
  by (simp add: nb_decoder_init_def Let_def)

text \<open>A frame of mode 8 behind a layer of submode 1, and what follows.\<close>

definition layered_packet :: speex_bits where
  "layered_packet = packet_of [0x90, 0, 0, 0, 4, 0, 0, 0, 0, 0, 0, 0, 0, 0, 0x15]"


text \<open>A request for mode 5, and silence.\<close>

definition request_packet :: speex_bits where
  "request_packet = packet_of [0x71, 0x28, 0x07]"

definition request_callbacks :: "nat callbacks" where
  "request_callbacks =
     \<lparr>speex_callbacks = (replicate 16 None)[2 := library_handler (\<lambda>req v e. v) (\<lambda>c e. e) 2], user_callback = speex_default_user_handler\<rparr>"


theorem terminator_ends_packet_witness:
  "\<exists>b'. nb_decode (default_callbacks :: unit callbacks) (nb_decoder_init nb_mode, ()) (Some (packet_of [0x7F])) =
     Some (-1, None, (nb_decoder_init nb_mode, ()), Some b') \<and> reader_wf b' \<and> remaining b' = [True, True, True]"
proof (rule terminator_ends_packet [where ls = "[]"])
  show "remaining (packet_of [0x7F]) = concat (map wb_layer []) @ nb_start 15 @ [True, True, True]" by code_simp
qed (simp_all add: packet_of_wf encode_submode_init)

text \<open>A layer of submode 0 and then silence: the samples that a narrowband decoder does not give.\<close>

theorem wideband_layer_0_rejected_witness:
  "\<exists>b'. nb_decode (default_callbacks :: unit callbacks) (nb_decoder_init nb_mode, ()) (Some (packet_of [0x80, 0x07])) =
     Some (-2, None, (nb_decoder_init nb_mode, ()), Some b')"
proof (rule wideband_layer_0_rejected)
  show "remaining (packet_of [0x80, 0x07]) = wb_layer (0, []) @ replicate 9 False @ [True, True, True]" by code_simp
qed (simp_all add: packet_of_wf encode_submode_init)

subsection \<open>Sessions\<close>

text \<open>
  The states that a decoder with the handlers \<open>cb\<close> gets into: by packets of any content, by losses, which are counted, and by
  requests of the application between them.
\<close>

inductive session :: "'e callbacks \<Rightarrow> int \<Rightarrow> DecState \<Rightarrow> 'e \<Rightarrow> bool" for cb where
  session_start: "session cb 0 (nb_decoder_init nb_mode) env"
| session_packet: "session cb n st env \<Longrightarrow> rd_ok b \<Longrightarrow> nb_decode cb (st, env) (Some b) = Some (ret, out, (st', env'), b') \<Longrightarrow> session cb n st' env'"
| session_loss: "session cb n st env \<Longrightarrow> nb_decode cb (st, env) None = Some (ret, out, (st', env'), b') \<Longrightarrow> session cb (n + 1) st' env'"
| session_control: "session cb n st env \<Longrightarrow> arg_fits req arg st \<Longrightarrow> nb_decoder_ctl activity req arg cb st = Some (ret, arg', cb, st') \<Longrightarrow>
    session cb n st' env"

lemma session_invariant:
  assumes "session cb n st env" and cb: "request_handlers cb" and "n < 2147483648"
  shows "dec_lost False n st"
  using assms(1,3)
proof (induction rule: session.induct)
  case session_start
  then show ?case by (simp add: dec_lost_def dec_ok_init) (simp add: nb_decoder_init_def Let_def)
next
  case (session_packet n st env b ret out st' env' b')
  have "\<exists>ret out st' env' b'. nb_decode cb (st, env) (Some b) = Some (ret, out, (st', env'), Some b') \<and> rd_ok b' \<and> dec_lost False n st' \<and>
    (if ret = 0 then \<exists>x. out = Some x \<and> samples 160 x \<and> count_lost st' = 0 else out = None)"
    by (rule request_handlers.nb_decode_packet [OF cb]) (use session_packet in simp_all)
  then show ?case using session_packet(3) by auto
next
  case (session_loss n st env ret out st' env' b')
  then show ?case using nb_decode_loss [of False n st cb env] by auto
next
  case (session_control n st env req arg activity ret arg' st')
  then have "dec_lost False n st" by simp
  then show ?case
    using requests_total [of st cb req arg activity] request_handlers.registered [OF cb] session_control(2,3)
    by (auto simp: dec_lost_def)
qed

text \<open>
  C4. A decoder survives everything: after any packets, with whatever content, any losses and any requests, and with whichever of the
  library's handlers registered, its state is in order, and the next packet or loss is answered within its
  buffers: a loss with 160 samples, a packet with 160 samples or with a code. (The counter of lost frames
  bounds the losses in one session.)
\<close>

theorem decoder_survives_session:
  assumes "session cb n st env" and "library_callbacks enc putc cb" and "n < 2147483647" and "rd_ok b"
  shows "dec_ok st \<and>
    (\<exists>ret out st' b'. nb_decode cb (st, env) (Some b) = Some (ret, out, st', Some b') \<and> rd_ok b' \<and>
       (if ret = 0 then \<exists>x. out = Some x \<and> samples 160 x else out = None)) \<and>
    (\<exists>x st'. nb_decode cb (st, env) None = Some (0, Some x, st', None) \<and> samples 160 x)"
proof -
  note cb = library_callbacks_ok [OF assms(2)]
  have st: "dec_lost False n st" using session_invariant [OF assms(1) cb] assms(3) by simp
  have "\<exists>ret out st' b'. nb_decode cb (st, env) (Some b) = Some (ret, out, st', Some b') \<and> rd_ok b' \<and>
      (if ret = 0 then \<exists>x. out = Some x \<and> samples 160 x else out = None)"
    using request_handlers.nb_decode_packet [OF cb assms(4) st, of env] by (auto split: if_splits)
  moreover have "\<exists>x st'. nb_decode cb (st, env) None = Some (0, Some x, st', None) \<and> samples 160 x"
    using nb_decode_loss [OF st assms(3), of cb env] by auto
  ultimately show ?thesis using st by (simp add: dec_lost_def)
qed

theorem decoder_survives_session_witness:
  "dec_ok (nb_decoder_init nb_mode) \<and>
    (\<exists>ret out st' b'. nb_decode (default_callbacks :: unit callbacks) (nb_decoder_init nb_mode, ()) (Some (packet_of [0xFF, 0x12])) =
       Some (ret, out, st', Some b') \<and> rd_ok b' \<and> (if ret = 0 then \<exists>x. out = Some x \<and> samples 160 x else out = None)) \<and>
    (\<exists>x st'. nb_decode (default_callbacks :: unit callbacks) (nb_decoder_init nb_mode, ()) None = Some (0, Some x, st', None) \<and> samples 160 x)"
proof (rule decoder_survives_session [where n = 0])
  show "session default_callbacks 0 (nb_decoder_init nb_mode) ()" by (rule session_start)
  show "library_callbacks (\<lambda>req v e. e) (\<lambda>ch e. e) (default_callbacks :: unit callbacks)"
    by (simp add: library_callbacks_def default_callbacks_def)
  show "rd_ok (packet_of [0xFF, 0x12])" using packet_of_wf by (simp add: rd_ok_def)
qed simp

end
