(* ===== verification/Sb_Safety.thy ===== *)
theory Sb_Safety
  imports Sb_Control Nb_Packets
begin

text \<open>
  The wideband decoder is safe: an invariant of its state, what it needs of its low decoder, and that every packet is decoded
  within the buffers, unless the filters of the two bands make it divide by zero; which packets do is a condition that can be computed.
\<close>

subsection \<open>The filter bank\<close>

lemma qmf_synth_sum_total:
  assumes "\<forall>j \<in> set js. 2 * j + 3 < length a \<and> p + j < length x1 \<and> p + j < length x2"
  shows "\<exists>y'. qmf_synth_sum a x1 x2 p js x0 y = Some y'"
  using assms
proof (induction js arbitrary: x0 y)
  case (Cons j js)
  then have "p - 1 + j < length x1" "p - 1 + j < length x2" by simp_all linarith+
  then show ?case using Cons by (simp add: mem_simps del: One_nat_def split_paired_Ex)
qed (simp del: split_paired_Ex)

lemma qmf_synth_loop_total:
  assumes "length a = 2 * M2" and "even M2" and "length x1 = N2 + M2" and "length x2 = N2 + M2" and "\<forall>i \<in> set ls. i + 2 \<le> N2"
  shows "\<exists>y. qmf_synth_loop a x1 x2 N2 M2 ls = Some y \<and> samples (4 * length ls) y"
  using assms(5)
proof (induction ls)
  case (Cons i ls)
  obtain k where k: "M2 = 2 * k" using assms(2) by (elim evenE)
  then have "(M2 + 1) div 2 = k" by simp
  then have "\<forall>j \<in> set (map (\<lambda>j. 2 * j) [0..<(M2 + 1) div 2]). 2 * j + 3 < length a \<and> (N2 - i) + j < length x1 \<and> (N2 - i) + j < length x2"
    using k assms by auto
  from qmf_synth_sum_total [OF this] obtain y0 y1 y2 y3 where
    s: "qmf_synth_sum a x1 x2 (N2 - i) (map (\<lambda>j. 2 * j) [0..<(M2 + 1) div 2]) (x1 ! (N2 - 2 - i), x2 ! (N2 - 2 - i)) (0, 0, 0, 0)
      = Some (y0, y1, y2, y3)" by (metis prod.exhaust)
  obtain ys where ys: "qmf_synth_loop a x1 x2 N2 M2 ls = Some ys" "samples (4 * length ls) ys" using Cons by auto
  have g: "mem_get x1 (N2 - 2 - i) = Some (x1 ! (N2 - 2 - i))" "mem_get x2 (N2 - 2 - i) = Some (x2 ! (N2 - 2 - i))" "i + 2 \<le> N2"
    using Cons.prems assms by (auto intro!: mem_get_Some)
  have "is_i16 (EXTRACT16 v)" for v by (simp add: EXTRACT16_def)
  then have "samples (4 + 4 * length ls) ([EXTRACT16 (SATURATE (PSHR32 y0 15) 32767), EXTRACT16 (SATURATE (PSHR32 y1 15) 32767),
      EXTRACT16 (SATURATE (PSHR32 y2 15) 32767), EXTRACT16 (SATURATE (PSHR32 y3 15) 32767)] @ ys)"
    by (intro samples_append ys(2)) (simp add: samples_def)
  then show ?case using g s ys(1) by (simp add: require_def)
qed (simp add: samples_def)

lemma odd_cells_total: "2 * n \<le> length mem \<Longrightarrow> \<exists>vs. odd_cells mem n = Some vs \<and> length vs = n"
  by (induction n) (auto simp: mem_simps)

lemma set_odd_cells_total: "2 * n \<le> length mem \<Longrightarrow> n \<le> length xs \<Longrightarrow> \<exists>mem'. set_odd_cells mem xs n = Some mem' \<and> length mem' = length mem"
  by (induction n) (auto simp: mem_simps)

lemma qmf_synth_total:
  assumes "even N2" and "N2 \<le> length x1" and "N2 \<le> length x2" and "length a = 2 * M2" and "even M2"
    and "2 * M2 \<le> length m1" and "2 * M2 \<le> length m2"
  shows "\<exists>out m1' m2'. qmf_synth x1 x2 a (2 * N2) (2 * M2) m1 m2 = Some (out, m1', m2') \<and> samples (2 * N2) out \<and>
    length m1' = length m1 \<and> length m2' = length m2"
proof -
  obtain v1 where v1: "odd_cells m1 M2 = Some v1" "length v1 = M2" using odd_cells_total assms(6) by blast
  obtain v2 where v2: "odd_cells m2 M2 = Some v2" "length v2 = M2" using odd_cells_total assms(7) by blast
  let ?x1 = "rev (take N2 x1) @ v1" and ?x2 = "rev (take N2 x2) @ v2" and ?ls = "map (\<lambda>i. 2 * i) [0..<(N2 + 1) div 2]"
  have l: "length ?x1 = N2 + M2" "length ?x2 = N2 + M2" using v1 v2 assms by simp_all
  obtain k where k: "N2 = 2 * k" using assms(1) by (elim evenE)
  then have "\<forall>i \<in> set ?ls. i + 2 \<le> N2" and n: "4 * length ?ls = 2 * N2" by auto
  from qmf_synth_loop_total [OF assms(4,5) l this(1)] obtain y where y: "qmf_synth_loop a ?x1 ?x2 N2 M2 ?ls = Some y" "samples (2 * N2) y"
    unfolding n by blast
  obtain m1' where m1: "set_odd_cells m1 ?x1 M2 = Some m1'" "length m1' = length m1"
    using set_odd_cells_total [of M2 m1 ?x1] assms l by auto
  obtain m2' where m2: "set_odd_cells m2 ?x2 M2 = Some m2'" "length m2' = length m2"
    using set_odd_cells_total [of M2 m2 ?x2] assms l by auto
  have "mem_read x1 0 N2 = Some (take N2 x1)" "mem_read x2 0 N2 = Some (take N2 x2)" using assms by (simp_all add: mem_simps)
  then have "qmf_synth x1 x2 a (2 * N2) (2 * M2) m1 m2 = Some (y, m1', m2')"
    using v1(1) v2(1) y(1) m1(1) m2(1) by (simp add: qmf_synth_def Let_def)
  then show ?thesis using y(2) m1(2) m2(2) by blast
qed

lemma h0_length: "length h0 = 2 * 32"
  by (simp add: h0_def)

subsection \<open>The invariant\<close>

text \<open>\<open>n\<close> is the number of samples of each band in a frame.\<close>

definition sb_shape :: "nat \<Rightarrow> SpeexSBMode \<Rightarrow> 'l SBDecState \<Rightarrow> bool" where
  "sb_shape n mode st \<longleftrightarrow>
     full_frame_size st = 2 * n \<and> frame_size st = n \<and> subframeSize st = n div 4 \<and> nbSubframes st = 4 \<and> lpcSize st = 8 \<and>
     submodes st = sb_submodes mode \<and> 0 \<le> submodeID st \<and> submodeID st < 8"

definition sb_buffers :: "nat \<Rightarrow> 'l SBDecState \<Rightarrow> bool" where
  "sb_buffers n st \<longleftrightarrow>
     length (g0_mem st) = 64 \<and> length (g1_mem st) = 64 \<and> samples (n div 4) (excBuf st) \<and> samples 8 (old_qlsp st) \<and> samples 8 (interp_qlpc st) \<and>
     word_block 16 (mem_sp st) \<and> length (pi_gain st) = 4 \<and> length (exc_rms st) = 4 \<and> is_i32 (seed st) \<and>
     (\<forall>block. innov_save st = Some block \<longrightarrow> 2 * n \<le> length block)"

definition sb_ok :: "nat \<Rightarrow> SpeexSBMode \<Rightarrow> 'l SBDecState \<Rightarrow> bool" where
  "sb_ok n mode st \<longleftrightarrow> sb_shape n mode st \<and> sb_buffers n st"

lemmas sb_ok_defs = sb_ok_def sb_shape_def sb_buffers_def

lemma sb_shapeD:
  assumes "sb_ok n mode st"
  shows "full_frame_size st = 2 * n" "frame_size st = n" "subframeSize st = n div 4" "nbSubframes st = 4" "lpcSize st = 8"
    "submodes st = sb_submodes mode" "0 \<le> submodeID st" "submodeID st < 8"
  using assms by (simp_all add: sb_ok_def sb_shape_def)

lemma sb_buffersD:
  assumes "sb_ok n mode st"
  shows "length (g0_mem st) = 64" "length (g1_mem st) = 64" "samples (n div 4) (excBuf st)" "samples 8 (old_qlsp st)" "samples 8 (interp_qlpc st)"
    "word_block 16 (mem_sp st)" "length (pi_gain st) = 4" "length (exc_rms st) = 4" "is_i32 (seed st)"
    "innov_save st = Some block \<Longrightarrow> 2 * n \<le> length block"
  using assms by (simp_all add: sb_ok_def sb_buffers_def)

text \<open>Updates that keep the invariant.\<close>

lemma sb_ok_update:
  assumes "sb_ok n mode st"
  shows "length g = 64 \<Longrightarrow> sb_ok n mode (st\<lparr>g0_mem := g\<rparr>)" "length g = 64 \<Longrightarrow> sb_ok n mode (st\<lparr>g1_mem := g\<rparr>)"
    "samples (n div 4) b \<Longrightarrow> sb_ok n mode (st\<lparr>excBuf := b\<rparr>)" "samples 8 b \<Longrightarrow> sb_ok n mode (st\<lparr>old_qlsp := b\<rparr>)"
    "samples 8 b \<Longrightarrow> sb_ok n mode (st\<lparr>interp_qlpc := b\<rparr>)" "word_block 16 b \<Longrightarrow> sb_ok n mode (st\<lparr>mem_sp := b\<rparr>)"
    "length g = 4 \<Longrightarrow> sb_ok n mode (st\<lparr>pi_gain := g\<rparr>)" "length g = 4 \<Longrightarrow> sb_ok n mode (st\<lparr>exc_rms := g\<rparr>)"
    "is_i32 s \<Longrightarrow> sb_ok n mode (st\<lparr>seed := s\<rparr>)" "2 * n \<le> length blk \<Longrightarrow> sb_ok n mode (st\<lparr>innov_save := Some blk\<rparr>)"
    "sb_ok n mode (st\<lparr>st_low := low\<rparr>)" "sb_ok n mode (st\<lparr>first := f\<rparr>)" "sb_ok n mode (st\<lparr>last_ener := e\<rparr>)"
    "0 \<le> i \<Longrightarrow> i < 8 \<Longrightarrow> sb_ok n mode (st\<lparr>submodeID := i\<rparr>)"
  using assms by (simp_all add: sb_ok_defs)

subsection \<open>The two bands\<close>

text \<open>What a step of the high band does not touch.\<close>

definition high_only :: "'l SBDecState \<Rightarrow> 'l SBDecState \<Rightarrow> bool" where
  "high_only st st' \<longleftrightarrow>
     st_low st' = st_low st \<and> (innov_save st' = None \<longleftrightarrow> innov_save st = None) \<and> old_qlsp st' = old_qlsp st \<and> encode_submode st' = encode_submode st \<and>
     submodeID st' = submodeID st"

lemma high_only_refl [simp]: "high_only st st"
  by (simp add: high_only_def)

lemma high_only_trans: "high_only st st1 \<Longrightarrow> high_only st1 st2 \<Longrightarrow> high_only st st2"
  by (simp add: high_only_def)

lemma iir_longer:
  assumes "0 < ord" and "ord \<le> length den" and "word_block m mem" and "ord \<le> m"
  shows "\<exists>ys mem'. iir_mem16 x den ord mem = Some (ys, mem') \<and> samples (length x) ys \<and> word_block ord mem'"
proof -
  have "word_block ord (take ord mem)" using assms(3,4) by (auto simp: word_block_def dest: in_set_takeD)
  moreover have "iir_mem16 x den ord mem = iir_mem16 x den ord (take ord mem)"
    using assms by (simp add: iir_mem16_def mem_simps word_block_length)
  ultimately show ?thesis using iir_mem16_total [OF assms(1,2)] by simp
qed

lemma filter_high_total:
  assumes ok: "sb_ok n mode st"
  shows "\<exists>y mem. filter_high st x = Some (y, st\<lparr>mem_sp := mem\<rparr>) \<and> samples (length x) y \<and> word_block 16 mem"
proof -
  note d = sb_shapeD [OF ok] and b = sb_buffersD [OF ok]
  obtain y mem where y: "iir_mem16 x (interp_qlpc st) 8 (mem_sp st) = Some (y, mem)" "samples (length x) y" "word_block 8 mem"
    using iir_longer [of 8 "interp_qlpc st" 16 "mem_sp st" x] b(5,6) by (auto simp: samples_length)
  obtain mem' where m: "mem_write (mem_sp st) 0 mem = Some mem'" "word_block 16 mem'"
    using word_block_write [OF b(6), of 0 mem] y(3) by (auto simp: word_block_def)
  have "filter_high st x = Some (y, st\<lparr>mem_sp := mem'\<rparr>)" by (simp add: filter_high_def d(5) y(1) m(1))
  then show ?thesis using y(2) m(2) by blast
qed

lemma join_bands_total:
  assumes ok: "sb_ok n mode st" and n: "even n" and l: "samples n lo" "samples n hi"
  shows "\<exists>out g0 g1. join_bands st lo hi = Some (out, st\<lparr>g0_mem := g0, g1_mem := g1\<rparr>) \<and> samples (2 * n) out \<and> length g0 = 64 \<and> length g1 = 64"
proof -
  note d = sb_shapeD [OF ok] and b = sb_buffersD [OF ok]
  obtain out g0 g1 where q: "qmf_synth lo hi h0 (2 * n) (2 * 32) (g0_mem st) (g1_mem st) = Some (out, g0, g1)" "samples (2 * n) out"
    "length g0 = 64" "length g1 = 64"
    using qmf_synth_total [OF n, of lo hi h0 32 "g0_mem st" "g1_mem st"] l b(1,2) h0_length by (auto simp: samples_length)
  then have "join_bands st lo hi = Some (out, st\<lparr>g0_mem := g0, g1_mem := g1\<rparr>)" by (simp add: join_bands_def d(1))
  then show ?thesis using q by blast
qed


subsection \<open>Lost and silent frames\<close>

lemma sb_decode_lost_total:
  assumes ok: "sb_ok n mode st" and n: "even n" and l: "samples n lo"
  shows "\<exists>out st'. sb_decode_lost st lo dtx = Some (out, st') \<and> samples (2 * n) out \<and> sb_ok n mode st' \<and> high_only st st'"
proof -
  note d = sb_shapeD [OF ok] and b = sb_buffersD [OF ok]
  obtain lpc where lpc: "(if dtx then Some (interp_qlpc st) else bw_lpc 32440 (interp_qlpc st) 8) = Some lpc" "samples 8 lpc"
    using bw_lpc_total [of 8 "interp_qlpc st" 32440] b(5) by (cases dtx) (auto simp: samples_length)
  define ener where "ener = (if dtx then last_ener st else i16 (MULT16_16_Q15 29491 (last_ener st)))"
  obtain x sd where x: "rand_loop ener (seed st) n = (x, sd)" "samples n x" "is_i32 sd"
    using rand_loop_shape [of n ener "seed st"] b(9) by (metis prod.collapse)
  define st1 where "st1 = st\<lparr>interp_qlpc := lpc, first := True, last_ener := ener, seed := sd\<rparr>"
  have ok1: "sb_ok n mode st1" unfolding st1_def by (intro sb_ok_update ok lpc(2) x(3))
  obtain y mem where y: "filter_high st1 x = Some (y, st1\<lparr>mem_sp := mem\<rparr>)" "samples n y" "word_block 16 mem"
    using filter_high_total [OF ok1, of x] x(2) by (auto simp: samples_length)
  have ok2: "sb_ok n mode (st1\<lparr>mem_sp := mem\<rparr>)" by (rule sb_ok_update(6) [OF ok1 y(3)])
  obtain out g0 g1 where o: "join_bands (st1\<lparr>mem_sp := mem\<rparr>) lo y = Some (out, st1\<lparr>mem_sp := mem, g0_mem := g0, g1_mem := g1\<rparr>)"
    "samples (2 * n) out" "length g0 = 64" "length g1 = 64" using join_bands_total [OF ok2 n l y(2)] by auto
  let ?st = "st1\<lparr>mem_sp := mem, g0_mem := g0, g1_mem := g1\<rparr>"
  have "sb_decode_lost st lo dtx = Some (out, ?st)"
    by (simp only: sb_decode_lost_def d(2,5) lpc(1) ener_def [symmetric] x(1) st1_def [symmetric] y(1) o(1) Option.bind.bind_lunit prod.case Let_def)
  moreover have "sb_ok n mode ?st" by (intro sb_ok_update ok2 o(3,4))
  moreover have "high_only st ?st" by (simp add: high_only_def st1_def)
  ultimately show ?thesis using o(2) by blast
qed

lemma sb_null_frame_total:
  assumes ok: "sb_ok n mode st" and n: "even n" and l: "samples n lo"
  shows "\<exists>out st'. sb_null_frame st lo dtx = Some (out, st') \<and> samples (2 * n) out \<and> sb_ok n mode st' \<and> high_only st st'"
proof (cases dtx)
  case True
  then show ?thesis using sb_decode_lost_total [OF assms] by (simp add: sb_null_frame_def)
next
  case False
  define st1 where "st1 = st\<lparr>first := True\<rparr>"
  have ok1: "sb_ok n mode st1" unfolding st1_def by (rule sb_ok_update(12) [OF ok])
  obtain y mem where y: "filter_high st1 (replicate n 0) = Some (y, st1\<lparr>mem_sp := mem\<rparr>)" "samples n y" "word_block 16 mem"
    using filter_high_total [OF ok1, of "replicate n 0"] by auto
  have ok2: "sb_ok n mode (st1\<lparr>mem_sp := mem\<rparr>)" by (rule sb_ok_update(6) [OF ok1 y(3)])
  obtain out g0 g1 where o: "join_bands (st1\<lparr>mem_sp := mem\<rparr>) lo y = Some (out, st1\<lparr>mem_sp := mem, g0_mem := g0, g1_mem := g1\<rparr>)"
    "samples (2 * n) out" "length g0 = 64" "length g1 = 64" using join_bands_total [OF ok2 n l y(2)] by auto
  let ?st = "st1\<lparr>mem_sp := mem, g0_mem := g0, g1_mem := g1\<rparr>"
  have "sb_null_frame st lo dtx = Some (out, ?st)"
    using False by (simp only: sb_null_frame_def if_False sb_shapeD(2) [OF ok] st1_def [symmetric] y(1) o(1) Option.bind.bind_lunit prod.case)
  moreover have "sb_ok n mode ?st" by (intro sb_ok_update ok2 o(3,4))
  moreover have "high_only st ?st" by (simp add: high_only_def st1_def)
  ultimately show ?thesis using o(2) by blast
qed

subsection \<open>The layer\<close>

lemma peek_layer:
  assumes "rd_ok b"
  shows "\<exists>w b'. (if speex_bits_remaining b > 0 then speex_bits_peek b else Some (0, b)) = Some (w, b') \<and> b' = b"
proof (cases "speex_bits_remaining b > 0")
  case True
  then have o: "\<not> overflow b" "int (8 * charPtr b + bitPtr b) < nbBits b" by (auto simp: speex_bits_remaining_def split: if_splits)
  then have wf: "bitPtr b < 8" "nbBits b \<le> 8 * int (length (chars b))" using assms by (auto simp: rd_ok_def reader_wf_def)
  have "charPtr b < length (chars b)" using o(2) wf by linarith
  then obtain v where "next_bit (chars b) (charPtr b) (bitPtr b) = Some v" by (simp add: next_bit_def mem_simps)
  moreover have "check_overflow b 1 = b" using o by (simp add: check_overflow_def past_end_def)
  ultimately show ?thesis using True o(1) by (simp add: speex_bits_peek_def Let_def)
qed simp

lemma read_layer_total:
  assumes ok: "sb_ok n mode st" and rd: "rd_ok b" and m: "length (sb_submodes mode) = 8"
  shows "\<exists>code i b'. read_layer st b = Some (code, st\<lparr>submodeID := i\<rparr>, b') \<and> 0 \<le> i \<and> i < 8 \<and> rd_ok b' \<and> (code = None \<or> code = Some (-2))"
proof (cases "encode_submode st = 0")
  case True
  then have "read_layer st b = Some (None, st\<lparr>submodeID := submodeID st\<rparr>, b)" by (simp add: read_layer_def)
  then show ?thesis using sb_shapeD(7,8) [OF ok] rd by blast
next
  case False
  obtain w where w: "(if speex_bits_remaining b > 0 then speex_bits_peek b else Some (0, b)) = Some (w, b)" using peek_layer [OF rd] by auto
  obtain k b2 where k: "(if w \<noteq> 0 then do { (wideband, bits) \<leftarrow> speex_bits_unpack_unsigned b 1; speex_bits_unpack_unsigned bits 3 }
      else Some (0, b)) = Some (k, b2)" "rd_ok b2" "unat k < 8"
  proof (cases "w = 0")
    case False
    obtain v b1 where 1: "speex_bits_unpack_unsigned b 1 = Some (v, b1)" "rd_ok b1" using unpack_answers [OF rd] by blast
    obtain k b2 where 2: "speex_bits_unpack_unsigned b1 3 = Some (k, b2)" "rd_ok b2" "unat k < 2 ^ 3" using unpack_answers [OF 1(2)] by blast
    show thesis by (rule that [of k b2]) (use False 1 2 in simp_all)
  qed (use rd that in auto)
  have g: "mem_get (submodes st) (unat k) = Some (sb_submodes mode ! unat k)" using k(3) m sb_shapeD(6) [OF ok] by (simp add: mem_simps)
  let ?code = "if k \<noteq> 0 \<and> sb_submodes mode ! unat k = None then Some (-2) else None"
  have "read_layer st b = Some (?code, st\<lparr>submodeID := int (unat k)\<rparr>, b2)"
    using False by (simp only: read_layer_def w k(1) g Option.bind.bind_lunit prod.case not_False_eq_True if_True)
  moreover have "0 \<le> int (unat k)" "int (unat k) < 8" using k(3) by linarith+
  moreover have "?code = None \<or> ?code = Some (-2)" by simp
  ultimately show ?thesis using k(2) by blast
qed

subsection \<open>The response ratio\<close>

text \<open>
  The frames that divide by zero: the ratio between the responses of the two filters at the edge of the band, which the excitation of
  every subframe is divided by, is a quotient of its own, and it may round to zero.
\<close>

definition edge_ratio :: "'l SBDecState \<Rightarrow> int list \<Rightarrow> int list \<Rightarrow> nat \<Rightarrow> int option" where
  "edge_ratio st ql rl sub =
     do { ak \<leftarrow> sb_filter st ql sub; r \<leftarrow> mem_get rl sub; filter_ratio r (low_edge ak (lpcSize st)) }"

definition edges_ok :: "'l SBDecState \<Rightarrow> int list \<Rightarrow> int list \<Rightarrow> bool" where
  "edges_ok st ql rl \<longleftrightarrow> list_all (\<lambda>sub. edge_ratio st ql rl sub \<noteq> None \<and> edge_ratio st ql rl sub \<noteq> Some 0) [0..<4]"

lemma edges_okD: "edges_ok st ql rl \<Longrightarrow> sub < 4 \<Longrightarrow> \<exists>r. edge_ratio st ql rl sub = Some r \<and> r \<noteq> 0"
  by (auto simp: edges_ok_def list_all_iff)

lemma edges_not_ok: "\<not> edges_ok st ql rl \<Longrightarrow> \<exists>sub < 4. edge_ratio st ql rl sub = None \<or> edge_ratio st ql rl sub = Some 0"
  by (auto simp: edges_ok_def list_all_iff)

lemma sb_filter_total:
  assumes "sb_ok n mode st" and "samples 8 ql"
  shows "\<exists>ak. sb_filter st ql sub = Some ak \<and> samples 8 ak"
proof -
  note d = sb_shapeD [OF assms(1)] and b = sb_buffersD [OF assms(1)]
  obtain il where 1: "lsp_interpolate (old_qlsp st) ql 8 sub 4 = Some il" "samples 8 il"
    using lsp_interpolate_total [of 8 "old_qlsp st" ql 4 sub] b(4) assms(2) by (auto simp: samples_length)
  obtain il2 where 2: "lsp_enforce_margin il 8 410 = Some il2" "samples 8 il2"
    using lsp_enforce_margin_total [of 8 il 410] 1(2) by (auto simp: is_i16_def)
  obtain ak where 3: "lsp_to_lpc il2 8 = Some ak" "samples 8 ak"
    using lsp_to_lpc_total [of 8 il2] 2(2) by (auto simp: samples_length)
  show ?thesis using 1 2 3 by (simp add: sb_filter_def d)
qed

lemma filter_ratio_i16: "filter_ratio rl rh = Some r \<Longrightarrow> is_i16 r"
  by (auto simp: filter_ratio_def EXTRACT16_def split: Option.bind_splits)

lemma PDIV32_total: "is_i16 r \<Longrightarrow> r \<noteq> 0 \<Longrightarrow> \<exists>q. PDIV32 a r = Some q"
proof -
  assume "is_i16 r" "r \<noteq> 0"
  then have "i32 r = r" by (simp add: is_i16_def is_i32_def)
  then show ?thesis using \<open>r \<noteq> 0\<close> by (simp add: PDIV32_def)
qed

subsection \<open>What a submode of the layer must provide\<close>

text \<open>The decoding functions of a submode for subframes of a quarter of \<open>n\<close> samples read a fixed number of bits, \<open>wl\<close> and \<open>wi\<close>.\<close>

locale high_layer =
  fixes sm :: SpeexSubmode and n :: nat and wl :: nat and wi :: nat
  assumes lsp: "rd_ok b \<Longrightarrow> \<exists>d b'. lsp_unquant sm 8 b = Some (d, b') \<and> spends b wl b' \<and> samples 8 d"
    and innovation: "innovation_unquant sm = Some unquant \<Longrightarrow> rd_ok b \<Longrightarrow> word_block (n div 4) x \<Longrightarrow> is_i32 sd \<Longrightarrow>
      \<exists>x' b' sd'. unquant x (innovation_par sm) (n div 4) b sd = Some (x', b', sd') \<and> word_block (n div 4) x' \<and> spends b wi b' \<and> is_i32 sd'"
    and size: "n = 160 \<or> n = 320"

lemma folded_excitation_total:
  assumes rd: "rd_ok b" and r: "is_i16 ratio" "ratio \<noteq> 0" and l: "off + nsf \<le> length low"
  shows "\<exists>x b'. folded_excitation mode low off nsf ratio b = Some (x, b') \<and> word_block nsf x \<and> spends b 5 b'"
proof -
  obtain q b1 where q: "speex_bits_unpack_unsigned b 5 = Some (q, b1)" "spends b 5 b1" using unpack_spends [OF rd] by blast
  obtain g where g: "PDIV32 (spx_exp (MULT16_16 256 (int (unat q) - 10))) ratio = Some g" using PDIV32_total [OF r] by blast
  have m: "mem_read low off nsf = Some (take nsf (drop off low))" using l by (simp add: mem_simps)
  have "is_i32 (folded_sample (folding_gain mode) g i v)" for i v by (simp add: folded_sample_def Let_def SHL32_def)
  then have "word_block nsf (map (\<lambda>(i, v). folded_sample (folding_gain mode) g i v) (zip [0..<nsf] (take nsf (drop off low))))"
    using l by (auto simp: word_block_def)
  then show ?thesis using q g m by (simp add: folded_excitation_def Let_def)
qed

lemma gc_quant_bound_get: "unat q < 16 \<Longrightarrow> \<exists>g. mem_get gc_quant_bound (unat q) = Some g"
  by (simp add: mem_get_def gc_quant_bound_def)

lemma word_block_signal_mul: "length x = k \<Longrightarrow> word_block k (signal_mul x s)"
  by (auto simp: word_block_def signal_mul_def SHL32_def)

lemma word_block_sums: "length x = k \<Longrightarrow> length y = k \<Longrightarrow> word_block k (map (\<lambda>(a, b). ADD32 a b) (zip x y))"
  by (auto simp: word_block_def)

context high_layer
begin

lemma coded_excitation_total:
  assumes rd: "rd_ok b" and r: "is_i16 ratio" "ratio \<noteq> 0" and sd: "is_i32 sd" and u: "innovation_unquant sm = Some unquant"
  shows "\<exists>x b' sd'. coded_excitation sm unquant el (n div 4) ratio b sd = Some (x, b', sd') \<and> word_block (n div 4) x \<and> is_i32 sd' \<and>
    spends b (4 + (if double_codebook sm then 2 * wi else wi)) b'"
proof -
  obtain q b1 where q: "speex_bits_unpack_unsigned b 4 = Some (q, b1)" "spends b 4 b1" "unat q < 2 ^ 4" using unpack_spends [OF rd] by blast
  obtain g where g: "mem_get gc_quant_bound (unat q) = Some g" using gc_quant_bound_get q(3) by auto
  define gc0 where "gc0 = i16 (MULT16_16_Q15 28626 g)"
  define gc where "gc = (if n div 4 = 80 then i16 (MULT16_16_P14 23170 gc0) else gc0)"
  obtain s where s: "PDIV32 (SHL32 (MULT16_16 gc el) 3) ratio = Some s" using PDIV32_total [OF r] by blast
  have z: "word_block (n div 4) (replicate (n div 4) 0)" by (rule word_block_zero)
  obtain x b2 sd2 where x: "unquant (replicate (n div 4) 0) (innovation_par sm) (n div 4) b1 sd = Some (x, b2, sd2)" "word_block (n div 4) x"
    "spends b1 wi b2" "is_i32 sd2" using innovation [OF u spends_ok [OF q(2)] z sd] by blast
  note l = word_block_length [OF x(2)]
  show ?thesis
  proof (cases "double_codebook sm")
    case False
    have "coded_excitation sm unquant el (n div 4) ratio b sd = Some (signal_mul x (SHL32 s 11), b2, sd2)"
      by (simp only: coded_excitation_def q(1) g gc0_def [symmetric] gc_def [symmetric] s x(1) Option.bind.bind_lunit prod.case Let_def False if_False)
    then show ?thesis using False word_block_signal_mul [OF l] x(4) spends_trans [OF q(2) x(3)] by simp
  next
    case True
    obtain x' b3 sd3 where x': "unquant (replicate (n div 4) 0) (innovation_par sm) (n div 4) b2 sd2 = Some (x', b3, sd3)" "word_block (n div 4) x'"
      "spends b2 wi b3" "is_i32 sd3" using innovation [OF u spends_ok [OF x(3)] z x(4)] by blast
    have "coded_excitation sm unquant el (n div 4) ratio b sd =
        Some (map (\<lambda>(a, b). ADD32 a b) (zip (signal_mul x (SHL32 s 11)) (signal_mul x' (MULT16_32_P15 13107 (SHL32 s 11)))), b3, sd3)"
      by (simp only: coded_excitation_def q(1) g gc0_def [symmetric] gc_def [symmetric] s x(1) x'(1) Option.bind.bind_lunit prod.case Let_def True if_True)
    moreover have "spends b (4 + 2 * wi) b3" using spends_trans [OF spends_trans [OF q(2) x(3)] x'(3)] by (simp only: mult_2 add.assoc)
    moreover have "word_block (n div 4) (map (\<lambda>(a, b). ADD32 a b) (zip (signal_mul x (SHL32 s 11)) (signal_mul x' (MULT16_32_P15 13107 (SHL32 s 11)))))"
      by (rule word_block_sums) (simp_all only: signal_mul_def length_map l word_block_length [OF x'(2)])
    ultimately show ?thesis using x'(4) unfolding if_P [OF True] by blast
  qed
qed

definition subframe_bits :: nat where
  "subframe_bits = (case innovation_unquant sm of None \<Rightarrow> 5 | Some _ \<Rightarrow> 4 + (if double_codebook sm then 2 * wi else wi))"

end

subsection \<open>Subframes\<close>

lemma save_high_total:
  assumes ok: "sb_ok n mode st" and l: "2 * off + 2 * length x \<le> 2 * n"
  shows "\<exists>st'. save_high off x st = Some st' \<and> sb_ok n mode st' \<and> high_only st st'"
proof (cases "innov_save st")
  case None
  then show ?thesis using ok by (simp add: save_high_def)
next
  case (Some block)
  define ws where "ws = concat (map (\<lambda>v. [EXTRACT16 (PSHR32 v 14), 0]) x)"
  have "length ws = 2 * length x" unfolding ws_def by (induction x) simp_all
  then have w: "2 * off + length ws \<le> length block" using l sb_buffersD(10) [OF ok Some] by simp
  then obtain block' where b: "mem_write block (2 * off) ws = Some block'" by (simp add: mem_simps)
  have "2 * n \<le> length block'" using mem_write_length [OF b] sb_buffersD(10) [OF ok Some] by simp
  then have "sb_ok n mode (st\<lparr>innov_save := Some block'\<rparr>)" by (rule sb_ok_update(10) [OF ok])
  moreover have "high_only st (st\<lparr>innov_save := Some block'\<rparr>)" using Some by (simp add: high_only_def)
  ultimately show ?thesis using Some b by (simp add: save_high_def ws_def)
qed

context high_layer
begin

lemma sb_excitation_total:
  assumes rd: "rd_ok b" and r: "is_i16 ratio" "ratio \<noteq> 0" and sd: "is_i32 sd" and sub: "sub < 4"
    and low: "n \<le> length (low_innov low)" "length (low_exc_rms low) = 4"
  shows "\<exists>x b' sd'. sb_excitation mode sm low sub (n div 4) ratio b sd = Some (x, b', sd') \<and> word_block (n div 4) x \<and> is_i32 sd' \<and> spends b subframe_bits b'"
proof (cases "innovation_unquant sm")
  case None
  have "n div 4 * sub + n div 4 \<le> length (low_innov low)" using low(1) sub size by auto
  then obtain x b' where "folded_excitation mode (low_innov low) (n div 4 * sub) (n div 4) ratio b = Some (x, b')" "word_block (n div 4) x" "spends b 5 b'"
    using folded_excitation_total [OF rd r] by blast
  then show ?thesis using None sd by (simp add: sb_excitation_def subframe_bits_def)
next
  case (Some unquant)
  have "mem_get (low_exc_rms low) sub = Some (low_exc_rms low ! sub)" using low(2) sub by (simp add: mem_simps)
  then show ?thesis using coded_excitation_total [OF rd r sd Some, of "low_exc_rms low ! sub"] Some by (simp add: sb_excitation_def subframe_bits_def)
qed

lemma sb_subframe_total:
  assumes ok: "sb_ok n mode st" and rd: "rd_ok b" and q: "samples 8 ql" and sub: "sub < 4"
    and edge: "edge_ratio st ql (low_pi_gain low) sub = Some ratio" "ratio \<noteq> 0"
    and low: "n \<le> length (low_innov low)" "length (low_exc_rms low) = 4"
  shows "\<exists>y ener' st' b'. sb_subframe m sm low ql sub ener st b = Some (y, ener', st', b') \<and> samples (n div 4) y \<and> sb_ok n mode st' \<and>
    high_only st st' \<and> spends b subframe_bits b'"
proof -
  note d = sb_shapeD [OF ok] and bf = sb_buffersD [OF ok]
  obtain ak where ak: "sb_filter st ql sub = Some ak" "samples 8 ak" using sb_filter_total [OF ok q] by blast
  obtain rl where rl: "mem_get (low_pi_gain low) sub = Some rl" "filter_ratio rl (low_edge ak 8) = Some ratio"
    using edge(1) ak(1) by (auto simp: edge_ratio_def d(5) split: Option.bind_splits)
  define g where "g = (pi_gain st)[sub := high_edge ak 8]"
  have g: "mem_put (pi_gain st) sub (high_edge ak 8) = Some g" "length g = 4" unfolding g_def using bf(7) sub by (simp_all add: mem_simps)
  obtain x b1 sd where x: "sb_excitation m sm low sub (n div 4) ratio b (seed st) = Some (x, b1, sd)" "word_block (n div 4) x" "is_i32 sd"
    "spends b subframe_bits b1" using sb_excitation_total [OF rd filter_ratio_i16 [OF rl(2)] edge(2) bf(9) sub low] by blast
  define st1 where "st1 = st\<lparr>pi_gain := g, seed := sd\<rparr>"
  have ok1: "sb_ok n mode st1" unfolding st1_def by (intro sb_ok_update ok g(2) x(3))
  have "2 * (n div 4 * sub) + 2 * length x \<le> 2 * n" using sub size word_block_length [OF x(2)] by auto
  then obtain st2 where st2: "save_high (n div 4 * sub) x st1 = Some st2" "sb_ok n mode st2" "high_only st1 st2" using save_high_total [OF ok1] by blast
  note b2 = sb_buffersD [OF st2(2)]
  have past: "mem_read (excBuf st2) 0 (n div 4) = Some (excBuf st2)" using samples_length [OF b2(3)] by (simp add: mem_simps)
  obtain y mem where y: "filter_high st2 (excBuf st2) = Some (y, st2\<lparr>mem_sp := mem\<rparr>)" "samples (n div 4) y" "word_block 16 mem"
    using filter_high_total [OF st2(2), of "excBuf st2"] samples_length [OF b2(3)] by auto
  define st3 where "st3 = st2\<lparr>mem_sp := mem\<rparr>"
  have ok3: "sb_ok n mode st3" unfolding st3_def by (rule sb_ok_update(6) [OF st2(2) y(3)])
  define e where "e = map (\<lambda>v. EXTRACT16 (PSHR32 v 14)) x"
  have e: "samples (n div 4) e" using word_block_length [OF x(2)] by (auto simp: e_def samples_def EXTRACT16_def)
  have w: "mem_write (excBuf st3) 0 e = Some e"
    using samples_length [OF sb_buffersD(3) [OF ok3]] samples_length [OF e] by (simp add: mem_simps)
  obtain rms where rms: "compute_rms16 e (n div 4) = Some rms"
    using compute_rms16_total [of "n div 4" e] samples_length [OF e] size by (auto simp: whole_fours_def)
  have er: "mem_put (exc_rms st3) sub rms = Some ((exc_rms st3)[sub := rms])" using sb_buffersD(8) [OF ok3] sub by (simp add: mem_simps)
  obtain dv where dv: "DIV32 (MULT16_16 rms rms) (int 4) = Some dv" by (simp add: DIV32_def is_i32_def)
  let ?st = "st3\<lparr>excBuf := e, interp_qlpc := ak, exc_rms := (exc_rms st3)[sub := rms]\<rparr>"
  have nb: "nbSubframes st3 = 4" by (rule sb_shapeD(4) [OF ok3])
  have "sb_subframe m sm low ql sub ener st b = Some (y, ADD32 ener dv, ?st, b1)"
    by (simp only: sb_subframe_def d(3,5) ak(1) g(1) rl x(1) st1_def [symmetric] st2(1) past y(1) st3_def [symmetric] e_def [symmetric] w rms er nb dv
        Option.bind.bind_lunit prod.case Let_def)
  moreover have "sb_ok n mode ?st" by (intro sb_ok_update ok3 e ak(2)) (simp add: sb_buffersD(8) [OF ok3])
  moreover have "high_only st ?st" using st2(3) by (simp add: high_only_def st1_def st3_def)
  ultimately show ?thesis using y(2) x(4) by blast
qed

lemma edge_ratio_same:
  assumes "sb_ok n mode st" "sb_ok n mode st'" "high_only st st'"
  shows "edge_ratio st' ql rl sub = edge_ratio st ql rl sub"
  using assms by (simp add: edge_ratio_def sb_filter_def high_only_def sb_shapeD)

lemma sb_subframes_total:
  assumes "sb_ok n mode st" and "rd_ok b" and "samples 8 ql" and "edges_ok st ql (low_pi_gain low)"
    and "n \<le> length (low_innov low)" "length (low_exc_rms low) = 4" and "\<forall>sub \<in> set subs. sub < 4"
  shows "\<exists>ys ener' st' b'. sb_subframes m sm low ql subs ener st b = Some (ys, ener', st', b') \<and> samples (length subs * (n div 4)) ys \<and>
    sb_ok n mode st' \<and> high_only st st' \<and> spends b (length subs * subframe_bits) b'"
  using assms(1,2,4,7)
proof (induction subs arbitrary: ener st b)
  case Nil
  then show ?case by (simp add: samples_def spends_none)
next
  case (Cons sub subs)
  have sub: "sub < 4" using Cons.prems(4) by simp
  obtain r where r: "edge_ratio st ql (low_pi_gain low) sub = Some r" "r \<noteq> 0" using edges_okD [OF Cons.prems(3) sub] by blast
  obtain y e1 st1 b1 where 1: "sb_subframe m sm low ql sub ener st b = Some (y, e1, st1, b1)" "samples (n div 4) y" "sb_ok n mode st1"
    "high_only st st1" "spends b subframe_bits b1" using sb_subframe_total [OF Cons.prems(1,2) assms(3) sub r assms(5,6)] by blast
  have "edges_ok st1 ql (low_pi_gain low)"
    using Cons.prems(3) by (simp only: edges_ok_def edge_ratio_same [OF Cons.prems(1) 1(3,4)])
  then obtain ys e2 st2 b2 where 2: "sb_subframes m sm low ql subs e1 st1 b1 = Some (ys, e2, st2, b2)" "samples (length subs * (n div 4)) ys"
    "sb_ok n mode st2" "high_only st1 st2" "spends b1 (length subs * subframe_bits) b2"
    using Cons.IH [OF 1(3) spends_ok [OF 1(5)]] Cons.prems(4) by fastforce
  have "samples (length (sub # subs) * (n div 4)) (y @ ys)" using samples_append [OF 1(2) 2(2)] by simp
  moreover have "spends b (length (sub # subs) * subframe_bits) b2" using spends_trans [OF 1(5) 2(5)] by simp
  ultimately show ?case using 1(1) 2(1,3) high_only_trans [OF 1(4) 2(4)] by simp
qed

text \<open>The bits of the layer after those of the submode.\<close>

definition layer_bits :: nat where
  "layer_bits = wl + 4 * subframe_bits"

lemma sb_frame_total:
  assumes ok: "sb_ok n mode st" and rd: "rd_ok b" and lo: "samples n lo"
    and edges: "\<And>ql b'. lsp_unquant sm 8 b = Some (ql, b') \<Longrightarrow> edges_ok (if first st then st\<lparr>old_qlsp := ql\<rparr> else st) ql (low_pi_gain low)"
    and low: "n \<le> length (low_innov low)" "length (low_exc_rms low) = 4"
  shows "\<exists>out st' b'. sb_frame m sm low lo st b = Some (out, st', b') \<and> samples (2 * n) out \<and> sb_ok n mode st' \<and> st_low st' = st_low st \<and>
    (innov_save st' = None \<longleftrightarrow> innov_save st = None) \<and> spends b layer_bits b'"
proof -
  obtain ql b1 where q: "lsp_unquant sm 8 b = Some (ql, b1)" "spends b wl b1" "samples 8 ql" using lsp [OF rd] by blast
  define st1 where "st1 = (if first st then st\<lparr>old_qlsp := ql\<rparr> else st)"
  have ok1: "sb_ok n mode st1" unfolding st1_def using ok sb_ok_update(4) [OF ok q(3)] by simp
  have e: "edges_ok st1 ql (low_pi_gain low)" unfolding st1_def by (rule edges [OF q(1)])
  have s: "\<forall>sub \<in> set [0..<4]. sub < 4" by simp
  obtain hi ener st2 b2 where 2: "sb_subframes m sm low ql [0..<4] 0 st1 b1 = Some (hi, ener, st2, b2)" "samples (length [0..<4] * (n div 4)) hi"
    "sb_ok n mode st2" "high_only st1 st2" "spends b1 (length [0..<4] * subframe_bits) b2"
    using sb_subframes_total [OF ok1 spends_ok [OF q(2)] q(3) e low s] by blast
  have n: "length [0..<4] * (n div 4) = n" "even n" using size by auto
  have hi: "samples n hi" using 2(2) unfolding n(1) .
  define st3 where "st3 = st2\<lparr>last_ener := spx_sqrt ener\<rparr>"
  have ok3: "sb_ok n mode st3" unfolding st3_def by (rule sb_ok_update(13) [OF 2(3)])
  obtain out g0 g1 where o: "join_bands st3 lo hi = Some (out, st3\<lparr>g0_mem := g0, g1_mem := g1\<rparr>)" "samples (2 * n) out" "length g0 = 64" "length g1 = 64"
    using join_bands_total [OF ok3 n(2) lo hi] by blast
  let ?st = "st3\<lparr>g0_mem := g0, g1_mem := g1, old_qlsp := ql, first := False\<rparr>"
  have "sb_frame m sm low lo st b = Some (out, ?st, b2)"
    by (simp only: sb_frame_def sb_shapeD(5) [OF ok] q(1) st1_def [symmetric] sb_shapeD(4) [OF ok1] 2(1) st3_def [symmetric] o(1)
        Option.bind.bind_lunit prod.case Let_def)
  moreover have "sb_ok n mode ?st" by (intro sb_ok_update ok3 o(3,4) q(3))
  moreover have "st_low ?st = st_low st" "innov_save ?st = None \<longleftrightarrow> innov_save st = None"
    using 2(4) by (simp_all add: st3_def st1_def high_only_def)
  moreover have "spends b layer_bits b2" using spends_trans [OF q(2) 2(5)] by (simp add: layer_bits_def)
  ultimately show ?thesis using o(2) by metis
qed

end

subsection \<open>What the decoder needs of its low decoder\<close>

text \<open>
  \<open>n\<close> is the number of samples of a frame of the low decoder. \<open>low_ok l k\<close> is its invariant, after at most \<open>k\<close> lost frames in a row and, with \<open>l\<close>, while it
  has a lent block; \<open>fails\<close> says for which packets it is undefined.
\<close>

locale low_decoder =
  fixes m :: "('l, 'e) SpeexMode" and n :: nat and low_ok :: "bool \<Rightarrow> int \<Rightarrow> 'l \<Rightarrow> bool" and fails :: "'l \<Rightarrow> speex_bits \<Rightarrow> int list \<Rightarrow> bool"
  assumes lend: "low_ok l k low \<Longrightarrow> n \<le> length block \<Longrightarrow>
      \<exists>r arg low'. speex_decoder_ctl m SPEEX_SET_INNOVATION_SAVE (Block (Some block)) low = Some (r, arg, low') \<and> low_ok True k low'"
    and packet: "low_ok l k low \<Longrightarrow> rd_ok b \<Longrightarrow> length out = n \<Longrightarrow> \<not> fails low b out \<Longrightarrow>
      \<exists>ret out' low' b'. speex_decode_native m low (Some b) out = Some (ret, out', low', Some b') \<and> rd_ok b' \<and> low_ok l k low' \<and>
        (ret = 0 \<longrightarrow> samples n out')"
    and loss: "low_ok l k low \<Longrightarrow> k < 2147483647 \<Longrightarrow> length out = n \<Longrightarrow>
      \<exists>out' low'. speex_decode_native m low None out = Some (0, out', low', None) \<and> low_ok l (k + 1) low' \<and> samples n out'"
    and block: "low_ok True k low \<Longrightarrow> \<exists>block. lent_block m low = Some block \<and> n \<le> length block"
    and dtx: "low_ok l k low \<Longrightarrow>
      \<exists>r v low'. speex_decoder_ctl m SPEEX_GET_DTX_STATUS (Number 0) low = Some (r, Number v, low') \<and> low_ok l k low'"
    and levels: "low_ok l k low \<Longrightarrow> req \<in> {SPEEX_GET_PI_GAIN, SPEEX_GET_EXC} \<Longrightarrow>
      \<exists>r vs low'. speex_decoder_ctl m req (Numbers (replicate 4 0)) low = Some (r, Numbers vs, low') \<and> low_ok l k low' \<and> length vs = 4"
    and forget: "low_ok l k low \<Longrightarrow> low_ok False k low"
begin

lemma ask_low_band_total:
  assumes "low_ok l k low"
  shows "\<exists>lb low'. ask_low_band m 4 innov low = Some (lb, low') \<and> low_ok l k low' \<and> low_innov lb = innov \<and> length (low_exc_rms lb) = 4"
proof -
  obtain r1 pg low1 where 1: "speex_decoder_ctl m SPEEX_GET_PI_GAIN (Numbers (replicate 4 0)) low = Some (r1, Numbers pg, low1)" "low_ok l k low1"
    using levels [OF assms, of SPEEX_GET_PI_GAIN] by blast
  obtain r2 er low2 where 2: "speex_decoder_ctl m SPEEX_GET_EXC (Numbers (replicate 4 0)) low1 = Some (r2, Numbers er, low2)" "low_ok l k low2" "length er = 4"
    using levels [OF 1(2), of SPEEX_GET_EXC] by blast
  show ?thesis using 1(1) 2 by (simp add: ask_low_band_def numbers_of_def)
qed

text \<open>The low band of a packet, and of a lost one.\<close>

definition low_fails :: "'l \<Rightarrow> speex_bits \<Rightarrow> int list \<Rightarrow> bool" where
  "low_fails low b out =
     (case speex_decoder_ctl m SPEEX_SET_INNOVATION_SAVE (Block (Some (drop n out))) low of
        None \<Rightarrow> False
      | Some (r, arg, low) \<Rightarrow> fails low b (take n out))"

lemma decode_low_packet:
  assumes inv: "low_ok l k low" and rd: "rd_ok b" and l: "length out = 2 * n" and f: "\<not> low_fails low b out"
  shows "\<exists>ret lo hi dtx low' b'. decode_low m n low (Some b) out = Some (ret, lo, hi, dtx, low', Some b') \<and> rd_ok b' \<and> low_ok True k low' \<and>
    n \<le> length hi \<and> (ret = 0 \<longrightarrow> samples n lo)"
proof -
  have d: "n \<le> length (drop n out)" "length (take n out) = n" using l by simp_all
  obtain r1 a1 low1 where 1: "speex_decoder_ctl m SPEEX_SET_INNOVATION_SAVE (Block (Some (drop n out))) low = Some (r1, a1, low1)" "low_ok True k low1"
    using lend [OF inv d(1)] by blast
  have "\<not> fails low1 b (take n out)" using f 1(1) by (simp add: low_fails_def)
  then obtain ret lo low2 b2 where 2: "speex_decode_native m low1 (Some b) (take n out) = Some (ret, lo, low2, Some b2)" "rd_ok b2" "low_ok True k low2"
    "ret = 0 \<longrightarrow> samples n lo" using packet [OF 1(2) rd d(2)] by blast
  obtain hi where hi: "lent_block m low2 = Some hi" "n \<le> length hi" using block [OF 2(3)] by blast
  obtain r3 v low3 where 3: "speex_decoder_ctl m SPEEX_GET_DTX_STATUS (Number 0) low2 = Some (r3, Number v, low3)" "low_ok True k low3"
    using dtx [OF 2(3)] by blast
  have "decode_low m n low (Some b) out = Some (ret, lo, hi, v \<noteq> 0, low3, Some b2)"
    by (simp add: decode_low_def 1(1) 2(1) hi(1) 3(1) number_of_def)
  then show ?thesis using 2(2,4) hi(2) 3(2) by blast
qed

lemma decode_low_loss:
  assumes inv: "low_ok l k low" and l: "length out = 2 * n" and k: "k < 2147483647"
  shows "\<exists>lo hi dtx low'. decode_low m n low None out = Some (0, lo, hi, dtx, low', None) \<and> low_ok True (k + 1) low' \<and> samples n lo"
proof -
  have d: "n \<le> length (drop n out)" "length (take n out) = n" using l by simp_all
  obtain r1 a1 low1 where 1: "speex_decoder_ctl m SPEEX_SET_INNOVATION_SAVE (Block (Some (drop n out))) low = Some (r1, a1, low1)" "low_ok True k low1"
    using lend [OF inv d(1)] by blast
  obtain lo low2 where 2: "speex_decode_native m low1 None (take n out) = Some (0, lo, low2, None)" "low_ok True (k + 1) low2" "samples n lo"
    using loss [OF 1(2) k d(2)] by blast
  obtain hi where hi: "lent_block m low2 = Some hi" using block [OF 2(2)] by blast
  obtain r3 v low3 where 3: "speex_decoder_ctl m SPEEX_GET_DTX_STATUS (Number 0) low2 = Some (r3, Number v, low3)" "low_ok True (k + 1) low3"
    using dtx [OF 2(2)] by blast
  have "decode_low m n low None out = Some (0, lo, hi, v \<noteq> 0, low3, None)"
    by (simp add: decode_low_def 1(1) 2(1) hi(1) 3(1) number_of_def)
  then show ?thesis using 2(3) 3(2) by blast
qed

end

text \<open>The narrowband decoder, with handlers that leave it in order.\<close>

definition nb_inv :: "bool \<Rightarrow> int \<Rightarrow> 'e nb_state \<Rightarrow> bool" where
  "nb_inv l k = (\<lambda>(cb, st, env). request_handlers cb \<and> dec_lost l k st)"

definition never :: "'l \<Rightarrow> speex_bits \<Rightarrow> int list \<Rightarrow> bool" where
  "never low b out = False"

lemmas nb_request_sets = nb_decoder_ctl_def number_setters_def number_getters_def request_numbers

interpretation narrow: low_decoder "speex_nb_mode activity" 160 nb_inv never
proof unfold_locales
  fix l k and low :: "'e nb_state" and block :: "int list"
  assume "nb_inv l k low" "160 \<le> length block"
  then show "\<exists>r arg low'. speex_decoder_ctl (speex_nb_mode activity) SPEEX_SET_INNOVATION_SAVE (Block (Some block)) low = Some (r, arg, low') \<and>
      nb_inv True k low'"
    by (cases low) (auto simp: nb_inv_def dec_lost_def dec_ok_defs speex_decoder_ctl_def speex_nb_mode_def nb_request_sets)
next
  fix l k and low :: "'e nb_state" and b and out :: "int list"
  assume a: "nb_inv l k low" "rd_ok b" "length out = 160"
  obtain cb st env where low: "low = (cb, st, env)" by (cases low) auto
  obtain ret x st' env' b' where r: "nb_decode cb (st, env) (Some b) = Some (ret, x, (st', env'), Some b')" "rd_ok b'" "dec_lost l k st'"
    "if ret = 0 then \<exists>y. x = Some y \<and> samples 160 y \<and> count_lost st' = 0 else x = None"
    using request_handlers.nb_decode_packet [of cb b l k st env] a low unfolding nb_inv_def by auto
  show "\<exists>ret out' low' b'. speex_decode_native (speex_nb_mode activity) low (Some b) out = Some (ret, out', low', Some b') \<and> rd_ok b' \<and>
      nb_inv l k low' \<and> (ret = 0 \<longrightarrow> samples 160 out')"
  proof (cases "ret = 0")
    case True
    then obtain y where y: "x = Some y" "samples 160 y" using r(4) by auto
    then have "mem_write out 0 y = Some y" using a(3) by (simp add: mem_simps samples_length)
    then show ?thesis using r y a(1) low True by (simp add: speex_decode_native_def speex_nb_mode_def nb_inv_def)
  next
    case False
    then show ?thesis using r a(1) low by (simp add: speex_decode_native_def speex_nb_mode_def nb_inv_def)
  qed
next
  fix l k and low :: "'e nb_state" and out :: "int list"
  assume a: "nb_inv l k low" "k < 2147483647" "length out = 160"
  obtain cb st env where low: "low = (cb, st, env)" by (cases low) auto
  obtain y st' where r: "nb_decode cb (st, env) None = Some (0, Some y, (st', env), None)" "samples 160 y" "dec_lost l (k + 1) st'"
    using nb_decode_loss [of l k st cb env] a low unfolding nb_inv_def by auto
  have "mem_write out 0 y = Some y" using a(3) r(2) by (simp add: mem_simps samples_length)
  then show "\<exists>out' low'. speex_decode_native (speex_nb_mode activity) low None out = Some (0, out', low', None) \<and> nb_inv l (k + 1) low' \<and>
      samples 160 out'"
    using r a(1) low by (simp add: speex_decode_native_def speex_nb_mode_def nb_inv_def)
next
  fix k and low :: "'e nb_state"
  assume "nb_inv True k low"
  then show "\<exists>block. lent_block (speex_nb_mode activity) low = Some block \<and> 160 \<le> length block"
    by (cases low) (auto simp: nb_inv_def dec_lost_def speex_nb_mode_def dec_buffersD(6))
next
  fix l k and low :: "'e nb_state"
  assume "nb_inv l k low"
  then show "\<exists>r v low'. speex_decoder_ctl (speex_nb_mode activity) SPEEX_GET_DTX_STATUS (Number 0) low = Some (r, Number v, low') \<and> nb_inv l k low'"
    by (cases low) (auto simp: nb_inv_def speex_decoder_ctl_def speex_nb_mode_def nb_request_sets get_number_def)
next
  fix l k and low :: "'e nb_state" and req
  assume a: "nb_inv l k low" "req \<in> {SPEEX_GET_PI_GAIN, SPEEX_GET_EXC}"
  obtain cb st env where low: "low = (cb, st, env)" by (cases low) auto
  then have "dec_ok st" using a(1) by (simp add: nb_inv_def dec_lost_def)
  then obtain vs where g: "get_numbers req (replicate 4 0) st = Some vs"
    using get_numbers_total [of st req "replicate 4 0"] a(2) by auto
  then have "length vs = 4" by (auto simp: get_numbers_def dest!: mem_write_length split: Option.bind_splits if_splits)
  with g show "\<exists>r vs low'. speex_decoder_ctl (speex_nb_mode activity) req (Numbers (replicate 4 0)) low = Some (r, Numbers vs, low') \<and> nb_inv l k low' \<and>
      length vs = 4"
    using a low by (auto simp: speex_decoder_ctl_def speex_nb_mode_def nb_request_sets)
next
  fix l k and low :: "'e nb_state"
  assume "nb_inv l k low"
  then show "nb_inv False k low" by (cases low) (simp add: nb_inv_def dec_lost_def)
qed

subsection \<open>The decoder\<close>

text \<open>
  The packets for which the decoder is undefined: those for which its low decoder is, and those with a layer whose response ratios are
  not all different from zero. The second condition follows the code up to the first subframe.
\<close>

definition layer_edges :: "('l, 'e) SpeexMode \<Rightarrow> 'l SBDecState \<Rightarrow> speex_bits \<Rightarrow> int list \<Rightarrow> bool option" where
  "layer_edges m st b out =
     do { (ret, lo, hi, dtx, low, bits) \<leftarrow> decode_low m (frame_size st) (st_low st) (Some b) out;
          require (ret = 0);
          b \<leftarrow> bits;
          (code, st, b) \<leftarrow> read_layer (st\<lparr>st_low := low\<rparr>) b;
          require (code = None);
          sm \<leftarrow> cell (submodes st) (submodeID st);
          sm \<leftarrow> sm;
          (lb, low) \<leftarrow> ask_low_band m (nbSubframes st) hi (st_low st);
          (ql, b) \<leftarrow> lsp_unquant sm (lpcSize st) b;
          Some (edges_ok (if first st then st\<lparr>old_qlsp := ql\<rparr> else st) ql (low_pi_gain lb)) }"

definition sb_fails :: "('l, 'e) SpeexMode \<Rightarrow> ('l \<Rightarrow> speex_bits \<Rightarrow> int list \<Rightarrow> bool) \<Rightarrow> 'l SBDecState \<Rightarrow> speex_bits \<Rightarrow> int list \<Rightarrow> bool" where
  "sb_fails m fails st b out \<longleftrightarrow>
     (case speex_decoder_ctl m SPEEX_SET_INNOVATION_SAVE (Block (Some (drop (frame_size st) out))) (st_low st) of
        None \<Rightarrow> False
      | Some (r, arg, low) \<Rightarrow> fails low b (take (frame_size st) out)) \<or>
     layer_edges m st b out = Some False"

definition sb_inv :: "(bool \<Rightarrow> int \<Rightarrow> 'l \<Rightarrow> bool) \<Rightarrow> nat \<Rightarrow> SpeexSBMode \<Rightarrow> bool \<Rightarrow> int \<Rightarrow> 'l SBDecState \<Rightarrow> bool" where
  "sb_inv low_ok n mode l k st \<longleftrightarrow> sb_ok n mode st \<and> low_ok False k (st_low st) \<and> (l \<longrightarrow> innov_save st \<noteq> None)"

locale wideband = low_decoder m n low_ok fails
  for m :: "('l, 'e) SpeexMode" and n :: nat and low_ok :: "bool \<Rightarrow> int \<Rightarrow> 'l \<Rightarrow> bool" and fails :: "'l \<Rightarrow> speex_bits \<Rightarrow> int list \<Rightarrow> bool" +
  fixes mode :: SpeexSBMode
  assumes layers: "length (sb_submodes mode) = 8"
    and layer: "Some sm \<in> set (sb_submodes mode) \<Longrightarrow> \<exists>wl wi. high_layer sm n wl wi"
    and size: "n = 160 \<or> n = 320"
begin

lemma even_size: "even n"
  using size by auto

text \<open>The frame that a packet ends in, when its low band has been decoded.\<close>

lemma layer_frame:
  assumes ok: "sb_ok n mode st" and inv: "low_ok True k (st_low st)" and rd: "rd_ok b" and lo: "samples n lo" and hi: "n \<le> length hi"
    and h: "high_layer sm n wl wi"
    and edges: "\<And>lb low ql b'. ask_low_band m 4 hi (st_low st) = Some (lb, low) \<Longrightarrow> lsp_unquant sm 8 b = Some (ql, b') \<Longrightarrow>
      edges_ok (if first st then st\<lparr>old_qlsp := ql\<rparr> else st) ql (low_pi_gain lb)"
  shows "\<exists>out st' b'. do { (low, l) \<leftarrow> ask_low_band m (nbSubframes st) hi (st_low st); sb_frame mode sm low lo (st\<lparr>st_low := l\<rparr>) b }
      = Some (out, st', b') \<and> samples (2 * n) out \<and> sb_ok n mode st' \<and> low_ok True k (st_low st') \<and>
      (innov_save st' = None \<longleftrightarrow> innov_save st = None) \<and> spends b (high_layer.layer_bits sm wl wi) b'"
proof -
  obtain lb low where a: "ask_low_band m 4 hi (st_low st) = Some (lb, low)" "low_ok True k low" "low_innov lb = hi" "length (low_exc_rms lb) = 4"
    using ask_low_band_total [OF inv] by blast
  define st1 where "st1 = st\<lparr>st_low := low\<rparr>"
  have ok1: "sb_ok n mode st1" unfolding st1_def by (rule sb_ok_update(11) [OF ok])
  have same: "edge_ratio (st\<lparr>st_low := low, old_qlsp := q\<rparr>) ql rl sub = edge_ratio (st\<lparr>old_qlsp := q\<rparr>) ql rl sub"
    "edge_ratio (st\<lparr>st_low := low\<rparr>) ql rl sub = edge_ratio st ql rl sub" for q ql rl sub
    by (simp_all add: edge_ratio_def sb_filter_def)
  have "edges_ok (if first st1 then st1\<lparr>old_qlsp := ql\<rparr> else st1) ql (low_pi_gain lb)" if "lsp_unquant sm 8 b = Some (ql, b')" for ql b'
    using edges [OF a(1) that] by (cases "first st") (simp_all add: st1_def edges_ok_def same)
  then obtain out st' b' where f: "sb_frame mode sm lb lo st1 b = Some (out, st', b')" "samples (2 * n) out" "sb_ok n mode st'" "st_low st' = st_low st1"
    "innov_save st' = None \<longleftrightarrow> innov_save st1 = None" "spends b (high_layer.layer_bits sm wl wi) b'"
    using high_layer.sb_frame_total [OF h ok1 rd lo, of lb mode] hi a(3,4) by auto
  have "do { (low, l) \<leftarrow> ask_low_band m (nbSubframes st) hi (st_low st); sb_frame mode sm low lo (st\<lparr>st_low := l\<rparr>) b } = Some (out, st', b')"
    by (simp only: sb_shapeD(4) [OF ok] a(1) Option.bind.bind_lunit prod.case st1_def [symmetric] f(1))
  moreover have "st_low st' = low" "innov_save st' = None \<longleftrightarrow> innov_save st = None" using f(4,5) by (simp_all add: st1_def)
  ultimately show ?thesis using f(2,3,6) a(2) by metis
qed

lemma sb_decode_packet:
  assumes inv: "sb_inv low_ok n mode l k st" and rd: "rd_ok b" and len: "length out = 2 * n" and f: "\<not> sb_fails m fails st b out"
  shows "\<exists>ret out' st' b'. sb_decode m mode st (Some b) out = Some (ret, out', st', Some b') \<and> rd_ok b' \<and> sb_inv low_ok n mode l k st' \<and>
    (ret = 0 \<longrightarrow> samples (2 * n) out')"
proof -
  have ok: "sb_ok n mode st" and low: "low_ok False k (st_low st)" and lent: "l \<longrightarrow> innov_save st \<noteq> None" using inv by (simp_all add: sb_inv_def)
  have "\<not> low_fails (st_low st) b out" using f sb_shapeD(2) [OF ok] by (auto simp: sb_fails_def low_fails_def split: option.splits)
  then obtain ret lo hi dtx low1 b1 where 1: "decode_low m n (st_low st) (Some b) out = Some (ret, lo, hi, dtx, low1, Some b1)" "rd_ok b1"
    "low_ok True k low1" "n \<le> length hi" "ret = 0 \<longrightarrow> samples n lo" using decode_low_packet [OF low rd len] by blast
  define st1 where "st1 = st\<lparr>st_low := low1\<rparr>"
  have ok1: "sb_ok n mode st1" unfolding st1_def by (rule sb_ok_update(11) [OF ok])
  have inv': "sb_inv low_ok n mode l k st'" if "sb_ok n mode st'" "low_ok True k (st_low st')" "innov_save st' = None \<longleftrightarrow> innov_save st = None" for st'
    using that lent forget by (simp add: sb_inv_def)
  show ?thesis
  proof (cases "ret = 0")
    case False
    then have "sb_decode m mode st (Some b) out = Some (ret, lo @ hi, st1, Some b1)" by (simp add: sb_decode_def sb_shapeD(2) [OF ok] 1(1) st1_def)
    moreover have "sb_inv low_ok n mode l k st1" by (rule inv' [OF ok1]) (simp_all add: st1_def 1(3))
    ultimately show ?thesis using 1(2) False by blast
  next
    case True
    obtain code i b2 where 2: "read_layer st1 b1 = Some (code, st1\<lparr>submodeID := i\<rparr>, b2)" "0 \<le> i" "i < 8" "rd_ok b2" "code = None \<or> code = Some (-2)"
      using read_layer_total [OF ok1 1(2) layers] by blast
    define st2 where "st2 = st1\<lparr>submodeID := i\<rparr>"
    have ok2: "sb_ok n mode st2" unfolding st2_def by (rule sb_ok_update(14) [OF ok1 2(2,3)])
    have same: "st_low st2 = low1" "innov_save st2 = innov_save st" by (simp_all add: st2_def st1_def)
    have start: "sb_decode m mode st (Some b) out = (case code of Some c \<Rightarrow> Some (c, lo @ hi, st2, Some b2)
        | None \<Rightarrow> do { sm \<leftarrow> cell (submodes st2) (submodeID st2);
                      case sm of
                        None \<Rightarrow> do { (out, st) \<leftarrow> sb_null_frame st2 lo dtx; Some (0, out, st, Some b2) }
                      | Some sm \<Rightarrow>
                          do { (low, l) \<leftarrow> ask_low_band m (nbSubframes st2) hi (st_low st2);
                               (out, st, b) \<leftarrow> sb_frame mode sm low lo (st2\<lparr>st_low := l\<rparr>) b2;
                               Some (0, out, st, Some b) } })"
      using True by (simp only: sb_decode_def sb_shapeD(2) [OF ok] 1(1) st1_def [symmetric] 2(1) st2_def [symmetric] Option.bind.bind_lunit prod.case
          Let_def simp_thms if_False option.case)
    show ?thesis
    proof (cases code)
      case (Some c)
      then have "sb_decode m mode st (Some b) out = Some (-2, lo @ hi, st2, Some b2)" using start 2(5) by simp
      then show ?thesis using 2(4) inv' [OF ok2] same 1(3) by simp
    next
      case None
      define sm where "sm = sb_submodes mode ! nat (submodeID st2)"
      have c: "cell (submodes st2) (submodeID st2) = Some sm" and mem: "sm \<in> set (sb_submodes mode)"
        using cell_Some [of "submodeID st2" "submodes st2"] sb_shapeD(6-8) [OF ok2] layers by (auto simp: sm_def)
      show ?thesis
      proof (cases sm)
        case n: None
        obtain out' st3 where "sb_null_frame st2 lo dtx = Some (out', st3)" "samples (2 * n) out'" "sb_ok n mode st3" "high_only st2 st3"
          using sb_null_frame_total [OF ok2 even_size, of lo dtx] 1(5) True by blast
        then show ?thesis using start None c n 2(4) inv' [of st3] same 1(3) by (simp add: high_only_def)
      next
        case (Some s)
        have edges: "edges_ok (if first st2 then st2\<lparr>old_qlsp := ql\<rparr> else st2) ql (low_pi_gain lb)"
          if "ask_low_band m 4 hi (st_low st2) = Some (lb, low)" "lsp_unquant s 8 b2 = Some (ql, b')" for lb low ql b'
        proof -
          have "layer_edges m st b out = Some (edges_ok (if first st2 then st2\<lparr>old_qlsp := ql\<rparr> else st2) ql (low_pi_gain lb))"
            using True None Some by (simp only: layer_edges_def sb_shapeD(2) [OF ok] 1(1) require_def st1_def [symmetric] 2(1) st2_def [symmetric] c
                sb_shapeD(4,5) [OF ok2] that Option.bind.bind_lunit prod.case simp_thms if_True)
          then show ?thesis using f by (auto simp: sb_fails_def)
        qed
        have m: "Some s \<in> set (sb_submodes mode)" "samples n lo" "low_ok True k (st_low st2)" using mem Some 1(3,5) True same(1) by simp_all
        obtain wl wi where h: "high_layer s n wl wi" using layer [OF m(1)] by blast
        have "\<exists>out st' b'. do { (low, l) \<leftarrow> ask_low_band m (nbSubframes st2) hi (st_low st2); sb_frame mode s low lo (st2\<lparr>st_low := l\<rparr>) b2 }
            = Some (out, st', b') \<and> samples (2 * n) out \<and> sb_ok n mode st' \<and> low_ok True k (st_low st') \<and>
            (innov_save st' = None \<longleftrightarrow> innov_save st2 = None) \<and> spends b2 (high_layer.layer_bits s wl wi) b'"
          by (rule layer_frame [OF ok2 m(3) 2(4) m(2) 1(4) h]) (erule (1) edges)
        then obtain out' st3 b3 where f: "do { (low, l) \<leftarrow> ask_low_band m (nbSubframes st2) hi (st_low st2); sb_frame mode s low lo (st2\<lparr>st_low := l\<rparr>) b2 }
            = Some (out', st3, b3)" "samples (2 * n) out'" "sb_ok n mode st3" "low_ok True k (st_low st3)" "innov_save st3 = None \<longleftrightarrow> innov_save st2 = None" "rd_ok b3"
          using spends_ok by metis
        have "sb_decode m mode st (Some b) out = Some (0, out', st3, Some b3)"
          using start None Some c f(1) by (auto split: Option.bind_splits)
        then show ?thesis using f(2-6) inv' [of st3] same(2) by simp
      qed
    qed
  qed
qed

lemma sb_decode_loss:
  assumes inv: "sb_inv low_ok n mode l k st" and len: "length out = 2 * n" and k: "k < 2147483647"
  shows "\<exists>out' st'. sb_decode m mode st None out = Some (0, out', st', None) \<and> samples (2 * n) out' \<and> sb_inv low_ok n mode l (k + 1) st'"
proof -
  have ok: "sb_ok n mode st" and low: "low_ok False k (st_low st)" and lent: "l \<longrightarrow> innov_save st \<noteq> None" using inv by (simp_all add: sb_inv_def)
  obtain lo hi dtx low1 where 1: "decode_low m n (st_low st) None out = Some (0, lo, hi, dtx, low1, None)" "low_ok True (k + 1) low1" "samples n lo"
    using decode_low_loss [OF low len k] by blast
  define st1 where "st1 = st\<lparr>st_low := low1\<rparr>"
  have ok1: "sb_ok n mode st1" unfolding st1_def by (rule sb_ok_update(11) [OF ok])
  obtain out' st' where 2: "sb_decode_lost st1 lo dtx = Some (out', st')" "samples (2 * n) out'" "sb_ok n mode st'" "high_only st1 st'"
    using sb_decode_lost_total [OF ok1 even_size 1(3)] by blast
  have "sb_decode m mode st None out = Some (0, out', st', None)" by (simp add: sb_decode_def sb_shapeD(2) [OF ok] 1(1) st1_def [symmetric] 2(1))
  moreover have "sb_inv low_ok n mode l (k + 1) st'" using 2(3,4) forget [OF 1(2)] lent by (simp add: sb_inv_def high_only_def st1_def)
  ultimately show ?thesis using 2(2) by blast
qed

end

subsection \<open>The decoder as a low decoder\<close>

lemmas sb_ctl = sb_decoder_ctl_def sb_request_sets

lemma sb_dtx_request:
  "sb_decoder_ctl m mode SPEEX_GET_DTX_STATUS arg st =
     do { (ret, arg, low) \<leftarrow> speex_decoder_ctl m SPEEX_GET_DTX_STATUS arg (st_low st); Some (0, arg, st\<lparr>st_low := low\<rparr>) }"
  unfolding sb_ctl to_low_def by (cases "speex_decoder_ctl m SPEEX_GET_DTX_STATUS arg (st_low st)") (auto simp: request_numbers)

lemma sb_lend_request:
  "sb_decoder_ctl m mode SPEEX_SET_INNOVATION_SAVE (Block block) st = Some (0, Block block, st\<lparr>innov_save := block\<rparr>)"
  by (simp add: sb_ctl)

lemma sb_levels_request:
  assumes "sb_ok n mode st" and "req \<in> {SPEEX_GET_PI_GAIN, SPEEX_GET_EXC}"
  shows "\<exists>vs. sb_decoder_ctl m mode req (Numbers (replicate 4 0)) st = Some (0, Numbers vs, st) \<and> length vs = 4"
  using assms sb_shapeD(4) [OF assms(1)] sb_buffersD(7,8) [OF assms(1)] by (auto simp: sb_ctl numbers_of_def mem_simps)

lemma wb_ctl: "speex_decoder_ctl (speex_wb_mode m mode) = sb_decoder_ctl m mode"
  by (intro ext) (simp add: speex_decoder_ctl_def speex_wb_mode_def)

sublocale wideband \<subseteq> wider: low_decoder "speex_wb_mode m mode" "2 * n" "sb_inv low_ok n mode" "sb_fails m fails"
proof unfold_locales
  fix l k st and block :: "int list"
  assume a: "sb_inv low_ok n mode l k st" "2 * n \<le> length block"
  then have "sb_inv low_ok n mode True k (st\<lparr>innov_save := Some block\<rparr>)" by (simp add: sb_inv_def sb_ok_update(10))
  then show "\<exists>r arg low'. speex_decoder_ctl (speex_wb_mode m mode) SPEEX_SET_INNOVATION_SAVE (Block (Some block)) st = Some (r, arg, low') \<and>
      sb_inv low_ok n mode True k low'"
    by (simp add: wb_ctl sb_lend_request)
next
  fix l k st b and out :: "int list"
  assume "sb_inv low_ok n mode l k st" "rd_ok b" "length out = 2 * n" "\<not> sb_fails m fails st b out"
  then show "\<exists>ret out' low' b'. speex_decode_native (speex_wb_mode m mode) st (Some b) out = Some (ret, out', low', Some b') \<and> rd_ok b' \<and>
      sb_inv low_ok n mode l k low' \<and> (ret = 0 \<longrightarrow> samples (2 * n) out')"
    using sb_decode_packet by (simp add: speex_decode_native_def speex_wb_mode_def)
next
  fix l k st and out :: "int list"
  assume "sb_inv low_ok n mode l k st" "k < 2147483647" "length out = 2 * n"
  then show "\<exists>out' low'. speex_decode_native (speex_wb_mode m mode) st None out = Some (0, out', low', None) \<and> sb_inv low_ok n mode l (k + 1) low' \<and>
      samples (2 * n) out'"
    using sb_decode_loss [of l k st out] by (auto simp: speex_decode_native_def speex_wb_mode_def)
next
  fix k st
  assume "sb_inv low_ok n mode True k st"
  then show "\<exists>block. lent_block (speex_wb_mode m mode) st = Some block \<and> 2 * n \<le> length block"
    using sb_buffersD(10) by (auto simp: sb_inv_def speex_wb_mode_def)
next
  fix l k st
  assume a: "sb_inv low_ok n mode l k st"
  then obtain r v low' where d: "speex_decoder_ctl m SPEEX_GET_DTX_STATUS (Number 0) (st_low st) = Some (r, Number v, low')" "low_ok False k low'"
    using dtx [of False k "st_low st"] by (auto simp: sb_inv_def)
  have "sb_inv low_ok n mode l k (st\<lparr>st_low := low'\<rparr>)" using a d(2) by (simp add: sb_inv_def sb_ok_update(11))
  then show "\<exists>r v low'. speex_decoder_ctl (speex_wb_mode m mode) SPEEX_GET_DTX_STATUS (Number 0) st = Some (r, Number v, low') \<and>
      sb_inv low_ok n mode l k low'"
    using d(1) by (simp add: wb_ctl sb_dtx_request)
next
  fix l k st and req :: nat
  assume a: "sb_inv low_ok n mode l k st" "req \<in> {SPEEX_GET_PI_GAIN, SPEEX_GET_EXC}"
  then have "sb_ok n mode st" by (simp add: sb_inv_def)
  then obtain vs where "sb_decoder_ctl m mode req (Numbers (replicate 4 0)) st = Some (0, Numbers vs, st)" "length vs = 4"
    using sb_levels_request a(2) by blast
  then show "\<exists>r vs low'. speex_decoder_ctl (speex_wb_mode m mode) req (Numbers (replicate 4 0)) st = Some (r, Numbers vs, low') \<and>
      sb_inv low_ok n mode l k low' \<and> length vs = 4"
    using a(1) by (simp add: wb_ctl)
next
  fix l k st
  assume "sb_inv low_ok n mode l k st"
  then show "sb_inv low_ok n mode False k st" by (simp add: sb_inv_def)
qed

subsection \<open>The modes of the library\<close>

lemma lsp_high:
  assumes "rd_ok b"
  shows "\<exists>d b'. lsp_unquant_high 8 b = Some (d, b') \<and> spends b 12 b' \<and> samples 8 d"
  using lsp_unquant_spends(3) [OF assms] by (fastforce simp: samples_def)

lemma split_cb_high_fits: "split_cb_ok split_cb_high 40" "split_cb_ok split_cb_high_lbr 40"
  using hexc_table_chars hexc_10_32_table_chars by (simp_all add: split_cb_ok_def split_cb_high_def split_cb_high_lbr_def)

lemma split_high:
  assumes "split_cb_ok par 40" "split_cb_width par = w" "rd_ok b" "word_block (160 div 4) x" "is_i32 sd"
  shows "\<exists>x' b' sd'. split_cb_shape_sign_unquant x (Some par) (160 div 4) b sd = Some (x', b', sd') \<and> word_block (160 div 4) x' \<and> spends b w b' \<and> is_i32 sd'"
  using innovation_width [OF assms(1-3) _ assms(5), of x] assms(4) by simp

lemmas wb_submodes = wb_submode1_def wb_submode2_def wb_submode3_def wb_submode4_def

lemma high_widths: "split_cb_width split_cb_high = 40" "split_cb_width split_cb_high_lbr = 20"
  by (simp_all add: split_cb_width_def split_cb_high_def split_cb_high_lbr_def)

interpretation wb1: high_layer wb_submode1 160 12 0
  by unfold_locales (auto simp: wb_submode1_def lsp_high)

interpretation wb2: high_layer wb_submode2 160 12 20
  by unfold_locales (auto simp: wb_submode2_def lsp_high intro!: split_high [OF split_cb_high_fits(2) high_widths(2), simplified])

interpretation wb3: high_layer wb_submode3 160 12 40
  by unfold_locales (auto simp: wb_submode3_def lsp_high intro!: split_high [OF split_cb_high_fits(1) high_widths(1), simplified])

interpretation wb4: high_layer wb_submode4 160 12 40
  by unfold_locales (auto simp: wb_submode4_def lsp_high intro!: split_high [OF split_cb_high_fits(1) high_widths(1), simplified])

interpretation uwb1: high_layer wb_submode1 320 12 0
  by unfold_locales (auto simp: wb_submode1_def lsp_high)

interpretation wide: wideband "speex_nb_mode activity" 160 nb_inv never sb_wb_mode
proof (unfold_locales)
  fix sm
  assume "Some sm \<in> set (sb_submodes sb_wb_mode)"
  then have "sm = wb_submode1 \<or> sm = wb_submode2 \<or> sm = wb_submode3 \<or> sm = wb_submode4" by (auto simp: sb_wb_mode_def)
  then show "\<exists>wl wi. high_layer sm 160 wl wi"
    using wb1.high_layer_axioms wb2.high_layer_axioms wb3.high_layer_axioms wb4.high_layer_axioms by blast
qed (simp_all add: sb_wb_mode_def)

text \<open>The wideband decoder is the low decoder of the ultra-wideband one.\<close>

interpretation ultra: wideband "speex_wb_mode (speex_nb_mode activity) sb_wb_mode" "2 * 160" "sb_inv nb_inv 160 sb_wb_mode"
  "sb_fails (speex_nb_mode activity) never" sb_uwb_mode
proof (intro wideband.intro wide.wider.low_decoder_axioms, unfold_locales)
  fix sm
  assume "Some sm \<in> set (sb_submodes sb_uwb_mode)"
  then have "sm = wb_submode1" by (auto simp: sb_uwb_mode_def)
  then show "\<exists>wl wi. high_layer sm (2 * 160) wl wi" using uwb1.high_layer_axioms by auto
qed (simp_all add: sb_uwb_mode_def)

end
