(* ===== verification/Sb_Packets.thy ===== *)
theory Sb_Packets
  imports Sb_Safety
begin

text \<open>
  Properties of the wideband decoder as an application sees it: its start, its answers to packets, losses and requests, and what it reads
  from a packet.
\<close>

subsection \<open>A new decoder\<close>

text \<open>The wideband decoder over the narrowband one, and the ultra-wideband decoder over that.\<close>

definition wb_decoder_init ::
  "(int \<Rightarrow> int \<Rightarrow> int) \<Rightarrow> 'e callbacks \<Rightarrow> 'e \<Rightarrow> 'e nb_state SBDecState option" where
  "wb_decoder_init activity cb env = sb_decoder_init (speex_nb_mode activity) sb_wb_mode (cb, nb_decoder_init nb_mode, env)"

definition uwb_decoder_init ::
  "(int \<Rightarrow> int \<Rightarrow> int) \<Rightarrow> 'e callbacks \<Rightarrow> 'e \<Rightarrow> 'e nb_state SBDecState SBDecState option" where
  "uwb_decoder_init activity cb env =
     do { st \<leftarrow> wb_decoder_init activity cb env; sb_decoder_init (speex_wb_mode (speex_nb_mode activity) sb_wb_mode) sb_uwb_mode st }"

lemma is_i16_0 [simp]: "is_i16 0"
  by (simp add: is_i16_def)

lemma is_i32_0 [simp]: "is_i32 0"
  by (simp add: is_i32_def)

lemma sb_ok_fresh:
  assumes "n = 160 \<and> mode = sb_wb_mode \<or> n = 320 \<and> mode = sb_uwb_mode"
    and "sb_decoder_init m mode low = Some st"
  shows "sb_ok n mode st \<and> innov_save st = None \<and> encode_submode st = 1 \<and> first st"
proof -
  have "is_i32 1000" by (simp add: is_i32_def)
  then show ?thesis using assms
    by (auto simp: sb_decoder_init_def sb_ok_defs sb_wb_mode_def sb_uwb_mode_def samples_def word_block_def Let_def split: Option.bind_splits)
qed

lemma wb_decoder_init_ok:
  assumes "request_handlers cb"
  shows "\<exists>st. wb_decoder_init activity cb env = Some st \<and> sb_inv nb_inv 160 sb_wb_mode False 0 st \<and> encode_submode st = 1 \<and> first st \<and>
    st_low st = (cb, (nb_decoder_init nb_mode)\<lparr>isWideband := 1\<rparr>, env)"
proof -
  have nb: "dec_lost False 0 (nb_decoder_init nb_mode)" using dec_ok_init by (simp add: dec_lost_def nb_decoder_init_def Let_def)
  then have "dec_lost False 0 ((nb_decoder_init nb_mode)\<lparr>isWideband := 1\<rparr>)" by (simp add: dec_lost_def dec_ok_defs)
  moreover have "\<exists>st. wb_decoder_init activity cb env = Some st \<and> st_low st = (cb, (nb_decoder_init nb_mode)\<lparr>isWideband := 1\<rparr>, env)"
    by (simp add: wb_decoder_init_def sb_decoder_init_def speex_decoder_ctl_def speex_nb_mode_def nb_request_sets number_of_def set_number_def
        get_number_def Let_def)
  ultimately show ?thesis using assms sb_ok_fresh [of 160 sb_wb_mode "speex_nb_mode activity"]
    by (fastforce simp: sb_inv_def nb_inv_def wb_decoder_init_def)
qed

lemma sb_wideband_request:
  "sb_decoder_ctl m mode SPEEX_SET_WIDEBAND arg st =
     do { (ret, arg, low) \<leftarrow> speex_decoder_ctl m SPEEX_SET_WIDEBAND arg (st_low st); Some (0, arg, st\<lparr>st_low := low\<rparr>) }"
  unfolding sb_ctl to_low_def by (cases "speex_decoder_ctl m SPEEX_SET_WIDEBAND arg (st_low st)") (auto simp: request_numbers)

lemma sb_rate_request: "sb_decoder_ctl m mode SPEEX_GET_SAMPLING_RATE (Number v) st = Some (0, Number (sampling_rate st), st)"
  by (simp add: sb_ctl sb_get_number_def number_of_def)

lemma uwb_decoder_init_ok:
  fixes cb :: "'e callbacks"
  assumes "request_handlers cb"
  shows "\<exists>st. uwb_decoder_init activity cb env = Some st \<and> sb_inv (sb_inv nb_inv 160 sb_wb_mode) 320 sb_uwb_mode False 0 st \<and>
    first (st_low st) \<and> encode_submode (st_low st) = 1 \<and> st_low (st_low st) = (cb, (nb_decoder_init nb_mode)\<lparr>isWideband := 1\<rparr>, env)"
proof -
  let ?nb = "(nb_decoder_init nb_mode)\<lparr>isWideband := 1\<rparr>"
  obtain w where w: "wb_decoder_init activity cb env = Some w" "sb_inv nb_inv 160 sb_wb_mode False 0 w" "first w" "encode_submode w = 1"
    "st_low w = (cb, ?nb, env)" using wb_decoder_init_ok [OF assms] by metis
  have "speex_decoder_ctl (speex_nb_mode activity) SPEEX_SET_WIDEBAND (Number 1) (st_low w) = Some (0, Number 1, (cb, ?nb, env))"
    by (simp add: w(5) speex_decoder_ctl_def speex_nb_mode_def nb_request_sets set_number_def)
  moreover have "w\<lparr>st_low := (cb, ?nb, env)\<rparr> = w" using w(5) by simp
  ultimately obtain st where st: "sb_decoder_init (speex_wb_mode (speex_nb_mode activity) sb_wb_mode) sb_uwb_mode w = Some st" "st_low st = w"
    by (simp add: sb_decoder_init_def wb_ctl sb_rate_request sb_wideband_request number_of_def Let_def)
  then show ?thesis using w sb_ok_fresh [OF _ st(1), of 320] by (simp add: uwb_decoder_init_def sb_inv_def)
qed

subsection \<open>Requests\<close>

text \<open>The arguments that a request to a wideband decoder is for.\<close>

definition wb_number_fits :: "nat \<Rightarrow> int \<Rightarrow> DecState \<Rightarrow> bool" where
  "wb_number_fits req v nb \<longleftrightarrow>
     req \<in> sb_number_setters \<union> sb_number_getters \<union> {SPEEX_SET_LOW_MODE, SPEEX_GET_LOW_MODE, SPEEX_SET_HIGHPASS, SPEEX_GET_HIGHPASS,
       SPEEX_GET_ACTIVITY, SPEEX_GET_DTX_STATUS, SPEEX_SET_WIDEBAND} \<and>
     (req = SPEEX_SET_HIGH_MODE \<longrightarrow> 0 \<le> v \<and> v < 8) \<and> (req = SPEEX_SET_LOW_MODE \<longrightarrow> 0 \<le> v \<and> v < 16) \<and>
     (req = SPEEX_GET_ACTIVITY \<longrightarrow> min_level nb \<noteq> 0)"

definition wb_arg_fits :: "nat \<Rightarrow> 'e ctl_arg \<Rightarrow> DecState \<Rightarrow> bool" where
  "wb_arg_fits req arg nb \<longleftrightarrow>
     (case arg of
        Number v \<Rightarrow> wb_number_fits req v nb
      | Numbers block \<Rightarrow> req \<in> {SPEEX_GET_PI_GAIN, SPEEX_GET_EXC} \<and> 4 \<le> length block
      | Callback ix h \<Rightarrow> (req = SPEEX_SET_USER_HANDLER \<or> req = SPEEX_SET_HANDLER \<and> 0 \<le> ix \<and> ix < 16) \<and> handler_ok h
      | Block b \<Rightarrow> req = SPEEX_SET_INNOVATION_SAVE \<and> (\<forall>block. b = Some block \<longrightarrow> 320 \<le> length block)
      | Stack \<Rightarrow> req \<in> {SPEEX_GET_STACK, SPEEX_RESET_STATE})"

lemma handlers_kept:
  assumes "request_handlers cb" and "set_callback req ix h cb = Some cb'" and "handler_ok h"
  shows "request_handlers cb'"
proof
  show "length (speex_callbacks cb') = 16" "handler_ok (user_callback cb')"
    using assms request_handlers.registered [OF assms(1)] request_handlers.user [OF assms(1)]
    by (auto simp: set_callback_def dest!: mem_put_length split: if_splits Option.bind_splits)
  fix g assume "Some g \<in> set (speex_callbacks cb')"
  moreover have "set (speex_callbacks cb') \<subseteq> insert (Some h) (set (speex_callbacks cb))"
    using assms(2) set_update_subset_insert by (fastforce simp: set_callback_def mem_put_def split: if_splits Option.bind_splits)
  ultimately show "handler_ok g" using assms(1,3) request_handlers.inband by auto
qed

lemma nb_request_kept:
  assumes "nb_inv False k low" and "low = (cb, nb, env)" and "arg_fits req arg nb" and "\<And>ix h. arg = Callback ix h \<Longrightarrow> handler_ok h"
  shows "\<exists>r arg' low'. speex_decoder_ctl (speex_nb_mode activity) req arg low = Some (r, arg', low') \<and> nb_inv False k low' \<and>
    (\<forall>v. arg = Number v \<longrightarrow> (\<exists>v'. arg' = Number v'))"
proof -
  have i: "dec_ok nb" "request_handlers cb" "0 \<le> count_lost nb" "count_lost nb \<le> k" using assms(1,2) by (simp_all add: nb_inv_def dec_lost_def)
  obtain r arg' cb' nb' where r: "nb_decoder_ctl activity req arg cb nb = Some (r, arg', cb', nb')" "dec_ok nb'" "count_lost nb' = count_lost nb"
    using requests_total [OF i(1) request_handlers.registered [OF i(2)] assms(3)] by blast
  have "request_handlers cb'"
  proof (cases arg)
    case (Callback ix h)
    then show ?thesis using r(1) assms(4) i(2) handlers_kept [of cb req ix h cb']
      by (auto simp: nb_decoder_ctl_def dest: handlers_kept split: if_splits Option.bind_splits)
  qed (use r(1) i(2) in \<open>auto simp: nb_decoder_ctl_def split: if_splits Option.bind_splits\<close>)
  moreover have "\<forall>v. arg = Number v \<longrightarrow> (\<exists>v'. arg' = Number v')"
    using r(1) assms(3) by (auto simp: nb_decoder_ctl_def arg_fits_def split: if_splits Option.bind_splits)
  ultimately show ?thesis using r i assms(2) by (simp add: speex_decoder_ctl_def speex_nb_mode_def nb_inv_def dec_lost_def)
qed

text \<open>A number for the low decoder.\<close>

lemma to_low_number:
  fixes st :: "'e nb_state SBDecState"
  assumes inv: "sb_inv nb_inv 160 sb_wb_mode l k st" and low: "st_low st = (cb, nb, env)" and fits: "arg_fits req (Number v :: 'e ctl_arg) nb"
  shows "\<exists>v' st'. to_low (speex_nb_mode activity) req (Number v) st = Some (Number v', st') \<and> sb_inv nb_inv 160 sb_wb_mode l k st'"
proof -
  have i: "nb_inv False k (st_low st)" using inv by (simp add: sb_inv_def)
  from nb_request_kept [OF i low fits, of activity]
  obtain r v' low' where "speex_decoder_ctl (speex_nb_mode activity) req (Number v) (st_low st) = Some (r, Number v', low')" "nb_inv False k low'"
    by auto
  then show ?thesis using inv by (auto simp: to_low_def sb_inv_def sb_ok_update(11))
qed

lemma sb_inv_update:
  assumes "sb_inv low_ok n mode l k st"
  shows "0 \<le> i \<Longrightarrow> i < 8 \<Longrightarrow> sb_inv low_ok n mode l k (st\<lparr>submodeID := i\<rparr>)" "sb_inv low_ok n mode l k (st\<lparr>lpc_enh_enabled := v\<rparr>)"
    "sb_inv low_ok n mode l k (st\<lparr>sampling_rate := v\<rparr>)" "sb_inv low_ok n mode l k (st\<lparr>encode_submode := v\<rparr>)"
  using assms by (simp_all add: sb_inv_def sb_ok_defs)

lemma quality_tables:
  "q \<le> 10 \<Longrightarrow> \<exists>h l. mem_get (sb_quality_map sb_wb_mode) q = Some h \<and> mem_get (low_quality_map sb_wb_mode) q = Some l \<and> 0 \<le> h \<and> h < 8 \<and> 0 \<le> l \<and> l < 16"
proof -
  assume q: "q \<le> 10"
  have "list_all (\<lambda>h. 0 \<le> h \<and> h < 8) (sb_quality_map sb_wb_mode)" "list_all (\<lambda>l. 0 \<le> l \<and> l < 16) (low_quality_map sb_wb_mode)"
    "length (sb_quality_map sb_wb_mode) = 11" "length (low_quality_map sb_wb_mode) = 11" by (simp_all add: sb_wb_mode_def)
  then show ?thesis using q by (simp add: mem_get_Some list_all_length)
qed

lemma set_quality_total:
  fixes st :: "'e nb_state SBDecState"
  assumes inv: "sb_inv nb_inv 160 sb_wb_mode l k st"
  shows "\<exists>st'. set_quality (speex_nb_mode activity) sb_wb_mode v st = Some st' \<and> sb_inv nb_inv 160 sb_wb_mode l k st'"
proof -
  define q where "q = (let q = (if v < 0 then 0 else v) in if q > 10 then 10 else q)"
  have "nat q \<le> 10" unfolding q_def Let_def by (auto simp: nat_le_iff)
  then obtain h lo where t: "mem_get (sb_quality_map sb_wb_mode) (nat q) = Some h" "mem_get (low_quality_map sb_wb_mode) (nat q) = Some lo"
    "0 \<le> h" "h < 8" "0 \<le> lo" "lo < 16" using quality_tables by blast
  obtain cb nb env where low: "st_low st = (cb, nb, env)" by (cases "st_low st") auto
  have "arg_fits SPEEX_SET_MODE (Number lo :: 'e ctl_arg) nb" using t by (simp add: arg_fits_def number_setters_def request_numbers)
  moreover have "st_low (st\<lparr>submodeID := h\<rparr>) = (cb, nb, env)" using low by simp
  ultimately obtain v' st' where "to_low (speex_nb_mode activity) SPEEX_SET_MODE (Number lo) (st\<lparr>submodeID := h\<rparr>) = Some (Number v', st')"
    "sb_inv nb_inv 160 sb_wb_mode l k st'" using to_low_number [OF sb_inv_update(1) [OF inv t(3,4)]] by blast
  then show ?thesis using t(1,2) unfolding set_quality_def Let_def q_def by simp
qed


lemma sb_bitrate_total:
  assumes "sb_ok n sb_wb_mode st" and "0 < n"
  shows "\<exists>r. sb_bitrate st low = Some r"
proof -
  have "length (sb_submodes sb_wb_mode) = 8" by (simp add: sb_wb_mode_def)
  then show ?thesis using cell_Some [of "submodeID st" "submodes st"] sb_shapeD(1,6-8) [OF assms(1)] assms(2) by (auto simp: sb_bitrate_def)
qed

lemma sb_reset_total:
  assumes "sb_ok n mode st"
  shows "sb_reset_state st = Some (st\<lparr>mem_sp := replicate 16 0, g0_mem := replicate 64 0, g1_mem := replicate 64 0, last_ener := 0\<rparr>)"
  using sb_shapeD(5) [OF assms] sb_buffersD(1,2,6) [OF assms] by (simp add: sb_reset_state_def mem_simps word_block_length)

lemma sb_number_request:
  fixes st :: "'e nb_state SBDecState"
  assumes inv: "sb_inv nb_inv 160 sb_wb_mode l k st" and low: "st_low st = (cb, nb, env)" and fits: "wb_number_fits req v nb"
  shows "\<exists>ret arg' st'. sb_decoder_ctl (speex_nb_mode activity) sb_wb_mode req (Number v :: 'e ctl_arg) st = Some (ret, arg', st') \<and>
    sb_inv nb_inv 160 sb_wb_mode l k st'"
proof -
  note pass = to_low_number [OF inv low, of _ _ activity]
  have later: "\<exists>w st'. to_low (speex_nb_mode activity) r (Number u) (f st) = Some (Number w, st') \<and> sb_inv nb_inv 160 sb_wb_mode l k st'"
    if "arg_fits r (Number u :: 'e ctl_arg) nb" "sb_inv nb_inv 160 sb_wb_mode l k (f st)" "st_low (f st) = st_low st" for r u f
    using to_low_number [OF that(2) _ that(1), of cb env activity] that(3) low by simp
  consider "req \<in> sb_number_setters" | "req \<in> sb_number_getters" | "req \<notin> sb_number_setters" "req \<notin> sb_number_getters" by blast
  then show ?thesis
  proof cases
    case 1
    have "\<exists>st'. sb_set_number (speex_nb_mode activity) sb_wb_mode req v st = Some st' \<and> sb_inv nb_inv 160 sb_wb_mode l k st'"
      using 1 unfolding sb_number_setters_def
    proof (elim insertE emptyE)
      assume r: "req = SPEEX_SET_HIGH_MODE"
      then show ?thesis using fits sb_inv_update(1) [OF inv] by (simp add: sb_set_number_def wb_number_fits_def)
    next
      assume r: "req = SPEEX_SET_ENH"
      have "arg_fits req (Number v :: 'e ctl_arg) nb" using r by (simp add: arg_fits_def number_setters_def request_numbers)
      from pass [OF this] show ?thesis using r sb_inv_update(2) by (fastforce simp: sb_set_number_def sb_request_sets)
    next
      assume r: "req = SPEEX_SET_MODE"
      then show ?thesis using set_quality_total [OF inv] by (simp add: sb_set_number_def sb_request_sets)
    next
      assume r: "req = SPEEX_SET_QUALITY"
      then show ?thesis using set_quality_total [OF inv] by (simp add: sb_set_number_def sb_request_sets)
    next
      assume r: "req = SPEEX_SET_SAMPLING_RATE"
      have "arg_fits req (Number (asr v 1) :: 'e ctl_arg) nb" using r by (simp add: arg_fits_def number_setters_def request_numbers)
      from later [OF this, of "\<lambda>st. st\<lparr>sampling_rate := v\<rparr>"] show ?thesis using r sb_inv_update(3) [OF inv] by (fastforce simp: sb_set_number_def sb_request_sets)
    next
      assume r: "req = SPEEX_SET_SUBMODE_ENCODING"
      have "arg_fits req (Number v :: 'e ctl_arg) nb" using r by (simp add: arg_fits_def number_setters_def request_numbers)
      from later [OF this, of "\<lambda>st. st\<lparr>encode_submode := v\<rparr>"] show ?thesis using r sb_inv_update(4) [OF inv] by (fastforce simp: sb_set_number_def sb_request_sets)
    qed
    then show ?thesis using 1 by (auto simp: sb_decoder_ctl_def number_of_def)
  next
    case 2
    then have n1: "req \<notin> sb_number_setters" by (auto simp: sb_request_sets)
    have "\<exists>r st'. sb_get_number (speex_nb_mode activity) req v st = Some (r, st') \<and> sb_inv nb_inv 160 sb_wb_mode l k st'"
    proof (cases "req \<in> {SPEEX_GET_BITRATE, SPEEX_GET_LOOKAHEAD}")
      case True
      then have "arg_fits req (Number v :: 'e ctl_arg) nb" by (auto simp: arg_fits_def number_setters_def number_getters_def request_numbers)
      from pass [OF this] obtain w st' where w: "to_low (speex_nb_mode activity) req (Number v) st = Some (Number w, st')" "sb_inv nb_inv 160 sb_wb_mode l k st'"
        by blast
      obtain r where "sb_bitrate st' w = Some r" using sb_bitrate_total [of 160 st' w] w(2) by (auto simp: sb_inv_def)
      then show ?thesis using True w by (auto simp: sb_get_number_def sb_request_sets number_of_def)
    next
      case False
      then show ?thesis using 2 inv unfolding sb_number_getters_def by (elim insertE) (simp_all add: sb_get_number_def sb_request_sets)
    qed
    then show ?thesis using 2 n1 by (auto simp: sb_decoder_ctl_def number_of_def)
  next
    case 3
    then have mem: "req \<in> {SPEEX_SET_LOW_MODE, SPEEX_GET_LOW_MODE, SPEEX_SET_HIGHPASS, SPEEX_GET_HIGHPASS, SPEEX_GET_ACTIVITY,
        SPEEX_GET_DTX_STATUS, SPEEX_SET_WIDEBAND}" using fits by (simp only: wb_number_fits_def Un_iff simp_thms)
    then have "req \<in> low_requests" "req \<in> number_setters \<union> number_getters" "req \<noteq> SPEEX_SET_MODE"
      by (elim insertE; simp add: low_requests_def number_setters_def number_getters_def request_numbers)+
    moreover from this(2,3) have "arg_fits req (Number v :: 'e ctl_arg) nb" using fits by (simp add: wb_number_fits_def arg_fits_def)
    ultimately show ?thesis using pass [of req v] 3 by (auto simp: sb_decoder_ctl_def)
  qed
qed


text \<open>
  C15. The reset request clears the filters of the high band and the filter bank, and nothing else: the narrowband decoder inside, the
  excitation that the next subframe is filtered from, and the line spectral pairs of the last frame are kept.
\<close>

theorem wideband_reset_keeps_low_band:
  assumes "sb_ok n mode st"
  shows "\<exists>st'. sb_decoder_ctl m mode SPEEX_RESET_STATE Stack st = Some (0, Stack, st') \<and>
    mem_sp st' = replicate 16 0 \<and> g0_mem st' = replicate 64 0 \<and> g1_mem st' = replicate 64 0 \<and> last_ener st' = 0 \<and>
    st_low st' = st_low st \<and> excBuf st' = excBuf st \<and> old_qlsp st' = old_qlsp st \<and> interp_qlpc st' = interp_qlpc st \<and> first st' = first st"
  using sb_reset_total [OF assms] by (simp add: sb_ctl)

subsection \<open>The layer in the packet\<close>

lemma peek_next:
  assumes "reader_wf b" and "remaining b = f # rest"
  shows "\<exists>w. speex_bits_peek b = Some (w, b) \<and> (w \<noteq> 0 \<longleftrightarrow> f)"
proof -
  have "0 < speex_bits_remaining b" using remaining_count [OF assms(1)] assms(2) by simp
  then have o: "\<not> overflow b" "int (position b) < nbBits b" by (auto simp: speex_bits_remaining_def position_def split: if_splits)
  have wf: "nbBits b \<le> 8 * int (length (chars b))" "bitPtr b < 8" using assms(1) by (simp_all add: reader_wf_def)
  then have "charPtr b < length (chars b)" using o(2) unfolding position_def by linarith
  moreover have "buf_bits (chars b) ! (8 * charPtr b + bitPtr b) = f"
  proof -
    have "position b < length (take (nat (nbBits b)) (buf_bits (chars b)))"
      using assms(2) unfolding remaining_def by (metis drop_all leI list.distinct(1))
    then have "take (nat (nbBits b)) (buf_bits (chars b)) ! position b = f"
      using assms(2) unfolding remaining_def by (metis Cons_nth_drop_Suc list.inject)
    then show ?thesis using o(2) by (simp add: position_def nat_less_iff zless_nat_eq_int_zless)
  qed
  ultimately have "next_bit (chars b) (charPtr b) (bitPtr b) = Some (of_bool f)" using next_bit_eq [of "bitPtr b" "charPtr b" "chars b"] wf(2) by simp
  moreover have "check_overflow b 1 = b" using o by (simp add: check_overflow_def past_end_def position_def)
  ultimately show ?thesis using o(1) by (simp add: speex_bits_peek_def Let_def)
qed

lemma no_layer:
  assumes wf: "reader_wf b" and b: "remaining b = [] \<or> (\<exists>rest. remaining b = False # rest)"
    and st: "encode_submode st \<noteq> 0" "length (submodes st) = 8"
  shows "read_layer st b = Some (None, st\<lparr>submodeID := 0\<rparr>, b)"
proof -
  have "(if speex_bits_remaining b > 0 then speex_bits_peek b else Some (0, b)) = Some (0, b)"
    using b
  proof
    assume "remaining b = []"
    then show ?thesis using remaining_count [OF wf] by simp
  next
    assume "\<exists>rest. remaining b = False # rest"
    then show ?thesis using peek_next [OF wf] remaining_count [OF wf] by fastforce
  qed
  then show ?thesis using st by (simp add: read_layer_def mem_simps)
qed

lemma layer_read:
  assumes wf: "reader_wf b" and st: "encode_submode st \<noteq> 0" "length (submodes st) = 8" and b: "remaining b = True # msb_bits 3 l @ rest" and l: "l < 8"
  shows "\<exists>b'. read_layer st b = Some (if l \<noteq> 0 \<and> submodes st ! unat l = None then Some (-2) else None, st\<lparr>submodeID := int (unat l)\<rparr>, b') \<and>
    reader_wf b' \<and> remaining b' = rest"
proof -
  have "0 < speex_bits_remaining b" using remaining_count [OF wf] b by simp
  then obtain w where w: "(if speex_bits_remaining b > 0 then speex_bits_peek b else Some (0, b)) = Some (w, b)" "w \<noteq> 0" using peek_next [OF wf b] by auto
  obtain b1 where 1: "speex_bits_unpack_unsigned b 1 = Some (1, b1)" "reader_wf b1" "remaining b1 = msb_bits 3 l @ rest" using take_flag [OF wf b] by auto
  have l8: "unat l < 8" using l by (simp add: word_less_nat_alt)
  obtain b2 where 2: "speex_bits_unpack_unsigned b1 3 = Some (l, b2)" "reader_wf b2" "remaining b2 = rest"
    using take_number [OF 1(2,3)] l8 by auto
  have g: "mem_get (submodes st) (unat l) = Some (submodes st ! unat l)" using st(2) l8 by (simp add: mem_simps)
  have "read_layer st b = Some (if l \<noteq> 0 \<and> submodes st ! unat l = None then Some (-2) else None, st\<lparr>submodeID := int (unat l)\<rparr>, b2)"
    using st(1) w(2) by (simp only: read_layer_def w(1) 1(1) 2(1) g Option.bind.bind_lunit prod.case not_False_eq_True if_True)
  then show ?thesis using 2(2,3) by blast
qed

text \<open>
  The decoder reads the layer that follows a narrowband frame: without one, at the end of the packet or before another frame, it takes the
  null submode and nothing from the packet; a layer gives its submode, and four bits are taken; a submode that the mode does not have is
  answered with -2.
\<close>

theorem layer_is_read:
  assumes "reader_wf b" and "encode_submode st \<noteq> 0" and "length (submodes st) = 8"
  shows "(remaining b = [] \<or> (\<exists>rest. remaining b = False # rest) \<longrightarrow> read_layer st b = Some (None, st\<lparr>submodeID := 0\<rparr>, b)) \<and>
    (\<forall>l < 8. \<forall>rest. remaining b = True # msb_bits 3 l @ rest \<longrightarrow>
      (\<exists>b'. read_layer st b = Some (if l \<noteq> 0 \<and> submodes st ! unat l = None then Some (-2) else None, st\<lparr>submodeID := int (unat l)\<rparr>, b') \<and>
        reader_wf b' \<and> remaining b' = rest))"
  using no_layer [OF assms(1) _ assms(2,3)] layer_read [OF assms] by simp

subsection \<open>How much a layer takes\<close>

text \<open>Whether the response ratios of a frame are different from zero, from the line spectral pairs that are next in the packet.\<close>

definition frame_edges :: "SpeexSubmode \<Rightarrow> low_band \<Rightarrow> 'l SBDecState \<Rightarrow> speex_bits \<Rightarrow> bool" where
  "frame_edges sm low st b =
     (case lsp_unquant sm (lpcSize st) b of
        None \<Rightarrow> True
      | Some (ql, b) \<Rightarrow> edges_ok (if first st then st\<lparr>old_qlsp := ql\<rparr> else st) ql (low_pi_gain low))"

lemma layer_widths:
  "high_layer.layer_bits wb_submode1 12 0 = 36 - 4" "high_layer.layer_bits wb_submode2 12 20 = 112 - 4"
  "high_layer.layer_bits wb_submode3 12 40 = 192 - 4" "high_layer.layer_bits wb_submode4 12 40 = 352 - 4"
  unfolding wb1.layer_bits_def wb2.layer_bits_def wb3.layer_bits_def wb4.layer_bits_def
    wb1.subframe_bits_def wb2.subframe_bits_def wb3.subframe_bits_def wb4.subframe_bits_def
  by (simp_all add: wb_submodes)

lemma layer_of_mode:
  assumes "n = 160 \<and> mode = sb_wb_mode \<or> n = 320 \<and> mode = sb_uwb_mode" and "Some sm \<in> set (sb_submodes mode)"
  shows "\<exists>wl wi. high_layer sm n wl wi \<and> high_layer.layer_bits sm wl wi = bits_per_frame sm - 4"
proof -
  have b: "bits_per_frame wb_submode1 = 36" "bits_per_frame wb_submode2 = 112" "bits_per_frame wb_submode3 = 192" "bits_per_frame wb_submode4 = 352"
    by (simp_all add: wb_submodes)
  from assms have "n = 160 \<and> (sm = wb_submode1 \<or> sm = wb_submode2 \<or> sm = wb_submode3 \<or> sm = wb_submode4) \<or> n = 320 \<and> sm = wb_submode1"
    by (auto simp: sb_wb_mode_def sb_uwb_mode_def)
  then show ?thesis using wb1.high_layer_axioms wb2.high_layer_axioms wb3.high_layer_axioms wb4.high_layer_axioms uwb1.high_layer_axioms
    by (metis b layer_widths)
qed



subsection \<open>Packets and losses\<close>

text \<open>
  C5. A wideband decoder answers every packet, with 320 samples or a code, and every loss, with 320 samples, without leaving its buffers or
  those of the narrowband decoder in it, and both stay in order, whatever the packet holds; only a packet with a layer whose response ratios round to
  zero is undefined, by a division, and \<open>sb_fails\<close> computes which packets those are.
\<close>

theorem wideband_decoder_safe:
  assumes "sb_inv nb_inv 160 sb_wb_mode l k st" and "length out = 320" and "k < 2147483647"
  shows "(\<forall>b. rd_ok b \<longrightarrow> \<not> sb_fails (speex_nb_mode activity) never st b out \<longrightarrow>
      (\<exists>ret out' st' b'. sb_decode (speex_nb_mode activity) sb_wb_mode st (Some b) out = Some (ret, out', st', Some b') \<and> rd_ok b' \<and>
         sb_inv nb_inv 160 sb_wb_mode l k st' \<and> (ret = 0 \<longrightarrow> samples 320 out'))) \<and>
    (\<exists>out' st'. sb_decode (speex_nb_mode activity) sb_wb_mode st None out = Some (0, out', st', None) \<and> samples 320 out' \<and>
       sb_inv nb_inv 160 sb_wb_mode l (k + 1) st')"
  using wide.sb_decode_packet [of l k st _ out activity] wide.sb_decode_loss [of l k st out activity] assms by simp

text \<open>The same for the ultra-wideband decoder, on top of a wideband one, and 640 samples.\<close>

theorem ultra_wideband_decoder_safe:
  fixes activity :: "int \<Rightarrow> int \<Rightarrow> int"
  defines "wb \<equiv> speex_wb_mode (speex_nb_mode activity) sb_wb_mode" and "wb_fails \<equiv> sb_fails (speex_nb_mode activity) never"
  assumes "sb_inv (sb_inv nb_inv 160 sb_wb_mode) 320 sb_uwb_mode l k st" and "length out = 640" and "k < 2147483647"
  shows "(\<forall>b. rd_ok b \<longrightarrow> \<not> sb_fails wb wb_fails st b out \<longrightarrow>
      (\<exists>ret out' st' b'. sb_decode wb sb_uwb_mode st (Some b) out = Some (ret, out', st', Some b') \<and> rd_ok b' \<and>
         sb_inv (sb_inv nb_inv 160 sb_wb_mode) 320 sb_uwb_mode l k st' \<and> (ret = 0 \<longrightarrow> samples 640 out'))) \<and>
    (\<exists>out' st'. sb_decode wb sb_uwb_mode st None out = Some (0, out', st', None) \<and> samples 640 out' \<and>
       sb_inv (sb_inv nb_inv 160 sb_wb_mode) 320 sb_uwb_mode l (k + 1) st')"
  using ultra.sb_decode_packet [of l k st _ out activity] ultra.sb_decode_loss [of l k st out activity] assms(3-5)
  unfolding wb_def wb_fails_def by simp

subsection \<open>A whole packet\<close>

text \<open>The low band of a packet that starts with a narrowband frame.\<close>

lemma low_frame:
  assumes inv: "nb_inv False k (cb, nb, env)" and enc: "DecState.encode_submode nb \<noteq> 0" and wf: "reader_wf b" and b: "remaining b = nb_start m @ body @ rest"
    and m: "unat m \<le> 8" "length body = frame_sizes ! unat m - 5" and len: "length out = 320"
  shows "\<exists>lo hi dtx low b1. decode_low (speex_nb_mode activity) 160 (cb, nb, env) (Some b) out = Some (0, lo, hi, dtx, low, Some b1) \<and> samples 160 lo \<and>
    160 \<le> length hi \<and> nb_inv True k low \<and> reader_wf b1 \<and> remaining b1 = rest \<and>
    (\<exists>nb2. low = (cb, nb2, env) \<and>
       nb_decode cb (nb\<lparr>DecState.innov_save := Some (drop 160 out)\<rparr>, env) (Some b) = Some (0, Some lo, (nb2, env), Some b1))"
proof -
  define nb1 where "nb1 = nb\<lparr>DecState.innov_save := Some (drop 160 out)\<rparr>"
  have ok: "dec_ok nb1" using inv len unfolding nb1_def by (intro dec_ok_update(6)) (simp_all add: nb_inv_def dec_lost_def)
  have lend: "speex_decoder_ctl (speex_nb_mode activity) SPEEX_SET_INNOVATION_SAVE (Block (Some (drop 160 out))) (cb, nb, env) =
      Some (0, Block (Some (drop 160 out)), (cb, nb1, env))" by (simp add: speex_decoder_ctl_def speex_nb_mode_def nb_request_sets nb1_def)
  have e: "remaining b = concat (map wb_layer []) @ nb_start m @ body @ rest" using b by simp
  obtain b1 where 1: "nb_scan cb b (nb1, env) = Some (Frame (unat m), b1, nb1, env)" "reader_wf b1" "remaining b1 = body @ rest"
    using nb_scan_frame [OF wf e _ _ m(1), of cb "(nb1, env)"] by auto
  have "DecState.encode_submode nb1 \<noteq> 0" using enc by (simp add: nb1_def)
  then obtain x st' b2 where 2: "nb_decode cb (nb1, env) (Some b) = Some (0, Some x, (st', env), Some b2)" "samples 160 x" "reader_wf b2" "remaining b2 = rest"
    using nb_decode_of_scan [OF 1(1,2) ok _ m(1)] 1(3) m(2) by auto
  have "mem_write (take 160 out) 0 x = Some x" using 2(2) len by (simp add: mem_simps samples_length)
  then have dec: "speex_decode_native (speex_nb_mode activity) (cb, nb1, env) (Some b) (take 160 out) = Some (0, x, (cb, st', env), Some b2)"
    using 2(1) by (simp add: speex_decode_native_def speex_nb_mode_def)
  have "\<not> low_decoder.low_fails (speex_nb_mode activity) 160 never (cb, nb, env) b out"
    by (simp add: narrow.low_fails_def never_def split: option.splits)
  moreover have "length out = 2 * 160" "rd_ok b" using len wf by (simp_all add: rd_ok_def)
  ultimately obtain ret lo hi dtx low b' where
    d: "decode_low (speex_nb_mode activity) 160 (cb, nb, env) (Some b) out = Some (ret, lo, hi, dtx, low, Some b')" "nb_inv True k low" "160 \<le> length hi"
    using narrow.decode_low_packet [OF inv, of b out activity] by blast
  have dtx: "speex_decoder_ctl (speex_nb_mode activity) SPEEX_GET_DTX_STATUS (Number 0) (cb, st', env) = Some (0, Number (of_bool (dtx_enabled st')), (cb, st', env))"
    by (simp add: speex_decoder_ctl_def speex_nb_mode_def nb_request_sets get_number_def)
  from d(1) have "ret = 0" "lo = x" "b' = b2" "low = (cb, st', env)"
    by (auto simp: decode_low_def lend dec dtx split: Option.bind_splits)
  then show ?thesis using d 2 nb1_def by blast
qed

text \<open>
  C8. A narrowband packet is never undefined for a wideband decoder: when the frame of the low band is followed by the end of the packet or by
  another frame, the decoder takes the narrowband frame, and nothing more, and answers with 320 samples.
\<close>

theorem narrowband_packet_in_wideband:
  assumes inv: "sb_inv nb_inv 160 sb_wb_mode l k st" and low: "st_low st = (cb, nb, env)" and enc: "encode_submode st \<noteq> 0" "DecState.encode_submode nb \<noteq> 0"
    and wf: "reader_wf b" and b: "remaining b = nb_start m @ body @ rest" and rest: "rest = [] \<or> hd rest = False"
    and m: "unat m \<le> 8" "length body = frame_sizes ! unat m - 5" and len: "length out = 320"
  shows "\<exists>out' st' b'. sb_decode (speex_nb_mode activity) sb_wb_mode st (Some b) out = Some (0, out', st', Some b') \<and> samples 320 out' \<and>
    sb_inv nb_inv 160 sb_wb_mode l k st' \<and> submodeID st' = 0 \<and> reader_wf b' \<and> remaining b' = rest"
proof -
  have ok: "sb_ok 160 sb_wb_mode st" and nb: "nb_inv False k (cb, nb, env)" and lent: "l \<longrightarrow> innov_save st \<noteq> None" using inv low by (simp_all add: sb_inv_def)
  obtain lo hi dtx low1 b1 where 1: "decode_low (speex_nb_mode activity) 160 (cb, nb, env) (Some b) out = Some (0, lo, hi, dtx, low1, Some b1)"
    "samples 160 lo" "nb_inv True k low1" "reader_wf b1" "remaining b1 = rest" using low_frame [OF nb enc(2) wf b m len, of activity] by blast
  have subs: "submodes st = sb_submodes sb_wb_mode" "length (submodes st) = 8" "submodes st ! 0 = None"
    using sb_shapeD(6) [OF ok] by (simp_all add: sb_wb_mode_def)
  define st2 where "st2 = st\<lparr>st_low := low1, submodeID := 0\<rparr>"
  have ok2: "sb_ok 160 sb_wb_mode st2" unfolding st2_def by (intro sb_ok_update(11,14) ok) simp_all
  have "rest = [] \<or> (\<exists>r. rest = False # r)" using rest by (cases rest) auto
  then have r: "read_layer (st\<lparr>st_low := low1\<rparr>) b1 = Some (None, st2, b1)"
    using no_layer [OF 1(4), of "st\<lparr>st_low := low1\<rparr>"] 1(5) enc(1) subs(2) by (simp add: st2_def)
  have c: "cell (submodes st2) (submodeID st2) = Some None" using subs(2,3) cell_Some [of 0 "submodes st"] by (simp add: st2_def)
  obtain x st3 where n: "sb_null_frame st2 lo dtx = Some (x, st3)" "samples 320 x" "sb_ok 160 sb_wb_mode st3" "high_only st2 st3"
    using sb_null_frame_total [OF ok2 _ 1(2), of dtx] by auto
  have "sb_decode (speex_nb_mode activity) sb_wb_mode st (Some b) out = Some (0, x, st3, Some b1)"
    by (simp add: sb_decode_def sb_shapeD(2) [OF ok] low 1(1) r c n(1))
  moreover have "sb_inv nb_inv 160 sb_wb_mode l k st3" "submodeID st3 = 0"
    using n(3,4) narrow.forget [OF 1(3)] lent by (simp_all add: sb_inv_def high_only_def st2_def)
  ultimately show ?thesis using n(2) 1(4,5) by blast
qed

lemma wide_layer:
  assumes "layer_ok (i, layer)" and "submodes st = sb_submodes sb_wb_mode"
  shows "i < 8 \<and> i \<noteq> 0 \<and> length (submodes st) = 8 \<and>
    (\<exists>sm. submodes st ! unat i = Some sm \<and> Some sm \<in> set (sb_submodes sb_wb_mode) \<and> length layer = bits_per_frame sm - 4)"
proof -
  have "i \<in> {1, 2, 3, 4}" and l: "length layer + 4 = nat (wb_skip_table ! unat i)" using assms(1) by (auto simp: layer_ok_def)
  then show ?thesis unfolding assms(2) using l
    by (elim insertE) (simp_all add: sb_wb_mode_def wb_skip_table_def wb_submodes)
qed


subsection \<open>Examples\<close>

text \<open>A null frame leaves the gains of the filters as they are.\<close>

lemma null_frame_gains:
  assumes "nb_scan cb b (st, env) = Some (Frame 0, b1, st, env)" and "dec_ok st" and "DecState.encode_submode st \<noteq> 0"
    and "nb_decode cb (st, env) (Some b) = Some (ret, x, (st', env'), b')"
  shows "DecState.pi_gain st' = DecState.pi_gain st"
proof -
  have "length (DecState.submodes st) = 16" "DecState.submodes st ! 0 = None" using dec_shapeD(8) [OF assms(2)] by (simp_all add: nb_mode_def)
  then have "cell (DecState.submodes st) 0 = Some None" using cell_Some [of 0 "DecState.submodes st"] by simp
  then show ?thesis using assms(1,3,4)
    by (auto simp: nb_decode_def nb_decode_frame_def shift_exc_def nb_null_frame_def Let_def split: Option.bind_splits prod.splits)
qed

lemma high_pairs:
  assumes "reader_wf b" and "remaining b = replicate 12 False @ rest"
  shows "\<exists>b'. lsp_unquant_high 8 b = Some ([6816, 8096, 10912, 13040, 15296, 16768, 18464, 22000], b')"
proof -
  have "remaining b = msb_bits 6 0 @ msb_bits 6 0 @ rest" using assms(2) by (simp add: msb_bits_def upt_rec numeral_nat)
  then obtain b1 where 1: "speex_bits_unpack_unsigned b 6 = Some (0, b1)" "reader_wf b1" "remaining b1 = msb_bits 6 0 @ rest"
    using take_number [OF assms(1), of 6 0] by auto
  obtain b2 where 2: "speex_bits_unpack_unsigned b1 6 = Some (0, b2)" using take_number [OF 1(2,3)] by auto
  define c where "c = packet_of (replicate 30 0)"
  have "\<exists>c1. speex_bits_unpack_unsigned c 6 = Some (0, c1) \<and> (\<exists>c2. speex_bits_unpack_unsigned c1 6 = Some (0, c2))"
  proof -
    have "reader_wf c" "remaining c = msb_bits 6 0 @ msb_bits 6 0 @ replicate 228 False"
      unfolding c_def using packet_of_wf by (blast, code_simp)
    then show ?thesis using take_number [of c 6 0] take_number [of _ 6 0 "replicate 228 False"] by fastforce
  qed
  then obtain c1 c2 where 3: "speex_bits_unpack_unsigned c 6 = Some (0, c1)" "speex_bits_unpack_unsigned c1 6 = Some (0, c2)" by blast
  have "map_option fst (lsp_unquant_high 8 b) = map_option fst (lsp_unquant_high 8 c)"
    by (simp add: lsp_unquant_high_def unquant_stage_def 1 2 3 Let_def option.map_comp comp_def map_option_case split: Option.bind_splits option.splits)
  moreover have "map_option fst (lsp_unquant_high 8 c) = Some [6816, 8096, 10912, 13040, 15296, 16768, 18464, 22000]" unfolding c_def by code_simp
  ultimately show ?thesis by auto
qed

definition flat_pairs :: "int list" where
  "flat_pairs = [6816, 8096, 10912, 13040, 15296, 16768, 18464, 22000]"

lemma flat_filter:
  "list_all (\<lambda>sub. lsp_interpolate flat_pairs flat_pairs 8 sub 4 = Some flat_pairs) [0..<4]"
  "lsp_enforce_margin flat_pairs 8 410 = Some flat_pairs"
  "lsp_to_lpc flat_pairs 8 = Some [6891, 12769, 9401, 11064, 8707, 6404, 3951, 1523]"
  by code_simp+

lemma flat_ratio: "case filter_ratio 0 (low_edge [6891, 12769, 9401, 11064, 8707, 6404, 3951, 1523] 8) of None \<Rightarrow> False | Some r \<Rightarrow> r \<noteq> 0"
  by code_simp

lemma flat_edges:
  assumes "lpcSize st = 8" and "nbSubframes st = 4" and "old_qlsp st = flat_pairs"
  shows "edges_ok st flat_pairs [0, 0, 0, 0]"
proof -
  have "edge_ratio st flat_pairs [0, 0, 0, 0] sub = filter_ratio 0 (low_edge [6891, 12769, 9401, 11064, 8707, 6404, 3951, 1523] 8)" if "sub < 4" for sub
  proof -
    have "lsp_interpolate flat_pairs flat_pairs 8 sub 4 = Some flat_pairs" using flat_filter(1) that by (simp add: list_all_iff)
    moreover have "mem_get [0, 0, 0, 0 :: int] sub = Some 0"
      using that nth_replicate [of sub 4 "0 :: int"] by (simp add: mem_get_def eval_nat_numeral)
    ultimately show ?thesis using flat_filter(2,3) by (simp add: edge_ratio_def sb_filter_def assms)
  qed
  then show ?thesis using flat_ratio by (auto simp: edges_ok_def list_all_iff split: option.splits)
qed


text \<open>A null frame of the low band and a layer of submode 1, all zero.\<close>

definition flat_packet :: speex_bits where
  "flat_packet = packet_of [0x04, 0x80, 0, 0, 0, 0]"

lemma flat_packet_bits:
  "reader_wf flat_packet" "remaining flat_packet = nb_start 0 @ [] @ wb_layer (1, replicate 32 False) @ replicate 7 False"
  by (simp add: flat_packet_def packet_of_wf, code_simp)

lemma flat_packet_decoded:
  assumes inv: "sb_inv nb_inv 160 sb_wb_mode l k st" and low: "st_low st = (cb, nb, env)" and enc: "encode_submode st \<noteq> 0" "DecState.encode_submode nb \<noteq> 0"
    and new: "first st" "DecState.pi_gain nb = [0, 0, 0, 0]" and len: "length out = 320"
  shows "\<not> sb_fails (speex_nb_mode activity) never st flat_packet out"
proof -
  have ok: "sb_ok 160 sb_wb_mode st" and nb: "nb_inv False k (cb, nb, env)" using inv low by (simp_all add: sb_inv_def)
  have z: "unat (0 :: u32) \<le> 8" "length ([] :: bool list) = frame_sizes ! unat (0 :: u32) - 5" by (simp_all add: frame_sizes_def)
  let ?nb = "nb\<lparr>DecState.innov_save := Some (drop 160 out)\<rparr>"
  obtain lo hi dtx low1 b1 nb2 where 1: "decode_low (speex_nb_mode activity) 160 (cb, nb, env) (Some flat_packet) out = Some (0, lo, hi, dtx, low1, Some b1)"
    "nb_inv True k low1" "reader_wf b1" "remaining b1 = wb_layer (1, replicate 32 False) @ replicate 7 False" "low1 = (cb, nb2, env)"
    "nb_decode cb (?nb, env) (Some flat_packet) = Some (0, Some lo, (nb2, env), Some b1)"
    using low_frame [OF nb enc(2) flat_packet_bits(1,2) z len, of activity] by blast
  have e: "remaining flat_packet = concat (map wb_layer []) @ nb_start 0 @ wb_layer (1, replicate 32 False) @ replicate 7 False"
    using flat_packet_bits(2) by simp
  obtain b0 where "nb_scan cb flat_packet (?nb, env) = Some (Frame 0, b0, ?nb, env)"
    using nb_scan_frame [OF flat_packet_bits(1) e, of cb "(?nb, env)"] by auto
  moreover have "dec_ok ?nb" using nb len by (intro dec_ok_update(6)) (simp_all add: nb_inv_def dec_lost_def)
  ultimately have gain: "DecState.pi_gain nb2 = [0, 0, 0, 0]" using null_frame_gains [OF _ _ _ 1(6)] new(2) enc(2) by simp
  define st2 where "st2 = st\<lparr>st_low := low1, submodeID := 1\<rparr>"
  have ok2: "sb_ok 160 sb_wb_mode st2" unfolding st2_def by (intro sb_ok_update(11,14) ok) simp_all
  have s: "submodes st = sb_submodes sb_wb_mode" by (rule sb_shapeD(6) [OF ok])
  then have s1: "length (submodes st) = 8" "submodes st ! 1 = Some wb_submode1" by (simp_all add: sb_wb_mode_def)
  have "remaining b1 = True # msb_bits 3 1 @ replicate 12 False @ replicate 27 False" using 1(4) by (simp add: wb_layer_def flip: replicate_add)
  then obtain b2 where r: "read_layer (st\<lparr>st_low := low1\<rparr>) b1 = Some (None, st2, b2)" "reader_wf b2" "remaining b2 = replicate 12 False @ replicate 27 False"
    using layer_read [OF 1(3), of "st\<lparr>st_low := low1\<rparr>" 1] enc(1) s1 by (auto simp: st2_def)
  have c: "cell (submodes st2) (submodeID st2) = Some (Some wb_submode1)" using s1 cell_Some [of 1 "submodes st"] by (simp add: st2_def)
  obtain b3 where q: "lsp_unquant wb_submode1 8 b2 = Some (flat_pairs, b3)"
    using high_pairs [OF r(2,3)] by (auto simp: wb_submode1_def flat_pairs_def)
  obtain lb w where "ask_low_band (speex_nb_mode activity) 4 hi low1 = Some (lb, w)" using narrow.ask_low_band_total [OF 1(2)] by blast
  then have a: "ask_low_band (speex_nb_mode activity) 4 hi (st_low st2) = Some (lb, w)" by (simp add: st2_def)
  have "low_pi_gain lb = [0, 0, 0, 0]"
    using a gain 1(2,5) by (auto simp: ask_low_band_def st2_def speex_decoder_ctl_def speex_nb_mode_def nb_request_sets get_numbers_def mem_simps numbers_of_def
        nb_inv_def dec_lost_def dec_shapeD(3) split: Option.bind_splits)
  moreover have "edges_ok (st2\<lparr>old_qlsp := flat_pairs\<rparr>) flat_pairs [0, 0, 0, 0]"
    by (rule flat_edges) (simp_all add: sb_shapeD(4,5) [OF ok2])
  moreover have "first st2" using new(1) by (simp add: st2_def)
  ultimately have "layer_edges (speex_nb_mode activity) st flat_packet out = Some True"
    by (simp add: layer_edges_def sb_shapeD(2) [OF ok] low 1(1) require_def r(1) c sb_shapeD(4,5) [OF ok2] a q)
  then show ?thesis by (simp add: sb_fails_def never_def split: option.splits)
qed

lemma replicate_4: "replicate 4 (0 :: int) = [0, 0, 0, 0]"
  by (simp add: eval_nat_numeral)

lemma new_narrowband:
  "DecState.pi_gain (nb_decoder_init nb_mode) = replicate 4 0" "DecState.encode_submode (nb_decoder_init nb_mode) = 1" "min_level (nb_decoder_init nb_mode) = 0"
  by (simp_all only: nb_decoder_init_def Let_def DecState.select_convs) (simp add: nb_mode_def)

lemma new_wideband:
  "\<exists>st nb. wb_decoder_init activity (default_callbacks :: unit callbacks) () = Some st \<and> sb_inv nb_inv 160 sb_wb_mode False 0 st \<and>
    st_low st = (default_callbacks, nb, ()) \<and> encode_submode st = 1 \<and> DecState.encode_submode nb = 1 \<and> first st \<and>
    DecState.pi_gain nb = [0, 0, 0, 0] \<and> min_level nb = 0"
proof -
  obtain st where st: "wb_decoder_init activity (default_callbacks :: unit callbacks) () = Some st" "sb_inv nb_inv 160 sb_wb_mode False 0 st"
    "encode_submode st = 1" "first st" "st_low st = (default_callbacks, (nb_decoder_init nb_mode)\<lparr>isWideband := 1\<rparr>, ())"
    using wb_decoder_init_ok [OF silent.request_handlers_axioms, of activity "()"] by metis
  then show ?thesis using new_narrowband replicate_4 by simp
qed


theorem wideband_reset_keeps_low_band_witness:
  "\<exists>st st'. wb_decoder_init (\<lambda>a b. a - b) (default_callbacks :: unit callbacks) () = Some st \<and>
    sb_decoder_ctl (speex_nb_mode (\<lambda>a b. a - b)) sb_wb_mode SPEEX_RESET_STATE Stack (st\<lparr>excBuf := replicate 40 7\<rparr>) = Some (0, Stack, st') \<and>
    st_low st' = st_low st \<and> excBuf st' = replicate 40 7"
proof -
  obtain st where st: "wb_decoder_init (\<lambda>a b. a - b) (default_callbacks :: unit callbacks) () = Some st" "sb_inv nb_inv 160 sb_wb_mode False 0 st"
    using new_wideband by blast
  have "sb_ok 160 sb_wb_mode (st\<lparr>excBuf := replicate 40 7\<rparr>)"
    by (rule sb_ok_update(3)) (use st(2) in \<open>simp_all add: sb_inv_def samples_def is_i16_def\<close>)
  from wideband_reset_keeps_low_band [OF this, of "speex_nb_mode (\<lambda>a b. a - b)"] show ?thesis using st(1) by auto
qed

theorem layer_is_read_witness:
  "\<exists>st b'. wb_decoder_init (\<lambda>a b. a - b) (default_callbacks :: unit callbacks) () = Some st \<and>
    read_layer st (packet_of []) = Some (None, st\<lparr>submodeID := 0\<rparr>, packet_of []) \<and>
    read_layer st (packet_of [0xF5]) = Some (Some (-2), st\<lparr>submodeID := 7\<rparr>, b') \<and> remaining b' = [False, True, False, True]"
proof -
  obtain st where st: "wb_decoder_init (\<lambda>a b. a - b) (default_callbacks :: unit callbacks) () = Some st" "sb_inv nb_inv 160 sb_wb_mode False 0 st"
    "encode_submode st = 1" using new_wideband by blast
  have "submodes st = sb_submodes sb_wb_mode" using st(2) sb_shapeD(6) [of 160 sb_wb_mode st] by (simp add: sb_inv_def)
  then have s: "encode_submode st \<noteq> 0" "length (submodes st) = 8" "submodes st ! 7 = None" using st(3) by (simp_all add: sb_wb_mode_def)
  have e: "remaining (packet_of []) = []" by (simp add: remaining_def packet_of_def buf_bits_def)
  have p: "remaining (packet_of [0xF5]) = True # msb_bits 3 7 @ [False, True, False, True]" by code_simp
  note r = layer_is_read [OF packet_of_wf s(1,2)]
  have "read_layer st (packet_of []) = Some (None, st\<lparr>submodeID := 0\<rparr>, packet_of [])" using r [of "[]"] e by simp
  moreover have "\<exists>b'. read_layer st (packet_of [0xF5]) = Some (if (7 :: u32) \<noteq> 0 \<and> submodes st ! unat (7 :: u32) = None then Some (-2) else None,
      st\<lparr>submodeID := int (unat (7 :: u32))\<rparr>, b') \<and> reader_wf b' \<and> remaining b' = [False, True, False, True]"
    by (rule r [of "[0xF5]", THEN conjunct2, rule_format, OF _ p]) simp
  moreover have "unat (7 :: u32) = 7" by simp
  ultimately show ?thesis using st(1) s(3) by auto
qed


theorem wideband_decoder_safe_witness:
  "\<exists>st ret x st' b' y st''. wb_decoder_init (\<lambda>a b. a - b) (default_callbacks :: unit callbacks) () = Some st \<and>
    sb_decode (speex_nb_mode (\<lambda>a b. a - b)) sb_wb_mode st (Some flat_packet) (replicate 320 0) = Some (ret, x, st', Some b') \<and>
    sb_inv nb_inv 160 sb_wb_mode False 0 st' \<and>
    sb_decode (speex_nb_mode (\<lambda>a b. a - b)) sb_wb_mode st None (replicate 320 0) = Some (0, y, st'', None) \<and> samples 320 y"
proof -
  obtain st nb where st: "wb_decoder_init (\<lambda>a b. a - b) (default_callbacks :: unit callbacks) () = Some st" "sb_inv nb_inv 160 sb_wb_mode False 0 st"
    "st_low st = (default_callbacks, nb, ())" "encode_submode st = 1" "DecState.encode_submode nb = 1" "first st" "DecState.pi_gain nb = [0, 0, 0, 0]"
    using new_wideband by metis
  have "\<not> sb_fails (speex_nb_mode (\<lambda>a b. a - b)) never st flat_packet (replicate 320 0)"
    by (rule flat_packet_decoded [OF st(2,3) _ _ st(6,7)]) (simp_all add: st(4,5))
  moreover have "rd_ok flat_packet" using flat_packet_bits(1) by (simp add: rd_ok_def)
  ultimately show ?thesis
    using wideband_decoder_safe [OF st(2), of "replicate 320 0" "\<lambda>a b. a - b"] st(1) by (simp, metis)
qed


definition narrow_packet :: speex_bits where
  "narrow_packet = packet_of [0x40, 0, 0, 0, 0, 0, 0, 0, 0, 0]"

theorem narrowband_packet_in_wideband_witness:
  "\<exists>st x st' b'. wb_decoder_init (\<lambda>a b. a - b) (default_callbacks :: unit callbacks) () = Some st \<and>
    sb_decode (speex_nb_mode (\<lambda>a b. a - b)) sb_wb_mode st (Some narrow_packet) (replicate 320 0) = Some (0, x, st', Some b') \<and>
    samples 320 x \<and> submodeID st' = 0 \<and> remaining b' = [False]"
proof -
  obtain st nb where st: "wb_decoder_init (\<lambda>a b. a - b) (default_callbacks :: unit callbacks) () = Some st" "sb_inv nb_inv 160 sb_wb_mode False 0 st"
    "st_low st = (default_callbacks, nb, ())" "encode_submode st = 1" "DecState.encode_submode nb = 1"
    using new_wideband by metis
  have e: "encode_submode st \<noteq> 0" "DecState.encode_submode nb \<noteq> 0" by (simp_all add: st(4,5))
  have p: "reader_wf narrow_packet" "remaining narrow_packet = nb_start 8 @ replicate 74 False @ [False]"
    by (simp add: narrow_packet_def packet_of_wf, code_simp)
  have l: "unat (8 :: u32) \<le> 8" "length (replicate 74 False) = frame_sizes ! unat (8 :: u32) - 5" "length (replicate 320 (0 :: int)) = 320"
    by (simp_all add: frame_sizes_def)
  have "[False] = [] \<or> hd [False] = False" by simp
  from narrowband_packet_in_wideband [OF st(2,3) e p this l] show ?thesis using st(1) by blast
qed

text \<open>An ultra-wideband decoder set to a layer of submode 0 that is not in the packet.\<close>

lemma new_narrowband_wide:
  "DecState.pi_gain ((nb_decoder_init nb_mode)\<lparr>isWideband := 1\<rparr>) = [0, 0, 0, 0]"
  "DecState.encode_submode ((nb_decoder_init nb_mode)\<lparr>isWideband := 1\<rparr>) = 1"
  using new_narrowband replicate_4 by simp_all

lemma null_submode_edges:
  assumes "encode_submode st = 0" and "cell (submodes st) (submodeID st) = Some None"
  shows "layer_edges m st b out = None"
proof (cases "decode_low m (frame_size st) (st_low st) (Some b) out")
  case None
  then show ?thesis by (simp add: layer_edges_def)
next
  case (Some r)
  obtain ret lo hi dtx low bits where "r = (ret, lo, hi, dtx, low, bits)" by (cases r) auto
  then show ?thesis using Some assms by (cases bits; cases "ret = 0") (simp_all add: layer_edges_def read_layer_def require_def)
qed

theorem ultra_wideband_decoder_safe_witness:
  "\<exists>st ret x st' b' y st''. uwb_decoder_init (\<lambda>a b. a - b) (default_callbacks :: unit callbacks) () = Some st \<and>
    sb_decode (speex_wb_mode (speex_nb_mode (\<lambda>a b. a - b)) sb_wb_mode) sb_uwb_mode (st\<lparr>encode_submode := 0, submodeID := 0\<rparr>)
      (Some flat_packet) (replicate 640 0) = Some (ret, x, st', Some b') \<and>
    sb_decode (speex_wb_mode (speex_nb_mode (\<lambda>a b. a - b)) sb_wb_mode) sb_uwb_mode (st\<lparr>encode_submode := 0, submodeID := 0\<rparr>) None (replicate 640 0) =
      Some (0, y, st'', None) \<and> samples 640 y"
proof -
  let ?act = "\<lambda>a b :: int. a - b" and ?out = "replicate 640 (0 :: int)"
  let ?wb = "speex_wb_mode (speex_nb_mode ?act) sb_wb_mode"
  obtain st where st: "uwb_decoder_init ?act (default_callbacks :: unit callbacks) () = Some st" "sb_inv (sb_inv nb_inv 160 sb_wb_mode) 320 sb_uwb_mode False 0 st"
    "first (st_low st)" "encode_submode (st_low st) = 1" "st_low (st_low st) = (default_callbacks, (nb_decoder_init nb_mode)\<lparr>isWideband := 1\<rparr>, ())"
    using uwb_decoder_init_ok [OF silent.request_handlers_axioms, of ?act "()"] by metis
  define st1 where "st1 = st\<lparr>encode_submode := 0, submodeID := 0\<rparr>"
  have inv: "sb_inv (sb_inv nb_inv 160 sb_wb_mode) 320 sb_uwb_mode False 0 st1"
    unfolding st1_def by (intro sb_inv_update(1,4) st(2)) simp_all
  then have ok: "sb_ok 320 sb_uwb_mode st1" and wb: "sb_inv nb_inv 160 sb_wb_mode False 0 (st_low st1)" by (simp_all add: sb_inv_def)
  have same: "st_low st1 = st_low st" unfolding st1_def by (cases st) simp
  have "submodes st1 = sb_submodes sb_uwb_mode" by (rule sb_shapeD(6) [OF ok])
  then have "cell (submodes st1) 0 = Some None" using cell_Some [of 0 "submodes st1"] by (simp add: sb_uwb_mode_def)
  then have none: "layer_edges ?wb st1 flat_packet ?out = None" by (intro null_submode_edges) (simp_all add: st1_def)
  have len: "length (drop 320 ?out) = 320" "length (take 320 ?out) = 320" by simp_all
  define w where "w = (st_low st1)\<lparr>innov_save := Some (drop 320 ?out)\<rparr>"
  have invw: "sb_inv nb_inv 160 sb_wb_mode False 0 w"
    using wb sb_ok_update(10) [of 160 sb_wb_mode "st_low st1" "drop 320 ?out"] by (simp add: sb_inv_def w_def)
  have "st_low w = (default_callbacks, (nb_decoder_init nb_mode)\<lparr>isWideband := 1\<rparr>, ())" "encode_submode w \<noteq> 0" "first w"
    unfolding w_def same using st(3-5) by simp_all
  then have "\<not> sb_fails (speex_nb_mode ?act) never w flat_packet (take 320 ?out)"
    by (intro flat_packet_decoded [OF invw _ _ _ _ _ len(2)]) ((unfold new_narrowband_wide)?; simp)+
  then have nf: "\<not> sb_fails ?wb (sb_fails (speex_nb_mode ?act) never) st1 flat_packet ?out"
    using none by (simp add: sb_fails_def [of ?wb] wb_ctl sb_lend_request sb_shapeD(2) [OF ok] w_def)
  have "rd_ok flat_packet" using flat_packet_bits(1) by (simp add: rd_ok_def)
  then show ?thesis using ultra_wideband_decoder_safe [OF inv, of ?out ?act] nf st(1) by (simp add: st1_def) metis
qed

end
