(* ===== verification/Resampler_Table.thy ===== *)
theory Resampler_Table
  imports C_Float
begin

text \<open>
  How the resampler of Speex computes its table of filter coefficients (\<open>libspeex/resample.c\<close>, fixed point build): a
  windowed sinc, computed in floating point and stored in 16 bits.

  The operations are rounded one by one, in the precision C gives them on a machine whose \<open>float\<close> and \<open>double\<close>
  operations are not evaluated wider: a product of two \<open>float\<close>s is a \<open>float\<close>, one with a constant such as \<open>0.5\<close> is a
  \<open>double\<close>. The \<open>sin\<close> of the C library is a parameter, of which only \<open>\<bar>sin x\<bar> \<le> 1\<close> is used.
\<close>

subsection \<open>The windows\<close>

text \<open>The tables in units of \<open>1e-8\<close>.\<close>

definition kaiser12_table :: "rat list" where
  "kaiser12_table = map (\<lambda>x. x / 100000000)
    [99859849, 100000000, 99859849, 99440475, 98745105, 97779076, 96549770, 95066529, 93340547, 91384741,
     89213598, 86843014, 84290116, 81573067, 78710866, 75723148, 72629970, 69451601, 66208321, 62920216,
     59606986, 56287762, 52980938, 49704014, 46473455, 43304576, 40211431, 37206735, 34301800, 31506490,
     28829195, 26276832, 23854851, 21567274, 19416736, 17404546, 15530766, 13794294, 12192957, 10723616,
     9382272, 8164178, 7063950, 6075685, 5193064, 4409466, 3718069, 3111947, 2584161, 2127838, 1736250,
     1402878, 1121463, 886058, 691064, 531256, 401805, 298291, 216702, 153438, 105297, 69463, 43489,
     25272, 13031, 527734 / 100, 1000, 0]"

definition kaiser10_table :: "rat list" where
  "kaiser10_table = map (\<lambda>x. x / 100000000)
    [99537781, 100000000, 99537781, 98162644, 95908712, 92831446, 89005583, 84522401, 79486424, 74011713,
     68217934, 62226347, 56155915, 50119680, 44221549, 38553619, 33194107, 28205962, 23636152, 19515633,
     15859932, 12670280, 9935205, 7632451, 5731132, 4193980, 2979584, 2044510, 1345224, 839739, 488951,
     257636, 115101, 35515, 0, 0]"

definition kaiser8_table :: "rat list" where
  "kaiser8_table = map (\<lambda>x. x / 100000000)
    [99635258, 100000000, 99635258, 98548012, 96759014, 94302200, 91223751, 87580811, 83439927, 78875245,
     73966538, 68797126, 63451750, 58014482, 52566725, 47185369, 41941150, 36897272, 32108304, 27619388,
     23465776, 19672670, 16255380, 13219758, 10562887, 8273982, 6335451, 4724088, 3412321, 2369490,
     1563093, 959968, 527363, 233883, 50000, 0]"

definition kaiser6_table :: "rat list" where
  "kaiser6_table = map (\<lambda>x. x / 100000000)
    [99733006, 100000000, 99733006, 98935595, 97618418, 95799003, 93501423, 90755855, 87598009, 84068475,
     80211977, 76076565, 71712752, 67172623, 62508937, 57774224, 53019925, 48295561, 43647969, 39120616,
     34752997, 30580127, 26632152, 22934058, 19505503, 16360756, 13508755, 10953262, 8693120, 6722600,
     5031820, 3607231, 2432151, 1487334, 752000, 0]"

record FuncDef =
  func_table :: "rat list"
  func_oversample :: int

definition KAISER12 :: FuncDef where "KAISER12 = \<lparr>func_table = kaiser12_table, func_oversample = 64\<rparr>"
definition KAISER10 :: FuncDef where "KAISER10 = \<lparr>func_table = kaiser10_table, func_oversample = 32\<rparr>"
definition KAISER8 :: FuncDef where "KAISER8 = \<lparr>func_table = kaiser8_table, func_oversample = 32\<rparr>"
definition KAISER6 :: FuncDef where "KAISER6 = \<lparr>func_table = kaiser6_table, func_oversample = 32\<rparr>"

subsection \<open>The qualities\<close>

record QualityMapping =
  base_length :: nat
  quality_oversample :: nat
  downsample_bandwidth :: rat
  upsample_bandwidth :: rat
  window_func :: FuncDef

definition QualityMapping_row :: "nat \<Rightarrow> nat \<Rightarrow> rat \<Rightarrow> rat \<Rightarrow> FuncDef \<Rightarrow> QualityMapping" where
  "QualityMapping_row n os d u w =
     \<lparr>base_length = n, quality_oversample = os, downsample_bandwidth = d / 1000, upsample_bandwidth = u / 1000, window_func = w\<rparr>"

definition quality_map :: "QualityMapping list" where
  "quality_map =
    [QualityMapping_row 8 4 830 860 KAISER6,
     QualityMapping_row 16 4 850 880 KAISER6,
     QualityMapping_row 32 4 882 910 KAISER6,
     QualityMapping_row 48 8 895 917 KAISER8,
     QualityMapping_row 64 8 921 940 KAISER8,
     QualityMapping_row 80 16 922 940 KAISER10,
     QualityMapping_row 96 16 940 945 KAISER10,
     QualityMapping_row 128 16 950 950 KAISER10,
     QualityMapping_row 160 16 960 960 KAISER10,
     QualityMapping_row 192 32 968 968 KAISER12,
     QualityMapping_row 256 32 975 975 KAISER12]"

subsection \<open>The interpolated window and the windowed sinc\<close>

definition dmul :: "rat \<Rightarrow> rat \<Rightarrow> rat option" where "dmul a b = dbl (a * b)"
definition dadd :: "rat \<Rightarrow> rat \<Rightarrow> rat option" where "dadd a b = dbl (a + b)"
definition dsub :: "rat \<Rightarrow> rat \<Rightarrow> rat option" where "dsub a b = dbl (a - b)"

text \<open>The four weights of the interpolation, \<open>f2\<close> and \<open>f3\<close> being the square and the cube of the fraction.\<close>

definition window_interp :: "rat \<Rightarrow> (rat \<times> rat \<times> rat \<times> rat) option" where
  "window_interp fr =
     do { f2 \<leftarrow> fl (fr * fr);
          f3 \<leftarrow> fl (f2 * fr);
          sixth \<leftarrow> dbl (1666666667 / 10000000000);
          third \<leftarrow> dbl (3333333333 / 10000000000);
          a \<leftarrow> dmul (- sixth) fr; b \<leftarrow> dmul sixth f3; interp3 \<leftarrow> dadd a b;
          a \<leftarrow> dmul (1 / 2) f2; b \<leftarrow> dmul (1 / 2) f3; s \<leftarrow> dadd fr a; interp2 \<leftarrow> dsub s b;
          c \<leftarrow> dmul (- third) fr; d \<leftarrow> dmul sixth f3; s \<leftarrow> dadd c a; interp0 \<leftarrow> dsub s d;
          s \<leftarrow> dsub 1 interp3; s \<leftarrow> dsub s interp2; interp1 \<leftarrow> dsub s interp0;
          Some (interp0, interp1, interp2, interp3) }"

definition compute_func :: "rat \<Rightarrow> FuncDef \<Rightarrow> rat option" where
  "compute_func x func =
     do { y \<leftarrow> fl (x * of_int (func_oversample func));
          let ind = \<lfloor>y\<rfloor>;
          fr \<leftarrow> fl (y - of_int ind);
          (interp0, interp1, interp2, interp3) \<leftarrow> window_interp fr;
          require (0 \<le> ind);
          t0 \<leftarrow> mem_get (func_table func) (nat ind) \<bind> dbl;
          t1 \<leftarrow> mem_get (func_table func) (nat ind + 1) \<bind> dbl;
          t2 \<leftarrow> mem_get (func_table func) (nat ind + 2) \<bind> dbl;
          t3 \<leftarrow> mem_get (func_table func) (nat ind + 3) \<bind> dbl;
          p0 \<leftarrow> dmul interp0 t0; p1 \<leftarrow> dmul interp1 t1; p2 \<leftarrow> dmul interp2 t2; p3 \<leftarrow> dmul interp3 t3;
          s \<leftarrow> dadd p0 p1; s \<leftarrow> dadd s p2; dadd s p3 }"

text \<open>Saturation of a \<open>float\<close> or \<open>double\<close> to 16 bits; the conversion truncates.\<close>

definition truncated :: "rat \<Rightarrow> int" where
  "truncated x = (if x \<ge> 0 then \<lfloor>x\<rfloor> else \<lceil>x\<rceil>)"

definition WORD2INT :: "rat \<Rightarrow> int" where
  "WORD2INT x = (if x < - 32767 then - 32768 else if x > 32766 then 32767 else truncated x)"

definition M_PI :: rat where
  "M_PI = 314159265358979323846 / 100000000000000000000"

definition sinc :: "(rat \<Rightarrow> rat) \<Rightarrow> rat \<Rightarrow> rat \<Rightarrow> int \<Rightarrow> FuncDef \<Rightarrow> int option" where
  "sinc sin_d cutoff x N window =
     do { xx \<leftarrow> fl (x * cutoff);
          tiny \<leftarrow> fl (1 / 1000000);
          if \<bar>x\<bar> < tiny then do { v \<leftarrow> dmul 32768 cutoff; Some (WORD2INT v) }
          else
            do { n \<leftarrow> fl (of_int N);
                 half \<leftarrow> fl (1 / 2 * n);
                 if \<bar>x\<bar> > half then Some 0
                 else
                   do { pi_d \<leftarrow> dbl M_PI;
                        arg \<leftarrow> dmul pi_d xx;
                        a \<leftarrow> dmul 32768 cutoff;
                        b \<leftarrow> dmul a (sin_d arg);
                        require (arg \<noteq> 0);
                        c \<leftarrow> dbl (b / arg);
                        t \<leftarrow> dmul 2 x;
                        t \<leftarrow> dbl (t / of_int N);
                        t \<leftarrow> fl \<bar>t\<bar>;
                        w \<leftarrow> compute_func t window;
                        v \<leftarrow> dmul c w;
                        Some (WORD2INT v) } } }"

subsection \<open>The table is computed within the window and fits 16 bits\<close>

text \<open>An operation on operands that integers bound is bounded by an integer again.\<close>

lemma dbl_int:
  assumes "\<bar>x\<bar> \<le> of_int n" and "n < 2 ^ 53"
  shows "\<exists>y. dbl x = Some y \<and> \<bar>y\<bar> \<le> of_int n"
  using dbl_le_int [OF assms] by blast

lemma dmul_int:
  assumes "\<bar>a\<bar> \<le> of_int m" "\<bar>b\<bar> \<le> of_int n" and "m * n < 2 ^ 53"
  shows "\<exists>y. dmul a b = Some y \<and> \<bar>y\<bar> \<le> of_int (m * n)"
proof -
  have "\<bar>a * b\<bar> \<le> of_int m * of_int n"
    using assms abs_ge_zero [of a] abs_ge_zero [of b] unfolding abs_mult by (intro mult_mono) linarith+
  then show ?thesis using dbl_int [of "a * b" "m * n"] assms(3) by (simp add: dmul_def)
qed

lemma dadd_int:
  assumes "\<bar>a\<bar> \<le> of_int m" "\<bar>b\<bar> \<le> of_int n" and "m + n < 2 ^ 53"
  shows "\<exists>y. dadd a b = Some y \<and> \<bar>y\<bar> \<le> of_int (m + n)"
proof -
  have "\<bar>a + b\<bar> \<le> of_int m + of_int n" using assms(1,2) by linarith
  then show ?thesis using dbl_int [of "a + b" "m + n"] assms(3) by (simp add: dadd_def)
qed

lemma dsub_int:
  assumes "\<bar>a\<bar> \<le> of_int m" "\<bar>b\<bar> \<le> of_int n" and "m + n < 2 ^ 53"
  shows "\<exists>y. dsub a b = Some y \<and> \<bar>y\<bar> \<le> of_int (m + n)"
proof -
  have "\<bar>a - b\<bar> \<le> of_int m + of_int n" using assms(1,2) by linarith
  then show ?thesis using dbl_int [of "a - b" "m + n"] assms(3) by (simp add: dsub_def)
qed

lemma fl_int_bound:
  assumes "\<bar>x\<bar> \<le> of_int n" and "n < 2 ^ 24"
  shows "\<exists>y. fl x = Some y \<and> \<bar>y\<bar> \<le> of_int n"
  using fl_le_int [OF assms] by blast

lemma unit_mult: "\<bar>a\<bar> \<le> 1 \<Longrightarrow> \<bar>b\<bar> \<le> 1 \<Longrightarrow> \<bar>a * b\<bar> \<le> (1 :: rat)"
  unfolding abs_mult using mult_mono [of "\<bar>a\<bar>" 1 "\<bar>b\<bar>" 1] by simp

lemma window_interp_total:
  assumes x: "\<bar>x\<bar> \<le> 1"
  obtains w0 w1 w2 w3 where "window_interp x = Some (w0, w1, w2, w3)"
    and "\<bar>w0\<bar> \<le> 3" "\<bar>w1\<bar> \<le> 9" "\<bar>w2\<bar> \<le> 3" "\<bar>w3\<bar> \<le> 2"
proof -
  obtain f2 where f2: "fl (x * x) = Some f2" "\<bar>f2\<bar> \<le> 1" using fl_int_bound [of "x * x" 1] unit_mult [OF x x] by auto
  obtain f3 where f3: "fl (f2 * x) = Some f3" "\<bar>f3\<bar> \<le> 1" using fl_int_bound [of "f2 * x" 1] unit_mult [OF f2(2) x] by auto
  obtain sixth where s: "dbl (1666666667 / 10000000000) = Some sixth" "\<bar>sixth\<bar> \<le> 1"
    using dbl_int [of "1666666667 / 10000000000" 1] by auto
  obtain third where t: "dbl (3333333333 / 10000000000) = Some third" "\<bar>third\<bar> \<le> 1"
    using dbl_int [of "3333333333 / 10000000000" 1] by auto
  obtain a where a: "dmul (- sixth) x = Some a" "\<bar>a\<bar> \<le> 1" using dmul_int [of "- sixth" 1 x 1] s x by auto
  obtain b where b: "dmul sixth f3 = Some b" "\<bar>b\<bar> \<le> 1" using dmul_int [of sixth 1 f3 1] s f3 by auto
  obtain w3 where w3: "dadd a b = Some w3" "\<bar>w3\<bar> \<le> 2" using dadd_int [of a 1 b 1] a b by auto
  obtain c where c: "dmul (1 / 2) f2 = Some c" "\<bar>c\<bar> \<le> 1" using dmul_int [of "1 / 2" 1 f2 1] f2 by auto
  obtain d where d: "dmul (1 / 2) f3 = Some d" "\<bar>d\<bar> \<le> 1" using dmul_int [of "1 / 2" 1 f3 1] f3 by auto
  obtain e where e: "dadd x c = Some e" "\<bar>e\<bar> \<le> 2" using dadd_int [of x 1 c 1] x c by auto
  obtain w2 where w2: "dsub e d = Some w2" "\<bar>w2\<bar> \<le> 3" using dsub_int [of e 2 d 1] e d by auto
  obtain g where g: "dmul (- third) x = Some g" "\<bar>g\<bar> \<le> 1" using dmul_int [of "- third" 1 x 1] t x by auto
  obtain h where h: "dadd g c = Some h" "\<bar>h\<bar> \<le> 2" using dadd_int [of g 1 c 1] g c by auto
  obtain w0 where w0: "dsub h b = Some w0" "\<bar>w0\<bar> \<le> 3" using dsub_int [of h 2 b 1] h b by auto
  obtain i where i: "dsub 1 w3 = Some i" "\<bar>i\<bar> \<le> 3" using dsub_int [of 1 1 w3 2] w3 by auto
  obtain j where j: "dsub i w2 = Some j" "\<bar>j\<bar> \<le> 6" using dsub_int [of i 3 w2 3] i w2 by auto
  obtain w1 where w1: "dsub j w0 = Some w1" "\<bar>w1\<bar> \<le> 9" using dsub_int [of j 6 w0 3] j w0 by auto
  have "window_interp x = Some (w0, w1, w2, w3)"
    by (simp only: window_interp_def f2(1) f3(1) s(1) t(1) a(1) b(1) w3(1) c(1) d(1) e(1) w2(1) g(1) h(1) w0(1) i(1) j(1) w1(1)
        Option.bind.bind_lunit)
  then show thesis using that w0(2) w1(2) w2(2) w3(2) by blast
qed

text \<open>A window has three values more than its points in the unit interval, so that the four points around each can be read.\<close>

definition window_ok :: "FuncDef \<Rightarrow> bool" where
  "window_ok w \<longleftrightarrow> (\<forall>v \<in> set (func_table w). \<bar>v\<bar> \<le> 1) \<and> 0 < func_oversample w \<and> func_oversample w < 2 ^ 20 \<and>
     func_oversample w + 3 < int (length (func_table w))"

lemmas windows = KAISER12_def KAISER10_def KAISER8_def KAISER6_def
lemmas window_tables = kaiser12_table_def kaiser10_table_def kaiser8_table_def kaiser6_table_def

lemma windows_ok: "window_ok KAISER12" "window_ok KAISER10" "window_ok KAISER8" "window_ok KAISER6"
  by (simp_all add: window_ok_def windows window_tables)

lemma window_value:
  assumes "window_ok w" and "int i \<le> func_oversample w + 3"
  shows "\<exists>t. (mem_get (func_table w) i \<bind> dbl) = Some t \<and> \<bar>t\<bar> \<le> 1"
proof -
  have i: "i < length (func_table w)" using assms by (simp add: window_ok_def)
  then have "\<bar>func_table w ! i\<bar> \<le> of_int 1" using assms(1) nth_mem by (fastforce simp: window_ok_def)
  then show ?thesis using dbl_int [of "func_table w ! i" 1] i by (simp add: mem_get_Some)
qed

lemma compute_func_total:
  assumes w: "window_ok w" and x: "0 \<le> x" "x \<le> 1"
  obtains v where "compute_func x w = Some v" and "\<bar>v\<bar> \<le> 17"
proof -
  have os: "0 < func_oversample w" "func_oversample w < 2 ^ 20" using w by (simp_all add: window_ok_def)
  let ?p = "x * of_int (func_oversample w)"
  have p: "0 \<le> ?p" using x os by simp
  have "?p \<le> 1 * of_int (func_oversample w)" using x os by (intro mult_right_mono) simp_all
  then have "\<bar>?p\<bar> \<le> of_int (func_oversample w)" using p by simp
  then obtain y where y: "fl ?p = Some y" "\<bar>y\<bar> \<le> of_int (func_oversample w)" using fl_int_bound os(2) by fastforce
  have y0: "0 \<le> y" using fl_nonneg [OF p y(1)] .
  define ind where "ind = \<lfloor>y\<rfloor>"
  have ind: "0 \<le> ind" "ind \<le> func_oversample w" using y0 y(2) unfolding ind_def by linarith+
  have "\<bar>y - of_int ind\<bar> \<le> of_int 1" unfolding ind_def by simp linarith
  then obtain f where f: "fl (y - of_int ind) = Some f" "\<bar>f\<bar> \<le> 1" using fl_int_bound [of "y - of_int ind" 1] by auto
  obtain w0 w1 w2 w3 where W: "window_interp f = Some (w0, w1, w2, w3)" "\<bar>w0\<bar> \<le> 3" "\<bar>w1\<bar> \<le> 9" "\<bar>w2\<bar> \<le> 3" "\<bar>w3\<bar> \<le> 2"
    by (rule window_interp_total [OF f(2)])
  obtain t0 where t0: "(mem_get (func_table w) (nat ind) \<bind> dbl) = Some t0" "\<bar>t0\<bar> \<le> 1" using window_value [OF w, of "nat ind"] ind by auto
  obtain t1 where t1: "(mem_get (func_table w) (nat ind + 1) \<bind> dbl) = Some t1" "\<bar>t1\<bar> \<le> 1" using window_value [OF w, of "nat ind + 1"] ind by auto
  obtain t2 where t2: "(mem_get (func_table w) (nat ind + 2) \<bind> dbl) = Some t2" "\<bar>t2\<bar> \<le> 1" using window_value [OF w, of "nat ind + 2"] ind by auto
  obtain t3 where t3: "(mem_get (func_table w) (nat ind + 3) \<bind> dbl) = Some t3" "\<bar>t3\<bar> \<le> 1" using window_value [OF w, of "nat ind + 3"] ind by auto
  obtain p0 where p0: "dmul w0 t0 = Some p0" "\<bar>p0\<bar> \<le> 3" using dmul_int [of w0 3 t0 1] W t0 by auto
  obtain p1 where p1: "dmul w1 t1 = Some p1" "\<bar>p1\<bar> \<le> 9" using dmul_int [of w1 9 t1 1] W t1 by auto
  obtain p2 where p2: "dmul w2 t2 = Some p2" "\<bar>p2\<bar> \<le> 3" using dmul_int [of w2 3 t2 1] W t2 by auto
  obtain p3 where p3: "dmul w3 t3 = Some p3" "\<bar>p3\<bar> \<le> 2" using dmul_int [of w3 2 t3 1] W t3 by auto
  obtain a where a: "dadd p0 p1 = Some a" "\<bar>a\<bar> \<le> 12" using dadd_int [of p0 3 p1 9] p0 p1 by auto
  obtain b where b: "dadd a p2 = Some b" "\<bar>b\<bar> \<le> 15" using dadd_int [of a 12 p2 3] a p2 by auto
  obtain v where v: "dadd b p3 = Some v" "\<bar>v\<bar> \<le> 17" using dadd_int [of b 15 p3 2] b p3 by auto
  have "compute_func x w = Some v"
    using ind(1)
    by (simp only: compute_func_def y(1) Let_def ind_def [symmetric] f(1) W(1) t0(1) t1(1) t2(1) t3(1) p0(1) p1(1) p2(1) p3(1)
        a(1) b(1) v(1) require_True Option.bind.bind_lunit prod.case)
  then show thesis using that v(2) by blast
qed

lemma is_i16_WORD2INT [simp, int_ranges]: "is_i16 (WORD2INT x)"
proof -
  have "- 32767 \<le> x \<Longrightarrow> x \<le> 32766 \<Longrightarrow> - 32767 \<le> truncated x \<and> truncated x \<le> 32766"
    unfolding truncated_def by (auto simp: le_floor_iff floor_le_iff le_ceiling_iff ceiling_le_iff)
  then show ?thesis by (auto simp: WORD2INT_def is_i16_def not_less)
qed

text \<open>
  Cutoffs are not very small, and the arguments of the sinc have no more than 40 bits before the binary point; its denominator
  is then not zero.
\<close>

lemma pow2_40: "pow2 40 = 1099511627776"
  by (simp add: pow2_def)

lemma sinc_total:
  assumes sin: "\<And>x. \<bar>sin_d x\<bar> \<le> 1" and w: "window_ok w" and c: "pow2 (- 40) \<le> cutoff" "cutoff \<le> 1"
    and N: "0 < N" "N < 2 ^ 24" and x: "\<bar>x\<bar> \<le> pow2 40"
  shows "\<exists>v. sinc sin_d cutoff x N w = Some v \<and> is_i16 v"
proof -
  have c0: "0 < cutoff" "\<bar>cutoff\<bar> \<le> 1" using c pow2_pos [of "- 40"] by linarith+
  have "\<bar>x * cutoff\<bar> \<le> \<bar>x\<bar> * 1" unfolding abs_mult using c0 by (intro mult_left_mono) simp_all
  then have "\<bar>x * cutoff\<bar> \<le> pow2 40" using x by linarith
  then obtain xx where xx: "fl (x * cutoff) = Some xx" "\<bar>xx\<bar> \<le> pow2 40" by (rule fl_le_pow2) simp_all
  obtain tiny where tiny: "fl (1 / 1000000) = Some tiny" using fl_int_bound [of "1 / 1000000" 1] by auto
  have tiny_ge: "pow2 (- 20) \<le> tiny"
  proof -
    have "pow2 (- 20) \<le> \<bar>1 / 1000000\<bar>" by (simp add: pow2_def)
    then have "pow2 (- 20) \<le> \<bar>tiny\<bar>" by (rule fl_ge_pow2) (simp_all add: tiny)
    moreover have "0 \<le> tiny" using fl_nonneg [OF _ tiny] by simp
    ultimately show ?thesis by simp
  qed
  obtain a where a: "dmul 32768 cutoff = Some a" "\<bar>a\<bar> \<le> 32768" using dmul_int [of 32768 32768 cutoff 1] c0 by auto
  have n: "fl (of_int N) = Some (of_int N)" using N by (intro fl_int) simp
  have half: "fl (of_int N / 2) = Some (of_int N / 2)"
    using fl_exact [of N "- 1"] N by (simp add: pow2_def)
  show ?thesis
  proof (cases "\<bar>x\<bar> < tiny \<or> \<bar>x\<bar> > of_int N / 2")
    case True
    then show ?thesis
      by (auto simp: sinc_def xx(1) tiny n half a(1) is_i16_def [of 0])
  next
    case False
    then have big: "tiny \<le> \<bar>x\<bar>" "\<bar>x\<bar> \<le> of_int N / 2" by auto
    obtain p where p: "dbl M_PI = Some p" "\<bar>p\<bar> \<le> 4" using dbl_int [of M_PI 4] by (auto simp: M_PI_def)
    have p1: "1 \<le> \<bar>p\<bar>" using dbl_ge_pow2 [of 0 M_PI p] p(1) by (simp add: M_PI_def pow2_def)
    have "pow2 (- 20) * pow2 (- 40) \<le> \<bar>x\<bar> * cutoff"
      using big(1) tiny_ge c pow2_pos by (intro mult_mono) (auto intro: order_less_imp_le order_trans)
    then have "pow2 (- 60) \<le> \<bar>x * cutoff\<bar>" using c0 by (simp add: abs_mult pow2_add [symmetric])
    then have xx_ge: "pow2 (- 60) \<le> \<bar>xx\<bar>" by (rule fl_ge_pow2) (simp_all add: xx)
    have "\<bar>p * xx\<bar> \<le> pow2 2 * pow2 40" unfolding abs_mult using p xx by (intro mult_mono) (simp_all add: pow2_def)
    then have "\<bar>p * xx\<bar> \<le> pow2 42" by (simp add: pow2_add [symmetric])
    then obtain arg where arg: "dmul p xx = Some arg" "\<bar>arg\<bar> \<le> pow2 42"
      unfolding dmul_def by (rule dbl_le_pow2) simp_all
    have "1 * pow2 (- 60) \<le> \<bar>p * xx\<bar>" unfolding abs_mult using p1 xx_ge pow2_pos [of "- 60"] by (intro mult_mono) (simp_all add: order_less_imp_le)
    then have arg_ge: "pow2 (- 60) \<le> \<bar>arg\<bar>" using dbl_ge_pow2 [of "- 60" "p * xx" arg] arg(1) by (simp add: dmul_def)
    then have arg0: "arg \<noteq> 0" by (metis abs_0 not_less pow2_pos)
    obtain b where b: "dmul a (sin_d arg) = Some b" "\<bar>b\<bar> \<le> 32768" using dmul_int [of a 32768 "sin_d arg" 1] a sin by auto
    have "\<bar>b / arg\<bar> \<le> pow2 15 / pow2 (- 60)" unfolding abs_divide using b(2) arg_ge by (intro frac_le) (simp_all add: pow2_def)
    then have "\<bar>b / arg\<bar> \<le> pow2 75" by (simp add: pow2_divide)
    then obtain q where q: "dbl (b / arg) = Some q" "\<bar>q\<bar> \<le> pow2 75" by (rule dbl_le_pow2) simp_all
    have "\<bar>2 * x\<bar> \<le> of_int N" using big(2) by (simp add: abs_mult)
    then obtain t where t: "dmul 2 x = Some t" "\<bar>t\<bar> \<le> of_int N" using dbl_int [of "2 * x" N] N by (auto simp: dmul_def)
    have "\<bar>t / of_int N\<bar> \<le> of_int 1" using t(2) N by (simp add: abs_divide pos_divide_le_eq)
    then obtain u where u: "dbl (t / of_int N) = Some u" "\<bar>u\<bar> \<le> 1" using dbl_int [of "t / of_int N" 1] by auto
    obtain s where s: "fl \<bar>u\<bar> = Some s" "\<bar>s\<bar> \<le> 1" using fl_int_bound [of "\<bar>u\<bar>" 1] u by auto
    have "0 \<le> s" using fl_nonneg [OF _ s(1)] by simp
    then obtain v where v: "compute_func s w = Some v" "\<bar>v\<bar> \<le> 17" using compute_func_total [OF w, of s] s(2) by auto
    have "\<bar>q * v\<bar> \<le> pow2 75 * pow2 5" unfolding abs_mult using q v by (intro mult_mono) (simp_all add: pow2_def)
    then have "\<bar>q * v\<bar> \<le> pow2 80" by (simp add: pow2_add [symmetric])
    then obtain r where r: "dmul q v = Some r" unfolding dmul_def by (rule dbl_le_pow2) simp_all
    have "sinc sin_d cutoff x N w = Some (WORD2INT r)"
      using big arg0
      by (simp add: sinc_def xx(1) tiny n half not_less p(1) arg(1) a(1) b(1) q(1) t(1) u(1) s(1) v(1) r)
    then show ?thesis by simp
  qed
qed

subsection \<open>Every coefficient is computed\<close>

lemma quality_windows: "w \<in> set quality_map \<Longrightarrow> window_ok (window_func w)"
  using windows_ok by (auto simp: quality_map_def QualityMapping_row_def)

text \<open>
  C40. Whatever the quality, every coefficient of a filter of less than \<open>2 ^ 24\<close> taps is computed: the four points of the window
  around its position are in the table of the window, no division is by zero, no operation overflows, and the
  coefficient fits the 16 bits it is stored in. Of the sine only \<open>\<bar>sin x\<bar> \<le> 1\<close> is assumed.
\<close>

theorem sinc_coefficient_computed:
  assumes "\<And>x. \<bar>sin_d x\<bar> \<le> 1" and "q \<in> set quality_map" and "pow2 (- 40) \<le> cutoff" "cutoff \<le> 1"
    and "0 < N" "N < 2 ^ 24" and "\<bar>x\<bar> \<le> pow2 40"
  shows "\<exists>v. sinc sin_d cutoff x N (window_func q) = Some v \<and> is_i16 v"
  using assms by (intro sinc_total quality_windows)

lemma sinc_coefficient_computed_witness:
  "\<exists>v. sinc (\<lambda>x. 1 / 2) (83 / 100) (7 / 2) 8 (window_func (QualityMapping_row 8 4 830 860 KAISER6)) = Some v \<and> is_i16 v"
  by (rule sinc_coefficient_computed [of "\<lambda>x. 1 / 2"]) (simp_all add: quality_map_def pow2_def)

end
