(* ===== verification/Spec2Isabelle.thy ===== *)
theory Spec2Isabelle
  imports Speex_Bits Speex_Buffer G722 Gsm_Codec Jitter_Contract
    Speex_Vq Quant_Lsp Speex_Inband Speex_Header Speex_Stereo G711 Sb_Packets
    Resampler_Table
begin

text \<open>
  Verification of the voice code of jay-sip, a SIP phone for Android. The phone itself is Java; its
  media path is C under \<open>src/jni\<close>: the SpanDSP codecs G.722 and GSM 06.10 (\<open>src/jni/spandsp\<close>) and
  the Speex library 1.2rc1 (\<open>src/jni/speex-1.2rc1\<close>), with its bit packer, jitter buffer, ring buffer
  and codec. The Java classes reach it through two thin JNI wrappers. The development models the C.

  \<^bold>\<open>Conventions.\<close> Signed C integers are mathematical integers that are wrapped (\<open>i16\<close>, \<open>i32\<close>) wherever the
  code stores or casts to a narrower type; bytes and bit patterns are words. A block of memory is a
  list and every access to it can fail, so that \<open>None\<close> stands for an access outside a block, a failed
  assertion, a division by zero, an undefined conversion or a loop that does not end. A state
  struct of the code is a record with the code's field names, an operation is a function that returns
  the new state. The targets are 32 bit ARM; where the source has several branches (MMX, x86
  assembler, ARM4, Blackfin, floating point) the model takes the portable one, for Speex the
  fixed point one that the build selects with \<open>-DFIXED_POINT\<close>.

  \<^bold>\<open>The library.\<close> \<open>Prelude\<close> has the machine integers, the blocks of memory and their automation
  (\<open>int_ranges\<close>, \<open>mem_simps\<close>); \<open>Insertion\<close> the lemmas about insertion into a sorted array that shifts
  from the end; \<open>Bit_Stream\<close> the specification of a bit channel: the locales of a writer and a reader
  of bit fields and their composition, interpreted on the Speex bit packer and reused by
  its clients through \<open>Speex_Stream\<close>; \<open>Fifo\<close> the locale of a bounded byte queue, interpreted on the Speex
  ring buffer; \<open>C_Float\<close> the rounding of single and double precision, with its error, its exact cases and its
  monotonicity.

  \<^bold>\<open>Speex bit packer\<close> (\<open>Speex_Bits\<close>, \<open>libspeex/bits.c\<close>). Record \<open>speex_bits\<close> is \<open>SpeexBits\<close>; the
  block of characters, its size, the number of bits, the two halves of the cursor, the owner and
  overflow flags. Every operation is a definition of the same name; the allocator is the parameter
  \<open>ra\<close> (a \<open>reallocator\<close>, with the contract of \<open>realloc\<close>). A packet that is packed, written, received
  and unpacked gives the packed values; packing and unpacking are exact on every state,
  peeking is unpacking without moving; the loop of the terminator ends unless the
  buffer is the caller's and full, when it hangs; two more operations break their promises.

  \<^bold>\<open>Speex ring buffer\<close> (\<open>Speex_Buffer\<close>, \<open>libspeex/buffer.c\<close>). It refines a queue under all sequences
  of writes and reads that do not overflow it (by the locale of \<open>Fifo\<close>); further theorems
  state the invariant and what happens on overflow and on reading too much.

  \<^bold>\<open>SpanDSP arithmetic\<close> (\<open>Spandsp_Arith\<close>, \<open>spandsp/saturated.h\<close>, \<open>bit_operations.h\<close>, \<open>vector_int.c\<close>),
  \<^bold>\<open>G.711\<close> (\<open>G711\<close>, \<open>spandsp/g711.h\<close>: every code survives decoding and encoding, the error of a
  sample is relative) and \<^bold>\<open>G.722\<close> (\<open>G722\<close>, \<open>g722.c\<close>): the tables, the adaptive predictor of a band
  (\<open>block4\<close>), the quantizers, both directions with the bit packing. The decoder stays in step with the
  encoder, neither leaves its tables and buffers for any input.

  \<^bold>\<open>GSM 06.10\<close>: the three frame formats (\<open>Gsm_Frame\<close>), preprocessing and linear prediction (\<open>Gsm_Lpc\<close>),
  the regular pulse excitation (\<open>Gsm_Rpe\<close>), the short and long term
  filters (\<open>Gsm_Filters\<close>) and the codec (\<open>Gsm_Codec\<close>). The encoder is total and makes
  only codes that fit, the decoder accepts every stream of the encoder and every packed stream;
  in the byte format it can be made to read outside a table.

  \<^bold>\<open>Speex jitter buffer\<close> (\<open>Jitter_Timings\<close>, \<open>Jitter\<close>, \<open>Jitter_Contract\<close>; \<open>libspeex/jitter.c\<close>). The
  timing buffers keep the 40 smallest arrival times in order. \<open>Jitter\<close> has the record
  \<open>jitter_buffer\<close> with every operation, timestamps on 32 bit words with the wrapping comparisons of
  the code, the blocks of the packets as addresses whose destruction is logged, and single precision arithmetic for
  the cost of a delay. \<open>Jitter_Contract\<close> has the step relation of a program that uses the buffer:
  an invariant of all reachable states, that every operation returns,
  what a get hands over, where every block goes and an overrun.

  \<^bold>\<open>Speex quantization.\<close> \<open>Speex_Fixed\<close> has the macros of \<open>fixed_generic.h\<close> and the approximations of
  \<open>math_approx.h\<close>; \<open>Speex_Tables\<close> the codebooks; \<open>Speex_Vq\<close> the codebook searches of \<open>vq.c\<close>;
  \<open>Quant_Lsp\<close> the quantization of line spectral pairs: the decoder rebuilds exactly the pairs the encoder
  goes on with.

  \<^bold>\<open>Speex side information.\<close> \<open>Speex_Header\<close> (\<open>speex_header.c\<close>) has the header packet, its byte order and the checks of the
  reader; \<open>Speex_Inband\<close> (\<open>speex_callbacks.c\<close>) the in-band requests: the handler reads exactly the bits
  that the table of request lengths gives, with one exception; \<open>Speex_Stereo\<close> (\<open>stereo.c\<close>, fixed point) the
  intensity stereo request and the decoding of a mono frame to two channels. All three use the bit packer through
  the laws of \<open>Speex_Stream\<close>.

  \<^bold>\<open>Speex narrowband decoder.\<close> Its parts: the filters of \<open>filters.c\<close> (\<open>Speex_Filters\<close>), line spectral pairs and
  prediction filters (\<open>Speex_Lsp\<close>, \<open>lsp.c\<close>), pitch and innovation (\<open>Speex_Ltp\<close>, \<open>ltp.c\<close>; \<open>Speex_Innovation\<close>, \<open>cb_search.c\<close>), and
  the submodes with their parameters (\<open>Speex_Modes\<close>, \<open>modes.c\<close>). \<open>Nb_Decoder\<close> has the record \<open>DecState\<close> and \<open>nb_decode\<close> of
  \<open>nb_celp.c\<close>: the search for the frame in the packet (\<open>nb_scan\<close>), a frame (\<open>nb_frame\<close>, subframe by subframe), silence
  (\<open>nb_null_frame\<close>) and loss concealment (\<open>nb_decode_lost\<close>). \<open>Nb_Safety\<close> has the invariant of the state and that
  every frame of every submode stays in its buffers (the locale \<open>decodable\<close>, interpreted on the eight
  submodes) and takes the bits that its table says; \<open>Nb_Control\<close> the requests of \<open>nb_decoder_ctl\<close>; \<open>Nb_Packets\<close> the contract of
  request handlers (the locale \<open>request_handlers\<close>, interpreted on those of the library), that the search ends, and
  the sessions of a decoder as a step relation: no packet, loss or request brings it out of order.

  \<^bold>\<open>Speex wideband decoder.\<close> \<open>Sb_Decoder\<close> has the modes of \<open>modes_wb.c\<close>, the record \<open>SBDecState\<close> and \<open>sb_decode\<close> of \<open>sb_celp.c\<close>, whose
  low decoder is reached through the record \<open>SpeexMode\<close>, the function pointers of a mode: the narrowband decoder for
  wideband, the wideband decoder for ultra-wideband. The low decoder works on the halves of the caller's block, and
  the innovation that it saves in the second half is passed in and out. \<open>Sb_Control\<close> has the requests of \<open>sb_decoder_ctl\<close>. \<open>Sb_Safety\<close> has the invariant, the contract of
  a low decoder (the locale \<open>low_decoder\<close>) and of the submodes (\<open>high_layer\<close>), and that a wideband decoder over a low decoder
  that keeps the contract keeps it too (a sublocale), so that one proof serves both; they are interpreted on
  the modes of the library. The decoder divides by the ratio of two filter responses, which the code does not check; the predicate \<open>sb_fails\<close>
  computes the packets for which it is zero, and the theorems are about the others. \<open>Sb_Packets\<close> has what a packet, a loss or
  a request does to a decoder and what a packet must hold.

  \<^bold>\<open>Bounds.\<close> The loops of the code run over arrays or down a counter and are structural
  recursions, with two exceptions: the terminator loop of the bit packer and the search for a
  fitting timestamp. The first is a \<open>partial_function\<close>, whose result \<open>None\<close> is not returning; two theorems
  say when it does. Hypotheses that bound parameters (such as timestamps less than half the range ahead) are
  stated in the theorems that need them.

  \<^bold>\<open>Speex resampler\<close> (\<open>Resampler_Table\<close>, \<open>libspeex/resample.c\<close>). The coefficients of the filters: the windows, the
  qualities, the interpolation of a window and the windowed sinc, operation by operation in floating point. Every coefficient is
  computed, within the table of the window, and fits 16 bits.

  \<^bold>\<open>Not modelled.\<close> Allocation and freeing of the state structs; the floating point build; the Speex encoders (\<open>nb_encode\<close>, \<open>sb_encode\<close>, the
  searches for pitch and innovation, linear prediction and rate control), the application calls of \<open>speex.c\<close>, the preprocessor,
  the echo canceller and the rest of the resampler (its state and the resampling itself); the FFTs, which are third party; test programs; headers of
  SpanDSP modules whose sources the repository does not have; the JNI and Java glue.
\<close>

end
